(* ===== verification/Teg_Prelude.thy ===== *)
theory Teg_Prelude
  imports
    Main
    "HOL-Library.Word"
    "HOL-Library.Monad_Syntax"
    "HOL-Library.Sublist"
begin

text \<open>
  Shared vocabulary of the development: the machine types of the sources, blocks of C memory with
  bounds-checked reads and writes, the little-endian object representation of unsigned integers,
  and the generic lemmas that the component theories use.

  A run of C++ code that has no defined meaning (an access outside a block, a division by zero, a signed overflow, a
  negative size passed to \<^verbatim>\<open>memcpy\<close>) is the value \<^const>\<open>None\<close>; every defined run is
  \<^term>\<open>Some r\<close>. A nullable pointer is an \<open>option\<close> too, with \<^const>\<open>None\<close> for \<^verbatim>\<open>NULL\<close>.
\<close>

unbundle bit_operations_syntax

named_theorems mem_simps \<open>reads and writes of memory blocks\<close>
named_theorems cstr_simps \<open>C strings and the string functions of the C library\<close>

section \<open>Machine types\<close>

type_synonym byte = "8 word"
type_synonym u32 = "32 word"
type_synonym u64 = "64 word"

type_synonym 'a run = "'a option"

abbreviation int_max :: int where
  "int_max \<equiv> 2147483647"

text \<open>
  \<^verbatim>\<open>(size_t) n\<close> for a C \<^verbatim>\<open>int\<close> (a negative value becomes huge), and \<^verbatim>\<open>int n = x.size()\<close>,
  which keeps the low 32 bits and reads them as signed.
\<close>

definition size_t :: "int \<Rightarrow> nat" where
  "size_t n = unat (word_of_int n :: u64)"

definition csize :: "'a list \<Rightarrow> int" where
  "csize xs = sint (word_of_nat (length xs) :: u32)"

lemma size_t_nonneg [simp]: "0 \<le> n \<Longrightarrow> n \<le> int_max \<Longrightarrow> size_t n = nat n"
  unfolding size_t_def
  by (simp add: unat_eq_nat_uint uint_word_of_int_eq take_bit_int_eq_self)

lemma size_t_of_nat [simp]: "int n \<le> int_max \<Longrightarrow> size_t (int n) = n"
  by simp

lemma size_t_neg: "- int_max \<le> n \<Longrightarrow> n < 0 \<Longrightarrow> size_t n = 2 ^ 64 - nat (- n)"
proof -
  assume n: "- int_max \<le> n" "n < 0"
  have "uint (word_of_int n :: u64) = n mod 2 ^ 64"
    by (simp add: uint_word_of_int_eq take_bit_eq_mod)
  also have "\<dots> = (n + 2 ^ 64) mod 2 ^ 64"
    by simp
  also have "\<dots> = n + 2 ^ 64"
    using n by (intro mod_pos_pos_trivial) auto
  finally show ?thesis
    using n by (simp add: size_t_def unat_eq_nat_uint nat_diff_distrib)
qed

lemma csize_small [simp]: "int (length xs) \<le> int_max \<Longrightarrow> csize xs = int (length xs)"
  unfolding csize_def
  by (simp add: signed_of_nat signed_take_bit_int_eq_self)

lemma unat_u32_small: "int n \<le> int_max \<Longrightarrow> unat (word_of_nat n :: u32) = n"
  by (simp add: unat_of_nat)

lemma sint_u32_small: "int n \<le> int_max \<Longrightarrow> sint (word_of_nat n :: u32) = int n"
  by (simp add: signed_of_nat signed_take_bit_int_eq_self)

text \<open>
  A function that is declared with a result and whose last statement is not a \<^verbatim>\<open>return\<close> has no defined meaning in C++ once it gets there (recent
  compilers generate no code for that point): \<open>no_return\<close> marks it after the work of the function.
\<close>

definition no_return :: "'a \<Rightarrow> 'b run" where
  "no_return x = None"

lemma no_return_None [simp]: "no_return x = None"
  by (simp add: no_return_def)

section \<open>Blocks of memory\<close>

definition mem_read :: "'a list \<Rightarrow> nat \<Rightarrow> nat \<Rightarrow> 'a list run" where
  "mem_read m p n = (if p + n \<le> length m then Some (take n (drop p m)) else None)"

definition mem_write :: "'a list \<Rightarrow> nat \<Rightarrow> 'a list \<Rightarrow> 'a list run" where
  "mem_write m p xs =
     (if p + length xs \<le> length m then Some (take p m @ xs @ drop (p + length xs) m) else None)"

text \<open>
  \<^verbatim>\<open>memcpy\<close> copies from one block to another; \<open>memcpy_within\<close> is the same call with both pointers in
  one block, which is undefined when the ranges overlap.
\<close>

definition memcpy :: "'a list \<Rightarrow> nat \<Rightarrow> 'a list \<Rightarrow> nat \<Rightarrow> nat \<Rightarrow> 'a list run" where
  "memcpy dst dp src sp n = do { xs \<leftarrow> mem_read src sp n; mem_write dst dp xs }"

definition memcpy_within :: "'a list \<Rightarrow> nat \<Rightarrow> nat \<Rightarrow> nat \<Rightarrow> 'a list run" where
  "memcpy_within m dp sp n = (if dp + n \<le> sp \<or> sp + n \<le> dp \<or> n = 0 then memcpy m dp m sp n else None)"

text \<open>
  The pops of \<^verbatim>\<open>BinaryString.cpp\<close> move the rest of a string to its start with \<^verbatim>\<open>memcpy\<close>, and the ranges
  overlap whenever the rest is longer than what was popped. The C standard leaves these calls undefined.
  For them alone the development does not take the standard's view, in which hardly any answer of a
  server could be read: \<open>memcpy_down\<close> stands for a C library that copies upwards from the lower address.
  Everything that pops from a \<^verbatim>\<open>std::string\<close> (the commands of the SFTP client) is meant with such a library.
\<close>

definition memcpy_down :: "'a list \<Rightarrow> nat \<Rightarrow> nat \<Rightarrow> 'a list run" where
  "memcpy_down m sp n = memcpy m 0 m sp n"

lemma mem_read_Some_iff [mem_simps]:
  "mem_read m p n = Some xs \<longleftrightarrow> p + n \<le> length m \<and> xs = take n (drop p m)"
  by (auto simp: mem_read_def)

lemma mem_write_Some_iff [mem_simps]:
  "mem_write m p xs = Some m' \<longleftrightarrow>
     p + length xs \<le> length m \<and> m' = take p m @ xs @ drop (p + length xs) m"
  by (auto simp: mem_write_def)

lemma mem_write_length: "mem_write m p xs = Some m' \<Longrightarrow> length m' = length m"
  by (auto simp: mem_simps)

lemma mem_write_nth:
  "mem_write m p xs = Some m' \<Longrightarrow> i < length m \<Longrightarrow>
     m' ! i = (if i < p then m ! i else if i < p + length xs then xs ! (i - p)
               else m ! i)"
  by (auto simp: mem_simps nth_append min_def)

lemma memcpy_Some_iff [mem_simps]:
  "memcpy dst dp src sp n = Some m' \<longleftrightarrow>
     sp + n \<le> length src \<and> dp + n \<le> length dst \<and>
     m' = take dp dst @ take n (drop sp src) @ drop (dp + n) dst"
  by (auto simp: memcpy_def mem_simps bind_eq_Some_conv)

lemma memcpy_length: "memcpy dst dp src sp n = Some m' \<Longrightarrow> length m' = length dst"
  by (auto simp: mem_simps)

lemma memcpy_None_iff [mem_simps]:
  "memcpy dst dp src sp n = None \<longleftrightarrow> \<not> (sp + n \<le> length src \<and> dp + n \<le> length dst)"
  by (auto simp: memcpy_def mem_read_def mem_write_def)

text \<open>
  Signed \<^verbatim>\<open>int\<close> addition is undefined outside the range of the type. \<^verbatim>\<open>std::string::resize\<close>
  cuts the string or appends zero bytes; a negative \<^verbatim>\<open>int\<close> argument converts to a size no string
  can have.
\<close>

definition cint_add :: "int \<Rightarrow> int \<Rightarrow> int run" where
  "cint_add a b = (if - int_max - 1 \<le> a + b \<and> a + b \<le> int_max then Some (a + b) else None)"

definition str_resize :: "int \<Rightarrow> 'a::zero list \<Rightarrow> 'a list run" where
  "str_resize n s =
     (if n < 0 then None
      else Some (take (nat n) s @ replicate (nat n - length s) 0))"

section \<open>Object representation of unsigned integers\<close>

text \<open>
  The hosts the library builds for are little-endian: byte \<open>i\<close> of an unsigned object holds bits
  \<open>8 * i ..< 8 * i + 8\<close>. \<open>obj_bytes n w\<close> is what \<^verbatim>\<open>(uint8_t *) &value\<close> sees, \<open>word_of_le\<close> what
  a load through a cast pointer returns.
\<close>

definition obj_bytes :: "nat \<Rightarrow> 'a::len word \<Rightarrow> byte list" where
  "obj_bytes n w = map (\<lambda>i. ucast (drop_bit (8 * i) w)) [0..<n]"

fun word_of_le :: "byte list \<Rightarrow> 'a::len word" where
  "word_of_le [] = 0"
| "word_of_le (b # bs) = ucast b OR push_bit 8 (word_of_le bs)"

lemma length_obj_bytes [simp]: "length (obj_bytes n w) = n"
  by (simp add: obj_bytes_def)

lemma nth_obj_bytes [simp]: "i < n \<Longrightarrow> obj_bytes n w ! i = ucast (drop_bit (8 * i) w)"
  by (simp add: obj_bytes_def)

lemma bit_word_of_le:
  "bit (word_of_le bs :: 'a::len word) k \<longleftrightarrow>
     k < LENGTH('a) \<and> k div 8 < length bs \<and> bit (bs ! (k div 8)) (k mod 8)"
proof (induction bs arbitrary: k)
  case Nil
  then show ?case by simp
next
  case (Cons b bs)
  show ?case
  proof (cases "k < 8")
    case True
    then show ?thesis by (auto simp: bit_simps Cons.IH)
  next
    case False
    then have "k div 8 = Suc ((k - 8) div 8)" "k mod 8 = (k - 8) mod 8"
      by (simp_all add: le_div_geq mod_if [of k 8])
    moreover have "\<not> bit b k"
      using False bit_imp_le_length [of b k] by auto
    ultimately show ?thesis
      using False by (auto simp: bit_simps Cons.IH)
  qed
qed

lemma word_of_le_obj_bytes [simp]:
  assumes "LENGTH('a) \<le> 8 * n"
  shows "word_of_le (obj_bytes n (w :: 'a::len word)) = w"
proof (rule bit_word_eqI)
  fix k
  assume k: "k < LENGTH('a)"
  then have "k div 8 < n" using assms by auto
  moreover have "8 * (k div 8) + k mod 8 = k" by simp
  ultimately show "bit (word_of_le (obj_bytes n w) :: 'a word) k = bit w k"
    using k by (auto simp: bit_word_of_le bit_simps)
qed

lemma obj_bytes_word_of_le [simp]:
  assumes "length bs = n" "8 * n \<le> LENGTH('a)"
  shows "obj_bytes n (word_of_le bs :: 'a::len word) = bs"
proof (rule nth_equalityI)
  show "length (obj_bytes n (word_of_le bs :: 'a word)) = length bs"
    using assms by simp
next
  fix i
  assume "i < length (obj_bytes n (word_of_le bs :: 'a word))"
  then have i: "i < n" by simp
  show "obj_bytes n (word_of_le bs :: 'a word) ! i = bs ! i"
  proof (rule bit_word_eqI)
    fix k :: nat
    assume "k < LENGTH(8)"
    then have k: "k < 8" by simp
    then have "8 * i + k < LENGTH('a)" using i assms by linarith
    then show "bit (obj_bytes n (word_of_le bs :: 'a word) ! i) k = bit (bs ! i) k"
      using i k assms by (auto simp: bit_simps bit_word_of_le)
  qed
qed

lemma word_eq_0_bits: "(w :: 'a::len word) = 0 \<longleftrightarrow> (\<forall>k. \<not> bit w k)"
proof
  show "\<forall>k. \<not> bit w k \<Longrightarrow> w = 0" by (rule bit_word_eqI) simp
qed simp

section \<open>Invariants of step relations\<close>

text \<open>What a step relation has to satisfy for a predicate to hold in every reachable state.\<close>

locale step_invariant =
  fixes step :: "'s \<Rightarrow> 's \<Rightarrow> bool"
    and inv :: "'s \<Rightarrow> bool"
  assumes inv_step: "inv s \<Longrightarrow> step s s' \<Longrightarrow> inv s'"
begin

lemma inv_reachable: "step\<^sup>*\<^sup>* s s' \<Longrightarrow> inv s \<Longrightarrow> inv s'"
  by (induction rule: rtranclp_induct) (auto intro: inv_step)

end

section \<open>Lists and words\<close>

text \<open>Scans of a list that stop nowhere.\<close>

lemma takeWhile_all: "\<forall>x\<in>set xs. P x \<Longrightarrow> takeWhile P xs = xs"
  by (induction xs) auto

lemma dropWhile_all: "\<forall>x\<in>set xs. P x \<Longrightarrow> dropWhile P xs = []"
  by (induction xs) auto

lemma takeWhile_neq_all: "c \<notin> set xs \<Longrightarrow> takeWhile (\<lambda>x. x \<noteq> c) xs = xs"
  by (intro takeWhile_all) auto

text \<open>Taking a list apart into its first bytes, as the byte-swapping assignments of the sources do.\<close>

lemma length_Suc_nth:
  "length xs = Suc n \<Longrightarrow> xs = xs ! 0 # tl xs"
  by (cases xs) auto

lemma upt4: "[0..<4] = [0, 1, 2, 3 :: nat]"
  by (simp add: upt_rec)

lemma upt8: "[0..<8] = [0, 1, 2, 3, 4, 5, 6, 7 :: nat]"
  by (simp add: upt_rec)

lemma nths4: "length xs = 4 \<Longrightarrow> [xs ! 0, xs ! 1, xs ! 2, xs ! 3] = xs"
  by (intro nth_equalityI) (auto simp: less_Suc_eq numeral_eq_Suc)

lemma nths8:
  "length xs = 8 \<Longrightarrow>
     [xs ! 0, xs ! 1, xs ! 2, xs ! 3, xs ! 4, xs ! 5, xs ! 6, xs ! 7] = xs"
  by (intro nth_equalityI) (auto simp: less_Suc_eq numeral_eq_Suc)

lemma rev_nths8:
  "length xs = 8 \<Longrightarrow>
     [xs ! 7, xs ! 6, xs ! 5, xs ! 4, xs ! 3, xs ! 2, xs ! 1, xs ! 0] = rev xs"
  using arg_cong [OF nths8 [of xs], of rev] by simp

end
