(* ===== verification/Str_Binary.thy ===== *)
theory Str_Binary
  imports Teg_Prelude
begin

text \<open>
  Binary buffers of LibStr: \<^verbatim>\<open>BinaryString.cpp\<close> (values pushed to and popped from a
  \<^verbatim>\<open>std::string\<close>) and \<^verbatim>\<open>Binary.cpp\<close> (values popped from a C-style pair of a pointer and a count
  of bytes left).

  A function of the sources that returns an exit code and writes through reference or pointer
  parameters returns the tuple of the exit code and the new values of these parameters. The second
  half of the theory states the wire format as an interface (locale \<open>codec\<close>) that every
  push/pop pair implements, and proves the round trip of a whole packet once, in the locale.
\<close>

section \<open>Values in a std::string (BinaryString.cpp)\<close>

definition STR_LITTLE_ENDIAN :: int where
  "STR_LITTLE_ENDIAN = 0"

definition STR_BIG_ENDIAN :: int where
  "STR_BIG_ENDIAN = 1"

definition StrPopRaw_str ::
    "byte list option \<Rightarrow> int \<Rightarrow> byte list \<Rightarrow> (int \<times> byte list option \<times> byte list) run" where
  "StrPopRaw_str raw rawSize buf =
     (let bufSize = csize buf in
      case raw of
        None \<Rightarrow> Some (-1, raw, buf)
      | Some r \<Rightarrow>
          if rawSize > bufSize then Some (-1, raw, buf)
          else do {
            r' \<leftarrow> memcpy r 0 buf 0 (size_t rawSize);
            buf' \<leftarrow> memcpy_down buf (size_t rawSize) (size_t (bufSize - rawSize));
            buf'' \<leftarrow> str_resize (bufSize - rawSize) buf';
            Some (0, Some r', buf'')
          })"

definition StrPopQword_str ::
    "u64 option \<Rightarrow> byte list \<Rightarrow> int \<Rightarrow> (int \<times> u64 option \<times> byte list) run" where
  "StrPopQword_str value buf flags =
     (let bufSize = csize buf in
      if value = None then Some (-1, value, buf)
      else if bufSize < 8 then Some (-1, value, buf)
      else do {
        src \<leftarrow> mem_read buf 0 8;
        let v = (if flags AND STR_BIG_ENDIAN \<noteq> 0
                 then word_of_le [src ! 7, src ! 6, src ! 5, src ! 4, src ! 3, src ! 2, src ! 1, src ! 0]
                 else word_of_le src);
        let bufSize' = bufSize - 8;
        buf' \<leftarrow> (if bufSize' > 0 then memcpy_down buf 8 (size_t bufSize') else Some buf);
        buf'' \<leftarrow> str_resize bufSize' buf';
        Some (0, Some v, buf'')
      })"

definition StrPopDword_str ::
    "u32 option \<Rightarrow> byte list \<Rightarrow> int \<Rightarrow> (int \<times> u32 option \<times> byte list) run" where
  "StrPopDword_str value buf flags =
     (let bufSize = csize buf in
      if value = None then Some (-1, value, buf)
      else if bufSize < 4 then Some (-1, value, buf)
      else do {
        src \<leftarrow> mem_read buf 0 4;
        let v = (if flags AND STR_BIG_ENDIAN \<noteq> 0
                 then word_of_le [src ! 3, src ! 2, src ! 1, src ! 0]
                 else word_of_le src);
        let bufSize' = bufSize - 4;
        buf' \<leftarrow> (if bufSize' > 0 then memcpy_down buf 4 (size_t bufSize') else Some buf);
        buf'' \<leftarrow> str_resize bufSize' buf';
        Some (0, Some v, buf'')
      })"

definition StrPopByte_str ::
    "byte option \<Rightarrow> byte list \<Rightarrow> (int \<times> byte option \<times> byte list) run" where
  "StrPopByte_str value buf =
     (let bufSize = csize buf in
      if value = None then Some (-1, value, buf)
      else if bufSize < 1 then Some (-1, value, buf)
      else do {
        src \<leftarrow> mem_read buf 0 1;
        let bufSize' = bufSize - 1;
        buf' \<leftarrow> (if bufSize' > 0 then memcpy_down buf 1 (size_t bufSize') else Some buf);
        buf'' \<leftarrow> str_resize bufSize' buf';
        Some (0, Some (src ! 0), buf'')
      })"

definition StrPushRaw_str ::
    "byte list \<Rightarrow> byte list option \<Rightarrow> int \<Rightarrow> (int \<times> byte list) run" where
  "StrPushRaw_str buf raw rawSize =
     (let bufSize = csize buf in
      if rawSize > 0 then
        (case raw of
           None \<Rightarrow> Some (-1, buf)
         | Some r \<Rightarrow> do {
             n \<leftarrow> cint_add bufSize rawSize;
             buf' \<leftarrow> str_resize n buf;
             buf'' \<leftarrow> memcpy buf' (size_t bufSize) r 0 (size_t rawSize);
             Some (0, buf'')
           })
      else Some (0, buf))"

definition StrPushQword_str :: "byte list \<Rightarrow> u64 \<Rightarrow> int \<Rightarrow> (int \<times> byte list) run" where
  "StrPushQword_str buf value flags =
     (let bufSize = csize buf; src = obj_bytes 8 value in do {
        n \<leftarrow> cint_add bufSize 8;
        buf' \<leftarrow> str_resize n buf;
        buf'' \<leftarrow> mem_write buf' (size_t bufSize)
          (if flags AND STR_BIG_ENDIAN \<noteq> 0
           then [src ! 7, src ! 6, src ! 5, src ! 4, src ! 3, src ! 2, src ! 1, src ! 0]
           else src);
        Some (0, buf'')
      })"

definition StrPushDword_str :: "byte list \<Rightarrow> u32 \<Rightarrow> int \<Rightarrow> (int \<times> byte list) run" where
  "StrPushDword_str buf value flags =
     (let bufSize = csize buf; src = obj_bytes 4 value in do {
        n \<leftarrow> cint_add bufSize 4;
        buf' \<leftarrow> str_resize n buf;
        buf'' \<leftarrow> mem_write buf' (size_t bufSize)
          (if flags AND STR_BIG_ENDIAN \<noteq> 0
           then [src ! 3, src ! 2, src ! 1, src ! 0]
           else src);
        Some (0, buf'')
      })"

definition StrPushByte_str :: "byte list \<Rightarrow> byte \<Rightarrow> (int \<times> byte list) run" where
  "StrPushByte_str buf value = Some (0, buf @ [value])"

text \<open>
  \<^verbatim>\<open>str\<close> is given by its bytes before the zero terminator; the block it points to is
  \<open>str @ [0]\<close>. \<^verbatim>\<open>strlen\<close> of a null pointer is undefined. The exit codes of the two inner
  pushes are ignored, as in the source.
\<close>

definition StrPushString_str :: "byte list \<Rightarrow> byte list option \<Rightarrow> (int \<times> byte list) run" where
  "StrPushString_str buf str = do {
     s \<leftarrow> str;
     let len = csize (s @ [0]);
     (_, buf') \<leftarrow> StrPushDword_str buf (word_of_int len) STR_LITTLE_ENDIAN;
     (_, buf'') \<leftarrow> StrPushRaw_str buf' (Some (s @ [0])) len;
     Some (0, buf'')
   }"

section \<open>Values in a C-style buffer (Binary.cpp)\<close>

text \<open>
  The parameters \<^verbatim>\<open>char **it\<close> and \<^verbatim>\<open>int *bytesLeft\<close> with the block they point into:
  \<open>cb_it\<close> is \<open>None\<close> for \<^verbatim>\<open>it == NULL\<close>, \<open>Some None\<close> for \<^verbatim>\<open>*it == NULL\<close>, otherwise the offset
  of \<^verbatim>\<open>*it\<close> in the block. The count of bytes left is the caller's word; nothing ties it to the
  block but \<open>cursor_ok\<close> below.
\<close>

record cbuf =
  cb_mem :: "byte list"
  cb_it :: "nat option option"
  cb_left :: "int option"

abbreviation advance :: "nat \<Rightarrow> nat \<Rightarrow> int \<Rightarrow> cbuf \<Rightarrow> cbuf" where
  "advance n p left c \<equiv> c\<lparr>cb_it := Some (Some (p + n)), cb_left := Some (left - int n)\<rparr>"

definition StrPopRaw_c ::
    "byte list option \<Rightarrow> int \<Rightarrow> cbuf \<Rightarrow> (int \<times> byte list option \<times> cbuf) run" where
  "StrPopRaw_c raw rawSize c =
     (case (cb_it c, raw, cb_left c) of
        (Some (Some p), Some r, Some left) \<Rightarrow>
          if rawSize > left then Some (-1, raw, c)
          else do {
            r' \<leftarrow> memcpy r 0 (cb_mem c) p (size_t rawSize);
            Some (0, Some r',
                  c\<lparr>cb_it := Some (Some (p + nat rawSize)), cb_left := Some (left - rawSize)\<rparr>)
          }
      | _ \<Rightarrow> Some (-1, raw, c))"

definition StrPopQword_c ::
    "u64 option \<Rightarrow> int \<Rightarrow> cbuf \<Rightarrow> (int \<times> u64 option \<times> cbuf) run" where
  "StrPopQword_c value flags c =
     (case (cb_it c, value, cb_left c) of
        (Some (Some p), Some _, Some left) \<Rightarrow>
          if left < 8 then Some (-1, value, c)
          else do {
            src \<leftarrow> mem_read (cb_mem c) p 8;
            let v = (if flags AND STR_BIG_ENDIAN \<noteq> 0
                     then word_of_le [src ! 7, src ! 6, src ! 5, src ! 4, src ! 3, src ! 2, src ! 1, src ! 0]
                     else word_of_le src);
            Some (0, Some v, advance 8 p left c)
          }
      | _ \<Rightarrow> Some (-1, value, c))"

definition StrPopDword_c ::
    "u32 option \<Rightarrow> int \<Rightarrow> cbuf \<Rightarrow> (int \<times> u32 option \<times> cbuf) run" where
  "StrPopDword_c value flags c =
     (case (cb_it c, cb_left c, value) of
        (Some (Some p), Some left, Some _) \<Rightarrow>
          if left < 4 then Some (-1, value, c)
          else do {
            src \<leftarrow> mem_read (cb_mem c) p 4;
            let v = (if flags AND STR_BIG_ENDIAN \<noteq> 0
                     then word_of_le [src ! 3, src ! 2, src ! 1, src ! 0]
                     else word_of_le src);
            Some (0, Some v, advance 4 p left c)
          }
      | _ \<Rightarrow> Some (-1, value, c))"

definition StrPopByte_c :: "byte option \<Rightarrow> cbuf \<Rightarrow> (int \<times> byte option \<times> cbuf) run" where
  "StrPopByte_c value c =
     (case (cb_it c, cb_left c, value) of
        (Some (Some p), Some left, Some _) \<Rightarrow>
          if left < 1 then Some (-1, value, c)
          else do {
            src \<leftarrow> mem_read (cb_mem c) p 1;
            Some (0, Some (src ! 0), advance 1 p left c)
          }
      | _ \<Rightarrow> Some (-1, value, c))"

text \<open>
  The pointer that \<^verbatim>\<open>StrPopString\<close> hands out: the literal \<^verbatim>\<open>""\<close> or a position in the block. The
  comparison \<^verbatim>\<open>*bytesLeft < len\<close> and the subtraction \<^verbatim>\<open>*bytesLeft -= len\<close> are unsigned, since
  \<^verbatim>\<open>len\<close> is a \<^verbatim>\<open>uint32_t\<close>.
\<close>

datatype strref = EmptyLit | InBuf nat

definition StrPopString_c ::
    "strref option \<Rightarrow> int option \<Rightarrow> cbuf \<Rightarrow> (int \<times> strref option \<times> int option \<times> cbuf) run" where
  "StrPopString_c str strLen c =
     (case str of
        None \<Rightarrow> Some (-1, None, strLen, c)
      | Some _ \<Rightarrow> do {
          (rc, len', c') \<leftarrow> StrPopDword_c (Some 0) STR_LITTLE_ENDIAN c;
          if rc \<noteq> 0 then Some (-1, Some EmptyLit, strLen, c')
          else (case (len', cb_it c', cb_left c') of
            (Some len, Some (Some p), Some left) \<Rightarrow>
              if (word_of_int left :: u32) < len then Some (-1, Some EmptyLit, strLen, c')
              else do {
                let c'' = c'\<lparr>cb_it := Some (Some (p + unat len)),
                             cb_left := Some (sint (word_of_int left - len :: u32))\<rparr>;
                let outLen = map_option (\<lambda>_. sint len) strLen;
                if len > 0 then do {
                  m \<leftarrow> mem_write (cb_mem c'') (p + unat len - 1) [0];
                  Some (0, Some (InBuf p), outLen, c''\<lparr>cb_mem := m\<rparr>)
                }
                else Some (0, Some EmptyLit, outLen, c'')
              }
          | _ \<Rightarrow> None)
        })"

section \<open>Packets\<close>

text \<open>
  A packet is written by a sequence of pushes to an empty \<^verbatim>\<open>std::string\<close> and read by the same
  sequence of C-style pops, as in \<^verbatim>\<open>Example01-bianary-packet\<close>. A shape names the function that is
  called, with its endianness flags; \<open>push_all\<close> and \<open>pop_all\<close> are the two sequences, and
  \<open>pop_all\<close> stops at the first pop that fails.
\<close>

datatype shape = SByte | SDword int | SQword int | SString

datatype field = VByte byte | VDword u32 | VQword u64 | VString "byte list"

definition str_at :: "byte list \<Rightarrow> strref \<Rightarrow> byte list" where
  "str_at m r = (case r of EmptyLit \<Rightarrow> [] | InBuf p \<Rightarrow> takeWhile (\<lambda>b. b \<noteq> 0) (drop p m))"

fun push_field :: "shape \<Rightarrow> field \<Rightarrow> byte list \<Rightarrow> (int \<times> byte list) run" where
  "push_field SByte (VByte v) buf = StrPushByte_str buf v"
| "push_field (SDword flags) (VDword v) buf = StrPushDword_str buf v flags"
| "push_field (SQword flags) (VQword v) buf = StrPushQword_str buf v flags"
| "push_field SString (VString s) buf = StrPushString_str buf (Some s)"
| "push_field _ _ buf = Some (-1, buf)"

fun pop_field :: "shape \<Rightarrow> cbuf \<Rightarrow> (int \<times> field \<times> cbuf) run" where
  "pop_field SByte c = do {
     (rc, v, c') \<leftarrow> StrPopByte_c (Some 0) c; Some (rc, VByte (the v), c') }"
| "pop_field (SDword flags) c = do {
     (rc, v, c') \<leftarrow> StrPopDword_c (Some 0) flags c; Some (rc, VDword (the v), c') }"
| "pop_field (SQword flags) c = do {
     (rc, v, c') \<leftarrow> StrPopQword_c (Some 0) flags c; Some (rc, VQword (the v), c') }"
| "pop_field SString c = do {
     (rc, r, _, c') \<leftarrow> StrPopString_c (Some EmptyLit) None c;
     Some (rc, VString (str_at (cb_mem c') (the r)), c') }"

fun push_all :: "('s \<Rightarrow> 'a \<Rightarrow> byte list \<Rightarrow> (int \<times> byte list) run) \<Rightarrow>
    ('s \<times> 'a) list \<Rightarrow> byte list \<Rightarrow> (int \<times> byte list) run" where
  "push_all put [] buf = Some (0, buf)"
| "push_all put ((s, v) # xs) buf = do {
     (rc, buf') \<leftarrow> put s v buf;
     if rc \<noteq> 0 then Some (rc, buf') else push_all put xs buf' }"

fun pop_all :: "('s \<Rightarrow> cbuf \<Rightarrow> (int \<times> 'a \<times> cbuf) run) \<Rightarrow>
    's list \<Rightarrow> cbuf \<Rightarrow> (int \<times> 'a list \<times> cbuf) run" where
  "pop_all get [] c = Some (0, [], c)"
| "pop_all get (s # ss) c = do {
     (rc, v, c') \<leftarrow> get s c;
     if rc \<noteq> 0 then Some (rc, [], c')
     else do { (rc', vs, c'') \<leftarrow> pop_all get ss c'; Some (rc', v # vs, c'') } }"

section \<open>The interfaces\<close>

text \<open>
  A cursor is valid when the bytes it claims to have left lie inside its block. A pop takes bytes
  from the front of that window: it moves the pointer forward, keeps the end of the window, and
  writes at most to the bytes it consumed.
\<close>

definition cursor_ok :: "cbuf \<Rightarrow> bool" where
  "cursor_ok c = (case (cb_it c, cb_left c) of
     (Some (Some p), Some left) \<Rightarrow> 0 \<le> left \<and> left \<le> int_max \<and> p + nat left \<le> length (cb_mem c)
   | _ \<Rightarrow> False)"

definition pop_step :: "cbuf \<Rightarrow> cbuf \<Rightarrow> bool" where
  "pop_step c c' = (case (cb_it c, cb_left c, cb_it c', cb_left c') of
     (Some (Some p), Some l, Some (Some p'), Some l') \<Rightarrow>
       p \<le> p' \<and> 0 \<le> l' \<and> p' + nat l' = p + nat l \<and>
       length (cb_mem c') = length (cb_mem c) \<and>
       take p (cb_mem c') = take p (cb_mem c) \<and> drop p' (cb_mem c') = drop p' (cb_mem c)
   | _ \<Rightarrow> False)"

text \<open>The cursor after \<open>pre\<close> with \<open>rest\<close> still to be read.\<close>

definition cursor_at :: "byte list \<Rightarrow> byte list \<Rightarrow> cbuf" where
  "cursor_at pre rest =
     \<lparr>cb_mem = pre @ rest, cb_it = Some (Some (length pre)), cb_left = Some (int (length rest))\<rparr>"

lemma cursor_okE:
  assumes "cursor_ok c"
  obtains p left where "cb_it c = Some (Some p)" "cb_left c = Some left" "0 \<le> left"
    "left \<le> int_max" "p + nat left \<le> length (cb_mem c)"
  using assms by (auto simp: cursor_ok_def split: option.splits)

lemma pop_step_refl: "cursor_ok c \<Longrightarrow> pop_step c c"
  by (auto elim!: cursor_okE simp: pop_step_def)

lemma pop_step_ok: "cursor_ok c \<Longrightarrow> pop_step c c' \<Longrightarrow> cursor_ok c'"
  by (auto elim!: cursor_okE simp: pop_step_def cursor_ok_def split: option.splits)

lemma take_drop_le:
  assumes "p \<le> q" "take q xs = take q ys" shows "take p xs = take p ys"
  using assms by (metis min.absorb1 take_take)

lemma drop_drop_le:
  assumes "p \<le> q" "drop p xs = drop p ys" shows "drop q xs = drop q ys"
  using assms by (metis drop_drop le_add_diff_inverse2)

lemma pop_step_trans: "pop_step c c' \<Longrightarrow> pop_step c' c'' \<Longrightarrow> pop_step c c''"
  by (auto simp: pop_step_def split: option.splits
      dest: take_drop_le drop_drop_le)

locale popper =
  fixes get :: "'s \<Rightarrow> cbuf \<Rightarrow> (int \<times> 'a \<times> cbuf) run"
  assumes get_safe: "cursor_ok c \<Longrightarrow> \<exists>rc v c'. get s c = Some (rc, v, c') \<and> pop_step c c'"
begin

lemma pop_all_safe:
  "cursor_ok c \<Longrightarrow> \<exists>rc vs c'. pop_all get ss c = Some (rc, vs, c') \<and> pop_step c c'"
proof (induction ss arbitrary: c)
  case Nil
  then show ?case by (simp add: pop_step_refl)
next
  case (Cons s ss)
  obtain rc v c' where get: "get s c = Some (rc, v, c')" and step: "pop_step c c'"
    using get_safe [OF Cons.prems] by blast
  obtain rc' vs c'' where rest: "pop_all get ss c' = Some (rc', vs, c'')" "pop_step c' c''"
    using Cons.IH [OF pop_step_ok [OF Cons.prems step]] by blast
  show ?case
    using get rest step pop_step_trans [OF step rest(2)] by auto
qed

end

locale codec = popper get
  for get :: "'s \<Rightarrow> cbuf \<Rightarrow> (int \<times> 'a \<times> cbuf) run" +
  fixes put :: "'s \<Rightarrow> 'a \<Rightarrow> byte list \<Rightarrow> (int \<times> byte list) run"
    and enc :: "'s \<Rightarrow> 'a \<Rightarrow> byte list"
    and ok :: "'s \<Rightarrow> 'a \<Rightarrow> bool"
  assumes put_enc: "ok s v \<Longrightarrow> int (length buf + length (enc s v)) \<le> int_max \<Longrightarrow>
      put s v buf = Some (0, buf @ enc s v)"
    and get_enc: "ok s v \<Longrightarrow> int (length (enc s v) + length rest) \<le> int_max \<Longrightarrow>
      get s (cursor_at pre (enc s v @ rest)) = Some (0, v, cursor_at (pre @ enc s v) rest)"
begin

definition enc_all :: "('s \<times> 'a) list \<Rightarrow> byte list" where
  "enc_all xs = concat (map (\<lambda>(s, v). enc s v) xs)"

lemma enc_all_simps [simp]:
  "enc_all [] = []" "enc_all ((s, v) # xs) = enc s v @ enc_all xs"
  by (simp_all add: enc_all_def)

lemma push_all_enc:
  "list_all (\<lambda>(s, v). ok s v) xs \<Longrightarrow> int (length buf + length (enc_all xs)) \<le> int_max \<Longrightarrow>
     push_all put xs buf = Some (0, buf @ enc_all xs)"
  by (induction xs arbitrary: buf) (auto simp: put_enc)

lemma pop_all_enc:
  "list_all (\<lambda>(s, v). ok s v) xs \<Longrightarrow> int (length (enc_all xs) + length rest) \<le> int_max \<Longrightarrow>
     pop_all get (map fst xs) (cursor_at pre (enc_all xs @ rest)) =
       Some (0, map snd xs, cursor_at (pre @ enc_all xs) rest)"
  by (induction xs arbitrary: pre) (auto simp: get_enc)

lemma packet_roundtrip:
  assumes "list_all (\<lambda>(s, v). ok s v) xs" "int (length (enc_all xs)) \<le> int_max"
  shows "\<exists>pkt. push_all put xs [] = Some (0, pkt) \<and>
     pop_all get (map fst xs) (cursor_at [] pkt) = Some (0, map snd xs, cursor_at pkt [])"
  using push_all_enc [OF assms(1), of "[]"] pop_all_enc [OF assms(1), of "[]" "[]"] assms(2)
  by simp

end

section \<open>The wire format of each value\<close>

definition big_endian :: "int \<Rightarrow> bool" where
  "big_endian flags = (flags AND STR_BIG_ENDIAN \<noteq> 0)"

definition wire :: "nat \<Rightarrow> int \<Rightarrow> 'a::len word \<Rightarrow> byte list" where
  "wire n flags v = (if big_endian flags then rev (obj_bytes n v) else obj_bytes n v)"

definition wire_string :: "byte list \<Rightarrow> byte list" where
  "wire_string s = obj_bytes 4 (word_of_nat (Suc (length s)) :: u32) @ s @ [0]"

lemma length_wire [simp]: "length (wire n flags v) = n"
  by (simp add: wire_def)

lemma length_wire_string [simp]: "length (wire_string s) = length s + 5"
  by (simp add: wire_string_def)

lemma swap4: "length xs = 4 \<Longrightarrow> [xs ! 3, xs ! 2, xs ! Suc 0, xs ! 0] = rev xs"
  using nths4 [of "rev xs"] by (simp add: rev_nth)

lemma swap8:
  "length xs = 8 \<Longrightarrow>
     [xs ! 7, xs ! 6, xs ! 5, xs ! 4, xs ! 3, xs ! 2, xs ! Suc 0, xs ! 0] = rev xs"
  using nths8 [of "rev xs"] by (simp add: rev_nth)

text \<open>Every push grows the string by the encoding, at its end.\<close>

lemma grow_write:
  assumes "int (length buf + length xs) \<le> int_max"
  shows "cint_add (csize buf) (int (length xs)) = Some (int (length buf + length xs))"
    and "str_resize (int (length buf + length xs)) buf = Some (buf @ replicate (length xs) 0)"
    and "mem_write (buf @ replicate (length xs) 0) (size_t (csize buf)) xs = Some (buf @ xs)"
  using assms by (auto simp: cint_add_def str_resize_def mem_write_def nat_add_distrib)

lemma StrPushDword_wire:
  assumes "int (length buf + 4) \<le> int_max"
  shows "StrPushDword_str buf v flags = Some (0, buf @ wire 4 flags v)"
proof -
  have w: "(if flags AND STR_BIG_ENDIAN \<noteq> 0
            then [obj_bytes 4 v ! 3, obj_bytes 4 v ! 2, obj_bytes 4 v ! 1, obj_bytes 4 v ! 0]
            else obj_bytes 4 v) = wire 4 flags v"
    by (simp add: wire_def big_endian_def swap4 del: nth_obj_bytes)
  show ?thesis
    using assms grow_write [of buf "wire 4 flags v"] by (simp add: StrPushDword_str_def Let_def w)
qed

lemma StrPushQword_wire:
  assumes "int (length buf + 8) \<le> int_max"
  shows "StrPushQword_str buf v flags = Some (0, buf @ wire 8 flags v)"
proof -
  have w: "(if flags AND STR_BIG_ENDIAN \<noteq> 0
            then [obj_bytes 8 v ! 7, obj_bytes 8 v ! 6, obj_bytes 8 v ! 5, obj_bytes 8 v ! 4, obj_bytes 8 v ! 3, obj_bytes 8 v ! 2, obj_bytes 8 v ! 1, obj_bytes 8 v ! 0]
            else obj_bytes 8 v) = wire 8 flags v"
    by (simp add: wire_def big_endian_def swap8 del: nth_obj_bytes)
  show ?thesis
    using assms grow_write [of buf "wire 8 flags v"] by (simp add: StrPushQword_str_def Let_def w)
qed

lemma StrPushRaw_append:
  assumes "int (length buf + length r) \<le> int_max"
  shows "StrPushRaw_str buf (Some r) (int (length r)) = Some (0, buf @ r)"
  using assms grow_write [OF assms]
  by (auto simp: StrPushRaw_str_def Let_def memcpy_def mem_read_def)

lemma StrPushString_wire:
  assumes "int (length buf + length s + 5) \<le> int_max"
  shows "StrPushString_str buf (Some s) = Some (0, buf @ wire_string s)"
proof -
  have "StrPushRaw_str (buf @ wire 4 STR_LITTLE_ENDIAN (word_of_nat (Suc (length s)) :: u32))
          (Some (s @ [0])) (int (length (s @ [0 :: byte]))) =
        Some (0, (buf @ wire 4 STR_LITTLE_ENDIAN (word_of_nat (Suc (length s)) :: u32)) @ s @ [0])"
    using assms by (intro StrPushRaw_append) simp
  then show ?thesis
    using assms
    by (simp add: StrPushString_str_def StrPushDword_wire wire_string_def wire_def big_endian_def
        STR_LITTLE_ENDIAN_def)
qed

text \<open>Every pop reads the encoding back.\<close>

lemma mem_read_at [mem_simps]:
  "length xs = n \<Longrightarrow> mem_read (pre @ xs @ rest) (length pre) n = Some xs"
  by (simp add: mem_read_def)

lemma word_of_le_wire [simp]:
  "LENGTH('a) \<le> 8 * n \<Longrightarrow> big_endian flags \<Longrightarrow> word_of_le (rev (wire n flags v)) = (v :: 'a::len word)"
  "LENGTH('a) \<le> 8 * n \<Longrightarrow> \<not> big_endian flags \<Longrightarrow> word_of_le (wire n flags v) = (v :: 'a::len word)"
  by (simp_all add: wire_def)

lemma StrPopByte_wire:
  "StrPopByte_c (Some x) (cursor_at pre (b # rest)) = Some (0, Some b, cursor_at (pre @ [b]) rest)"
  using mem_read_at [of "[b]" 1 pre rest]
  by (simp add: StrPopByte_c_def cursor_at_def)

lemma StrPopDword_wire:
  "StrPopDword_c (Some x) flags (cursor_at pre (wire 4 flags v @ rest)) =
     Some (0, Some v, cursor_at (pre @ wire 4 flags v) rest)"
  by (simp add: StrPopDword_c_def cursor_at_def mem_simps swap4 del: word_of_le.simps flip: big_endian_def)

lemma StrPopQword_wire:
  "StrPopQword_c (Some x) flags (cursor_at pre (wire 8 flags v @ rest)) =
     Some (0, Some v, cursor_at (pre @ wire 8 flags v) rest)"
  by (simp add: StrPopQword_c_def cursor_at_def mem_simps swap8 del: word_of_le.simps flip: big_endian_def)

lemma StrPopString_wire:
  assumes "0 \<notin> set s" "int (length s + length rest + 5) \<le> int_max"
  shows "StrPopString_c (Some r) n (cursor_at pre (wire_string s @ rest)) =
     Some (0, Some (InBuf (length pre + 4)), map_option (\<lambda>_. int (length s) + 1) n,
           cursor_at (pre @ wire_string s) rest)"
proof -
  define len where "len = (word_of_nat (Suc (length s)) :: u32)"
  define left where "left = (word_of_int (int (length s) + 1 + int (length rest)) :: u32)"
  have len: "unat len = Suc (length s)" "sint len = int (length s) + 1"
    using assms(2) unat_u32_small [of "Suc (length s)"] sint_u32_small [of "Suc (length s)"]
    by (simp_all add: len_def)
  then have pos: "0 < len" by (simp add: word_less_nat_alt)
  have left: "left = word_of_nat (length s + length rest + 1)"
    by (simp add: left_def)
  then have le: "\<not> left < len"
    using assms(2) len(1) unat_u32_small [of "length s + length rest + 1"]
    by (simp add: word_less_nat_alt)
  have "left - len = word_of_nat (length rest)"
    by (simp add: left len_def)
  then have sub: "sint (left - len) = int (length rest)"
    using assms(2) by (simp only: sint_u32_small)
  have dw: "StrPopDword_c (Some 0) STR_LITTLE_ENDIAN (cursor_at pre (wire_string s @ rest)) =
      Some (0, Some len, cursor_at (pre @ obj_bytes 4 len) (s @ [0] @ rest))"
    using StrPopDword_wire [of 0 STR_LITTLE_ENDIAN pre len "s @ [0] @ rest"]
    by (simp add: wire_string_def wire_def big_endian_def STR_LITTLE_ENDIAN_def len_def)
  have ws: "wire_string s = obj_bytes 4 len @ s @ [0]"
    by (simp add: wire_string_def len_def)
  show ?thesis
    unfolding StrPopString_c_def dw option.case
    using pos le sub len(1)
    by (simp add: ws mem_write_def len(2) left cursor_at_def algebra_simps)
qed

section \<open>Safety of every pop on arbitrary input\<close>

lemma StrPopByte_safe:
  "cursor_ok c \<Longrightarrow> \<exists>rc v c'. StrPopByte_c (Some x) c = Some (rc, Some v, c') \<and> pop_step c c'"
  by (erule cursor_okE)
    (auto simp: StrPopByte_c_def mem_read_def pop_step_def nat_diff_distrib)

lemma StrPopDword_safe:
  "cursor_ok c \<Longrightarrow> \<exists>rc v c'. StrPopDword_c (Some x) fl c = Some (rc, Some v, c') \<and> pop_step c c'"
  by (erule cursor_okE)
    (auto simp: StrPopDword_c_def mem_read_def pop_step_def nat_diff_distrib)

lemma StrPopQword_safe:
  "cursor_ok c \<Longrightarrow> \<exists>rc v c'. StrPopQword_c (Some x) fl c = Some (rc, Some v, c') \<and> pop_step c c'"
  by (erule cursor_okE)
    (auto simp: StrPopQword_c_def mem_read_def pop_step_def nat_diff_distrib)

lemma u32_le_left:
  assumes "0 \<le> left" "left \<le> int_max" "\<not> (word_of_int left :: u32) < len"
  shows "unat len \<le> nat left" "sint (word_of_int left - len :: u32) = left - int (unat len)"
proof -
  obtain n where n: "left = int n" "int n \<le> int_max"
    using assms(1,2) by (metis nonneg_int_cases)
  then show le: "unat len \<le> nat left"
    using assms(3) by (simp add: word_less_nat_alt unat_u32_small)
  have "word_of_int left - len = (word_of_nat (n - unat len) :: u32)"
    using le n by (simp add: of_nat_diff)
  then have "sint (word_of_int left - len :: u32) = int (n - unat len)"
    using n(2) by (simp only: sint_u32_small)
  then show "sint (word_of_int left - len :: u32) = left - int (unat len)"
    using le n by linarith
qed

lemma StrPopString_safe:
  assumes "cursor_ok c"
  shows "\<exists>rc r n' c'. StrPopString_c (Some x) n c = Some (rc, Some r, n', c') \<and> pop_step c c'"
proof -
  obtain rc v c' where dw: "StrPopDword_c (Some 0) STR_LITTLE_ENDIAN c = Some (rc, Some v, c')"
    and step: "pop_step c c'"
    using StrPopDword_safe [OF assms] by blast
  show ?thesis
  proof (cases "rc = 0")
    case False
    then show ?thesis using dw step by (simp add: StrPopString_c_def)
  next
    case True
    have ok: "cursor_ok c'" by (rule pop_step_ok [OF assms step])
    then obtain p left where c': "cb_it c' = Some (Some p)" "cb_left c' = Some left" "0 \<le> left"
      "left \<le> int_max" "p + nat left \<le> length (cb_mem c')" by (rule cursor_okE)
    show ?thesis
    proof (cases "(word_of_int left :: u32) < v")
      case True
      then show ?thesis using dw step \<open>rc = 0\<close> c' by (simp add: StrPopString_c_def)
    next
      case False
      note v = u32_le_left [OF c'(3,4) False]
      have "\<exists>r n' c''. StrPopString_c (Some x) n c = Some (0, Some r, n', c'') \<and> pop_step c' c''"
      proof (cases "0 < v")
        case True
        then have "0 < unat v" by (simp add: word_less_nat_alt)
        then show ?thesis
          using dw \<open>rc = 0\<close> c' v True False
          by (auto simp add: StrPopString_c_def mem_write_def pop_step_def nat_diff_distrib
              simp del: of_nat_unat)
      next
        case v0: False
        then show ?thesis
          using dw \<open>rc = 0\<close> c' v False
          by (auto simp add: StrPopString_c_def pop_step_def nat_diff_distrib
              simp del: of_nat_unat)
      qed
      then show ?thesis using pop_step_trans [OF step] by blast
    qed
  qed
qed

lemma pop_field_safe:
  assumes "cursor_ok c"
  shows "\<exists>rc v c'. pop_field s c = Some (rc, v, c') \<and> pop_step c c'"
proof (cases s)
  case SByte
  then show ?thesis using StrPopByte_safe [OF assms, of 0] by auto
next
  case (SDword fl)
  then show ?thesis using StrPopDword_safe [OF assms, of 0 fl] by auto
next
  case (SQword fl)
  then show ?thesis using StrPopQword_safe [OF assms, of 0 fl] by auto
next
  case SString
  then show ?thesis using StrPopString_safe [OF assms, of EmptyLit None] by auto
qed

section \<open>The functions implement the interfaces\<close>

fun field_enc :: "shape \<Rightarrow> field \<Rightarrow> byte list" where
  "field_enc SByte (VByte v) = [v]"
| "field_enc (SDword flags) (VDword v) = wire 4 flags v"
| "field_enc (SQword flags) (VQword v) = wire 8 flags v"
| "field_enc SString (VString s) = wire_string s"
| "field_enc _ _ = []"

text \<open>A field fits its shape; a C string has no zero byte.\<close>

fun field_ok :: "shape \<Rightarrow> field \<Rightarrow> bool" where
  "field_ok SByte (VByte v) = True"
| "field_ok (SDword flags) (VDword v) = True"
| "field_ok (SQword flags) (VQword v) = True"
| "field_ok SString (VString s) = (0 \<notin> set s)"
| "field_ok _ _ = False"

lemma str_at_wire:
  "0 \<notin> set s \<Longrightarrow>
     str_at (cb_mem (cursor_at (pre @ wire_string s) rest)) (InBuf (length pre + 4)) = s"
  by (simp add: str_at_def cursor_at_def wire_string_def takeWhile_append2 takeWhile_tail)
    (metis append.assoc takeWhile_append2 takeWhile_tail append_Nil2)

interpretation fields: codec pop_field push_field field_enc field_ok
proof unfold_locales
  fix c s
  assume "cursor_ok c"
  then show "\<exists>rc v c'. pop_field s c = Some (rc, v, c') \<and> pop_step c c'"
    by (rule pop_field_safe)
next
  fix s v and buf :: "byte list"
  assume "field_ok s v" "int (length buf + length (field_enc s v)) \<le> int_max"
  then show "push_field s v buf = Some (0, buf @ field_enc s v)"
    by (cases "(s, v)" rule: field_ok.cases)
      (auto simp: StrPushByte_str_def StrPushDword_wire StrPushQword_wire StrPushString_wire)
next
  fix s v pre and rest :: "byte list"
  assume "field_ok s v" "int (length (field_enc s v) + length rest) \<le> int_max"
  then show "pop_field s (cursor_at pre (field_enc s v @ rest)) =
      Some (0, v, cursor_at (pre @ field_enc s v) rest)"
    by (cases "(s, v)" rule: field_ok.cases)
      (auto simp: StrPopByte_wire StrPopDword_wire StrPopQword_wire StrPopString_wire str_at_wire)
qed

section \<open>The number a wire encoding stands for\<close>

text \<open>The value of a byte sequence read with the most significant byte first.\<close>

definition be_value :: "byte list \<Rightarrow> int" where
  "be_value bs = foldl (\<lambda>a b. 256 * a + uint b) 0 bs"

lemma obj_bytes_Suc: "obj_bytes (Suc n) w = ucast w # obj_bytes n (drop_bit 8 w)"
proof (rule nth_equalityI)
  fix i
  assume "i < length (obj_bytes (Suc n) w)"
  then show "obj_bytes (Suc n) w ! i = (ucast w # obj_bytes n (drop_bit 8 w)) ! i"
    by (cases i) (auto simp: drop_bit_drop_bit ac_simps)
qed simp

lemma be_value_snoc: "be_value (bs @ [b]) = 256 * be_value bs + uint b"
  by (simp add: be_value_def)

lemma be_value_rev_obj_bytes: "be_value (rev (obj_bytes n w)) = uint w mod 2 ^ (8 * n)"
proof (induction n arbitrary: w)
  case 0
  then show ?case by (simp add: be_value_def obj_bytes_def)
next
  case (Suc n)
  have "uint (ucast w :: byte) = uint w mod 256"
    by (simp add: unsigned_ucast_eq take_bit_eq_mod)
  moreover have "uint (drop_bit 8 w) = uint w div 256"
    by (simp only: unsigned_drop_bit_eq) (simp add: drop_bit_eq_div take_bit_int_eq_self uint_bounded)
  moreover have "uint w mod 2 ^ (8 * Suc n) = uint w mod 256 + 256 * (uint w div 256 mod 2 ^ (8 * n))"
    using zmod_zmult2_eq [of "2 ^ (8 * n)" "uint w" 256] by (simp add: power_add ac_simps)
  ultimately show ?case
    by (simp add: obj_bytes_Suc be_value_snoc Suc.IH)
qed

lemma be_value_wire:
  assumes "LENGTH('a) \<le> 8 * n"
  shows "be_value (if big_endian flags then wire n flags v else rev (wire n flags v)) =
     uint (v :: 'a::len word)"
proof -
  have "uint v < 2 ^ (8 * n)"
    using assms uint_bounded [of v] by (meson less_le_trans one_le_numeral power_increasing)
  then show ?thesis by (simp add: wire_def be_value_rev_obj_bytes)
qed

section \<open>Pops from a std::string and C-style pops\<close>

text \<open>What is left of the string after a C-style pop over all of it.\<close>

definition unread :: "cbuf \<Rightarrow> byte list" where
  "unread c = (case cb_it c of Some (Some p) \<Rightarrow> drop p (cb_mem c) | _ \<Rightarrow> [])"

lemma shrink_front:
  assumes "n \<le> length buf" "int (length buf) \<le> int_max"
  shows "memcpy_down buf n (length buf - n) = Some (drop n buf @ drop (length buf - n) buf)"
    and "str_resize (int (length buf) - int n) (drop n buf @ drop (length buf - n) buf) =
         Some (drop n buf)"
  using assms
  by (auto simp: memcpy_down_def mem_simps str_resize_def nat_diff_distrib simp flip: of_nat_diff)

lemma size_t_diff:
  "n \<le> length buf \<Longrightarrow> int (length buf) \<le> int_max \<Longrightarrow>
     size_t (int (length buf) - int n) = length buf - n"
  by (simp flip: of_nat_diff)

lemma StrPopRaw_equiv:
  assumes "int (length buf) \<le> int_max" "0 \<le> n" "n \<le> int_max"
  shows "StrPopRaw_str raw n buf =
     map_option (\<lambda>(rc, r, c). (rc, r, unread c)) (StrPopRaw_c raw n (cursor_at [] buf))"
proof (cases "raw = None \<or> n > int (length buf)")
  case True
  then show ?thesis
    using assms by (auto simp: StrPopRaw_str_def StrPopRaw_c_def cursor_at_def unread_def
        split: option.splits)
next
  case False
  then obtain r where r: "raw = Some r" and "n \<le> int (length buf)" by auto
  moreover define k where "k = nat n"
  ultimately have k: "n = int k" "k \<le> length buf" using assms by auto
  show ?thesis
    using assms(1) k shrink_front [OF k(2) assms(1)] size_t_diff [OF k(2) assms(1)]
    by (auto simp: StrPopRaw_str_def StrPopRaw_c_def cursor_at_def unread_def r
        split: bind_split)
qed

text \<open>The common tail of the three pops of a fixed size: read \<open>n\<close> bytes, move the rest to the front.\<close>

lemma pop_fixed:
  assumes "int (length buf) \<le> int_max" "n \<le> length buf"
  shows "(if int (length buf) - int n > 0
          then memcpy_down buf n (size_t (int (length buf) - int n)) else Some buf) \<bind>
          (\<lambda>b. str_resize (int (length buf) - int n) b \<bind> f) = f (drop n buf)"
proof (cases "n = length buf")
  case True
  then show ?thesis by (simp add: str_resize_def)
next
  case False
  then show ?thesis
    using assms shrink_front [OF assms(2,1)] size_t_diff [OF assms(2,1)] by simp
qed

lemma StrPopQword_equiv:
  assumes "int (length buf) \<le> int_max"
  shows "StrPopQword_str v buf fl =
     map_option (\<lambda>(rc, r, c). (rc, r, unread c)) (StrPopQword_c v fl (cursor_at [] buf))"
  using assms pop_fixed [OF assms, of 8]
  by (auto simp: StrPopQword_str_def StrPopQword_c_def cursor_at_def unread_def mem_read_def
      Let_def split: option.splits)

lemma StrPopDword_equiv:
  assumes "int (length buf) \<le> int_max"
  shows "StrPopDword_str v buf fl =
     map_option (\<lambda>(rc, r, c). (rc, r, unread c)) (StrPopDword_c v fl (cursor_at [] buf))"
  using assms pop_fixed [OF assms, of 4]
  by (auto simp: StrPopDword_str_def StrPopDword_c_def cursor_at_def unread_def mem_read_def
      Let_def split: option.splits)

lemma StrPopByte_equiv:
  assumes "int (length buf) \<le> int_max"
  shows "StrPopByte_str v buf =
     map_option (\<lambda>(rc, r, c). (rc, r, unread c)) (StrPopByte_c v (cursor_at [] buf))"
  using assms pop_fixed [OF assms, of 1]
  by (auto simp: StrPopByte_str_def StrPopByte_c_def cursor_at_def unread_def mem_read_def
      Let_def split: option.splits)

section \<open>Properties\<close>

text \<open>
  Property C1. A packet survives the wire: if every field fits its shape (C strings have no zero
  byte) and the packet stays below 2 GB, then pushing the fields one by one to an empty string
  succeeds, and popping the same shapes from the resulting bytes returns exactly the pushed values
  with exit code 0 and leaves nothing unread. It covers bytes, double words and quad words in both
  byte orders and length-prefixed strings.
\<close>

theorem packet_survives_wire:
  assumes "list_all (\<lambda>(s, v). field_ok s v) xs"
    and "int (length (concat (map (\<lambda>(s, v). field_enc s v) xs))) \<le> int_max"
  shows "\<exists>pkt. push_all push_field xs [] = Some (0, pkt) \<and>
     pop_all pop_field (map fst xs) (cursor_at [] pkt) = Some (0, map snd xs, cursor_at pkt [])"
  using fields.packet_roundtrip [OF assms(1)] assms(2) by (simp add: fields.enc_all_def)

theorem packet_survives_wire_witness:
  "\<exists>pkt. push_all push_field
       [(SByte, VByte 7), (SDword 1, VDword 258), (SString, VString [72, 105])] [] = Some (0, pkt) \<and>
     pop_all pop_field [SByte, SDword 1, SString] (cursor_at [] pkt) =
       Some (0, [VByte 7, VDword 258, VString [72, 105]], cursor_at pkt [])"
  using packet_survives_wire
    [of "[(SByte, VByte 7), (SDword 1, VDword 258), (SString, VString [72, 105])]"]
  by simp

text \<open>
  Property C16. Parsing untrusted bytes is memory-safe: from a valid cursor (the bytes it claims lie
  in its block), any sequence of byte, double word, quad word and string pops, whatever the bytes
  are, has a defined result; the pointer only moves forward, the end of the window is kept, and no
  byte outside the consumed part of the window is changed.
\<close>

theorem pop_sequence_memory_safe:
  assumes "cursor_ok c"
  shows "\<exists>rc vs c'. pop_all pop_field shapes c = Some (rc, vs, c') \<and> pop_step c c'"
  using assms by (rule fields.pop_all_safe)

theorem pop_sequence_memory_safe_witness:
  "cursor_ok (cursor_at [] [255, 255, 255, 255, 1]) \<and>
   (\<exists>rc vs c'. pop_all pop_field [SString, SQword 0] (cursor_at [] [255, 255, 255, 255, 1]) =
      Some (rc, vs, c') \<and> pop_step (cursor_at [] [255, 255, 255, 255, 1]) c')"
proof -
  have "cursor_ok (cursor_at [] [255, 255, 255, 255, 1])"
    by (simp add: cursor_ok_def cursor_at_def)
  then show ?thesis using pop_sequence_memory_safe by blast
qed

text \<open>
  The two families of pops agree: popping from a \<^verbatim>\<open>std::string\<close> gives the exit code
  and the value of the C-style pop over the bytes of the string and leaves in the string exactly the
  bytes the C-style pop leaves unread, with a C library that copies the overlapping rest upwards.
\<close>

theorem string_pops_refine_c_pops:
  assumes "int (length buf) \<le> int_max" "0 \<le> n" "n \<le> int_max"
  shows "StrPopRaw_str raw n buf =
       map_option (\<lambda>(rc, r, c). (rc, r, unread c)) (StrPopRaw_c raw n (cursor_at [] buf)) \<and>
     StrPopQword_str q buf fl =
       map_option (\<lambda>(rc, r, c). (rc, r, unread c)) (StrPopQword_c q fl (cursor_at [] buf)) \<and>
     StrPopDword_str d buf fl =
       map_option (\<lambda>(rc, r, c). (rc, r, unread c)) (StrPopDword_c d fl (cursor_at [] buf)) \<and>
     StrPopByte_str b buf =
       map_option (\<lambda>(rc, r, c). (rc, r, unread c)) (StrPopByte_c b (cursor_at [] buf))"
  using assms
  by (simp only: StrPopRaw_equiv StrPopQword_equiv StrPopDword_equiv StrPopByte_equiv)

theorem string_pops_refine_c_pops_witness:
  "StrPopDword_str (Some 0) [1, 2, 3, 4, 5] 1 = Some (0, Some 0x01020304, [5])"
  using string_pops_refine_c_pops [of "[1, 2, 3, 4, 5]" 2 None None 1 "Some 0" None]
  by (simp add: StrPopDword_c_def cursor_at_def unread_def mem_read_def STR_BIG_ENDIAN_def)

text \<open>
  Property C20. Multi-byte values are written in the byte order that was asked for: a push with
  \<^verbatim>\<open>STR_BIG_ENDIAN\<close> appends bytes whose value read most significant byte first is the number
  pushed, a push without it appends the same bytes in reverse order.
\<close>

theorem push_byte_order:
  assumes "int (length buf + 8) \<le> int_max"
  shows "(\<exists>bs. length bs = 4 \<and> be_value bs = uint d \<and>
      StrPushDword_str buf d STR_BIG_ENDIAN = Some (0, buf @ bs) \<and>
      StrPushDword_str buf d STR_LITTLE_ENDIAN = Some (0, buf @ rev bs)) \<and>
    (\<exists>bs. length bs = 8 \<and> be_value bs = uint q \<and>
      StrPushQword_str buf q STR_BIG_ENDIAN = Some (0, buf @ bs) \<and>
      StrPushQword_str buf q STR_LITTLE_ENDIAN = Some (0, buf @ rev bs))"
proof -
  have be: "big_endian STR_BIG_ENDIAN" "\<not> big_endian STR_LITTLE_ENDIAN"
    by (simp_all add: big_endian_def STR_BIG_ENDIAN_def STR_LITTLE_ENDIAN_def)
  have rev: "wire n STR_LITTLE_ENDIAN v = rev (wire n STR_BIG_ENDIAN v)" for n and v :: "'a::len word"
    by (simp add: wire_def be)
  show ?thesis
    using assms be_value_wire [of 4 STR_BIG_ENDIAN d] be_value_wire [of 8 STR_BIG_ENDIAN q]
    by (auto simp: StrPushDword_wire StrPushQword_wire rev be
        intro!: exI [of _ "wire 4 STR_BIG_ENDIAN d"] exI [of _ "wire 8 STR_BIG_ENDIAN q"])
qed

theorem push_byte_order_witness:
  "\<exists>bs. length bs = 4 \<and> be_value bs = uint (0xCAFE :: u32) \<and>
     StrPushDword_str [9] 0xCAFE STR_BIG_ENDIAN = Some (0, [9] @ bs)"
  using push_byte_order [of "[9]" "0xCAFE" 0] by auto

text \<open>
  The raw pops do not guard against a negative size: with a non-null destination, a
  negative \<^verbatim>\<open>rawSize\<close> passes the "buffer too small" check and reaches \<^verbatim>\<open>memcpy\<close> as a huge
  \<^verbatim>\<open>size_t\<close>, so the call has no defined result, in both families.
\<close>

theorem pop_raw_negative_undefined:
  assumes "- int_max \<le> n" "n < 0" "int (length buf) \<le> int_max" "cursor_ok c"
    and "length (cb_mem c) < 2 ^ 32"
  shows "StrPopRaw_str (Some r) n buf = None \<and> StrPopRaw_c (Some r) n c = None"
proof -
  have "2 ^ 63 < size_t n"
    using size_t_neg [OF assms(1,2)] assms(1) by simp
  then show ?thesis
    using assms
    by (auto simp: StrPopRaw_str_def StrPopRaw_c_def Let_def memcpy_def mem_read_def
        elim!: cursor_okE)
qed

theorem pop_raw_negative_undefined_witness:
  "StrPopRaw_str (Some [0, 0]) (-1) [1, 2, 3] = None"
  using pop_raw_negative_undefined [of "-1" "[1, 2, 3]" "cursor_at [] []" "[0, 0]"]
  by (simp add: cursor_ok_def cursor_at_def)

end
