(* ===== verification/IO_Fifo.thy ===== *)
theory IO_Fifo
  imports Teg_Prelude
begin

text \<open>
  The cyclic buffer of LibIO (\<^verbatim>\<open>IOFifo.cpp\<close>, \<^verbatim>\<open>IOFifo.h\<close>). All counters are \<^verbatim>\<open>unsigned int\<close> and
  kept at 32 bits: sums wrap around, and the \<^verbatim>\<open>int len\<close> parameters are given by their bits, so
  that comparisons with a counter are unsigned and a \<^verbatim>\<open>memcpy\<close> of \<open>len\<close> bytes sees the
  sign-extended value. The remainder by a zero capacity is undefined.

  The abstraction of a fifo is the list of the bytes stored in it; the locale \<open>byte_fifo\<close> is the
  contract the rest of the library relies on, and conservation of bytes over any sequence of
  operations is proved in it.
\<close>

record IOFifo =
  buffer :: "byte list"
  bytesLeft :: u32
  capacity :: u32
  writePos :: u32
  readPos :: u32

definition IO_BIG_ENDIAN :: int where
  "IO_BIG_ENDIAN = 1"

definition IO_LITTLE_ENDIAN :: int where
  "IO_LITTLE_ENDIAN = 0"

definition umod :: "u32 \<Rightarrow> u32 \<Rightarrow> u32 run" where
  "umod a b = (if b = 0 then None else Some (a mod b))"

text \<open>The constructor; \<open>garbage\<close> is what \<^verbatim>\<open>malloc\<close> left in the block.\<close>

definition IOFifo_new :: "byte list \<Rightarrow> u32 \<Rightarrow> IOFifo" where
  "IOFifo_new garbage n =
     \<lparr>buffer = garbage, bytesLeft = n, capacity = n, writePos = 0, readPos = 0\<rparr>"

definition IOFifo_push :: "byte list \<Rightarrow> u32 \<Rightarrow> IOFifo \<Rightarrow> (int \<times> IOFifo) run" where
  "IOFifo_push src len f =
     (if len > bytesLeft f then Some (-1, f)
      else do {
        buf \<leftarrow>
          (if writePos f + len < capacity f
           then memcpy (buffer f) (unat (writePos f)) src 0 (size_t (sint len))
           else do {
             let bytesToEnd = capacity f - writePos f;
             overflow \<leftarrow> umod (len - bytesToEnd) (capacity f);
             b \<leftarrow> memcpy (buffer f) (unat (writePos f)) src 0 (unat bytesToEnd);
             memcpy b 0 src (unat bytesToEnd) (unat overflow)
           });
        wp \<leftarrow> umod (writePos f + len) (capacity f);
        Some (0, f\<lparr>buffer := buf, writePos := wp, bytesLeft := bytesLeft f - len\<rparr>)
      })"

definition IOFifo_pop ::
    "byte list option \<Rightarrow> u32 \<Rightarrow> int \<Rightarrow> IOFifo \<Rightarrow> (int \<times> byte list option \<times> IOFifo) run" where
  "IOFifo_pop dst len peekOnly f =
     (if capacity f - bytesLeft f < len then Some (-1, dst, f)
      else do {
        dst' \<leftarrow>
          (case dst of
             None \<Rightarrow> Some None
           | Some d \<Rightarrow> map_option Some
               (if readPos f + len < capacity f
                then memcpy d 0 (buffer f) (unat (readPos f)) (size_t (sint len))
                else do {
                  let bytesToEnd = capacity f - readPos f;
                  overflow \<leftarrow> umod (len - bytesToEnd) (capacity f);
                  d' \<leftarrow> memcpy d 0 (buffer f) (unat (readPos f)) (unat bytesToEnd);
                  memcpy d' (unat bytesToEnd) (buffer f) 0 (unat overflow)
                }));
        if peekOnly = 0 then do {
          rp \<leftarrow> umod (readPos f + len) (capacity f);
          Some (0, dst', f\<lparr>readPos := rp, bytesLeft := bytesLeft f + len\<rparr>)
        }
        else Some (0, dst', f)
      })"

definition IOFifo_eat :: "u32 \<Rightarrow> IOFifo \<Rightarrow> (int \<times> byte list option \<times> IOFifo) run" where
  "IOFifo_eat len f = IOFifo_pop None len 0 f"

definition IOFifo_peek ::
    "byte list option \<Rightarrow> u32 \<Rightarrow> IOFifo \<Rightarrow> (int \<times> byte list option \<times> IOFifo) run" where
  "IOFifo_peek dst len f = IOFifo_pop dst len 1 f"

definition IOFifo_peekQword :: "int \<Rightarrow> IOFifo \<Rightarrow> u64 run" where
  "IOFifo_peekQword endian f = do {
     (_, mem, _) \<leftarrow> IOFifo_peek (Some (obj_bytes 8 (0 :: u64))) 8 f;
     src \<leftarrow> mem;
     Some (if endian = IO_BIG_ENDIAN
           then word_of_le [src ! 7, src ! 6, src ! 5, src ! 4, src ! 3, src ! 2, src ! 1, src ! 0]
           else word_of_le src)
   }"

text \<open>
  The big-endian branch of \<^verbatim>\<open>peekDword\<close> reads \<^verbatim>\<open>src[7] .. src[4]\<close> of a four-byte variable.
\<close>

definition IOFifo_peekDword :: "int \<Rightarrow> IOFifo \<Rightarrow> u32 run" where
  "IOFifo_peekDword endian f = do {
     (_, mem, _) \<leftarrow> IOFifo_peek (Some (obj_bytes 4 (0 :: u32))) 4 f;
     src \<leftarrow> mem;
     if endian = IO_BIG_ENDIAN then do {
       b0 \<leftarrow> mem_read src 7 1;
       b1 \<leftarrow> mem_read src 6 1;
       b2 \<leftarrow> mem_read src 5 1;
       b3 \<leftarrow> mem_read src 4 1;
       Some (word_of_le (b0 @ b1 @ b2 @ b3))
     }
     else Some (word_of_le src)
   }"

definition IOFifo_peekByte :: "IOFifo \<Rightarrow> byte run" where
  "IOFifo_peekByte f =
     (if capacity f - bytesLeft f \<ge> 1
      then do { bs \<leftarrow> mem_read (buffer f) (unat (writePos f)) 1; Some (bs ! 0) }
      else Some 0)"

definition IOFifo_bytesLeft :: "IOFifo \<Rightarrow> u32" where
  "IOFifo_bytesLeft f = bytesLeft f"

definition IOFifo_size :: "IOFifo \<Rightarrow> u32" where
  "IOFifo_size f = capacity f - bytesLeft f"

definition IOFifo_capacity :: "IOFifo \<Rightarrow> u32" where
  "IOFifo_capacity f = capacity f"

section \<open>Invariant and abstraction\<close>

abbreviation cap :: "IOFifo \<Rightarrow> nat" where
  "cap f \<equiv> unat (capacity f)"

abbreviation stored :: "IOFifo \<Rightarrow> nat" where
  "stored f \<equiv> cap f - unat (bytesLeft f)"

definition fifo_inv :: "IOFifo \<Rightarrow> bool" where
  "fifo_inv f \<longleftrightarrow>
     0 < cap f \<and> cap f < 2 ^ 31 \<and> length (buffer f) = cap f \<and>
     unat (bytesLeft f) \<le> cap f \<and> unat (readPos f) < cap f \<and>
     unat (writePos f) = (unat (readPos f) + stored f) mod cap f"

text \<open>The bytes stored, oldest first: from the read position, around the end of the block.\<close>

definition fifo_bytes :: "IOFifo \<Rightarrow> byte list" where
  "fifo_bytes f = take (stored f) (rotate (unat (readPos f)) (buffer f))"

section \<open>Writing and reading around the end of a block\<close>

definition ring_write :: "'a list \<Rightarrow> nat \<Rightarrow> 'a list \<Rightarrow> 'a list" where
  "ring_write b w xs =
     (if w + length xs < length b then take w b @ xs @ drop (w + length xs) b
      else (let k = length b - w in
            drop k xs @ drop (length xs - k) (take w b @ take k xs)))"

definition ring_read :: "'a list \<Rightarrow> nat \<Rightarrow> nat \<Rightarrow> 'a list" where
  "ring_read b r n = take n (rotate r b)"

lemma mod_less_double: "(x::nat) < 2 * c \<Longrightarrow> x mod c = (if x < c then x else x - c)"
  by (auto simp: mod_if)

lemma length_ring_write [simp]:
  "w < length b \<Longrightarrow> length xs \<le> length b \<Longrightarrow> length (ring_write b w xs) = length b"
  by (auto simp: ring_write_def Let_def)

lemma ring_write_wrap:
  assumes "length b \<le> w + n" "n \<le> length src" "w + k = length b"
  shows "ring_write b w (take n src) =
     take (n - k) (drop k src) @ drop (n - k) (take w b @ take k src)"
proof -
  have k: "length b - w = k" "k \<le> n" "length (take n src) = n" using assms by auto
  then show ?thesis using assms by (simp add: ring_write_def k drop_take)
qed

text \<open>Position \<open>(w + k) mod c\<close> holds the \<open>k\<close>-th byte written, every other position what it held.\<close>

lemma nth_ring_write:
  assumes "w < length b" "length xs \<le> length b" "k < length b"
  shows "ring_write b w xs ! ((w + k) mod length b) =
     (if k < length xs then xs ! k else b ! ((w + k) mod length b))"
  using assms
  by (auto simp: ring_write_def Let_def mod_less_double nth_append min_def)

lemma ring_read_split:
  assumes "r < length b" "n \<le> length b"
  shows "ring_read b r n =
     (if r + n < length b then take n (drop r b)
      else drop r b @ take (n - (length b - r)) b)"
  using assms by (auto simp: ring_read_def rotate_drop_take)

lemma ring_read_write:
  assumes r: "r < length b" and n: "n + length xs \<le> length b"
  shows "ring_read (ring_write b ((r + n) mod length b) xs) r (n + length xs) =
     ring_read b r n @ xs"
proof (rule nth_equalityI)
  have w: "(r + n) mod length b < length b" using r by (intro mod_less_divisor) linarith
  have len: "length (ring_write b ((r + n) mod length b) xs) = length b"
    using w n by simp
  show "length (ring_read (ring_write b ((r + n) mod length b) xs) r (n + length xs)) =
      length (ring_read b r n @ xs)"
    using n by (simp add: ring_read_def len)
  fix i
  assume "i < length (ring_read (ring_write b ((r + n) mod length b) xs) r (n + length xs))"
  then have i: "i < n + length xs" by (simp add: ring_read_def)
  let ?k = "if i < n then length b + i - n else i - n"
  have k: "?k < length b" using i n r by (auto split: if_splits)
  have pos: "((r + n) mod length b + ?k) mod length b = (r + i) mod length b"
  proof -
    have "((r + n) mod length b + ?k) mod length b = (r + n + ?k) mod length b"
      by (simp add: mod_add_left_eq)
    also have "r + n + ?k = (if i < n then length b + (r + i) else r + i)"
      using i n by auto
    finally show ?thesis by simp
  qed
  have "ring_write b ((r + n) mod length b) xs ! ((r + i) mod length b) =
      (if ?k < length xs then xs ! ?k else b ! ((r + i) mod length b))"
    using nth_ring_write [OF w _ k, of xs] n unfolding pos by linarith
  moreover have "i < n \<Longrightarrow> \<not> ?k < length xs" using n by auto
  ultimately show "ring_read (ring_write b ((r + n) mod length b) xs) r (n + length xs) ! i =
      (ring_read b r n @ xs) ! i"
    using i n r by (auto simp: ring_read_def nth_rotate len nth_append)
qed

lemma take_ring_read: "n \<le> m \<Longrightarrow> take n (ring_read b r m) = ring_read b r n"
  by (simp add: ring_read_def min_def)

lemma drop_ring_read:
  assumes "r < length b" "n \<le> m" "m \<le> length b"
  shows "drop n (ring_read b r m) = ring_read b ((r + n) mod length b) (m - n)"
proof (rule nth_equalityI)
  show "length (drop n (ring_read b r m)) = length (ring_read b ((r + n) mod length b) (m - n))"
    using assms by (simp add: ring_read_def)
  fix i
  assume "i < length (drop n (ring_read b r m))"
  then have i: "n + i < m" using assms by (simp add: ring_read_def)
  then show "drop n (ring_read b r m) ! i = ring_read b ((r + n) mod length b) (m - n) ! i"
    using assms by (simp add: ring_read_def nth_rotate add.assoc mod_add_left_eq)
qed

section \<open>What push and pop do\<close>

lemma unat_add_small: "unat a + unat b < 2 ^ 32 \<Longrightarrow> unat (a + b :: u32) = unat a + unat b"
  by (simp add: unat_word_ariths)

lemma umod_Some [simp]: "0 < unat c \<Longrightarrow> umod a c = Some (a mod c)"
  by (auto simp: umod_def)

lemma size_t_sint: "unat (len :: u32) < 2 ^ 31 \<Longrightarrow> size_t (sint len) = unat len"
proof -
  assume len: "unat len < 2 ^ 31"
  have "word_of_nat (unat len) = len" by simp
  then have "sint len = int (unat len)"
    using len sint_u32_small [of "unat len"] by (simp del: of_nat_unat)
  moreover have "int (unat len) \<le> int_max" using len by (simp del: of_nat_unat)
  ultimately show ?thesis by (simp only: size_t_of_nat)
qed

lemma fifo_invD:
  assumes "fifo_inv f"
  shows "0 < cap f" "cap f < 2 ^ 31" "length (buffer f) = cap f" "unat (bytesLeft f) \<le> cap f"
    "unat (readPos f) < cap f" "unat (writePos f) < cap f"
    "unat (writePos f) = (unat (readPos f) + stored f) mod cap f"
    "unat (capacity f - bytesLeft f) = stored f"
  using assms by (auto simp: fifo_inv_def unat_sub word_le_nat_alt)

lemma fifo_bytes_ring: "fifo_bytes f = ring_read (buffer f) (unat (readPos f)) (stored f)"
  by (simp add: fifo_bytes_def ring_read_def)

lemma length_fifo_bytes: "fifo_inv f \<Longrightarrow> length (fifo_bytes f) = stored f"
  by (auto simp: fifo_bytes_def dest: fifo_invD)

text \<open>The two branches of a copy that starts at \<open>pos\<close> and may go around the end.\<close>

lemma ring_counters:
  assumes "unat pos < unat c" "unat c < 2 ^ 31" "unat len \<le> unat c"
  shows "pos + len < c \<longleftrightarrow> unat pos + unat len < unat c"
    and "unat (c - pos :: u32) = unat c - unat pos"
    and "\<not> pos + len < c \<Longrightarrow>
           unat ((len - (c - pos)) mod c) = unat len - (unat c - unat pos)"
    and "unat ((pos + len) mod c) = (unat pos + unat len) mod unat c"
proof -
  have sum: "unat (pos + len) = unat pos + unat len"
    using assms by (intro unat_add_small) simp
  then show iff: "pos + len < c \<longleftrightarrow> unat pos + unat len < unat c"
    by (simp add: word_less_nat_alt)
  show "unat ((pos + len) mod c) = (unat pos + unat len) mod unat c"
    by (simp add: unat_mod sum)
  show sub: "unat (c - pos :: u32) = unat c - unat pos"
    using assms by (intro unat_sub) (simp add: word_le_nat_alt)
  assume "\<not> pos + len < c"
  then have "unat (len - (c - pos)) = unat len - (unat c - unat pos)"
    using assms sub iff by (simp add: unat_sub word_le_nat_alt)
  then show "unat ((len - (c - pos)) mod c) = unat len - (unat c - unat pos)"
    using assms by (simp add: unat_mod)
qed

lemma push_copy:
  assumes inv: "fifo_inv f" and len: "unat len \<le> unat (bytesLeft f)" "unat len \<le> length src"
  shows "(if writePos f + len < capacity f
          then memcpy (buffer f) (unat (writePos f)) src 0 (size_t (sint len))
          else do {
            let bytesToEnd = capacity f - writePos f;
            overflow \<leftarrow> umod (len - bytesToEnd) (capacity f);
            b \<leftarrow> memcpy (buffer f) (unat (writePos f)) src 0 (unat bytesToEnd);
            memcpy b 0 src (unat bytesToEnd) (unat overflow)
          }) = Some (ring_write (buffer f) (unat (writePos f)) (take (unat len) src))"
proof -
  note f = fifo_invD [OF inv]
  have lenc: "unat len \<le> cap f" "unat len < 2 ^ 31" using len f by linarith+
  note rc = ring_counters [OF f(6,2) lenc(1)]
  show ?thesis
  proof (cases "writePos f + len < capacity f")
    case True
    then show ?thesis
      using rc(1) f len size_t_sint [OF lenc(2)]
      by (simp add: ring_write_def memcpy_Some_iff min_def)
  next
    case False
    then have wrap: "cap f \<le> unat (writePos f) + unat len" using rc(1) by simp
    define k where "k = cap f - unat (writePos f)"
    have k: "k \<le> unat len" "unat (writePos f) + k = cap f" "unat len - k \<le> cap f"
      using wrap f(1-6) lenc unfolding k_def by linarith+
    have 1: "memcpy (buffer f) (unat (writePos f)) src 0 k =
        Some (take (unat (writePos f)) (buffer f) @ take k src)"
      using k f len by (simp add: memcpy_Some_iff)
    have 2: "memcpy (take (unat (writePos f)) (buffer f) @ take k src) 0 src k (unat len - k) =
        Some (take (unat len - k) (drop k src) @
              drop (unat len - k) (take (unat (writePos f)) (buffer f) @ take k src))"
      using k f len by (simp add: memcpy_Some_iff)
    have "ring_write (buffer f) (unat (writePos f)) (take (unat len) src) =
        take (unat len - k) (drop k src) @
        drop (unat len - k) (take (unat (writePos f)) (buffer f) @ take k src)"
      using ring_write_wrap [of "buffer f" "unat (writePos f)" "unat len" src k] wrap k len(2) f(3)
      by simp
    then show ?thesis
      using False rc(2) rc(3) [OF False] f(1) 1 2 by (simp flip: k_def)
  qed
qed

lemma pop_copy:
  assumes inv: "fifo_inv f" and len: "unat len \<le> stored f" "unat len \<le> length d"
  shows "(if readPos f + len < capacity f
          then memcpy d 0 (buffer f) (unat (readPos f)) (size_t (sint len))
          else do {
            let bytesToEnd = capacity f - readPos f;
            overflow \<leftarrow> umod (len - bytesToEnd) (capacity f);
            d' \<leftarrow> memcpy d 0 (buffer f) (unat (readPos f)) (unat bytesToEnd);
            memcpy d' (unat bytesToEnd) (buffer f) 0 (unat overflow)
          }) = Some (take (unat len) (fifo_bytes f) @ drop (unat len) d)"
proof -
  note f = fifo_invD [OF inv]
  have lenc: "unat len \<le> cap f" "unat len < 2 ^ 31" using len f by linarith+
  note rc = ring_counters [OF f(5,2) lenc(1)]
  have rd: "take (unat len) (fifo_bytes f) =
      ring_read (buffer f) (unat (readPos f)) (unat len)"
    using len by (simp add: fifo_bytes_ring take_ring_read)
  also have "\<dots> =
     (if unat (readPos f) + unat len < cap f then take (unat len) (drop (unat (readPos f)) (buffer f))
      else drop (unat (readPos f)) (buffer f) @
           take (unat len - (cap f - unat (readPos f))) (buffer f))"
    using ring_read_split [of "unat (readPos f)" "buffer f" "unat len"] f lenc by simp
  finally have bytes: "take (unat len) (fifo_bytes f) = \<dots>" .
  show ?thesis
  proof (cases "readPos f + len < capacity f")
    case True
    then show ?thesis
      using rc(1) f len size_t_sint [OF lenc(2)] bytes
      by (simp add: memcpy_Some_iff)
  next
    case False
    then have wrap: "cap f \<le> unat (readPos f) + unat len" using rc(1) by simp
    define k where "k = cap f - unat (readPos f)"
    have k: "k \<le> unat len" "unat (readPos f) + k = cap f" "unat len - k \<le> cap f"
      using wrap f(1-6) lenc unfolding k_def by linarith+
    have 1: "memcpy d 0 (buffer f) (unat (readPos f)) k =
        Some (drop (unat (readPos f)) (buffer f) @ drop k d)"
      using k f len by (simp add: memcpy_Some_iff)
    have e: "unat len + unat (readPos f) + k - cap f = unat len" using k(2) by linarith
    have 2: "memcpy (drop (unat (readPos f)) (buffer f) @ drop k d) k (buffer f) 0 (unat len - k) =
        Some (drop (unat (readPos f)) (buffer f) @ take (unat len - k) (buffer f) @ drop (unat len) d)"
      using k f(1-6) len by (simp add: memcpy_Some_iff e)
    show ?thesis
      using False rc(2) rc(3) [OF False] f(1) 1 2 bytes wrap by (simp flip: k_def)
  qed
qed

text \<open>A push that fits appends; one that does not is refused and changes nothing.\<close>

lemma push_refine:
  assumes inv: "fifo_inv f" and len: "unat len \<le> unat (bytesLeft f)" "unat len \<le> length src"
  shows "\<exists>f'. IOFifo_push src len f = Some (0, f') \<and> fifo_inv f' \<and>
     capacity f' = capacity f \<and> unat (bytesLeft f') = unat (bytesLeft f) - unat len \<and>
     fifo_bytes f' = fifo_bytes f @ take (unat len) src"
proof -
  note f = fifo_invD [OF inv]
  have lenc: "unat len \<le> cap f" using len f by linarith
  let ?xs = "take (unat len) src" and ?w = "(unat (readPos f) + stored f) mod cap f"
  define f' where "f' = f\<lparr>buffer := ring_write (buffer f) (unat (writePos f)) ?xs,
      writePos := (writePos f + len) mod capacity f, bytesLeft := bytesLeft f - len\<rparr>"
  have push: "IOFifo_push src len f = Some (0, f')"
    using push_copy [OF inv len] f(1) len(1)
    by (simp add: IOFifo_push_def f'_def word_less_nat_alt not_less)
  have left: "unat (bytesLeft f - len) = unat (bytesLeft f) - unat len"
    using len by (intro unat_sub) (simp add: word_le_nat_alt)
  then have st: "stored f' = stored f + unat len"
    using f(4) len(1) by (simp add: f'_def)
  have w: "unat (writePos f') = (unat (writePos f) + unat len) mod cap f"
    using ring_counters(4) [OF f(6,2) lenc] by (simp add: f'_def)
  have "fifo_inv f'"
    using f left w st len lenc
    by (simp add: fifo_inv_def f'_def mod_add_left_eq add.assoc)
  moreover have "fifo_bytes f' = fifo_bytes f @ ?xs"
    using ring_read_write [of "unat (readPos f)" "buffer f" "stored f" ?xs] f st len
    by (simp add: fifo_bytes_ring f'_def)
  ultimately show ?thesis using push left by (auto simp: f'_def)
qed

lemma push_refuse: "unat (bytesLeft f) < unat len \<Longrightarrow> IOFifo_push src len f = Some (-1, f)"
  by (simp add: IOFifo_push_def word_less_nat_alt)

text \<open>A pop of what is stored delivers the oldest bytes; a longer one is refused.\<close>

lemma pop_refine:
  assumes inv: "fifo_inv f" and len: "unat len \<le> stored f"
  shows "\<exists>f'. (\<forall>d. unat len \<le> length d \<longrightarrow>
        IOFifo_pop (Some d) len 0 f = Some (0, Some (take (unat len) (fifo_bytes f) @ drop (unat len) d), f')) \<and>
     IOFifo_pop None len 0 f = Some (0, None, f') \<and> fifo_inv f' \<and>
     capacity f' = capacity f \<and> unat (bytesLeft f') = unat (bytesLeft f) + unat len \<and>
     fifo_bytes f' = drop (unat len) (fifo_bytes f)"
proof -
  note f = fifo_invD [OF inv]
  have lenc: "unat len \<le> cap f" using len f by linarith
  define f' where "f' = f\<lparr>readPos := (readPos f + len) mod capacity f, bytesLeft := bytesLeft f + len\<rparr>"
  have nl: "\<not> capacity f - bytesLeft f < len"
    using f(8) len by (simp add: word_less_nat_alt)
  have left: "unat (bytesLeft f + len) = unat (bytesLeft f) + unat len"
    using f(2,4) len by (intro unat_add_small) simp
  have st: "stored f' = stored f - unat len"
    using left by (simp add: f'_def)
  have r: "unat (readPos f') = (unat (readPos f) + unat len) mod cap f"
    using ring_counters(4) [OF f(5,2) lenc] by (simp add: f'_def)
  have frame: "capacity f' = capacity f" "buffer f' = buffer f" "writePos f' = writePos f"
    "unat (bytesLeft f') = unat (bytesLeft f) + unat len"
    using left by (simp_all add: f'_def)
  have "unat (readPos f) + unat len + (stored f - unat len) = unat (readPos f) + stored f"
    using len by linarith
  then have "unat (writePos f) = (unat (readPos f') + stored f') mod cap f"
    unfolding r st mod_add_left_eq using f(7) by (simp only:)
  moreover have "unat (readPos f') < cap f" using f(1) r by simp
  moreover have "unat (bytesLeft f) + unat len \<le> cap f" using len f(4) by linarith
  ultimately have "fifo_inv f'"
    unfolding fifo_inv_def frame using f(1-3) by blast
  moreover have "fifo_bytes f' = drop (unat len) (fifo_bytes f)"
    using drop_ring_read [of "unat (readPos f)" "buffer f" "unat len" "stored f"] f(3,5) st r len
    by (simp add: fifo_bytes_ring f'_def)
  moreover have "IOFifo_pop (Some d) len 0 f =
      Some (0, Some (take (unat len) (fifo_bytes f) @ drop (unat len) d), f')"
    if "unat len \<le> length d" for d
    using pop_copy [OF inv len that] nl f(1) by (simp add: IOFifo_pop_def f'_def)
  moreover have "IOFifo_pop None len 0 f = Some (0, None, f')"
    using nl f(1) by (simp add: IOFifo_pop_def f'_def)
  ultimately show ?thesis using left by (auto simp: f'_def intro!: exI [of _ f'])
qed

lemma pop_refuse:
  "fifo_inv f \<Longrightarrow> stored f < unat len \<Longrightarrow> IOFifo_pop dst len pk f = Some (-1, dst, f)"
  using fifo_invD(8) [of f] by (simp add: IOFifo_pop_def word_less_nat_alt)

lemma peek_refine:
  assumes "fifo_inv f" "unat len \<le> stored f" "unat len \<le> length d"
  shows "IOFifo_peek (Some d) len f =
     Some (0, Some (take (unat len) (fifo_bytes f) @ drop (unat len) d), f)"
  using pop_copy [OF assms] fifo_invD(8) [OF assms(1)] assms(2)
  by (simp add: IOFifo_peek_def IOFifo_pop_def word_less_nat_alt)

section \<open>The contract of a byte fifo\<close>

text \<open>
  What a client may rely on. \<open>put xs\<close> pushes the whole list, \<open>get n\<close> pops \<open>n\<close> bytes into a block
  of \<open>n\<close> bytes; a request that cannot be met is refused with a non-zero code and has no effect.
  Sizes are C \<^verbatim>\<open>int\<close>s.
\<close>

datatype fifo_op = Push "byte list" | Pop nat

fun op_size :: "fifo_op \<Rightarrow> nat" where
  "op_size (Push xs) = length xs"
| "op_size (Pop n) = n"

text \<open>
  A sequence of operations: the bytes accepted by the pushes that succeeded and the bytes delivered
  by the pops that succeeded, in order.
\<close>

fun fifo_run :: "(byte list \<Rightarrow> 'f \<Rightarrow> (int \<times> 'f) run) \<Rightarrow> (nat \<Rightarrow> 'f \<Rightarrow> (int \<times> byte list \<times> 'f) run) \<Rightarrow>
    fifo_op list \<Rightarrow> 'f \<Rightarrow> (byte list \<times> byte list \<times> 'f) run" where
  "fifo_run put get [] f = Some ([], [], f)"
| "fifo_run put get (Push xs # ops) f = do {
     (rc, f') \<leftarrow> put xs f;
     (acc, del, f'') \<leftarrow> fifo_run put get ops f';
     Some ((if rc = 0 then xs else []) @ acc, del, f'') }"
| "fifo_run put get (Pop n # ops) f = do {
     (rc, ys, f') \<leftarrow> get n f;
     (acc, del, f'') \<leftarrow> fifo_run put get ops f';
     Some (acc, (if rc = 0 then ys else []) @ del, f'') }"

locale byte_fifo =
  fixes put :: "byte list \<Rightarrow> 'f \<Rightarrow> (int \<times> 'f) run"
    and get :: "nat \<Rightarrow> 'f \<Rightarrow> (int \<times> byte list \<times> 'f) run"
    and bytes :: "'f \<Rightarrow> byte list"
    and room :: "'f \<Rightarrow> nat"
    and inv :: "'f \<Rightarrow> bool"
  assumes put_fits: "inv f \<Longrightarrow> length xs < 2 ^ 31 \<Longrightarrow> length xs \<le> room f \<Longrightarrow>
      \<exists>f'. put xs f = Some (0, f') \<and> inv f' \<and> bytes f' = bytes f @ xs \<and>
           room f' + length xs = room f"
    and put_full: "inv f \<Longrightarrow> length xs < 2 ^ 31 \<Longrightarrow> room f < length xs \<Longrightarrow>
      put xs f = Some (-1, f)"
    and get_enough: "inv f \<Longrightarrow> n < 2 ^ 31 \<Longrightarrow> n \<le> length (bytes f) \<Longrightarrow>
      \<exists>f'. get n f = Some (0, take n (bytes f), f') \<and> inv f' \<and> bytes f' = drop n (bytes f) \<and>
           room f' = room f + n"
    and get_short: "inv f \<Longrightarrow> n < 2 ^ 31 \<Longrightarrow> length (bytes f) < n \<Longrightarrow>
      \<exists>ys. get n f = Some (-1, ys, f)"
begin

lemma put_defined:
  assumes "inv f" "length xs < 2 ^ 31"
  obtains rc f' where "put xs f = Some (rc, f')" "inv f'"
    "bytes f' = bytes f @ (if rc = 0 then xs else [])"
    "room f' + length (bytes f') = room f + length (bytes f)"
proof (cases "length xs \<le> room f")
  case True
  then obtain f' where "put xs f = Some (0, f')" "inv f'" "bytes f' = bytes f @ xs"
    "room f' + length xs = room f"
    using put_fits [OF assms] by blast
  then show ?thesis using that [of 0 f'] by simp
next
  case False
  then show ?thesis using that [of "-1" f] put_full [OF assms] assms(1) by simp
qed

lemma get_defined:
  assumes "inv f" "n < 2 ^ 31"
  obtains rc ys f' where "get n f = Some (rc, ys, f')" "inv f'"
    "bytes f = (if rc = 0 then ys else []) @ bytes f'"
    "room f' + length (bytes f') = room f + length (bytes f)"
proof (cases "n \<le> length (bytes f)")
  case True
  then obtain f' where "get n f = Some (0, take n (bytes f), f')" "inv f'"
    "bytes f' = drop n (bytes f)" "room f' = room f + n"
    using get_enough [OF assms] by blast
  then show ?thesis using that [of 0 "take n (bytes f)" f'] True by simp
next
  case False
  then obtain ys where "get n f = Some (-1, ys, f)" using get_short [OF assms] by auto
  then show ?thesis using that [of "-1" ys f] assms(1) by simp
qed

lemma run_conserves:
  assumes "inv f" "list_all (\<lambda>p. op_size p < 2 ^ 31) ops"
  shows "\<exists>acc del f'. fifo_run put get ops f = Some (acc, del, f') \<and> inv f' \<and>
     bytes f @ acc = del @ bytes f' \<and>
     room f' + length (bytes f') = room f + length (bytes f)"
  using assms
proof (induction ops arbitrary: f)
  case Nil
  then show ?case by simp
next
  case (Cons p ops)
  show ?case
  proof (cases p)
    case (Push xs)
    obtain rc f' where f': "put xs f = Some (rc, f')" "inv f'"
      "bytes f' = bytes f @ (if rc = 0 then xs else [])"
      "room f' + length (bytes f') = room f + length (bytes f)"
      using put_defined [of f xs] Cons.prems Push by auto
    then show ?thesis using Cons.IH [OF f'(2)] Cons.prems(2) Push by fastforce
  next
    case (Pop n)
    obtain rc ys f' where f': "get n f = Some (rc, ys, f')" "inv f'"
      "bytes f = (if rc = 0 then ys else []) @ bytes f'"
      "room f' + length (bytes f') = room f + length (bytes f)"
      using get_defined [of f n] Cons.prems Pop by auto
    then show ?thesis using Cons.IH [OF f'(2)] Cons.prems(2) Pop by fastforce
  qed
qed

end

text \<open>The calls of a client that passes its data with the size of its data.\<close>

definition fifo_put :: "byte list \<Rightarrow> IOFifo \<Rightarrow> (int \<times> IOFifo) run" where
  "fifo_put xs f = IOFifo_push xs (word_of_nat (length xs)) f"

definition fifo_get :: "nat \<Rightarrow> IOFifo \<Rightarrow> (int \<times> byte list \<times> IOFifo) run" where
  "fifo_get n f = do {
     (rc, d, f') \<leftarrow> IOFifo_pop (Some (replicate n 0)) (word_of_nat n) 0 f;
     d' \<leftarrow> d;
     Some (rc, d', f') }"

lemma unat_len: "n < 2 ^ 31 \<Longrightarrow> unat (word_of_nat n :: u32) = n"
  by (simp add: unat_u32_small)

interpretation iofifo: byte_fifo fifo_put fifo_get fifo_bytes "\<lambda>f. unat (bytesLeft f)" fifo_inv
proof unfold_locales
  fix f and xs :: "byte list"
  assume a: "fifo_inv f" "length xs < 2 ^ 31" "length xs \<le> unat (bytesLeft f)"
  show "\<exists>f'. fifo_put xs f = Some (0, f') \<and> fifo_inv f' \<and> fifo_bytes f' = fifo_bytes f @ xs \<and>
      unat (bytesLeft f') + length xs = unat (bytesLeft f)"
    using push_refine [OF a(1), of "word_of_nat (length xs)" xs] a
    by (auto simp: fifo_put_def unat_len)
next
  fix f and xs :: "byte list"
  assume "fifo_inv f" "length xs < 2 ^ 31" "unat (bytesLeft f) < length xs"
  then show "fifo_put xs f = Some (-1, f)"
    by (simp add: fifo_put_def push_refuse unat_len)
next
  fix f n
  assume a: "fifo_inv f" "n < 2 ^ 31" "n \<le> length (fifo_bytes f)"
  then have st: "unat (word_of_nat n :: u32) \<le> stored f"
    by (simp add: length_fifo_bytes unat_len)
  from pop_refine [OF a(1) this] a(2)
  show "\<exists>f'. fifo_get n f = Some (0, take n (fifo_bytes f), f') \<and> fifo_inv f' \<and>
      fifo_bytes f' = drop n (fifo_bytes f) \<and> unat (bytesLeft f') = unat (bytesLeft f) + n"
    by (auto simp: fifo_get_def unat_len)
next
  fix f n
  assume "fifo_inv f" "n < 2 ^ 31" "length (fifo_bytes f) < n"
  then show "\<exists>ys. fifo_get n f = Some (-1, ys, f)"
    by (simp add: fifo_get_def pop_refuse length_fifo_bytes unat_len)
qed

section \<open>Peeking at whole words\<close>

lemma peek_refuse:
  "fifo_inv f \<Longrightarrow> stored f < unat len \<Longrightarrow> IOFifo_peek d len f = Some (-1, d, f)"
  by (simp add: IOFifo_peek_def pop_refuse)

lemma fifo_new_inv:
  "0 < unat n \<Longrightarrow> unat n < 2 ^ 31 \<Longrightarrow> length g = unat n \<Longrightarrow>
     fifo_inv (IOFifo_new g n) \<and> fifo_bytes (IOFifo_new g n) = [] \<and> bytesLeft (IOFifo_new g n) = n"
  by (simp add: IOFifo_new_def fifo_inv_def fifo_bytes_def)

text \<open>
  The block a word peek leaves behind: the first \<open>n\<close> bytes stored, or the zeros it started with.
\<close>

definition peeked :: "nat \<Rightarrow> IOFifo \<Rightarrow> byte list" where
  "peeked n f = (if n \<le> stored f then take n (fifo_bytes f) else replicate n 0)"

lemma length_peeked [simp]: "fifo_inv f \<Longrightarrow> length (peeked n f) = n"
  by (simp add: peeked_def length_fifo_bytes)

lemma peek_zeros:
  assumes "fifo_inv f" "int n \<le> int_max"
  shows "\<exists>rc. IOFifo_peek (Some (replicate n 0)) (word_of_nat n) f = Some (rc, Some (peeked n f), f)"
proof (cases "n \<le> stored f")
  case True
  then show ?thesis
    using peek_refine [OF assms(1), of "word_of_nat n" "replicate n 0"] assms(2)
    by (simp add: unat_u32_small peeked_def)
next
  case False
  then show ?thesis
    using peek_refuse [OF assms(1), of "word_of_nat n" "Some (replicate n 0)"] assms(2)
    by (simp add: unat_u32_small peeked_def)
qed

lemma obj_bytes_zero: "obj_bytes n (0 :: 'a::len word) = replicate n 0"
  by (rule nth_equalityI) simp_all

lemma peekQword_peeked:
  assumes "fifo_inv f"
  shows "IOFifo_peekQword endian f =
     Some (word_of_le (if endian = IO_BIG_ENDIAN then rev (peeked 8 f) else peeked 8 f))"
proof -
  obtain rc where
    "IOFifo_peek (Some (replicate 8 0)) 8 f = Some (rc, Some (peeked 8 f), f)"
    using peek_zeros [OF assms, of 8] by auto
  then show ?thesis
    using rev_nths8 [of "peeked 8 f"] assms
    by (simp add: IOFifo_peekQword_def obj_bytes_zero del: word_of_le.simps)
qed

lemma peekDword_peeked:
  assumes "fifo_inv f"
  shows "IOFifo_peekDword endian f =
     (if endian = IO_BIG_ENDIAN then None else Some (word_of_le (peeked 4 f)))"
proof -
  obtain rc where "IOFifo_peek (Some (replicate 4 0)) 4 f = Some (rc, Some (peeked 4 f), f)"
    using peek_zeros [OF assms, of 4] by auto
  then show ?thesis using assms by (simp add: IOFifo_peekDword_def obj_bytes_zero mem_read_def)
qed

section \<open>Properties\<close>

text \<open>
  Property C2. No byte is lost, duplicated or reordered: from any fifo that satisfies its invariant,
  every sequence of pushes and pops, accepted or refused and in any order, has a defined result;
  what was stored followed by the bytes of the accepted pushes equals the bytes of the accepted
  pops followed by what is stored at the end, and the invariant and the capacity are kept.
\<close>

theorem fifo_conserves_bytes:
  assumes "fifo_inv f" "list_all (\<lambda>p. op_size p < 2 ^ 31) ops"
  shows "\<exists>acc del f'. fifo_run fifo_put fifo_get ops f = Some (acc, del, f') \<and> fifo_inv f' \<and>
     fifo_bytes f @ acc = del @ fifo_bytes f' \<and>
     unat (bytesLeft f') + length (fifo_bytes f') = unat (bytesLeft f) + length (fifo_bytes f)"
  using assms by (rule iofifo.run_conserves)

theorem fifo_conserves_bytes_witness:
  "\<exists>acc del f'. fifo_run fifo_put fifo_get [Push [1, 2], Pop 1, Push [3, 4], Pop 9]
       (IOFifo_new [0, 0, 0] 3) = Some (acc, del, f') \<and> fifo_inv f' \<and> acc = del @ fifo_bytes f'"
  using fifo_conserves_bytes [of "IOFifo_new [0, 0, 0] 3" "[Push [1, 2], Pop 1, Push [3, 4], Pop 9]"]
    fifo_new_inv [of 3 "[0, 0, 0]"]
  by auto

text \<open>
  Push refines appending to a list: with enough room it returns 0, keeps the invariant
  and the capacity, and the stored bytes become the old ones followed by the \<open>len\<close> source bytes,
  also when the copy goes around the end of the block; with too little room it returns -1 and the
  fifo is unchanged.
\<close>

theorem fifo_push_appends:
  assumes "fifo_inv f" "unat len \<le> length src"
  shows "(if unat len \<le> unat (bytesLeft f)
      then \<exists>f'. IOFifo_push src len f = Some (0, f') \<and> fifo_inv f' \<and> capacity f' = capacity f \<and>
             fifo_bytes f' = fifo_bytes f @ take (unat len) src
      else IOFifo_push src len f = Some (-1, f))"
  using push_refine [OF assms(1), of len src] assms(2) push_refuse [of f len src] by auto

theorem fifo_push_appends_witness:
  "\<exists>f'. IOFifo_push [5, 6] 2 (IOFifo_new [0, 0, 0] 3) = Some (0, f') \<and> fifo_bytes f' = [5, 6]"
  using fifo_push_appends [of "IOFifo_new [0, 0, 0] 3" 2 "[5, 6]"] fifo_new_inv [of 3 "[0, 0, 0]"]
  by auto

text \<open>
  Property C22. Pop, eat and peek refine taking from the front of a list, for a fifo that satisfies its invariant and a destination with room for
  \<open>len\<close> bytes: when \<open>len\<close> bytes are
  stored, pop and peek write the oldest \<open>len\<close> of them to the start of the destination and nothing
  beyond, pop and eat remove exactly these, peek removes nothing; when fewer are stored all three
  return -1 and change nothing.
\<close>

theorem fifo_pop_takes_oldest:
  assumes "fifo_inv f" "unat len \<le> length d"
  shows "(if unat len \<le> length (fifo_bytes f)
      then \<exists>f'. IOFifo_pop (Some d) len 0 f =
               Some (0, Some (take (unat len) (fifo_bytes f) @ drop (unat len) d), f') \<and>
             IOFifo_eat len f = Some (0, None, f') \<and>
             IOFifo_peek (Some d) len f =
               Some (0, Some (take (unat len) (fifo_bytes f) @ drop (unat len) d), f) \<and>
             fifo_inv f' \<and> fifo_bytes f' = drop (unat len) (fifo_bytes f)
      else IOFifo_pop (Some d) len 0 f = Some (-1, Some d, f) \<and>
           IOFifo_eat len f = Some (-1, None, f) \<and>
           IOFifo_peek (Some d) len f = Some (-1, Some d, f))"
proof (cases "unat len \<le> stored f")
  case True
  then show ?thesis
    using pop_refine [OF assms(1) True] peek_refine [OF assms(1) True assms(2)] assms
    by (auto simp: length_fifo_bytes IOFifo_eat_def)
next
  case False
  then show ?thesis
    using assms by (simp add: length_fifo_bytes IOFifo_eat_def pop_refuse peek_refuse)
qed

theorem fifo_pop_takes_oldest_witness:
  "\<exists>f. fifo_inv f \<and> fifo_bytes f = [5, 6] \<and>
     (\<exists>f'. IOFifo_pop (Some [0, 0]) 1 0 f = Some (0, Some [5, 0], f') \<and> fifo_bytes f' = [6])"
proof -
  obtain f where "fifo_inv f" "fifo_bytes f = [5, 6]"
    using push_refine [of "IOFifo_new [0, 0, 0] 3" 2 "[5, 6]"] fifo_new_inv [of 3 "[0, 0, 0]"]
    by auto
  then show ?thesis using fifo_pop_takes_oldest [of f 1 "[0, 0]"] by auto
qed

text \<open>
  \<^verbatim>\<open>peekQword\<close> returns the first eight stored bytes in the byte order asked for,
  and zero when fewer are stored, as its comment promises; \<^verbatim>\<open>peekDword\<close> does so for four bytes in
  little-endian order, but asked for big-endian it reads four bytes behind its local variable and
  has no defined result.
\<close>

theorem fifo_word_peeks:
  assumes "fifo_inv f"
  shows "IOFifo_peekQword IO_LITTLE_ENDIAN f = Some (word_of_le (peeked 8 f)) \<and>
     IOFifo_peekQword IO_BIG_ENDIAN f = Some (word_of_le (rev (peeked 8 f))) \<and>
     (length (fifo_bytes f) < 8 \<longrightarrow> IOFifo_peekQword e f = Some 0) \<and>
     IOFifo_peekDword IO_LITTLE_ENDIAN f = Some (word_of_le (peeked 4 f)) \<and>
     IOFifo_peekDword IO_BIG_ENDIAN f = None"
proof -
  have "word_of_le (replicate 8 0) = (0 :: u64)" by (simp add: numeral_eq_Suc)
  then show ?thesis
    using assms length_fifo_bytes [OF assms]
    by (auto simp: peekQword_peeked peekDword_peeked IO_BIG_ENDIAN_def IO_LITTLE_ENDIAN_def
        peeked_def)
qed

theorem fifo_word_peeks_witness:
  "IOFifo_peekQword 1 (IOFifo_new [9, 9, 9] 3) = Some 0 \<and>
   IOFifo_peekDword IO_BIG_ENDIAN (IOFifo_new [9, 9, 9] 3) = None"
  using fifo_word_peeks [of "IOFifo_new [9, 9, 9] 3" 1] fifo_new_inv [of 3 "[9, 9, 9]"] by auto

text \<open>
  Two places where the fifo does not do what its comments say. Passing the default
  length -1 is documented to pop or peek all the data stored, but the comparison is unsigned, so it
  is always refused. \<^verbatim>\<open>peekByte\<close> is documented to return the oldest byte, but it reads the block
  at the write position: after the byte \<open>x\<close> is pushed to a fresh fifo of capacity at least two it
  returns what \<^verbatim>\<open>malloc\<close> left in the second cell.
\<close>

theorem fifo_default_length_and_peekByte:
  assumes "fifo_inv f" "length g = unat n" "1 < unat n" "unat n < 2 ^ 31"
  shows "IOFifo_pop d (word_of_int (-1)) pk f = Some (-1, d, f) \<and>
     (\<exists>f'. IOFifo_push [x] 1 (IOFifo_new g n) = Some (0, f') \<and> fifo_bytes f' = [x] \<and>
           IOFifo_peekByte f' = Some (g ! 1))"
proof -
  have "unat (word_of_int (-1) :: u32) = 2 ^ 32 - 1"
    using unsigned_minus_1_eq_mask [where 'a = nat and 'b = 32] by (simp add: mask_eq_exp_minus_1)
  then have "stored f < unat (word_of_int (-1) :: u32)"
    using fifo_invD(2) [OF assms(1)] by simp
  then have "IOFifo_pop d (word_of_int (-1)) pk f = Some (-1, d, f)"
    by (rule pop_refuse [OF assms(1)])
  moreover
  have inv: "fifo_inv (IOFifo_new g n)" "fifo_bytes (IOFifo_new g n) = []"
    using fifo_new_inv [of n g] assms by auto
  obtain y z zs where g: "g = y # z # zs"
    using assms(2,3) by (cases g; cases "tl g") auto
  define f' where "f' = \<lparr>buffer = x # z # zs, bytesLeft = n - 1, capacity = n, writePos = 1, readPos = 0\<rparr>"
  have one: "1 mod n = 1" "1 < n" "n \<noteq> 0" "1 \<le> n"
    using assms(3) by (auto simp: word_less_nat_alt word_le_nat_alt word_unat_eq_iff unat_mod)
  then have "IOFifo_push [x] 1 (IOFifo_new g n) = Some (0, f')"
    by (simp add: IOFifo_push_def IOFifo_new_def f'_def g umod_def memcpy_def mem_read_def mem_write_def)
  moreover from this have "fifo_bytes f' = [x]"
    using push_refine [OF inv(1), of 1 "[x]"] inv(2) assms(3) by (auto simp: IOFifo_new_def)
  moreover have "IOFifo_peekByte f' = Some (g ! 1)"
    by (simp add: IOFifo_peekByte_def f'_def g mem_read_def)
  ultimately show ?thesis by blast
qed

theorem fifo_default_length_and_peekByte_witness:
  "IOFifo_pop None (word_of_int (-1)) 0 (IOFifo_new [8, 9] 2) = Some (-1, None, IOFifo_new [8, 9] 2) \<and>
   (\<exists>f'. IOFifo_push [5] 1 (IOFifo_new [8, 9] 2) = Some (0, f') \<and> IOFifo_peekByte f' = Some 9)"
  using fifo_default_length_and_peekByte [of "IOFifo_new [8, 9] 2" "[8, 9]" 2 None 0 5]
    fifo_new_inv [of 2 "[8, 9]"]
  by auto

end
