(* ===== verification/C_String.thy ===== *)
theory C_String
  imports
    Teg_Prelude
    "HOL-Library.Char_ord"
    "HOL-Library.List_Lexorder"
begin

text \<open>
  Strings of the sources and the functions of the C library that they use, in the C locale. A
  \<^verbatim>\<open>const char *\<close> argument is given by the characters before its terminating zero; a
  \<^verbatim>\<open>std::string\<close> is given by all its characters and becomes a C string by \<open>c_str\<close>. The order of
  strings is that of \<^verbatim>\<open>std::string::compare\<close>: lexicographic over unsigned characters, which is the
  order of the theories \<^verbatim>\<open>Char_ord\<close> and \<^verbatim>\<open>List_Lexorder\<close>.
\<close>

abbreviation nul :: char where
  "nul \<equiv> CHR 0x00"

definition c_str :: "string \<Rightarrow> string" where
  "c_str s = takeWhile (\<lambda>c. c \<noteq> nul) s"

definition is_c_str :: "string \<Rightarrow> bool" where
  "is_c_str s \<longleftrightarrow> nul \<notin> set s"

lemma c_str_id [cstr_simps]: "is_c_str s \<Longrightarrow> c_str s = s"
  by (simp add: c_str_def is_c_str_def takeWhile_neq_all)

lemma is_c_str_simps [cstr_simps]:
  "is_c_str []"
  "is_c_str (c # s) \<longleftrightarrow> c \<noteq> nul \<and> is_c_str s"
  "is_c_str (s @ t) \<longleftrightarrow> is_c_str s \<and> is_c_str t"
  by (auto simp: is_c_str_def)

lemma is_c_str_c_str [simp]: "is_c_str (c_str s)"
  by (auto simp: c_str_def is_c_str_def dest: set_takeWhileD)

section \<open>Character classes\<close>

text \<open>
  The program passes plain chars to the functions of \<^verbatim>\<open>ctype.h\<close>. For the bytes from 128 on these are negative numbers, which C leaves undefined; GNU libc
  extends its tables down to -128, and in the C locale such characters belong to no class. The predicates below describe that library. Where an operation
  has undefined runs anyway and a theorem speaks of all texts, \<open>is_ascii\<close> asks for the characters on which every C library agrees.
\<close>

definition is_ascii :: "string \<Rightarrow> bool" where
  "is_ascii s \<longleftrightarrow> (\<forall>c\<in>set s. of_char c < (128 :: nat))"

lemma is_ascii_simps [simp]:
  "is_ascii []" "is_ascii (c # s) \<longleftrightarrow> of_char c < (128 :: nat) \<and> is_ascii s" "is_ascii (s @ t) \<longleftrightarrow> is_ascii s \<and> is_ascii t"
  by (auto simp: is_ascii_def)

definition isspace :: "char \<Rightarrow> bool" where
  "isspace c \<longleftrightarrow> c = CHR '' '' \<or> 9 \<le> (of_char c :: nat) \<and> (of_char c :: nat) \<le> 13"

definition isdigit :: "char \<Rightarrow> bool" where
  "isdigit c \<longleftrightarrow> 48 \<le> (of_char c :: nat) \<and> (of_char c :: nat) \<le> 57"

definition isupper :: "char \<Rightarrow> bool" where
  "isupper c \<longleftrightarrow> 65 \<le> (of_char c :: nat) \<and> (of_char c :: nat) \<le> 90"

definition islower :: "char \<Rightarrow> bool" where
  "islower c \<longleftrightarrow> 97 \<le> (of_char c :: nat) \<and> (of_char c :: nat) \<le> 122"

definition isalpha :: "char \<Rightarrow> bool" where
  "isalpha c \<longleftrightarrow> isupper c \<or> islower c"

definition isalnum :: "char \<Rightarrow> bool" where
  "isalnum c \<longleftrightarrow> isalpha c \<or> isdigit c"

definition tolower :: "char \<Rightarrow> char" where
  "tolower c = (if isupper c then char_of (of_char c + 32 :: nat) else c)"

lemmas ctype_defs = isspace_def isdigit_def isupper_def islower_def isalpha_def isalnum_def

lemma tolower_idem [simp]: "tolower (tolower c) = tolower c"
proof (cases "isupper c")
  case True
  then have "of_char (char_of (of_char c + 32 :: nat)) = (of_char c + 32 :: nat)"
    by (simp add: isupper_def)
  then show ?thesis using True by (simp add: tolower_def isupper_def)
qed (simp add: tolower_def)

text \<open>\<^verbatim>\<open>strcmp\<close> and \<^verbatim>\<open>stricmp\<close> are only compared with zero in the sources.\<close>

definition stricmp_eq :: "string \<Rightarrow> string \<Rightarrow> bool" where
  "stricmp_eq a b \<longleftrightarrow> map tolower a = map tolower b"

section \<open>Searching and splitting\<close>

text \<open>\<^verbatim>\<open>strchr\<close> for a non-zero character: the index of its first occurrence.\<close>

definition strchr :: "string \<Rightarrow> char \<Rightarrow> nat option" where
  "strchr s c = (if c \<in> set s then Some (length (takeWhile (\<lambda>x. x \<noteq> c) s)) else None)"

lemma strchr_append [cstr_simps]: "c \<notin> set s \<Longrightarrow> strchr (s @ c # t) c = Some (length s)"
  by (simp add: strchr_def takeWhile_tail takeWhile_neq_all)

lemma strchr_None [cstr_simps]: "strchr s c = None \<longleftrightarrow> c \<notin> set s"
  by (simp add: strchr_def)

lemma strchr_SomeD: "strchr s c = Some i \<Longrightarrow> c \<in> set s"
  by (simp add: strchr_def split: if_splits)

text \<open>\<^verbatim>\<open>strstr\<close>: the index of the first occurrence of \<open>pat\<close>.\<close>

fun strstr :: "string \<Rightarrow> string \<Rightarrow> nat option" where
  "strstr [] pat = (if pat = [] then Some 0 else None)"
| "strstr (c # s) pat =
     (if prefix pat (c # s) then Some 0 else map_option Suc (strstr s pat))"

lemma strstr_Some:
  "strstr s pat = Some i \<Longrightarrow> i + length pat \<le> length s \<and> take (length pat) (drop i s) = pat"
proof (induction s arbitrary: i)
  case (Cons c s)
  show ?case
  proof (cases "prefix pat (c # s)")
    case True
    then show ?thesis
      using Cons.prems prefix_length_le [OF True] by (auto simp: prefix_def)
  next
    case False
    then show ?thesis using Cons by auto
  qed
qed (simp split: if_splits)

lemma strstr_None: "strstr s pat = None \<longleftrightarrow> \<not> sublist pat s"
  by (induction s) (auto simp: sublist_Cons_right)

lemma strstr_empty: "strstr s [] = Some 0"
  by (cases s) auto

lemma strstr_first:
  assumes "pat \<noteq> []"
  shows "strstr s pat = Some i \<Longrightarrow> \<not> sublist pat (take i s)"
proof (induction s arbitrary: i)
  case (Cons c s)
  show ?case
  proof (cases "prefix pat (c # s)")
    case False
    then obtain j where j: "i = Suc j" "strstr s pat = Some j" using Cons.prems by auto
    have "\<not> prefix pat (c # take j s)"
      using False by (metis append_Cons append_take_drop_id prefix_prefix)
    then show ?thesis using j Cons.IH by (simp add: sublist_Cons_right)
  qed (use Cons.prems assms in auto)
qed (use assms in auto)

text \<open>
  One call of \<^verbatim>\<open>strtok\<close>: skip delimiters, return the characters up to the next delimiter, and
  leave what follows it for the next call; \<^const>\<open>None\<close> when only delimiters are left.
\<close>

definition strtok_next :: "(char \<Rightarrow> bool) \<Rightarrow> string \<Rightarrow> (string \<times> string) option" where
  "strtok_next d s =
     (let s' = dropWhile d s in
      if s' = [] then None
      else Some (takeWhile (\<lambda>c. \<not> d c) s', drop 1 (dropWhile (\<lambda>c. \<not> d c) s')))"

lemma strtok_next_shrinks: "strtok_next d s = Some (tok, rest) \<Longrightarrow> length rest < length s"
proof -
  assume a: "strtok_next d s = Some (tok, rest)"
  define s' where "s' = dropWhile d s"
  have s': "s' \<noteq> []" "rest = drop 1 (dropWhile (\<lambda>c. \<not> d c) s')"
    using a by (auto simp: strtok_next_def s'_def Let_def split: if_splits)
  moreover have "\<not> d (hd s')" using s'(1) hd_dropWhile [of d s] by (simp add: s'_def)
  ultimately have "length rest < length s'"
    using length_dropWhile_le [of "\<lambda>c. \<not> d c" s'] by (cases s') auto
  then show ?thesis using length_dropWhile_le [of d s] by (simp add: s'_def)
qed

lemma strtok_next_Nil [cstr_simps]: "strtok_next d [] = None"
  by (simp add: strtok_next_def)

lemma strtok_next_token [cstr_simps]:
  assumes "tok \<noteq> []" "\<forall>c\<in>set tok. \<not> d c" "d e"
  shows "strtok_next d (tok @ e # rest) = Some (tok, rest)"
  using assms by (cases tok) (simp_all add: strtok_next_def takeWhile_append2 dropWhile_append2)

lemma strtok_next_last [cstr_simps]:
  assumes "tok \<noteq> []" "\<forall>c\<in>set tok. \<not> d c"
  shows "strtok_next d tok = Some (tok, [])"
proof -
  have "dropWhile d tok = tok" using assms by (cases tok) auto
  moreover have "takeWhile (\<lambda>c. \<not> d c) tok = tok" "dropWhile (\<lambda>c. \<not> d c) tok = []"
    using assms(2) by (simp_all add: takeWhile_all dropWhile_all)
  ultimately show ?thesis
    using assms(1) unfolding strtok_next_def Let_def by (simp only: drop_Nil if_False)
qed

lemma strtok_next_delim [cstr_simps]: "d e \<Longrightarrow> strtok_next d (e # s) = strtok_next d s"
  by (simp add: strtok_next_def)

lemma strtok_next_parts:
  assumes "strtok_next d s = Some (tok, rest)"
  shows "tok \<noteq> []" "\<forall>c\<in>set tok. \<not> d c" "set tok \<subseteq> set s" "set rest \<subseteq> set s"
proof -
  define s' where "s' = dropWhile d s"
  have s': "s' \<noteq> []" "tok = takeWhile (\<lambda>c. \<not> d c) s'" "rest = drop 1 (dropWhile (\<lambda>c. \<not> d c) s')"
    using assms by (auto simp: strtok_next_def s'_def Let_def split: if_splits)
  have sub: "set s' \<subseteq> set s" by (auto simp: s'_def dest: set_dropWhileD)
  have "\<not> d (hd s')" using s'(1) hd_dropWhile [of d s] by (simp add: s'_def)
  then show "tok \<noteq> []" using s'(1,2) by (cases s') auto
  show "\<forall>c\<in>set tok. \<not> d c" using s'(2) by (auto dest: set_takeWhileD)
  show "set tok \<subseteq> set s" using s'(2) sub by (auto dest: set_takeWhileD)
  show "set rest \<subseteq> set s" using s'(3) sub by (auto dest!: in_set_dropD set_dropWhileD)
qed

text \<open>All the tokens a loop over \<^verbatim>\<open>strtok\<close> sees.\<close>

function strtok_list :: "(char \<Rightarrow> bool) \<Rightarrow> string \<Rightarrow> string list" where
  "strtok_list d s =
     (case strtok_next d s of None \<Rightarrow> [] | Some (tok, rest) \<Rightarrow> tok # strtok_list d rest)"
  by auto
termination
  by (relation "measure (\<lambda>(d, s). length s)") (auto dest: strtok_next_shrinks)

declare strtok_list.simps [simp del]

lemma strtok_list_rec [cstr_simps]:
  "strtok_next d s = None \<Longrightarrow> strtok_list d s = []"
  "strtok_next d s = Some (tok, rest) \<Longrightarrow> strtok_list d s = tok # strtok_list d rest"
  by (subst strtok_list.simps; simp)+

lemma strtok_list_tokens: "t \<in> set (strtok_list d s) \<Longrightarrow> t \<noteq> [] \<and> (\<forall>c\<in>set t. \<not> d c) \<and> set t \<subseteq> set s"
proof (induction d s rule: strtok_list.induct)
  case (1 d s)
  show ?case
  proof (cases "strtok_next d s")
    case None
    then show ?thesis using 1 by (simp add: cstr_simps)
  next
    case (Some a)
    obtain tok rest where a: "a = (tok, rest)" by fastforce
    note p = strtok_next_parts [OF Some [unfolded a]]
    have "t = tok \<or> t \<in> set (strtok_list d rest)"
      using 1(2) Some a by (simp add: cstr_simps)
    then show ?thesis using p 1(1) [OF Some a [symmetric]] by blast
  qed
qed

section \<open>Decimal numbers\<close>

text \<open>
  \<^verbatim>\<open>printf("%d")\<close> of a number, the number that a text begins with, and \<^verbatim>\<open>atoi\<close>, which the C
  standard leaves undefined when that number does not fit an \<^verbatim>\<open>int\<close>.
\<close>

fun dec_digits :: "nat \<Rightarrow> string" where
  "dec_digits n = (if n < 10 then [char_of (48 + n)] else dec_digits (n div 10) @ [char_of (48 + n mod 10)])"

declare dec_digits.simps [simp del]

definition print_int :: "int \<Rightarrow> string" where
  "print_int i = (if i < 0 then CHR ''-'' # dec_digits (nat (- i)) else dec_digits (nat i))"

fun digits_value :: "nat \<Rightarrow> string \<Rightarrow> nat" where
  "digits_value acc [] = acc"
| "digits_value acc (c # s) =
     (if isdigit c then digits_value (10 * acc + (of_char c - 48)) s else acc)"

definition atoi_value :: "string \<Rightarrow> int" where
  "atoi_value s =
     (case dropWhile isspace s of
        [] \<Rightarrow> 0
      | c # r \<Rightarrow> if c = CHR ''-'' then - int (digits_value 0 r)
                 else if c = CHR ''+'' then int (digits_value 0 r)
                 else int (digits_value 0 (c # r)))"

definition atoi :: "string \<Rightarrow> int run" where
  "atoi s = cint_add (atoi_value s) 0"

lemma of_char_digit [simp]: "d < 10 \<Longrightarrow> of_char (char_of (48 + d :: nat) :: char) = 48 + d"
  by simp

lemma digit_char: "d < 10 \<Longrightarrow> isdigit (char_of (48 + d :: nat))"
  by (simp add: isdigit_def)

lemma digits_value_dec:
  "digits_value acc (dec_digits n @ s) = digits_value (acc * 10 ^ length (dec_digits n) + n) s"
proof (induction n arbitrary: acc s rule: dec_digits.induct)
  case (1 n)
  show ?case
  proof (cases "n < 10")
    case True
    then show ?thesis using digit_char [OF True]
      by (simp add: dec_digits.simps [of n] algebra_simps)
  next
    case False
    have "digits_value acc (dec_digits n @ s) =
        digits_value (acc * 10 ^ length (dec_digits (n div 10)) + n div 10) (char_of (48 + n mod 10) # s)"
      using False 1 [of acc "char_of (48 + n mod 10) # s"] by (simp add: dec_digits.simps [of n])
    also have "\<dots> = digits_value (10 * (acc * 10 ^ length (dec_digits (n div 10)) + n div 10) + n mod 10) s"
      using digit_char [of "n mod 10"] by simp
    also have "10 * (acc * 10 ^ length (dec_digits (n div 10)) + n div 10) + n mod 10 =
        acc * 10 ^ length (dec_digits n) + n"
      using False by (simp add: dec_digits.simps [of n] algebra_simps)
    finally show ?thesis .
  qed
qed

lemma dec_digits_isdigit: "c \<in> set (dec_digits n) \<Longrightarrow> isdigit c"
  by (induction n rule: dec_digits.induct)
    (subst (asm) (2) dec_digits.simps, auto simp: digit_char split: if_splits)

lemma dec_digits_not_Nil [simp]: "dec_digits n \<noteq> []"
  by (subst dec_digits.simps) simp

lemma digit_not: "isdigit c \<Longrightarrow> \<not> isspace c \<and> c \<noteq> CHR ''-'' \<and> c \<noteq> CHR ''+'' \<and> c \<noteq> nul"
  by (auto simp: isdigit_def isspace_def)

lemma atoi_value_print_int [simp]: "atoi_value (print_int i) = i"
proof (cases "i < 0")
  case True
  then show ?thesis
    using digits_value_dec [of 0 "nat (- i)" "[]"]
    by (simp add: atoi_value_def print_int_def isspace_def)
next
  case False
  obtain c r where c: "dec_digits (nat i) = c # r" by (cases "dec_digits (nat i)") auto
  then have "isdigit c" using dec_digits_isdigit [of c "nat i"] by simp
  then show ?thesis
    using digits_value_dec [of 0 "nat i" "[]"] False c digit_not [of c]
    by (simp add: atoi_value_def print_int_def)
qed

lemma atoi_print_int [simp]: "- int_max - 1 \<le> i \<Longrightarrow> i \<le> int_max \<Longrightarrow> atoi (print_int i) = Some i"
  by (simp add: atoi_def cint_add_def)

text \<open>A text of at most nine characters names a number that fits.\<close>

lemma digits_value_bound: "digits_value acc s < (acc + 1) * 10 ^ length s"
proof (induction s arbitrary: acc)
  case (Cons c s)
  have less: "digits_value acc' s < (acc + 1) * 10 ^ Suc (length s)" if "acc' + 1 \<le> 10 * (acc + 1)" for acc'
  proof -
    have "(acc' + 1) * 10 ^ length s \<le> 10 * (acc + 1) * 10 ^ length s" using that by (intro mult_right_mono) auto
    then show ?thesis using Cons.IH [of acc'] by (simp add: algebra_simps)
  qed
  have "acc < (acc + 1) * 10 ^ Suc (length s)"
  proof -
    have "(acc + 1) * 1 \<le> (acc + 1) * 10 ^ Suc (length s)" by (rule mult_le_mono2) simp
    then show ?thesis by simp
  qed
  then show ?case using less [of "10 * acc + (of_char c - 48)"] by (auto simp: isdigit_def)
qed simp

lemma atoi_short:
  assumes "length s \<le> 9"
  shows "atoi s = Some (atoi_value s)"
proof -
  have b: "int (digits_value 0 r) < 10 ^ 9" if "length r \<le> 9" for r
  proof -
    have "digits_value 0 r < 10 ^ length r" using digits_value_bound [of 0 r] by simp
    also have "(10 :: nat) ^ length r \<le> 10 ^ 9" using that by (intro power_increasing) auto
    finally show ?thesis by simp
  qed
  have "length (dropWhile isspace s) \<le> 9" using assms length_dropWhile_le [of isspace s] by linarith
  then have "\<bar>atoi_value s\<bar> < 10 ^ 9" using b [of "dropWhile isspace s"] b [of "tl (dropWhile isspace s)"]
    by (auto simp: atoi_value_def split: list.splits)
  then show ?thesis by (auto simp: atoi_def cint_add_def abs_less_iff)
qed

lemma dec_digits_length: "n < 10 ^ k \<Longrightarrow> 0 < k \<Longrightarrow> length (dec_digits n) \<le> k"
proof (induction k arbitrary: n)
  case (Suc k)
  show ?case
  proof (cases "n < 10")
    case False
    then have "0 < k" using Suc.prems by (cases k) auto
    moreover have "n div 10 < 10 ^ k" using Suc.prems by (simp add: div_less_iff_less_mult)
    ultimately show ?thesis using Suc.IH [of "n div 10"] False by (simp add: dec_digits.simps [of n])
  qed (simp add: dec_digits.simps [of n])
qed simp

lemma print_int_length: "\<bar>i\<bar> \<le> int_max + 1 \<Longrightarrow> length (print_int i) \<le> 11"
  using dec_digits_length [of "nat i" 10] dec_digits_length [of "nat (- i)" 10]
  by (cases "i < 0") (simp_all add: print_int_def nat_less_iff)

lemma is_c_str_print_int: "is_c_str (print_int i)"
  using digit_not dec_digits_isdigit by (auto simp: print_int_def is_c_str_def)

end
