(* ===== verification/Std_Map.thy ===== *)
theory Std_Map
  imports C_String
begin

text \<open>
  \<^verbatim>\<open>std::map\<close>, which several classes of the sources keep as their only state: a list of key/value
  pairs in ascending key order, so that iteration is the list itself. The locale \<open>ordered_map\<close>
  states what a client of the container relies on.
\<close>

type_synonym ('k, 'v) smap = "('k \<times> 'v) list"

fun smap_set :: "'k::linorder \<Rightarrow> 'v \<Rightarrow> ('k, 'v) smap \<Rightarrow> ('k, 'v) smap" where
  "smap_set k v [] = [(k, v)]"
| "smap_set k v ((k', v') # m) =
     (if k < k' then (k, v) # (k', v') # m
      else if k = k' then (k, v) # m
      else (k', v') # smap_set k v m)"

definition smap_find :: "('k, 'v) smap \<Rightarrow> 'k \<Rightarrow> 'v option" where
  "smap_find m k = map_of m k"

definition smap_erase :: "'k \<Rightarrow> ('k, 'v) smap \<Rightarrow> ('k, 'v) smap" where
  "smap_erase k m = filter (\<lambda>(k', _). k' \<noteq> k) m"

definition smap_ok :: "('k::linorder, 'v) smap \<Rightarrow> bool" where
  "smap_ok m \<longleftrightarrow> sorted_wrt (<) (map fst m)"

locale ordered_map =
  fixes find :: "'m \<Rightarrow> 'k \<Rightarrow> 'v option"
    and set_at :: "'k \<Rightarrow> 'v \<Rightarrow> 'm \<Rightarrow> 'm"
    and erase :: "'k \<Rightarrow> 'm \<Rightarrow> 'm"
    and empty :: 'm
    and entries :: "'m \<Rightarrow> ('k \<times> 'v) list"
    and ok :: "'m \<Rightarrow> bool"
  assumes find_set: "find (set_at k v m) k' = (if k' = k then Some v else find m k')"
    and find_erase: "find (erase k m) k' = (if k' = k then None else find m k')"
    and find_empty: "find empty k = None"
    and find_entries: "find m k = map_of (entries m) k"
    and ok_set: "ok m \<Longrightarrow> ok (set_at k v m)"
    and ok_erase: "ok m \<Longrightarrow> ok (erase k m)"
    and ok_empty: "ok empty"
    and distinct_entries: "ok m \<Longrightarrow> distinct (map fst (entries m))"
    and ext: "ok m \<Longrightarrow> ok m' \<Longrightarrow> (\<And>k. find m k = find m' k) \<Longrightarrow> m = m'"
begin

definition put_all :: "('k \<times> 'v) list \<Rightarrow> 'm \<Rightarrow> 'm" where
  "put_all es m = fold (\<lambda>(k, v). set_at k v) es m"

lemma put_all_simps: "put_all [] m = m" "put_all ((k, v) # es) m = put_all es (set_at k v m)"
  by (simp_all add: put_all_def)

lemma ok_put_all: "ok m \<Longrightarrow> ok (put_all es m)"
  by (induction es arbitrary: m) (auto simp: put_all_def ok_set)

text \<open>Of several entries for one key the last one counts.\<close>

lemma find_put_all:
  "find (put_all es m) k = (case map_of (rev es) k of Some v \<Rightarrow> Some v | None \<Rightarrow> find m k)"
  by (induction es arbitrary: m)
    (auto simp: put_all_def find_set map_of_append map_add_def split: option.splits)

text \<open>Inserting all the entries of a map, in any order, rebuilds it.\<close>

lemma put_all_rebuild:
  assumes "ok m" "set es = set (entries m)" "distinct (map fst es)"
    and "\<And>k. find m' k \<noteq> None \<Longrightarrow> find m k \<noteq> None" "ok m'"
  shows "put_all es m' = m"
proof (rule ext [OF ok_put_all assms(1)])
  fix k
  have "distinct (map fst (rev es))" using assms(3) by (simp add: rev_map [symmetric])
  then have "map_of (rev es) k = map_of (entries m) k"
    using distinct_entries [OF assms(1)] assms(2)
    by (intro fun_cong [OF map_of_inject_set [THEN iffD2]]) auto
  then show "find (put_all es m') k = find m k"
    using assms(4) [of k] find_entries [of m k]
    by (cases "find m' k") (auto simp: find_put_all split: option.splits)
qed (use assms in auto)

lemma set_same: "ok m \<Longrightarrow> find m k = Some v \<Longrightarrow> set_at k v m = m"
  by (rule ext) (auto simp: ok_set find_set)

lemma set_set: "ok m \<Longrightarrow> set_at k v (set_at k w m) = set_at k v m"
  by (rule ext) (auto simp: ok_set find_set)

lemma erase_set: "ok m \<Longrightarrow> find m k = None \<Longrightarrow> erase k (set_at k v m) = m"
  by (rule ext) (auto simp: ok_set ok_erase find_set find_erase)

end

lemma smap_set_keys: "set (map fst (smap_set k v m)) = insert k (set (map fst m))"
  by (induction k v m rule: smap_set.induct) auto

lemma map_of_smap_set: "map_of (smap_set k v m) k' = (if k' = k then Some v else map_of m k')"
  by (induction k v m rule: smap_set.induct) auto

lemma smap_ok_set: "smap_ok m \<Longrightarrow> smap_ok (smap_set k v m)"
proof (induction k v m rule: smap_set.induct)
  case (2 k v k' v' m)
  then show ?case
    using smap_set_keys [of k v m] by (fastforce simp: smap_ok_def)
qed (simp add: smap_ok_def)

lemma smap_ok_distinct: "smap_ok m \<Longrightarrow> distinct (map fst m)"
  by (simp add: smap_ok_def strict_sorted_iff)

lemma smap_ok_sorted: "smap_ok m \<Longrightarrow> sorted (map fst m)"
  by (simp add: smap_ok_def strict_sorted_iff)

lemma smap_ext:
  assumes ok: "smap_ok m" "smap_ok m'" and eq: "\<And>k. map_of m k = map_of m' k"
  shows "m = m'"
proof -
  have set: "set m = set m'"
    using map_of_inject_set [OF smap_ok_distinct [OF ok(1)] smap_ok_distinct [OF ok(2)]] eq
    by (simp add: fun_eq_iff)
  then have "map fst m = map fst m'"
    using ok by (intro sorted_distinct_set_unique smap_ok_distinct smap_ok_sorted)
      (simp_all add: image_iff)
  with set show ?thesis
    using smap_ok_distinct [OF ok(1)] ok
    by (intro inj_on_map_eq_map [THEN iffD1, of fst])
      (auto simp: distinct_map)
qed

interpretation smap: ordered_map smap_find smap_set smap_erase "[]" "\<lambda>m. m" smap_ok
proof unfold_locales
  fix k k' v and m m' :: "('a::linorder, 'b) smap"
  show "smap_find (smap_set k v m) k' = (if k' = k then Some v else smap_find m k')"
    by (simp add: smap_find_def map_of_smap_set)
  show "smap_find (smap_erase k m) k' = (if k' = k then None else smap_find m k')"
    by (induction m) (auto simp: smap_find_def smap_erase_def)
  show "smap_ok m \<Longrightarrow> smap_ok (smap_erase k m)"
    by (auto simp: smap_ok_def smap_erase_def sorted_wrt_map intro: sorted_wrt_filter)
  show "smap_ok m \<Longrightarrow> smap_ok m' \<Longrightarrow> (\<And>k. smap_find m k = smap_find m' k) \<Longrightarrow> m = m'"
    by (rule smap_ext) (auto simp: smap_find_def)
qed (simp_all add: smap_find_def smap_ok_set smap_ok_distinct, simp add: smap_ok_def)

end
