(* ===== verification/Secure_Acl.thy ===== *)
theory Secure_Acl
  imports Std_Map
begin

text \<open>
  The access lists of LibSecure (\<^verbatim>\<open>Acl.cpp\<close>, class \<^verbatim>\<open>SecureAcl\<close> of \<^verbatim>\<open>Secure.h\<close>). The state
  is the map from user names to rights, with the entry \<^verbatim>\<open>*\<close> for users who are not listed. Rights
  are the bits of a C \<^verbatim>\<open>int\<close>. Methods that change the object return it; \<open>toString\<close> has no defined
  result when the entry \<^verbatim>\<open>*\<close> is missing, because it then reads an uninitialised variable.
\<close>

definition SECURE_ACL_DENY :: u32 where "SECURE_ACL_DENY = push_bit 0 1"
definition SECURE_ACL_FULL :: u32 where "SECURE_ACL_FULL = push_bit 1 1"
definition SECURE_ACL_READ :: u32 where "SECURE_ACL_READ = push_bit 2 1"
definition SECURE_ACL_WRITE :: u32 where "SECURE_ACL_WRITE = push_bit 3 1"
definition SECURE_ACL_ERASE :: u32 where "SECURE_ACL_ERASE = push_bit 4 1"

definition SECURE_ACL_SYMBOL_DENY :: char where "SECURE_ACL_SYMBOL_DENY = CHR ''D''"
definition SECURE_ACL_SYMBOL_FULL :: char where "SECURE_ACL_SYMBOL_FULL = CHR ''F''"
definition SECURE_ACL_SYMBOL_READ :: char where "SECURE_ACL_SYMBOL_READ = CHR ''R''"
definition SECURE_ACL_SYMBOL_WRITE :: char where "SECURE_ACL_SYMBOL_WRITE = CHR ''W''"
definition SECURE_ACL_SYMBOL_ERASE :: char where "SECURE_ACL_SYMBOL_ERASE = CHR ''E''"

lemmas acl_bits = SECURE_ACL_DENY_def SECURE_ACL_FULL_def SECURE_ACL_READ_def
  SECURE_ACL_WRITE_def SECURE_ACL_ERASE_def

lemmas acl_symbols = SECURE_ACL_SYMBOL_DENY_def SECURE_ACL_SYMBOL_FULL_def
  SECURE_ACL_SYMBOL_READ_def SECURE_ACL_SYMBOL_WRITE_def SECURE_ACL_SYMBOL_ERASE_def

record SecureAcl =
  rights :: "(string, u32) smap"

definition encode_symbol :: "u32 \<Rightarrow> char \<Rightarrow> u32" where
  "encode_symbol r c =
     (if c = SECURE_ACL_SYMBOL_DENY then r OR SECURE_ACL_DENY
      else if c = SECURE_ACL_SYMBOL_FULL then r OR SECURE_ACL_FULL
      else if c = SECURE_ACL_SYMBOL_READ then r OR SECURE_ACL_READ
      else if c = SECURE_ACL_SYMBOL_WRITE then r OR SECURE_ACL_WRITE
      else if c = SECURE_ACL_SYMBOL_ERASE then r OR SECURE_ACL_ERASE
      else r)"

definition SecureAcl_encodeRights :: "string option \<Rightarrow> u32" where
  "SecureAcl_encodeRights str =
     (let r = (case str of None \<Rightarrow> 0 | Some s \<Rightarrow> foldl encode_symbol 0 s) in
      if r = 0 \<or> r AND SECURE_ACL_DENY \<noteq> 0 then SECURE_ACL_DENY
      else if r AND SECURE_ACL_FULL \<noteq> 0 then SECURE_ACL_FULL
      else r)"

definition SecureAcl_decodeRights :: "u32 \<Rightarrow> string" where
  "SecureAcl_decodeRights r =
     (if r = 0 \<or> r AND SECURE_ACL_DENY \<noteq> 0 then [SECURE_ACL_SYMBOL_DENY]
      else if r AND SECURE_ACL_FULL \<noteq> 0 then [SECURE_ACL_SYMBOL_FULL]
      else (if r AND SECURE_ACL_READ \<noteq> 0 then [SECURE_ACL_SYMBOL_READ] else []) @
           (if r AND SECURE_ACL_WRITE \<noteq> 0 then [SECURE_ACL_SYMBOL_WRITE] else []) @
           (if r AND SECURE_ACL_ERASE \<noteq> 0 then [SECURE_ACL_SYMBOL_ERASE] else []))"

definition SecureAcl_clear :: "SecureAcl \<Rightarrow> SecureAcl" where
  "SecureAcl_clear self = self\<lparr>rights := smap_set ''*'' SECURE_ACL_DENY []\<rparr>"

definition SecureAcl_new :: SecureAcl where
  "SecureAcl_new = SecureAcl_clear \<lparr>rights = []\<rparr>"

text \<open>The loop of \<open>initFromString\<close>; \<^const>\<open>None\<close> is the jump to the error handler.\<close>

function acl_tokens :: "string \<Rightarrow> (string, u32) smap \<Rightarrow> (string, u32) smap option" where
  "acl_tokens tmp m =
     (case strtok_next (\<lambda>c. c = CHR '';'') tmp of
        None \<Rightarrow> Some m
      | Some (token, rest) \<Rightarrow>
          (case strchr token (CHR '':'') of
             None \<Rightarrow> None
           | Some delim \<Rightarrow>
               acl_tokens rest
                 (smap_set (take delim token)
                    (SecureAcl_encodeRights (Some (drop (delim + 1) token))) m)))"
  by pat_completeness auto
termination
  by (relation "measure (\<lambda>(tmp, m). length tmp)") (auto dest: strtok_next_shrinks)

declare acl_tokens.simps [simp del]

text \<open>A null pointer is refused, but the error message then prints it with \<^verbatim>\<open>%s\<close>, which has no defined result.\<close>

definition SecureAcl_initFromString :: "string option \<Rightarrow> SecureAcl \<Rightarrow> (int \<times> SecureAcl) run" where
  "SecureAcl_initFromString acl self =
     (let self0 = SecureAcl_clear self in
      case acl of
        None \<Rightarrow> None
      | Some s \<Rightarrow> Some
          (case acl_tokens s (rights self0) of
             None \<Rightarrow> (-1, SecureAcl_clear self0)
           | Some m \<Rightarrow> (0, self0\<lparr>rights := m\<rparr>)))"

definition SecureAcl_setRights :: "string option \<Rightarrow> u32 \<Rightarrow> SecureAcl \<Rightarrow> int \<times> SecureAcl" where
  "SecureAcl_setRights user r self =
     (case user of
        None \<Rightarrow> (-1, self)
      | Some u \<Rightarrow> (0, self\<lparr>rights := smap_set u r (rights self)\<rparr>))"

definition SecureAcl_setRights_str ::
    "string option \<Rightarrow> string option \<Rightarrow> SecureAcl \<Rightarrow> int \<times> SecureAcl" where
  "SecureAcl_setRights_str user r self =
     SecureAcl_setRights user (SecureAcl_encodeRights r) self"

definition SecureAcl_setOthersRights :: "u32 \<Rightarrow> SecureAcl \<Rightarrow> int \<times> SecureAcl" where
  "SecureAcl_setOthersRights r self = SecureAcl_setRights (Some ''*'') r self"

definition SecureAcl_setOthersRights_str :: "string option \<Rightarrow> SecureAcl \<Rightarrow> int \<times> SecureAcl" where
  "SecureAcl_setOthersRights_str r self =
     SecureAcl_setRights (Some ''*'') (SecureAcl_encodeRights r) self"

definition SecureAcl_revokeAll :: "string option \<Rightarrow> SecureAcl \<Rightarrow> int \<times> SecureAcl" where
  "SecureAcl_revokeAll user self =
     (case user of
        None \<Rightarrow> (-1, self)
      | Some u \<Rightarrow> (0, self\<lparr>rights := smap_erase u (rights self)\<rparr>))"

text \<open>\<open>rights_["*"]\<close> inserts a zero when the entry is missing.\<close>

definition SecureAcl_getRights :: "string option \<Rightarrow> SecureAcl \<Rightarrow> u32 \<times> SecureAcl" where
  "SecureAcl_getRights user self =
     (case user of
        None \<Rightarrow> (SECURE_ACL_DENY, self)
      | Some u \<Rightarrow>
          (case smap_find (rights self) u of
             Some r \<Rightarrow> (r, self)
           | None \<Rightarrow>
               (case smap_find (rights self) ''*'' of
                  Some r \<Rightarrow> (r, self)
                | None \<Rightarrow> (0, self\<lparr>rights := smap_set ''*'' 0 (rights self)\<rparr>))))"

definition SecureAcl_getRightsString :: "string option \<Rightarrow> SecureAcl \<Rightarrow> string \<times> SecureAcl" where
  "SecureAcl_getRightsString user self =
     (case SecureAcl_getRights user self of (r, self') \<Rightarrow> (SecureAcl_decodeRights r, self'))"

fun acl_print :: "(string \<times> u32) list \<Rightarrow> string \<Rightarrow> u32 option \<Rightarrow> string \<times> u32 option" where
  "acl_print [] ret othersRights = (ret, othersRights)"
| "acl_print ((first, second) # it) ret othersRights =
     (if first = ''*'' then acl_print it ret (Some second)
      else acl_print it (ret @ first @ '':'' @ SecureAcl_decodeRights second @ '';'') othersRights)"

definition SecureAcl_toString :: "SecureAcl \<Rightarrow> string run" where
  "SecureAcl_toString self =
     (case acl_print (rights self) [] None of
        (ret, None) \<Rightarrow> None
      | (ret, Some othersRights) \<Rightarrow>
          Some (ret @ ''*:'' @ SecureAcl_decodeRights othersRights @ '';''))"

section \<open>Rights\<close>

text \<open>The rights that a text of symbols names, and the ones the code stores for it.\<close>

definition symbol_bit :: "char \<Rightarrow> u32" where
  "symbol_bit c = encode_symbol 0 c"

lemma encode_symbol_bit: "encode_symbol r c = r OR symbol_bit c"
  by (simp add: symbol_bit_def encode_symbol_def)

text \<open>Bit \<open>k\<close> is set by a text exactly if the symbol of this bit occurs in it.\<close>

definition symbol_of_bit :: "nat \<Rightarrow> char option" where
  "symbol_of_bit k =
     (if k = 0 then Some SECURE_ACL_SYMBOL_DENY else if k = 1 then Some SECURE_ACL_SYMBOL_FULL
      else if k = 2 then Some SECURE_ACL_SYMBOL_READ else if k = 3 then Some SECURE_ACL_SYMBOL_WRITE
      else if k = 4 then Some SECURE_ACL_SYMBOL_ERASE else None)"

lemma bit_acl_bits:
  "bit SECURE_ACL_DENY k \<longleftrightarrow> k = 0"
  "bit SECURE_ACL_FULL k \<longleftrightarrow> k = 1"
  "bit SECURE_ACL_READ k \<longleftrightarrow> k = 2"
  "bit SECURE_ACL_WRITE k \<longleftrightarrow> k = 3"
  "bit SECURE_ACL_ERASE k \<longleftrightarrow> k = 4"
  unfolding acl_bits by (auto simp only: bit_push_bit_iff bit_1_iff possible_bit_word) auto

lemma bit_symbol_bit: "bit (symbol_bit c) k \<longleftrightarrow> symbol_of_bit k = Some c"
  by (auto simp: symbol_bit_def encode_symbol_def bit_acl_bits acl_symbols symbol_of_bit_def)

lemma bit_encode_fold:
  "bit (foldl encode_symbol r s) k \<longleftrightarrow> bit r k \<or> (\<exists>c\<in>set s. symbol_of_bit k = Some c)"
  by (induction s arbitrary: r) (auto simp: encode_symbol_bit bit_simps bit_symbol_bit)

lemma acl_bit_tests:
  "r AND SECURE_ACL_DENY = 0 \<longleftrightarrow> \<not> bit r 0"
  "r AND SECURE_ACL_FULL = 0 \<longleftrightarrow> \<not> bit r 1"
  "r AND SECURE_ACL_READ = 0 \<longleftrightarrow> \<not> bit r 2"
  "r AND SECURE_ACL_WRITE = 0 \<longleftrightarrow> \<not> bit r 3"
  "r AND SECURE_ACL_ERASE = 0 \<longleftrightarrow> \<not> bit r 4"
  by (auto simp: word_eq_0_bits bit_and_iff bit_acl_bits intro: gr0I)

text \<open>
  Normal rights: deny, full, or a non-empty combination of read, write and erase. \<open>acl_norm\<close> is
  what is left of arbitrary rights after they are printed and read back.
\<close>

definition acl_normal :: "u32 \<Rightarrow> bool" where
  "acl_normal r \<longleftrightarrow> r = SECURE_ACL_DENY \<or> r = SECURE_ACL_FULL \<or>
     r \<noteq> 0 \<and> (\<forall>k. bit r k \<longrightarrow> k \<in> {2, 3, 4})"

definition acl_norm :: "u32 \<Rightarrow> u32" where
  "acl_norm r = SecureAcl_encodeRights (Some (SecureAcl_decodeRights r))"

lemma symbol_of_bit_simps [simp]:
  "symbol_of_bit 0 = Some (CHR ''D'')" "symbol_of_bit (Suc 0) = Some (CHR ''F'')"
  "symbol_of_bit 2 = Some (CHR ''R'')" "symbol_of_bit 3 = Some (CHR ''W'')"
  "symbol_of_bit 4 = Some (CHR ''E'')"
  by (simp_all add: symbol_of_bit_def acl_symbols)

lemma symbol_of_bit_Some: "symbol_of_bit k = Some c \<Longrightarrow> k \<in> {0, 1, 2, 3, 4}"
  by (auto simp: symbol_of_bit_def split: if_splits)

lemma known_symbol:
  "(\<exists>k. symbol_of_bit k = Some c) \<longleftrightarrow> c \<in> set ''DFRWE''"
proof
  show "\<exists>k. symbol_of_bit k = Some c \<Longrightarrow> c \<in> set ''DFRWE''"
    using symbol_of_bit_Some by fastforce
  show "c \<in> set ''DFRWE'' \<Longrightarrow> \<exists>k. symbol_of_bit k = Some c"
    using symbol_of_bit_simps by (simp only: set_simps) blast
qed

lemma encode_fold_zero: "foldl encode_symbol 0 s = 0 \<longleftrightarrow> set s \<inter> set ''DFRWE'' = {}"
proof -
  have "foldl encode_symbol 0 s = 0 \<longleftrightarrow> (\<forall>k. \<not> bit (foldl encode_symbol 0 s) k)"
    by (rule word_eq_0_bits)
  also have "\<dots> \<longleftrightarrow> (\<forall>c\<in>set s. \<not> (\<exists>k. symbol_of_bit k = Some c))"
    by (auto simp: bit_encode_fold)
  also have "\<dots> \<longleftrightarrow> set s \<inter> set ''DFRWE'' = {}"
    unfolding known_symbol by blast
  finally show ?thesis .
qed

lemma encodeRights_cases:
  "SecureAcl_encodeRights (Some s) =
     (if CHR ''D'' \<in> set s \<or> set s \<inter> set ''DFRWE'' = {} then SECURE_ACL_DENY
      else if CHR ''F'' \<in> set s then SECURE_ACL_FULL
      else foldl encode_symbol 0 s)"
  by (simp add: SecureAcl_encodeRights_def acl_bit_tests bit_encode_fold encode_fold_zero del: set_simps)

lemma decode_bits:
  assumes "\<not> bit r 0" "\<not> bit r 1" "r \<noteq> 0"
  shows "bit (foldl encode_symbol 0 (SecureAcl_decodeRights r)) k \<longleftrightarrow> bit r k \<and> k \<in> {2, 3, 4}"
  using assms symbol_of_bit_Some [of k]
  by (auto simp: SecureAcl_decodeRights_def bit_encode_fold acl_bit_tests acl_symbols
      symbol_of_bit_def split: if_splits)

lemma acl_norm_normal:
  assumes "acl_normal r"
  shows "acl_norm r = r"
proof -
  consider "r = SECURE_ACL_DENY" | "r = SECURE_ACL_FULL"
    | "r \<noteq> 0" "\<forall>k. bit r k \<longrightarrow> k \<in> {2, 3, 4}"
    using assms unfolding acl_normal_def by blast
  then show ?thesis
  proof cases
    case 3
    then have nb: "\<not> bit r 0" "\<not> bit r 1" by fastforce+
    have "foldl encode_symbol 0 (SecureAcl_decodeRights r) = r"
      using decode_bits [OF nb 3(1)] 3(2) by (intro bit_word_eqI) auto
    then show ?thesis
      using nb 3(1) by (simp add: acl_norm_def SecureAcl_encodeRights_def acl_bit_tests)
  qed (simp_all add: acl_norm_def SecureAcl_decodeRights_def acl_bits
      SecureAcl_encodeRights_def encode_symbol_def acl_symbols)
qed

lemma acl_normal_encode: "acl_normal (SecureAcl_encodeRights s)"
proof -
  have bits: "k \<in> {2, 3, 4}"
    if "bit (foldl encode_symbol 0 t) k" "\<not> bit (foldl encode_symbol 0 t) 0"
      "\<not> bit (foldl encode_symbol 0 t) 1" for t k
    using that symbol_of_bit_Some [of k] by (fastforce simp: bit_encode_fold)
  show ?thesis
    using bits by (auto simp: acl_normal_def SecureAcl_encodeRights_def acl_bit_tests Let_def
        split: option.split)
qed

section \<open>Texts of access lists\<close>

definition acl_entry :: "string \<times> string \<Rightarrow> string" where
  "acl_entry e = fst e @ '':'' @ snd e"

definition acl_text :: "(string \<times> string) list \<Rightarrow> string" where
  "acl_text es = concat (map (\<lambda>e. acl_entry e @ '';'') es)"

definition entry_ok :: "string \<times> string \<Rightarrow> bool" where
  "entry_ok e \<longleftrightarrow> CHR '':'' \<notin> set (fst e) \<and> CHR '';'' \<notin> set (fst e) \<and> CHR '';'' \<notin> set (snd e)"

definition entry_rights :: "string \<times> string \<Rightarrow> string \<times> u32" where
  "entry_rights e = (fst e, SecureAcl_encodeRights (Some (snd e)))"

lemma acl_tokens_Nil: "acl_tokens [] m = Some m"
  by (subst acl_tokens.simps) (simp add: cstr_simps)

lemma acl_tokens_entry:
  assumes "entry_ok e"
  shows "acl_tokens (acl_entry e @ '';'' @ rest) m =
     acl_tokens rest (smap_set (fst (entry_rights e)) (snd (entry_rights e)) m)"
proof -
  have "strtok_next (\<lambda>c. c = CHR '';'') (acl_entry e @ CHR '';'' # rest) = Some (acl_entry e, rest)"
    using assms by (intro strtok_next_token) (auto simp: acl_entry_def entry_ok_def)
  moreover have "strchr (acl_entry e) (CHR '':'') = Some (length (fst e))"
    using assms strchr_append [of "CHR '':''" "fst e" "snd e"] by (simp add: acl_entry_def entry_ok_def)
  ultimately show ?thesis
    by (subst acl_tokens.simps) (simp add: acl_entry_def entry_rights_def)
qed

lemma acl_tokens_text:
  assumes "list_all entry_ok es"
  shows "acl_tokens (acl_text es) m = Some (smap.put_all (map entry_rights es) m)"
  using assms
proof (induction es arbitrary: m)
  case (Cons e es)
  then show ?case
    using acl_tokens_entry [of e "acl_text es" m]
    by (simp add: acl_text_def smap.put_all_def entry_rights_def)
qed (simp add: acl_text_def acl_tokens_Nil smap.put_all_def)

text \<open>The loop fails exactly if some token has no colon.\<close>

lemma acl_tokens_fails:
  "acl_tokens s m = None \<longleftrightarrow> (\<exists>t\<in>set (strtok_list (\<lambda>c. c = CHR '';'') s). CHR '':'' \<notin> set t)"
proof (induction s m rule: acl_tokens.induct)
  case (1 s m)
  show ?case
  proof (cases "strtok_next (\<lambda>c. c = CHR '';'') s")
    case None
    then show ?thesis by (subst acl_tokens.simps) (simp add: cstr_simps)
  next
    case (Some a)
    obtain tok rest where a: "a = (tok, rest)" by fastforce
    show ?thesis
      using 1 [OF Some a [symmetric]] Some a
      by (subst acl_tokens.simps) (auto simp: cstr_simps strchr_def)
  qed
qed

section \<open>Printing\<close>

abbreviation decoded :: "string \<times> u32 \<Rightarrow> string \<times> string" where
  "decoded e \<equiv> (fst e, SecureAcl_decodeRights (snd e))"

abbreviation not_others :: "string \<times> u32 \<Rightarrow> bool" where
  "not_others e \<equiv> fst e \<noteq> ''*''"

lemma acl_print_text:
  "distinct (map fst m) \<Longrightarrow>
   acl_print m ret oth =
     (ret @ acl_text (map decoded (filter not_others m)),
      (case map_of m ''*'' of Some r \<Rightarrow> Some r | None \<Rightarrow> oth))"
proof (induction m arbitrary: ret oth)
  case (Cons e m)
  obtain u r where e: "e = (u, r)" by fastforce
  have "u = ''*'' \<Longrightarrow> map_of m ''*'' = None"
    using Cons.prems e by (auto simp: map_of_eq_None_iff)
  then show ?case
    using Cons e by (auto simp: acl_text_def acl_entry_def)
qed (simp add: acl_text_def)

lemma toString_text:
  assumes "smap_ok (rights self)" "smap_find (rights self) ''*'' = Some r"
  shows "SecureAcl_toString self =
     Some (acl_text (map decoded (filter not_others (rights self) @ [(''*'', r)])))"
  using assms acl_print_text [OF smap_ok_distinct [OF assms(1)], of "[]" None]
  by (simp add: SecureAcl_toString_def smap_find_def acl_text_def acl_entry_def)

definition acl_ok :: "SecureAcl \<Rightarrow> bool" where
  "acl_ok self \<longleftrightarrow> smap_ok (rights self) \<and> smap_find (rights self) ''*'' \<noteq> None"

definition names_ok :: "SecureAcl \<Rightarrow> bool" where
  "names_ok self \<longleftrightarrow>
     list_all (\<lambda>u. CHR '':'' \<notin> set u \<and> CHR '';'' \<notin> set u \<and> is_c_str u) (map fst (rights self))"

lemma decode_chars: "set (SecureAcl_decodeRights r) \<subseteq> set ''DFRWE''"
  by (auto simp: SecureAcl_decodeRights_def acl_symbols)

lemma decoded_entry_ok:
  assumes "CHR '':'' \<notin> set u" "CHR '';'' \<notin> set u" "is_c_str u"
  shows "entry_ok (u, SecureAcl_decodeRights r)" "is_c_str (acl_entry (u, SecureAcl_decodeRights r))"
  using assms decode_chars [of r] by (auto simp: entry_ok_def acl_entry_def is_c_str_def)

lemma is_c_str_acl_text: "(\<forall>e\<in>set es. is_c_str (acl_entry e)) \<Longrightarrow> is_c_str (acl_text es)"
  by (induction es) (auto simp: acl_text_def cstr_simps)

lemma acl_tokens_none: "strtok_list (\<lambda>c. c = CHR '';'') s = [] \<Longrightarrow> acl_tokens s m = Some m"
  by (subst acl_tokens.simps) (auto simp: cstr_simps split: option.splits)

lemma init_text:
  assumes "list_all entry_ok es"
  shows "SecureAcl_initFromString (Some (acl_text es)) self =
     Some (0, self\<lparr>rights := smap.put_all (map entry_rights es) [(''*'', SECURE_ACL_DENY)]\<rparr>)"
  using acl_tokens_text [OF assms]
  by (simp add: SecureAcl_initFromString_def SecureAcl_clear_def)

lemma smap_ok_map_snd: "smap_ok (map (\<lambda>(k, v). (k, f v)) m) \<longleftrightarrow> smap_ok m"
  by (simp add: smap_ok_def comp_def case_prod_beta)

lemma map_of_map_snd: "map_of (map (\<lambda>(k, v). (k, f v)) m) k = map_option f (map_of m k)"
  by (induction m) auto

lemma others_last:
  assumes ok: "smap_ok m" and r: "smap_find m ''*'' = Some r"
  shows "set (filter not_others m @ [(''*'', r)]) = set m"
    and "distinct (map fst (filter not_others m @ [(''*'', r)]))"
proof -
  have mem: "(''*'', r) \<in> set m" using r by (simp add: smap_find_def map_of_SomeD)
  have star: "snd e = r" if "e \<in> set m" "fst e = ''*''" for e
    using map_of_is_SomeI [OF smap_ok_distinct [OF ok], of "fst e" "snd e"] that r
    by (cases e) (simp add: smap_find_def)
  show "set (filter not_others m @ [(''*'', r)]) = set m"
  proof (rule set_eqI)
    fix e
    show "e \<in> set (filter not_others m @ [(''*'', r)]) \<longleftrightarrow> e \<in> set m"
      using mem star [of e] by (cases e) auto
  qed
  show "distinct (map fst (filter not_others m @ [(''*'', r)]))"
    using smap_ok_distinct [OF ok] by (auto simp: distinct_map_filter)
qed

lemma getRights_value:
  "fst (SecureAcl_getRights (Some u) self) =
     (case smap_find (rights self) u of Some r \<Rightarrow> r
      | None \<Rightarrow> (case smap_find (rights self) ''*'' of Some r \<Rightarrow> r | None \<Rightarrow> 0))"
  by (simp add: SecureAcl_getRights_def split: option.split)

lemma getRights_clear: "fst (SecureAcl_getRights u (SecureAcl_clear self)) = SECURE_ACL_DENY"
  by (cases u) (auto simp: SecureAcl_getRights_def SecureAcl_clear_def smap_find_def)

section \<open>Properties\<close>

text \<open>
  Property C4. An access list survives its text form: if the list has its \<^verbatim>\<open>*\<close> entry and user names
  without colon, semicolon and zero, then \<open>toString\<close> is defined and \<open>initFromString\<close> reads its
  result back, into any object, as the same users with the rights reduced to what the symbols can
  express; rights that \<open>encodeRights\<close> can produce come back unchanged, so a list that holds only
  such rights is restored exactly.
\<close>

theorem acl_string_roundtrip:
  assumes "acl_ok self" "names_ok self"
  shows "\<exists>s. SecureAcl_toString self = Some s \<and>
     SecureAcl_initFromString (Some (c_str s)) other =
       Some (0, other\<lparr>rights := map (\<lambda>(u, r). (u, acl_norm r)) (rights self)\<rparr>) \<and>
     (list_all (\<lambda>(u, r). \<exists>t. r = SecureAcl_encodeRights t) (rights self) \<longrightarrow>
       SecureAcl_initFromString (Some (c_str s)) other = Some (0, other\<lparr>rights := rights self\<rparr>))"
proof -
  let ?m = "rights self"
  let ?n = "map (\<lambda>(u, r). (u, acl_norm r)) ?m"
  obtain r where ok: "smap_ok ?m" and r: "smap_find ?m ''*'' = Some r"
    using assms(1) by (auto simp: acl_ok_def)
  define es where "es = map decoded (filter not_others ?m @ [(''*'', r)])"
  note last = others_last [OF ok r]
  have es_set: "set es = decoded ` set ?m" unfolding es_def using last(1) by (simp only: set_map)
  have good: "entry_ok e \<and> is_c_str (acl_entry e)" if "e \<in> set es" for e
    using that assms(2) decoded_entry_ok
    by (fastforce simp: es_set names_ok_def list_all_iff)
  have str: "SecureAcl_toString self = Some (acl_text es)"
    unfolding es_def by (rule toString_text [OF ok r])
  have cs: "c_str (acl_text es) = acl_text es"
    using good by (intro c_str_id is_c_str_acl_text) auto
  have "smap.put_all (map entry_rights es) [(''*'', SECURE_ACL_DENY)] = ?n"
  proof (rule smap.put_all_rebuild)
    show "smap_ok ?n" by (simp add: smap_ok_map_snd ok)
    show "set (map entry_rights es) = set ?n"
      by (simp add: es_set image_image entry_rights_def acl_norm_def case_prod_beta)
    show "distinct (map fst (map entry_rights es))"
      using last(2) by (simp add: es_def entry_rights_def comp_def)
    show "smap_find [(''*'', SECURE_ACL_DENY)] k \<noteq> None \<Longrightarrow> smap_find ?n k \<noteq> None" for k
      using r by (auto simp: smap_find_def map_of_map_snd split: if_splits)
    show "smap_ok [(''*'', SECURE_ACL_DENY)]" by (simp add: smap_ok_def)
  qed
  then have 1: "SecureAcl_initFromString (Some (acl_text es)) other = Some (0, other\<lparr>rights := ?n\<rparr>)"
    using init_text [of es other] good by (simp add: list_all_iff)
  moreover have "?n = ?m" if "list_all (\<lambda>(u, r). \<exists>t. r = SecureAcl_encodeRights t) ?m"
    using that acl_norm_normal [OF acl_normal_encode] by (intro map_idI) (auto simp: list_all_iff)
  ultimately show ?thesis using str cs by auto
qed

theorem acl_string_roundtrip_witness:
  "\<exists>s. SecureAcl_toString \<lparr>rights = [(''*'', 1), (''jan'', 12)]\<rparr> = Some s \<and>
     SecureAcl_initFromString (Some (c_str s)) SecureAcl_new =
       Some (0, \<lparr>rights = [(''*'', 1), (''jan'', 12)]\<rparr>)"
proof -
  have "acl_ok \<lparr>rights = [(''*'', 1), (''jan'', 12)]\<rparr>" "names_ok \<lparr>rights = [(''*'', 1), (''jan'', 12)]\<rparr>"
    by (simp_all add: acl_ok_def names_ok_def smap_ok_def smap_find_def is_c_str_def)
  moreover have "acl_norm 1 = 1" "acl_norm 12 = 12"
    by (simp_all add: acl_norm_def SecureAcl_decodeRights_def acl_bits SecureAcl_encodeRights_def
        encode_symbol_def acl_symbols)
  ultimately show ?thesis
    using acl_string_roundtrip [of "\<lparr>rights = [(''*'', 1), (''jan'', 12)]\<rparr>" SecureAcl_new]
    by (auto simp: SecureAcl_new_def SecureAcl_clear_def)
qed

text \<open>
  What a text grants: reading \<^verbatim>\<open>user:rights;...\<close> succeeds for any entries whose names
  have no colon or semicolon, also for an empty text, and then a user has the rights of the last
  entry with this name; a user without an entry has those of the last \<^verbatim>\<open>*\<close> entry, and without
  such an entry access is denied. Asking for rights does not change the list.
\<close>

theorem acl_init_grants:
  assumes "list_all entry_ok es"
  shows "\<exists>acl. SecureAcl_initFromString (Some (acl_text es)) self = Some (0, acl) \<and> acl_ok acl \<and>
     SecureAcl_getRights (Some u) acl =
       (case map_of (rev es) u of
          Some t \<Rightarrow> SecureAcl_encodeRights (Some t)
        | None \<Rightarrow> (case map_of (rev es) ''*'' of
             Some t \<Rightarrow> SecureAcl_encodeRights (Some t) | None \<Rightarrow> SECURE_ACL_DENY), acl)"
proof -
  let ?acl = "self\<lparr>rights := smap.put_all (map entry_rights es) [(''*'', SECURE_ACL_DENY)]\<rparr>"
  have rd: "map_of (rev (map entry_rights es)) v =
      map_option (\<lambda>t. SecureAcl_encodeRights (Some t)) (map_of (rev es) v)" for v
    using map_of_map_snd [of "\<lambda>t. SecureAcl_encodeRights (Some t)" "rev es" v]
    by (simp add: rev_map entry_rights_def [abs_def] case_prod_unfold)
  have find: "smap_find (rights ?acl) v =
      (case map_of (rev es) v of Some t \<Rightarrow> Some (SecureAcl_encodeRights (Some t))
       | None \<Rightarrow> if v = ''*'' then Some SECURE_ACL_DENY else None)" for v
    using smap.find_put_all [of "map entry_rights es" "[(''*'', SECURE_ACL_DENY)]" v]
    by (simp add: rd smap_find_def split: option.split)
  have "acl_ok ?acl"
    using smap.ok_put_all [of "[(''*'', SECURE_ACL_DENY)]" "map entry_rights es"] find [of "''*''"]
    by (auto simp: acl_ok_def smap_ok_def split: option.splits)
  moreover have "SecureAcl_getRights (Some u) ?acl =
      (case map_of (rev es) u of
          Some t \<Rightarrow> SecureAcl_encodeRights (Some t)
        | None \<Rightarrow> (case map_of (rev es) ''*'' of
             Some t \<Rightarrow> SecureAcl_encodeRights (Some t) | None \<Rightarrow> SECURE_ACL_DENY), ?acl)"
    unfolding SecureAcl_getRights_def option.case find by (auto split: option.split)
  ultimately show ?thesis using init_text [OF assms, of self] by blast
qed

theorem acl_init_grants_witness:
  "\<exists>acl. SecureAcl_initFromString (Some ''jan:R;*:F;jan:D;'') SecureAcl_new = Some (0, acl) \<and>
     SecureAcl_getRights (Some ''jan'') acl = (SecureAcl_encodeRights (Some ''D''), acl)"
  using acl_init_grants [of "[(''jan'', ''R''), (''*'', ''F''), (''jan'', ''D'')]" SecureAcl_new "''jan''"]
  by (auto simp: entry_ok_def acl_text_def acl_entry_def)

text \<open>
  Property C17. A text without a valid list locks everybody out: \<open>initFromString\<close> of a text fails
  exactly if one of its entries has no colon, and after a failure every user, listed before or not,
  has exactly the rights \<^verbatim>\<open>SECURE_ACL_DENY\<close>, even if entries before the broken one granted more. A
  text without any entry, such as the empty one that the comment calls invalid data, is not reported as
  a failure but denies access to everybody as well. A null pointer is no text: for it the call has no
  defined result.
\<close>

theorem acl_bad_string_denies_all:
  "SecureAcl_initFromString None self = None \<and>
   (\<exists>rc acl. SecureAcl_initFromString (Some s) self = Some (rc, acl) \<and>
     (let entries = strtok_list (\<lambda>c. c = CHR '';'') s in
      rc = (if \<exists>t\<in>set entries. CHR '':'' \<notin> set t then -1 else 0) \<and>
      (rc = -1 \<or> entries = [] \<longrightarrow> fst (SecureAcl_getRights user acl) = SECURE_ACL_DENY)))"
  using acl_tokens_fails [of s "rights (SecureAcl_clear self)"] acl_tokens_none [of s "rights (SecureAcl_clear self)"]
  by (auto simp: SecureAcl_initFromString_def getRights_clear Let_def split: option.splits)

theorem acl_bad_string_denies_all_witness:
  "\<exists>rc acl. SecureAcl_initFromString (Some ''jan:F;jozek'') SecureAcl_new = Some (rc, acl) \<and> rc = -1 \<and>
     fst (SecureAcl_getRights (Some ''jan'') acl) = SECURE_ACL_DENY"
proof -
  have "strtok_list (\<lambda>c. c = CHR '';'') ''jan:F;jozek'' = [''jan:F'', ''jozek'']" by code_simp
  then show ?thesis
    using acl_bad_string_denies_all [of SecureAcl_new "''jan:F;jozek''" "Some ''jan''"] by (auto simp: Let_def)
qed

text \<open>
  Deny wins over full, full over the single rights: \<open>encodeRights\<close> gives exactly
  \<^verbatim>\<open>SECURE_ACL_DENY\<close> for a null pointer, a text with \<^verbatim>\<open>D\<close> or one without any known symbol, else
  exactly \<^verbatim>\<open>SECURE_ACL_FULL\<close> for a text with \<^verbatim>\<open>F\<close>, and else the bits of the symbols that occur;
  printing the encoded rights and encoding the result again changes nothing.
\<close>

theorem acl_encode_rights:
  "SecureAcl_encodeRights None = SECURE_ACL_DENY \<and>
   (if CHR ''D'' \<in> set s \<or> set s \<inter> set ''DFRWE'' = {}
    then SecureAcl_encodeRights (Some s) = SECURE_ACL_DENY
    else if CHR ''F'' \<in> set s then SecureAcl_encodeRights (Some s) = SECURE_ACL_FULL
    else \<forall>k. bit (SecureAcl_encodeRights (Some s)) k \<longleftrightarrow>
           k = 2 \<and> CHR ''R'' \<in> set s \<or> k = 3 \<and> CHR ''W'' \<in> set s \<or> k = 4 \<and> CHR ''E'' \<in> set s) \<and>
   SecureAcl_encodeRights (Some (SecureAcl_decodeRights (SecureAcl_encodeRights t))) =
     SecureAcl_encodeRights t"
proof -
  have "SecureAcl_encodeRights None = SECURE_ACL_DENY" by (simp add: SecureAcl_encodeRights_def)
  moreover have "bit (foldl encode_symbol 0 s) k \<longleftrightarrow>
      k = 2 \<and> CHR ''R'' \<in> set s \<or> k = 3 \<and> CHR ''W'' \<in> set s \<or> k = 4 \<and> CHR ''E'' \<in> set s"
    if "CHR ''D'' \<notin> set s" "CHR ''F'' \<notin> set s" for k
    using that symbol_of_bit_Some [of k] by (auto simp: bit_encode_fold)
  ultimately show ?thesis
    using acl_norm_normal [OF acl_normal_encode, of t]
    by (simp add: encodeRights_cases acl_norm_def del: set_simps)
qed

text \<open>
  Single grants: \<open>setRights\<close> gives a user exactly the rights passed and leaves every
  other listed user alone; \<open>revokeAll\<close> removes the entry, which is documented to leave the user
  without any rights, but the user then has the rights of \<^verbatim>\<open>*\<close>. Directly after
  \<open>revokeAll\<close> of \<^verbatim>\<open>*\<close> itself \<open>toString\<close> has no defined result.
\<close>

theorem acl_set_and_revoke:
  assumes "smap_ok (rights acl)" "u \<noteq> ''*''"
  shows "fst (SecureAcl_getRights (Some u) (snd (SecureAcl_setRights (Some u) r acl))) = r \<and>
     (v \<noteq> u \<and> smap_find (rights acl) v \<noteq> None \<longrightarrow>
       fst (SecureAcl_getRights (Some v) (snd (SecureAcl_setRights (Some u) r acl))) =
       fst (SecureAcl_getRights (Some v) acl)) \<and>
     fst (SecureAcl_getRights (Some u) (snd (SecureAcl_revokeAll (Some u) acl))) =
       fst (SecureAcl_getRights (Some ''*'') acl) \<and>
     SecureAcl_toString (snd (SecureAcl_revokeAll (Some ''*'') acl)) = None"
proof -
  have "smap_ok (smap_erase ''*'' (rights acl))" "map_of (smap_erase ''*'' (rights acl)) ''*'' = None"
    using smap.ok_erase [OF assms(1)] smap.find_erase [of "''*''" "rights acl" "''*''"]
    by (simp_all add: smap_find_def)
  then have "SecureAcl_toString (snd (SecureAcl_revokeAll (Some ''*'') acl)) = None"
    using acl_print_text [OF smap_ok_distinct, of "smap_erase ''*'' (rights acl)" "[]" None]
    by (simp add: SecureAcl_toString_def SecureAcl_revokeAll_def)
  then show ?thesis
    using assms(2)
    by (auto simp: SecureAcl_setRights_def SecureAcl_revokeAll_def getRights_value smap.find_set
        smap.find_erase split: option.splits)
qed

theorem acl_set_and_revoke_witness:
  "fst (SecureAcl_getRights (Some ''jan'')
     (snd (SecureAcl_revokeAll (Some ''jan'') \<lparr>rights = [(''*'', 2), (''jan'', 4)]\<rparr>))) = 2"
  using acl_set_and_revoke [of "\<lparr>rights = [(''*'', 2), (''jan'', 4)]\<rparr>" "''jan''" 1 "''x''"]
  by (simp add: smap_ok_def getRights_value smap_find_def)

end
