(* ===== verification/Teg_Error.thy ===== *)
theory Teg_Error
  imports Teg_Prelude
begin

text \<open>The error codes of LibError (\<^verbatim>\<open>Error.h\<close>) that the modelled components return.\<close>

definition ERR_OK :: int where "ERR_OK = 0"
definition ERR_GENERIC :: int where "ERR_GENERIC = 999"
definition ERR_NOT_FOUND :: int where "ERR_NOT_FOUND = 2"
definition ERR_ALREADY_EXISTS :: int where "ERR_ALREADY_EXISTS = 3"
definition ERR_WRONG_PARAMETER :: int where "ERR_WRONG_PARAMETER = 4"
definition ERR_TIMEOUT :: int where "ERR_TIMEOUT = 6"
definition ERR_VERIFY_TOO_LONG :: int where "ERR_VERIFY_TOO_LONG = 250"
definition ERR_VERIFY_TOO_SHORT :: int where "ERR_VERIFY_TOO_SHORT = 251"
definition ERR_VERIFY_WRONG_CHAR :: int where "ERR_VERIFY_WRONG_CHAR = 252"
definition ERR_VERIFY_WRONG_FORMAT :: int where "ERR_VERIFY_WRONG_FORMAT = 253"
definition ERR_VERIFY_ALIAS_FORBIDDEN :: int where "ERR_VERIFY_ALIAS_FORBIDDEN = 254"
definition ERR_VERIFY_COMMENT_FORBIDDEN :: int where "ERR_VERIFY_COMMENT_FORBIDDEN = 255"

lemmas err_defs = ERR_OK_def ERR_GENERIC_def ERR_NOT_FOUND_def ERR_ALREADY_EXISTS_def
  ERR_WRONG_PARAMETER_def ERR_TIMEOUT_def ERR_VERIFY_TOO_LONG_def ERR_VERIFY_TOO_SHORT_def
  ERR_VERIFY_WRONG_CHAR_def ERR_VERIFY_WRONG_FORMAT_def ERR_VERIFY_ALIAS_FORBIDDEN_def
  ERR_VERIFY_COMMENT_FORBIDDEN_def

end
