(* ===== verification/Str_List.thy ===== *)
theory Str_List
  imports C_String Teg_Error
begin

text \<open>
  The string lists of LibStr (\<^verbatim>\<open>StringList.cpp\<close>): a list \<^verbatim>\<open>elem1;elem2;...\<close> in one string, used as
  a set of names that are compared without regard to case. The locale \<open>name_set\<close> is the contract
  of such a set; it is interpreted on the functions of the source.
\<close>

abbreviation semicolon :: "char \<Rightarrow> bool" where
  "semicolon \<equiv> (\<lambda>c. c = CHR '';'')"

function split_loop :: "string \<Rightarrow> string list \<Rightarrow> string list" where
  "split_loop tmp vec =
     (case strtok_next semicolon tmp of
        None \<Rightarrow> vec
      | Some (token, rest) \<Rightarrow> split_loop rest (vec @ [token]))"
  by pat_completeness auto
termination
  by (relation "measure (\<lambda>(tmp, vec). length tmp)") (auto dest: strtok_next_shrinks)

declare split_loop.simps [simp del]

definition StrListSplit :: "string option \<Rightarrow> string list" where
  "StrListSplit str = (case str of None \<Rightarrow> [] | Some s \<Rightarrow> split_loop s [])"

definition StrListInit :: "string list \<Rightarrow> string" where
  "StrListInit vec = foldl (\<lambda>str e. str @ e @ '';'') [] vec"

text \<open>The loop of \<open>StrListExists\<close> stops at the first match.\<close>

function exists_loop :: "string \<Rightarrow> string \<Rightarrow> bool" where
  "exists_loop tmp elem =
     (case strtok_next semicolon tmp of
        None \<Rightarrow> False
      | Some (token, rest) \<Rightarrow> if stricmp_eq token elem then True else exists_loop rest elem)"
  by pat_completeness auto
termination
  by (relation "measure (\<lambda>(tmp, elem). length tmp)") (auto dest: strtok_next_shrinks)

declare exists_loop.simps [simp del]

definition StrListExists :: "string \<Rightarrow> string option \<Rightarrow> int" where
  "StrListExists str elem =
     (case elem of None \<Rightarrow> 0 | Some e \<Rightarrow> if exists_loop (c_str str) e then 1 else 0)"

definition StrListAdd :: "string \<Rightarrow> string option \<Rightarrow> int \<times> string" where
  "StrListAdd str elem =
     (case elem of
        None \<Rightarrow> (ERR_WRONG_PARAMETER, str)
      | Some e \<Rightarrow>
          if StrListExists str elem = 0 then (0, str @ e @ '';'')
          else (ERR_ALREADY_EXISTS, str))"

function remove_loop :: "string \<Rightarrow> string \<Rightarrow> string \<Rightarrow> bool \<Rightarrow> string \<times> bool" where
  "remove_loop tmp elem newList found =
     (case strtok_next semicolon tmp of
        None \<Rightarrow> (newList, found)
      | Some (token, rest) \<Rightarrow>
          if \<not> stricmp_eq token elem then remove_loop rest elem (newList @ token @ '';'') found
          else remove_loop rest elem newList True)"
  by pat_completeness auto
termination
  by (relation "measure (\<lambda>(tmp, elem, newList, found). length tmp)") (auto dest: strtok_next_shrinks)

declare remove_loop.simps [simp del]

definition StrListRemove :: "string \<Rightarrow> string option \<Rightarrow> int \<times> string" where
  "StrListRemove str elem =
     (case elem of
        None \<Rightarrow> (ERR_WRONG_PARAMETER, str)
      | Some e \<Rightarrow>
          (case remove_loop (c_str str) e [] False of
             (newList, found) \<Rightarrow> (if found then ERR_OK else ERR_NOT_FOUND, newList)))"

section \<open>The loops and the list of tokens\<close>

lemma split_loop_tokens: "split_loop s vec = vec @ strtok_list semicolon s"
proof (induction s vec rule: split_loop.induct)
  case (1 s vec)
  then show ?case
    by (subst split_loop.simps, subst strtok_list.simps) (auto split: option.split)
qed

lemma exists_loop_tokens:
  "exists_loop s e \<longleftrightarrow> (\<exists>t\<in>set (strtok_list semicolon s). stricmp_eq t e)"
proof (induction s e rule: exists_loop.induct)
  case (1 s e)
  then show ?case
    by (subst exists_loop.simps, subst strtok_list.simps) (auto split: option.split)
qed

definition join :: "string list \<Rightarrow> string" where
  "join ts = concat (map (\<lambda>t. t @ '';'') ts)"

lemma join_simps [simp]: "join [] = []" "join (t # ts) = t @ '';'' @ join ts"
  "join (ts @ us) = join ts @ join us"
  by (simp_all add: join_def)

lemma remove_loop_tokens:
  "remove_loop s e new found =
     (new @ join (filter (\<lambda>t. \<not> stricmp_eq t e) (strtok_list semicolon s)),
      found \<or> (\<exists>t\<in>set (strtok_list semicolon s). stricmp_eq t e))"
proof (induction s e new found rule: remove_loop.induct)
  case (1 s e new found)
  then show ?case
    by (subst remove_loop.simps, subst (1 2) strtok_list.simps) (auto split: option.split)
qed

lemma StrListInit_join: "StrListInit vec = join vec"
proof -
  have "foldl (\<lambda>str e. str @ e @ '';'') acc vec = acc @ join vec" for acc
    by (induction vec arbitrary: acc) auto
  then show ?thesis by (simp add: StrListInit_def)
qed

definition elem_ok :: "string \<Rightarrow> bool" where
  "elem_ok e \<longleftrightarrow> e \<noteq> [] \<and> CHR '';'' \<notin> set e \<and> is_c_str e"

lemma tokens_join: "list_all elem_ok ts \<Longrightarrow> strtok_list semicolon (join ts) = ts"
proof (induction ts)
  case (Cons t ts)
  then have "strtok_next semicolon (t @ CHR '';'' # join ts) = Some (t, join ts)"
    by (intro strtok_next_token) (auto simp: elem_ok_def)
  then show ?case using Cons by (simp add: cstr_simps)
qed (simp add: cstr_simps)

lemma is_c_str_join: "list_all elem_ok ts \<Longrightarrow> is_c_str (join ts)"
  by (induction ts) (auto simp: elem_ok_def cstr_simps)

text \<open>
  A string in list format: nothing, or a C string that ends with a semicolon. Appending to such a
  string adds tokens at the end; without the final semicolon the last token would grow.
\<close>

definition list_fmt :: "string \<Rightarrow> bool" where
  "list_fmt s \<longleftrightarrow> is_c_str s \<and> (s = [] \<or> last s = CHR '';'')"

lemma strtok_next_append:
  assumes "s = [] \<or> d (last s)"
  shows "strtok_next d (s @ t) =
     (case strtok_next d s of None \<Rightarrow> strtok_next d t | Some (tok, rest) \<Rightarrow> Some (tok, rest @ t))"
    and "strtok_next d s = Some (tok, rest) \<Longrightarrow> rest = [] \<or> d (last rest)"
proof -
  define s' where "s' = dropWhile d s"
  define q where "q = dropWhile (\<lambda>c. \<not> d c) s'"
  have last: "s' \<noteq> [] \<Longrightarrow> d (last s')"
    using assms last_appendR [of s' "takeWhile d s"] by (auto simp: s'_def)
  have q: "s' \<noteq> [] \<Longrightarrow> q \<noteq> [] \<and> last q = last s'"
  proof
    assume "s' \<noteq> []"
    then show "q \<noteq> []" using last last_in_set [of s'] by (auto simp: q_def)
    then show "last q = last s'"
      using last_appendR [of q "takeWhile (\<lambda>c. \<not> d c) s'"] by (simp add: q_def)
  qed
  have ap: "s' \<noteq> [] \<Longrightarrow> dropWhile d (s @ t) = s' @ t"
    by (auto simp: s'_def dropWhile_append)
  have q2: "s' \<noteq> [] \<Longrightarrow> takeWhile (\<lambda>c. \<not> d c) (s' @ t) = takeWhile (\<lambda>c. \<not> d c) s' \<and>
      dropWhile (\<lambda>c. \<not> d c) (s' @ t) = q @ t"
    using last last_in_set [of s'] by (auto simp: q_def dropWhile_append takeWhile_append1)
  show "strtok_next d (s @ t) =
     (case strtok_next d s of None \<Rightarrow> strtok_next d t | Some (tok, rest) \<Rightarrow> Some (tok, rest @ t))"
  proof (cases "s' = []")
    case True
    then have "dropWhile d (s @ t) = dropWhile d t" by (simp add: s'_def dropWhile_append)
    then show ?thesis using True by (simp add: strtok_next_def s'_def)
  next
    case False
    then show ?thesis
      using ap q q2 by (cases q) (simp_all add: strtok_next_def s'_def [symmetric] q_def [symmetric])
  qed
  show "strtok_next d s = Some (tok, rest) \<Longrightarrow> rest = [] \<or> d (last rest)"
    using q last
    by (cases q) (auto simp: strtok_next_def s'_def [symmetric] q_def [symmetric] split: if_splits)
qed

lemma strtok_list_append:
  "s = [] \<or> d (last s) \<Longrightarrow> strtok_list d (s @ t) = strtok_list d s @ strtok_list d t"
proof (induction d s rule: strtok_list.induct)
  case (1 d s)
  note n = strtok_next_append [where d = d and s = s, OF 1(2)]
  show ?case
  proof (cases "strtok_next d s")
    case None
    then show ?thesis
      using n(1) [of t] by (subst (1 2 3) strtok_list.simps) simp
  next
    case (Some a)
    obtain tok rest where a: "a = (tok, rest)" by fastforce
    then show ?thesis
      using 1(1) [OF Some a [symmetric] n(2)] Some n(1) [of t] by (simp add: cstr_simps)
  qed
qed

section \<open>The contract of a set of names\<close>

datatype 'e set_op = Add_op 'e | Remove_op 'e

fun set_op_elem :: "'e set_op \<Rightarrow> 'e" where
  "set_op_elem (Add_op e) = e"
| "set_op_elem (Remove_op e) = e"

text \<open>A sequence of calls: the exit codes and the final state.\<close>

fun set_run :: "('s \<Rightarrow> 'e \<Rightarrow> int \<times> 's) \<Rightarrow> ('s \<Rightarrow> 'e \<Rightarrow> int \<times> 's) \<Rightarrow> 'e set_op list \<Rightarrow> 's \<Rightarrow> int list \<times> 's" where
  "set_run add remove [] s = ([], s)"
| "set_run add remove (p # ops) s =
     (let (rc, s') = (case p of Add_op e \<Rightarrow> add s e | Remove_op e \<Rightarrow> remove s e);
          (rcs, s'') = set_run add remove ops s'
      in (rc # rcs, s''))"

text \<open>The same sequence on a mathematical set: which calls have an effect, and the final set.\<close>

fun set_spec :: "('e \<Rightarrow> 'k) \<Rightarrow> 'e set_op list \<Rightarrow> 'k set \<Rightarrow> bool list \<times> 'k set" where
  "set_spec key [] M = ([], M)"
| "set_spec key (p # ops) M =
     (let (b, M') = (case p of Add_op e \<Rightarrow> (key e \<notin> M, insert (key e) M)
                     | Remove_op e \<Rightarrow> (key e \<in> M, M - {key e}));
          (bs, M'') = set_spec key ops M'
      in (b # bs, M''))"

locale name_set =
  fixes add :: "'s \<Rightarrow> 'e \<Rightarrow> int \<times> 's"
    and remove :: "'s \<Rightarrow> 'e \<Rightarrow> int \<times> 's"
    and exists :: "'s \<Rightarrow> 'e \<Rightarrow> int"
    and members :: "'s \<Rightarrow> 'k set"
    and key :: "'e \<Rightarrow> 'k"
    and inv :: "'s \<Rightarrow> bool"
    and valid :: "'e \<Rightarrow> bool"
  assumes add_law: "inv s \<Longrightarrow> valid e \<Longrightarrow> add s e = (rc, s') \<Longrightarrow>
      inv s' \<and> members s' = insert (key e) (members s) \<and> (rc = 0 \<longleftrightarrow> key e \<notin> members s)"
    and remove_law: "inv s \<Longrightarrow> valid e \<Longrightarrow> remove s e = (rc, s') \<Longrightarrow>
      inv s' \<and> members s' = members s - {key e} \<and> (rc = 0 \<longleftrightarrow> key e \<in> members s)"
    and exists_law: "inv s \<Longrightarrow> valid e \<Longrightarrow> exists s e = (if key e \<in> members s then 1 else 0)"
begin

lemma run_refines:
  assumes "inv s" "list_all (\<lambda>p. valid (set_op_elem p)) ops"
  shows "inv (snd (set_run add remove ops s)) \<and>
     members (snd (set_run add remove ops s)) = snd (set_spec key ops (members s)) \<and>
     map (\<lambda>rc. rc = 0) (fst (set_run add remove ops s)) = fst (set_spec key ops (members s))"
  using assms
proof (induction ops arbitrary: s)
  case (Cons p ops)
  define r where "r = (case p of Add_op e \<Rightarrow> add s e | Remove_op e \<Rightarrow> remove s e)"
  obtain rc s' where r: "r = (rc, s')" by fastforce
  have step: "inv s' \<and> (case p of Add_op e \<Rightarrow> (key e \<notin> members s, insert (key e) (members s))
                     | Remove_op e \<Rightarrow> (key e \<in> members s, members s - {key e})) = (rc = 0, members s')"
    using Cons.prems r add_law [of s _ rc s'] remove_law [of s _ rc s']
    by (cases p) (auto simp: r_def)
  then show ?case
    using Cons.IH [of s'] Cons.prems(2) r
    by (auto simp: r_def [symmetric] Let_def case_prod_beta)
qed simp

lemma exists_after_run:
  assumes "inv s" "list_all (\<lambda>p. valid (set_op_elem p)) ops" "valid e"
  shows "exists (snd (set_run add remove ops s)) e =
     (if key e \<in> snd (set_spec key ops (members s)) then 1 else 0)"
  using run_refines [OF assms(1,2)] exists_law [OF _ assms(3)] by simp

end

definition list_names :: "string \<Rightarrow> string set" where
  "list_names s = map tolower ` set (strtok_list semicolon s)"

lemma in_list_names: "map tolower e \<in> list_names s \<longleftrightarrow> (\<exists>t\<in>set (strtok_list semicolon s). stricmp_eq t e)"
  by (simp add: list_names_def stricmp_eq_def image_iff eq_commute [of "map tolower e"])

lemma StrListExists_names:
  "is_c_str s \<Longrightarrow> StrListExists s (Some e) = (if map tolower e \<in> list_names s then 1 else 0)"
  by (simp add: StrListExists_def exists_loop_tokens c_str_id in_list_names)

lemma list_fmt_join: "list_all elem_ok ts \<Longrightarrow> list_fmt (join ts)"
  using is_c_str_join [of ts] by (cases ts rule: rev_cases) (auto simp: list_fmt_def)

lemma tokens_elem_ok: "is_c_str s \<Longrightarrow> list_all elem_ok (strtok_list semicolon s)"
  using strtok_list_tokens [of _ semicolon s] by (fastforce simp: list_all_iff elem_ok_def is_c_str_def)

lemma StrListRemove_tokens:
  assumes "is_c_str s"
  shows "StrListRemove s (Some e) =
     (if map tolower e \<in> list_names s then ERR_OK else ERR_NOT_FOUND,
      join (filter (\<lambda>t. \<not> stricmp_eq t e) (strtok_list semicolon s)))"
  using assms by (simp add: StrListRemove_def remove_loop_tokens c_str_id in_list_names)

interpretation strlist: name_set
  "\<lambda>s e. StrListAdd s (Some e)" "\<lambda>s e. StrListRemove s (Some e)" "\<lambda>s e. StrListExists s (Some e)"
  list_names "map tolower" list_fmt elem_ok
proof unfold_locales
  fix s e rc s'
  assume s: "list_fmt s" and e: "elem_ok e" and r: "StrListAdd s (Some e) = (rc, s')"
  have "strtok_list semicolon (s @ join [e]) = strtok_list semicolon s @ [e]"
    using strtok_list_append [where d = semicolon and s = s and t = "join [e]"] tokens_join [of "[e]"] s e
    by (simp add: list_fmt_def)
  then have "list_names (s @ e @ '';'') = insert (map tolower e) (list_names s)"
    by (simp add: list_names_def)
  moreover have "list_fmt (s @ e @ '';'')"
    using s e by (simp add: list_fmt_def elem_ok_def cstr_simps)
  moreover have "(rc, s') = (if map tolower e \<in> list_names s then (ERR_ALREADY_EXISTS, s) else (0, s @ e @ '';''))"
    using r s by (simp add: StrListAdd_def StrListExists_names list_fmt_def split: if_splits)
  ultimately show "list_fmt s' \<and> list_names s' = insert (map tolower e) (list_names s) \<and>
      (rc = 0 \<longleftrightarrow> map tolower e \<notin> list_names s)"
    using s by (cases "map tolower e \<in> list_names s") (simp_all add: err_defs insert_absorb)
next
  fix s e rc s'
  assume s: "list_fmt s" and r: "StrListRemove s (Some e) = (rc, s')"
  let ?ts = "filter (\<lambda>t. \<not> stricmp_eq t e) (strtok_list semicolon s)"
  have cs: "is_c_str s" using s by (simp add: list_fmt_def)
  then have ok: "list_all elem_ok ?ts" using tokens_elem_ok by (auto simp: list_all_iff)
  have "list_names (join ?ts) = list_names s - {map tolower e}"
    unfolding list_names_def tokens_join [OF ok] set_filter by (auto simp only: stricmp_eq_def)
  then show "list_fmt s' \<and> list_names s' = list_names s - {map tolower e} \<and>
      (rc = 0 \<longleftrightarrow> map tolower e \<in> list_names s)"
    using r list_fmt_join [OF ok] StrListRemove_tokens [OF cs, of e]
    by (simp add: err_defs split: if_splits)
next
  fix s e
  assume "list_fmt s"
  then show "StrListExists s (Some e) = (if map tolower e \<in> list_names s then 1 else 0)"
    by (simp add: list_fmt_def StrListExists_names)
qed

section \<open>Properties\<close>

text \<open>
  Property C21. A string list is a set of names that ignores case: after any sequence of
  \<open>StrListAdd\<close> and \<open>StrListRemove\<close> calls with proper elements, on any string in list format, an add
  has returned 0 exactly if the name was absent and a remove exactly if it was present, the string
  is still in list format, and \<open>StrListExists\<close> answers 1 exactly for the names that the same
  sequence leaves in a mathematical set.
\<close>

theorem strlist_refines_set:
  assumes "list_fmt s" "list_all (\<lambda>p. elem_ok (set_op_elem p)) ops" "elem_ok e"
  shows "let (rcs, s') = set_run (\<lambda>s e. StrListAdd s (Some e)) (\<lambda>s e. StrListRemove s (Some e)) ops s;
       (bs, M) = set_spec (map tolower) ops (list_names s)
     in map (\<lambda>rc. rc = 0) rcs = bs \<and> list_fmt s' \<and>
        StrListExists s' (Some e) = (if map tolower e \<in> M then 1 else 0)"
  using strlist.run_refines [OF assms(1,2)] strlist.exists_after_run [OF assms]
  by (simp add: case_prod_beta Let_def)

theorem strlist_refines_set_witness:
  "let (rcs, s') = set_run (\<lambda>s e. StrListAdd s (Some e)) (\<lambda>s e. StrListRemove s (Some e))
       [Add_op ''jan'', Remove_op ''JAN''] []
   in rcs = [0, 0] \<and> StrListExists s' (Some ''jan'') = 0"
proof -
  have "list_fmt []" "elem_ok ''jan''" "elem_ok ''JAN''"
    by (simp_all add: list_fmt_def elem_ok_def is_c_str_def)
  moreover have "map tolower ''jan'' = ''jan''" "map tolower ''JAN'' = ''jan''" by code_simp+
  moreover have "list_names [] = {}" by (simp add: list_names_def cstr_simps)
  ultimately show ?thesis
    using strlist_refines_set [of "[]" "[Add_op ''jan'', Remove_op ''JAN'']" "''jan''"]
    by (simp add: Let_def case_prod_beta)
qed

text \<open>
  Joining and splitting are inverse: \<open>StrListSplit\<close> of what \<open>StrListInit\<close> made of
  non-empty elements without semicolons returns the same elements in the same order; for every text
  \<open>StrListSplit\<close> ends and returns non-empty elements without semicolons, and joining and splitting
  these again gives them back.
\<close>

theorem strlist_split_init:
  "(list_all elem_ok vec \<longrightarrow> StrListSplit (Some (StrListInit vec)) = vec) \<and>
   (is_c_str s \<longrightarrow> list_all elem_ok (StrListSplit (Some s)) \<and>
      StrListSplit (Some (StrListInit (StrListSplit (Some s)))) = StrListSplit (Some s))"
  using tokens_join tokens_elem_ok [of s]
  by (auto simp: StrListSplit_def StrListInit_join split_loop_tokens)

theorem strlist_split_init_witness:
  "StrListSplit (Some (StrListInit [''a'', ''bc''])) = [''a'', ''bc''] \<and>
   list_all elem_ok (StrListSplit (Some '';;x''))"
  using strlist_split_init [of "[''a'', ''bc'']" "'';;x''"] by (simp add: elem_ok_def is_c_str_def)

end
