(* ===== verification/SS_Map.thy ===== *)
theory SS_Map
  imports Std_Map Str_List
begin

text \<open>
  The string to string map of LibSSMap (\<^verbatim>\<open>SSMap.cpp\<close>). The class derives from
  \<^verbatim>\<open>std::map<string, string>\<close>, so its state is a sorted list of pairs. Files are a partial map from
  names to contents; whether a name can be opened for writing is a parameter. The pointer accessors
  \<^verbatim>\<open>setPtr\<close> and \<^verbatim>\<open>getPtr\<close> depend on the platform's \<^verbatim>\<open>%p\<close> and are left out.
\<close>

type_synonym ssmap = "(string, string) smap"
type_synonym files = "string \<rightharpoonup> string"

definition SSMAP_FLAGS_WIDE :: int where
  "SSMAP_FLAGS_WIDE = 1"

abbreviation tab :: char where "tab \<equiv> CHR 0x09"
abbreviation newline :: char where "newline \<equiv> CHR 0x0A"

section \<open>Files\<close>

definition SSMap_saveToFile :: "(string \<Rightarrow> bool) \<Rightarrow> string \<Rightarrow> ssmap \<Rightarrow> files \<Rightarrow> int \<times> files" where
  "SSMap_saveToFile writable fname m fs =
     (if writable (c_str fname)
      then (0, fs(c_str fname \<mapsto>
               concat (map (\<lambda>(first, second). c_str first @ ''='' @ c_str second @ [newline]) m)))
      else (-1, fs))"

definition pad_right :: "nat \<Rightarrow> string \<Rightarrow> string" where
  "pad_right n s = s @ replicate (n - length s) (CHR '' '')"

text \<open>
  The file is opened, and thereby emptied, before the flags are looked at. The width 0 makes the
  conversion \<^verbatim>\<open>%-0s\<close>, which has no defined meaning.
\<close>

definition SSMap_saveToFileEx ::
    "(string \<Rightarrow> bool) \<Rightarrow> string \<Rightarrow> int \<Rightarrow> ssmap \<Rightarrow> files \<Rightarrow> (int \<times> files) run" where
  "SSMap_saveToFileEx writable fname flags m fs =
     (let f = writable (c_str fname);
          fs' = (if f then fs(c_str fname \<mapsto> []) else fs)
      in if flags AND SSMAP_FLAGS_WIDE \<noteq> 0
         then (let len = foldl (\<lambda>len (first, second). max len (length first)) 0 m
               in if f
                  then (if len = 0 \<and> m \<noteq> [] then None
                        else Some (0, fs'(c_str fname \<mapsto>
                          concat (map (\<lambda>(first, second).
                            pad_right len (c_str first) @ ''= '' @ c_str second @ [newline]) m))))
                  else Some (SSMap_saveToFile writable fname m fs'))
         else Some (-1, fs'))"

text \<open>
  One \<^verbatim>\<open>fgets\<close> with a buffer of \<open>n\<close> bytes: up to and including the next newline, at most
  \<open>n - 1\<close> characters.
\<close>

definition fgets :: "nat \<Rightarrow> string \<Rightarrow> (string \<times> string) option" where
  "fgets n s =
     (if s = [] then None
      else let k = min (length (takeWhile (\<lambda>c. c \<noteq> newline) s) + 1) (n - 1)
           in Some (take k s, drop k s))"

lemma fgets_shrinks: "1 < n \<Longrightarrow> fgets n s = Some (line, rest) \<Longrightarrow> length rest < length s"
  by (auto simp: fgets_def Let_def split: if_splits)

text \<open>The common body of the two load loops: cut at the first equals sign and clean both sides.\<close>

definition trim_left :: "string \<Rightarrow> string" where
  "trim_left s = dropWhile isspace s"

definition trim_right :: "(char \<Rightarrow> bool) \<Rightarrow> string \<Rightarrow> string" where
  "trim_right p s = rev (dropWhile p (rev s))"

definition load_line :: "string \<Rightarrow> ssmap \<Rightarrow> ssmap" where
  "load_line line m =
     (case strstr line ''='' of
        None \<Rightarrow> m
      | Some val \<Rightarrow>
          if drop (val + 1) line = [] then m
          else smap_set
                 (trim_right isspace (trim_left (take val line)))
                 (trim_right (\<lambda>c. isspace c \<or> c = CHR 0x0A \<or> c = CHR 0x0D)
                    (trim_left (drop (val + 1) line))) m)"

function load_file_loop :: "string \<Rightarrow> ssmap \<Rightarrow> ssmap" where
  "load_file_loop f m =
     (case fgets (1024 * 32) f of
        None \<Rightarrow> m
      | Some (buf, rest) \<Rightarrow> load_file_loop rest (load_line (c_str buf) m))"
  by pat_completeness auto
termination
  by (relation "measure (\<lambda>(f, m). length f)") (auto dest: fgets_shrinks [rotated])

declare load_file_loop.simps [simp del]

definition SSMap_loadFromFile :: "string \<Rightarrow> files \<Rightarrow> ssmap \<Rightarrow> int \<times> ssmap" where
  "SSMap_loadFromFile fname fs m =
     (case fs (c_str fname) of
        None \<Rightarrow> (-1, [])
      | Some f \<Rightarrow> (0, load_file_loop f []))"

section \<open>Strings\<close>

definition SSMap_saveToString :: "ssmap \<Rightarrow> string" where
  "SSMap_saveToString m =
     concat (map (\<lambda>(first, second). take 1022 (c_str first @ ''='' @ c_str second @ [tab])) m)"

function load_string_loop :: "string \<Rightarrow> ssmap \<Rightarrow> ssmap" where
  "load_string_loop data m =
     (case strtok_next (\<lambda>c. c = tab) data of
        None \<Rightarrow> m
      | Some (line, rest) \<Rightarrow> load_string_loop rest (load_line line m))"
  by pat_completeness auto
termination
  by (relation "measure (\<lambda>(data, m). length data)") (auto dest: strtok_next_shrinks)

declare load_string_loop.simps [simp del]

definition SSMap_loadFromString :: "string option \<Rightarrow> ssmap \<Rightarrow> int \<times> ssmap" where
  "SSMap_loadFromString data m =
     (case data of
        None \<Rightarrow> (-1, [])
      | Some d \<Rightarrow>
          let d' = (if d \<noteq> [] \<and> (hd d = CHR 0x22 \<or> hd d = CHR 0x27) then tl d else d)
          in (0, load_string_loop d' []))"

section \<open>Accessors\<close>

definition SSMap_set :: "string option \<Rightarrow> string option \<Rightarrow> ssmap \<Rightarrow> ssmap" where
  "SSMap_set lvalue rvalue m =
     (case lvalue of
        None \<Rightarrow> m
      | Some k \<Rightarrow> (case rvalue of None \<Rightarrow> smap_erase k m | Some v \<Rightarrow> smap_set k v m))"

definition SSMap_setInt :: "string option \<Rightarrow> int \<Rightarrow> ssmap \<Rightarrow> ssmap" where
  "SSMap_setInt lvalue rvalue m =
     (case lvalue of None \<Rightarrow> m | Some k \<Rightarrow> smap_set k (take 62 (print_int rvalue)) m)"

definition SSMap_get :: "string option \<Rightarrow> ssmap \<Rightarrow> string option" where
  "SSMap_get lvalue m =
     (case lvalue of None \<Rightarrow> None | Some k \<Rightarrow> map_option c_str (smap_find m k))"

definition SSMap_get_str :: "string \<Rightarrow> ssmap \<Rightarrow> string option" where
  "SSMap_get_str lvalue m = SSMap_get (Some (c_str lvalue)) m"

definition SSMap_safeGet :: "string option \<Rightarrow> ssmap \<Rightarrow> string" where
  "SSMap_safeGet lvalue m =
     (case lvalue of
        None \<Rightarrow> []
      | Some k \<Rightarrow> (case smap_find m k of Some v \<Rightarrow> c_str v | None \<Rightarrow> []))"

definition SSMap_safeGet_str :: "string \<Rightarrow> ssmap \<Rightarrow> string" where
  "SSMap_safeGet_str lvalue m = SSMap_safeGet (Some (c_str lvalue)) m"

definition SSMap_getInt :: "string option \<Rightarrow> ssmap \<Rightarrow> int run" where
  "SSMap_getInt lvalue m = (case SSMap_get lvalue m of Some raw \<Rightarrow> atoi raw | None \<Rightarrow> Some 0)"

definition SSMap_getInt_str :: "string \<Rightarrow> ssmap \<Rightarrow> int run" where
  "SSMap_getInt_str lvalue m = (case SSMap_get_str lvalue m of Some raw \<Rightarrow> atoi raw | None \<Rightarrow> Some 0)"

text \<open>\<open>isset\<close> builds a \<^verbatim>\<open>std::string\<close> from its argument, which has no meaning for \<^verbatim>\<open>NULL\<close>.\<close>

definition SSMap_isset :: "string option \<Rightarrow> ssmap \<Rightarrow> int run" where
  "SSMap_isset lvalue m =
     (case lvalue of None \<Rightarrow> None | Some k \<Rightarrow> Some (if smap_find m k = None then 0 else 1))"

definition SSMap_isset_str :: "string \<Rightarrow> ssmap \<Rightarrow> int run" where
  "SSMap_isset_str lvalue m = SSMap_isset (Some (c_str lvalue)) m"

definition SSMap_setStringList :: "string option \<Rightarrow> string list \<Rightarrow> ssmap \<Rightarrow> ssmap" where
  "SSMap_setStringList lvalue stringList m =
     SSMap_set lvalue (Some (c_str (foldl (\<lambda>rvalue s. rvalue @ s @ '';'') [] stringList))) m"

definition SSMap_getStringList :: "string option \<Rightarrow> ssmap \<Rightarrow> string list" where
  "SSMap_getStringList lvalue m =
     (case SSMap_get lvalue m of None \<Rightarrow> [] | Some raw \<Rightarrow> strtok_list semicolon raw)"

section \<open>Lines\<close>

lemma strstr_single: "strstr s [c] = strchr s c"
  by (induction s) (auto simp: strchr_def)

definition trimmed :: "string \<Rightarrow> bool" where
  "trimmed s \<longleftrightarrow> s = [] \<or> \<not> isspace (hd s) \<and> \<not> isspace (last s)"

lemma trim_left_spaces:
  assumes "\<forall>c\<in>set a. isspace c" "trimmed s"
  shows "trim_left (a @ s @ b) = (if s = [] then trim_left b else s @ b)"
  using assms by (cases s) (auto simp: trim_left_def trimmed_def dropWhile_append2)

lemma trim_right_spaces:
  assumes "\<forall>c\<in>set b. p c" "s = [] \<or> \<not> p (last s)"
  shows "trim_right p (s @ b) = s"
proof -
  have "dropWhile p (rev s) = rev s" using assms(2) by (cases s rule: rev_cases) auto
  moreover have "dropWhile p (rev b @ rev s) = dropWhile p (rev s)"
    using assms(1) by (intro dropWhile_append2) auto
  ultimately show ?thesis by (simp add: trim_right_def)
qed

lemma trim_line:
  assumes "\<forall>c\<in>set a. isspace c" "\<forall>c\<in>set b. isspace c" "trimmed s"
  shows "trim_right isspace (trim_left (a @ s @ b)) = s"
proof (cases "s = []")
  case True
  then show ?thesis using assms
    by (simp add: trim_left_def trim_right_def dropWhile_append2 dropWhile_all)
next
  case False
  then show ?thesis
    using assms trim_right_spaces [of b isspace s] by (simp add: trim_left_spaces trimmed_def)
qed

lemma isspace_eol: "(\<lambda>c. isspace c \<or> c = CHR 0x0A \<or> c = CHR 0x0D) = isspace"
  by (auto simp: isspace_def fun_eq_iff)

lemma load_line_entry:
  assumes "trimmed k" "trimmed v" "CHR ''='' \<notin> set k" "\<forall>c\<in>set p. c = CHR '' ''"
    and "\<forall>c\<in>set a. isspace c" "\<forall>c\<in>set b. isspace c" "a @ v @ b \<noteq> []"
  shows "load_line (k @ p @ ''='' @ a @ v @ b) m = smap_set k v m"
proof -
  have kp: "CHR ''='' \<notin> set (k @ p)" using assms(3,4) by auto
  have "strstr (k @ p @ ''='' @ a @ v @ b) ''='' = Some (length (k @ p))"
    using strchr_append [OF kp, of "a @ v @ b"] by (simp add: strstr_single)
  moreover have "trim_right isspace (trim_left (k @ p)) = k"
    using trim_line [of "[]" p k] assms by (auto simp: isspace_def)
  ultimately show ?thesis
    using trim_line [OF assms(5,6,2)] assms(7) by (auto simp: load_line_def isspace_eol)
qed

section \<open>Loading what was saved\<close>

definition key_ok :: "string \<Rightarrow> bool" where
  "key_ok k \<longleftrightarrow> trimmed k \<and> is_c_str k \<and> CHR ''='' \<notin> set k"

definition value_ok :: "string \<Rightarrow> bool" where
  "value_ok v \<longleftrightarrow> trimmed v \<and> is_c_str v"

definition string_entry_ok :: "string \<times> string \<Rightarrow> bool" where
  "string_entry_ok e \<longleftrightarrow> key_ok (fst e) \<and> value_ok (snd e) \<and> snd e \<noteq> [] \<and>
     tab \<notin> set (fst e) \<and> tab \<notin> set (snd e) \<and> length (fst e) + length (snd e) \<le> 1020"

definition file_entry_ok :: "nat \<Rightarrow> string \<times> string \<Rightarrow> bool" where
  "file_entry_ok n e \<longleftrightarrow> key_ok (fst e) \<and> value_ok (snd e) \<and>
     newline \<notin> set (fst e) \<and> newline \<notin> set (snd e) \<and> max n (length (fst e)) + length (snd e) + 3 \<le> 32767"

lemma load_string_loop_step:
  "strtok_next (\<lambda>c. c = tab) d = Some (line, rest) \<Longrightarrow>
     load_string_loop d m = load_string_loop rest (load_line line m)"
  by (subst load_string_loop.simps) simp

lemma load_file_loop_step:
  "fgets (1024 * 32) f = Some (buf, rest) \<Longrightarrow> c_str buf = buf \<Longrightarrow>
     load_file_loop f m = load_file_loop rest (load_line buf m)"
  by (subst load_file_loop.simps) simp

lemma load_string_loop_entries:
  assumes "list_all string_entry_ok es"
  shows "load_string_loop (SSMap_saveToString es) m = smap.put_all es m"
  using assms
proof (induction es arbitrary: m)
  case (Cons e es)
  obtain k v where e: "e = (k, v)" by fastforce
  have ok: "key_ok k" "value_ok v" "v \<noteq> []" "tab \<notin> set k" "tab \<notin> set v" "length k + length v \<le> 1020"
    using Cons.prems e by (auto simp: string_entry_ok_def)
  have tok: "strtok_next (\<lambda>c. c = tab) ((k @ ''='' @ v) @ tab # SSMap_saveToString es) =
      Some (k @ ''='' @ v, SSMap_saveToString es)"
    using ok by (intro strtok_next_token) auto
  have "load_line (k @ ''='' @ v) m = smap_set k v m"
    using load_line_entry [of k v "[]" "[]" "[]" m] ok by (simp add: key_ok_def value_ok_def)
  moreover have "SSMap_saveToString (e # es) = (k @ ''='' @ v) @ tab # SSMap_saveToString es"
    using ok e by (simp add: SSMap_saveToString_def key_ok_def value_ok_def c_str_id)
  ultimately show ?case
    using Cons load_string_loop_step [OF tok, of m] by (simp add: smap.put_all_simps e)
qed (simp add: SSMap_saveToString_def load_string_loop.simps cstr_simps smap.put_all_simps)

text \<open>A line of a file, with \<open>n\<close> columns for the key and \<open>a\<close> before the value.\<close>

definition file_line :: "nat \<Rightarrow> string \<Rightarrow> string \<times> string \<Rightarrow> string" where
  "file_line n a e = pad_right n (fst e) @ ''='' @ a @ snd e @ [newline]"

lemma fgets_line:
  assumes "newline \<notin> set l" "length l + 1 < n"
  shows "fgets n (l @ newline # rest) = Some (l @ [newline], rest)"
proof -
  have "takeWhile (\<lambda>c. c \<noteq> newline) (l @ newline # rest) = l"
    using assms(1) by (simp add: takeWhile_tail takeWhile_neq_all)
  then show ?thesis using assms(2) by (simp add: fgets_def)
qed

lemma load_file_loop_entries:
  assumes "list_all (file_entry_ok n) es" "set a \<subseteq> {CHR '' ''}" "length a \<le> 1"
  shows "load_file_loop (concat (map (file_line n a) es)) m = smap.put_all es m"
  using assms(1)
proof (induction es arbitrary: m)
  case (Cons e es)
  obtain k v where e: "e = (k, v)" by fastforce
  have ok: "key_ok k" "value_ok v" "newline \<notin> set k" "newline \<notin> set v"
    "max n (length k) + length v + 3 \<le> 32767"
    using Cons.prems e by (auto simp: file_entry_ok_def)
  let ?l = "k @ replicate (n - length k) (CHR '' '') @ ''='' @ a @ v" and ?r = "concat (map (file_line n a) es)"
  have "newline \<notin> set ?l" using ok assms(2) by auto
  moreover have "length ?l + 1 < 1024 * 32" using ok(5) assms(3) by auto
  ultimately have line: "fgets (1024 * 32) (?l @ newline # ?r) = Some (?l @ [newline], ?r)"
    by (rule fgets_line)
  have cs: "c_str (?l @ [newline]) = ?l @ [newline]"
    using ok assms(2) by (intro c_str_id) (auto simp: key_ok_def value_ok_def is_c_str_def)
  have "load_line (?l @ [newline]) m = smap_set k v m"
    using load_line_entry [of k v "replicate (n - length k) (CHR '' '')" a "[newline]" m] ok assms(2)
    by (auto simp: key_ok_def value_ok_def isspace_def)
  moreover have "concat (map (file_line n a) (e # es)) = ?l @ newline # ?r"
    by (simp add: e file_line_def pad_right_def)
  ultimately show ?case
    using Cons load_file_loop_step [OF line cs, of m] by (simp add: smap.put_all_simps e)
qed (simp add: load_file_loop.simps fgets_def smap.put_all_simps)

lemma put_all_own: "smap_ok m \<Longrightarrow> smap.put_all m [] = m"
  by (rule smap.put_all_rebuild) (auto simp: smap_ok_distinct smap_find_def smap_ok_def)

definition key_width :: "ssmap \<Rightarrow> nat" where
  "key_width m = foldl (\<lambda>len (first, second). max len (length first)) 0 m"

lemma saved_lines:
  assumes "list_all (file_entry_ok n) m"
  shows "concat (map (\<lambda>(first, second). c_str first @ ''='' @ c_str second @ [newline]) m) =
      concat (map (file_line 0 []) m)"
    and "concat (map (\<lambda>(first, second). pad_right n (c_str first) @ ''= '' @ c_str second @ [newline]) m) =
      concat (map (file_line n '' '') m)"
  using assms
  by (induction m)
    (auto simp: file_line_def pad_right_def file_entry_ok_def key_ok_def value_ok_def c_str_id)

section \<open>Properties\<close>

text \<open>
  A map survives serialization to a string: if keys and values have no tab and no
  space at their ends, keys no equals sign, values are not empty, an entry fits the 1023-byte
  buffer and the first key does not start with a quote, then \<open>loadFromString\<close> reads the result of
  \<open>saveToString\<close> back as exactly the same map, whatever the object held before.
\<close>

theorem ssmap_string_roundtrip:
  assumes "smap_ok m" "list_all string_entry_ok m"
    and "m = [] \<or> fst (hd m) = [] \<or> hd (fst (hd m)) \<notin> {CHR 0x22, CHR 0x27}"
  shows "SSMap_loadFromString (Some (SSMap_saveToString m)) old = (0, m)"
proof -
  let ?d = "SSMap_saveToString m"
  have "\<not> (?d \<noteq> [] \<and> (hd ?d = CHR 0x22 \<or> hd ?d = CHR 0x27))"
  proof (cases m)
    case (Cons e es)
    obtain k v where e: "e = (k, v)" by fastforce
    have k: "c_str k = k" using assms(2) Cons e
      by (simp add: string_entry_ok_def key_ok_def c_str_id)
    show ?thesis using assms(3) Cons e k by (cases k) (auto simp: SSMap_saveToString_def)
  qed (simp add: SSMap_saveToString_def)
  then show ?thesis
    using load_string_loop_entries [OF assms(2)] put_all_own [OF assms(1)]
    by (auto simp: SSMap_loadFromString_def Let_def)
qed

theorem ssmap_string_roundtrip_witness:
  "SSMap_loadFromString (Some (SSMap_saveToString [(''a'', ''x y''), (''b'', ''1'')])) [] =
     (0, [(''a'', ''x y''), (''b'', ''1'')])"
proof -
  have "smap_ok [(''a'', ''x y''), (''b'', ''1'')]" by (simp add: smap_ok_def)
  moreover have "list_all string_entry_ok [(''a'', ''x y''), (''b'', ''1'')]"
    by (simp add: string_entry_ok_def key_ok_def value_ok_def trimmed_def isspace_def is_c_str_def)
  ultimately show ?thesis by (intro ssmap_string_roundtrip) simp_all
qed

text \<open>
  A map survives a file in both formats: with keys and values that have no newline and
  no space at their ends, keys without an equals sign and lines below 32767 bytes, a map written by
  \<open>saveToFile\<close>, or in aligned columns by \<open>saveToFileEx\<close>, is read back exactly by \<open>loadFromFile\<close>;
  empty values survive too. A file that cannot be opened gives -1, and loading then leaves an
  empty map.
\<close>

theorem ssmap_file_roundtrip:
  assumes "smap_ok m" "list_all (file_entry_ok (key_width m)) m" "writable (c_str f)"
  shows "\<exists>fs'. SSMap_saveToFile writable f m fs = (0, fs') \<and> SSMap_loadFromFile f fs' old = (0, m) \<and>
     (0 < key_width m \<longrightarrow>
       (\<exists>fs''. SSMap_saveToFileEx writable f SSMAP_FLAGS_WIDE m fs = Some (0, fs'') \<and>
          SSMap_loadFromFile f fs'' old = (0, m))) \<and>
     SSMap_saveToFile (\<lambda>_. False) f m fs = (-1, fs) \<and>
     SSMap_loadFromFile f (fs(c_str f := None)) old = (-1, [])"
proof -
  have ok0: "list_all (file_entry_ok 0) m"
    using assms(2) by (auto simp: list_all_iff file_entry_ok_def)
  note lines = saved_lines [OF assms(2)]
  have "load_file_loop (concat (map (file_line 0 []) m)) [] = m"
    using load_file_loop_entries [OF ok0, of "[]" "[]"] put_all_own [OF assms(1)] by simp
  moreover have "load_file_loop (concat (map (file_line (key_width m) '' '') m)) [] = m"
    using load_file_loop_entries [OF assms(2), of "'' ''" "[]"] put_all_own [OF assms(1)] by simp
  ultimately show ?thesis
    using assms(3) lines
    by (simp add: SSMap_saveToFile_def SSMap_saveToFileEx_def SSMap_loadFromFile_def Let_def
        SSMAP_FLAGS_WIDE_def key_width_def [symmetric])
qed

theorem ssmap_file_roundtrip_witness:
  "\<exists>fs'. SSMap_saveToFile (\<lambda>_. True) ''cfg'' [(''a'', []), (''b'', ''1'')] Map.empty = (0, fs') \<and>
     SSMap_loadFromFile ''cfg'' fs' [] = (0, [(''a'', []), (''b'', ''1'')])"
proof -
  let ?m = "[(''a'', []), (''b'', ''1'')]"
  have "smap_ok ?m" by (simp add: smap_ok_def)
  moreover have "list_all (file_entry_ok (key_width ?m)) ?m"
    by (simp add: file_entry_ok_def key_ok_def value_ok_def trimmed_def isspace_def is_c_str_def
        key_width_def)
  ultimately show ?thesis
    using ssmap_file_roundtrip [of ?m "\<lambda>_. True" "''cfg''" Map.empty "[]"] by blast
qed

text \<open>
  The accessors obey the laws of a map: a value that was set is read back by every
  getter, other keys keep theirs, setting \<^verbatim>\<open>NULL\<close> removes the key, an \<^verbatim>\<open>int\<close> and a list of proper
  elements survive their conversion to text, and \<^verbatim>\<open>isset\<close> tells which keys are present.
\<close>

theorem ssmap_accessors:
  assumes "is_c_str v" "\<bar>i\<bar> \<le> int_max" "list_all elem_ok vec"
  shows "SSMap_get (Some k') (SSMap_set (Some k) (Some v) m) =
       (if k' = k then Some v else SSMap_get (Some k') m) \<and>
     SSMap_safeGet (Some k) (SSMap_set (Some k) (Some v) m) = v \<and>
     SSMap_isset (Some k') (SSMap_set (Some k) (Some v) m) =
       (if k' = k then Some 1 else SSMap_isset (Some k') m) \<and>
     SSMap_get (Some k) (SSMap_set (Some k) None m) = None \<and>
     SSMap_isset (Some k) (SSMap_set (Some k) None m) = Some 0 \<and>
     SSMap_getInt (Some k) (SSMap_setInt (Some k) i m) = Some i \<and>
     SSMap_getStringList (Some k) (SSMap_setStringList (Some k) vec m) = vec"
proof -
  have "take 62 (print_int i) = print_int i" using print_int_length [of i] assms(2) by simp
  moreover have "foldl (\<lambda>rvalue s. rvalue @ s @ '';'') [] vec = join vec"
    using StrListInit_join [of vec] by (simp add: StrListInit_def)
  ultimately show ?thesis
    using assms is_c_str_join [of vec] tokens_join [of vec] is_c_str_print_int [of i]
    by (auto simp: SSMap_get_def SSMap_set_def SSMap_safeGet_def SSMap_isset_def SSMap_getInt_def
        SSMap_setInt_def SSMap_getStringList_def SSMap_setStringList_def smap.find_set smap.find_erase
        c_str_id)
qed

theorem ssmap_accessors_witness:
  "SSMap_getInt (Some ''n'') (SSMap_setInt (Some ''n'') (-17) []) = Some (-17) \<and>
   SSMap_getStringList (Some ''l'') (SSMap_setStringList (Some ''l'') [''a'', ''b''] []) = [''a'', ''b'']"
  using ssmap_accessors [of "[]" "-17" "[]" "[]" "''n''" "[]"]
    ssmap_accessors [of "[]" 0 "[''a'', ''b'']" "[]" "''l''" "[]"]
  by (simp add: elem_ok_def is_c_str_def)

text \<open>
  Two ways to lose data: an entry with an empty value, which the class can hold and
  \<open>saveToString\<close> writes, is dropped by \<open>loadFromString\<close>; and \<open>saveToFileEx\<close> without the wide flag,
  which is documented as an extra, empties the file, writes nothing and returns -1.
\<close>

theorem ssmap_lost_entries:
  assumes "key_ok k" "tab \<notin> set k" "length k \<le> 1020"
    and "k = [] \<or> hd k \<notin> {CHR 0x22, CHR 0x27}" "writable (c_str f)" "flags AND SSMAP_FLAGS_WIDE = 0"
  shows "SSMap_loadFromString (Some (SSMap_saveToString [(k, [])])) old = (0, []) \<and>
     SSMap_saveToFileEx writable f flags m fs = Some (-1, fs(c_str f \<mapsto> []))"
proof -
  have d: "SSMap_saveToString [(k, [])] = (k @ ''='') @ [tab]"
    using assms(1,3) by (simp add: SSMap_saveToString_def key_ok_def cstr_simps)
  have "strtok_next (\<lambda>c. c = tab) ((k @ ''='') @ tab # []) = Some (k @ ''='', [])"
    using assms(2) by (intro strtok_next_token) auto
  moreover have "load_line (k @ ''='') [] = []"
    using strchr_append [of "CHR ''=''" k "[]"] assms(1)
    by (simp add: load_line_def strstr_single key_ok_def)
  ultimately have "load_string_loop (k @ [CHR ''='', tab]) [] = []"
    using load_string_loop_step [of "k @ [CHR ''='', tab]" "k @ ''=''" "[]" "[]"]
    by (simp add: load_string_loop.simps [of "[]"] cstr_simps)
  then show ?thesis
    using d assms(4-6)
    by (cases k) (auto simp: SSMap_loadFromString_def SSMap_saveToFileEx_def)
qed

theorem ssmap_lost_entries_witness:
  "SSMap_loadFromString (Some (SSMap_saveToString [(''k'', [])])) [] = (0, []) \<and>
   SSMap_saveToFileEx (\<lambda>_. True) ''f'' 0 [(''k'', ''v'')] Map.empty = Some (-1, [c_str ''f'' \<mapsto> []])"
  using ssmap_lost_entries [of "''k''" "\<lambda>_. True" "''f''" 0 "[]" "[(''k'', ''v'')]" Map.empty]
  by (simp add: key_ok_def trimmed_def isspace_def is_c_str_def)

end
