(* ===== verification/Lock_Sem.thy ===== *)
theory Lock_Sem
  imports Teg_Error
begin

text \<open>
  The semaphore of LibLock (\<^verbatim>\<open>Semaphore.cpp\<close>), Linux branch, over a POSIX counter. What happens
  while a thread is blocked is a list of events of the environment: a post that wakes it, an
  interrupting signal, the deadline. The result \<^const>\<open>None\<close> of a wait means that the thread is still
  blocked when the events are used up. Names and traces of the objects are left out.
\<close>

datatype wake = Posted | Interrupted | Deadline

abbreviation EINTR :: int where "EINTR \<equiv> 4"
abbreviation EAGAIN :: int where "EAGAIN \<equiv> 11"
abbreviation EINVAL :: int where "EINVAL \<equiv> 22"
abbreviation ETIMEDOUT :: int where "ETIMEDOUT \<equiv> 110"

text \<open>
  One call of \<^verbatim>\<open>sem_wait\<close> or \<^verbatim>\<open>sem_timedwait\<close>: the return value, \<^verbatim>\<open>errno\<close>, the counter after the
  call and the events that are left. The nanoseconds of a deadline are checked only if the call has
  to block.
\<close>

fun sem_call :: "int option \<Rightarrow> nat \<Rightarrow> wake list \<Rightarrow> (int \<times> int \<times> nat \<times> wake list) option" where
  "sem_call nsec (Suc n) env = Some (0, 0, n, env)"
| "sem_call nsec 0 env =
     (case nsec of
        Some ns \<Rightarrow>
          if ns < 0 \<or> 1000000000 \<le> ns then Some (-1, EINVAL, 0, env)
          else (case env of
                  [] \<Rightarrow> None
                | Posted # env' \<Rightarrow> Some (0, 0, 0, env')
                | Interrupted # env' \<Rightarrow> Some (-1, EINTR, 0, env')
                | Deadline # env' \<Rightarrow> Some (-1, ETIMEDOUT, 0, env'))
      | None \<Rightarrow>
          (case env of
             [] \<Rightarrow> None
           | Posted # env' \<Rightarrow> Some (0, 0, 0, env')
           | Interrupted # env' \<Rightarrow> Some (-1, EINTR, 0, env')
           | Deadline # env' \<Rightarrow> None))"

lemma sem_call_shrinks:
  "sem_call nsec n env = Some (r, e, n', env') \<Longrightarrow> e = EINTR \<Longrightarrow> length env' < length env"
  by (induction nsec n env rule: sem_call.induct)
    (auto split: option.splits if_splits list.splits wake.splits)

text \<open>The loop that repeats an interrupted call.\<close>

function sem_loop :: "int option \<Rightarrow> nat \<Rightarrow> wake list \<Rightarrow> (int \<times> int \<times> nat) option" where
  "sem_loop nsec n env =
     (case sem_call nsec n env of
        None \<Rightarrow> None
      | Some (result, err, n', env') \<Rightarrow>
          if result \<noteq> 0 \<and> err = EINTR then sem_loop nsec n' env' else Some (result, err, n'))"
  by pat_completeness auto
termination
  by (relation "measure (\<lambda>(nsec, n, env). length env)") (auto dest: sem_call_shrinks)

declare sem_loop.simps [simp del]

definition crem :: "int \<Rightarrow> int \<Rightarrow> int" where
  "crem a b = sgn a * (\<bar>a\<bar> mod \<bar>b\<bar>)"

text \<open>\<open>now\<close> is the nanosecond part of the clock when the wait starts.\<close>

definition Semaphore_wait :: "int \<Rightarrow> int \<Rightarrow> wake list \<Rightarrow> nat \<Rightarrow> (int \<times> nat) option" where
  "Semaphore_wait timeout now env n =
     (case (if timeout = -1 then sem_loop None n env
            else sem_loop (Some (now + crem timeout 1000 * 1000000)) n env) of
        None \<Rightarrow> None
      | Some (result, err, n') \<Rightarrow>
          Some (if result = EAGAIN then -1 else if result \<noteq> 0 then err else result, n'))"

definition Semaphore_new :: "int \<Rightarrow> nat" where
  "Semaphore_new initValue = nat initValue"

definition Semaphore_signal :: "nat \<Rightarrow> nat" where
  "Semaphore_signal n = n + 1"

definition Semaphore_tryWait :: "nat \<Rightarrow> int \<times> nat" where
  "Semaphore_tryWait n = (case n of 0 \<Rightarrow> (-1, 0) | Suc n' \<Rightarrow> (0, n'))"

definition Semaphore_getState :: "nat \<Rightarrow> int" where
  "Semaphore_getState n = int n"

function unwind_loop :: "int \<Rightarrow> nat \<Rightarrow> int \<times> nat" where
  "unwind_loop result n =
     (case Semaphore_tryWait n of
        (r, n') \<Rightarrow> if r = 0 then unwind_loop (result + 1) n' else (result, n'))"
  by pat_completeness auto
termination
  by (relation "measure snd") (auto simp: Semaphore_tryWait_def split: nat.splits)

declare unwind_loop.simps [simp del]

definition Semaphore_unwind :: "nat \<Rightarrow> int \<times> nat" where
  "Semaphore_unwind n = unwind_loop 0 n"

definition Semaphore_unwoundWait :: "int \<Rightarrow> int \<Rightarrow> wake list \<Rightarrow> nat \<Rightarrow> (int \<times> nat) option" where
  "Semaphore_unwoundWait timeout now env n =
     (case Semaphore_unwind n of (_, n') \<Rightarrow> Semaphore_wait timeout now env n')"

section \<open>Waiting\<close>

lemma sem_loop_signalled: "sem_loop nsec (Suc n) env = Some (0, 0, n)"
  by (subst sem_loop.simps) simp

lemma sem_loop_result:
  "sem_loop nsec n env = Some (result, err, n') \<Longrightarrow>
     result = 0 \<or> result = -1 \<and> err \<in> {EINVAL, ETIMEDOUT} \<and> nsec \<noteq> None \<and> n = 0 \<and> n' = 0"
proof (induction nsec n env rule: sem_loop.induct)
  case (1 nsec n env)
  show ?case
  proof (cases n)
    case 0
    then show ?thesis
      using 1 unfolding sem_loop.simps [of nsec n env]
      by (auto split: option.splits if_splits list.splits wake.splits)
  next
    case (Suc m)
    then show ?thesis using 1(2) by (simp add: sem_loop_signalled)
  qed
qed

lemma unwind_loop_value: "unwind_loop r n = (r + int n, 0)"
  by (induction n arbitrary: r)
    (subst unwind_loop.simps, simp add: Semaphore_tryWait_def)+

lemma wait_signalled: "Semaphore_wait timeout now env (Suc n) = Some (0, n)"
  by (simp add: Semaphore_wait_def sem_loop_signalled)

lemma wait_results:
  assumes "Semaphore_wait timeout now env n = Some (r, n')"
  shows "r = 0 \<or> r \<in> {EINVAL, ETIMEDOUT} \<and> timeout \<noteq> -1 \<and> n = 0 \<and> n' = 0"
  using assms sem_loop_result
  by (fastforce simp: Semaphore_wait_def split: option.splits if_splits)

section \<open>Properties\<close>

text \<open>
  Semaphore results: a signalled semaphore is acquired at once whatever the timeout;
  a wait without a timeout can only return 0; a timed wait that does not acquire returns
  \<^verbatim>\<open>ETIMEDOUT\<close> or \<^verbatim>\<open>EINVAL\<close> and never the documented 1 or -1, and it fails with \<^verbatim>\<open>EINVAL\<close>
  without waiting whenever the milliseconds added to the current nanoseconds reach a full second.
  \<open>unwind\<close> takes exactly the signals that were pending.
\<close>

theorem semaphore_wait_results:
  assumes "Semaphore_wait timeout now env n = Some (r, n')"
  shows "(0 < n \<longrightarrow> r = 0 \<and> n' = n - 1) \<and>
     (timeout = -1 \<longrightarrow> r = 0) \<and>
     (r = 0 \<or> r = ETIMEDOUT \<or> r = EINVAL) \<and> r \<notin> {1, -1} \<and>
     (timeout \<noteq> -1 \<and> n = 0 \<and> 1000000000 \<le> now + crem timeout 1000 * 1000000 \<longrightarrow> r = EINVAL) \<and>
     Semaphore_unwind m = (int m, 0)"
proof -
  have "r = EINVAL" if "timeout \<noteq> -1" "n = 0" "1000000000 \<le> now + crem timeout 1000 * 1000000"
    using assms that by (simp add: Semaphore_wait_def sem_loop.simps [of _ 0])
  moreover have "0 < n \<Longrightarrow> r = 0 \<and> n' = n - 1"
    using assms wait_signalled [of timeout now env "n - 1"] by auto
  ultimately show ?thesis
    using wait_results [OF assms] by (auto simp: Semaphore_unwind_def unwind_loop_value)
qed

theorem semaphore_wait_results_witness:
  "Semaphore_wait 500 600000000 [Posted] 0 = Some (EINVAL, 0) \<and> Semaphore_unwind 3 = (3, 0)"
proof -
  have w: "Semaphore_wait 500 600000000 [Posted] 0 = Some (22, 0)"
    by (simp add: Semaphore_wait_def sem_loop.simps crem_def)
  then show ?thesis using semaphore_wait_results [OF w, of 3] by simp
qed

end
