(* ===== verification/Request_Pool.thy ===== *)
theory Request_Pool
  imports Lock_Sem
begin

text \<open>
  The request pool of LibLock (\<^verbatim>\<open>RequestPool.cpp\<close>): a fixed table of requests, each with a semaphore
  that is signalled when the request is served. First the methods as functions on the table, for
  one thread; then the same code cut at the points where threads can interleave, as a step relation
  over a table, the owner of the pool mutex and a program counter per thread. Pointers are numbers,
  with 0 for \<^verbatim>\<open>NULL\<close>; a pointer to a request is its index. The mutex of a single request only
  brackets the assignments to its fields, which are one step here.
\<close>

definition REQUEST_POOL_DEFAULT_SIZE :: int where
  "REQUEST_POOL_DEFAULT_SIZE = 16"

record Request =
  req_id :: int
  inputData :: nat
  outputData :: nat
  served :: nat

text \<open>
  The constructor; \<open>junk\<close> is what \<^verbatim>\<open>new\<close> left in the data pointers. Without a name it assigns
  \<^verbatim>\<open>NULL\<close> to a \<^verbatim>\<open>std::string\<close>.
\<close>

definition RequestPool_new :: "int \<Rightarrow> 'name option \<Rightarrow> (nat \<Rightarrow> nat \<times> nat) \<Rightarrow> Request list run" where
  "RequestPool_new sz name junk =
     (case name of
        None \<Rightarrow> None
      | Some _ \<Rightarrow>
          let sz' = (if sz < 1 then REQUEST_POOL_DEFAULT_SIZE else sz)
          in Some (map (\<lambda>i. \<lparr>req_id = -1, inputData = fst (junk i), outputData = snd (junk i),
                            served = Semaphore_new 0\<rparr>) [0..<nat sz']))"

fun find_loop :: "int \<Rightarrow> nat \<Rightarrow> Request list \<Rightarrow> nat option" where
  "find_loop ident i [] = None"
| "find_loop ident i (r # rs) = (if req_id r = ident then Some i else find_loop ident (i + 1) rs)"

definition RequestPool_find :: "int \<Rightarrow> Request list \<Rightarrow> nat option" where
  "RequestPool_find ident tbl = find_loop ident 0 tbl"

definition RequestPool_findFree :: "Request list \<Rightarrow> nat option" where
  "RequestPool_findFree tbl = find_loop (-1) 0 tbl"

text \<open>The part of \<open>push\<close> that looks for a place, and the part that fills it.\<close>

definition push_slot :: "int \<Rightarrow> Request list \<Rightarrow> nat option" where
  "push_slot ident tbl =
     (if RequestPool_find ident tbl \<noteq> None then None else RequestPool_findFree tbl)"

definition push_fill :: "int \<Rightarrow> nat \<Rightarrow> nat \<Rightarrow> nat \<Rightarrow> Request list \<Rightarrow> Request list" where
  "push_fill ident inp out k tbl =
     tbl[k := (tbl ! k)\<lparr>inputData := inp, outputData := out, req_id := ident\<rparr>]"

definition RequestPool_push :: "int \<Rightarrow> nat \<Rightarrow> nat \<Rightarrow> Request list \<Rightarrow> int \<times> Request list" where
  "RequestPool_push ident inp out tbl =
     (case push_slot ident tbl of
        None \<Rightarrow> (-1, tbl)
      | Some k \<Rightarrow> (0, push_fill ident inp out k tbl))"

definition Request_serve :: "nat \<Rightarrow> Request list \<Rightarrow> Request list" where
  "Request_serve k tbl = tbl[k := (tbl ! k)\<lparr>served := Semaphore_signal (served (tbl ! k))\<rparr>]"

definition RequestPool_serve :: "int \<Rightarrow> Request list \<Rightarrow> int \<times> Request list" where
  "RequestPool_serve ident tbl =
     (case RequestPool_find ident tbl of
        None \<Rightarrow> (ERR_WRONG_PARAMETER, tbl)
      | Some k \<Rightarrow> (0, Request_serve k tbl))"

definition RequestPool_serve_ptr :: "nat option \<Rightarrow> Request list \<Rightarrow> int \<times> Request list" where
  "RequestPool_serve_ptr r tbl =
     (case r of None \<Rightarrow> (ERR_WRONG_PARAMETER, tbl) | Some k \<Rightarrow> (0, Request_serve k tbl))"

definition clear_request :: "nat \<Rightarrow> Request list \<Rightarrow> Request list" where
  "clear_request k tbl = tbl[k := (tbl ! k)\<lparr>req_id := -1, inputData := 0, outputData := 0\<rparr>]"

definition RequestPool_wait ::
    "int \<Rightarrow> int \<Rightarrow> int \<Rightarrow> wake list \<Rightarrow> Request list \<Rightarrow> (int \<times> Request list) option" where
  "RequestPool_wait ident timeout now env tbl =
     (case RequestPool_find ident tbl of
        None \<Rightarrow> Some (ERR_WRONG_PARAMETER, tbl)
      | Some k \<Rightarrow>
          (case Semaphore_wait timeout now env (served (tbl ! k)) of
             None \<Rightarrow> None
           | Some (waitRet, n) \<Rightarrow>
               let tbl' = tbl[k := (tbl ! k)\<lparr>served := n\<rparr>] in
               if waitRet = 0 then Some (0, clear_request k tbl')
               else if waitRet = -1 then Some (ERR_TIMEOUT, tbl')
               else Some (ERR_GENERIC, tbl')))"

section \<open>Threads\<close>

text \<open>The mutex of LibLock (\<^verbatim>\<open>Mutex.cpp\<close>): \<^const>\<open>None\<close> of a lock means that the thread blocks.\<close>

definition Mutex_lock :: "nat \<Rightarrow> nat option \<Rightarrow> nat option option" where
  "Mutex_lock t owner = (if owner = None then Some (Some t) else None)"

definition Mutex_unlock :: "nat \<Rightarrow> nat option \<Rightarrow> nat option run" where
  "Mutex_unlock t owner = (if owner = Some t then Some None else None)"

datatype pc =
    Idle
  | Push_locked int nat nat
  | Push_found int nat nat nat
  | Push_unlock int
  | Serving nat
  | Waiting nat int int
  | Wait_clear nat

record pool =
  table :: "Request list"
  owner :: "nat option"
  pcs :: "nat \<Rightarrow> pc"

inductive pool_step :: "pool \<Rightarrow> pool \<Rightarrow> bool" where
  push_lock: "pcs s t = Idle \<Longrightarrow> Mutex_lock t (owner s) = Some ow \<Longrightarrow>
    pool_step s (s\<lparr>owner := ow, pcs := (pcs s)(t := Push_locked ident inp out)\<rparr>)"
| push_refused: "pcs s t = Push_locked ident inp out \<Longrightarrow> push_slot ident (table s) = None \<Longrightarrow>
    pool_step s (s\<lparr>pcs := (pcs s)(t := Push_unlock (-1))\<rparr>)"
| push_found: "pcs s t = Push_locked ident inp out \<Longrightarrow> push_slot ident (table s) = Some k \<Longrightarrow>
    pool_step s (s\<lparr>pcs := (pcs s)(t := Push_found ident inp out k)\<rparr>)"
| push_filled: "pcs s t = Push_found ident inp out k \<Longrightarrow>
    pool_step s (s\<lparr>table := push_fill ident inp out k (table s), pcs := (pcs s)(t := Push_unlock 0)\<rparr>)"
| push_unlock: "pcs s t = Push_unlock rc \<Longrightarrow> Mutex_unlock t (owner s) = Some ow \<Longrightarrow>
    pool_step s (s\<lparr>owner := ow, pcs := (pcs s)(t := Idle)\<rparr>)"
| serve_found: "pcs s t = Idle \<Longrightarrow> RequestPool_find ident (table s) = Some k \<Longrightarrow>
    pool_step s (s\<lparr>pcs := (pcs s)(t := Serving k)\<rparr>)"
| serve_signal: "pcs s t = Serving k \<Longrightarrow>
    pool_step s (s\<lparr>table := Request_serve k (table s), pcs := (pcs s)(t := Idle)\<rparr>)"
| wait_found: "pcs s t = Idle \<Longrightarrow> RequestPool_find ident (table s) = Some k \<Longrightarrow>
    pool_step s (s\<lparr>pcs := (pcs s)(t := Waiting k timeout now)\<rparr>)"
| wait_acquired: "pcs s t = Waiting k timeout now \<Longrightarrow>
    Semaphore_wait timeout now [] (served (table s ! k)) = Some (0, n) \<Longrightarrow>
    pool_step s (s\<lparr>table := (table s)[k := (table s ! k)\<lparr>served := n\<rparr>],
                   pcs := (pcs s)(t := Wait_clear k)\<rparr>)"
| wait_failed: "pcs s t = Waiting k timeout now \<Longrightarrow>
    Semaphore_wait timeout now [Deadline] (served (table s ! k)) = Some (r, n) \<Longrightarrow> r \<noteq> 0 \<Longrightarrow>
    pool_step s (s\<lparr>pcs := (pcs s)(t := Idle)\<rparr>)"
| wait_cleared: "pcs s t = Wait_clear k \<Longrightarrow>
    pool_step s (s\<lparr>table := clear_request k (table s), pcs := (pcs s)(t := Idle)\<rparr>)"

text \<open>The start: a fresh table, nobody holds the mutex, all threads outside of the pool.\<close>

definition pool_start :: "Request list \<Rightarrow> pool" where
  "pool_start tbl = \<lparr>table = tbl, owner = None, pcs = (\<lambda>_. Idle)\<rparr>"

section \<open>Looking for requests\<close>

lemma find_loop_Some:
  "find_loop ident i tbl = Some k \<Longrightarrow>
     i \<le> k \<and> k - i < length tbl \<and> req_id (tbl ! (k - i)) = ident \<and>
     (\<forall>j < k - i. req_id (tbl ! j) \<noteq> ident)"
proof (induction tbl arbitrary: i)
  case (Cons r tbl)
  show ?case
  proof (cases "req_id r = ident")
    case False
    then have IH: "i + 1 \<le> k" "k - (i + 1) < length tbl" "req_id (tbl ! (k - (i + 1))) = ident"
      "\<forall>j < k - (i + 1). req_id (tbl ! j) \<noteq> ident"
      using Cons by auto
    moreover have "k - i = Suc (k - (i + 1))" using IH(1) by simp
    ultimately show ?thesis using False by (auto simp: less_Suc_eq_0_disj)
  qed (use Cons.prems in simp)
qed simp

lemma find_loop_None: "find_loop ident i tbl = None \<longleftrightarrow> ident \<notin> req_id ` set tbl"
  by (induction tbl arbitrary: i) auto

lemma find_loop_ids: "map req_id t = map req_id u \<Longrightarrow> find_loop ident i t = find_loop ident i u"
proof (induction t arbitrary: i u)
  case (Cons r t)
  then show ?case by (cases u) auto
qed simp

lemma find_Some:
  "RequestPool_find ident tbl = Some k \<Longrightarrow> k < length tbl \<and> req_id (tbl ! k) = ident"
  using find_loop_Some [of ident 0 tbl k] by (simp add: RequestPool_find_def)

lemma find_None: "RequestPool_find ident tbl = None \<longleftrightarrow> ident \<notin> req_id ` set tbl"
  by (simp add: RequestPool_find_def find_loop_None)

lemma findFree_find: "RequestPool_findFree tbl = RequestPool_find (-1) tbl"
  by (simp add: RequestPool_findFree_def RequestPool_find_def)

lemma push_slot_Some:
  assumes "push_slot ident tbl = Some k"
  shows "k < length tbl" "req_id (tbl ! k) = -1" "ident \<notin> req_id ` set tbl" "ident \<noteq> -1"
proof -
  have n: "ident \<notin> req_id ` set tbl" and f: "RequestPool_find (-1) tbl = Some k"
    using assms by (auto simp: push_slot_def findFree_find find_None split: if_splits)
  from find_Some [OF f] show k: "k < length tbl" "req_id (tbl ! k) = -1" by auto
  show "ident \<notin> req_id ` set tbl" by (rule n)
  show "ident \<noteq> -1" using n k nth_mem [OF k(1)] by (metis image_eqI)
qed

lemma push_slot_None: "push_slot ident tbl = None \<longleftrightarrow> ident \<in> req_id ` set tbl \<or> -1 \<notin> req_id ` set tbl"
  by (simp add: push_slot_def findFree_find find_None)

lemma nth_updated: "j < length tbl \<Longrightarrow> tbl[k := r] ! j = (if j = k then r else tbl ! j)"
  by (auto simp: nth_list_update)

lemma table_updates [simp]:
  "length (push_fill ident inp out k tbl) = length tbl"
  "length (clear_request k tbl) = length tbl"
  "length (Request_serve k tbl) = length tbl"
  "j < length tbl \<Longrightarrow> req_id (push_fill ident inp out k tbl ! j) = (if j = k then ident else req_id (tbl ! j))"
  "j < length tbl \<Longrightarrow> req_id (clear_request k tbl ! j) = (if j = k then -1 else req_id (tbl ! j))"
  "j < length tbl \<Longrightarrow> req_id (Request_serve k tbl ! j) = req_id (tbl ! j)"
  "j < length tbl \<Longrightarrow> req_id (tbl[k := (tbl ! k)\<lparr>served := n\<rparr>] ! j) = req_id (tbl ! j)"
  by (simp_all add: push_fill_def clear_request_def Request_serve_def nth_updated)

lemma ids_iff: "ident \<in> req_id ` set tbl \<longleftrightarrow> (\<exists>j < length tbl. req_id (tbl ! j) = ident)"
  by (force simp: in_set_conv_nth image_iff)

text \<open>No two pending requests have the same number.\<close>

definition unique_ids :: "Request list \<Rightarrow> bool" where
  "unique_ids tbl \<longleftrightarrow> inj_on (\<lambda>i. req_id (tbl ! i)) {i. i < length tbl \<and> req_id (tbl ! i) \<noteq> -1}"

lemma unique_idsI:
  "(\<And>i j. i < length tbl \<Longrightarrow> j < length tbl \<Longrightarrow> req_id (tbl ! i) = req_id (tbl ! j) \<Longrightarrow>
      req_id (tbl ! j) \<noteq> -1 \<Longrightarrow> i = j) \<Longrightarrow> unique_ids tbl"
  unfolding unique_ids_def by (rule inj_onI) simp

lemma unique_idsD:
  "unique_ids tbl \<Longrightarrow> i < length tbl \<Longrightarrow> j < length tbl \<Longrightarrow> req_id (tbl ! i) = req_id (tbl ! j) \<Longrightarrow>
     req_id (tbl ! j) \<noteq> -1 \<Longrightarrow> i = j"
  unfolding unique_ids_def by (erule inj_onD) simp_all

lemma unique_single [simp]: "unique_ids [r]"
  by (simp add: unique_ids_def inj_on_def)

lemma unique_find:
  assumes "unique_ids tbl" "k < length tbl" "req_id (tbl ! k) = ident" "ident \<noteq> -1"
  shows "RequestPool_find ident tbl = Some k"
proof (cases "RequestPool_find ident tbl")
  case None
  then have "ident \<notin> req_id ` set tbl" by (simp add: find_None)
  then show ?thesis using nth_mem [OF assms(2)] assms(3) by (metis image_eqI)
next
  case (Some j)
  then show ?thesis using find_Some [OF Some] assms unique_idsD [of tbl j k] by simp
qed

lemma unique_change:
  assumes "unique_ids tbl" "length tbl' = length tbl"
    and "\<And>j. j < length tbl \<Longrightarrow> req_id (tbl' ! j) = req_id (tbl ! j) \<or> req_id (tbl' ! j) = -1"
  shows "unique_ids tbl'"
proof (rule unique_idsI)
  fix i j
  assume "i < length tbl'" "j < length tbl'" "req_id (tbl' ! i) = req_id (tbl' ! j)" "req_id (tbl' ! j) \<noteq> -1"
  then show "i = j"
    using unique_idsD [OF assms(1), of i j] assms(2) assms(3) [of i] assms(3) [of j] by auto
qed

lemma unique_clear: "unique_ids tbl \<Longrightarrow> unique_ids (clear_request k tbl)"
  by (erule unique_change) simp_all

lemma unique_serve: "unique_ids tbl \<Longrightarrow> unique_ids (Request_serve k tbl)"
  by (erule unique_change) simp_all

lemma unique_served: "unique_ids tbl \<Longrightarrow> unique_ids (tbl[k := (tbl ! k)\<lparr>served := n\<rparr>])"
  by (erule unique_change) simp_all

lemma unique_fill:
  assumes "unique_ids tbl" "ident \<notin> req_id ` set tbl"
  shows "unique_ids (push_fill ident inp out k tbl)"
proof (rule unique_idsI)
  fix i j
  assume *: "i < length (push_fill ident inp out k tbl)" "j < length (push_fill ident inp out k tbl)"
    "req_id (push_fill ident inp out k tbl ! i) = req_id (push_fill ident inp out k tbl ! j)"
    "req_id (push_fill ident inp out k tbl ! j) \<noteq> -1"
  have "req_id (tbl ! j) \<noteq> ident" "req_id (tbl ! i) \<noteq> ident"
    using assms(2) *(1,2) by (auto simp: ids_iff)
  then show "i = j"
    using * unique_idsD [OF assms(1), of i j] by (auto split: if_splits)
qed

section \<open>The invariant of the pool\<close>

fun pushing :: "pc \<Rightarrow> bool" where
  "pushing (Push_locked _ _ _) = True"
| "pushing (Push_found _ _ _ _) = True"
| "pushing (Push_unlock _) = True"
| "pushing _ = False"

text \<open>What a thread knows at its program counter about a table of \<open>n\<close> requests.\<close>

fun pc_ok :: "Request list \<Rightarrow> pc \<Rightarrow> bool" where
  "pc_ok tbl (Push_found ident inp out k) \<longleftrightarrow>
     k < length tbl \<and> req_id (tbl ! k) = -1 \<and> ident \<notin> req_id ` set tbl \<and> ident \<noteq> -1"
| "pc_ok tbl (Serving k) \<longleftrightarrow> k < length tbl"
| "pc_ok tbl (Waiting k _ _) \<longleftrightarrow> k < length tbl"
| "pc_ok tbl (Wait_clear k) \<longleftrightarrow> k < length tbl"
| "pc_ok tbl _ \<longleftrightarrow> True"

definition pool_inv :: "nat \<Rightarrow> pool \<Rightarrow> bool" where
  "pool_inv n s \<longleftrightarrow>
     length (table s) = n \<and> unique_ids (table s) \<and>
     (\<forall>t. pushing (pcs s t) \<longleftrightarrow> owner s = Some t) \<and>
     (\<forall>t. pc_ok (table s) (pcs s t))"

text \<open>
  Everything that is known about the table without holding the mutex survives a change that fills
  no slot: a change of semaphores, or a slot that becomes free.
\<close>

lemma pc_ok_mono:
  assumes "length tbl' = length tbl"
    and "\<And>j. j < length tbl \<Longrightarrow> req_id (tbl' ! j) = req_id (tbl ! j) \<or> req_id (tbl' ! j) = -1"
    and "pc_ok tbl p"
  shows "pc_ok tbl' p"
proof (cases p)
  case (Push_found ident inp out k)
  have "req_id (tbl' ! j) \<noteq> ident" if "j < length tbl" for j
    using assms(2) [OF that] assms(3) Push_found that by (auto simp: ids_iff)
  then show ?thesis using assms(1,3) assms(2) [of k] Push_found by (auto simp: ids_iff)
qed (use assms in auto)

lemma pc_ok_fill:
  "pc_ok tbl p \<Longrightarrow> \<not> pushing p \<Longrightarrow> pc_ok (push_fill ident inp out k tbl) p"
  by (cases p) auto

lemma inv_change_pc:
  assumes "pool_inv n s" "pushing p \<longleftrightarrow> pushing (pcs s t)" "pc_ok (table s) p"
  shows "pool_inv n (s\<lparr>pcs := (pcs s)(t := p)\<rparr>)"
  using assms by (auto simp: pool_inv_def)

lemma inv_change_table:
  assumes "pool_inv n s" "length tbl' = n" "unique_ids tbl'"
    and "\<And>j. j < n \<Longrightarrow> req_id (tbl' ! j) = req_id (table s ! j) \<or> req_id (tbl' ! j) = -1"
    and "pushing p \<longleftrightarrow> pushing (pcs s t)" "pc_ok tbl' p"
  shows "pool_inv n (s\<lparr>table := tbl', pcs := (pcs s)(t := p)\<rparr>)"
  using assms pc_ok_mono [of tbl' "table s"] by (auto simp: pool_inv_def)

lemma inv_facts: "pool_inv n s \<Longrightarrow> length (table s) = n" "pool_inv n s \<Longrightarrow> unique_ids (table s)"
  by (auto simp: pool_inv_def)

lemma inv_pc_ok: "pool_inv n s \<Longrightarrow> pc_ok (table s) (pcs s t)"
  by (auto simp: pool_inv_def)

lemma inv_owner: "pool_inv n s \<Longrightarrow> pushing (pcs s t) \<longleftrightarrow> owner s = Some t"
  by (auto simp: pool_inv_def)

lemma pool_inv_step: "pool_step s s' \<Longrightarrow> pool_inv n s \<Longrightarrow> pool_inv n s'"
proof (induction rule: pool_step.induct)
  case (push_lock s t ow ident inp out)
  then have "owner s = None" "ow = Some t" by (simp_all add: Mutex_lock_def split: if_splits)
  then show ?case using push_lock(3) by (simp add: pool_inv_def)
next
  case (push_refused s t ident inp out)
  then show ?case by (intro inv_change_pc) simp_all
next
  case (push_found s t ident inp out k)
  then show ?case using push_slot_Some by (intro inv_change_pc) auto
next
  case (push_filled s t ident inp out k)
  note inv = push_filled(2)
  have own: "owner s = Some t" using inv_owner [OF inv, of t] push_filled(1) by simp
  then have other: "pc_ok (push_fill ident inp out k (table s)) (pcs s u)" if "u \<noteq> t" for u
    using that inv_owner [OF inv, of u] inv_pc_ok [OF inv, of u] by (intro pc_ok_fill) simp_all
  have "unique_ids (push_fill ident inp out k (table s))"
    using inv_pc_ok [OF inv, of t] push_filled(1) inv_facts(2) [OF inv] by (intro unique_fill) simp_all
  then show ?case
    using inv_facts(1) [OF inv] other inv_owner [OF inv] own by (simp add: pool_inv_def)
next
  case (push_unlock s t rc ow)
  then have "owner s = Some t" "ow = None" by (simp_all add: Mutex_unlock_def split: if_splits)
  then show ?case using push_unlock(3) by (simp add: pool_inv_def)
next
  case (serve_found s t ident k)
  then show ?case using find_Some by (intro inv_change_pc) auto
next
  case (serve_signal s t k)
  then show ?case
    by (intro inv_change_table) (simp_all add: inv_facts unique_serve)
next
  case (wait_found s t ident k timeout now)
  then show ?case using find_Some by (intro inv_change_pc) auto
next
  case (wait_acquired s t k timeout now m)
  then show ?case
    using inv_pc_ok [OF wait_acquired(3), of t]
    by (intro inv_change_table) (simp_all add: inv_facts unique_served)
next
  case (wait_failed s t k timeout now r m)
  then show ?case by (intro inv_change_pc) simp_all
next
  case (wait_cleared s t k)
  then show ?case
    by (intro inv_change_table) (simp_all add: inv_facts unique_clear)
qed

interpretation pool: step_invariant pool_step "pool_inv n" for n
  by unfold_locales (rule pool_inv_step)

lemma pool_inv_start:
  "RequestPool_new sz name junk = Some tbl \<Longrightarrow> pool_inv (length tbl) (pool_start tbl)"
  by (auto simp: pool_inv_def pool_start_def RequestPool_new_def unique_ids_def Let_def inj_on_def
      split: option.splits)

text \<open>A thread inside of \<open>push\<close> is never stuck.\<close>

lemma pushing_progress:
  assumes "pool_inv n s" "pushing (pcs s t)"
  shows "\<exists>s'. pool_step s s' \<and> pcs s' t \<noteq> pcs s t"
proof (cases "pcs s t")
  case (Push_locked ident inp out)
  show ?thesis
  proof (cases "push_slot ident (table s)")
    case None
    then show ?thesis using pool_step.push_refused [OF Push_locked] Push_locked by fastforce
  next
    case (Some k)
    then show ?thesis using pool_step.push_found [OF Push_locked] Push_locked by fastforce
  qed
next
  case (Push_found ident inp out k)
  then show ?thesis using pool_step.push_filled [OF Push_found] by fastforce
next
  case (Push_unlock rc)
  moreover have "Mutex_unlock t (owner s) = Some None"
    using inv_owner [OF assms(1)] assms(2) by (simp add: Mutex_unlock_def)
  ultimately show ?thesis using pool_step.push_unlock [OF Push_unlock] by fastforce
qed (use assms(2) in auto)

section \<open>One request, from push to wait\<close>

lemma push_result:
  "fst (RequestPool_push ident inp out tbl) =
     (if ident \<notin> req_id ` set tbl \<and> -1 \<in> req_id ` set tbl then 0 else -1)"
  using push_slot_None [of ident tbl]
  by (cases "push_slot ident tbl") (auto simp: RequestPool_push_def)

lemma wait_served:
  assumes "RequestPool_find ident tbl = Some k" "served (tbl ! k) = Suc n"
  shows "RequestPool_wait ident timeout now env tbl =
     Some (0, tbl[k := \<lparr>req_id = -1, inputData = 0, outputData = 0, served = n\<rparr>])"
proof -
  have "k < length tbl" using find_Some [OF assms(1)] by simp
  then show ?thesis
    using assms by (cases "tbl ! k") (simp add: RequestPool_wait_def wait_signalled clear_request_def)
qed

lemma request_cycle:
  assumes "unique_ids tbl" "\<forall>r\<in>set tbl. req_id r = -1 \<longrightarrow> served r = 0"
    and "ident \<notin> req_id ` set tbl" "-1 \<in> req_id ` set tbl"
  obtains k tbl1 where "RequestPool_push ident inp out tbl = (0, tbl1)"
    "RequestPool_find ident tbl1 = Some k" "k < length tbl" "req_id (tbl ! k) = -1"
    "inputData (tbl1 ! k) = inp" "outputData (tbl1 ! k) = out"
    "\<And>now. RequestPool_wait ident (-1) now [] tbl1 = None"
    "\<And>timeout now env. RequestPool_wait ident timeout now env (Request_serve k tbl1) =
       Some (0, tbl[k := \<lparr>req_id = -1, inputData = 0, outputData = 0, served = 0\<rparr>])"
proof -
  obtain k where slot: "push_slot ident tbl = Some k"
    using push_slot_None [of ident tbl] assms(3,4) by (cases "push_slot ident tbl") auto
  note k = push_slot_Some [OF slot]
  define tbl1 where "tbl1 = push_fill ident inp out k tbl"
  have push: "RequestPool_push ident inp out tbl = (0, tbl1)"
    using slot by (simp add: RequestPool_push_def tbl1_def)
  have find: "RequestPool_find ident tbl1 = Some k"
    using unique_find [of tbl1 k ident] unique_fill [OF assms(1) k(3)] k by (simp add: tbl1_def)
  have sv: "served (tbl1 ! k) = 0"
    using assms(2) k(1,2) nth_mem [OF k(1)] by (simp add: tbl1_def push_fill_def)
  have find2: "RequestPool_find ident (Request_serve k tbl1) = Some k"
    using unique_find [of "Request_serve k tbl1" k ident] unique_serve unique_fill [OF assms(1) k(3)] k
    by (simp add: tbl1_def)
  have wait: "RequestPool_wait ident timeout now env (Request_serve k tbl1) =
      Some (0, tbl[k := \<lparr>req_id = -1, inputData = 0, outputData = 0, served = 0\<rparr>])" for timeout now env
    using wait_served [OF find2, of 0] sv k(1)
    by (simp add: Request_serve_def Semaphore_signal_def tbl1_def push_fill_def)
  show ?thesis
    by (rule that [OF push find k(1,2) _ _ _ wait])
      (use k(1) find sv in \<open>simp_all add: tbl1_def push_fill_def RequestPool_wait_def
        Semaphore_wait_def sem_loop.simps\<close>)
qed

section \<open>Properties\<close>

text \<open>
  Property C3. Request numbers stay unique under any interleaving: in every state that any number
  of threads can reach from a new pool by pushing, serving and waiting, the table has its size, no
  two pending requests have the same number, at most one thread is inside of \<open>push\<close>, and such a
  thread can always take its next step.
\<close>

theorem pool_ids_stay_unique:
  assumes "RequestPool_new sz name junk = Some tbl" "pool_step\<^sup>*\<^sup>* (pool_start tbl) s"
  shows "length (table s) = length tbl \<and> unique_ids (table s) \<and>
     (\<forall>t u. pushing (pcs s t) \<and> pushing (pcs s u) \<longrightarrow> t = u) \<and>
     (\<forall>t. pushing (pcs s t) \<longrightarrow> (\<exists>s'. pool_step s s' \<and> pcs s' t \<noteq> pcs s t))"
proof -
  have inv: "pool_inv (length tbl) s"
    using pool.inv_reachable [OF assms(2)] pool_inv_start [OF assms(1)] by blast
  then show ?thesis
    using inv_facts [OF inv] inv_owner [OF inv] pushing_progress [OF inv] by auto
qed

theorem pool_ids_stay_unique_witness:
  "\<exists>tbl s. RequestPool_new 1 (Some ''p'') (\<lambda>_. (0, 0)) = Some tbl \<and>
     pool_step\<^sup>*\<^sup>* (pool_start tbl) s \<and> pcs s 0 = Push_locked 7 0 0 \<and> unique_ids (table s)"
proof -
  define tbl where "tbl = [\<lparr>req_id = -1, inputData = 0, outputData = 0, served = 0\<rparr>]"
  define s where "s = (pool_start tbl)\<lparr>owner := Some 0, pcs := (\<lambda>_. Idle)(0 := Push_locked 7 0 0)\<rparr>"
  have new: "RequestPool_new 1 (Some ''p'') (\<lambda>_. (0, 0)) = Some tbl"
    by (simp add: RequestPool_new_def tbl_def Semaphore_new_def)
  have "pool_step (pool_start tbl) s"
    using pool_step.push_lock [of "pool_start tbl" 0 "Some 0" 7 0 0]
    by (simp add: pool_start_def Mutex_lock_def s_def)
  then have r: "pool_step\<^sup>*\<^sup>* (pool_start tbl) s" by blast
  have "unique_ids (table s)" using pool_ids_stay_unique [OF new r] by blast
  then show ?thesis using new r by (auto simp: s_def)
qed

text \<open>
  Property C19. The life of a request: \<open>push\<close> succeeds exactly for a number that is not in use (so
  never for -1) while a slot is free. If free slots have no pending signal, the request is then
  found with its data, waiting for it without a timeout blocks, \<open>serve\<close> succeeds, and waiting after
  that returns 0 at once and leaves the table as it was before the push, with the slot cleared.
\<close>

theorem pool_request_cycle:
  assumes "unique_ids tbl" "\<forall>r\<in>set tbl. req_id r = -1 \<longrightarrow> served r = 0"
  shows "let (rc, tbl1) = RequestPool_push ident inp out tbl in
     (rc = 0 \<longleftrightarrow> ident \<notin> req_id ` set tbl \<and> -1 \<in> req_id ` set tbl) \<and>
     (rc = 0 \<longrightarrow> (\<exists>k tbl2. RequestPool_find ident tbl1 = Some k \<and> req_id (tbl ! k) = -1 \<and>
        inputData (tbl1 ! k) = inp \<and> outputData (tbl1 ! k) = out \<and>
        RequestPool_wait ident (-1) now [] tbl1 = None \<and>
        RequestPool_serve ident tbl1 = (0, tbl2) \<and>
        RequestPool_wait ident timeout now env tbl2 =
          Some (0, tbl[k := \<lparr>req_id = -1, inputData = 0, outputData = 0, served = 0\<rparr>])))"
proof (cases "ident \<notin> req_id ` set tbl \<and> -1 \<in> req_id ` set tbl")
  case False
  then show ?thesis using push_result [of ident inp out tbl] by (auto split: prod.split)
next
  case True
  then obtain k tbl1 where "RequestPool_push ident inp out tbl = (0, tbl1)"
    "RequestPool_find ident tbl1 = Some k" "req_id (tbl ! k) = -1"
    "inputData (tbl1 ! k) = inp" "outputData (tbl1 ! k) = out"
    "RequestPool_wait ident (-1) now [] tbl1 = None"
    "RequestPool_wait ident timeout now env (Request_serve k tbl1) =
       Some (0, tbl[k := \<lparr>req_id = -1, inputData = 0, outputData = 0, served = 0\<rparr>])"
    using request_cycle [OF assms, of ident] by metis
  then show ?thesis using True by (simp add: RequestPool_serve_def)
qed

theorem pool_request_cycle_witness:
  "\<exists>tbl2. RequestPool_serve 7 (snd (RequestPool_push 7 1 2
       [\<lparr>req_id = -1, inputData = 5, outputData = 5, served = 0\<rparr>])) = (0, tbl2) \<and>
     RequestPool_wait 7 100 0 [] tbl2 =
       Some (0, [\<lparr>req_id = -1, inputData = 0, outputData = 0, served = 0\<rparr>])"
  using pool_request_cycle [of "[\<lparr>req_id = -1, inputData = 5, outputData = 5, served = 0\<rparr>]" 7 1 2 0 100 "[]"]
  by (auto simp: RequestPool_push_def push_slot_def RequestPool_find_def
      RequestPool_findFree_def push_fill_def)

text \<open>
  What a failed wait leaves behind: a wait that does not return 0 changes nothing in
  the table, so the request keeps its slot, although the comment of \<open>wait\<close> promises that it is
  removed even on a timeout; and the code is \<^verbatim>\<open>ERR_GENERIC\<close>, never the documented
  \<^verbatim>\<open>ERR_TIMEOUT\<close>. Once every slot holds such a request every push is refused.
\<close>

theorem pool_failed_wait:
  assumes "RequestPool_wait ident timeout now env tbl = Some (rc, tbl')" "rc \<noteq> 0"
  shows "tbl' = tbl \<and>
     rc = (if ident \<in> req_id ` set tbl then ERR_GENERIC else ERR_WRONG_PARAMETER) \<and>
     (-1 \<notin> req_id ` set tbl \<longrightarrow> RequestPool_push ident' inp out tbl' = (-1, tbl'))"
proof -
  have push: "-1 \<notin> req_id ` set tbl \<Longrightarrow> RequestPool_push ident' inp out tbl = (-1, tbl)"
    using push_slot_None [of ident' tbl] by (simp add: RequestPool_push_def)
  show ?thesis
  proof (cases "RequestPool_find ident tbl")
    case None
    then have "ident \<notin> req_id ` set tbl" by (simp add: find_None)
    then show ?thesis using assms push None by (simp add: RequestPool_wait_def)
  next
    case (Some k)
    then have k: "k < length tbl" "req_id (tbl ! k) = ident" using find_Some by auto
    obtain w n where w: "Semaphore_wait timeout now env (served (tbl ! k)) = Some (w, n)"
      using assms Some by (auto simp: RequestPool_wait_def split: option.splits)
    have "w \<noteq> 0" using assms Some w by (auto simp: RequestPool_wait_def)
    then have "w \<notin> {0, -1}" "n = 0" "served (tbl ! k) = 0" using wait_results [OF w] by auto
    then have "tbl[k := (tbl ! k)\<lparr>served := n\<rparr>] = tbl" by (simp add: list_update_same_conv k)
    then show ?thesis
      using assms Some w k push \<open>w \<notin> {0, -1}\<close> by (auto simp: RequestPool_wait_def)
  qed
qed

theorem pool_failed_wait_witness:
  "RequestPool_wait 7 10 0 [Deadline] [\<lparr>req_id = 7, inputData = 0, outputData = 0, served = 0\<rparr>] =
     Some (ERR_GENERIC, [\<lparr>req_id = 7, inputData = 0, outputData = 0, served = 0\<rparr>]) \<and>
   RequestPool_push 8 0 0 [\<lparr>req_id = 7, inputData = 0, outputData = 0, served = 0\<rparr>] =
     (-1, [\<lparr>req_id = 7, inputData = 0, outputData = 0, served = 0\<rparr>])"
proof -
  have "RequestPool_wait 7 10 0 [Deadline] [\<lparr>req_id = 7, inputData = 0, outputData = 0, served = 0\<rparr>] =
     Some (999, [\<lparr>req_id = 7, inputData = 0, outputData = 0, served = 0\<rparr>])"
    by (simp add: RequestPool_wait_def RequestPool_find_def Semaphore_wait_def sem_loop.simps crem_def err_defs)
  from pool_failed_wait [OF this, of 8 0 0] this show ?thesis by (simp add: err_defs)
qed

text \<open>
  The number -1 marks free slots, and only \<open>push\<close> is safe against it: \<open>serve\<close> and
  \<open>wait\<close> of -1 find a free slot instead of failing with the documented \<^verbatim>\<open>ERR_WRONG_PARAMETER\<close>. A
  \<open>serve\<close> of -1 leaves a signal in the slot that the next push uses, so the wait for that request
  returns 0 although it was never served. A pool without a name cannot be constructed.
\<close>

theorem pool_number_minus_one:
  assumes "unique_ids tbl" "-1 \<in> req_id ` set tbl" "ident \<notin> req_id ` set tbl"
  shows "fst (RequestPool_push (-1) inp out tbl) = -1 \<and>
     (\<exists>tbl1 tbl2 tbl3. RequestPool_serve (-1) tbl = (0, tbl1) \<and>
        RequestPool_push ident inp out tbl1 = (0, tbl2) \<and>
        RequestPool_wait ident timeout now env tbl2 = Some (0, tbl3)) \<and>
     RequestPool_new sz None junk = None"
proof -
  obtain k where k: "RequestPool_find (-1) tbl = Some k"
    using assms(2) find_None [of "-1" tbl] by (cases "RequestPool_find (-1) tbl") auto
  have ids: "map req_id (Request_serve k tbl) = map req_id tbl"
    by (rule nth_equalityI) simp_all
  note same = find_loop_ids [OF ids]
  define tbl2 where "tbl2 = push_fill ident inp out k (Request_serve k tbl)"
  have slot: "push_slot ident (Request_serve k tbl) = Some k"
    using k assms(3)
    by (simp add: push_slot_def RequestPool_find_def RequestPool_findFree_def same find_loop_None)
  note ks = push_slot_Some [OF slot]
  have "RequestPool_find ident tbl2 = Some k"
    using unique_find [of tbl2 k ident] unique_fill [OF unique_serve [OF assms(1)] ks(3)] ks
    by (simp add: tbl2_def)
  moreover have "served (tbl2 ! k) = Suc (served (tbl ! k))"
    using ks(1) by (simp add: tbl2_def push_fill_def Request_serve_def Semaphore_signal_def)
  ultimately have "\<exists>tbl3. RequestPool_wait ident timeout now env tbl2 = Some (0, tbl3)"
    using wait_served by blast
  then show ?thesis
    using k slot push_result [of "-1" inp out tbl]
    by (auto simp: RequestPool_serve_def RequestPool_push_def RequestPool_new_def tbl2_def)
qed

theorem pool_number_minus_one_witness:
  "fst (RequestPool_push (-1) 0 0 [\<lparr>req_id = -1, inputData = 0, outputData = 0, served = 0\<rparr>]) = -1"
  using pool_number_minus_one [of "[\<lparr>req_id = -1, inputData = 0, outputData = 0, served = 0\<rparr>]" 7 0 0,
      THEN conjunct1]
  by simp

end
