(* ===== verification/Ref_Object.thy ===== *)
theory Ref_Object
  imports Teg_Prelude
begin

text \<open>
  The reference-counted base class of LibObject (\<^verbatim>\<open>Object.cpp\<close>). The state is the heap of live
  objects and the static variables of the debug build; \<open>dbg\<close> tells which build is meant. A call
  through a pointer to a destroyed object has no defined result, except that \<open>release\<close> of the debug
  build checks the pointer first. The locale \<open>ref_counted\<close> is the contract of a reference counter,
  which \<^verbatim>\<open>Job.cpp\<close> implements too.
\<close>

record obj =
  obj_refCount :: int
  className :: string
  objectName :: string

record objects =
  heap :: "nat \<rightharpoonup> obj"
  instances :: "nat list"
  instancesCreatedCount :: int
  instancesDestroyedCount :: int
  instancesDuplicatedCount :: int

definition objects_start :: objects where
  "objects_start = \<lparr>heap = Map.empty, instances = [], instancesCreatedCount = 0,
     instancesDestroyedCount = 0, instancesDuplicatedCount = -1\<rparr>"

text \<open>
  The constructor, at a fresh address. A null class name ends the program and a null object name
  is assigned to a \<^verbatim>\<open>std::string\<close>; both have no result.
\<close>

definition Object_new ::
    "bool \<Rightarrow> nat \<Rightarrow> string option \<Rightarrow> string option \<Rightarrow> objects \<Rightarrow> objects run" where
  "Object_new dbg this cls name st = do {
     c \<leftarrow> cls;
     n \<leftarrow> name;
     let st' = st\<lparr>heap := (heap st)(this \<mapsto> \<lparr>obj_refCount = 1, className = c, objectName = n\<rparr>)\<rparr>;
     if dbg
     then do {
       k \<leftarrow> cint_add (instancesCreatedCount st') 1;
       Some (st'\<lparr>instances := List.insert this (instances st'), instancesCreatedCount := k\<rparr>)
     }
     else Some st'
   }"

definition Object_IsPointerCorrect :: "bool \<Rightarrow> nat \<Rightarrow> objects \<Rightarrow> bool" where
  "Object_IsPointerCorrect dbg ptr st = (if dbg then ptr \<in> set (instances st) else True)"

definition Object_destroy :: "bool \<Rightarrow> nat \<Rightarrow> objects \<Rightarrow> objects run" where
  "Object_destroy dbg this st =
     (if \<not> Object_IsPointerCorrect dbg this st then None
      else case heap st this of
             None \<Rightarrow> None
           | Some _ \<Rightarrow>
               let st' = st\<lparr>heap := (heap st)(this := None)\<rparr> in
               if dbg
               then do {
                 k \<leftarrow> cint_add (instancesDestroyedCount st') 1;
                 Some (st'\<lparr>instances := removeAll this (instances st'), instancesDestroyedCount := k\<rparr>)
               }
               else Some st')"

definition Object_GetNumberOfInstances :: "bool \<Rightarrow> objects \<Rightarrow> int" where
  "Object_GetNumberOfInstances dbg st = (if dbg then int (length (instances st)) else -1)"

definition Object_GetCreatedCounter :: "bool \<Rightarrow> objects \<Rightarrow> int" where
  "Object_GetCreatedCounter dbg st = (if dbg then instancesCreatedCount st else -1)"

definition Object_GetDestroyedCounter :: "bool \<Rightarrow> objects \<Rightarrow> int" where
  "Object_GetDestroyedCounter dbg st = (if dbg then instancesDestroyedCount st else -1)"

definition Object_GetDuplicatedCounter :: "bool \<Rightarrow> objects \<Rightarrow> int" where
  "Object_GetDuplicatedCounter dbg st = (if dbg then instancesDuplicatedCount st else -1)"

definition Object_addRef :: "nat \<Rightarrow> objects \<Rightarrow> objects run" where
  "Object_addRef this st = do {
     ob \<leftarrow> heap st this;
     c \<leftarrow> cint_add (obj_refCount ob) 1;
     Some (st\<lparr>heap := (heap st)(this \<mapsto> ob\<lparr>obj_refCount := c\<rparr>)\<rparr>)
   }"

definition Object_release :: "bool \<Rightarrow> nat \<Rightarrow> objects \<Rightarrow> objects run" where
  "Object_release dbg this st =
     (if \<not> Object_IsPointerCorrect dbg this st then Some st
      else do {
        ob \<leftarrow> heap st this;
        c \<leftarrow> cint_add (obj_refCount ob) (-1);
        let st' = st\<lparr>heap := (heap st)(this \<mapsto> ob\<lparr>obj_refCount := c\<rparr>)\<rparr>;
        if c = 0 then Object_destroy dbg this st' else Some st'
      })"

definition Object_getRefCounter :: "nat \<Rightarrow> objects \<Rightarrow> int run" where
  "Object_getRefCounter this st = map_option obj_refCount (heap st this)"

definition Object_getObjectName :: "nat \<Rightarrow> objects \<Rightarrow> string run" where
  "Object_getObjectName this st = map_option objectName (heap st this)"

definition Object_getClassName :: "nat \<Rightarrow> objects \<Rightarrow> string run" where
  "Object_getClassName this st = map_option className (heap st this)"

section \<open>The contract of a reference counter\<close>

datatype ref_op = Add_ref | Release_ref

fun ref_run :: "('s \<Rightarrow> 's run) \<Rightarrow> ('s \<Rightarrow> 's run) \<Rightarrow> ref_op list \<Rightarrow> 's \<Rightarrow> 's run" where
  "ref_run add rel [] s = Some s"
| "ref_run add rel (Add_ref # ops) s = do { s' \<leftarrow> add s; ref_run add rel ops s' }"
| "ref_run add rel (Release_ref # ops) s = do { s' \<leftarrow> rel s; ref_run add rel ops s' }"

text \<open>
  \<open>held n ops = Some m\<close>: a client that owns \<open>n\<close> references and performs \<open>ops\<close> never uses the object
  without owning a reference, never owns more than an \<^verbatim>\<open>int\<close> can count, and owns \<open>m\<close> at the end.
\<close>

fun held :: "nat \<Rightarrow> ref_op list \<Rightarrow> nat option" where
  "held n [] = Some n"
| "held n (Add_ref # ops) = (if n = 0 \<or> int_max \<le> int n then None else held (n + 1) ops)"
| "held n (Release_ref # ops) = (if n = 0 then None else held (n - 1) ops)"

locale ref_counted =
  fixes add :: "'s \<Rightarrow> 's run"
    and rel :: "'s \<Rightarrow> 's run"
    and refs :: "'s \<Rightarrow> nat"
    and inv :: "'s \<Rightarrow> bool"
  assumes add_law: "inv s \<Longrightarrow> 0 < refs s \<Longrightarrow> int (refs s) < int_max \<Longrightarrow>
      \<exists>s'. add s = Some s' \<and> inv s' \<and> refs s' = refs s + 1"
    and rel_law: "inv s \<Longrightarrow> 0 < refs s \<Longrightarrow> \<exists>s'. rel s = Some s' \<and> inv s' \<and> refs s' = refs s - 1"
begin

text \<open>The object lives exactly as long as somebody owns a reference.\<close>

lemma run_held:
  assumes "inv s" "held (refs s) ops = Some m"
  shows "\<exists>s'. ref_run add rel ops s = Some s' \<and> inv s' \<and> refs s' = m"
  using assms
proof (induction "refs s" ops arbitrary: s rule: held.induct)
  case (2 ops)
  then have "0 < refs s" "int (refs s) < int_max" by (auto split: if_splits)
  with add_law [OF "2.prems"(1)] obtain s' where
    "add s = Some s'" "inv s'" "refs s' = refs s + 1" by blast
  then show ?case using 2 by (auto split: if_splits)
next
  case (3 ops)
  then have "0 < refs s" by (auto split: if_splits)
  with rel_law [OF "3.prems"(1)] obtain s' where
    "rel s = Some s'" "inv s'" "refs s' = refs s - 1" by blast
  then show ?case using 3 by (auto split: if_splits)
qed auto

end

section \<open>Objects as reference counters\<close>

definition obj_refs :: "nat \<Rightarrow> objects \<Rightarrow> nat" where
  "obj_refs p st = (case heap st p of None \<Rightarrow> 0 | Some ob \<Rightarrow> nat (obj_refCount ob))"

definition objects_inv :: "bool \<Rightarrow> objects \<Rightarrow> bool" where
  "objects_inv dbg st \<longleftrightarrow>
     finite (dom (heap st)) \<and>
     (\<forall>p ob. heap st p = Some ob \<longrightarrow> 0 < obj_refCount ob \<and> obj_refCount ob \<le> int_max) \<and>
     (dbg \<longrightarrow> distinct (instances st) \<and> set (instances st) = dom (heap st) \<and>
        0 \<le> instancesDestroyedCount st \<and> instancesCreatedCount st \<le> int_max \<and>
        instancesCreatedCount st - instancesDestroyedCount st = int (card (dom (heap st))))"

lemma objects_invD:
  assumes "objects_inv dbg st" "heap st p = Some ob"
  shows "0 < obj_refCount ob" "obj_refCount ob \<le> int_max" "Object_IsPointerCorrect dbg p st"
  using assms by (auto simp: objects_inv_def Object_IsPointerCorrect_def)

lemma inv_set_count:
  assumes "objects_inv dbg st" "heap st p = Some ob" "0 < c" "c \<le> int_max"
  shows "objects_inv dbg (st\<lparr>heap := (heap st)(p \<mapsto> ob\<lparr>obj_refCount := c\<rparr>)\<rparr>)"
proof -
  have "insert p (dom (heap st)) = dom (heap st)" using assms(2) by auto
  then show ?thesis using assms by (auto simp: objects_inv_def)
qed

lemma destroy_inv:
  assumes "objects_inv dbg st" "heap st p = Some ob"
  shows "\<exists>st'. Object_destroy dbg p (st\<lparr>heap := (heap st)(p \<mapsto> ob')\<rparr>) = Some st' \<and> objects_inv dbg st' \<and> heap st' = (heap st)(p := None)"
proof -
  have dom: "p \<in> dom (heap st)" "finite (dom (heap st))" using assms(1,2) by (auto simp: objects_inv_def)
  then have "0 < card (dom (heap st))" by (auto simp: card_gt_0_iff)
  moreover have "Object_IsPointerCorrect dbg p (st\<lparr>heap := (heap st)(p \<mapsto> ob')\<rparr>)"
    using objects_invD(3) [OF assms(1,2)] by (simp add: Object_IsPointerCorrect_def)
  ultimately show ?thesis
    using assms(1) dom
    by (cases dbg)
      (auto simp: Object_destroy_def Let_def objects_inv_def distinct_removeAll card_Diff_singleton_if cint_add_def)
qed

lemma release_cases:
  assumes "objects_inv dbg st" "heap st p = Some ob"
  shows "\<exists>st'. Object_release dbg p st = Some st' \<and> objects_inv dbg st' \<and>
     heap st' = (if obj_refCount ob = 1 then (heap st)(p := None)
                 else (heap st)(p \<mapsto> ob\<lparr>obj_refCount := obj_refCount ob - 1\<rparr>))"
proof -
  note ob = objects_invD [OF assms]
  have c: "cint_add (obj_refCount ob) (-1) = Some (obj_refCount ob - 1)"
    using ob by (simp add: cint_add_def)
  show ?thesis
  proof (cases "obj_refCount ob = 1")
    case True
    then show ?thesis
      using destroy_inv [OF assms, of "ob\<lparr>obj_refCount := 0\<rparr>"] c ob(3) assms(2)
      by (simp add: Object_release_def)
  next
    case False
    then show ?thesis
      using inv_set_count [OF assms, of "obj_refCount ob - 1"] c ob assms(2)
      by (simp add: Object_release_def)
  qed
qed

lemma addRef_case:
  assumes "objects_inv dbg st" "heap st p = Some ob" "obj_refCount ob < int_max"
  shows "\<exists>st'. Object_addRef p st = Some st' \<and> objects_inv dbg st' \<and>
     heap st' = (heap st)(p \<mapsto> ob\<lparr>obj_refCount := obj_refCount ob + 1\<rparr>)"
  using objects_invD [OF assms(1,2)] assms inv_set_count [OF assms(1,2), of "obj_refCount ob + 1"]
  by (simp add: Object_addRef_def cint_add_def)

interpretation object: ref_counted "Object_addRef p" "Object_release dbg p" "obj_refs p" "objects_inv dbg"
  for p dbg
proof unfold_locales
  fix st
  assume inv: "objects_inv dbg st" and pos: "0 < obj_refs p st" and lt: "int (obj_refs p st) < int_max"
  obtain ob where ob: "heap st p = Some ob" using pos by (auto simp: obj_refs_def split: option.splits)
  show "\<exists>s'. Object_addRef p st = Some s' \<and> objects_inv dbg s' \<and> obj_refs p s' = obj_refs p st + 1"
    using addRef_case [OF inv ob] objects_invD(1) [OF inv ob] ob lt by (auto simp: obj_refs_def)
next
  fix st
  assume inv: "objects_inv dbg st" and pos: "0 < obj_refs p st"
  obtain ob where ob: "heap st p = Some ob" using pos by (auto simp: obj_refs_def split: option.splits)
  show "\<exists>s'. Object_release dbg p st = Some s' \<and> objects_inv dbg s' \<and> obj_refs p s' = obj_refs p st - 1"
    using release_cases [OF inv ob] objects_invD(1) [OF inv ob] ob by (auto simp: obj_refs_def)
qed

lemma new_inv:
  assumes "objects_inv dbg st" "heap st p = None" "dbg \<longrightarrow> instancesCreatedCount st < int_max"
  shows "\<exists>st'. Object_new dbg p (Some c) (Some n) st = Some st' \<and> objects_inv dbg st' \<and> obj_refs p st' = 1 \<and>
     (\<forall>q. q \<noteq> p \<longrightarrow> heap st' q = heap st q)"
  using assms
  by (cases dbg) (auto simp: Object_new_def Let_def objects_inv_def obj_refs_def domIff List.insert_def cint_add_def)

section \<open>Properties\<close>

text \<open>
  Property C18. A new object lives exactly as long as it is referenced: after any sequence of
  \<open>addRef\<close> and \<open>release\<close> calls whose caller owns a reference at every call and never more than an
  \<^verbatim>\<open>int\<close> can count, in both builds, no call is undefined; the object exists with its counter equal
  to the number of references owned, or it is destroyed if that number is 0, and the debug statistics
  agree with the heap. In the debug build fewer than \<open>INT_MAX\<close> objects were created before, since the
  counter of the created objects is a signed \<^verbatim>\<open>int\<close> whose overflow is undefined.
\<close>

theorem object_lives_while_referenced:
  assumes "objects_inv dbg st" "heap st p = None" "held 1 ops = Some m"
    and "dbg \<longrightarrow> Object_GetCreatedCounter dbg st < int_max"
  shows "\<exists>st1 st2. Object_new dbg p (Some c) (Some n) st = Some st1 \<and>
     ref_run (Object_addRef p) (Object_release dbg p) ops st1 = Some st2 \<and>
     (if m = 0 then heap st2 p = None else Object_getRefCounter p st2 = Some (int m)) \<and>
     (dbg \<longrightarrow> Object_GetNumberOfInstances dbg st2 =
        Object_GetCreatedCounter dbg st2 - Object_GetDestroyedCounter dbg st2)"
proof -
  obtain st1 where st1: "Object_new dbg p (Some c) (Some n) st = Some st1" "objects_inv dbg st1" "obj_refs p st1 = 1"
    using new_inv [OF assms(1,2), of c n] assms(4) by (cases dbg) (auto simp: Object_GetCreatedCounter_def)
  then obtain st2 where st2: "ref_run (Object_addRef p) (Object_release dbg p) ops st1 = Some st2"
    "objects_inv dbg st2" "obj_refs p st2 = m"
    using object.run_held [OF st1(2), of p ops m] assms(3) by auto
  have "if m = 0 then heap st2 p = None else Object_getRefCounter p st2 = Some (int m)"
    using st2(2,3) objects_invD(1) [OF st2(2), of p]
    by (cases "heap st2 p") (fastforce simp: obj_refs_def Object_getRefCounter_def)+
  moreover have "dbg \<Longrightarrow> length (instances st2) = card (dom (heap st2))"
    using st2(2) by (metis distinct_card objects_inv_def)
  ultimately show ?thesis
    using st1(1) st2
    by (auto simp: objects_inv_def Object_GetNumberOfInstances_def Object_GetCreatedCounter_def
        Object_GetDestroyedCounter_def)
qed

theorem object_lives_while_referenced_witness:
  "\<exists>st1 st2. Object_new True 5 (Some ''C'') (Some ''o'') objects_start = Some st1 \<and>
     ref_run (Object_addRef 5) (Object_release True 5) [Add_ref, Release_ref, Release_ref] st1 = Some st2 \<and>
     heap st2 5 = None"
  using object_lives_while_referenced
    [of True objects_start 5 "[Add_ref, Release_ref, Release_ref]" 0 "''C''" "''o''"]
  by (auto simp: objects_inv_def objects_start_def Object_GetCreatedCounter_def)

text \<open>
  Releasing a destroyed object: the debug build reports it and changes nothing, however
  often it happens; in the release build the call has no defined result, and in both builds neither
  has \<open>addRef\<close>.
\<close>

theorem object_release_dangling:
  assumes "objects_inv dbg st" "heap st p = None"
  shows "Object_release dbg p st = (if dbg then Some st else None) \<and> Object_addRef p st = None"
  using assms
  by (auto simp: Object_release_def Object_IsPointerCorrect_def objects_inv_def Object_addRef_def domIff)

theorem object_release_dangling_witness:
  "Object_release True 5 objects_start = Some objects_start \<and> Object_addRef 5 objects_start = None"
  using object_release_dangling [of True objects_start 5] by (simp add: objects_inv_def objects_start_def)

end
