(* ===== verification/Teg_Job.thy ===== *)
theory Teg_Job
  imports Ref_Object
begin

text \<open>
  The background jobs of LibJob (\<^verbatim>\<open>Job.cpp\<close>). The methods are functions on the object; the
  constructor, the worker thread and the user of the job are cut into the actions that can
  interleave, and \<open>job_act\<close> executes one action. The callbacks are code of the client: the worker
  callback is any sequence of state and error code changes, the notify callback is the list of the
  notifications sent. The progress meter is a floating point number and is left out.
\<close>

definition JOB_STATE_ERROR :: int where "JOB_STATE_ERROR = 1"
definition JOB_STATE_INITIALIZING :: int where "JOB_STATE_INITIALIZING = 2"
definition JOB_STATE_PENDING :: int where "JOB_STATE_PENDING = 3"
definition JOB_STATE_FINISHED :: int where "JOB_STATE_FINISHED = 4"
definition JOB_STATE_STOPPED :: int where "JOB_STATE_STOPPED = 5"
definition JOB_NOTIFY_STATE_CHANGED :: int where "JOB_NOTIFY_STATE_CHANGED = 1"

lemmas job_state_defs = JOB_STATE_ERROR_def JOB_STATE_INITIALIZING_def JOB_STATE_PENDING_def
  JOB_STATE_FINISHED_def JOB_STATE_STOPPED_def

record job =
  job_state :: int
  errorCode :: int
  refCount :: int
  notify :: bool
  notified :: "(int \<times> int) list"
  deleted :: nat

text \<open>\<open>deleted\<close> counts how often the destructor was entered.\<close>

definition Job_triggerNotifyCallback :: "int \<Rightarrow> job \<Rightarrow> job" where
  "Job_triggerNotifyCallback code j =
     (if notify j then j\<lparr>notified := notified j @ [(code, job_state j)]\<rparr> else j)"

definition Job_setState :: "int \<Rightarrow> job \<Rightarrow> job" where
  "Job_setState st j = Job_triggerNotifyCallback JOB_NOTIFY_STATE_CHANGED (j\<lparr>job_state := st\<rparr>)"

definition Job_getState :: "job \<Rightarrow> int" where
  "Job_getState j = job_state j"

definition Job_getStateString :: "job \<Rightarrow> string" where
  "Job_getStateString j =
     (if job_state j = JOB_STATE_ERROR then ''Error''
      else if job_state j = JOB_STATE_INITIALIZING then ''Initializing''
      else if job_state j = JOB_STATE_PENDING then ''Pending''
      else if job_state j = JOB_STATE_FINISHED then ''Finished''
      else if job_state j = JOB_STATE_STOPPED then ''Stopped''
      else ''Unknown'')"

definition Job_cancel :: "job \<Rightarrow> job" where
  "Job_cancel j = Job_setState JOB_STATE_STOPPED j"

definition Job_getErrorCode :: "job \<Rightarrow> int" where
  "Job_getErrorCode j = errorCode j"

definition Job_setErrorCode :: "int \<Rightarrow> job \<Rightarrow> job" where
  "Job_setErrorCode code j = j\<lparr>errorCode := code\<rparr>"

definition Job_addRef :: "job \<Rightarrow> job run" where
  "Job_addRef j = do { c \<leftarrow> cint_add (refCount j) 1; Some (j\<lparr>refCount := c\<rparr>) }"

definition Job_release :: "job \<Rightarrow> job run" where
  "Job_release j = do {
     c \<leftarrow> cint_add (refCount j) (-1);
     let j' = j\<lparr>refCount := c\<rparr>;
     Some (if c = 0 then j'\<lparr>deleted := deleted j' + 1\<rparr> else j')
   }"

text \<open>
  The constructor up to the creation of the worker thread; \<open>junk\<close> is the uninitialised error code.
\<close>

definition Job_new :: "bool \<Rightarrow> int \<Rightarrow> job" where
  "Job_new cb junk =
     Job_setState JOB_STATE_INITIALIZING
       \<lparr>job_state = junk, errorCode = junk, refCount = 1, notify = cb, notified = [], deleted = 0\<rparr>"

text \<open>
  \<open>Job::wait\<close> polls the state every 50 ms; \<open>obs\<close> lists what the polls see, and \<^const>\<open>None\<close> means
  that it is still polling at the end of the list.
\<close>

fun wait_loop :: "int \<Rightarrow> int \<Rightarrow> int list \<Rightarrow> int option" where
  "wait_loop timeout timeLeft [] = None"
| "wait_loop timeout timeLeft (st # obs) =
     (if st = JOB_STATE_INITIALIZING \<or> st = JOB_STATE_PENDING
      then if 0 < timeout
           then let timeLeft' = timeLeft - 50
                in if timeLeft' \<le> 0 then Some (-1) else wait_loop timeout timeLeft' obs
           else wait_loop timeout timeLeft obs
      else Some 0)"

definition Job_wait :: "int \<Rightarrow> int list \<Rightarrow> int option" where
  "Job_wait timeout obs = wait_loop timeout timeout obs"

section \<open>Threads\<close>

datatype ctor_pc = C_create | C_zero | C_done
datatype worker_pc = W_none | W_start | W_state | W_work | W_release | W_end

text \<open>
  \<open>user_refs\<close> counts the references that the user of the job owns, \<open>joining\<close> tells that the user is
  inside the destructor and waits for the worker thread, and \<open>closed\<close> counts how often the handle of
  the worker thread was closed.
\<close>

record job_sys =
  this :: job
  ctor :: ctor_pc
  worker :: worker_pc
  user_refs :: nat
  joining :: bool
  closed :: nat

text \<open>
  The destructor: \<^verbatim>\<open>ThreadWait\<close> blocks the user until the worker thread has ended and refuses to wait
  for its own thread; then \<^verbatim>\<open>ThreadClose\<close> closes the handle. This is the Windows branch of
  \<^verbatim>\<open>Thread.cpp\<close>; the other one ends the program.
\<close>

definition Job_destroy :: "bool \<Rightarrow> job_sys \<Rightarrow> job_sys" where
  "Job_destroy own s = (if own then s\<lparr>closed := closed s + 1\<rparr> else s\<lparr>joining := True\<rparr>)"

definition sys_release :: "bool \<Rightarrow> job_sys \<Rightarrow> job_sys option" where
  "sys_release own s =
     map_option (\<lambda>j. (if refCount j = 0 then Job_destroy own else id) (s\<lparr>this := j\<rparr>)) (Job_release (this s))"

datatype job_action =
    Create_thread | Zero_stats
  | Worker_ref | Worker_pending | Worker_state int | Worker_error int | Worker_return | Worker_release
  | User_cancel | User_ref | User_release | User_joined

text \<open>One action, \<^const>\<open>None\<close> if it is not possible.\<close>

fun job_act :: "job_action \<Rightarrow> job_sys \<Rightarrow> job_sys option" where
  "job_act Create_thread s =
     (if ctor s = C_create then Some (s\<lparr>ctor := C_zero, worker := W_start\<rparr>) else None)"
| "job_act Zero_stats s =
     (if ctor s = C_zero
      then Some (s\<lparr>this := (this s)\<lparr>errorCode := 0\<rparr>, ctor := C_done, user_refs := 1\<rparr>) else None)"
| "job_act Worker_ref s =
     (if worker s = W_start
      then map_option (\<lambda>j. s\<lparr>this := j, worker := W_state\<rparr>) (Job_addRef (this s)) else None)"
| "job_act Worker_pending s =
     (if worker s = W_state
      then Some (s\<lparr>this := Job_setState JOB_STATE_PENDING (this s), worker := W_work\<rparr>) else None)"
| "job_act (Worker_state st) s =
     (if worker s = W_work then Some (s\<lparr>this := Job_setState st (this s)\<rparr>) else None)"
| "job_act (Worker_error e) s =
     (if worker s = W_work then Some (s\<lparr>this := Job_setErrorCode e (this s)\<rparr>) else None)"
| "job_act Worker_return s =
     (if worker s = W_work then Some (s\<lparr>worker := W_release\<rparr>) else None)"
| "job_act Worker_release s =
     (if worker s = W_release then sys_release True (s\<lparr>worker := W_end\<rparr>) else None)"
| "job_act User_cancel s =
     (if ctor s = C_done \<and> 0 < user_refs s then Some (s\<lparr>this := Job_cancel (this s)\<rparr>) else None)"
| "job_act User_ref s =
     (if ctor s = C_done \<and> 0 < user_refs s
      then map_option (\<lambda>j. s\<lparr>this := j, user_refs := user_refs s + 1\<rparr>) (Job_addRef (this s)) else None)"
| "job_act User_release s =
     (if ctor s = C_done \<and> 0 < user_refs s then sys_release False (s\<lparr>user_refs := user_refs s - 1\<rparr>) else None)"
| "job_act User_joined s =
     (if joining s \<and> worker s = W_end then Some (s\<lparr>joining := False, closed := closed s + 1\<rparr>) else None)"

fun job_run :: "job_action list \<Rightarrow> job_sys \<Rightarrow> job_sys option" where
  "job_run [] s = Some s"
| "job_run (a # as) s = do { s' \<leftarrow> job_act a s; job_run as s' }"

definition job_begin :: "bool \<Rightarrow> int \<Rightarrow> job_sys" where
  "job_begin cb junk =
     \<lparr>this = Job_new cb junk, ctor = C_create, worker = W_none, user_refs = 0, joining = False, closed = 0\<rparr>"

text \<open>The user gave up the last reference although the worker thread has not taken its own yet.\<close>

definition orphaned :: "job_sys \<Rightarrow> bool" where
  "orphaned s \<longleftrightarrow> worker s = W_start \<and> ctor s = C_done \<and> user_refs s = 0"

definition job_step :: "job_sys \<Rightarrow> job_sys \<Rightarrow> bool" where
  "job_step s s' \<longleftrightarrow> (\<exists>a. job_act a s = Some s')"

definition kept_step :: "job_sys \<Rightarrow> job_sys \<Rightarrow> bool" where
  "kept_step s s' \<longleftrightarrow> job_step s s' \<and> \<not> orphaned s'"

lemma job_run_append: "job_run (as @ bs) s = do { s' \<leftarrow> job_run as s; job_run bs s' }"
  by (induction as arbitrary: s) (auto split: bind_splits)

lemma job_run_snoc:
  "job_run (as @ [a]) s = Some s' \<Longrightarrow> \<exists>s1. job_run as s = Some s1 \<and> job_act a s1 = Some s'"
  by (auto simp: job_run_append bind_eq_Some_conv)

lemma job_run_steps: "job_run as s = Some s' \<Longrightarrow> job_step\<^sup>*\<^sup>* s s'"
proof (induction as arbitrary: s' rule: rev_induct)
  case (snoc a as)
  then obtain s1 where "job_run as s = Some s1" "job_act a s1 = Some s'" using job_run_snoc by blast
  then have "job_step\<^sup>*\<^sup>* s s1" "job_step s1 s'" using snoc.IH unfolding job_step_def by blast+
  then show ?case by (rule rtranclp.rtrancl_into_rtrancl)
qed simp

lemma job_run_kept:
  assumes "job_run as s = Some s'" "\<And>k s1. job_run (take k as) s = Some s1 \<Longrightarrow> \<not> orphaned s1"
  shows "kept_step\<^sup>*\<^sup>* s s'"
  using assms
proof (induction as arbitrary: s' rule: rev_induct)
  case (snoc a as)
  then obtain s1 where s1: "job_run as s = Some s1" "job_act a s1 = Some s'" using job_run_snoc by blast
  have "\<not> orphaned s2" if "job_run (take k as) s = Some s2" for k s2
    using snoc.prems(2) [of "min k (length as)" s2] that by (cases "k \<le> length as") simp_all
  then have "kept_step\<^sup>*\<^sup>* s s1" using snoc.IH [OF s1(1)] by blast
  moreover have "kept_step s1 s'" using s1(2) snoc.prems(1) snoc.prems(2) [of "Suc (length as)" s']
    unfolding kept_step_def job_step_def by auto
  ultimately show ?case by (rule rtranclp.rtrancl_into_rtrancl)
qed simp

section \<open>The reference counter\<close>

lemma setState_frame [simp]:
  "refCount (Job_setState st j) = refCount j" "deleted (Job_setState st j) = deleted j"
  "errorCode (Job_setState st j) = errorCode j" "job_state (Job_setState st j) = st"
  by (simp_all add: Job_setState_def Job_triggerNotifyCallback_def)

definition job_ok :: "job \<Rightarrow> bool" where
  "job_ok j \<longleftrightarrow> 0 \<le> refCount j \<and> refCount j \<le> int_max \<and> deleted j = (if refCount j = 0 then 1 else 0)"

lemma job_ok_changes [simp]:
  "job_ok (Job_setState st j) = job_ok j" "job_ok (Job_cancel j) = job_ok j"
  "job_ok (Job_setErrorCode e j) = job_ok j" "job_ok (j\<lparr>errorCode := e\<rparr>) = job_ok j"
  "refCount (Job_cancel j) = refCount j" "refCount (Job_setErrorCode e j) = refCount j"
  "deleted (Job_cancel j) = deleted j" "deleted (Job_setErrorCode e j) = deleted j"
  by (simp_all add: job_ok_def Job_cancel_def Job_setErrorCode_def)

lemma addRef_ok:
  "job_ok j \<Longrightarrow> 0 < refCount j \<Longrightarrow> Job_addRef j = Some j' \<Longrightarrow>
     job_ok j' \<and> refCount j' = refCount j + 1"
  by (auto simp: job_ok_def Job_addRef_def cint_add_def bind_eq_Some_conv split: if_splits)

lemma release_ok:
  "job_ok j \<Longrightarrow> 0 < refCount j \<Longrightarrow> Job_release j = Some j' \<Longrightarrow>
     job_ok j' \<and> refCount j' = refCount j - 1"
  by (auto simp: job_ok_def Job_release_def cint_add_def bind_eq_Some_conv Let_def split: if_splits)

interpretation job: ref_counted Job_addRef Job_release "\<lambda>j. nat (refCount j)" job_ok
proof unfold_locales
  fix j
  assume j: "job_ok j" "0 < nat (refCount j)" "int (nat (refCount j)) < int_max"
  then have "Job_addRef j = Some (j\<lparr>refCount := refCount j + 1\<rparr>)"
    by (simp add: Job_addRef_def cint_add_def)
  then show "\<exists>s'. Job_addRef j = Some s' \<and> job_ok s' \<and> nat (refCount s') = nat (refCount j) + 1"
    using addRef_ok [of j] j by fastforce
next
  fix j
  assume j: "job_ok j" "0 < nat (refCount j)"
  then obtain j' where "Job_release j = Some j'"
    by (auto simp: Job_release_def cint_add_def job_ok_def Let_def)
  then show "\<exists>s'. Job_release j = Some s' \<and> job_ok s' \<and> nat (refCount s') = nat (refCount j) - 1"
    using release_ok [of j j'] j by fastforce
qed

definition worker_refs :: "worker_pc \<Rightarrow> int" where
  "worker_refs w = (if w \<in> {W_state, W_work, W_release} then 1 else 0)"

definition dtor_runs :: "job_sys \<Rightarrow> nat" where
  "dtor_runs s = closed s + (if joining s then 1 else 0)"

definition sys_inv :: "job_sys \<Rightarrow> bool" where
  "sys_inv s \<longleftrightarrow>
     job_ok (this s) \<and> dtor_runs s = deleted (this s) \<and>
     refCount (this s) = worker_refs (worker s) + (if ctor s = C_done then int (user_refs s) else 1) \<and>
     (worker s \<in> {W_none, W_start} \<longrightarrow> ctor s = C_done \<longrightarrow> 0 < user_refs s) \<and>
     (worker s = W_none \<longleftrightarrow> ctor s = C_create)"

text \<open>Giving up a reference, by the worker or by the user.\<close>

lemma sys_release_ok:
  assumes "sys_release own s = Some s'" "job_ok (this s)" "0 < refCount (this s)" "dtor_runs s = deleted (this s)" "own \<or> \<not> joining s"
  shows "job_ok (this s') \<and> refCount (this s') = refCount (this s) - 1 \<and> dtor_runs s' = deleted (this s') \<and>
    ctor s' = ctor s \<and> worker s' = worker s \<and> user_refs s' = user_refs s"
proof -
  obtain j where j: "Job_release (this s) = Some j" "s' = (if refCount j = 0 then Job_destroy own else id) (s\<lparr>this := j\<rparr>)"
    using assms(1) by (auto simp: sys_release_def)
  note r = release_ok [OF assms(2,3) j(1)]
  have "deleted (this s) = 0" using assms(2,3) by (simp add: job_ok_def)
  then show ?thesis using r j(2) assms(4,5) by (cases own) (auto simp: Job_destroy_def dtor_runs_def job_ok_def)
qed

lemma sys_inv_act:
  assumes act: "job_act a s = Some s'" and inv: "sys_inv s" and kept: "\<not> orphaned s'"
  shows "sys_inv s'"
proof (cases a)
  case Worker_ref
  with act obtain j where "worker s = W_start" "Job_addRef (this s) = Some j"
    "s' = s\<lparr>this := j, worker := W_state\<rparr>"
    by (auto split: if_splits)
  then show ?thesis
    using inv addRef_ok [of "this s" j] by (auto simp: sys_inv_def worker_refs_def dtor_runs_def job_ok_def split: if_splits)
next
  case Worker_release
  then have w: "worker s = W_release" "sys_release True (s\<lparr>worker := W_end\<rparr>) = Some s'" using act by (auto split: if_splits)
  have pos: "0 < refCount (this s)" using inv w(1) by (simp add: sys_inv_def worker_refs_def)
  show ?thesis using sys_release_ok [OF w(2)] inv w(1) pos
    by (simp add: sys_inv_def worker_refs_def dtor_runs_def)
next
  case User_ref
  with act obtain j where "ctor s = C_done" "0 < user_refs s" "Job_addRef (this s) = Some j"
    "s' = s\<lparr>this := j, user_refs := user_refs s + 1\<rparr>"
    by (auto split: if_splits)
  then show ?thesis
    using inv addRef_ok [of "this s" j] by (auto simp: sys_inv_def worker_refs_def dtor_runs_def job_ok_def split: if_splits)
next
  case User_release
  then have u: "ctor s = C_done" "0 < user_refs s" "sys_release False (s\<lparr>user_refs := user_refs s - 1\<rparr>) = Some s'"
    using act by (auto split: if_splits)
  have pos: "0 < refCount (this s)" using inv u(1,2) by (simp add: sys_inv_def worker_refs_def)
  then have "\<not> joining s" "deleted (this s) = 0" using inv by (auto simp: sys_inv_def dtor_runs_def job_ok_def split: if_splits)
  then show ?thesis using sys_release_ok [OF u(3)] inv kept u(1,2) pos
    by (cases "worker s") (simp_all add: sys_inv_def worker_refs_def dtor_runs_def orphaned_def)
next
  case User_joined
  then have "joining s" "s' = s\<lparr>joining := False, closed := closed s + 1\<rparr>" using act by (simp_all split: if_splits)
  then show ?thesis using inv by (simp add: sys_inv_def dtor_runs_def)
next
  case Zero_stats
  then have "ctor s = C_zero" "s' = s\<lparr>this := (this s)\<lparr>errorCode := 0\<rparr>, ctor := C_done, user_refs := 1\<rparr>"
    using act by (simp_all split: if_splits)
  then show ?thesis using inv by (simp add: sys_inv_def dtor_runs_def)
qed (use act inv in \<open>clarsimp simp: sys_inv_def dtor_runs_def worker_refs_def split: if_split_asm\<close>)+

interpretation job_sys: step_invariant kept_step sys_inv
  by unfold_locales (auto simp: kept_step_def job_step_def intro: sys_inv_act)

lemma sys_inv_begin: "sys_inv (job_begin cb junk)"
  by (simp add: sys_inv_def job_begin_def job_ok_def Job_new_def worker_refs_def dtor_runs_def)

text \<open>After the last reference was given up too early, the user waits and the worker destroys the object again.\<close>

definition lost_inv :: "job_sys \<Rightarrow> bool" where
  "lost_inv s \<longleftrightarrow> ctor s = C_done \<and> user_refs s = 0 \<and> worker s \<noteq> W_none \<and> refCount (this s) = worker_refs (worker s) \<and>
     deleted (this s) = (if worker s = W_end then 2 else 1) \<and> dtor_runs s = deleted (this s) \<and>
     (worker s \<noteq> W_end \<longrightarrow> joining s)"

lemma lost_inv_act:
  assumes "job_act a s = Some s'" "lost_inv s"
  shows "lost_inv s'"
  using assms
  by (cases a) (auto simp: lost_inv_def worker_refs_def dtor_runs_def Job_addRef_def Job_release_def sys_release_def
      Job_destroy_def cint_add_def Job_setErrorCode_def Job_cancel_def split: if_splits)

interpretation lost_job: step_invariant job_step lost_inv
  by unfold_locales (auto simp: job_step_def intro: lost_inv_act)

lemma run_inv:
  assumes "job_run as (job_begin cb junk) = Some s"
  shows "sys_inv s \<or> lost_inv s"
  using assms
proof (induction as arbitrary: s rule: rev_induct)
  case Nil
  then show ?case using sys_inv_begin [of cb junk] by simp
next
  case (snoc a as)
  then obtain s1 where s1: "job_run as (job_begin cb junk) = Some s1" "job_act a s1 = Some s" using job_run_snoc by blast
  from snoc.IH [OF s1(1)] show ?case
  proof
    assume "lost_inv s1"
    then show ?thesis using lost_inv_act [OF s1(2)] by simp
  next
    assume inv: "sys_inv s1"
    show ?thesis
    proof (cases "orphaned s")
      case False
      then show ?thesis using sys_inv_act [OF s1(2) inv] by simp
    next
      case True
      have "lost_inv s"
        using True s1(2) inv
        by (cases a) (auto simp: lost_inv_def orphaned_def sys_inv_def worker_refs_def dtor_runs_def Job_addRef_def
            Job_release_def sys_release_def Job_destroy_def cint_add_def job_ok_def split: if_splits)
      then show ?thesis by simp
    qed
  qed
qed

section \<open>Properties\<close>

text \<open>
  Property C15. Whether the job object outlives its worker. In every interleaving of the constructor,
  the worker thread and the user in which the user never gives up the last reference before the worker
  thread has taken its own, the counter is the number of references owned, the destructor is entered
  exactly once, when neither the user nor the worker owns a reference any more, in particular never
  while the worker callback runs; it closes the handle of the thread once, and the user never waits in
  it for a worker that still runs. In every interleaving in which the user gives it up earlier, as the
  comment of \<open>cancel\<close> recommends right after the creation, the destructor runs under the working thread
  and is entered a second time by it.
\<close>

theorem job_outlives_worker:
  assumes run: "job_run as (job_begin cb junk) = Some s"
  shows "((\<forall>k s1. job_run (take k as) (job_begin cb junk) = Some s1 \<longrightarrow> \<not> orphaned s1) \<longrightarrow>
     deleted (this s) = (if ctor s = C_done \<and> user_refs s = 0 \<and> worker s = W_end then 1 else 0) \<and>
     (worker s \<in> {W_state, W_work, W_release} \<longrightarrow> 0 < refCount (this s)) \<and>
     (ctor s = C_done \<longrightarrow> refCount (this s) = worker_refs (worker s) + int (user_refs s)) \<and>
     closed s = (if joining s then 0 else deleted (this s)) \<and>
     (joining s \<longrightarrow> (\<exists>s'. job_act User_joined s = Some s'))) \<and>
    (\<forall>k s1. job_run (take k as) (job_begin cb junk) = Some s1 \<longrightarrow> orphaned s1 \<longrightarrow>
       deleted (this s1) = 1 \<and> deleted (this s) = (if worker s = W_end then 2 else 1))"
proof (intro conjI impI allI)
  fix k s1
  assume s1: "job_run (take k as) (job_begin cb junk) = Some s1" "orphaned s1"
  then have l: "lost_inv s1" using run_inv [OF s1(1)] by (auto simp: orphaned_def sys_inv_def)
  then show "deleted (this s1) = 1" using s1(2) by (simp add: lost_inv_def orphaned_def)
  have "job_run (drop k as) s1 = Some s" using run s1(1) job_run_append [of "take k as" "drop k as"] by simp
  then have "lost_inv s" using lost_job.inv_reachable [OF job_run_steps l] by blast
  then show "deleted (this s) = (if worker s = W_end then 2 else 1)" by (simp add: lost_inv_def)
next
  assume "\<forall>k s1. job_run (take k as) (job_begin cb junk) = Some s1 \<longrightarrow> \<not> orphaned s1"
  then have inv: "sys_inv s" using job_sys.inv_reachable [OF job_run_kept [OF run] sys_inv_begin] by blast
  then show d: "deleted (this s) = (if ctor s = C_done \<and> user_refs s = 0 \<and> worker s = W_end then 1 else 0)"
    by (cases "worker s") (auto simp: sys_inv_def job_ok_def worker_refs_def split: if_splits)
  show "closed s = (if joining s then 0 else deleted (this s))"
    using inv d by (auto simp: sys_inv_def dtor_runs_def split: if_splits)
  show "0 < refCount (this s)" if "worker s \<in> {W_state, W_work, W_release}"
    using inv that by (auto simp: sys_inv_def worker_refs_def split: if_splits)
  show "refCount (this s) = worker_refs (worker s) + int (user_refs s)" if "ctor s = C_done"
    using inv that by (simp add: sys_inv_def)
  show "\<exists>s'. job_act User_joined s = Some s'" if "joining s"
    using inv d that by (auto simp: sys_inv_def dtor_runs_def split: if_splits)
qed

theorem job_outlives_worker_witness:
  "(\<exists>s. job_run [Create_thread, Zero_stats, Worker_ref, User_cancel, User_release, Worker_pending, Worker_return,
       Worker_release] (job_begin False 0) = Some s \<and> deleted (this s) = 1 \<and> closed s = 1) \<and>
   (\<exists>s. job_run [Create_thread, Zero_stats, User_cancel, User_release, Worker_ref, Worker_pending, Worker_return,
       Worker_release] (job_begin False 0) = Some s \<and> deleted (this s) = 2)"
proof
  let ?good = "[Create_thread, Zero_stats, Worker_ref, User_cancel, User_release, Worker_pending, Worker_return, Worker_release]"
  let ?bad = "[Create_thread, Zero_stats, User_cancel, User_release, Worker_ref, Worker_pending, Worker_return, Worker_release]"
  note defs = job_begin_def Job_new_def Job_addRef_def Job_release_def cint_add_def Job_cancel_def sys_release_def Job_destroy_def
  obtain s where s: "job_run ?good (job_begin False 0) = Some s" "worker s = W_end" "ctor s = C_done" "user_refs s = 0" "\<not> joining s"
    by (simp add: defs)
  have "\<forall>k s1. job_run (take k ?good) (job_begin False 0) = Some s1 \<longrightarrow> \<not> orphaned s1"
    by (auto simp: take_Cons' orphaned_def defs)
  then show "\<exists>s. job_run ?good (job_begin False 0) = Some s \<and> deleted (this s) = 1 \<and> closed s = 1"
    using job_outlives_worker [OF s(1)] s by simp
  obtain s where s: "job_run ?bad (job_begin False 0) = Some s" "worker s = W_end" by (simp add: defs)
  obtain s1 where s1: "job_run (take 4 ?bad) (job_begin False 0) = Some s1" "orphaned s1" by (simp add: defs orphaned_def)
  show "\<exists>s. job_run ?bad (job_begin False 0) = Some s \<and> deleted (this s) = 2"
    using job_outlives_worker [OF s(1), THEN conjunct2, rule_format, OF s1] s by simp
qed

text \<open>
  Waiting for a job: with a positive timeout \<open>wait\<close> always returns, at the latest at
  poll number \<open>timeout / 50\<close> rounded up; it returns 0 exactly if one of the polls before that sees
  a job that is neither initializing nor pending, and else -1. With any other timeout, also with
  0, it never gives up.
\<close>

theorem job_wait_returns:
  assumes "(timeout + 49) div 50 \<le> int (length obs)"
  shows "(if 0 < timeout
      then Job_wait timeout obs =
        Some (if \<exists>st\<in>set (take (nat ((timeout + 49) div 50)) obs).
                   st \<notin> {JOB_STATE_INITIALIZING, JOB_STATE_PENDING} then 0 else -1)
      else Job_wait timeout obs =
        (if \<exists>st\<in>set obs. st \<notin> {JOB_STATE_INITIALIZING, JOB_STATE_PENDING} then Some 0 else None))"
proof -
  have limited: "wait_loop timeout left obs =
      Some (if \<exists>st\<in>set (take (nat ((left + 49) div 50)) obs).
                 st \<notin> {JOB_STATE_INITIALIZING, JOB_STATE_PENDING} then 0 else -1)"
    if "0 < timeout" "0 < left" "(left + 49) div 50 \<le> int (length obs)" for left
    using that
  proof (induction timeout left obs rule: wait_loop.induct)
    case (2 timeout left st obs)
    have n: "nat ((left + 49) div 50) = Suc (nat ((left - 50 + 49) div 50))"
      if "50 < left" using that by linarith
    show ?case
    proof (cases "left \<le> 50")
      case True
      then have "nat ((left + 49) div 50) = 1" using "2.prems" by linarith
      then show ?thesis using "2.prems" True by simp
    next
      case False
      then show ?thesis using 2 n by (auto simp: Let_def)
    qed
  qed simp
  have unlimited: "wait_loop timeout left obs =
      (if \<exists>st\<in>set obs. st \<notin> {JOB_STATE_INITIALIZING, JOB_STATE_PENDING} then Some 0 else None)"
    if "\<not> 0 < timeout" for left
    using that by (induction timeout left obs rule: wait_loop.induct) auto
  show ?thesis using limited unlimited assms by (simp add: Job_wait_def)
qed

theorem job_wait_returns_witness:
  "Job_wait 75 [JOB_STATE_PENDING, JOB_STATE_PENDING] = Some (-1) \<and>
   Job_wait 75 [JOB_STATE_PENDING, JOB_STATE_FINISHED] = Some 0"
  using job_wait_returns [of 75 "[JOB_STATE_PENDING, JOB_STATE_PENDING]"]
    job_wait_returns [of 75 "[JOB_STATE_PENDING, JOB_STATE_FINISHED]"]
  by (simp add: job_state_defs)

text \<open>
  Three races. The constructor starts the worker before it clears the error code, so
  the code of a job that fails at once can be lost; \<open>cancel\<close> before the worker marks the job as
  pending has no effect; and a user who cancels and releases the job right after its creation, as
  the comment of \<open>cancel\<close> recommends, can make the destructor run twice.
\<close>

theorem job_races:
  "(\<exists>as s. Worker_error e \<in> set as \<and> job_run as (job_begin cb junk) = Some s \<and>
      Job_getState (this s) = JOB_STATE_ERROR \<and> worker s = W_release \<and> Job_getErrorCode (this s) = 0) \<and>
   (\<exists>as s. User_cancel \<in> set as \<and> job_run as (job_begin cb junk) = Some s \<and>
      Job_getState (this s) = JOB_STATE_PENDING \<and> worker s = W_work) \<and>
   (\<exists>s. job_run [Create_thread, Zero_stats, User_cancel, User_release, Worker_ref, Worker_pending,
          Worker_return, Worker_release] (job_begin cb junk) = Some s \<and> deleted (this s) = 2)"
proof (intro conjI)
  show "\<exists>as s. Worker_error e \<in> set as \<and> job_run as (job_begin cb junk) = Some s \<and>
      Job_getState (this s) = JOB_STATE_ERROR \<and> worker s = W_release \<and> Job_getErrorCode (this s) = 0"
    by (rule exI [of _ "[Create_thread, Worker_ref, Worker_pending, Worker_error e,
          Worker_state JOB_STATE_ERROR, Worker_return, Zero_stats]"])
      (simp add: job_begin_def Job_new_def Job_addRef_def cint_add_def Job_getState_def
        Job_getErrorCode_def Job_setErrorCode_def)
  show "\<exists>as s. User_cancel \<in> set as \<and> job_run as (job_begin cb junk) = Some s \<and>
      Job_getState (this s) = JOB_STATE_PENDING \<and> worker s = W_work"
    by (rule exI [of _ "[Create_thread, Zero_stats, User_cancel, Worker_ref, Worker_pending]"])
      (simp add: job_begin_def Job_new_def Job_addRef_def cint_add_def Job_getState_def Job_cancel_def)
  show "\<exists>s. job_run [Create_thread, Zero_stats, User_cancel, User_release, Worker_ref, Worker_pending,
      Worker_return, Worker_release] (job_begin cb junk) = Some s \<and> deleted (this s) = 2"
    by (simp add: job_begin_def Job_new_def Job_addRef_def Job_release_def cint_add_def Job_cancel_def sys_release_def Job_destroy_def)
qed

end
