(* ===== verification/Str_Verify.thy ===== *)
theory Str_Verify
  imports C_String Teg_Error
begin

text \<open>
  The validators of LibStr (\<^verbatim>\<open>Verify.cpp\<close>). Arguments are C strings, \<^const>\<open>None\<close> for \<^verbatim>\<open>NULL\<close>;
  \<^verbatim>\<open>char\<close> is signed, so the comparisons see bytes from 128 as negative numbers.
\<close>

definition STR_MIN_LOGIN_LEN :: nat where "STR_MIN_LOGIN_LEN = 1"
definition STR_MAX_LOGIN_LEN :: nat where "STR_MAX_LOGIN_LEN = 60"
definition STR_MIN_PASS_LEN :: nat where "STR_MIN_PASS_LEN = 6"
definition STR_MAX_PASS_LEN :: nat where "STR_MAX_PASS_LEN = 20"

lemmas str_len_defs = STR_MIN_LOGIN_LEN_def STR_MAX_LOGIN_LEN_def STR_MIN_PASS_LEN_def
  STR_MAX_PASS_LEN_def

definition schar :: "char \<Rightarrow> int" where
  "schar c = (if (of_char c :: nat) < 128 then int (of_char c) else int (of_char c) - 256)"

definition StrEmailVerify :: "string option \<Rightarrow> int" where
  "StrEmailVerify email =
     (case email of
        None \<Rightarrow> ERR_VERIFY_WRONG_FORMAT
      | Some s \<Rightarrow>
          (case strchr s (CHR ''@'') of
             None \<Rightarrow> ERR_VERIFY_WRONG_FORMAT
           | Some at \<Rightarrow>
               if at = 0 then ERR_VERIFY_WRONG_FORMAT
               else if drop (at + 1) s = [] then ERR_VERIFY_WRONG_FORMAT
               else if strchr s (CHR 0x27) \<noteq> None then ERR_VERIFY_WRONG_CHAR
               else if strchr s (CHR ''('') \<noteq> None \<or> strchr s (CHR '')'') \<noteq> None
                    then ERR_VERIFY_COMMENT_FORBIDDEN
               else if strchr s (CHR ''+'') \<noteq> None then ERR_VERIFY_ALIAS_FORBIDDEN
               else 0))"

definition login_char :: "char \<Rightarrow> bool" where
  "login_char c \<longleftrightarrow> isupper c \<or> islower c \<or> isdigit c \<or>
     c = CHR ''-'' \<or> c = CHR ''_'' \<or> c = CHR ''@'' \<or> c = CHR ''.''"

fun login_loop :: "string \<Rightarrow> int" where
  "login_loop [] = 0"
| "login_loop (c # s) = (if login_char c then login_loop s else ERR_VERIFY_WRONG_CHAR)"

definition StrLoginVerify :: "string option \<Rightarrow> int" where
  "StrLoginVerify login =
     (case login of
        None \<Rightarrow> ERR_VERIFY_WRONG_FORMAT
      | Some s \<Rightarrow>
          if length s < STR_MIN_LOGIN_LEN then ERR_VERIFY_TOO_SHORT
          else if length s > STR_MAX_LOGIN_LEN then ERR_VERIFY_TOO_LONG
          else login_loop s)"

fun pass_loop :: "string \<Rightarrow> int" where
  "pass_loop [] = 0"
| "pass_loop (c # s) = (if schar c < 32 \<or> schar c > 125 then ERR_VERIFY_WRONG_CHAR else pass_loop s)"

definition StrPassVerify :: "string option \<Rightarrow> int" where
  "StrPassVerify pass =
     (case pass of
        None \<Rightarrow> ERR_VERIFY_WRONG_FORMAT
      | Some s \<Rightarrow>
          if length s < STR_MIN_PASS_LEN then ERR_VERIFY_TOO_SHORT
          else if length s > STR_MAX_PASS_LEN then ERR_VERIFY_TOO_LONG
          else pass_loop s)"

record pass_flags =
  hasUpper :: bool
  hasLower :: bool
  hasSymbol :: bool
  hasSpecial :: bool
  hasNumber :: bool

definition pass_symbol :: "char \<Rightarrow> bool" where
  "pass_symbol c \<longleftrightarrow> schar c \<in> {33..47} \<union> {58..64} \<union> {91..96}"

definition pass_special :: "char \<Rightarrow> bool" where
  "pass_special c \<longleftrightarrow> schar c \<in> {123..126}"

definition pass_scan :: "pass_flags \<Rightarrow> char \<Rightarrow> pass_flags" where
  "pass_scan fl c =
     (if isupper c then fl\<lparr>hasUpper := True\<rparr>
      else if islower c then fl\<lparr>hasLower := True\<rparr>
      else if pass_symbol c then fl\<lparr>hasSymbol := True\<rparr>
      else if pass_special c then fl\<lparr>hasSpecial := True\<rparr>
      else if isdigit c then fl\<lparr>hasNumber := True\<rparr>
      else fl)"

definition StrPassStrength :: "string option \<Rightarrow> int" where
  "StrPassStrength pass =
     (case pass of
        None \<Rightarrow> 0
      | Some s \<Rightarrow>
          if length s < 6 then 0
          else let fl = foldl pass_scan \<lparr>hasUpper = False, hasLower = False, hasSymbol = False,
                                         hasSpecial = False, hasNumber = False\<rparr> s
               in of_bool (hasUpper fl) + of_bool (hasLower fl) + of_bool (hasNumber fl) +
                  of_bool (hasSymbol fl) + of_bool (hasSpecial fl) + of_bool (length s > 12))"

section \<open>Scans\<close>

lemma login_loop_0: "login_loop s = (if \<forall>c\<in>set s. login_char c then 0 else ERR_VERIFY_WRONG_CHAR)"
  by (induction s) auto

lemma pass_loop_0:
  "pass_loop s = (if \<forall>c\<in>set s. (of_char c :: nat) \<in> {32..125} then 0 else ERR_VERIFY_WRONG_CHAR)"
proof -
  have "\<not> (schar c < 32 \<or> schar c > 125) \<longleftrightarrow> (of_char c :: nat) \<in> {32..125}" for c
  proof -
    define n where "n = (of_char c :: nat)"
    have "n < 256" by (simp add: n_def)
    then show ?thesis by (auto simp: schar_def n_def [symmetric])
  qed
  then show ?thesis by (induction s) auto
qed

text \<open>The classes of characters that \<open>StrPassStrength\<close> tells apart exclude each other.\<close>

lemma pass_classes:
  "pass_symbol c \<Longrightarrow> \<not> isupper c \<and> \<not> islower c"
  "pass_special c \<Longrightarrow> \<not> isupper c \<and> \<not> islower c \<and> \<not> pass_symbol c"
  "isdigit c \<Longrightarrow> \<not> isupper c \<and> \<not> islower c \<and> \<not> pass_symbol c \<and> \<not> pass_special c"
  "islower c \<Longrightarrow> \<not> isupper c"
  using nat_of_char_less_256 [of c]
  by (auto simp: pass_symbol_def pass_special_def schar_def ctype_defs split: if_splits)

lemma pass_scan_eq:
  "pass_scan fl c =
     fl\<lparr>hasUpper := hasUpper fl \<or> isupper c, hasLower := hasLower fl \<or> islower c,
        hasSymbol := hasSymbol fl \<or> pass_symbol c, hasSpecial := hasSpecial fl \<or> pass_special c,
        hasNumber := hasNumber fl \<or> isdigit c\<rparr>"
  using pass_classes [of c] by (auto simp: pass_scan_def)

lemma pass_scan_fold:
  "foldl pass_scan fl s =
     fl\<lparr>hasUpper := hasUpper fl \<or> (\<exists>c\<in>set s. isupper c),
        hasLower := hasLower fl \<or> (\<exists>c\<in>set s. islower c),
        hasSymbol := hasSymbol fl \<or> (\<exists>c\<in>set s. pass_symbol c),
        hasSpecial := hasSpecial fl \<or> (\<exists>c\<in>set s. pass_special c),
        hasNumber := hasNumber fl \<or> (\<exists>c\<in>set s. isdigit c)\<rparr>"
  by (induction s arbitrary: fl) (auto simp: pass_scan_eq)

section \<open>Properties\<close>

text \<open>
  What the validators accept, and the code of the first check that fails: a login has
  1 to 60 characters, all of them letters, digits or one of \<^verbatim>\<open>-_@.\<close>; a password has 6 to 20
  characters with codes from 32 to 125; an e-mail address has a character before and after its first
  \<^verbatim>\<open>@\<close> and no quote, parenthesis or plus sign. A null pointer has the wrong format.
\<close>

theorem verify_decides:
  "StrLoginVerify (Some s) =
     (if length s < 1 then ERR_VERIFY_TOO_SHORT else if 60 < length s then ERR_VERIFY_TOO_LONG
      else if \<forall>c\<in>set s. isalnum c \<or> c \<in> set ''-_@.'' then 0 else ERR_VERIFY_WRONG_CHAR) \<and>
   StrPassVerify (Some s) =
     (if length s < 6 then ERR_VERIFY_TOO_SHORT else if 20 < length s then ERR_VERIFY_TOO_LONG
      else if \<forall>c\<in>set s. (of_char c :: nat) \<in> {32..125} then 0 else ERR_VERIFY_WRONG_CHAR) \<and>
   (StrEmailVerify (Some s) = 0 \<longleftrightarrow>
     (\<exists>user host. s = user @ ''@'' @ host \<and> CHR ''@'' \<notin> set user \<and> user \<noteq> [] \<and> host \<noteq> []) \<and>
     set s \<inter> {CHR 0x27, CHR ''('', CHR '')'', CHR ''+''} = {}) \<and>
   StrLoginVerify None = ERR_VERIFY_WRONG_FORMAT \<and> StrPassVerify None = ERR_VERIFY_WRONG_FORMAT \<and>
   StrEmailVerify None = ERR_VERIFY_WRONG_FORMAT"
proof -
  have "login_char c \<longleftrightarrow> isalnum c \<or> c \<in> set ''-_@.''" for c
    by (auto simp: login_char_def isalnum_def isalpha_def)
  then have login: "login_loop s = (if \<forall>c\<in>set s. isalnum c \<or> c \<in> set ''-_@.'' then 0 else ERR_VERIFY_WRONG_CHAR)"
    by (simp add: login_loop_0)
  have at: "(\<exists>i. strchr s (CHR ''@'') = Some i \<and> i \<noteq> 0 \<and> drop (i + 1) s \<noteq> []) \<longleftrightarrow>
      (\<exists>user host. s = user @ ''@'' @ host \<and> CHR ''@'' \<notin> set user \<and> user \<noteq> [] \<and> host \<noteq> [])"
    (is "?l \<longleftrightarrow> ?r")
  proof
    assume ?l
    then have "CHR ''@'' \<in> set s" by (auto simp: strchr_def split: if_splits)
    then obtain user host where s: "s = user @ ''@'' @ host" "CHR ''@'' \<notin> set user"
      using split_list_first [of "CHR ''@''" s] by auto
    then have "strchr s (CHR ''@'') = Some (length user)" by (simp add: strchr_append)
    then show ?r using \<open>?l\<close> s by auto
  next
    assume ?r
    then obtain user host where s: "s = user @ ''@'' @ host" "CHR ''@'' \<notin> set user" "user \<noteq> []" "host \<noteq> []"
      by auto
    then have "strchr s (CHR ''@'') = Some (length user)" by (simp add: strchr_append)
    then show ?l using s by auto
  qed
  have "StrEmailVerify (Some s) = 0 \<longleftrightarrow>
      (\<exists>i. strchr s (CHR ''@'') = Some i \<and> i \<noteq> 0 \<and> drop (i + 1) s \<noteq> []) \<and>
      set s \<inter> {CHR 0x27, CHR ''('', CHR '')'', CHR ''+''} = {}"
    by (auto simp: StrEmailVerify_def strchr_None err_defs dest: strchr_SomeD split: option.split)
  then show ?thesis
    unfolding at
    by (simp add: StrLoginVerify_def StrPassVerify_def StrEmailVerify_def login pass_loop_0 str_len_defs
        del: drop_eq_Nil)
qed

theorem verify_decides_witness:
  "StrLoginVerify (Some ''joe@x'') = 0 \<and> StrPassVerify (Some ''joe@x'') = ERR_VERIFY_TOO_SHORT \<and>
   StrEmailVerify (Some ''joe@x'') = 0"
proof -
  have "\<forall>c\<in>set ''joe@x''. isalnum c \<or> c \<in> set ''-_@.''" by (simp add: ctype_defs)
  moreover have "set ''joe@x'' \<inter> {CHR 0x27, CHR ''('', CHR '')'', CHR ''+''} = {}" by simp
  moreover have "\<exists>user host. ''joe@x'' = user @ ''@'' @ host \<and> CHR ''@'' \<notin> set user \<and> user \<noteq> [] \<and> host \<noteq> []"
    by (rule exI [of _ "''joe''"], rule exI [of _ "''x''"]) simp
  ultimately show ?thesis
    using verify_decides [of "''joe@x''"] by simp
qed

text \<open>
  The strength of a password is the number of the character classes it uses (upper
  case, lower case, digits, symbols, braces and tilde) plus one for more than 12 characters, and 0
  below 6 characters; so it lies between 0 and 6 as documented.
\<close>

theorem pass_strength_counts:
  "StrPassStrength (Some s) =
     (if length s < 6 then 0
      else int (length (filter (\<lambda>p. \<exists>c\<in>set s. p c)
             [isupper, islower, isdigit, pass_symbol, pass_special])) + of_bool (12 < length s)) \<and>
   0 \<le> StrPassStrength p \<and> StrPassStrength p \<le> 6"
proof -
  have "StrPassStrength (Some s) =
     (if length s < 6 then 0
      else int (length (filter (\<lambda>p. \<exists>c\<in>set s. p c)
             [isupper, islower, isdigit, pass_symbol, pass_special])) + of_bool (12 < length s))"
    by (simp add: StrPassStrength_def pass_scan_fold)
  moreover have "0 \<le> StrPassStrength p \<and> StrPassStrength p \<le> 6"
    by (cases p) (auto simp: StrPassStrength_def Let_def of_bool_def)
  ultimately show ?thesis by blast
qed

end
