(* ===== verification/Str_Find.thy ===== *)
theory Str_Find
  imports C_String
begin

text \<open>
  The search functions of LibStr (\<^verbatim>\<open>Find.cpp\<close>). Where the code compares characters without looking
  for the end of the string first, the argument is given as its block of memory, the characters and
  the terminating zero, and a read behind the block has no defined result. A pointer into a string
  is an index. A loop that does not end is a \<open>partial_function\<close> with the value \<^const>\<open>None\<close>.
\<close>

text \<open>\<^verbatim>\<open>c | 32\<close>, which folds letters to lower case, but also the zero byte to a space.\<close>

definition or32 :: "char \<Rightarrow> nat" where
  "or32 c = of_char c OR 32"

text \<open>The inner loop of \<open>stristr\<close> on the memory from \<^verbatim>\<open>a\<close> and from \<^verbatim>\<open>b\<close> on.\<close>

fun ismatch :: "string \<Rightarrow> string \<Rightarrow> bool run" where
  "ismatch (x # a) (y # b) =
     (if or32 x = or32 y
      then (case b of [] \<Rightarrow> None | z # _ \<Rightarrow> if z = nul then Some True else ismatch a b)
      else Some False)"
| "ismatch _ _ = None"

fun stristr_loop :: "nat \<Rightarrow> string \<Rightarrow> string \<Rightarrow> nat option run" where
  "stristr_loop i (c # mem) pat =
     (if c = nul then Some None
      else do {
        found \<leftarrow> ismatch (c # mem) (pat @ [nul]);
        if found then Some (Some i) else stristr_loop (i + 1) mem pat
      })"
| "stristr_loop i [] pat = None"

definition stristr :: "string \<Rightarrow> string \<Rightarrow> nat option run" where
  "stristr arg1 arg2 = stristr_loop 0 (arg1 @ [nul]) arg2"

text \<open>
  The word searches: \<open>prev\<close> is the character before the position, \<^const>\<open>None\<close> at the start. When a
  match fails the test for a whole word the comparison goes on behind the end of the pattern.
\<close>

fun word_match :: "(char \<Rightarrow> char \<Rightarrow> bool) \<Rightarrow> char option \<Rightarrow> string \<Rightarrow> string \<Rightarrow> bool run" where
  "word_match eq prev (x # a) (y # b) =
     (if eq x y
      then (case b of
              [] \<Rightarrow> None
            | z # _ \<Rightarrow>
                if z = nul then
                  (case prev of
                     None \<Rightarrow> Some True
                   | Some q \<Rightarrow>
                       if isalpha q then word_match eq prev a b
                       else (case a of
                               [] \<Rightarrow> None
                             | w # _ \<Rightarrow> if w = nul \<or> \<not> isalpha w then Some True
                                        else word_match eq prev a b))
                else word_match eq prev a b)
      else Some False)"
| "word_match eq prev _ _ = None"

fun word_loop :: "(char \<Rightarrow> char \<Rightarrow> bool) \<Rightarrow> char option \<Rightarrow> nat \<Rightarrow> string \<Rightarrow> string \<Rightarrow> nat option run" where
  "word_loop eq prev i (c # mem) pat =
     (if c = nul then Some None
      else do {
        found \<leftarrow> word_match eq prev (c # mem) (pat @ [nul]);
        if found then Some (Some i) else word_loop eq (Some c) (i + 1) mem pat
      })"
| "word_loop eq prev i [] pat = None"

definition StrFindIWord :: "string \<Rightarrow> string \<Rightarrow> nat option run" where
  "StrFindIWord arg1 arg2 = word_loop (\<lambda>x y. or32 x = or32 y) None 0 (arg1 @ [nul]) arg2"

definition StrFindWord :: "string \<Rightarrow> string \<Rightarrow> nat option run" where
  "StrFindWord arg1 arg2 = word_loop (\<lambda>x y. x = y) None 0 (arg1 @ [nul]) arg2"

definition StrGetTextBeetwen :: "string option \<Rightarrow> string option \<Rightarrow> string option \<Rightarrow> string" where
  "StrGetTextBeetwen buf startStr endStr =
     (case (buf, startStr, endStr) of
        (Some b, Some s, Some e) \<Rightarrow>
          if s = [] \<or> e = [] then []
          else (case strstr b s of
                  None \<Rightarrow> []
                | Some start \<Rightarrow>
                    let rest = drop (start + length s) b in
                    (case strstr rest e of None \<Rightarrow> [] | Some n \<Rightarrow> take n rest))
      | _ \<Rightarrow> [])"

definition strstrex :: "string option \<Rightarrow> string \<Rightarrow> nat option" where
  "strstrex s pattern =
     (case s of None \<Rightarrow> None | Some t \<Rightarrow> map_option (\<lambda>i. i + length pattern) (strstr t pattern))"

definition strchrex :: "string option \<Rightarrow> char \<Rightarrow> nat option" where
  "strchrex s pattern = (case s of None \<Rightarrow> None | Some t \<Rightarrow> map_option Suc (strchr t pattern))"

text \<open>The loop of \<open>StrFindCharMulti\<close> never moves \<^verbatim>\<open>p\<close>.\<close>

partial_function (option) find_multi_loop :: "string \<Rightarrow> string \<Rightarrow> nat option \<Rightarrow> nat option option" where
  "find_multi_loop p chars ret =
     (if p \<noteq> [] \<and> ret = None
      then find_multi_loop p chars (if hd p \<in> set chars then Some 0 else None)
      else Some ret)"

definition StrFindCharMulti :: "string option \<Rightarrow> string option \<Rightarrow> bool \<Rightarrow> nat option option" where
  "StrFindCharMulti p chars zeroByteMatch =
     (case (p, chars) of
        (Some s, Some cs) \<Rightarrow>
          (case find_multi_loop s cs None of
             None \<Rightarrow> None
           | Some ret \<Rightarrow> Some (if s = [] \<and> zeroByteMatch then Some 0 else ret))
      | _ \<Rightarrow> Some None)"

section \<open>Searching without case\<close>

text \<open>Characters that \<^verbatim>\<open>| 32\<close> does not confuse with the terminating zero.\<close>

definition no_space :: "string \<Rightarrow> bool" where
  "no_space pat \<longleftrightarrow> (\<forall>c\<in>set pat. or32 c \<noteq> 32)"

lemma or32_nul: "or32 nul = 32"
  by (simp add: or32_def)

lemma no_space_c_str: "no_space pat \<Longrightarrow> c \<in> set pat \<Longrightarrow> c \<noteq> nul"
  by (auto simp: no_space_def or32_nul)

lemma ismatch_prefix:
  assumes "pat \<noteq> []" "no_space pat"
  shows "ismatch (s @ [nul]) (pat @ [nul]) =
     Some (length pat \<le> length s \<and> map or32 (take (length pat) s) = map or32 pat)"
  using assms
proof (induction pat arbitrary: s)
  case (Cons y pat)
  show ?case
  proof (cases s)
    case Nil
    then show ?thesis using Cons.prems by (auto simp: no_space_def or32_nul)
  next
    case (Cons x s')
    show ?thesis
    proof (cases pat)
      case Nil
      then show ?thesis using Cons by simp
    next
      case (Cons z pat')
      then have "z \<noteq> nul" using no_space_c_str [OF Cons.prems(2)] by auto
      then show ?thesis
        using Cons.IH [of s'] Cons.prems \<open>s = x # s'\<close> Cons by (auto simp: no_space_def)
    qed
  qed
qed simp

text \<open>The first position at which the pattern matches with \<^verbatim>\<open>| 32\<close> applied to both sides.\<close>

fun first_match :: "string \<Rightarrow> string \<Rightarrow> nat option" where
  "first_match [] pat = None"
| "first_match (c # s) pat =
     (if length pat \<le> length (c # s) \<and> map or32 (take (length pat) (c # s)) = map or32 pat then Some 0
      else map_option Suc (first_match s pat))"

lemma stristr_loop_first:
  assumes "pat \<noteq> []" "no_space pat" "is_c_str s"
  shows "stristr_loop i (s @ [nul]) pat = Some (map_option (\<lambda>k. i + k) (first_match s pat))"
  using assms(3)
proof (induction s arbitrary: i)
  case (Cons c s)
  have "ismatch (c # s @ [nul]) (pat @ [nul]) =
      Some (length pat \<le> length (c # s) \<and> map or32 (take (length pat) (c # s)) = map or32 pat)"
    using ismatch_prefix [OF assms(1,2), of "c # s"] by simp
  moreover have "c \<noteq> nul" "is_c_str s" using Cons.prems by (auto simp: cstr_simps)
  ultimately show ?case
    using Cons.IH [of "Suc i"] by (cases "first_match s pat") auto
qed simp

lemma first_match_spec:
  "case first_match s pat of
     None \<Rightarrow> \<forall>i < length s. map or32 (take (length pat) (drop i s)) \<noteq> map or32 pat
   | Some k \<Rightarrow> map or32 (take (length pat) (drop k s)) = map or32 pat \<and>
       (\<forall>i < k. map or32 (take (length pat) (drop i s)) \<noteq> map or32 pat)"
proof (induction s)
  case (Cons c s)
  let ?at = "\<lambda>i t. map or32 (take (length pat) (drop i t)) = map or32 pat"
  have fit: "?at 0 (c # s) \<Longrightarrow> length pat \<le> length (c # s)"
    by (drule arg_cong [of _ _ length]) simp
  show ?case
  proof (cases "?at 0 (c # s)")
    case True
    then show ?thesis using fit by simp
  next
    case False
    have "first_match (c # s) pat = map_option Suc (first_match s pat)" using False by auto
    then show ?thesis
      using False Cons by (cases "first_match s pat") (auto simp: less_Suc_eq_0_disj)
  qed
qed simp

text \<open>A text compared with a pattern that starts with the whole text.\<close>

lemma ismatch_same:
  assumes "is_c_str s" "b \<noteq> []" "hd b \<noteq> nul"
  shows "ismatch (s @ a) (s @ b) = ismatch a b"
  using assms(1)
proof (induction s)
  case (Cons c s)
  have "\<exists>z zs. s @ b = z # zs \<and> z \<noteq> nul"
    using assms(2,3) Cons.prems by (cases s; cases b) (auto simp: cstr_simps)
  then show ?case using Cons by (auto simp: cstr_simps)
qed simp

lemma find_multi_done: "p = [] \<or> ret \<noteq> None \<Longrightarrow> find_multi_loop p chars ret = Some ret"
  by (subst find_multi_loop.simps) auto

lemma find_multi_hit: "p \<noteq> [] \<Longrightarrow> hd p \<in> set chars \<Longrightarrow> find_multi_loop p chars None = Some (Some 0)"
  by (subst find_multi_loop.simps) (simp add: find_multi_done)

lemma find_multi_returns:
  assumes "find_multi_loop p chars ret = Some r"
  shows "p = [] \<or> ret \<noteq> None \<or> hd p \<in> set chars"
  by (rule find_multi_loop.raw_induct [OF _ assms, where P = "\<lambda>p chars ret r. p = [] \<or> ret \<noteq> None \<or> hd p \<in> set chars"])
    (auto split: if_splits)

section \<open>Properties\<close>

text \<open>
  \<open>stristr\<close> finds the first occurrence: for a non-empty pattern without spaces the search
  stays inside of both strings and returns the smallest position at which pattern and text agree up
  to bit 5 of their characters, that is up to the case of letters. With a pattern that ends in a
  space it reports a match at the end of a text that has no such space, and with a space inside of
  the pattern it can read behind the text.
\<close>

theorem stristr_finds_first:
  assumes "pat \<noteq> []" "no_space pat" "is_c_str s" "s \<noteq> []"
  shows "stristr s pat = Some (first_match s pat) \<and>
     (case first_match s pat of
        None \<Rightarrow> \<forall>i < length s. map or32 (take (length pat) (drop i s)) \<noteq> map or32 pat
      | Some k \<Rightarrow> map or32 (take (length pat) (drop k s)) = map or32 pat \<and>
          (\<forall>i < k. map or32 (take (length pat) (drop i s)) \<noteq> map or32 pat)) \<and>
     stristr s (s @ '' '') = Some (Some 0) \<and> stristr s (s @ '' !'') = None"
proof -
  have sp: "or32 (CHR '' '') = 32" by (simp add: or32_def)
  obtain c t where s: "s = c # t" "c \<noteq> nul" using assms(3,4) by (cases s) (auto simp: cstr_simps)
  have "ismatch (s @ [nul]) (s @ [CHR '' '', nul]) = Some True"
    "ismatch (s @ [nul]) (s @ [CHR '' '', CHR ''!'', nul]) = None"
    using assms(3) by (simp_all add: ismatch_same or32_nul sp)
  then have "stristr s (s @ '' '') = Some (Some 0)" "stristr s (s @ '' !'') = None"
    using s by (simp_all add: stristr_def)
  moreover have "stristr s pat = Some (first_match s pat)"
    using stristr_loop_first [OF assms(1-3), of 0] by (simp add: stristr_def option.map_ident)
  ultimately show ?thesis using first_match_spec [of s pat] by blast
qed

theorem stristr_finds_first_witness:
  "stristr ''say Hello'' ''hello'' = Some (first_match ''say Hello'' ''hello'') \<and>
   stristr ''say Hello'' ''say Hello '' = Some (Some 0)"
  using stristr_finds_first [of "''hello''" "''say Hello''"]
  by (simp add: no_space_def or32_def is_c_str_def)

text \<open>
  \<open>StrFindCharMulti\<close> does not search: it returns only for an empty text or if already the
  first character is one of those wanted; in every other case its loop runs for ever, because the
  pointer is never moved.
\<close>

theorem find_char_multi_loops:
  "StrFindCharMulti (Some p) (Some chars) z =
     (if p = [] then Some (if z then Some 0 else None)
      else if hd p \<in> set chars then Some (Some 0) else None)"
proof (cases "p = [] \<or> hd p \<in> set chars")
  case True
  then show ?thesis
    by (cases "p = []") (simp_all add: StrFindCharMulti_def find_multi_done find_multi_hit)
next
  case False
  then show ?thesis
    using find_multi_returns [of p chars None]
    by (cases "find_multi_loop p chars None") (auto simp: StrFindCharMulti_def)
qed

end
