(* ===== verification/Str_Text.thy ===== *)
theory Str_Text
  imports Str_Find
begin

text \<open>
  The text editing functions of LibStr (\<^verbatim>\<open>Str.cpp\<close>). Functions that work in place are given the
  block of memory, with reads and writes outside of it undefined; \<^verbatim>\<open>std::string\<close> arguments are
  their characters. Lengths are natural numbers, that is strings are shorter than 2 GB. The
  overlapping \<^verbatim>\<open>strcpy\<close> of the remove functions is read as the copy from low to high addresses it is
  meant to be.
\<close>

definition STR_HTML_NON_BREAK_SPACES :: nat where
  "STR_HTML_NON_BREAK_SPACES = 1"

section \<open>Dynamic C strings\<close>

definition StringSet :: "string option \<Rightarrow> string option \<Rightarrow> string option" where
  "StringSet destination source = (case source of None \<Rightarrow> None | Some s \<Rightarrow> Some s)"

definition opt_len :: "string option \<Rightarrow> nat" where
  "opt_len s = (case s of None \<Rightarrow> 0 | Some t \<Rightarrow> length t)"

definition copy_opt :: "string \<Rightarrow> nat \<Rightarrow> string option \<Rightarrow> string run" where
  "copy_opt mem pos src =
     (case src of None \<Rightarrow> Some mem | Some s \<Rightarrow> memcpy mem pos (s @ [nul]) 0 (length s + 1))"

text \<open>\<open>junk\<close> is the content of the new block. The result is the new block, if one was needed.\<close>

definition StringAdd ::
    "(nat \<Rightarrow> string) \<Rightarrow> string option \<Rightarrow> string option \<Rightarrow> string option \<Rightarrow> string option \<Rightarrow> string option \<Rightarrow>
     string option run" where
  "StringAdd junk dest s1 s2 s3 s4 =
     (let len = opt_len dest + opt_len s1 + opt_len s2 + opt_len s3 + opt_len s4 in
      if len = 0 then Some (map_option (\<lambda>d. d @ [nul]) dest)
      else do {
        m0 \<leftarrow> (case dest of None \<Rightarrow> mem_write (junk (len + 1)) 0 [nul] | Some _ \<Rightarrow> copy_opt (junk (len + 1)) 0 dest);
        m1 \<leftarrow> copy_opt m0 (opt_len dest) s1;
        m2 \<leftarrow> copy_opt m1 (opt_len dest + opt_len s1) s2;
        m3 \<leftarrow> copy_opt m2 (opt_len dest + opt_len s1 + opt_len s2) s3;
        m4 \<leftarrow> copy_opt m3 (opt_len dest + opt_len s1 + opt_len s2 + opt_len s3) s4;
        Some (Some m4)
      })"

definition StringReset :: "string option \<Rightarrow> string option" where
  "StringReset destination = None"

section \<open>Single characters\<close>

definition StrReplace_c :: "string option \<Rightarrow> char \<Rightarrow> char \<Rightarrow> string option" where
  "StrReplace_c str oldChar newChar = map_option (map (\<lambda>c. if c = oldChar then newChar else c)) str"

definition StrReplace_str :: "string \<Rightarrow> char \<Rightarrow> char \<Rightarrow> string" where
  "StrReplace_str str oldChar newChar = map (\<lambda>c. if c = oldChar then newChar else c) str"

function remove_char_loop :: "string \<Rightarrow> nat \<Rightarrow> nat \<Rightarrow> char \<Rightarrow> (string \<times> nat) run" where
  "remove_char_loop mem src dst c =
     (if src < length mem then
        if mem ! src = nul then Some (mem, dst)
        else if mem ! src \<noteq> c then remove_char_loop (mem[dst := mem ! src]) (src + 1) (dst + 1) c
        else remove_char_loop mem (src + 1) dst c
      else None)"
  by pat_completeness auto
termination
  by (relation "measure (\<lambda>(mem, src, dst, c). length mem - src)") auto

declare remove_char_loop.simps [simp del]

definition StrRemoveChar_c :: "string option \<Rightarrow> char \<Rightarrow> string option run" where
  "StrRemoveChar_c str c =
     (case str of
        None \<Rightarrow> Some None
      | Some s \<Rightarrow> do {
          (mem, dst) \<leftarrow> remove_char_loop (s @ [nul]) 0 0 c;
          Some (Some (mem[dst := nul])) })"

fun StrRemoveChar_str :: "string \<Rightarrow> char \<Rightarrow> string" where
  "StrRemoveChar_str [] c = []"
| "StrRemoveChar_str (x # str) c = (if x \<noteq> c then x # StrRemoveChar_str str c else StrRemoveChar_str str c)"

fun StrRemoveWhiteSpaces :: "string \<Rightarrow> string" where
  "StrRemoveWhiteSpaces [] = []"
| "StrRemoveWhiteSpaces (x # str) =
     (if \<not> isspace x then x # StrRemoveWhiteSpaces str else StrRemoveWhiteSpaces str)"

fun normalize_loop :: "string \<Rightarrow> bool \<Rightarrow> string" where
  "normalize_loop [] lastWhite = []"
| "normalize_loop (c # s) lastWhite =
     (if isspace c then (if \<not> lastWhite then c # normalize_loop s True else normalize_loop s True)
      else c # normalize_loop s False)"

definition StrNormalizeWhiteSpaces :: "string \<Rightarrow> string" where
  "StrNormalizeWhiteSpaces s = normalize_loop s True"

section \<open>Patterns\<close>

partial_function (option) remove_string_loop :: "string \<Rightarrow> string \<Rightarrow> string option" where
  "remove_string_loop buf pattern =
     (case strstr buf pattern of
        None \<Rightarrow> Some buf
      | Some p \<Rightarrow> remove_string_loop (take p buf @ drop (p + length pattern) buf) pattern)"

text \<open>\<open>None\<close> at the outside: the call does not return.\<close>

definition StrRemoveString :: "string option \<Rightarrow> string option \<Rightarrow> string option option" where
  "StrRemoveString buf pattern =
     (case (buf, pattern) of
        (Some b, Some p) \<Rightarrow> map_option Some (remove_string_loop b p)
      | _ \<Rightarrow> Some None)"

partial_function (option) remove_case_loop :: "string \<Rightarrow> string \<Rightarrow> string option" where
  "remove_case_loop buf pattern =
     (case stristr buf pattern of
        None \<Rightarrow> None
      | Some None \<Rightarrow> Some buf
      | Some (Some p) \<Rightarrow>
          if p + length pattern \<le> length buf
          then remove_case_loop (take p buf @ drop (p + length pattern) buf) pattern
          else None)"

definition StrRemoveCaseString :: "string option \<Rightarrow> string option \<Rightarrow> string option option" where
  "StrRemoveCaseString buf pattern =
     (case (buf, pattern) of
        (Some b, Some p) \<Rightarrow> map_option Some (remove_case_loop b p)
      | _ \<Rightarrow> Some None)"

partial_function (option) replace_loop :: "string \<Rightarrow> string \<Rightarrow> string \<Rightarrow> string \<Rightarrow> string option" where
  "replace_loop p oldStr newStr ret =
     (case strstr p oldStr of
        None \<Rightarrow> Some (ret @ p)
      | Some next \<Rightarrow>
          replace_loop (drop (next + length oldStr) p) oldStr newStr (ret @ take next p @ newStr))"

definition StrReplaceString :: "string \<Rightarrow> string option \<Rightarrow> string option \<Rightarrow> string option" where
  "StrReplaceString s oldStr newStr =
     (case (oldStr, newStr) of
        (Some old, Some new) \<Rightarrow> replace_loop (c_str s) old new []
      | _ \<Rightarrow> Some s)"

definition postfix1 :: "string list" where "postfix1 = [''y'', ''u'', ''i'', ''a'']"
definition postfix2 :: "string list" where "postfix2 = [''ow'', ''om'', ''em'', ''ni'', ''ka'', ''ie'']"
definition postfix3 :: "string list" where
  "postfix3 = [''ami'', ''owi'', ''iem'', ''ach'', ''owy'', ''owe'', ''owo'', ''owa'', ''ace'']"
definition postfix4 :: "string list" where "postfix4 = [''iowe'', ''czek'']"

text \<open>The first loop runs over \<^verbatim>\<open>postfix4\<close> but compares with \<^verbatim>\<open>postfix3\<close>.\<close>

definition StrRemoveDeclensionPostfixPL :: "string \<Rightarrow> string" where
  "StrRemoveDeclensionPostfixPL word =
     (let len = length word;
          ends = (\<lambda>n ps. \<exists>x\<in>set ps. stricmp_eq (c_str (drop (len - n) word)) x);
          found =
            (if len < 3 then 0
             else if 3 + 4 \<le> len \<and> ends 4 (take (length postfix4) postfix3) then 4
             else if 3 + 3 \<le> len \<and> ends 3 postfix3 then 3
             else if 3 + 2 \<le> len \<and> ends 2 postfix2 then 2
             else if 3 + 1 \<le> len \<and> ends 1 postfix1 then 1
             else 0)
      in take (len - found) word)"

section \<open>Masks and formats\<close>

fun mask_phone_loop :: "nat \<Rightarrow> string \<Rightarrow> string" where
  "mask_phone_loop count [] = []"
| "mask_phone_loop count (c # p) =
     (if isdigit c
      then (if count + 1 > 6 then CHR ''x'' else c) # mask_phone_loop (count + 1) p
      else if isalpha c \<or> c = CHR 0x0D \<or> c = CHR 0x0A \<or> c = CHR ''.'' \<or> c = CHR '',''
      then c # mask_phone_loop 0 p
      else c # mask_phone_loop count p)"

definition StrMaskPhone :: "string option \<Rightarrow> int \<times> string option" where
  "StrMaskPhone p = (case p of None \<Rightarrow> (-1, None) | Some s \<Rightarrow> (0, Some (mask_phone_loop 0 s)))"

definition mask_char :: "char \<Rightarrow> char" where
  "mask_char c = (if isalnum c then CHR ''x'' else c)"

text \<open>The scan to the left stops before the first character of the buffer.\<close>

fun mask_left :: "nat \<Rightarrow> string \<Rightarrow> string" where
  "mask_left 0 mem = mem"
| "mask_left (Suc it) mem =
     (if isspace (mem ! Suc it) then mem else mask_left it (mem[Suc it := mask_char (mem ! Suc it)]))"

fun mask_right :: "string \<Rightarrow> string" where
  "mask_right [] = []"
| "mask_right (c # s) = (if isspace c then c # s else mask_char c # mask_right s)"

lemma length_mask_left [simp]: "length (mask_left it mem) = length mem"
  by (induction it mem rule: mask_left.induct) auto

lemma length_mask_right [simp]: "length (mask_right s) = length s"
  by (induction s) auto

function mask_email_loop :: "nat \<Rightarrow> string \<Rightarrow> string" where
  "mask_email_loop next mem =
     (case strchr (drop next mem) (CHR ''@'') of
        None \<Rightarrow> mem
      | Some k \<Rightarrow>
          let at = next + k;
              mem' = mask_left (at - 1) mem;
              mem'' = take (at + 1) mem' @ mask_right (drop (at + 1) mem')
          in mask_email_loop (at + 1) mem'')"
  by pat_completeness auto
termination
proof (relation "measure (\<lambda>(next, mem). length mem - next)")
  fix "next" :: nat and mem :: string and k and xa xb xc
  assume k: "strchr (drop next mem) (CHR ''@'') = Some k"
    and d: "xa = next + k" "xb = mask_left (xa - 1) mem" "xc = take (xa + 1) xb @ mask_right (drop (xa + 1) xb)"
  have "CHR ''@'' \<in> set (drop next mem)" using strchr_SomeD [OF k] .
  then have "next < length mem" by (cases "next < length mem") auto
  moreover have "length xc = length mem" using d by simp
  ultimately show "((xa + 1, xc), next, mem) \<in> measure (\<lambda>(next, mem). length mem - next)"
    using d by simp
qed simp

declare mask_email_loop.simps [simp del]

definition StrMaskEmail :: "string option \<Rightarrow> int \<times> string option" where
  "StrMaskEmail p = (case p of None \<Rightarrow> (-1, None) | Some s \<Rightarrow> (0, Some (mask_email_loop 0 s)))"

fun html_loop :: "nat \<Rightarrow> char \<Rightarrow> string \<Rightarrow> string" where
  "html_loop flags prev [] = []"
| "html_loop flags prev (c # s) =
     (if c = CHR 0x0D \<or> c = CHR 0x0A
      then (if prev \<noteq> CHR 0x0D \<and> prev \<noteq> CHR 0x0A then ''<br/>'' else [])
      else if c = CHR ''<'' then ''&lt;''
      else if c = CHR ''>'' then ''&gt;''
      else if c = CHR '' '' then (if flags AND STR_HTML_NON_BREAK_SPACES \<noteq> 0 then ''&nbsp;'' else '' '')
      else [c]) @ html_loop flags c s"

definition StrEncodeToHtml :: "string \<Rightarrow> nat \<Rightarrow> string" where
  "StrEncodeToHtml str flags = html_loop flags nul str"

definition write_at :: "int \<Rightarrow> char \<Rightarrow> string \<Rightarrow> string run" where
  "write_at i c mem = (if 0 \<le> i \<and> i < int (length mem) then Some (mem[nat i := c]) else None)"

text \<open>The loop of \<open>StrFormatMoney\<close>, over the value from its last character on.\<close>

fun money_loop :: "string \<Rightarrow> int \<Rightarrow> nat \<Rightarrow> string \<Rightarrow> string run" where
  "money_loop [] moneyIdx count money = Some money"
| "money_loop (v # vs) moneyIdx count money = do {
     m \<leftarrow> write_at moneyIdx v money;
     if count + 1 = 3 then do {
       m' \<leftarrow> write_at (moneyIdx - 1) (CHR '' '') m;
       money_loop vs (moneyIdx - 2) 0 m'
     }
     else money_loop vs (moneyIdx - 1) (count + 1) m
   }"

definition cdiv :: "int \<Rightarrow> int \<Rightarrow> int" where
  "cdiv a b = sgn a * sgn b * (\<bar>a\<bar> div \<bar>b\<bar>)"

definition StrFormatMoney :: "string option \<Rightarrow> int \<Rightarrow> string option \<Rightarrow> (int \<times> string option) run" where
  "StrFormatMoney money moneySize val =
     (case (money, val) of
        (Some m, Some v) \<Rightarrow>
          let valueLen = int (length v);
              spaceCnt = cdiv (valueLen - 1) 3;
              moneyIdx = valueLen + spaceCnt - 1
          in if moneySize > moneyIdx + 1
             then do {
               m0 \<leftarrow> write_at (moneyIdx + 1) nul m;
               m1 \<leftarrow> money_loop (rev v) moneyIdx 0 m0;
               Some (0, Some m1)
             }
             else Some (0, Some m)
      | _ \<Rightarrow> Some (-1, money))"

section \<open>Dynamic strings and single characters\<close>

definition opt_str :: "string option \<Rightarrow> string" where
  "opt_str s = (case s of None \<Rightarrow> [] | Some t \<Rightarrow> t)"

lemma length_opt_str [simp]: "length (opt_str s) = opt_len s"
  by (cases s) (simp_all add: opt_str_def opt_len_def)

lemma copy_opt_at:
  assumes "length a = pos" "opt_len s \<le> length b"
  shows "copy_opt (a @ nul # b) pos s = Some ((a @ opt_str s) @ nul # drop (opt_len s) b)"
proof (cases s)
  case (Some t)
  then have "opt_len s = length t" by (simp add: opt_len_def)
  then show ?thesis
    using assms Some by (simp add: copy_opt_def opt_str_def memcpy_Some_iff)
qed (simp add: copy_opt_def opt_str_def opt_len_def)

lemma StringAdd_concat:
  assumes "\<And>n. length (junk n) = n"
    and "0 < opt_len dest + opt_len s1 + opt_len s2 + opt_len s3 + opt_len s4"
  shows "StringAdd junk dest s1 s2 s3 s4 =
     Some (Some (opt_str dest @ opt_str s1 @ opt_str s2 @ opt_str s3 @ opt_str s4 @ [nul]))"
proof -
  define len where "len = opt_len dest + opt_len s1 + opt_len s2 + opt_len s3 + opt_len s4"
  obtain j js where j: "junk (len + 1) = j # js" "length js = len"
    using assms(1) [of "len + 1"] by (cases "junk (len + 1)") auto
  have m0: "(case dest of None \<Rightarrow> mem_write (junk (len + 1)) 0 [nul] | Some _ \<Rightarrow> copy_opt (junk (len + 1)) 0 dest) =
      Some (opt_str dest @ nul # drop (opt_len dest) js)"
  proof (cases dest)
    case None
    then show ?thesis using j by (simp add: mem_write_def opt_str_def opt_len_def)
  next
    case (Some d)
    have "length d \<le> length js" using j(2) Some by (simp add: len_def opt_len_def)
    then show ?thesis
      using j Some by (simp add: copy_opt_def opt_str_def opt_len_def memcpy_Some_iff)
  qed
  let ?b = "\<lambda>n. drop n js" and ?d = "opt_str dest"
  have c1: "copy_opt (?d @ nul # ?b (opt_len dest)) (opt_len dest) s1 =
      Some ((?d @ opt_str s1) @ nul # ?b (opt_len dest + opt_len s1))"
    using copy_opt_at [of ?d "opt_len dest" s1 "?b (opt_len dest)"] j(2)
    by (simp add: len_def add.commute)
  have c2: "copy_opt ((?d @ opt_str s1) @ nul # ?b (opt_len dest + opt_len s1)) (opt_len dest + opt_len s1) s2 =
      Some ((?d @ opt_str s1 @ opt_str s2) @ nul # ?b (opt_len dest + opt_len s1 + opt_len s2))"
    using copy_opt_at [of "?d @ opt_str s1" "opt_len dest + opt_len s1" s2 "?b (opt_len dest + opt_len s1)"] j(2)
    by (simp add: len_def add.commute)
  have c3: "copy_opt ((?d @ opt_str s1 @ opt_str s2) @ nul # ?b (opt_len dest + opt_len s1 + opt_len s2))
        (opt_len dest + opt_len s1 + opt_len s2) s3 =
      Some ((?d @ opt_str s1 @ opt_str s2 @ opt_str s3) @
        nul # ?b (opt_len dest + opt_len s1 + opt_len s2 + opt_len s3))"
    using copy_opt_at [of "?d @ opt_str s1 @ opt_str s2" "opt_len dest + opt_len s1 + opt_len s2" s3
        "?b (opt_len dest + opt_len s1 + opt_len s2)"] j(2)
    by (simp add: len_def add.commute)
  have c4: "copy_opt ((?d @ opt_str s1 @ opt_str s2 @ opt_str s3) @
          nul # ?b (opt_len dest + opt_len s1 + opt_len s2 + opt_len s3))
        (opt_len dest + opt_len s1 + opt_len s2 + opt_len s3) s4 =
      Some (?d @ opt_str s1 @ opt_str s2 @ opt_str s3 @ opt_str s4 @ [nul])"
    using copy_opt_at [of "?d @ opt_str s1 @ opt_str s2 @ opt_str s3"
        "opt_len dest + opt_len s1 + opt_len s2 + opt_len s3" s4
        "?b (opt_len dest + opt_len s1 + opt_len s2 + opt_len s3)"] j(2)
    by (simp add: len_def)
  have "len \<noteq> 0" using assms(2) by (simp add: len_def)
  then show ?thesis
    unfolding StringAdd_def Let_def len_def [symmetric] m0
    by (simp only: if_False c1 c2 c3 c4 Option.bind.bind_lunit)
qed

lemma StrRemoveChar_str_filter: "StrRemoveChar_str s c = filter (\<lambda>x. x \<noteq> c) s"
  by (induction s) auto

lemma StrRemoveWhiteSpaces_filter: "StrRemoveWhiteSpaces s = filter (\<lambda>x. \<not> isspace x) s"
  by (induction s) auto

text \<open>
  In place: the block starts with what is kept of the characters read so far, and from the read
  position on it is untouched.
\<close>

lemma remove_char_invariant:
  assumes "is_c_str rest" "length junk + length kept = src"
  shows "\<exists>junk'. remove_char_loop (kept @ junk @ rest @ [nul]) src (length kept) c =
      Some ((kept @ filter (\<lambda>x. x \<noteq> c) rest) @ junk' @ [nul], length kept + length (filter (\<lambda>x. x \<noteq> c) rest)) \<and>
     length kept + length (filter (\<lambda>x. x \<noteq> c) rest) + length junk' = src + length rest"
  using assms
proof (induction rest arbitrary: kept junk src)
  case Nil
  then have "(kept @ junk @ [nul]) ! src = nul" by (auto simp: nth_append)
  then show ?case using Nil by (subst remove_char_loop.simps) auto
next
  case (Cons x rest)
  let ?mem = "kept @ junk @ (x # rest) @ [nul]"
  have x: "?mem ! src = x" "src < length ?mem" "x \<noteq> nul" "is_c_str rest"
    using Cons.prems by (auto simp: nth_append cstr_simps)
  show ?case
  proof (cases "x = c")
    case True
    then have "remove_char_loop ?mem src (length kept) c =
        remove_char_loop (kept @ (junk @ [x]) @ rest @ [nul]) (src + 1) (length kept) c"
      using x by (subst remove_char_loop.simps) simp
    then show ?thesis
      using Cons.IH [OF x(4), of "junk @ [x]" kept "src + 1"] Cons.prems True by simp
  next
    case False
    obtain junk2 where j: "(?mem)[length kept := x] = (kept @ [x]) @ junk2 @ rest @ [nul]"
      "length junk2 = length junk"
      by (cases junk) (auto simp: list_update_append)
    have "remove_char_loop ?mem src (length kept) c =
        remove_char_loop ((kept @ [x]) @ junk2 @ rest @ [nul]) (src + 1) (length (kept @ [x])) c"
      using x False j(1) by (subst remove_char_loop.simps) simp
    then show ?thesis
      using Cons.IH [OF x(4), of junk2 "kept @ [x]" "src + 1"] Cons.prems False j(2) by simp
  qed
qed

section \<open>Patterns\<close>

lemma remove_string_ends:
  assumes "pattern \<noteq> []"
  shows "\<exists>r. remove_string_loop buf pattern = Some r \<and> \<not> sublist pattern r \<and> subseq r buf"
proof (induction buf rule: length_induct)
  case (1 buf)
  show ?case
  proof (cases "strstr buf pattern")
    case None
    moreover from this have "\<not> sublist pattern buf" by (simp add: strstr_None)
    ultimately show ?thesis by (subst remove_string_loop.simps) simp
  next
    case (Some p)
    let ?b = "take p buf @ drop (p + length pattern) buf"
    have p: "p + length pattern \<le> length buf" using strstr_Some [OF Some] by simp
    moreover have "0 < length pattern" using assms by simp
    ultimately have "length ?b < length buf"
      by (simp only: length_append length_take length_drop)
    with 1 obtain r where "remove_string_loop ?b pattern = Some r" "\<not> sublist pattern r" "subseq r ?b"
      by blast
    moreover have "subseq ?b buf"
      by (metis append_take_drop_id list_emb_append_mono subseq_drop_many subseq_order.order_refl
          drop_drop add.commute)
    ultimately show ?thesis
      using Some by (subst remove_string_loop.simps) (auto intro: subseq_order.order_trans)
  qed
qed

lemma remove_string_empty: "remove_string_loop buf [] = None"
proof (cases "remove_string_loop buf []")
  case (Some r)
  have "([] :: string) \<noteq> []"
    by (rule remove_string_loop.raw_induct [OF _ Some, where P = "\<lambda>b p r. p \<noteq> []"])
      (auto simp: strstr_empty split: option.splits)
  then show ?thesis by simp
qed

text \<open>The pieces of a text between the occurrences of a pattern, from left to right.\<close>

function pieces :: "string \<Rightarrow> string \<Rightarrow> string list" where
  "pieces old s =
     (if old = [] then [s]
      else case strstr s old of
             None \<Rightarrow> [s]
           | Some i \<Rightarrow> take i s # pieces old (drop (i + length old) s))"
  by pat_completeness auto
termination
proof (relation "measure (\<lambda>(old, s). length s)")
  fix old s :: string and i
  assume "old \<noteq> []" "strstr s old = Some i"
  then show "((old, drop (i + length old) s), old, s) \<in> measure (\<lambda>(old, s). length s)"
    using strstr_Some [of s old i] by (cases s; cases old) auto
qed simp

declare pieces.simps [simp del]

fun sep_by :: "string \<Rightarrow> string list \<Rightarrow> string" where
  "sep_by sep [] = []"
| "sep_by sep [x] = x"
| "sep_by sep (x # y # xs) = x @ sep @ sep_by sep (y # xs)"

lemma pieces_not_Nil [simp]: "pieces old s \<noteq> []"
  by (subst pieces.simps) (auto split: option.split)

lemma sep_by_Cons: "xs \<noteq> [] \<Longrightarrow> sep_by sep (x # xs) = x @ sep @ sep_by sep xs"
  by (cases xs) auto

lemma pieces_step:
  "old \<noteq> [] \<Longrightarrow> strstr s old = Some i \<Longrightarrow> pieces old s = take i s # pieces old (drop (i + length old) s)"
  by (subst pieces.simps) simp

lemma pieces_end: "strstr s old = None \<Longrightarrow> pieces old s = [s]"
  by (subst pieces.simps) simp

lemma sep_by_pieces: "sep_by old (pieces old s) = s"
proof (induction old s rule: pieces.induct)
  case (1 old s)
  show ?case
  proof (cases "old = [] \<or> strstr s old = None")
    case True
    then show ?thesis by (subst pieces.simps) auto
  next
    case False
    then obtain i where i: "old \<noteq> []" "strstr s old = Some i" by auto
    have "take i s @ old @ drop (i + length old) s = s"
      using strstr_Some [OF i(2)] by (metis append_take_drop_id drop_drop add.commute)
    then show ?thesis using 1 [OF i] by (simp add: pieces_step [OF i] sep_by_Cons)
  qed
qed

lemma pieces_free: "old \<noteq> [] \<Longrightarrow> x \<in> set (pieces old s) \<Longrightarrow> \<not> sublist old x"
proof (induction old s rule: pieces.induct)
  case (1 old s)
  show ?case
  proof (cases "strstr s old")
    case None
    then show ?thesis using 1 by (simp add: pieces_end strstr_None)
  next
    case (Some i)
    then have "x = take i s \<or> x \<in> set (pieces old (drop (i + length old) s))"
      using 1 by (simp add: pieces_step)
    then show ?thesis using 1 Some strstr_first [of old s i] by auto
  qed
qed

lemma replace_loop_pieces:
  assumes "old \<noteq> []"
  shows "replace_loop p old new ret = Some (ret @ sep_by new (pieces old p))"
proof (induction p arbitrary: ret rule: length_induct)
  case (1 p)
  show ?case
  proof (cases "strstr p old")
    case None
    then show ?thesis by (subst replace_loop.simps) (simp add: pieces_end)
  next
    case (Some i)
    have "length (drop (i + length old) p) < length p"
      using strstr_Some [OF Some] assms by (cases p; cases old) auto
    then show ?thesis
      using 1 Some assms
      by (subst replace_loop.simps) (simp add: pieces_step sep_by_Cons)
  qed
qed

lemma replace_loop_empty: "replace_loop p [] new ret = None"
proof (cases "replace_loop p [] new ret")
  case (Some r)
  have "([] :: string) \<noteq> []"
    by (rule replace_loop.raw_induct [OF _ Some, where P = "\<lambda>p old new ret r. old \<noteq> []"])
      (auto simp: strstr_empty split: option.splits)
  then show ?thesis by simp
qed

section \<open>White space\<close>

fun tidy :: "bool \<Rightarrow> string \<Rightarrow> bool" where
  "tidy white [] = True"
| "tidy white (c # s) = (\<not> (white \<and> isspace c) \<and> tidy (isspace c) s)"

lemma normalize_tidy: "tidy w (normalize_loop s w)"
  by (induction s w rule: normalize_loop.induct) auto

lemma normalize_keeps:
  "filter (\<lambda>c. \<not> isspace c) (normalize_loop s w) = filter (\<lambda>c. \<not> isspace c) s"
  by (induction s w rule: normalize_loop.induct) auto

lemma normalize_of_tidy: "tidy w s \<Longrightarrow> normalize_loop s w = s"
  by (induction w s rule: tidy.induct) auto

section \<open>Money\<close>

text \<open>The characters that \<open>money_loop\<close> writes, in the order of writing, from the right.\<close>

fun emitted :: "string \<Rightarrow> nat \<Rightarrow> string" where
  "emitted [] count = []"
| "emitted (v # vs) count = v # (if count + 1 = 3 then CHR '' '' # emitted vs 0 else emitted vs (count + 1))"

lemma emitted_length:
  "count < 3 \<Longrightarrow> length (emitted vs count) = length vs + (length vs + count) div 3"
proof (induction vs count rule: emitted.induct)
  case (2 v vs count)
  show ?case
  proof (cases "count = 2")
    case True
    then show ?thesis using 2 by simp
  next
    case False
    then show ?thesis using 2 by simp
  qed
qed simp

lemma emitted_keeps: "CHR '' '' \<notin> set vs \<Longrightarrow> filter (\<lambda>c. c \<noteq> CHR '' '') (emitted vs count) = vs"
  by (induction vs count rule: emitted.induct) auto

text \<open>Writing a list from position \<open>i\<close> down.\<close>

fun write_down :: "string \<Rightarrow> int \<Rightarrow> string \<Rightarrow> string run" where
  "write_down [] i mem = Some mem"
| "write_down (c # cs) i mem = do { m \<leftarrow> write_at i c mem; write_down cs (i - 1) m }"

lemma money_loop_emitted:
  "money_loop vs i count money = write_down (emitted vs count) i money"
  by (induction vs i count money rule: money_loop.induct)
    (auto simp: Option.bind_assoc diff_diff_eq intro!: Option.bind_cong)

lemma write_down_result:
  "i < int (length mem) \<Longrightarrow>
   write_down cs i mem =
     (if cs = [] then Some mem
      else if int (length cs) \<le> i + 1
      then Some (take (nat (i + 1) - length cs) mem @ rev cs @ drop (nat (i + 1)) mem)
      else None)"
proof (induction cs arbitrary: i mem)
  case (Cons c cs)
  show ?case
  proof (cases "0 \<le> i")
    case True
    define k where "k = nat i"
    have k: "i = int k" "k < length mem" using True Cons.prems by (auto simp: k_def)
    have w: "write_at i c mem = Some (mem[k := c])" using k by (simp add: write_at_def)
    have IH: "write_down cs (i - 1) (mem[k := c]) =
        (if cs = [] then Some (mem[k := c])
         else if int (length cs) \<le> i
         then Some (take (k - length cs) (mem[k := c]) @ rev cs @ drop k (mem[k := c])) else None)"
      using Cons.IH [of "i - 1" "mem[k := c]"] k by simp
    have d: "drop k (mem[k := c]) = c # drop (Suc k) mem"
      using k(2) by (simp add: upd_conv_take_nth_drop)
    show ?thesis
    proof (cases "cs = []")
      case True
      then show ?thesis using w k by (simp add: upd_conv_take_nth_drop nat_add_distrib)
    next
      case False
      then show ?thesis using w IH d k by (simp add: nat_add_distrib)
    qed
  qed (simp add: write_at_def)
qed simp

lemma format_money_result:
  assumes "n = length v" "n \<noteq> 0" "n + (n - 1) div 3 < length m" "int (length m) \<le> int_max"
  shows "StrFormatMoney (Some m) (int (length m)) (Some v) =
     (if n mod 3 = 0 then None
      else Some (0, Some (rev (emitted (rev v) 0) @ nul # drop (n + (n - 1) div 3 + 1) m)))"
proof -
  define q where "q = n + (n - 1) div 3"
  have qm: "q < length m" using assms(3) by (simp only: q_def)
  have sp: "cdiv (int n - 1) 3 = int ((n - 1) div 3)"
    using assms(2) by (cases n) (simp_all add: cdiv_def sgn_if zdiv_int)
  have idx: "int n + cdiv (int n - 1) 3 - 1 = int q - 1" by (simp add: q_def sp)
  have m0: "write_at (int q) nul m = Some (m[q := nul])"
    using qm by (simp add: write_at_def)
  have len: "length (emitted (rev v) 0) = n + n div 3" using assms(1) by (simp add: emitted_length)
  have e: "emitted (rev v) 0 \<noteq> []" using assms(1,2) by (cases "rev v") auto
  have fits: "n + n div 3 \<le> q \<longleftrightarrow> n mod 3 \<noteq> 0"
    using assms(2) unfolding q_def by presburger
  have eq: "n mod 3 \<noteq> 0 \<Longrightarrow> n + n div 3 = q"
    unfolding q_def by presburger
  have loop: "money_loop (rev v) (int q - 1) 0 (m[q := nul]) =
      (if n mod 3 = 0 then None else Some (rev (emitted (rev v) 0) @ drop q (m[q := nul])))"
    using write_down_result [of "int q - 1" "m[q := nul]" "emitted (rev v) 0"] e len fits eq qm
    by (auto simp: money_loop_emitted)
  have "drop q (m[q := nul]) = nul # drop (Suc q) m"
    using qm by (simp add: upd_conv_take_nth_drop)
  then show ?thesis
    unfolding q_def [symmetric]
    using loop m0 assms(1) idx qm by (simp add: StrFormatMoney_def Let_def)
qed

section \<open>Masks\<close>

definition phone_reset :: "char \<Rightarrow> bool" where
  "phone_reset c \<longleftrightarrow> isalpha c \<or> c = CHR 0x0D \<or> c = CHR 0x0A \<or> c = CHR ''.'' \<or> c = CHR '',''"

text \<open>The digits since the last letter, line end, dot or comma.\<close>

definition phone_count :: "string \<Rightarrow> nat" where
  "phone_count s = length (filter isdigit (takeWhile (\<lambda>c. \<not> phone_reset c) (rev s)))"

lemma phone_count_snoc:
  "phone_count (s @ [c]) =
     (if isdigit c then phone_count s + 1 else if phone_reset c then 0 else phone_count s)"
proof -
  have "isdigit c \<Longrightarrow> \<not> phone_reset c" by (auto simp: phone_reset_def ctype_defs)
  then show ?thesis by (simp add: phone_count_def)
qed

lemma mask_phone_nth:
  "i < length s \<Longrightarrow>
   mask_phone_loop (phone_count pre) s ! i =
     (if isdigit (s ! i) \<and> 6 < phone_count (pre @ take (i + 1) s) then CHR ''x'' else s ! i)"
proof (induction s arbitrary: pre i)
  case (Cons c s)
  define n where "n = phone_count (pre @ [c])"
  have step: "mask_phone_loop (phone_count pre) (c # s) =
      (if isdigit c \<and> 6 < n then CHR ''x'' else c) # mask_phone_loop n s"
    by (auto simp: n_def phone_count_snoc phone_reset_def)
  show ?case
  proof (cases i)
    case 0
    then show ?thesis by (simp add: step n_def del: mask_phone_loop.simps)
  next
    case (Suc j)
    then show ?thesis
      using Cons.IH [of j "pre @ [c]"] Cons.prems
      by (simp add: step n_def del: mask_phone_loop.simps)
  qed
qed simp

lemma length_mask_phone [simp]: "length (mask_phone_loop n s) = length s"
  by (induction n s rule: mask_phone_loop.induct) auto

lemma mask_char_simps:
  "isspace c \<Longrightarrow> mask_char c = c" "mask_char c = CHR ''@'' \<longleftrightarrow> c = CHR ''@''"
  by (auto simp: mask_char_def ctype_defs)

lemma mask_left_word:
  "\<forall>c\<in>set w. \<not> isspace c \<Longrightarrow> mask_left (length w) (a # w @ rest) = a # map mask_char w @ rest"
proof (induction w arbitrary: rest rule: rev_induct)
  case (snoc c w)
  have "(a # (w @ [c]) @ rest) ! Suc (length w) = c" by (simp add: nth_append)
  then show ?case
    using snoc.IH [of "mask_char c # rest"] snoc.prems by (simp add: list_update_append)
qed simp

lemma mask_right_word: "\<forall>c\<in>set w. \<not> isspace c \<Longrightarrow> mask_right w = map mask_char w"
  by (induction w) auto

lemma mask_email_address:
  assumes "\<forall>c\<in>set (a # user @ host). \<not> isspace c \<and> c \<noteq> CHR ''@''"
  shows "mask_email_loop 0 (a # user @ ''@'' @ host) = a # map mask_char user @ ''@'' @ map mask_char host"
proof -
  let ?m = "a # map mask_char user @ ''@'' @ map mask_char host"
  have at: "strchr (a # user @ ''@'' @ host) (CHR ''@'') = Some (Suc (length user))"
    using assms strchr_append [of "CHR ''@''" "a # user" host] by auto
  have left: "mask_left (length user) (a # user @ ''@'' @ host) = a # map mask_char user @ ''@'' @ host"
    using assms by (intro mask_left_word) auto
  have right: "mask_right host = map mask_char host" using assms by (intro mask_right_word) auto
  have "CHR ''@'' \<notin> set (map mask_char host)"
  proof
    assume "CHR ''@'' \<in> set (map mask_char host)"
    then obtain c where "c \<in> set host" "mask_char c = CHR ''@''" by auto
    then show False using assms mask_char_simps(2) [of c] by simp
  qed
  then have "strchr (drop (Suc (Suc (length user))) ?m) (CHR ''@'') = None"
    by (simp add: strchr_None)
  then have "mask_email_loop (Suc (Suc (length user))) ?m = ?m"
    by (subst mask_email_loop.simps) simp
  then show ?thesis
    using at left right by (subst mask_email_loop.simps) (simp add: Let_def)
qed

section \<open>Properties\<close>

text \<open>
  Editing in place is memory-safe and right: \<open>StrRemoveChar\<close> never leaves its block and
  the block then starts with the text without the character and a terminating zero, which is the
  result of the \<^verbatim>\<open>std::string\<close> version; \<open>StringAdd\<close> allocates exactly the bytes it writes, and the new
  block is the concatenation of all the given texts with one terminating zero.
\<close>

theorem in_place_editing:
  assumes "is_c_str s" "c \<noteq> nul" "\<And>n. length (junk n) = n"
    and "0 < opt_len dest + opt_len s1 + opt_len s2 + opt_len s3 + opt_len s4"
  shows "(\<exists>mem. StrRemoveChar_c (Some s) c = Some (Some mem) \<and> length mem = length s + 1 \<and>
       c_str mem = StrRemoveChar_str s c \<and> StrRemoveChar_str s c = filter (\<lambda>x. x \<noteq> c) s) \<and>
     StringAdd junk dest s1 s2 s3 s4 =
       Some (Some (opt_str dest @ opt_str s1 @ opt_str s2 @ opt_str s3 @ opt_str s4 @ [nul]))"
proof -
  let ?f = "filter (\<lambda>x. x \<noteq> c) s"
  obtain junk' where loop: "remove_char_loop (s @ [nul]) 0 0 c = Some (?f @ junk' @ [nul], length ?f)"
    and len: "length ?f + length junk' = length s"
    using remove_char_invariant [OF assms(1), of "[]" "[]" 0 c] by auto
  obtain j where mem: "(?f @ junk' @ [nul])[length ?f := nul] = ?f @ nul # j" "length j = length junk'"
    by (cases junk') (auto simp: list_update_append)
  have "is_c_str ?f" using assms(1) by (auto simp: is_c_str_def)
  then have "c_str (?f @ nul # j) = ?f"
    by (simp add: c_str_def is_c_str_def takeWhile_tail takeWhile_neq_all)
  then show ?thesis
    using loop mem len StringAdd_concat [OF assms(3,4)]
    by (simp add: StrRemoveChar_c_def StrRemoveChar_str_filter)
qed

theorem in_place_editing_witness:
  "(\<exists>mem. StrRemoveChar_c (Some ''a-b-c'') (CHR ''-'') = Some (Some mem) \<and> c_str mem = ''abc'') \<and>
   StringAdd (\<lambda>n. replicate n (CHR ''?'')) None (Some ''ab'') None (Some ''c'') None = Some (Some (''abc'' @ [nul]))"
  using in_place_editing [of "''a-b-c''" "CHR ''-''" "\<lambda>n. replicate n (CHR ''?'')" None "Some ''ab''" None
      "Some ''c''" None]
  by (auto simp: is_c_str_def opt_len_def opt_str_def)

text \<open>
  Removing and replacing patterns: for a non-empty pattern both functions return;
  \<open>StrRemoveString\<close> leaves a text that does not contain the pattern any more and only drops
  characters; \<open>StrReplaceString\<close> cuts the text at the occurrences from left to right into pieces
  without the pattern, and joins them with the new text. For an empty pattern neither of them
  ever returns.
\<close>

theorem patterns_removed_and_replaced:
  assumes "pattern \<noteq> []" "is_c_str s"
  shows "(\<exists>r. StrRemoveString (Some s) (Some pattern) = Some (Some r) \<and> \<not> sublist pattern r \<and> subseq r s) \<and>
     StrReplaceString s (Some pattern) (Some new) = Some (sep_by new (pieces pattern s)) \<and>
     sep_by pattern (pieces pattern s) = s \<and> (\<forall>x\<in>set (pieces pattern s). \<not> sublist pattern x) \<and>
     StrRemoveString (Some s) (Some []) = None \<and> StrReplaceString s (Some []) (Some new) = None"
  using remove_string_ends [OF assms(1), of s] assms sep_by_pieces [of pattern s] pieces_free [OF assms(1)]
  by (auto simp: StrRemoveString_def StrReplaceString_def replace_loop_pieces c_str_id
      remove_string_empty replace_loop_empty)

theorem patterns_removed_and_replaced_witness:
  "(\<exists>r. StrRemoveString (Some ''xaabby'') (Some ''ab'') = Some (Some r) \<and> \<not> sublist ''ab'' r) \<and>
   StrReplaceString ''a--b'' (Some ''--'') (Some ''+'') = Some (sep_by ''+'' (pieces ''--'' ''a--b''))"
  using patterns_removed_and_replaced [of "''ab''" "''xaabby''" "[]"]
    patterns_removed_and_replaced [of "''--''" "''a--b''" "''+''"]
  by (auto simp: is_c_str_def)

text \<open>
  Masks: \<open>StrMaskPhone\<close> replaces exactly the digits that have at least six digits before
  them since the last letter, line end, dot or comma. \<open>StrMaskEmail\<close> of a text that is one address
  masks all letters and digits of user and host and keeps the rest, but it never masks the very
  first character of the text, against its documented example.
\<close>

theorem masks:
  assumes "\<forall>c\<in>set (a # user @ host). \<not> isspace c \<and> c \<noteq> CHR ''@''"
  shows "(\<exists>r. StrMaskPhone (Some s) = (0, Some r) \<and> length r = length s \<and>
       (\<forall>i < length s. r ! i =
          (if isdigit (s ! i) \<and> 6 < phone_count (take (i + 1) s) then CHR ''x'' else s ! i))) \<and>
     StrMaskEmail (Some (a # user @ ''@'' @ host)) =
       (0, Some (a # map mask_char user @ ''@'' @ map mask_char host))"
  using mask_phone_nth [of _ s "[]"] mask_email_address [OF assms]
  by (simp add: StrMaskPhone_def StrMaskEmail_def phone_count_def)

theorem masks_witness:
  "StrMaskEmail (Some ''jan@wp.pl'') = (0, Some (CHR ''j'' # map mask_char ''an'' @ ''@'' @ map mask_char ''wp.pl''))"
  using masks [of "CHR ''j''" "''an''" "''wp.pl''" "[]"] by (simp add: isspace_def)

text \<open>
  \<open>StrFormatMoney\<close> with a large enough buffer: if the number of digits is not a multiple
  of three, the buffer then holds the digits with a space between groups of three counted from the
  right, and removing the spaces gives the value back; but for every positive multiple of three it
  writes a space before the start of the buffer.
\<close>

theorem format_money:
  assumes "v \<noteq> []" "CHR '' '' \<notin> set v" "length v + (length v - 1) div 3 < length m" "int (length m) \<le> int_max"
  shows "if length v mod 3 = 0 then StrFormatMoney (Some m) (int (length m)) (Some v) = None
     else \<exists>txt rest. StrFormatMoney (Some m) (int (length m)) (Some v) = Some (0, Some (txt @ nul # rest)) \<and>
        length (txt @ nul # rest) = length m \<and> filter (\<lambda>c. c \<noteq> CHR '' '') txt = v \<and>
        txt = rev (emitted (rev v) 0)"
proof (cases "length v mod 3 = 0")
  case True
  then show ?thesis using format_money_result [OF refl _ assms(3,4)] assms(1) by simp
next
  case False
  let ?t = "rev (emitted (rev v) 0)"
  have "filter (\<lambda>c. c \<noteq> CHR '' '') ?t = v"
    using emitted_keeps [of "rev v" 0] assms(2) by (simp add: rev_filter [symmetric])
  moreover have "length ?t = length v + length v div 3" by (simp add: emitted_length)
  moreover have "length v div 3 = (length v - 1) div 3" using False by presburger
  ultimately show ?thesis
    using format_money_result [OF refl _ assms(3,4)] assms(1,3) False by simp
qed

theorem format_money_witness:
  "StrFormatMoney (Some ''????????'') 8 (Some ''500'') = None \<and>
   (\<exists>rest. StrFormatMoney (Some ''????????'') 8 (Some ''5000'') = Some (0, Some (''5 000'' @ nul # rest)))"
  using format_money [of "''500''" "''????????''"] format_money [of "''5000''" "''????????''"] by auto

text \<open>
  White space and word endings: \<open>StrNormalizeWhiteSpaces\<close> leaves no white space at the
  start and no two white spaces in a row, keeps all other characters in order, and does nothing to
  its own result. \<open>StrRemoveDeclensionPostfixPL\<close> returns a prefix, keeps at least three characters of
  a word that has three, and cuts at most three: the four-letter endings it lists are never cut as
  such, because the wrong table is compared.
\<close>

theorem whitespace_and_endings:
  assumes "is_c_str w"
  shows "tidy True (StrNormalizeWhiteSpaces s) \<and>
     StrRemoveWhiteSpaces (StrNormalizeWhiteSpaces s) = StrRemoveWhiteSpaces s \<and>
     StrNormalizeWhiteSpaces (StrNormalizeWhiteSpaces s) = StrNormalizeWhiteSpaces s \<and>
     prefix (StrRemoveDeclensionPostfixPL w) w \<and>
     length w - length (StrRemoveDeclensionPostfixPL w) \<le> 3 \<and>
     (3 \<le> length w \<longrightarrow> 3 \<le> length (StrRemoveDeclensionPostfixPL w))"
proof -
  have "\<not> stricmp_eq (c_str (drop (length w - 4) w)) x"
    if "7 \<le> length w" "x \<in> set (take (length postfix4) postfix3)" for x
  proof -
    have "is_c_str (drop (length w - 4) w)" using assms by (auto simp: is_c_str_def dest: in_set_dropD)
    then have "length (c_str (drop (length w - 4) w)) = 4" using that(1) by (simp add: c_str_id)
    moreover have "length x = 3" using that(2) by (auto simp: postfix3_def postfix4_def)
    ultimately show ?thesis
      by (metis stricmp_eq_def length_map numeral_eq_iff semiring_norm(89) num.distinct(5))
  qed
  then have "prefix (StrRemoveDeclensionPostfixPL w) w \<and>
     length w - length (StrRemoveDeclensionPostfixPL w) \<le> 3 \<and>
     (3 \<le> length w \<longrightarrow> 3 \<le> length (StrRemoveDeclensionPostfixPL w))"
    unfolding StrRemoveDeclensionPostfixPL_def Let_def by (auto simp: take_is_prefix)
  then show ?thesis
    using normalize_tidy [of True s] normalize_keeps [of s True] normalize_of_tidy
    by (simp add: StrNormalizeWhiteSpaces_def StrRemoveWhiteSpaces_filter)
qed

theorem whitespace_and_endings_witness:
  "length ''samochodziowe'' - length (StrRemoveDeclensionPostfixPL ''samochodziowe'') \<le> 3"
  using whitespace_and_endings [of "''samochodziowe''" "[]"] by (simp add: is_c_str_def)

end
