(* ===== verification/Str_Tokenize.thy ===== *)
theory Str_Tokenize
  imports Str_Text
begin

text \<open>
  The tokenizers (\<^verbatim>\<open>LibStr/Tokenize.cpp\<close>): the loops over \<^verbatim>\<open>strtok\<close>, the tokenizers that respect
  quoted words, the tokenizers with a delimiter of several characters and the splitter of one pair.
  They cut the text in place: a buffer is a list of characters that ends with its zero, a pointer
  is an index into it, and \<^verbatim>\<open>*end = 0\<close> is a list update. The overloads differ in what they keep of a
  token (the pointer, a copy, or an element of a set), so the loops take the push as an argument.
  \<^const>\<open>None\<close> stands for a read past the buffer in the loops over quotes and for a loop that
  never ends in \<open>strstr_loop\<close>.
\<close>

section \<open>Definitions\<close>

primrec StrIsDelim :: "char \<Rightarrow> string \<Rightarrow> char" where
  "StrIsDelim p [] = nul"
| "StrIsDelim p (d # delims) =
     (if d = nul then nul else if p = d then d else StrIsDelim p delims)"

definition strtok_delim :: "string \<Rightarrow> char \<Rightarrow> bool" where
  "strtok_delim delims c \<longleftrightarrow> c \<in> set (c_str delims)"

definition StrTokenize_vec :: "string \<Rightarrow> string \<Rightarrow> string list" where
  "StrTokenize_vec inputStr delims = strtok_list (strtok_delim delims) (c_str inputStr)"

definition StrTokenize_set :: "string \<Rightarrow> string \<Rightarrow> string set" where
  "StrTokenize_set inputStr delims =
     fold insert (strtok_list (strtok_delim delims) (c_str inputStr)) {}"

text \<open>What the overloads keep of the token at index \<open>begin\<close> of the buffer.\<close>

definition push_ptr :: "string \<Rightarrow> nat \<Rightarrow> nat list \<Rightarrow> nat list" where
  "push_ptr b begin0 tokens = tokens @ [begin0]"

definition push_str :: "string \<Rightarrow> nat \<Rightarrow> string list \<Rightarrow> string list" where
  "push_str b begin0 tokens = tokens @ [c_str (drop begin0 b)]"

definition push_set :: "string \<Rightarrow> nat \<Rightarrow> string set \<Rightarrow> string set" where
  "push_set b begin0 tokens = insert (c_str (drop begin0 b)) tokens"

text \<open>\<^verbatim>\<open>while(StrIsDelim(p, delims)) p ++\<close>, as the number of steps.\<close>

primrec skip_delims :: "string \<Rightarrow> string \<Rightarrow> nat" where
  "skip_delims delims [] = 0"
| "skip_delims delims (c # s) = (if StrIsDelim c delims \<noteq> nul then Suc (skip_delims delims s) else 0)"

text \<open>One look at \<^verbatim>\<open>*end\<close> for a quotation character.\<close>

definition quote_step ::
  "string \<Rightarrow> string \<Rightarrow> nat \<Rightarrow> nat \<Rightarrow> char \<Rightarrow> string \<times> nat \<times> char" where
  "quote_step delimsExtra b begin0 end0 activeDelimExtra =
     (let foundDelim = StrIsDelim (b ! end0) delimsExtra in
      if foundDelim \<noteq> nul
      then if activeDelimExtra \<noteq> nul then (b[end0 := nul], begin0, nul)
           else (b, begin0 + skip_delims delimsExtra (drop begin0 b), foundDelim)
      else (b, begin0, activeDelimExtra))"

lemma quote_step_length [simp]:
  "quote_step q b i e a = (b', i', a') \<Longrightarrow> length b' = length b"
  by (auto simp: quote_step_def Let_def split: if_splits)

function quote_loop ::
  "(string \<Rightarrow> nat \<Rightarrow> 't \<Rightarrow> 't) \<Rightarrow> string \<Rightarrow> string \<Rightarrow> string \<Rightarrow> nat \<Rightarrow> nat \<Rightarrow> char \<Rightarrow> 't \<Rightarrow> (string \<times> 't) option" where
  "quote_loop push delims delimsExtra b begin0 end0 activeDelimExtra tokens =
     (if length b \<le> end0 then None
      else if b ! end0 = nul
      then Some (b, if begin0 < end0 then push b begin0 tokens else tokens)
      else case quote_step delimsExtra b begin0 end0 activeDelimExtra of
        (b', begin', active') \<Rightarrow>
          if active' = nul \<and> StrIsDelim (b' ! end0) delims \<noteq> nul
          then let b'' = b'[end0 := nul];
                   end' = end0 + 1 + skip_delims delims (drop (end0 + 1) b'') in
               quote_loop push delims delimsExtra b'' end' end' active' (push b'' begin' tokens)
          else quote_loop push delims delimsExtra b' begin' (end0 + 1) active' tokens)"
  by pat_completeness auto
termination
  by (relation "measure (\<lambda>(p, d, q, b, i, e, a, t). length b - e)")
    (auto dest!: quote_step_length [OF sym])

declare quote_loop.simps [simp del]

text \<open>The three tokenizers that respect quotes.\<close>

definition StrTokenize_quote_ptr :: "string \<Rightarrow> string \<Rightarrow> string \<Rightarrow> (string \<times> nat list) option" where
  "StrTokenize_quote_ptr inputStr delims delimsExtra =
     quote_loop push_ptr delims delimsExtra inputStr 0 0 nul []"

definition StrTokenize_quote_vec :: "string \<Rightarrow> string \<Rightarrow> string \<Rightarrow> string list option" where
  "StrTokenize_quote_vec inputStr delims delimsExtra =
     map_option snd (quote_loop push_str delims delimsExtra (inputStr @ [nul]) 0 0 nul [])"

definition StrTokenize_quote_set :: "string \<Rightarrow> string \<Rightarrow> string \<Rightarrow> string set option" where
  "StrTokenize_quote_set inputStr delims delimsExtra =
     map_option snd (quote_loop push_set delims delimsExtra (c_str inputStr @ [nul]) 0 0 nul {})"

text \<open>A delimiter of several characters.\<close>

partial_function (option) strstr_loop ::
  "(string \<Rightarrow> nat \<Rightarrow> 't \<Rightarrow> 't) \<Rightarrow> string \<Rightarrow> string \<Rightarrow> nat \<Rightarrow> 't \<Rightarrow> (string \<times> 't) option" where
  "strstr_loop push delim b p tokens =
     (case strstr (c_str (drop p b)) delim of
        None \<Rightarrow> Some (b, if c_str (drop p b) \<noteq> [] then push b p tokens else tokens)
      | Some i \<Rightarrow>
          (let b' = b[p + i := nul] in
           strstr_loop push delim b' (p + i + length delim) (push b' p tokens)))"

definition StrStrTokenize_ptr :: "string \<Rightarrow> string \<Rightarrow> (string \<times> nat list) option" where
  "StrStrTokenize_ptr str delim = strstr_loop push_ptr (c_str delim) str 0 []"

definition StrStrTokenize_vec :: "string \<Rightarrow> string \<Rightarrow> string list option" where
  "StrStrTokenize_vec inputStr delim =
     map_option snd (strstr_loop push_str (c_str delim) (c_str inputStr @ [nul]) 0 [])"

text \<open>
  \<open>StrSplit\<close>: the exit code and, on success, the buffer that was cut and the indices that \<^verbatim>\<open>left\<close> and
  \<^verbatim>\<open>right\<close> point to. The flags say whether \<^verbatim>\<open>left\<close> and \<^verbatim>\<open>right\<close> are given. Searching for the zero
  itself finds the end of the string.
\<close>

definition StrSplit ::
  "string option \<Rightarrow> bool \<Rightarrow> bool \<Rightarrow> char \<Rightarrow> int \<times> (string \<times> nat \<times> nat) option" where
  "StrSplit token left right splitChar =
     (case token of
        None \<Rightarrow> (-1, None)
      | Some b \<Rightarrow>
          if \<not> left then (-1, None) else if \<not> right then (-1, None)
          else case (if splitChar = nul then Some (length (c_str b)) else strchr (c_str b) splitChar) of
                 None \<Rightarrow> (-1, None)
               | Some split \<Rightarrow> (0, Some (b[split := nul], 0, split + 1)))"

section \<open>Delimiters\<close>

lemma StrIsDelim_in: "StrIsDelim c delims = (if c \<noteq> nul \<and> c \<in> set (c_str delims) then c else nul)"
  by (induction delims) (auto simp: c_str_def)

lemma StrIsDelim_nul [simp]: "StrIsDelim nul delims = nul"
  by (simp add: StrIsDelim_in)

lemma skip_delims_takeWhile:
  "skip_delims delims s = length (takeWhile (\<lambda>c. StrIsDelim c delims \<noteq> nul) s)"
  by (induction s) auto

lemma skip_delims_stop [simp]: "StrIsDelim c delims = nul \<Longrightarrow> skip_delims delims (c # s) = 0"
  by simp

lemma skip_delims_nth:
  "i < skip_delims delims s \<Longrightarrow> StrIsDelim (s ! i) delims \<noteq> nul"
proof (induction s arbitrary: i)
  case (Cons c s)
  then show ?case by (cases i) (auto split: if_splits)
qed simp

lemma skip_delims_before_nul:
  assumes "k < length s" "s ! k = nul"
  shows "skip_delims delims s \<le> k"
  using skip_delims_nth [of k delims s] assms(2) by (cases "k < skip_delims delims s") auto

section \<open>Tokens in a buffer that is cut in place\<close>

lemma c_str_cut: "is_c_str s \<Longrightarrow> c_str (s @ nul # r) = s"
  by (induction s) (auto simp: c_str_def is_c_str_def)

lemma c_str_take: "j < length s \<Longrightarrow> s ! j = nul \<Longrightarrow> c_str (take (Suc j) s) = c_str s"
proof (induction s arbitrary: j)
  case (Cons c s)
  then show ?case by (cases j) (auto simp: c_str_def)
qed simp

text \<open>A token is sealed below an index when its zero stands below it: writes from there on keep it.\<close>

definition sealed :: "string \<Rightarrow> nat \<Rightarrow> nat \<Rightarrow> bool" where
  "sealed b e t \<longleftrightarrow> (\<exists>j. t \<le> j \<and> j < e \<and> j < length b \<and> b ! j = nul)"

lemma sealed_mono: "sealed b e t \<Longrightarrow> e \<le> e' \<Longrightarrow> sealed b e' t"
  unfolding sealed_def by (meson order_less_le_trans)

lemma sealed_update:
  assumes "sealed b e t" "e \<le> k"
  shows "sealed (b[k := x]) e t" "c_str (drop t (b[k := x])) = c_str (drop t b)"
proof -
  from assms(1) obtain j where j: "t \<le> j" "j < e" "j < length b" "b ! j = nul"
    unfolding sealed_def by blast
  then show "sealed (b[k := x]) e t"
    using assms(2) unfolding sealed_def by (intro exI [of _ j]) (simp add: nth_list_update)
  have "(drop t b) ! (j - t) = nul" "j - t < length (drop t b)" using j by auto
  moreover have "(drop t (b[k := x])) ! (j - t) = nul" "j - t < length (drop t (b[k := x]))"
    using j assms(2) by (auto simp: nth_list_update)
  moreover have "take (Suc (j - t)) (drop t (b[k := x])) = take (Suc (j - t)) (drop t b)"
    using j assms(2) by (simp add: drop_update_swap)
  ultimately show "c_str (drop t (b[k := x])) = c_str (drop t b)"
    by (metis c_str_take)
qed

definition reads :: "string \<Rightarrow> nat list \<Rightarrow> string list" where
  "reads b ts = map (\<lambda>t. c_str (drop t b)) ts"

lemma reads_update:
  assumes "\<forall>t\<in>set ts. sealed b e t" "e \<le> k"
  shows "reads (b[k := x]) ts = reads b ts"
  unfolding reads_def using assms by (intro map_cong [OF refl]) (blast intro: sealed_update(2))

lemma push_reads: "push_str b i (reads b ts) = reads b (push_ptr b i ts)"
  by (simp add: push_str_def push_ptr_def reads_def)

section \<open>The loops over quotes\<close>

lemma quote_loop_end:
  "e < length b \<Longrightarrow> b ! e = nul \<Longrightarrow>
     quote_loop push d q b i e a ts = Some (b, if i < e then push b i ts else ts)"
  by (subst quote_loop.simps) simp

lemma quote_loop_cut:
  assumes "e < length b" "b ! e \<noteq> nul" "quote_step q b i e a = (b', i', a')"
    "a' = nul \<and> StrIsDelim (b' ! e) d \<noteq> nul"
  shows "quote_loop push d q b i e a ts =
     quote_loop push d q (b'[e := nul]) (e + 1 + skip_delims d (drop (e + 1) (b'[e := nul])))
       (e + 1 + skip_delims d (drop (e + 1) (b'[e := nul]))) nul (push (b'[e := nul]) i' ts)"
  using assms by (subst quote_loop.simps) (simp add: Let_def)

lemma quote_loop_go:
  assumes "e < length b" "b ! e \<noteq> nul" "quote_step q b i e a = (b', i', a')"
    "\<not> (a' = nul \<and> StrIsDelim (b' ! e) d \<noteq> nul)"
  shows "quote_loop push d q b i e a ts = quote_loop push d q b' i' (e + 1) a' ts"
  using assms by (subst quote_loop.simps) (simp del: de_Morgan_conj)

text \<open>
  The invariant of the loop: the look-ahead index is in a buffer that ends with zero, and what
  \<^verbatim>\<open>begin\<close> has skipped beyond it are quotation characters.
\<close>

definition quote_inv :: "string \<Rightarrow> string \<Rightarrow> nat \<Rightarrow> nat \<Rightarrow> bool" where
  "quote_inv q b i e \<longleftrightarrow> e < length b \<and> last b = nul \<and>
     (\<forall>k. e \<le> k \<longrightarrow> k < i \<longrightarrow> StrIsDelim (b ! k) q \<noteq> nul)"

lemma last_update: "k < length b - 1 \<Longrightarrow> last (b[k := x]) = last b"
  by (cases "b = []") (simp_all add: last_conv_nth)

lemma last_by_nth: "e < length b \<Longrightarrow> last b = b ! (length b - 1)"
  by (rule last_conv_nth) auto

lemma not_last: "e < length b \<Longrightarrow> last b = nul \<Longrightarrow> b ! e \<noteq> nul \<Longrightarrow> e < length b - 1"
  by (cases "e = length b - 1") (auto simp: last_by_nth)

lemma quote_step_inv:
  assumes "quote_inv q b i e" "b ! e \<noteq> nul" "quote_step q b i e a = (b', i', a')"
  shows "quote_inv q b' i' (e + 1)" "b' = b \<or> b' = b[e := nul]"
    "a' = nul \<Longrightarrow> b' ! e \<noteq> nul \<Longrightarrow> i' \<le> e"
proof -
  have e: "e < length b" "last b = nul" and s: "\<And>k. e \<le> k \<Longrightarrow> k < i \<Longrightarrow> StrIsDelim (b ! k) q \<noteq> nul"
    using assms(1) by (auto simp: quote_inv_def)
  have e1: "e < length b - 1" using not_last [OF e assms(2)] .
  show b': "b' = b \<or> b' = b[e := nul]"
    using assms(3) by (auto simp: quote_step_def Let_def split: if_splits)
  then have l: "length b' = length b" "last b' = nul" using last_update [OF e1] e(2) by auto
  have "StrIsDelim (b' ! k) q \<noteq> nul" if k: "e + 1 \<le> k" "k < i'" for k
  proof (cases "k < i")
    case True
    then show ?thesis using s [of k] k(1) b' by (auto simp: nth_list_update)
  next
    case False
    then have "b' = b" "k - i < skip_delims q (drop i b)"
      using k assms(3) by (auto simp: quote_step_def Let_def split: if_splits)
    moreover have "skip_delims q (drop i b) \<le> length (drop i b)"
      unfolding skip_delims_takeWhile by (rule length_takeWhile_le)
    ultimately show ?thesis using skip_delims_nth [of "k - i" q "drop i b"] False by auto
  qed
  then show "quote_inv q b' i' (e + 1)" using l e1 by (simp add: quote_inv_def)
  show "i' \<le> e" if "a' = nul" "b' ! e \<noteq> nul"
  proof -
    have "i' = i" "StrIsDelim (b ! e) q = nul"
      using assms(3) that e(1) by (auto simp: quote_step_def Let_def split: if_splits)
    then show ?thesis using s [of e] by (cases "e < i") auto
  qed
qed

lemma skip_inside:
  assumes "e < length b" "last b = nul"
  shows "e + skip_delims d (drop e b) < length b"
proof -
  have "drop e b ! (length b - 1 - e) = nul" "length b - 1 - e < length (drop e b)"
    using assms last_by_nth [OF assms(1)] by auto
  from skip_delims_before_nul [OF this(2,1), of d] show ?thesis using assms(1) by linarith
qed

lemma quote_loop_agree:
  assumes "quote_inv q b i e" "\<forall>t\<in>set ts. sealed b e t"
  shows "\<exists>b' ts'. quote_loop push_ptr d q b i e a ts = Some (b', ts') \<and> length b' = length b \<and>
     quote_loop push_str d q b i e a (reads b ts) = Some (b', reads b' ts')"
  using assms
proof (induction "length b - e" arbitrary: b i e a ts rule: less_induct)
  case less
  note inv = less.prems(1)
  have e: "e < length b" "last b = nul" using inv by (auto simp: quote_inv_def)
  show ?case
  proof (cases "b ! e = nul")
    case True
    then show ?thesis using e
      by (simp add: quote_loop_end push_reads)
  next
    case False
    obtain b' i' a' where q: "quote_step q b i e a = (b', i', a')" by (metis prod_cases3)
    note st = quote_step_inv [OF inv False q]
    have l: "length b' = length b" using st(2) by auto
    have ts: "\<forall>t\<in>set ts. sealed b' e t" "reads b' ts = reads b ts"
      using st(2) less.prems(2) reads_update [OF less.prems(2), of e] sealed_update(1) [of b e] by auto
    show ?thesis
    proof (cases "a' = nul \<and> StrIsDelim (b' ! e) d \<noteq> nul")
      case cut: True
      define b'' where "b'' = b'[e := nul]"
      define e' where "e' = e + 1 + skip_delims d (drop (e + 1) b'')"
      have ie: "i' \<le> e" using st(3) cut StrIsDelim_nul by metis
      have "e + 1 < length b''" "last b'' = nul"
        using st(1) last_update [of e b'] by (auto simp: quote_inv_def b''_def)
      then have inv': "quote_inv q b'' e' e'"
        using skip_inside [of "e + 1" b'' d] by (simp add: quote_inv_def e'_def)
      have "sealed b'' e' i'" using ie e(1) l unfolding sealed_def b''_def e'_def
        by (intro exI [of _ e]) simp
      moreover have "sealed b'' e' t" if "t \<in> set ts" for t
        using ts(1) that sealed_update(1) [of b' e t e] sealed_mono [of b'' e t e'] by (simp add: b''_def e'_def)
      ultimately have seal: "\<forall>t\<in>set (push_ptr b'' i' ts). sealed b'' e' t" by (simp add: push_ptr_def)
      have "reads b ts = reads b'' ts" using ts reads_update [OF ts(1), of e] by (simp add: b''_def)
      then have r: "push_str b'' i' (reads b ts) = reads b'' (push_ptr b'' i' ts)" by (simp add: push_reads)
      have steps: "quote_loop push_ptr d q b i e a us = quote_loop push_ptr d q b'' e' e' nul (push_ptr b'' i' us)"
        "quote_loop push_str d q b i e a vs = quote_loop push_str d q b'' e' e' nul (push_str b'' i' vs)" for us vs
        unfolding e'_def b''_def by (rule quote_loop_cut [OF e(1) False q cut])+
      have "length b'' - e' < length b - e" using e l by (simp add: b''_def e'_def)
      from less.hyps [OF this inv' seal, of a'] show ?thesis
        using cut l r by (simp add: steps) (simp add: b''_def)
    next
      case go: False
      have "length b' - (e + 1) < length b - e" using e l by simp
      moreover have "\<forall>t\<in>set ts. sealed b' (e + 1) t" using ts(1) sealed_mono [of b' e] by simp
      ultimately show ?thesis
        using less.hyps [of b' "e + 1" i' ts a'] st(1) False e q go l ts(2)
        by (simp add: quote_loop_go)
    qed
  qed
qed

text \<open>A quoted word is scanned to its closing quote, which becomes the zero of its token.\<close>

lemma quote_loop_scan:
  assumes "\<forall>c\<in>set w. c \<noteq> nul \<and> StrIsDelim c q = nul" "a \<noteq> nul"
  shows "quote_loop push d q (pre @ w @ rest) i (length pre) a ts =
     quote_loop push d q (pre @ w @ rest) i (length pre + length w) a ts"
  using assms(1)
proof (induction w arbitrary: pre)
  case (Cons c w)
  have "quote_step q (pre @ (c # w) @ rest) i (length pre) a = (pre @ (c # w) @ rest, i, a)"
    using Cons.prems by (simp add: quote_step_def nth_append)
  from quote_loop_go [OF _ _ this, of d push ts] show ?case
    using Cons.IH [of "pre @ [c]"] Cons.prems assms(2) by (simp add: nth_append)
qed simp

lemma quote_loop_word:
  assumes "\<forall>c\<in>set w. c \<noteq> nul \<and> StrIsDelim c q = nul" "w \<noteq> []" "StrIsDelim qc q = qc" "qc \<noteq> nul"
  shows "quote_loop push d q (pre @ qc # w @ qc # rest) (length pre) (length pre) nul ts =
     quote_loop push d q (pre @ qc # w @ nul # rest) (length pre + 1) (length pre + length w + 2) nul ts"
proof -
  let ?b = "pre @ qc # w @ qc # rest"
  let ?n = "length pre"
  have "skip_delims q (qc # w @ qc # rest) = 1" using assms by (cases w) auto
  then have open_q: "quote_step q ?b ?n ?n nul = (?b, ?n + 1, qc)"
    using assms(3,4) by (simp add: quote_step_def nth_append)
  have close: "quote_step q ?b (?n + 1) (?n + 1 + length w) qc = (pre @ qc # w @ nul # rest, ?n + 1, nul)"
    using assms(3,4) by (simp add: quote_step_def nth_append list_update_append)
  have "quote_loop push d q ?b ?n ?n nul ts = quote_loop push d q ?b (?n + 1) (?n + 1) qc ts"
    using quote_loop_go [OF _ _ open_q] assms(4) by (simp add: nth_append)
  also have "\<dots> = quote_loop push d q ?b (?n + 1) (?n + 1 + length w) qc ts"
    using quote_loop_scan [OF assms(1,4), of push d "pre @ [qc]" "qc # rest" "?n + 1" ts] by simp
  also have "\<dots> = quote_loop push d q (pre @ qc # w @ nul # rest) (?n + 1) (?n + length w + 2) nul ts"
    using quote_loop_go [OF _ _ close] assms(4) by (simp add: nth_append)
  finally show ?thesis .
qed

definition quoted :: "char \<Rightarrow> string \<Rightarrow> string" where
  "quoted qc w = qc # w @ [qc]"

lemma push_quoted:
  "\<forall>c\<in>set w. c \<noteq> nul \<Longrightarrow> push_str (pre @ qc # w @ nul # rest) (length pre + 1) ts = ts @ [w]"
  using c_str_cut [of w rest] by (auto simp: push_str_def is_c_str_def)

lemma quote_loop_words:
  assumes "StrIsDelim qc q = qc" "qc \<noteq> nul" "StrIsDelim qc d = nul"
    "StrIsDelim dc d = dc" "dc \<noteq> nul" "StrIsDelim dc q = nul"
  shows "ws \<noteq> [] \<Longrightarrow> \<forall>w\<in>set ws. w \<noteq> [] \<and> (\<forall>c\<in>set w. c \<noteq> nul \<and> StrIsDelim c q = nul) \<Longrightarrow>
     map_option snd (quote_loop push_str d q (pre @ sep_by [dc] (map (quoted qc) ws) @ [nul])
       (length pre) (length pre) nul ts) = Some (ts @ ws)"
proof (induction ws arbitrary: pre ts)
  case (Cons w ws)
  then have w: "\<forall>c\<in>set w. c \<noteq> nul \<and> StrIsDelim c q = nul" "w \<noteq> []" by auto
  note word = quote_loop_word [OF w assms(1,2)] and IH = Cons.IH and prems = Cons.prems
  show ?case
  proof (cases ws)
    case Nil
    show ?thesis
      using word [of push_str d pre "[nul]" ts] push_quoted [of w pre qc "[nul]" ts] w(1)
      by (simp add: Nil quoted_def quote_loop_end nth_append)
  next
    case (Cons v vs)
    define rest where "rest = sep_by [dc] (map (quoted qc) ws) @ [nul]"
    define b where "b = pre @ qc # w @ nul # dc # rest"
    define n where "n = length pre + length w + 2"
    have hd: "skip_delims d rest = 0"
      using assms(3) by (cases vs) (simp_all add: rest_def Cons quoted_def)
    have st: "quote_step q b (length pre + 1) n nul = (b, length pre + 1, nul)"
      using assms(6) by (simp add: quote_step_def b_def n_def nth_append Let_def)
    have upd: "b[n := nul] = (pre @ qc # w @ [nul, nul]) @ rest"
      by (simp add: b_def n_def list_update_append)
    have n: "b ! n = dc" "n < length b" "drop (n + 1) b = rest"
      by (simp_all add: b_def n_def nth_append numeral_3_eq_3)
    have pushed: "push_str (b[n := nul]) (length pre + 1) ts = ts @ [w]"
      using push_quoted [of w pre qc "nul # rest" ts] w(1) by (simp add: upd)
    have "quote_loop push_str d q b (length pre + 1) n nul ts =
        quote_loop push_str d q (b[n := nul]) (n + 1) (n + 1) nul (ts @ [w])"
      using quote_loop_cut [OF n(2) _ st, of d push_str ts] n assms(4,5) hd pushed by simp
    moreover have "quote_loop push_str d q (pre @ sep_by [dc] (map (quoted qc) (w # ws)) @ [nul])
        (length pre) (length pre) nul ts = quote_loop push_str d q b (length pre + 1) n nul ts"
      using word [of push_str d pre "dc # rest" ts]
      by (simp add: Cons quoted_def b_def n_def rest_def)
    moreover have "n + 1 = length (pre @ qc # w @ [nul, nul])" by (simp add: n_def)
    ultimately show ?thesis
      using IH [of "pre @ qc # w @ [nul, nul]" "ts @ [w]"] prems Cons
      unfolding upd rest_def by simp
  qed
qed simp

section \<open>The loops over a long delimiter\<close>

definition drop_empty_last :: "string list \<Rightarrow> string list" where
  "drop_empty_last ps = (if last ps = [] then butlast ps else ps)"

lemma drop_empty_last_Cons: "ps \<noteq> [] \<Longrightarrow> drop_empty_last (p # ps) = p # drop_empty_last ps"
  by (simp add: drop_empty_last_def)

text \<open>One cut: the token, the rest and the buffer after it.\<close>

lemma strstr_cut:
  assumes "is_c_str s" "strstr s delim = Some i" "delim \<noteq> []" "b = pre @ s @ [nul]"
  shows "b[length pre + i := nul] =
      (pre @ take i s @ nul # tl delim) @ drop (i + length delim) s @ [nul]"
    "c_str (drop (length pre) (b[length pre + i := nul])) = take i s"
    "length (pre @ take i s @ nul # tl delim) = length pre + i + length delim"
    "length (drop (i + length delim) s) < length s"
proof -
  note at = strstr_Some [OF assms(2)]
  obtain x xs where d: "delim = x # xs" using assms(3) by (cases delim) auto
  have "s = take i s @ delim @ drop (i + length delim) s"
    using at by (metis append_take_drop_id drop_drop add.commute)
  then obtain u v where u: "s = u @ x # xs @ v" "length u = i" "v = drop (i + length delim) s" "u = take i s"
    using at d by (metis append_Cons length_take min.absorb2 add_leD1)
  have "s[i := nul] = u @ nul # xs @ v" by (subst u(1)) (simp add: u(2) [symmetric])
  moreover have "i < length s" using at d by simp
  ultimately show 1: "b[length pre + i := nul] =
      (pre @ take i s @ nul # tl delim) @ drop (i + length delim) s @ [nul]"
    using d u(3,4) assms(4) by (simp add: list_update_append)
  have "is_c_str (take i s)" using assms(1) by (auto simp: is_c_str_def dest: in_set_takeD)
  then show "c_str (drop (length pre) (b[length pre + i := nul])) = take i s"
    unfolding 1 by (simp add: c_str_cut)
  show "length (pre @ take i s @ nul # tl delim) = length pre + i + length delim"
    using d at by simp
  show "length (drop (i + length delim) s) < length s"
    using d at unfolding length_drop by (metis add_gr_0 diff_less length_greater_0_conv list.distinct(1) order_less_le_trans)
qed

lemma strstr_loop_pieces:
  assumes "delim \<noteq> []"
  shows "is_c_str s \<Longrightarrow> \<forall>t\<in>set ts. sealed (pre @ s @ [nul]) (length pre) t \<Longrightarrow>
     \<exists>b' ts'. strstr_loop push_ptr delim (pre @ s @ [nul]) (length pre) ts = Some (b', ts') \<and>
       strstr_loop push_str delim (pre @ s @ [nul]) (length pre) (reads (pre @ s @ [nul]) ts) =
         Some (b', reads b' ts') \<and>
       reads b' ts' = reads (pre @ s @ [nul]) ts @ drop_empty_last (pieces delim s)"
proof (induction s arbitrary: pre ts rule: length_induct)
  case (1 s)
  let ?b = "pre @ s @ [nul]"
  have rd: "c_str (drop (length pre) ?b) = s"
    using 1(2) by (simp add: c_str_cut)
  show ?case
  proof (cases "strstr s delim")
    case None
    then show ?thesis
      using rd by (subst (1 2) strstr_loop.simps)
        (auto simp: pieces_end drop_empty_last_def push_reads reads_def push_ptr_def push_str_def)
  next
    case (Some i)
    define b where "b = ?b[length pre + i := nul]"
    define pre' where "pre' = pre @ take i s @ nul # tl delim"
    define s' where "s' = drop (i + length delim) s"
    note cut = strstr_cut [where pre = pre, OF 1(2) Some assms refl, folded b_def pre'_def s'_def]
    have seal: "sealed b (length pre') t" if "t = length pre \<or> t \<in> set ts" for t
    proof (cases "t = length pre")
      case True
      then show ?thesis using strstr_Some [OF Some] cut(3) assms unfolding sealed_def b_def
        by (intro exI [of _ "length pre + i"]) simp
    next
      case False
      then show ?thesis using that 1(3) cut(3) sealed_update(1) [of ?b "length pre" t]
          sealed_mono [of b "length pre" t] by (simp add: b_def)
    qed
    have r: "reads b ts = reads ?b ts" using reads_update [OF 1(3), of "length pre + i"] by (simp add: b_def)
    have "is_c_str s'" using 1(2) by (auto simp: is_c_str_def s'_def dest: in_set_dropD)
    then obtain b' ts' where ih: "strstr_loop push_ptr delim b (length pre') (push_ptr b (length pre) ts) = Some (b', ts')"
      "strstr_loop push_str delim b (length pre') (reads b (push_ptr b (length pre) ts)) = Some (b', reads b' ts')"
      "reads b' ts' = reads b (push_ptr b (length pre) ts) @ drop_empty_last (pieces delim s')"
      using 1(1) [rule_format, OF cut(4), of "push_ptr b (length pre) ts" pre'] seal cut(1)
      by (auto simp: push_ptr_def)
    have "reads b (push_ptr b (length pre) ts) = reads ?b ts @ [take i s]"
      using r cut(2) by (simp add: reads_def push_ptr_def)
    moreover have "pieces delim s = take i s # pieces delim s'" by (simp add: pieces_step [OF assms Some] s'_def)
    moreover have "push_str b (length pre) (reads ?b ts) = reads b (push_ptr b (length pre) ts)"
      using r by (simp add: push_reads [symmetric])
    ultimately show ?thesis
      using ih rd Some cut(3)
      by (subst (1 2) strstr_loop.simps) (simp add: b_def [symmetric] Let_def drop_empty_last_Cons)
  qed
qed

lemma strstr_loop_empty: "strstr_loop push [] b p ts = None"
proof (cases "strstr_loop push [] b p ts")
  case (Some r)
  have "([] :: string) \<noteq> []"
    by (rule strstr_loop.raw_induct [OF _ Some, where P = "\<lambda>f d b p t r. d \<noteq> []"])
      (auto simp: strstr_empty Let_def split: option.splits)
  then show ?thesis by simp
qed

section \<open>Properties\<close>

text \<open>
  Quoted words survive: a list of non-empty words, each between two quotation
  characters and joined by one delimiter, is tokenized into exactly these words, whatever delimiters
  they contain; the words themselves only may not contain a quotation character or a zero.
\<close>

theorem quoted_words_survive:
  assumes "qc \<in> set (c_str q)" "qc \<notin> set (c_str d)" "dc \<in> set (c_str d)" "dc \<notin> set (c_str q)"
    "ws \<noteq> []" "\<forall>w\<in>set ws. w \<noteq> [] \<and> is_c_str w \<and> set w \<inter> set (c_str q) = {}"
  shows "StrTokenize_quote_vec (sep_by [dc] (map (quoted qc) ws)) d q = Some ws"
proof -
  have nn: "qc \<noteq> nul" "dc \<noteq> nul"
    using assms(1,3) is_c_str_c_str unfolding is_c_str_def by metis+
  have "\<forall>w\<in>set ws. w \<noteq> [] \<and> (\<forall>c\<in>set w. c \<noteq> nul \<and> StrIsDelim c q = nul)"
    using assms(6) by (auto simp: StrIsDelim_in is_c_str_def)
  moreover have "StrIsDelim qc q = qc" "StrIsDelim qc d = nul" "StrIsDelim dc d = dc" "StrIsDelim dc q = nul"
    using assms(1-4) nn by (simp_all add: StrIsDelim_in)
  ultimately show ?thesis
    using quote_loop_words [of qc q d dc ws "[]" "[]"] assms(5) nn
    by (simp add: StrTokenize_quote_vec_def)
qed

theorem quoted_words_survive_witness:
  "StrTokenize_quote_vec (sep_by '' '' (map (quoted (CHR ''|'')) [''a b'', ''c''])) '' ;'' ''|'' =
   Some [''a b'', ''c'']"
  using quoted_words_survive [of "CHR ''|''" "''|''" "'' ;''" "CHR '' ''" "[''a b'', ''c'']"]
  by (simp add: c_str_def is_c_str_def)

text \<open>
  Property C28. Cutting in place is safe: on every text the pointer tokenizers return without a read
  past the buffer, keep its length, and the pointers they return read as the tokens that the copying
  tokenizers return. A delimiter of several characters cuts the text into the pieces between its
  occurrences, of which an empty last one is dropped; the tokens of \<^verbatim>\<open>strtok\<close> are never empty and
  free of delimiters. An empty long delimiter is a loop that never ends.
\<close>

theorem tokenize_in_place:
  assumes "is_c_str s" "delim \<noteq> []" "is_c_str delim"
  shows "(\<exists>b ts. StrTokenize_quote_ptr (s @ [nul]) d q = Some (b, ts) \<and> length b = length s + 1 \<and>
       StrTokenize_quote_vec s d q = Some (reads b ts)) \<and>
     (\<exists>b ts. StrStrTokenize_ptr (s @ [nul]) delim = Some (b, ts) \<and>
       StrStrTokenize_vec s delim = Some (reads b ts) \<and>
       reads b ts = drop_empty_last (pieces delim s)) \<and>
     StrStrTokenize_vec s [] = None \<and>
     (\<forall>t\<in>set (StrTokenize_vec s d). t \<noteq> [] \<and> set t \<inter> set (c_str d) = {} \<and> set t \<subseteq> set s) \<and>
     StrTokenize_set s d = set (StrTokenize_vec s d)"
proof -
  have s: "c_str s = s" "c_str delim = delim" using assms by (simp_all add: c_str_id)
  obtain b ts where q: "quote_loop push_ptr d q (s @ [nul]) 0 0 nul [] = Some (b, ts)"
      "length b = length (s @ [nul])"
      "quote_loop push_str d q (s @ [nul]) 0 0 nul (reads (s @ [nul]) []) = Some (b, reads b ts)"
    using quote_loop_agree [of q "s @ [nul]" 0 0 "[]" d nul] by (auto simp: quote_inv_def)
  obtain b' ts' where p: "strstr_loop push_ptr delim (s @ [nul]) 0 [] = Some (b', ts')"
      "strstr_loop push_str delim (s @ [nul]) 0 [] = Some (b', reads b' ts')"
      "reads b' ts' = drop_empty_last (pieces delim s)"
    using strstr_loop_pieces [OF assms(2,1), of "[]" "[]"] by (auto simp: reads_def)
  have "fold insert xs A = set xs \<union> A" for xs and A :: "string set" by (induction xs arbitrary: A) auto
  then have "StrTokenize_set s d = set (StrTokenize_vec s d)"
    by (simp add: StrTokenize_set_def StrTokenize_vec_def)
  moreover have "\<forall>t\<in>set (StrTokenize_vec s d). t \<noteq> [] \<and> set t \<inter> set (c_str d) = {} \<and> set t \<subseteq> set s"
    using strtok_list_tokens [of _ "strtok_delim d" s] s(1)
    by (fastforce simp: StrTokenize_vec_def strtok_delim_def)
  moreover have "StrStrTokenize_vec s [] = None"
    by (simp add: StrStrTokenize_vec_def c_str_def strstr_loop_empty)
  ultimately show ?thesis
    using q p s by (simp add: StrTokenize_quote_ptr_def StrTokenize_quote_vec_def StrStrTokenize_ptr_def
        StrStrTokenize_vec_def reads_def)
qed

theorem tokenize_in_place_witness:
  "StrStrTokenize_vec ''a--b--'' ''--'' = Some (drop_empty_last (pieces ''--'' ''a--b--''))"
  using tokenize_in_place [of "''a--b--''" "''--''" "[]" "[]"] by (auto simp: is_c_str_def)

text \<open>
  \<open>StrSplit\<close> and joining are inverse: it fails, and leaves the token alone, exactly when
  an argument is missing or the character does not occur; otherwise the two pointers read as the parts
  before and after its first occurrence.
\<close>

theorem split_pair:
  assumes "is_c_str s" "splitChar \<noteq> nul"
  shows "case StrSplit (Some (s @ [nul])) True True splitChar of
       (code, None) \<Rightarrow> code = -1 \<and> splitChar \<notin> set s
     | (code, Some (b, l, r)) \<Rightarrow> code = 0 \<and> s = c_str (drop l b) @ splitChar # c_str (drop r b) \<and>
         splitChar \<notin> set (c_str (drop l b)) \<and> length b = length s + 1"
proof (cases "splitChar \<in> set s")
  case True
  then obtain u v where uv: "s = u @ splitChar # v" "splitChar \<notin> set u" by (meson split_list_first)
  have c: "is_c_str u" "is_c_str v" using assms(1) uv(1) by (auto simp: is_c_str_def)
  have "c_str (s @ [nul]) = s" using assms(1) by (rule c_str_cut)
  moreover have "strchr s splitChar = Some (length u)" using uv by (simp add: strchr_append)
  moreover have "(s @ [nul])[length u := nul] = u @ nul # v @ [nul]" using uv(1) by simp
  ultimately show ?thesis
    using assms(2) uv c c_str_cut [OF c(1), of "v @ [nul]"] c_str_cut [OF c(2), of "[]"]
    by (simp add: StrSplit_def)
next
  case False
  have "c_str (s @ [nul]) = s" using assms(1) by (rule c_str_cut)
  then show ?thesis using assms(2) False by (simp add: StrSplit_def strchr_None [THEN iffD2])
qed

theorem split_pair_witness:
  "StrSplit (Some (''a=b'' @ [nul])) True True (CHR ''='') = (0, Some (''a'' @ nul # ''b'' @ [nul], 0, 2))"
proof -
  have "is_c_str ''a=b'' \<and> CHR ''='' \<noteq> nul" by (simp add: is_c_str_def)
  with split_pair [of "''a=b''" "CHR ''=''"] show ?thesis
    by (simp add: StrSplit_def strchr_def c_str_def)
qed

end
