(* ===== verification/Sftp_Wire.thy ===== *)
theory Sftp_Wire
  imports Str_Binary Request_Pool Complex_Main
begin

text \<open>
  The wire of the SFTP client (\<^verbatim>\<open>LibSftp/SftpClient.cpp\<close>): how requests are sent, how the reading
  thread cuts the incoming bytes into packets and hands them to the waiting requests of the pool, and
  \<open>processPacket\<close>, which puts the two together. The operating system is a parameter: what its calls
  \<^verbatim>\<open>write\<close>, \<^verbatim>\<open>send\<close>, \<^verbatim>\<open>read\<close> and \<^verbatim>\<open>recv\<close> do to a world, and a clock. The thread that calls
  \<open>processPacket\<close> and the reading thread are shown in the order in which they wait for each other: a
  blocked \<open>wait\<close> lets the reading thread take its next round. \<^const>\<open>None\<close> is a run that has no
  defined meaning, or that never returns because nobody is left to serve the request.

  The statistics of the network, the traces and the names are left out.
\<close>

section \<open>Constants (Sftp.h)\<close>

definition SSH2_FILEXFER_VERSION :: u32 where "SSH2_FILEXFER_VERSION = 3"
definition SFTP_DEFAULT_SECTOR_SIZE :: int where "SFTP_DEFAULT_SECTOR_SIZE = 32768"
definition SFTP_PARTIAL_READ_TIMEOUT :: int where "SFTP_PARTIAL_READ_TIMEOUT = 10"
definition SFTP_PARTIAL_WRITE_TIMEOUT :: int where "SFTP_PARTIAL_WRITE_TIMEOUT = 10"

definition SFTP_CLIENT_FD :: int where "SFTP_CLIENT_FD = 0"
definition SFTP_CLIENT_SOCKET :: int where "SFTP_CLIENT_SOCKET = 1"

definition SSH2_FXP_INIT :: byte where "SSH2_FXP_INIT = 1"

section \<open>State\<close>

record 'w os =
  os_write :: "'w \<Rightarrow> byte list \<Rightarrow> int \<times> 'w"
  os_send :: "'w \<Rightarrow> byte list \<Rightarrow> int \<times> 'w"
  os_read :: "'w \<Rightarrow> nat \<Rightarrow> byte list \<times> 'w"
  os_recv :: "'w \<Rightarrow> nat \<Rightarrow> byte list \<times> 'w"
  os_clock :: "'w \<Rightarrow> real"

text \<open>
  An object of \<^verbatim>\<open>SftpClient\<close> with the local variables of its reading thread. \<open>strings\<close> holds the
  answer strings by their address, \<open>mutex_count\<close> the locks minus the unlocks of \<^verbatim>\<open>mutex_\<close>,
  \<open>dropped\<close> the calls of the connection-dropped callback, \<open>counter\<close> the static counter of
  \<^verbatim>\<open>GenerateUniqueId\<close>. \<open>rd_head\<close> is \<^const>\<open>None\<close> while the variables are uninitialised.
\<close>

record 'w sftp =
  fdType :: int
  sectorSize :: int
  partialReadThreshold :: int
  partialWriteThreshold :: int
  dead :: bool
  dropped :: nat
  mutex_count :: nat
  counter :: int
  rpool :: "Request list"
  strings :: "nat \<Rightarrow> byte list"
  rd_buf :: "byte list"
  rd_total :: nat
  rd_head :: "(u32 \<times> u32 \<times> byte) option"
  rd_alive :: bool
  world :: 'w

definition SftpClient_shutdown :: "'w sftp \<Rightarrow> 'w sftp" where
  "SftpClient_shutdown st = st\<lparr>dead := True, dropped := dropped st + 1\<rparr>"

definition GenerateUniqueId :: "'w sftp \<Rightarrow> (int \<times> 'w sftp) run" where
  "GenerateUniqueId st = do { n \<leftarrow> cint_add (counter st) 1; Some (counter st, st\<lparr>counter := n\<rparr>) }"

section \<open>Packets\<close>

definition SftpClient_packetComplete :: "byte list \<Rightarrow> int \<Rightarrow> int run" where
  "SftpClient_packetComplete packet realSize =
     (if length packet > 4 \<and> realSize > 4 then do {
        src \<leftarrow> mem_read packet 0 4;
        let expectedSize = sint (word_of_le [src ! 3, src ! 2, src ! 1, src ! 0] :: u32);
        n \<leftarrow> cint_add expectedSize 4;
        Some (if realSize \<ge> n then 1 else 0)
      } else Some 0)"

definition SftpClient_decodePacketHead ::
    "(u32 \<times> u32 \<times> byte) option \<Rightarrow> byte list \<Rightarrow> int \<Rightarrow> (int \<times> (u32 \<times> u32 \<times> byte) option) run" where
  "SftpClient_decodePacketHead old packet realSize =
     (if realSize \<ge> 9 then do {
        tmp \<leftarrow> memcpy (replicate 9 0) 0 packet 0 9;
        (_, sz, tmp) \<leftarrow> StrPopDword_str (Some 0) tmp STR_BIG_ENDIAN;
        (_, ty, tmp) \<leftarrow> StrPopByte_str (Some 0) tmp;
        (_, ident, tmp) \<leftarrow> StrPopDword_str (Some 0) tmp STR_BIG_ENDIAN;
        Some (0, Some (the sz, the ident, the ty))
      } else Some (-1, old))"

section \<open>Sending\<close>

text \<open>
  The loop around \<^verbatim>\<open>write\<close> or \<^verbatim>\<open>send\<close>: whether it ended without an error, the bytes written in all,
  the result of the last call, and the world.
\<close>

function send_loop ::
    "('w \<Rightarrow> byte list \<Rightarrow> int \<times> 'w) \<Rightarrow> byte list \<Rightarrow> nat \<Rightarrow> int \<Rightarrow> 'w \<Rightarrow> bool \<times> nat \<times> int \<times> 'w" where
  "send_loop out packet totalWritten written w =
     (if totalWritten < length packet
      then case out w (drop totalWritten packet) of
             (n, w') \<Rightarrow> if n > 0 then send_loop out packet (totalWritten + nat n) n w'
                        else (False, totalWritten, n, w')
      else (True, totalWritten, written, w))"
  by pat_completeness auto
termination
  by (relation "measure (\<lambda>(out, p, t, n, w). length p - t)") auto

declare send_loop.simps [simp del]

definition sys_out :: "'w os \<Rightarrow> int \<Rightarrow> ('w \<Rightarrow> byte list \<Rightarrow> int \<times> 'w) option" where
  "sys_out os ty = (if ty = SFTP_CLIENT_FD then Some (os_write os)
     else if ty = SFTP_CLIENT_SOCKET then Some (os_send os) else None)"

text \<open>For any other descriptor type no call is made and the number of bytes read stays zero or negative.\<close>

definition sys_in :: "'w os \<Rightarrow> int \<Rightarrow> ('w \<Rightarrow> nat \<Rightarrow> byte list \<times> 'w) option" where
  "sys_in os ty = Some (if ty = SFTP_CLIENT_FD then os_read os
     else if ty = SFTP_CLIENT_SOCKET then os_recv os else (\<lambda>w n. ([], w)))"

section \<open>Receiving\<close>

datatype fill = Complete | TooBig | Closed

text \<open>
  Reading until the buffer holds a complete packet. A call that returns no bytes stands for a result
  that is zero or negative; more bytes than fit would be written past the buffer.
\<close>

function fill_loop ::
    "('w \<Rightarrow> nat \<Rightarrow> byte list \<times> 'w) \<Rightarrow> byte list \<Rightarrow> nat \<Rightarrow> 'w \<Rightarrow> (fill \<times> byte list \<times> nat \<times> 'w) run" where
  "fill_loop inp buf totalReaded w =
     (case SftpClient_packetComplete buf (int totalReaded) of
        None \<Rightarrow> None
      | Some c \<Rightarrow>
          if c \<noteq> 0 then Some (Complete, buf, totalReaded, w)
          else if length buf \<le> totalReaded then Some (TooBig, buf, totalReaded, w)
          else case inp w (length buf - totalReaded) of
                 (bs, w') \<Rightarrow>
                   if bs = [] then Some (Closed, buf, totalReaded, w')
                   else if length buf - totalReaded < length bs then None
                   else fill_loop inp
                          (take totalReaded buf @ bs @ drop (totalReaded + length bs) buf)
                          (totalReaded + length bs) w')"
  by pat_completeness auto
termination
  by (relation "measure (\<lambda>(inp, b, t, w). length b - t)") (auto simp flip: length_greater_0_conv)

declare fill_loop.simps [simp del]

text \<open>The part of \<open>readLoop\<close> after a complete packet was read.\<close>

definition deliver :: "'w sftp \<Rightarrow> 'w sftp run" where
  "deliver st = do {
     (_, head) \<leftarrow> SftpClient_decodePacketHead (rd_head st) (rd_buf st) (int (rd_total st));
     (sz, ident, ty) \<leftarrow> head;
     let packetSize = min (sint (sz + 4)) (int (rd_total st));
     st' \<leftarrow> (case RequestPool_find (sint ident) (rpool st) of
               None \<Rightarrow> Some st
             | Some k \<Rightarrow>
                 let p = outputData (rpool st ! k) in do {
                   strs \<leftarrow> (if p \<noteq> 0 then do {
                              out \<leftarrow> str_resize packetSize (strings st p);
                              out' \<leftarrow> memcpy out 0 (rd_buf st) 0 (size_t packetSize);
                              Some ((strings st)(p := out'))
                            } else Some (strings st));
                   Some (st\<lparr>strings := strs, rpool := Request_serve k (rpool st)\<rparr>)
                 });
     buf \<leftarrow> (if int (rd_total st) > packetSize
             then memcpy_within (rd_buf st) 0 (size_t packetSize)
                    (size_t (int (rd_total st) - packetSize))
             else Some (rd_buf st));
     Some (st'\<lparr>rd_buf := buf, rd_total := nat (int (rd_total st) - packetSize), rd_head := head\<rparr>)
   }"

text \<open>One round of \<open>readLoop\<close>; the thread ends when it fails (the routine has no \<^verbatim>\<open>return\<close> there; what follows in the dying thread is not described).\<close>

definition SftpClient_readLoop :: "'w os \<Rightarrow> 'w sftp \<Rightarrow> 'w sftp run" where
  "SftpClient_readLoop os st = do {
     inp \<leftarrow> sys_in os (fdType st);
     (k, buf, got, w) \<leftarrow> fill_loop inp (rd_buf st) (rd_total st) (world st);
     let st' = st\<lparr>rd_buf := buf, rd_total := got, world := w\<rparr>;
     case k of
       Complete \<Rightarrow> deliver st'
     | TooBig \<Rightarrow> Some ((SftpClient_shutdown (SftpClient_shutdown st'))\<lparr>rd_alive := False\<rparr>)
     | Closed \<Rightarrow> Some ((SftpClient_shutdown st')\<lparr>rd_alive := False\<rparr>)
   }"

section \<open>Requests and answers\<close>

text \<open>
  \<open>rpool_ -> wait(id)\<close> in the calling thread: while it is blocked the reading thread goes on, and
  when that thread has ended the call never returns.
\<close>

partial_function (option) await :: "'w os \<Rightarrow> int \<Rightarrow> 'w sftp \<Rightarrow> (int \<times> 'w sftp) option" where
  "await os ident st =
     (case RequestPool_wait ident (-1) 0 [] (rpool st) of
        Some (rc, tbl) \<Rightarrow> Some (rc, st\<lparr>rpool := tbl\<rparr>)
      | None \<Rightarrow>
          if rd_alive st
          then (case SftpClient_readLoop os st of None \<Rightarrow> None | Some st' \<Rightarrow> await os ident st')
          else None)"

text \<open>The address of the caller's string \<^verbatim>\<open>packet\<close>, which is both the request and the answer.\<close>

definition packet_addr :: nat where
  "packet_addr = 1"

text \<open>
  The mutex of the client, with the calls of Windows: locks are counted, and a thread that releases a
  mutex it does not own is refused without effect (a count of 0 stays 0). This happens in every successful \<open>processPacket\<close>,
  which unlocks once after sending and once more at its end; with POSIX threads the second call is
  undefined.
\<close>

definition mutex_lock :: "'w sftp \<Rightarrow> 'w sftp" where
  "mutex_lock st = st\<lparr>mutex_count := mutex_count st + 1\<rparr>"

definition mutex_unlock :: "'w sftp \<Rightarrow> 'w sftp" where
  "mutex_unlock st = st\<lparr>mutex_count := mutex_count st - 1\<rparr>"

text \<open>The exit code, the answer, the time the request took, and the new state.\<close>

definition SftpClient_processPacket ::
    "'w os \<Rightarrow> byte list \<Rightarrow> 'w sftp \<Rightarrow> (int \<times> byte list \<times> real \<times> 'w sftp) run" where
  "SftpClient_processPacket os packet st0 = do {
     let packetSize = csize packet;
     (_, head) \<leftarrow> SftpClient_decodePacketHead None packet packetSize;
     (sz, ident, ty) \<leftarrow> head;
     let st1 = st0\<lparr>strings := (strings st0)(packet_addr := packet),
                   rpool := snd (RequestPool_push (sint ident) 0 packet_addr (rpool st0))\<rparr>;
     let startTime = os_clock os (world st1);
     let (ok, sent, n, st2) =
       (case sys_out os (fdType st1) of
          None \<Rightarrow> (True, 0, -1, st1)
        | Some out \<Rightarrow>
            (case send_loop out packet 0 (-1) (world st1) of
               (ok, sent, n, w) \<Rightarrow>
                 let s = (mutex_lock st1)\<lparr>world := w\<rparr> in
                 if ok then (True, sent, n, mutex_unlock s)
                 else (False, sent, n, SftpClient_shutdown s)));
     if \<not> ok \<or> int sent \<noteq> packetSize
     then let s = mutex_unlock (SftpClient_shutdown st2) in
          Some (-1, strings s packet_addr, 0, s)
     else do {
       (_, st3) \<leftarrow> await os (sint ident) st2;
       let elapsed = os_clock os (world st3) - startTime;
       let st4 = mutex_unlock st3;
       Some (0, strings st4 packet_addr, elapsed, st4)
     }
   }"

text \<open>The first exchange, before the reading thread is started.\<close>

definition SftpClient_processPacketSimple ::
    "'w os \<Rightarrow> byte list \<Rightarrow> 'w sftp \<Rightarrow> (int \<times> byte list \<times> 'w sftp) run" where
  "SftpClient_processPacketSimple os packet st0 = do {
     let st1 = mutex_lock st0;
     let (ok, sent, n, st2) =
       (case sys_out os (fdType st1) of
          None \<Rightarrow> (True, 0, -1, st1)
        | Some out \<Rightarrow>
            (case send_loop out packet 0 (-1) (world st1) of
               (ok, sent, n, w) \<Rightarrow>
                 let s = st1\<lparr>world := w\<rparr> in
                 (ok, sent, n, if ok then s else SftpClient_shutdown s)));
     if \<not> ok \<or> sent \<noteq> length packet
     then Some (-1, packet, mutex_unlock (SftpClient_shutdown st2))
     else do {
       answer \<leftarrow> str_resize 65536 packet;
       inp \<leftarrow> sys_in os (fdType st2);
       (k, buf, n, w) \<leftarrow> fill_loop inp answer 0 (world st2);
       let st3 = st2\<lparr>world := w\<rparr>;
       case k of
         Complete \<Rightarrow> Some (0, take n buf, mutex_unlock st3)
       | TooBig \<Rightarrow> Some (-1, buf, mutex_unlock (SftpClient_shutdown (SftpClient_shutdown st3)))
       | Closed \<Rightarrow> Some (-1, buf, mutex_unlock (SftpClient_shutdown st3))
     }
   }"

text \<open>
  The constructor; \<open>junk\<close> is the memory that the request pool finds. The reading thread is started
  by \<open>connect\<close>, with its own buffer of 64 kB.
\<close>

definition SftpClient_new :: "int \<Rightarrow> (nat \<Rightarrow> nat \<times> nat) \<Rightarrow> int \<Rightarrow> 'w \<Rightarrow> 'w sftp run" where
  "SftpClient_new ty junk count w = do {
     pool \<leftarrow> RequestPool_new 8 (Some ''SftpClient'') junk;
     Some \<lparr>fdType = ty, sectorSize = SFTP_DEFAULT_SECTOR_SIZE,
       partialReadThreshold = SFTP_PARTIAL_READ_TIMEOUT * 1000,
       partialWriteThreshold = SFTP_PARTIAL_WRITE_TIMEOUT * 1000,
       dead = False, dropped = 0, mutex_count = 0, counter = count, rpool = pool,
       strings = (\<lambda>_. []), rd_buf = [], rd_total = 0, rd_head = None, rd_alive = False, world = w\<rparr>
   }"

definition SftpClient_connect :: "'w os \<Rightarrow> 'w sftp \<Rightarrow> (int \<times> 'w sftp) run" where
  "SftpClient_connect os st = do {
     (_, p) \<leftarrow> StrPushDword_str [] 5 STR_BIG_ENDIAN;
     (_, p) \<leftarrow> StrPushByte_str p SSH2_FXP_INIT;
     (_, p) \<leftarrow> StrPushDword_str p SSH2_FILEXFER_VERSION STR_BIG_ENDIAN;
     (rc, answer, st') \<leftarrow> SftpClient_processPacketSimple os p st;
     if rc \<noteq> 0 then Some (-1, st')
     else Some (0, st'\<lparr>rd_buf := replicate 65536 0, rd_total := 0, rd_head := None, rd_alive := True\<rparr>)
   }"

definition SftpClient_setSectorSize :: "int \<Rightarrow> 'w sftp \<Rightarrow> 'w sftp" where
  "SftpClient_setSectorSize sz st = (if sz \<le> 256 then st else st\<lparr>sectorSize := sz\<rparr>)"

definition SftpClient_setPartialThreshold :: "int \<Rightarrow> int \<Rightarrow> 'w sftp \<Rightarrow> 'w sftp run" where
  "SftpClient_setPartialThreshold r w st = do {
     r' \<leftarrow> cint_add (r * 1000) 0;
     w' \<leftarrow> cint_add (w * 1000) 0;
     Some (st\<lparr>partialReadThreshold := r', partialWriteThreshold := w'\<rparr>)
   }"

lemma mutex_keeps: "strings (mutex_unlock st) = strings st" "world (mutex_unlock st) = world st"
  by (simp_all add: mutex_unlock_def)

section \<open>Frames\<close>

text \<open>A packet as both sides send it: its size, its type, the number of its request and a body.\<close>

definition frame :: "u32 \<Rightarrow> byte \<Rightarrow> byte list \<Rightarrow> byte list" where
  "frame ident ty body =
     wire 4 STR_BIG_ENDIAN (word_of_nat (5 + length body) :: u32) @ [ty] @
     wire 4 STR_BIG_ENDIAN ident @ body"

lemma length_frame [simp]: "length (frame ident ty body) = length body + 9"
  by (simp add: frame_def)

lemma big_endian_flag [simp]: "big_endian STR_BIG_ENDIAN"
  by (simp add: big_endian_def STR_BIG_ENDIAN_def)

lemma swapped_wire:
  "length src = 4 \<Longrightarrow> src = wire 4 STR_BIG_ENDIAN v \<Longrightarrow>
     word_of_le [src ! 3, src ! 2, src ! Suc 0, src ! 0] = (v :: u32)"
  by (simp add: swap4)

lemma pop_dword_wire:
  "int (length rest + 4) \<le> int_max \<Longrightarrow>
     StrPopDword_str (Some x) (wire 4 STR_BIG_ENDIAN v @ rest) STR_BIG_ENDIAN = Some (0, Some v, rest)"
  using StrPopDword_equiv [of "wire 4 STR_BIG_ENDIAN v @ rest" "Some x" STR_BIG_ENDIAN]
    StrPopDword_wire [of x STR_BIG_ENDIAN "[]" v rest]
  by (simp add: unread_def cursor_at_def)

lemma pop_byte_wire:
  "int (length rest + 1) \<le> int_max \<Longrightarrow> StrPopByte_str (Some x) (b # rest) = Some (0, Some b, rest)"
  using StrPopByte_equiv [of "b # rest" "Some x"] StrPopByte_wire [of x "[]" b rest]
  by (simp add: unread_def cursor_at_def)

lemma decode_frame:
  assumes "int (length (frame ident ty body) + length rest) \<le> int_max" "9 \<le> n"
  shows "SftpClient_decodePacketHead old (frame ident ty body @ rest) n =
     Some (0, Some (word_of_nat (5 + length body), ident, ty))"
proof -
  let ?s = "wire 4 STR_BIG_ENDIAN (word_of_nat (5 + length body) :: u32)"
  have m: "memcpy (replicate 9 0) 0 (frame ident ty body @ rest) 0 9 =
      Some (?s @ [ty] @ wire 4 STR_BIG_ENDIAN ident @ [])"
    by (simp add: mem_simps frame_def)
  show ?thesis
    using assms(2) m pop_dword_wire [of "[]" 0 ident]
    by (simp add: SftpClient_decodePacketHead_def pop_dword_wire pop_byte_wire)
qed

text \<open>When the buffer holds a complete frame.\<close>

lemma complete_frame:
  assumes "prefix (frame ident ty body) pend \<or> prefix pend (frame ident ty body)"
    and "length body + 9 \<le> 65536" "4 < length (pend @ junk)"
  shows "SftpClient_packetComplete (pend @ junk) (int (length pend)) =
     Some (if length body + 9 \<le> length pend then 1 else 0)"
proof (cases "4 < length pend")
  case False
  then show ?thesis by (simp add: SftpClient_packetComplete_def)
next
  case True
  let ?s = "word_of_nat (5 + length body) :: u32"
  have four: "take 4 pend = wire 4 STR_BIG_ENDIAN ?s"
    using assms(1)
  proof
    assume "prefix (frame ident ty body) pend"
    then show ?thesis by (auto simp: prefix_def frame_def)
  next
    assume "prefix pend (frame ident ty body)"
    then have "take 4 pend = take 4 (frame ident ty body)" using True by (auto simp: prefix_def)
    then show ?thesis by (simp add: frame_def)
  qed
  have "sint ?s = 5 + int (length body)" using assms(2) sint_u32_small [of "5 + length body"] by simp
  then show ?thesis
    using True assms(2,3) swapped_wire [of "take 4 pend" ?s] four
    by (simp add: SftpClient_packetComplete_def mem_read_def cint_add_def)
qed

section \<open>Reading from a stream of bytes\<close>

text \<open>
  What the client relies on when it reads: as long as bytes are on their way, a call returns some of
  them, in order, at most as many as it was asked for, and touches nothing else of the world.
\<close>

locale byte_stream =
  fixes inp :: "'w \<Rightarrow> nat \<Rightarrow> byte list \<times> 'w"
    and coming :: "'w \<Rightarrow> byte list"
    and other :: "'w \<Rightarrow> 'o"
  assumes inp_some: "coming w \<noteq> [] \<Longrightarrow> 0 < n \<Longrightarrow>
    \<exists>bs w'. inp w n = (bs, w') \<and> bs \<noteq> [] \<and> length bs \<le> n \<and> coming w = bs @ coming w' \<and> other w' = other w"
begin

text \<open>However the bytes of a frame are cut into pieces, the loop ends with the whole frame.\<close>

lemma fill_frame:
  assumes "pend @ coming w = frame ident ty body @ rest" "length body + 9 \<le> 65536"
    "length (pend @ junk) = 65536"
  shows "\<exists>pend' junk' w'. fill_loop inp (pend @ junk) (length pend) w =
      Some (Complete, pend' @ junk', length pend', w') \<and>
    pend' @ coming w' = frame ident ty body @ rest \<and> length body + 9 \<le> length pend' \<and>
    length (pend' @ junk') = 65536 \<and> other w' = other w"
  using assms
proof (induction "length junk" arbitrary: pend junk w rule: less_induct)
  case less
  have pre: "prefix (frame ident ty body) pend \<or> prefix pend (frame ident ty body)"
    using less.prems(1) prefix_same_cases [of _ "pend @ coming w"] by (metis prefixI)
  note c = complete_frame [OF pre less.prems(2), of junk]
  show ?case
  proof (cases "length body + 9 \<le> length pend")
    case True
    then have "fill_loop inp (pend @ junk) (length pend) w = Some (Complete, pend @ junk, length pend, w)"
      using c less.prems(3) by (subst fill_loop.simps) simp
    then show ?thesis using less.prems True by blast
  next
    case False
    have "coming w \<noteq> []"
    proof
      assume "coming w = []"
      then have "length pend = length (frame ident ty body @ rest)" using less.prems(1) by simp
      then show False using False by simp
    qed
    moreover have j: "0 < length junk" using False less.prems(2,3) unfolding length_append by linarith
    ultimately obtain bs w' where r: "inp w (length junk) = (bs, w')" "bs \<noteq> []" "length bs \<le> length junk"
        "coming w = bs @ coming w'" "other w' = other w"
      using inp_some by blast
    have c0: "SftpClient_packetComplete (pend @ junk) (int (length pend)) = Some 0"
      using c False less.prems(3) by simp
    have step: "fill_loop inp (pend @ junk) (length pend) w =
        fill_loop inp ((pend @ bs) @ drop (length bs) junk) (length (pend @ bs)) w'"
      using c0 j r by (subst fill_loop.simps) simp
    have "length (drop (length bs) junk) < length junk" using r(2) j by simp
    from less.hyps [OF this, of "pend @ bs" w'] show ?thesis
      unfolding step using less.prems r by auto
  qed
qed

end

section \<open>Delivering a packet\<close>

lemma deliver_frame:
  assumes "rd_buf st = frame ident ty body @ after @ junk" "rd_total st = length body + 9 + length after"
    "length (rd_buf st) = 65536"
    "RequestPool_find (sint ident) (rpool st) = Some k" "outputData (rpool st ! k) = p" "p \<noteq> 0"
    "length after \<le> length body + 9"
  obtains junk' where "deliver st = Some (st\<lparr>strings := (strings st)(p := frame ident ty body),
      rpool := Request_serve k (rpool st), rd_buf := after @ junk', rd_total := length after,
      rd_head := Some (word_of_nat (5 + length body), ident, ty)\<rparr>)" "length (after @ junk') = 65536"
proof -
  let ?f = "frame ident ty body"
  define n where "n = length body + 9"
  define sz where "sz = (word_of_nat (5 + length body) :: u32)"
  have n: "n \<le> 65536" using assms(1,3) by (simp add: n_def)
  have dec: "SftpClient_decodePacketHead (rd_head st) (rd_buf st) (int (rd_total st)) =
      Some (0, Some (sz, ident, ty))"
    using decode_frame [of ident ty body "after @ junk" "int (rd_total st)" "rd_head st"] assms(1,2,3)
    by (simp add: sz_def)
  have "sz + 4 = (word_of_nat n :: u32)" by (simp add: n_def sz_def)
  moreover have "sint (word_of_nat n :: u32) = int n" using n sint_u32_small [of n] by simp
  ultimately have size: "min (sint (sz + 4)) (int (rd_total st)) = int n"
    using assms(2) by (simp only:) (simp add: n_def)
  obtain out where out: "str_resize (int n) (strings st p) = Some out" "length out = n"
    by (cases "str_resize (int n) (strings st p)") (auto simp: str_resize_def)
  have fl: "length ?f = n" by (simp add: n_def)
  have copy: "memcpy out 0 (rd_buf st) 0 n = Some ?f"
    using out(2) n assms(1,3) fl by (simp add: mem_simps)
  define buf where "buf = after @ drop (length after) (rd_buf st)"
  have move: "(if int n < int (rd_total st)
       then memcpy_within (rd_buf st) 0 (size_t (int n)) (size_t (int (rd_total st) - int n))
       else Some (rd_buf st)) = Some buf" (is "?l = _")
  proof (cases "after = []")
    case True
    then show ?thesis using assms(2) by (simp add: n_def buf_def)
  next
    case False
    have sz: "size_t (int n) = n" "size_t (int (rd_total st) - int n) = length after"
      using n assms(1,2,3) by (simp_all add: n_def)
    have "memcpy_within (rd_buf st) 0 n (length after) = Some buf"
      using assms(1,3,7) fl by (auto simp: memcpy_within_def mem_simps buf_def n_def)
    then show ?thesis using False sz assms(2) by (simp add: n_def)
  qed
  have tot: "nat (int (rd_total st) - int n) = length after" using assms(2) by (simp add: n_def)
  have "deliver st = Some (st\<lparr>strings := (strings st)(p := ?f), rpool := Request_serve k (rpool st),
      rd_buf := buf, rd_total := length after, rd_head := Some (sz, ident, ty)\<rparr>)"
    unfolding deliver_def dec
    using assms(4,5,6) size out(1) copy move n tot
    by (cases "n < rd_total st") (simp_all add: Let_def)
  then show ?thesis
    using that [of "drop (length after) (rd_buf st)"] assms(1,3) by (simp add: buf_def sz_def)
qed

section \<open>Rounds of the reading thread\<close>

text \<open>The bytes that the reading thread holds already, at the front of its buffer.\<close>

definition held :: "'w sftp \<Rightarrow> byte list" where
  "held st = take (rd_total st) (rd_buf st)"

definition reader_ok :: "'w sftp \<Rightarrow> bool" where
  "reader_ok st \<longleftrightarrow> length (rd_buf st) = 65536 \<and> rd_total st \<le> 65536"

lemma reader_okE:
  assumes "reader_ok st"
  obtains junk where "rd_buf st = held st @ junk" "rd_total st = length (held st)"
    "length (held st @ junk) = 65536"
proof (rule that)
  show "rd_buf st = held st @ drop (rd_total st) (rd_buf st)" by (simp add: held_def)
  show "rd_total st = length (held st)" using assms by (simp add: held_def reader_ok_def)
  show "length (held st @ drop (rd_total st) (rd_buf st)) = 65536"
    using assms by (simp add: held_def reader_ok_def)
qed

lemma held_append: "rd_buf st = xs @ ys \<Longrightarrow> rd_total st = length xs \<Longrightarrow> held st = xs"
  by (simp add: held_def)

text \<open>Where the answer to a request goes.\<close>

definition answer_slot :: "Request list \<Rightarrow> u32 \<Rightarrow> nat" where
  "answer_slot tbl ident = the (RequestPool_find (sint ident) tbl)"

definition answer_addr :: "Request list \<Rightarrow> u32 \<Rightarrow> nat" where
  "answer_addr tbl ident = outputData (tbl ! answer_slot tbl ident)"

definition awaited :: "Request list \<Rightarrow> u32 \<Rightarrow> bool" where
  "awaited tbl ident \<longleftrightarrow> RequestPool_find (sint ident) tbl \<noteq> None \<and> answer_addr tbl ident \<noteq> 0"

context byte_stream
begin

text \<open>One round hands the next frame to the request with its number.\<close>

lemma readLoop_frame:
  assumes "sys_in os (fdType st) = Some inp" "reader_ok st" "length body + 9 \<le> 65536"
    "held st @ coming (world st) = frame ident ty body @ rest" "awaited (rpool st) ident" "length rest \<le> length body + 9"
  obtains st' where "SftpClient_readLoop os st = Some st'" "reader_ok st'"
    "held st' @ coming (world st') = rest" "other (world st') = other (world st)"
    "st' = st\<lparr>strings := (strings st)(answer_addr (rpool st) ident := frame ident ty body),
       rpool := Request_serve (answer_slot (rpool st) ident) (rpool st), rd_buf := rd_buf st',
       rd_total := rd_total st', rd_head := rd_head st', world := world st'\<rparr>"
proof -
  obtain junk where b: "rd_buf st = held st @ junk" "rd_total st = length (held st)"
      "length (held st @ junk) = 65536"
    using assms(2) by (rule reader_okE)
  obtain pend junk' w where f: "fill_loop inp (rd_buf st) (rd_total st) (world st) =
        Some (Complete, pend @ junk', length pend, w)"
      "pend @ coming w = frame ident ty body @ rest" "length body + 9 \<le> length pend"
      "length (pend @ junk') = 65536" "other w = other (world st)"
    using fill_frame [OF assms(4,3) b(3), folded b(1) b(2)] by blast
  obtain after where after: "pend = frame ident ty body @ after" "after @ coming w = rest"
  proof
    let ?n = "length (frame ident ty body)"
    have "take ?n (pend @ coming w) = frame ident ty body" by (simp add: f(2))
    then have "take ?n pend = frame ident ty body" using f(3) by simp
    then show pend: "pend = frame ident ty body @ drop ?n pend" by (metis append_take_drop_id)
    show "drop ?n pend @ coming w = rest" using f(2) by (subst (asm) pend) simp
  qed
  define st1 where "st1 = st\<lparr>rd_buf := pend @ junk', rd_total := length pend, world := w\<rparr>"
  obtain k where k: "RequestPool_find (sint ident) (rpool st1) = Some k" "answer_slot (rpool st) ident = k"
      "outputData (rpool st1 ! k) = answer_addr (rpool st) ident" "answer_addr (rpool st) ident \<noteq> 0"
    using assms(5) by (auto simp: awaited_def st1_def answer_slot_def answer_addr_def)
  have 1: "rd_buf st1 = frame ident ty body @ after @ junk'" "rd_total st1 = length body + 9 + length after"
      "length (rd_buf st1) = 65536"
    using f(4) after(1) by (simp_all add: st1_def)
  have short: "length after \<le> length body + 9" using assms(6) unfolding after(2) [symmetric] by simp
  obtain junk'' where d: "deliver st1 = Some (st1\<lparr>strings := (strings st1)(answer_addr (rpool st) ident := frame ident ty body),
      rpool := Request_serve k (rpool st1), rd_buf := after @ junk'', rd_total := length after,
      rd_head := Some (word_of_nat (5 + length body), ident, ty)\<rparr>)" "length (after @ junk'') = 65536"
    using deliver_frame [OF 1 k(1,3,4) short] by blast
  have "SftpClient_readLoop os st = deliver st1"
    using assms(1) f(1) by (simp add: SftpClient_readLoop_def st1_def)
  then show ?thesis
    using that d f(5) after(2) k(2) by (simp add: st1_def reader_ok_def held_def)
qed

text \<open>A request that is sent is answered, whatever else the server has sent before it is read.\<close>

lemma processPacket_answer:
  fixes st :: "'w sftp"
  assumes os: "sys_in os (fdType st) = Some inp" "sys_out os (fdType st) = Some out"
    and sent: "send_loop out packet 0 (-1) (world st) = (True, length packet, n, w)"
    and packet: "packet = frame ident ty0 body0" "int (length packet) \<le> int_max"
    and reader: "rd_alive st" "reader_ok st"
    and pool: "unique_ids (rpool st)" "\<forall>r\<in>set (rpool st). req_id r = -1 \<longrightarrow> served r = 0"
      "sint ident \<notin> req_id ` set (rpool st)" "-1 \<in> req_id ` set (rpool st)"
    and answer: "held st @ coming w = frame ident ty body @ rest" "length body + 9 \<le> 65536" "length rest \<le> length body + 9"
  obtains k st' where
    "SftpClient_processPacket os packet st =
       Some (0, frame ident ty body, os_clock os (world st') - os_clock os (world st), st')"
    "reader_ok st'" "held st' @ coming (world st') = rest" "other (world st') = other w"
    "k < length (rpool st)" "req_id (rpool st ! k) = -1"
    "st' = st\<lparr>strings := (strings st)(packet_addr := frame ident ty body),
       rpool := (rpool st)[k := \<lparr>req_id = -1, inputData = 0, outputData = 0, served = 0\<rparr>],
       mutex_count := mutex_count st - 1, rd_buf := rd_buf st', rd_total := rd_total st',
       rd_head := rd_head st', world := world st'\<rparr>"
proof -
  obtain k tbl where cycle: "RequestPool_push (sint ident) 0 packet_addr (rpool st) = (0, tbl)"
      "RequestPool_find (sint ident) tbl = Some k" "k < length (rpool st)" "req_id (rpool st ! k) = -1"
      "outputData (tbl ! k) = packet_addr" "RequestPool_wait (sint ident) (-1) 0 [] tbl = None"
      "RequestPool_wait (sint ident) (-1) 0 [] (Request_serve k tbl) =
        Some (0, (rpool st)[k := \<lparr>req_id = -1, inputData = 0, outputData = 0, served = 0\<rparr>])"
    using request_cycle [OF pool, of 0 packet_addr] by metis
  define st2 where "st2 = st\<lparr>strings := (strings st)(packet_addr := packet), rpool := tbl, world := w\<rparr>"
  have slot: "answer_slot tbl ident = k" "answer_addr tbl ident = packet_addr" "awaited tbl ident"
    using cycle(2,5) by (simp_all add: answer_slot_def answer_addr_def awaited_def packet_addr_def)
  have a: "sys_in os (fdType st2) = Some inp" "reader_ok st2" "held st2 @ coming (world st2) = frame ident ty body @ rest"
      "awaited (rpool st2) ident"
    using os(1) reader(2) answer(1) slot(3) by (simp_all add: st2_def reader_ok_def held_def)
  obtain st3 where st3: "SftpClient_readLoop os st2 = Some st3" "reader_ok st3"
      "held st3 @ coming (world st3) = rest" "other (world st3) = other (world st2)"
      "st3 = st2\<lparr>strings := (strings st2)(packet_addr := frame ident ty body),
       rpool := Request_serve k tbl, rd_buf := rd_buf st3,
       rd_total := rd_total st3, rd_head := rd_head st3, world := world st3\<rparr>"
    using readLoop_frame [OF a(1,2) answer(2) a(3,4) answer(3)] slot(1,2) by (auto simp: st2_def)
  have f3: "rpool st3 = Request_serve k tbl" "strings st3 = (strings st2)(packet_addr := frame ident ty body)"
    using arg_cong [OF st3(5), of rpool] arg_cong [OF st3(5), of strings] by simp_all
  let ?c = "(rpool st)[k := \<lparr>req_id = -1, inputData = 0, outputData = 0, served = 0\<rparr>]"
  have wait3: "await os (sint ident) st3 = Some (0, st3\<lparr>rpool := ?c\<rparr>)"
    using cycle(7) f3(1) by (subst await.simps) simp
  have wait2: "await os (sint ident) st2 = Some (0, st3\<lparr>rpool := ?c\<rparr>)"
    using cycle(6) reader(1) st3(1) wait3 by (subst await.simps) (simp add: st2_def)
  have dec: "SftpClient_decodePacketHead None packet (int (length packet)) =
      Some (0, Some (word_of_nat (5 + length body0), ident, ty0))"
    using decode_frame [of ident ty0 body0 "[]" "int (length packet)" None] packet by simp
  have unlocked: "mutex_unlock (mutex_lock s\<lparr>world := w\<rparr>) = s\<lparr>world := w\<rparr>" for s :: "'w sftp"
    by (simp add: mutex_unlock_def mutex_lock_def)
  have "SftpClient_processPacket os packet st =
      Some (0, frame ident ty body, os_clock os (world st3) - os_clock os (world st),
            mutex_unlock (st3\<lparr>rpool := ?c\<rparr>))"
    unfolding SftpClient_processPacket_def
    using dec os(2) sent cycle(1) wait2 packet(2) f3(2)
    by (simp add: unlocked Let_def st2_def) (simp add: mutex_unlock_def)
  moreover define st4 where "st4 = mutex_unlock (st3\<lparr>rpool := ?c\<rparr>)"
  moreover have "st4 = st\<lparr>strings := (strings st)(packet_addr := frame ident ty body),
       rpool := ?c, mutex_count := mutex_count st - 1, rd_buf := rd_buf st4, rd_total := rd_total st4,
       rd_head := rd_head st4, world := world st4\<rparr>"
    using st3(5) unfolding st4_def st2_def mutex_unlock_def by (cases st3; cases st) simp
  moreover have "reader_ok st4" "held st4 @ coming (world st4) = rest" "other (world st4) = other w"
      "world st4 = world st3"
    using st3(2-4) by (simp_all add: st4_def mutex_unlock_def reader_ok_def held_def st2_def)
  ultimately show ?thesis using that [of st4 k] cycle(3,4) by simp
qed

end

section \<open>A server behind a pair of pipes\<close>

text \<open>
  The environment on which the operations of the client are run: a server, which is a function from
  its state and a request to its new state and an answer, behind two pipes. A request is written at
  once; the bytes of the answers come back in pieces. For each read that has been done so far \<open>chunk\<close> says
  how long the next piece is at most and what the clock shows.
\<close>

type_synonym 's loop_world = "'s \<times> byte list \<times> nat"

definition loop_out ::
    "('s \<Rightarrow> byte list \<Rightarrow> 's \<times> byte list) \<Rightarrow> 's loop_world \<Rightarrow> byte list \<Rightarrow> int \<times> 's loop_world" where
  "loop_out srv w bs =
     (case w of (s, q, t) \<Rightarrow> case srv s bs of (s', r) \<Rightarrow> (int (length bs), (s', q @ r, t)))"

definition loop_in :: "(nat \<Rightarrow> nat \<times> real) \<Rightarrow> 's loop_world \<Rightarrow> nat \<Rightarrow> byte list \<times> 's loop_world" where
  "loop_in chunk w n =
     (case w of (s, q, t) \<Rightarrow>
        let k = min n (Suc (fst (chunk t))) in (take k q, (s, drop k q, Suc t)))"

definition loop_time :: "(nat \<Rightarrow> nat \<times> real) \<Rightarrow> 's loop_world \<Rightarrow> real" where
  "loop_time chunk w = snd (chunk (snd (snd w)))"

definition spent :: "(nat \<Rightarrow> nat \<times> real) \<Rightarrow> 's loop_world sftp \<Rightarrow> 's loop_world sftp \<Rightarrow> real" where
  "spent chunk st st' = loop_time chunk (world st') - loop_time chunk (world st)"

lemma spent_counter [simp]: "spent chunk (st\<lparr>counter := n\<rparr>) st' = spent chunk st st'"
  by (simp add: spent_def)

lemma spent_trans: "spent chunk st st1 + spent chunk st1 st2 = spent chunk st st2"
  by (simp add: spent_def)

definition loop_os ::
    "('s \<Rightarrow> byte list \<Rightarrow> 's \<times> byte list) \<Rightarrow> (nat \<Rightarrow> nat \<times> real) \<Rightarrow> 's loop_world os" where
  "loop_os srv chunk = \<lparr>os_write = loop_out srv, os_send = loop_out srv,
     os_read = loop_in chunk, os_recv = loop_in chunk, os_clock = loop_time chunk\<rparr>"

definition loop_queue :: "'s loop_world \<Rightarrow> byte list" where
  "loop_queue w = fst (snd w)"

interpretation loop: byte_stream "loop_in chunk" loop_queue fst for chunk
proof
  fix w :: "'s loop_world" and n :: nat
  assume q: "loop_queue w \<noteq> []" "0 < n"
  obtain s q t where w: "w = (s, q, t)" by (cases w)
  then show "\<exists>bs w'. loop_in chunk w n = (bs, w') \<and> bs \<noteq> [] \<and> length bs \<le> n \<and>
      loop_queue w = bs @ loop_queue w' \<and> fst w' = fst w"
    using q by (auto simp: loop_in_def loop_queue_def Let_def min_def)
qed

lemma loop_send:
  "packet \<noteq> [] \<Longrightarrow> srv s packet = (s', r) \<Longrightarrow>
     send_loop (loop_out srv) packet 0 n (s, q, t) = (True, length packet, int (length packet), (s', q @ r, t))"
  by (subst send_loop.simps, simp add: loop_out_def) (subst send_loop.simps, simp)

lemma loop_calls:
  assumes "ty = SFTP_CLIENT_FD \<or> ty = SFTP_CLIENT_SOCKET"
  shows "sys_in (loop_os srv chunk) ty = Some (loop_in chunk)" "sys_out (loop_os srv chunk) ty = Some (loop_out srv)"
  using assms by (auto simp: sys_in_def sys_out_def loop_os_def)

text \<open>
  A client between two calls of one thread: the session is alive, nothing is on its way, some slot of
  the pool is free, and the numbers of the requests that other threads wait for are below the counter.
\<close>

definition quiet :: "'s loop_world sftp \<Rightarrow> bool" where
  "quiet st \<longleftrightarrow> \<not> dead st \<and> rd_alive st \<and> reader_ok st \<and> held st = [] \<and> loop_queue (world st) = [] \<and>
     (fdType st = SFTP_CLIENT_FD \<or> fdType st = SFTP_CLIENT_SOCKET) \<and>
     unique_ids (rpool st) \<and> (\<forall>r\<in>set (rpool st). req_id r = -1 \<longrightarrow> served r = 0) \<and>
     -1 \<in> req_id ` set (rpool st) \<and> (\<forall>r\<in>set (rpool st). req_id r < counter st) \<and> 0 < counter st"

definition settings :: "'w sftp \<Rightarrow> int \<times> int \<times> int \<times> int" where
  "settings st = (sectorSize st, partialReadThreshold st, partialWriteThreshold st, counter st)"

lemma loop_request:
  assumes "quiet st" "sint ident \<notin> req_id ` set (rpool st)"
    "packet = frame ident ty0 body0" "int (length packet) \<le> int_max"
    "srv (fst (world st)) packet = (s', frame ident ty body)" "length body + 9 \<le> 65536"
  shows "\<exists>st'. SftpClient_processPacket (loop_os srv chunk) packet st =
       Some (0, frame ident ty body, spent chunk st st', st') \<and>
     quiet st' \<and> fst (world st') = s' \<and> settings st' = settings st"
proof -
  obtain s t where w: "world st = (s, [], t)" using assms(1) by (cases "world st") (auto simp: quiet_def loop_queue_def)
  have q: "rd_alive st" "reader_ok st" "held st = []" "unique_ids (rpool st)"
      "\<forall>r\<in>set (rpool st). req_id r = -1 \<longrightarrow> served r = 0" "-1 \<in> req_id ` set (rpool st)"
      "fdType st = SFTP_CLIENT_FD \<or> fdType st = SFTP_CLIENT_SOCKET"
      "\<forall>r\<in>set (rpool st). req_id r < counter st" "0 < counter st" "\<not> dead st"
    using assms(1) by (auto simp: quiet_def)
  have "packet \<noteq> []" using assms(3) by (simp add: frame_def)
  then have send: "send_loop (loop_out srv) packet 0 (-1) (world st) =
      (True, length packet, int (length packet), (s', frame ident ty body, t))"
    using loop_send [of packet srv s s' "frame ident ty body" "-1" "[]" t] assms(5) w by simp
  have held: "held st @ loop_queue (s', frame ident ty body, t) = frame ident ty body @ []"
    using q(3) by (simp add: loop_queue_def)
  obtain k st' where st': "SftpClient_processPacket (loop_os srv chunk) packet st =
        Some (0, frame ident ty body, os_clock (loop_os srv chunk) (world st') - os_clock (loop_os srv chunk) (world st), st')"
      "reader_ok st'" "held st' @ loop_queue (world st') = []" "fst (world st') = fst (s', frame ident ty body, t)"
      "k < length (rpool st)" "req_id (rpool st ! k) = -1"
      "st' = st\<lparr>strings := (strings st)(packet_addr := frame ident ty body),
       rpool := (rpool st)[k := \<lparr>req_id = -1, inputData = 0, outputData = 0, served = 0\<rparr>],
       mutex_count := mutex_count st - 1, rd_buf := rd_buf st', rd_total := rd_total st',
       rd_head := rd_head st', world := world st'\<rparr>"
    by (rule loop.processPacket_answer [where chunk = chunk and os = "loop_os srv chunk" and st = st,
          OF loop_calls(1) [OF q(7)] loop_calls(2) [OF q(7)] send assms(3,4) q(1,2,4,5) assms(2) q(6) held assms(6)])
      (simp, blast)
  let ?c = "\<lparr>req_id = -1, inputData = 0, outputData = 0, served = 0\<rparr>"
  have same: "rpool st' = (rpool st)[k := ?c]" "settings st' = settings st" "fdType st' = fdType st"
      "dead st' = dead st" "rd_alive st' = rd_alive st" "counter st' = counter st"
    using st'(7) by (cases st', cases st, simp add: settings_def)+
  have ids: "req_id ((rpool st)[k := ?c] ! j) = req_id (rpool st ! j)" if "j < length (rpool st)" for j
    using that st'(6) by (cases "j = k") simp_all
  then have "map req_id ((rpool st)[k := ?c]) = map req_id (rpool st)" by (intro nth_equalityI) simp_all
  then have set_ids: "req_id ` set ((rpool st)[k := ?c]) = req_id ` set (rpool st)" by (metis set_map)
  have "unique_ids ((rpool st)[k := ?c])" using q(4) by (rule unique_change) (use ids in simp_all)
  moreover have "\<forall>r\<in>set ((rpool st)[k := ?c]). req_id r = -1 \<longrightarrow> served r = 0"
    using q(5) set_update_subset_insert [of "rpool st" k ?c] by auto
  moreover have "\<forall>r\<in>set ((rpool st)[k := ?c]). req_id r < counter st"
    using q(8) set_ids by (metis (no_types, lifting) image_iff)
  ultimately have "quiet st'"
    using q same set_ids st'(2,3) by (simp add: quiet_def)
  then show ?thesis using st'(1,4) same(2) by (auto simp: loop_os_def spent_def)
qed

section \<open>Properties\<close>


definition demo_client :: "unit loop_world sftp" where
  "demo_client = \<lparr>fdType = 0, sectorSize = 32768, partialReadThreshold = 10000,
     partialWriteThreshold = 10000, dead = False, dropped = 0, mutex_count = 0, counter = 3,
     rpool = [\<lparr>req_id = 1, inputData = 0, outputData = 1, served = 0\<rparr>,
              \<lparr>req_id = 2, inputData = 0, outputData = 2, served = 0\<rparr>],
     strings = (\<lambda>_. []), rd_buf = replicate 65536 0, rd_total = 0, rd_head = None, rd_alive = True,
     world = ((), [], 0)\<rparr>"


text \<open>
  Two ways in which a request fails without an error code. When the connection is lost
  while a request waits, the reading thread shuts the session down and ends, but nobody wakes the
  caller: \<open>processPacket\<close> never returns. When all slots of the pool are taken, the refused push goes
  unnoticed: \<open>processPacket\<close> returns 0 at once, and the answer it hands out is the request itself.
\<close>

theorem silent_failures:
  assumes "packet = frame ident ty body" "int (length packet) \<le> int_max"
    "sys_out os (fdType st) = Some out" "sys_in os (fdType st) = Some inp"
    "send_loop out packet 0 (-1) (world st) = (True, length packet, n, w)"
    "sint ident \<notin> req_id ` set (rpool st)" "unique_ids (rpool st)"
    "\<forall>r\<in>set (rpool st). req_id r = -1 \<longrightarrow> served r = 0"
  shows "(-1 \<in> req_id ` set (rpool st) \<and> rd_alive st \<and> reader_ok st \<and> rd_total st = 0 \<and>
       inp w 65536 = ([], w') \<longrightarrow> SftpClient_processPacket os packet st = None) \<and>
     (-1 \<notin> req_id ` set (rpool st) \<longrightarrow>
       (\<exists>el st'. SftpClient_processPacket os packet st = Some (0, packet, el, st') \<and> world st' = w))"
proof -
  have dec: "SftpClient_decodePacketHead None packet (int (length packet)) =
      Some (0, Some (word_of_nat (5 + length body), ident, ty))"
    using decode_frame [of ident ty body "[]" "int (length packet)" None] assms(1,2) by simp
  have unlocked: "mutex_unlock (mutex_lock s\<lparr>world := w\<rparr>) = s\<lparr>world := w\<rparr>" for s :: "'a sftp"
    by (simp add: mutex_unlock_def mutex_lock_def)
  define st2 where "st2 = st\<lparr>strings := (strings st)(packet_addr := packet),
      rpool := snd (RequestPool_push (sint ident) 0 packet_addr (rpool st)), world := w\<rparr>"
  have pp: "SftpClient_processPacket os packet st = (case await os (sint ident) st2 of None \<Rightarrow> None
      | Some (rc, st3) \<Rightarrow> Some (0, strings st3 packet_addr, os_clock os (world st3) - os_clock os (world st), mutex_unlock st3))"
    using dec assms(2,3,5) unfolding SftpClient_processPacket_def
    by (cases "await os (sint ident) st2") (simp_all add: unlocked Let_def st2_def mutex_keeps split: prod.splits)
  have "await os (sint ident) st2 = None"
    if "-1 \<in> req_id ` set (rpool st)" "rd_alive st" "reader_ok st" "rd_total st = 0" "inp w 65536 = ([], w')"
  proof -
    note free = that(1)
    obtain tbl where t: "RequestPool_push (sint ident) 0 packet_addr (rpool st) = (0, tbl)"
        "RequestPool_wait (sint ident) (-1) 0 [] tbl = None"
      using request_cycle [OF assms(7,8,6) free, of 0 packet_addr] by metis
    have "fill_loop inp (rd_buf st) 0 w = Some (Closed, rd_buf st, 0, w')"
      using that(3,5) by (subst fill_loop.simps) (simp add: SftpClient_packetComplete_def reader_ok_def)
    then have r: "SftpClient_readLoop os st2 = Some ((SftpClient_shutdown (st2\<lparr>world := w'\<rparr>))\<lparr>rd_alive := False\<rparr>)"
      using assms(4) that(4) unfolding SftpClient_readLoop_def st2_def SftpClient_shutdown_def
      by (cases st) simp
    have "await os (sint ident) ((SftpClient_shutdown (st2\<lparr>world := w'\<rparr>))\<lparr>rd_alive := False\<rparr>) = None"
      using t by (subst await.simps) (simp add: st2_def SftpClient_shutdown_def)
    then show ?thesis using t r that(2) by (subst await.simps) (simp add: st2_def)
  qed
  moreover have "await os (sint ident) st2 = Some (ERR_WRONG_PARAMETER, st2)" if "-1 \<notin> req_id ` set (rpool st)"
  proof -
    have "RequestPool_push (sint ident) 0 packet_addr (rpool st) = (-1, rpool st)"
      using that push_slot_None [of "sint ident" "rpool st"] by (simp add: RequestPool_push_def)
    moreover have "RequestPool_find (sint ident) (rpool st) = None" using assms(6) by (simp add: find_None)
    ultimately show ?thesis by (subst await.simps) (simp add: st2_def RequestPool_wait_def)
  qed
  ultimately show ?thesis using pp by (auto simp: st2_def mutex_unlock_def)
qed

theorem silent_failures_witness:
  "\<exists>el st'. SftpClient_processPacket (loop_os (\<lambda>s r. (s, [])) (\<lambda>t. (t, 0))) (frame 5 4 []) demo_client =
     Some (0, frame 5 4 [], el, st')"
proof -
  have ty: "fdType demo_client = SFTP_CLIENT_FD \<or> fdType demo_client = SFTP_CLIENT_SOCKET"
    by (simp add: demo_client_def SFTP_CLIENT_FD_def)
  have send: "send_loop (loop_out (\<lambda>s r. (s, []))) (frame 5 4 []) 0 (-1) (world demo_client) =
      (True, length (frame 5 4 []), int (length (frame 5 4 [])), world demo_client)"
    using loop_send [of "frame 5 4 []" "\<lambda>s r. (s, [])" "()" "()" "[]" "-1"]
    by (simp add: demo_client_def frame_def)
  have uniq: "unique_ids (rpool demo_client)"
    by (rule unique_idsI) (auto simp: demo_client_def less_Suc_eq)
  have "sint (5 :: u32) \<notin> req_id ` set (rpool demo_client)" "-1 \<notin> req_id ` set (rpool demo_client)"
      "\<forall>r\<in>set (rpool demo_client). req_id r = -1 \<longrightarrow> served r = 0"
    by (simp_all add: demo_client_def)
  then show ?thesis
    using silent_failures [OF refl _ loop_calls(2) [OF ty] loop_calls(1) [OF ty, where chunk = "\<lambda>t. (t, 0)"] send _ uniq]
    by auto
qed

end
