(* ===== verification/Sftp_Client.thy ===== *)
theory Sftp_Client
  imports Sftp_Wire
begin

text \<open>
  The commands of the SFTP client (\<^verbatim>\<open>LibSftp/SftpClient.cpp\<close>), each as one function: it draws a
  request number, refuses a dead session, pushes the fields of its packet, exchanges it by
  \<open>SftpClient_processPacket\<close>, and pops and checks the answer. A command returns what the method returns,
  the values of its output parameters and the new state of the client. Paths and names are the bytes
  of C strings without their zero; \<^const>\<open>None\<close> is a run without a defined meaning or without an end.
\<close>

section \<open>Constants (Sftp.h)\<close>

definition SSH2_FXP_OPEN :: byte where "SSH2_FXP_OPEN = 3"
definition SSH2_FXP_CLOSE :: byte where "SSH2_FXP_CLOSE = 4"
definition SSH2_FXP_READ :: byte where "SSH2_FXP_READ = 5"
definition SSH2_FXP_WRITE :: byte where "SSH2_FXP_WRITE = 6"
definition SSH2_FXP_STAT_VERSION_0 :: byte where "SSH2_FXP_STAT_VERSION_0 = 7"
definition SSH2_FXP_OPENDIR :: byte where "SSH2_FXP_OPENDIR = 11"
definition SSH2_FXP_REMOVE :: byte where "SSH2_FXP_REMOVE = 13"
definition SSH2_FXP_MKDIR :: byte where "SSH2_FXP_MKDIR = 14"
definition SSH2_FXP_RMDIR :: byte where "SSH2_FXP_RMDIR = 15"
definition SSH2_FXP_RENAME :: byte where "SSH2_FXP_RENAME = 18"
definition SSH2_FXP_EXTENDED :: byte where "SSH2_FXP_EXTENDED = 200"
definition SSH2_FXP_STATUS :: byte where "SSH2_FXP_STATUS = 101"
definition SSH2_FXP_HANDLE :: byte where "SSH2_FXP_HANDLE = 102"
definition SSH2_FXP_DATA :: byte where "SSH2_FXP_DATA = 103"
definition SSH2_FXP_NAME :: byte where "SSH2_FXP_NAME = 104"
definition SSH2_FXP_ATTRS :: byte where "SSH2_FXP_ATTRS = 105"
definition SSH2_FXP_EXTENDED_REPLY :: byte where "SSH2_FXP_EXTENDED_REPLY = 201"
definition SSH2_FXP_DIRLIGO_CREATEFILE :: byte where "SSH2_FXP_DIRLIGO_CREATEFILE = 220"
definition SSH2_FXP_DIRLIGO_MULTICLOSE :: byte where "SSH2_FXP_DIRLIGO_MULTICLOSE = 221"
definition SSH2_FXP_DIRLIGO_RESETDIR :: byte where "SSH2_FXP_DIRLIGO_RESETDIR = 222"
definition SSH2_FXP_DIRLIGO_READDIR_SHORT :: byte where "SSH2_FXP_DIRLIGO_READDIR_SHORT = 224"
definition SSH2_FXP_DIRLIGO_DIR_FLAG :: int where "SSH2_FXP_DIRLIGO_DIR_FLAG = 0x40000000"
definition SSH2_FILEXFER_ATTR_SIZE :: u32 where "SSH2_FILEXFER_ATTR_SIZE = 1"
definition SSH2_FILEXFER_ATTR_UIDGID :: u32 where "SSH2_FILEXFER_ATTR_UIDGID = 2"
definition SSH2_FILEXFER_ATTR_PERMISSIONS :: u32 where "SSH2_FILEXFER_ATTR_PERMISSIONS = 4"
definition SSH2_FILEXFER_ATTR_ACMODTIME :: u32 where "SSH2_FILEXFER_ATTR_ACMODTIME = 8"
definition SSH2_FX_OK :: u32 where "SSH2_FX_OK = 0"
definition SSH2_FX_EOF :: u32 where "SSH2_FX_EOF = 1"
definition SSH2_FX_FAILURE :: u32 where "SSH2_FX_FAILURE = 4"
definition MAX_PATH :: nat where "MAX_PATH = 260"

lemmas fxp_defs = SSH2_FXP_OPEN_def SSH2_FXP_CLOSE_def SSH2_FXP_READ_def SSH2_FXP_WRITE_def
  SSH2_FXP_STAT_VERSION_0_def SSH2_FXP_OPENDIR_def SSH2_FXP_REMOVE_def SSH2_FXP_MKDIR_def
  SSH2_FXP_RMDIR_def SSH2_FXP_RENAME_def SSH2_FXP_EXTENDED_def SSH2_FXP_STATUS_def
  SSH2_FXP_HANDLE_def SSH2_FXP_DATA_def SSH2_FXP_NAME_def SSH2_FXP_ATTRS_def
  SSH2_FXP_EXTENDED_REPLY_def SSH2_FXP_DIRLIGO_CREATEFILE_def SSH2_FXP_DIRLIGO_MULTICLOSE_def
  SSH2_FXP_DIRLIGO_RESETDIR_def SSH2_FXP_DIRLIGO_READDIR_SHORT_def
  SSH2_FX_OK_def SSH2_FX_EOF_def SSH2_FX_FAILURE_def

section \<open>Pushing and popping\<close>

text \<open>
  The pushes of a request, one after the other; their exit codes are ignored, as in the source. All
  numbers are sent with \<^verbatim>\<open>STR_BIG_ENDIAN\<close>.
\<close>

datatype item = Dword u32 | Qword u64 | Byte byte | Raw "byte list"

fun push_item :: "byte list \<Rightarrow> item \<Rightarrow> (int \<times> byte list) run" where
  "push_item p (Dword v) = StrPushDword_str p v STR_BIG_ENDIAN"
| "push_item p (Qword v) = StrPushQword_str p v STR_BIG_ENDIAN"
| "push_item p (Byte v) = StrPushByte_str p v"
| "push_item p (Raw r) = StrPushRaw_str p (Some r) (csize r)"

fun push_items :: "byte list \<Rightarrow> item list \<Rightarrow> byte list run" where
  "push_items p [] = Some p"
| "push_items p (i # is) = do { (_, p') \<leftarrow> push_item p i; push_items p' is }"

text \<open>\<^verbatim>\<open>FAIL(StrPop...)\<close>: the value, or \<^const>\<open>None\<close> if the pop fails, and what is left.\<close>

definition pop_dword :: "byte list \<Rightarrow> (u32 option \<times> byte list) run" where
  "pop_dword p = do {
     (rc, v, p') \<leftarrow> StrPopDword_str (Some 0) p STR_BIG_ENDIAN;
     Some (if rc \<noteq> 0 then None else v, p') }"

definition pop_qword :: "byte list \<Rightarrow> (u64 option \<times> byte list) run" where
  "pop_qword p = do {
     (rc, v, p') \<leftarrow> StrPopQword_str (Some 0) p STR_BIG_ENDIAN;
     Some (if rc \<noteq> 0 then None else v, p') }"

definition pop_byte :: "byte list \<Rightarrow> (byte option \<times> byte list) run" where
  "pop_byte p = do {
     (rc, v, p') \<leftarrow> StrPopByte_str (Some 0) p;
     Some (if rc \<noteq> 0 then None else v, p') }"

text \<open>The header of an answer: size, type, number.\<close>

definition pop_head :: "byte list \<Rightarrow> ((u32 \<times> byte \<times> u32) option \<times> byte list) run" where
  "pop_head p = do {
     (sz, p) \<leftarrow> pop_dword p;
     case sz of None \<Rightarrow> Some (None, p) | Some sz \<Rightarrow> do {
       (ty, p) \<leftarrow> pop_byte p;
       case ty of None \<Rightarrow> Some (None, p) | Some ty \<Rightarrow> do {
         (idRet, p) \<leftarrow> pop_dword p;
         case idRet of None \<Rightarrow> Some (None, p) | Some idRet \<Rightarrow> Some (Some (sz, ty, idRet), p) } } }"

abbreviation len32 :: "byte list \<Rightarrow> u32" where
  "len32 bs \<equiv> word_of_nat (length bs)"

section \<open>Answers with a status\<close>

text \<open>
  The four pops come first, so the status of the packet is already stored when its number and its
  type turn out to be wrong.
\<close>

definition SftpClient_popStatusPacket :: "byte list \<Rightarrow> u32 \<Rightarrow> 'w sftp \<Rightarrow> (u32 \<times> 'w sftp) run" where
  "SftpClient_popStatusPacket packet ident st = do {
     (head, p) \<leftarrow> pop_head packet;
     case head of None \<Rightarrow> Some (SSH2_FX_FAILURE, st) | Some (sz, ty, idRet) \<Rightarrow> do {
       (status, p) \<leftarrow> pop_dword p;
       case status of None \<Rightarrow> Some (SSH2_FX_FAILURE, st) | Some serverStatus \<Rightarrow>
         if idRet \<noteq> ident then Some (serverStatus, SftpClient_shutdown st)
         else if ty \<noteq> SSH2_FXP_STATUS then Some (serverStatus, SftpClient_shutdown st)
         else Some (serverStatus, st) } }"

text \<open>
  The commands that only wait for a status: a number is drawn, the session is checked, the packet is
  pushed and exchanged, the status popped. \<open>items\<close> are the pushes after type and number.
\<close>

definition status_command ::
    "'w os \<Rightarrow> u32 \<Rightarrow> byte \<Rightarrow> item list \<Rightarrow> 'w sftp \<Rightarrow> (u32 \<times> 'w sftp) run" where
  "status_command os sz ty items st = do {
     (i, st) \<leftarrow> GenerateUniqueId st;
     let ident = word_of_int i;
     if dead st then Some (SSH2_FX_FAILURE, st) else do {
       packet \<leftarrow> push_items [] ([Dword sz, Byte ty, Dword ident] @ items);
       (rc, packet, _, st) \<leftarrow> SftpClient_processPacket os packet st;
       if rc \<noteq> 0 then Some (SSH2_FX_FAILURE, st)
       else SftpClient_popStatusPacket packet ident st } }"

definition SftpClient_close :: "'w os \<Rightarrow> int \<Rightarrow> 'w sftp \<Rightarrow> (u32 \<times> 'w sftp) run" where
  "SftpClient_close os handle = status_command os 13 SSH2_FXP_CLOSE [Dword 4, Dword (word_of_int handle)]"

definition SftpClient_multiclose :: "'w os \<Rightarrow> int list \<Rightarrow> 'w sftp \<Rightarrow> (u32 \<times> 'w sftp) run" where
  "SftpClient_multiclose os handles st =
     (if handles = [] then do {
        (i, st) \<leftarrow> GenerateUniqueId st;
        Some (SSH2_FX_FAILURE, st) }
      else status_command os (9 + 4 * word_of_nat (length handles)) SSH2_FXP_DIRLIGO_MULTICLOSE
             (Dword (word_of_nat (length handles)) # map (\<lambda>h. Dword (word_of_int h)) handles) st)"

definition SftpClient_resetdir :: "'w os \<Rightarrow> int \<Rightarrow> 'w sftp \<Rightarrow> (u32 \<times> 'w sftp) run" where
  "SftpClient_resetdir os handle = status_command os 9 SSH2_FXP_DIRLIGO_RESETDIR [Dword (word_of_int handle)]"

definition SftpClient_mkdir :: "'w os \<Rightarrow> byte list \<Rightarrow> 'w sftp \<Rightarrow> (u32 \<times> 'w sftp) run" where
  "SftpClient_mkdir os path =
     status_command os (13 + len32 path) SSH2_FXP_MKDIR [Dword (len32 path), Raw path, Dword 0]"

definition SftpClient_remove :: "'w os \<Rightarrow> byte list \<Rightarrow> 'w sftp \<Rightarrow> (u32 \<times> 'w sftp) run" where
  "SftpClient_remove os path =
     status_command os (9 + len32 path) SSH2_FXP_REMOVE [Dword (len32 path), Raw path]"

definition SftpClient_rmdir :: "'w os \<Rightarrow> byte list \<Rightarrow> 'w sftp \<Rightarrow> (u32 \<times> 'w sftp) run" where
  "SftpClient_rmdir os path =
     status_command os (9 + len32 path) SSH2_FXP_RMDIR [Dword (len32 path), Raw path]"

definition SftpClient_rename :: "'w os \<Rightarrow> byte list \<Rightarrow> byte list \<Rightarrow> 'w sftp \<Rightarrow> (u32 \<times> 'w sftp) run" where
  "SftpClient_rename os path1 path2 =
     status_command os (13 + len32 path1 + len32 path2) SSH2_FXP_RENAME
       [Dword (len32 path1), Raw path1, Dword (len32 path2), Raw path2]"

section \<open>Opening\<close>

definition SftpClient_open ::
    "'w os \<Rightarrow> byte list \<Rightarrow> u32 \<Rightarrow> int \<Rightarrow> 'w sftp \<Rightarrow> (int \<times> 'w sftp) run" where
  "SftpClient_open os path mode isDir st = do {
     (i, st) \<leftarrow> GenerateUniqueId st;
     let ident = word_of_int i;
     if dead st then Some (-1, st) else do {
       let (ty, sz) = (if isDir \<noteq> 0 then (SSH2_FXP_OPENDIR, 9 + len32 path)
                       else (SSH2_FXP_OPEN, 17 + len32 path));
       packet \<leftarrow> push_items [] ([Dword sz, Byte ty, Dword ident, Dword (len32 path), Raw path] @
                   (if isDir = 0 then [Dword mode, Dword 0] else []));
       (rc, packet, _, st) \<leftarrow> SftpClient_processPacket os packet st;
       if rc \<noteq> 0 then Some (-1, st) else do {
         (head, p) \<leftarrow> pop_head packet;
         case head of None \<Rightarrow> Some (-1, st) | Some (sz, ty, idRet) \<Rightarrow>
           if idRet \<noteq> ident then Some (-1, SftpClient_shutdown st)
           else if ty = SSH2_FXP_HANDLE then do {
             (hs, p) \<leftarrow> pop_dword p;
             if hs \<noteq> Some 4 then Some (-1, st) else do {
               (tmp, p) \<leftarrow> pop_dword p;
               Some (case tmp of None \<Rightarrow> -1 | Some h \<Rightarrow> uint h, st) } }
           else if ty = SSH2_FXP_STATUS then do {
             (serverStatus, p) \<leftarrow> pop_dword p;
             Some (-1, st) }
           else Some (-1, SftpClient_shutdown st) } } }"

definition SftpClient_opendir :: "'w os \<Rightarrow> byte list \<Rightarrow> 'w sftp \<Rightarrow> (int \<times> 'w sftp) run" where
  "SftpClient_opendir os path = SftpClient_open os path 0 1"

text \<open>
  \<open>isDir\<close> is the value behind the pointer, \<^const>\<open>None\<close> for \<^verbatim>\<open>NULL\<close>. A failure jumps to the end, where the
  handle is still 0. The branch for \<^verbatim>\<open>isDir == NULL\<close> writes through it.
\<close>

definition SftpClient_createfile ::
    "'w os \<Rightarrow> byte list \<Rightarrow> u32 \<Rightarrow> u32 \<Rightarrow> u32 \<Rightarrow> u32 \<Rightarrow> int option \<Rightarrow> 'w sftp \<Rightarrow>
      (int \<times> int option \<times> 'w sftp) run" where
  "SftpClient_createfile os path access shared create flags isDir st = do {
     (i, st) \<leftarrow> GenerateUniqueId st;
     let ident = word_of_int i;
     if dead st then Some (0, isDir, st) else do {
       packet \<leftarrow> push_items [] [Dword (25 + len32 path), Byte SSH2_FXP_DIRLIGO_CREATEFILE, Dword ident,
                   Dword (len32 path), Raw path, Dword access, Dword shared, Dword create, Dword flags];
       (rc, packet, _, st) \<leftarrow> SftpClient_processPacket os packet st;
       if rc \<noteq> 0 then Some (0, isDir, st) else do {
         (head, p) \<leftarrow> pop_head packet;
         case head of None \<Rightarrow> Some (0, isDir, st) | Some (sz, ty, idRet) \<Rightarrow>
           if idRet \<noteq> ident then Some (0, isDir, SftpClient_shutdown st)
           else if ty \<noteq> SSH2_FXP_HANDLE then Some (0, isDir, SftpClient_shutdown st)
           else do {
             (tmp, p) \<leftarrow> pop_dword p;
             if tmp = None then Some (0, isDir, st) else do {
               (tmp, p) \<leftarrow> pop_dword p;
               case tmp of None \<Rightarrow> Some (0, isDir, st) | Some tmp \<Rightarrow>
                 let handle = sint tmp in
                 if handle \<ge> 0 then do {
                   isDir' \<leftarrow> (if handle AND SSH2_FXP_DIRLIGO_DIR_FLAG \<noteq> 0
                              then (case isDir of Some _ \<Rightarrow> Some (Some 1) | None \<Rightarrow> None)
                              else Some isDir);
                   Some (handle AND NOT SSH2_FXP_DIRLIGO_DIR_FLAG, isDir', st)
                 } else Some (handle, isDir, st) } } } } }"

section \<open>Attributes\<close>

record SftpFileAttr =
  attr_size :: u64
  attr_flags :: u32
  attr_uid :: u32
  attr_guid :: u32
  attr_perm :: u32
  attr_atime :: u32
  attr_mtime :: u32

definition no_attr :: SftpFileAttr where
  "no_attr = \<lparr>attr_size = 0, attr_flags = 0, attr_uid = 0, attr_guid = 0, attr_perm = 0,
     attr_atime = 0, attr_mtime = 0\<rparr>"

text \<open>Two double words in a row, which stop at the first failure.\<close>

definition pop_two :: "byte list \<Rightarrow> (u32 option \<times> u32 option \<times> byte list) run" where
  "pop_two p = do {
     (a, p) \<leftarrow> pop_dword p;
     case a of None \<Rightarrow> Some (None, None, p) | Some _ \<Rightarrow> do {
       (b, p) \<leftarrow> pop_dword p;
       Some (a, b, p) } }"

text \<open>The optional parts of the attributes: whether the pops succeeded, the attributes and the rest.\<close>

definition pop_attr_size :: "SftpFileAttr \<Rightarrow> byte list \<Rightarrow> (bool \<times> SftpFileAttr \<times> byte list) run" where
  "pop_attr_size a p =
     (if attr_flags a AND SSH2_FILEXFER_ATTR_SIZE = 0 then Some (True, a, p) else do {
        (hi, lo, p) \<leftarrow> pop_two p;
        Some (case (hi, lo) of
                (Some h, Some l) \<Rightarrow> (True, a\<lparr>attr_size := push_bit 32 (ucast h) OR ucast l\<rparr>, p)
              | _ \<Rightarrow> (False, a, p)) })"

definition pop_attr_uidgid :: "SftpFileAttr \<Rightarrow> byte list \<Rightarrow> (bool \<times> SftpFileAttr \<times> byte list) run" where
  "pop_attr_uidgid a p =
     (if attr_flags a AND SSH2_FILEXFER_ATTR_UIDGID = 0 then Some (True, a, p) else do {
        (u, g, p) \<leftarrow> pop_two p;
        Some (case (u, g) of
                (Some u, Some g) \<Rightarrow> (True, a\<lparr>attr_uid := u, attr_guid := g\<rparr>, p)
              | (Some u, None) \<Rightarrow> (False, a\<lparr>attr_uid := u\<rparr>, p)
              | _ \<Rightarrow> (False, a, p)) })"

definition pop_attr_perm :: "SftpFileAttr \<Rightarrow> byte list \<Rightarrow> (bool \<times> SftpFileAttr \<times> byte list) run" where
  "pop_attr_perm a p =
     (if attr_flags a AND SSH2_FILEXFER_ATTR_PERMISSIONS = 0 then Some (True, a, p) else do {
        (v, p) \<leftarrow> pop_dword p;
        Some (case v of Some v \<Rightarrow> (True, a\<lparr>attr_perm := v\<rparr>, p) | None \<Rightarrow> (False, a, p)) })"

definition pop_attr_times :: "SftpFileAttr \<Rightarrow> byte list \<Rightarrow> (bool \<times> SftpFileAttr \<times> byte list) run" where
  "pop_attr_times a p =
     (if attr_flags a AND SSH2_FILEXFER_ATTR_ACMODTIME = 0 then Some (True, a, p) else do {
        (x, y, p) \<leftarrow> pop_two p;
        Some (case (x, y) of
                (Some x, Some y) \<Rightarrow> (True, a\<lparr>attr_atime := x, attr_mtime := y\<rparr>, p)
              | (Some x, None) \<Rightarrow> (False, a\<lparr>attr_atime := x\<rparr>, p)
              | _ \<Rightarrow> (False, a, p)) })"

definition SftpClient_popAttribs ::
    "byte list \<Rightarrow> 'w sftp \<Rightarrow> (int \<times> SftpFileAttr \<times> byte list \<times> 'w sftp) run" where
  "SftpClient_popAttribs packet st = do {
     (fl, p) \<leftarrow> pop_dword packet;
     (ok, a, p) \<leftarrow>
       (case fl of None \<Rightarrow> Some (False, no_attr, p) | Some fl \<Rightarrow> do {
          (ok, a, p) \<leftarrow> pop_attr_size (no_attr\<lparr>attr_flags := fl\<rparr>) p;
          if \<not> ok then Some (False, a, p) else do {
            (ok, a, p) \<leftarrow> pop_attr_uidgid a p;
            if \<not> ok then Some (False, a, p) else do {
              (ok, a, p) \<leftarrow> pop_attr_perm a p;
              if \<not> ok then Some (False, a, p) else pop_attr_times a p } } });
     Some (if ok then (0, a, p, st) else (-1, a, p, SftpClient_shutdown st)) }"

text \<open>\<open>attr\<close> is the value behind the output pointer, \<^const>\<open>None\<close> for \<^verbatim>\<open>NULL\<close>.\<close>

definition SftpClient_stat ::
    "'w os \<Rightarrow> byte list option \<Rightarrow> SftpFileAttr option \<Rightarrow> 'w sftp \<Rightarrow>
      (int \<times> SftpFileAttr option \<times> 'w sftp) run" where
  "SftpClient_stat os path attr st = do {
     (i, st) \<leftarrow> GenerateUniqueId st;
     let ident = word_of_int i;
     if dead st then Some (-1, attr, st) else
     case path of None \<Rightarrow> Some (-1, attr, st) | Some path \<Rightarrow>
     if attr = None then Some (-1, attr, st) else do {
       packet \<leftarrow> push_items [] [Dword (9 + len32 path), Byte SSH2_FXP_STAT_VERSION_0, Dword ident,
                   Dword (len32 path), Raw path];
       (rc, packet, _, st) \<leftarrow> SftpClient_processPacket os packet st;
       if rc \<noteq> 0 then Some (-1, attr, st) else do {
         (head, p) \<leftarrow> pop_head packet;
         case head of None \<Rightarrow> Some (-1, attr, st) | Some (sz, ty, idRet) \<Rightarrow>
           if idRet \<noteq> ident then Some (-1, attr, SftpClient_shutdown st)
           else if ty = SSH2_FXP_ATTRS then do {
             (rc, a, p, st) \<leftarrow> SftpClient_popAttribs p st;
             Some (rc, Some a, st) }
           else if ty = SSH2_FXP_STATUS then do {
             (status, p) \<leftarrow> pop_dword p;
             Some (if status = Some SSH2_FX_OK then 0 else -1, attr, st) }
           else Some (-1, attr, SftpClient_shutdown st) } } }"

section \<open>Disk statistics\<close>

text \<open>The eleven quad words of \<^verbatim>\<open>Statvfs_t\<close>, in the order of the structure and of the answer.\<close>

fun pop_qwords :: "nat \<Rightarrow> byte list \<Rightarrow> (bool \<times> u64 list \<times> byte list) run" where
  "pop_qwords 0 p = Some (True, [], p)"
| "pop_qwords (Suc n) p = do {
     (v, p) \<leftarrow> pop_qword p;
     case v of None \<Rightarrow> Some (False, [], p) | Some v \<Rightarrow> do {
       (ok, vs, p) \<leftarrow> pop_qwords n p;
       Some (ok, v # vs, p) } }"

definition statvfs_name :: "byte list" where
  "statvfs_name = map of_char ''statvfs@openssh.com''"

definition SftpClient_statvfs ::
    "'w os \<Rightarrow> byte list \<Rightarrow> 'w sftp \<Rightarrow> (int \<times> u64 list \<times> 'w sftp) run" where
  "SftpClient_statvfs os path st = do {
     (i, st) \<leftarrow> GenerateUniqueId st;
     let ident = word_of_int i;
     if dead st then Some (-1, [], st) else do {
       packet \<leftarrow> push_items [] [Dword (13 + len32 statvfs_name + len32 path), Byte SSH2_FXP_EXTENDED,
                   Dword ident, Dword (len32 statvfs_name), Raw statvfs_name, Dword (len32 path), Raw path];
       (rc, packet, _, st) \<leftarrow> SftpClient_processPacket os packet st;
       if rc \<noteq> 0 then Some (-1, [], st) else do {
         (head, p) \<leftarrow> pop_head packet;
         case head of None \<Rightarrow> Some (-1, [], st) | Some (sz, ty, idRet) \<Rightarrow>
           if idRet \<noteq> ident then Some (-1, [], SftpClient_shutdown st)
           else if ty \<noteq> SSH2_FXP_EXTENDED_REPLY then Some (-1, [], SftpClient_shutdown st)
           else do {
             (ok, vs, p) \<leftarrow> pop_qwords 11 p;
             Some (if ok then 0 else -1, vs, st) } } } }"

section \<open>Reading directories\<close>

record SftpFileInfo =
  info_name :: "byte list"
  info_attr :: SftpFileAttr

text \<open>
  A length and as many bytes into a zeroed buffer of \<^verbatim>\<open>MAX_PATH\<close> bytes on the stack; the length is passed
  on as an int. The buffer is then read as a C string.
\<close>

definition pop_name :: "byte list \<Rightarrow> (byte list option \<times> byte list) run" where
  "pop_name p = do {
     (len, p) \<leftarrow> pop_dword p;
     case len of None \<Rightarrow> Some (None, p) | Some len \<Rightarrow> do {
       (rc, buf, p) \<leftarrow> StrPopRaw_str (Some (replicate MAX_PATH 0)) (sint len) p;
       if rc \<noteq> 0 then Some (None, p) else Some (buf, p) } }"

definition buf_string :: "byte list \<Rightarrow> byte list run" where
  "buf_string buf = (if 0 \<in> set buf then Some (takeWhile (\<lambda>b. b \<noteq> 0) buf) else None)"

definition last_marker :: "byte list" where
  "last_marker = map of_char ''...''"

text \<open>The loop over the elements of one \<^verbatim>\<open>SSH2_FXP_NAME\<close>: success, the files, \<open>goOn\<close>, the state.\<close>

fun name_loop ::
    "nat \<Rightarrow> byte list \<Rightarrow> SftpFileInfo list \<Rightarrow> bool \<Rightarrow> 'w sftp \<Rightarrow>
      (bool \<times> SftpFileInfo list \<times> bool \<times> 'w sftp) run" where
  "name_loop 0 p files goOn st = Some (True, files, goOn, st)"
| "name_loop (Suc n) p files goOn st = do {
     (name, p) \<leftarrow> pop_name p;
     case name of None \<Rightarrow> Some (False, files, goOn, st) | Some name \<Rightarrow> do {
       (longName, p) \<leftarrow> pop_name p;
       case longName of None \<Rightarrow> Some (False, files, goOn, st) | Some _ \<Rightarrow> do {
         name \<leftarrow> buf_string name;
         (rc, a, p, st) \<leftarrow> SftpClient_popAttribs p st;
         if rc \<noteq> 0 then Some (False, files, goOn, st)
         else if name = last_marker then name_loop n p files False st
         else name_loop n p (files @ [\<lparr>info_name = name, info_attr = a\<rparr>]) goOn st } } }"

text \<open>
  One request of the directory loop, which \<open>readdir\<close> and the listing worker share: success, the files,
  \<open>goOn\<close>, whether all names of a packet were popped, the state.
\<close>

definition names_step ::
    "'w os \<Rightarrow> int \<Rightarrow> SftpFileInfo list \<Rightarrow> 'w sftp \<Rightarrow> (bool \<times> SftpFileInfo list \<times> bool \<times> bool \<times> 'w sftp) run" where
  "names_step os handle files st = do {
     (i, st) \<leftarrow> GenerateUniqueId st;
     let ident = word_of_int i;
     packet \<leftarrow> push_items [] [Dword 13, Byte SSH2_FXP_DIRLIGO_READDIR_SHORT, Dword ident, Dword 4,
                 Dword (word_of_int handle)];
     (rc, packet, _, st) \<leftarrow> SftpClient_processPacket os packet st;
     if rc \<noteq> 0 then Some (False, files, True, False, st) else do {
       (head, p) \<leftarrow> pop_head packet;
       case head of None \<Rightarrow> Some (False, files, True, False, st) | Some (sz, ty, idRet) \<Rightarrow>
         if idRet \<noteq> ident then Some (False, files, True, False, SftpClient_shutdown st)
         else if ty = SSH2_FXP_STATUS then do {
           (status, p) \<leftarrow> pop_dword p;
           Some (status = Some SSH2_FX_EOF, files, False, False, st) }
         else if ty = SSH2_FXP_NAME then do {
           (count, p) \<leftarrow> pop_dword p;
           case count of None \<Rightarrow> Some (False, files, True, False, st)
             | Some count \<Rightarrow> do {
                 (ok, files, goOn, st) \<leftarrow> name_loop (unat count) p files True st;
                 Some (ok, files, goOn, ok, st) } }
         else Some (False, files, True, False, SftpClient_shutdown st) } }"

definition readdir_step ::
    "'w os \<Rightarrow> int \<Rightarrow> SftpFileInfo list \<Rightarrow> 'w sftp \<Rightarrow> (bool \<times> SftpFileInfo list \<times> bool \<times> 'w sftp) run" where
  "readdir_step os handle files st = do {
     (ok, files, goOn, arrived, st) \<leftarrow> names_step os handle files st;
     Some (ok, files, goOn, st) }"

partial_function (option) readdir_loop ::
    "'w os \<Rightarrow> int \<Rightarrow> SftpFileInfo list \<Rightarrow> 'w sftp \<Rightarrow> (int \<times> SftpFileInfo list \<times> 'w sftp) option" where
  "readdir_loop os handle files st =
     (case readdir_step os handle files st of
        None \<Rightarrow> None
      | Some (ok, files, goOn, st) \<Rightarrow>
          if \<not> ok then Some (-1, files, st)
          else if goOn then readdir_loop os handle files st
          else Some (0, files, st))"

definition SftpClient_readdir ::
    "'w os \<Rightarrow> int \<Rightarrow> 'w sftp \<Rightarrow> (int \<times> SftpFileInfo list \<times> 'w sftp) run" where
  "SftpClient_readdir os handle st =
     (if dead st then Some (-1, [], st) else readdir_loop os handle [] st)"

section \<open>Reading and writing files\<close>

text \<open>
  The variables of the two loops: the caller's block and the position of \<^verbatim>\<open>buffer\<close> in it, the bytes
  done, the offset in the file and the time spent.
\<close>

record xfer =
  x_buf :: "byte list"
  x_pos :: nat
  x_done :: int
  x_offset :: u64
  x_elapsed :: real

text \<open>One round of a loop: whether it succeeded, \<open>goOn\<close>, the variables and the state.\<close>

definition read_step ::
    "'w os \<Rightarrow> int \<Rightarrow> int \<Rightarrow> xfer \<Rightarrow> 'w sftp \<Rightarrow> (bool \<times> bool \<times> xfer \<times> 'w sftp) run" where
  "read_step os handle bytesToRead x st = do {
     (i, st) \<leftarrow> GenerateUniqueId st;
     let ident = word_of_int i;
     left \<leftarrow> cint_add bytesToRead (- x_done x);
     let pieceSize = min left (sectorSize st);
     packet \<leftarrow> push_items [] [Dword 25, Byte SSH2_FXP_READ, Dword ident, Dword 4,
                 Dword (word_of_int handle), Qword (x_offset x), Dword (word_of_int pieceSize)];
     (rc, packet, elapsed, st) \<leftarrow> SftpClient_processPacket os packet st;
     if rc \<noteq> 0 then Some (False, True, x, st) else do {
       (head, p) \<leftarrow> pop_head packet;
       case head of None \<Rightarrow> Some (False, True, x, st) | Some (sz, ty, idRet) \<Rightarrow>
         if idRet \<noteq> ident then Some (False, True, x, SftpClient_shutdown st)
         else do {
           (ok, goOn, x, st) \<leftarrow>
             (if ty = SSH2_FXP_DATA then do {
                (len, p) \<leftarrow> pop_dword p;
                case len of None \<Rightarrow> Some (False, True, x, st) | Some len \<Rightarrow>
                  if length p < unat len then Some (False, True, x, SftpClient_shutdown st) else do {
                    buf \<leftarrow> memcpy (x_buf x) (x_pos x) p 0 (unat len);
                    let readed = sint (word_of_int (x_done x) + len :: u32);
                    Some (True, readed \<noteq> bytesToRead,
                          x\<lparr>x_buf := buf, x_pos := x_pos x + unat len, x_done := readed,
                            x_offset := x_offset x + ucast len\<rparr>, st) } }
              else if ty = SSH2_FXP_STATUS then do {
                (status, p) \<leftarrow> pop_dword p;
                Some (status = Some SSH2_FX_EOF, False, x, st) }
              else Some (False, True, x, SftpClient_shutdown st));
           if \<not> ok then Some (False, goOn, x, st) else
           let t = x_elapsed x + elapsed in
           Some (True, goOn \<and> \<not> t > of_int (partialReadThreshold st), x\<lparr>x_elapsed := t\<rparr>, st) } } }"

partial_function (option) read_loop ::
    "'w os \<Rightarrow> int \<Rightarrow> int \<Rightarrow> xfer \<Rightarrow> 'w sftp \<Rightarrow> (int \<times> byte list \<times> 'w sftp) option" where
  "read_loop os handle bytesToRead x st =
     (case read_step os handle bytesToRead x st of
        None \<Rightarrow> None
      | Some (ok, goOn, x, st) \<Rightarrow>
          if \<not> ok then Some (-1, x_buf x, st)
          else if goOn then read_loop os handle bytesToRead x st
          else Some (x_done x, x_buf x, st))"

definition SftpClient_read ::
    "'w os \<Rightarrow> int \<Rightarrow> byte list \<Rightarrow> u64 \<Rightarrow> int \<Rightarrow> 'w sftp \<Rightarrow> (int \<times> byte list \<times> 'w sftp) run" where
  "SftpClient_read os handle buffer offset bytesToRead st =
     (if dead st then Some (-1, buffer, st)
      else read_loop os handle bytesToRead
             \<lparr>x_buf = buffer, x_pos = 0, x_done = 0, x_offset = offset, x_elapsed = 0\<rparr> st)"

text \<open>\<open>resize\<close> and the copy to position 29 of the packet, as in the source.\<close>

definition write_step ::
    "'w os \<Rightarrow> int \<Rightarrow> int \<Rightarrow> xfer \<Rightarrow> 'w sftp \<Rightarrow> (bool \<times> bool \<times> xfer \<times> 'w sftp) run" where
  "write_step os handle bytesToWrite x st = do {
     (i, st) \<leftarrow> GenerateUniqueId st;
     let ident = word_of_int i;
     left \<leftarrow> cint_add bytesToWrite (- x_done x);
     let pieceSize = min left (sectorSize st);
     packet \<leftarrow> push_items [] [Dword (word_of_int (25 + pieceSize)), Byte SSH2_FXP_WRITE, Dword ident, Dword 4,
                 Dword (word_of_int handle), Qword (x_offset x), Dword (word_of_int pieceSize)];
     packet \<leftarrow> str_resize (int (length packet) + pieceSize) packet;
     packet \<leftarrow> memcpy packet 29 (x_buf x) (x_pos x) (size_t pieceSize);
     (rc, packet, elapsed, st) \<leftarrow> SftpClient_processPacket os packet st;
     if rc \<noteq> 0 then Some (False, True, x, st) else do {
       (head, p) \<leftarrow> pop_head packet;
       case head of None \<Rightarrow> Some (False, True, x, st) | Some (sz, ty, idRet) \<Rightarrow> do {
         (status, p) \<leftarrow> pop_dword p;
         case status of None \<Rightarrow> Some (False, True, x, st) | Some serverStatus \<Rightarrow>
           if idRet \<noteq> ident then Some (False, True, x, SftpClient_shutdown st)
           else if ty \<noteq> SSH2_FXP_STATUS then Some (False, True, x, SftpClient_shutdown st)
           else if serverStatus \<noteq> SSH2_FX_OK then Some (False, True, x, st)
           else do {
             written \<leftarrow> cint_add (x_done x) pieceSize;
             let t = x_elapsed x + elapsed;
             let goOn = (\<not> t > of_int (partialWriteThreshold st) \<and> \<not> written \<ge> bytesToWrite);
             Some (True, goOn,
                   x\<lparr>x_pos := x_pos x + nat pieceSize, x_done := written,
                     x_offset := x_offset x + word_of_int pieceSize, x_elapsed := t\<rparr>, st) } } } }"

partial_function (option) write_loop ::
    "'w os \<Rightarrow> int \<Rightarrow> int \<Rightarrow> xfer \<Rightarrow> 'w sftp \<Rightarrow> (int \<times> 'w sftp) option" where
  "write_loop os handle bytesToWrite x st =
     (case write_step os handle bytesToWrite x st of
        None \<Rightarrow> None
      | Some (ok, goOn, x, st) \<Rightarrow>
          if \<not> ok then Some (-1, st)
          else if goOn then write_loop os handle bytesToWrite x st
          else Some (x_done x, st))"

definition SftpClient_write ::
    "'w os \<Rightarrow> int \<Rightarrow> byte list \<Rightarrow> u64 \<Rightarrow> int \<Rightarrow> 'w sftp \<Rightarrow> (int \<times> 'w sftp) run" where
  "SftpClient_write os handle buffer offset bytesToWrite st =
     (if dead st then Some (-1, st)
      else write_loop os handle bytesToWrite
             \<lparr>x_buf = buffer, x_pos = 0, x_done = 0, x_offset = offset, x_elapsed = 0\<rparr> st)"

definition SftpClient_append :: "int \<Rightarrow> byte list \<Rightarrow> int \<Rightarrow> int" where
  "SftpClient_append handle buffer bytesToWrite = -1"

section \<open>Requests\<close>

fun item_bytes :: "item \<Rightarrow> byte list" where
  "item_bytes (Dword v) = wire 4 STR_BIG_ENDIAN v"
| "item_bytes (Qword v) = wire 8 STR_BIG_ENDIAN v"
| "item_bytes (Byte v) = [v]"
| "item_bytes (Raw r) = r"

definition items_bytes :: "item list \<Rightarrow> byte list" where
  "items_bytes is = concat (map item_bytes is)"

lemma items_bytes_simps [simp]:
  "items_bytes [] = []" "items_bytes (i # is) = item_bytes i @ items_bytes is"
  "items_bytes (is @ js) = items_bytes is @ items_bytes js"
  by (simp_all add: items_bytes_def)

lemma push_item_bytes:
  "int (length p + length (item_bytes i)) \<le> int_max \<Longrightarrow> push_item p i = Some (0, p @ item_bytes i)"
  by (cases i) (simp_all add: StrPushDword_wire StrPushQword_wire StrPushByte_str_def StrPushRaw_append)

lemma push_items_bytes:
  "int (length p + length (items_bytes is)) \<le> int_max \<Longrightarrow> push_items p is = Some (p @ items_bytes is)"
  by (induction "is" arbitrary: p) (simp_all add: push_item_bytes)

declare push_items.simps [simp del]

text \<open>With the size computed as the source does, the pushes build a frame.\<close>

lemma push_frame:
  assumes "sz = word_of_nat (5 + length (items_bytes items))" "int (length (items_bytes items)) + 9 \<le> int_max"
  shows "push_items [] ([Dword sz, Byte ty, Dword ident] @ items) = Some (frame ident ty (items_bytes items))"
  using push_items_bytes [of "[]" "[Dword sz, Byte ty, Dword ident] @ items"] assms
  by (simp add: frame_def)

section \<open>Answers\<close>

definition word_be :: "byte list \<Rightarrow> 'a::len word" where
  "word_be bs = word_of_le (rev bs)"

lemma word_be_wire [simp]:
  "word_be (wire 4 STR_BIG_ENDIAN v) = (v :: u32)" "word_be (wire 8 STR_BIG_ENDIAN q) = (q :: u64)"
  by (simp_all add: word_be_def)

lemma pop_dword_eq:
  assumes "int (length p) \<le> int_max"
  shows "pop_dword p = Some (if length p < 4 then (None, p) else (Some (word_be (take 4 p)), drop 4 p))"
proof (cases "length p < 4")
  case True
  then show ?thesis using assms by (simp add: pop_dword_def StrPopDword_str_def)
next
  case False
  then have "take 4 p = wire 4 STR_BIG_ENDIAN (word_be (take 4 p) :: u32)"
    by (simp add: wire_def word_be_def)
  then show ?thesis
    using pop_dword_wire [of "drop 4 p" 0 "word_be (take 4 p)"] False assms
    by (simp add: pop_dword_def)
qed

lemma pop_byte_eq:
  assumes "int (length p) \<le> int_max"
  shows "pop_byte p = Some (case p of [] \<Rightarrow> (None, p) | b # p' \<Rightarrow> (Some b, p'))"
  using assms pop_byte_wire [of "tl p" 0 "hd p"]
  by (cases p) (simp_all add: pop_byte_def StrPopByte_str_def)

lemma pop_qword_eq:
  assumes "int (length p) \<le> int_max"
  shows "pop_qword p = Some (if length p < 8 then (None, p) else (Some (word_be (take 8 p)), drop 8 p))"
proof (cases "length p < 8")
  case True
  then show ?thesis using assms by (simp add: pop_qword_def StrPopQword_str_def)
next
  case False
  then have w: "take 8 p = wire 8 STR_BIG_ENDIAN (word_be (take 8 p) :: u64)"
    by (simp add: wire_def word_be_def)
  have "StrPopQword_str (Some 0) (take 8 p @ drop 8 p) STR_BIG_ENDIAN = Some (0, Some (word_be (take 8 p)), drop 8 p)"
    using StrPopQword_equiv [of "take 8 p @ drop 8 p" "Some 0" STR_BIG_ENDIAN] assms
      StrPopQword_wire [of 0 STR_BIG_ENDIAN "[]" "word_be (take 8 p)" "drop 8 p", folded w] False
    by (simp add: unread_def cursor_at_def)
  then show ?thesis using False by (simp add: pop_qword_def)
qed

lemma pop_dword_be [simp]:
  "int (length rest) + 4 \<le> int_max \<Longrightarrow> pop_dword (wire 4 STR_BIG_ENDIAN v @ rest) = Some (Some v, rest)"
  by (simp add: pop_dword_eq)

lemma pop_qword_be [simp]:
  "int (length rest) + 8 \<le> int_max \<Longrightarrow> pop_qword (wire 8 STR_BIG_ENDIAN v @ rest) = Some (Some v, rest)"
  by (simp add: pop_qword_eq)

lemma pop_head_frame [simp]:
  "int (length body) + 9 \<le> int_max \<Longrightarrow>
     pop_head (frame ident ty body) = Some (Some (word_of_nat (5 + length body), ty, ident), body)"
  by (simp add: pop_head_def frame_def pop_byte_eq)

end
