(* ===== verification/Sftp_Session.thy ===== *)
theory Sftp_Session
  imports Sftp_Client
begin

text \<open>
  What the commands of the SFTP client do in a session with a server that keeps to the protocol, and
  what they do when it does not. The server is a parameter, a function from its state and a request to
  its new state and an answer; what is assumed of it is written in each property.
\<close>

section \<open>One exchange\<close>

lemma counter_word: "0 < n \<Longrightarrow> n \<le> int_max \<Longrightarrow> sint (word_of_int n :: u32) = n"
  by (simp add: signed_of_int signed_take_bit_int_eq_self)

lemma quiet_number:
  assumes "quiet st" "counter st < int_max"
  shows "GenerateUniqueId st = Some (counter st, st\<lparr>counter := counter st + 1\<rparr>)"
    "quiet (st\<lparr>counter := counter st + 1\<rparr>)"
    "sint (word_of_int (counter st) :: u32) \<notin> req_id ` set (rpool st)" "\<not> dead st"
  using assms counter_word [of "counter st"]
  by (auto simp: GenerateUniqueId_def cint_add_def quiet_def reader_ok_def held_def)

lemma exchange:
  assumes "quiet st" "counter st < int_max" "ident = word_of_int (counter st)"
    "length body0 + 9 \<le> 100000"
    "srv (fst (world st)) (frame ident ty0 body0) = (s', frame ident ty body)" "length body + 9 \<le> 65536"
  shows "\<exists>st'. SftpClient_processPacket (loop_os srv chunk) (frame ident ty0 body0) (st\<lparr>counter := counter st + 1\<rparr>) =
       Some (0, frame ident ty body, spent chunk st st', st') \<and>
     quiet st' \<and> fst (world st') = s' \<and> settings st' = settings (st\<lparr>counter := counter st + 1\<rparr>)"
  using loop_request [OF quiet_number(2) [OF assms(1,2)], of ident "frame ident ty0 body0" ty0 body0 srv s' ty body chunk]
    quiet_number(3) [OF assms(1,2)] assms(3-6) by simp

section \<open>Commands with a status\<close>

lemma pop_status_frame:
  assumes "length r + 13 \<le> 65536"
  shows "SftpClient_popStatusPacket (frame i ty (wire 4 STR_BIG_ENDIAN code @ r)) ident st =
     Some (code, if i \<noteq> ident \<or> ty \<noteq> SSH2_FXP_STATUS then SftpClient_shutdown st else st)"
  using assms by (simp add: SftpClient_popStatusPacket_def)

lemma status_command_answered:
  assumes "quiet st" "counter st < int_max" "ident = word_of_int (counter st)"
    "sz = word_of_nat (5 + length (items_bytes items))" "length (items_bytes items) + 9 \<le> 100000"
    "srv (fst (world st)) (frame ident ty (items_bytes items)) =
       (s', frame ident SSH2_FXP_STATUS (wire 4 STR_BIG_ENDIAN code))"
  shows "\<exists>st'. status_command (loop_os srv chunk) sz ty items st = Some (code, st') \<and>
     quiet st' \<and> fst (world st') = s' \<and> settings st' = settings (st\<lparr>counter := counter st + 1\<rparr>)"
proof -
  obtain st' where st': "SftpClient_processPacket (loop_os srv chunk) (frame ident ty (items_bytes items))
        (st\<lparr>counter := counter st + 1\<rparr>) = Some (0, frame ident SSH2_FXP_STATUS (wire 4 STR_BIG_ENDIAN code), spent chunk st st', st')"
      "quiet st'" "fst (world st') = s'" "settings st' = settings (st\<lparr>counter := counter st + 1\<rparr>)"
    using exchange [where srv = srv and chunk = chunk, OF assms(1-3,5,6)] by auto
  have pushed: "push_items [] ([Dword sz, Byte ty, Dword (word_of_int (counter st))] @ items) =
      Some (frame ident ty (items_bytes items))"
    using push_frame [OF assms(4), of ty ident] assms(3,5) by simp
  have "SftpClient_popStatusPacket (frame ident SSH2_FXP_STATUS (wire 4 STR_BIG_ENDIAN code)) ident st' = Some (code, st')"
    using pop_status_frame [of "[]" ident SSH2_FXP_STATUS code ident st'] by simp
  then show ?thesis
    using st' quiet_number(1,4) [OF assms(1,2)] pushed assms(3) by (simp add: status_command_def Let_def)
qed

text \<open>
  A server that answers every request with a status: the new state and the code may depend on the
  type and the body of the request.
\<close>

definition status_server ::
    "('s \<Rightarrow> byte list \<Rightarrow> 's \<times> byte list) \<Rightarrow> ('s \<Rightarrow> byte \<Rightarrow> byte list \<Rightarrow> 's) \<Rightarrow>
      ('s \<Rightarrow> byte \<Rightarrow> byte list \<Rightarrow> u32) \<Rightarrow> bool" where
  "status_server srv step code \<longleftrightarrow> (\<forall>s ident ty body. srv s (frame ident ty body) =
     (step s ty body, frame ident SSH2_FXP_STATUS (wire 4 STR_BIG_ENDIAN (code s ty body))))"

definition answered ::
    "(u32 \<times> 's loop_world sftp) run \<Rightarrow> 's loop_world sftp \<Rightarrow> ('s \<Rightarrow> byte \<Rightarrow> byte list \<Rightarrow> 's) \<Rightarrow>
      ('s \<Rightarrow> byte \<Rightarrow> byte list \<Rightarrow> u32) \<Rightarrow> byte \<Rightarrow> byte list \<Rightarrow> bool" where
  "answered r st step code ty body \<longleftrightarrow> (\<exists>st'. r = Some (code (fst (world st)) ty body, st') \<and> quiet st' \<and>
     fst (world st') = step (fst (world st)) ty body \<and> settings st' = settings (st\<lparr>counter := counter st + 1\<rparr>))"

abbreviation be32 :: "u32 \<Rightarrow> byte list" where
  "be32 v \<equiv> wire 4 STR_BIG_ENDIAN v"

abbreviation be64 :: "u64 \<Rightarrow> byte list" where
  "be64 v \<equiv> wire 8 STR_BIG_ENDIAN v"

lemma pop_dword_all [simp]: "pop_dword (be32 v) = Some (Some v, [])"
  using pop_dword_be [of "[]" v] by simp

lemma status_answered:
  assumes "quiet st" "counter st < int_max" "status_server srv step code"
    "sz = word_of_nat (5 + length (items_bytes items))" "length (items_bytes items) + 9 \<le> 100000"
    "body = items_bytes items"
  shows "answered (status_command (loop_os srv chunk) sz ty items st) st step code ty body"
  using status_command_answered [OF assms(1,2) refl assms(4,5), of srv ty _ "code (fst (world st)) ty body" chunk] assms(3,6)
  by (simp add: answered_def status_server_def)

lemma length_dwords [simp]: "length (concat (map (\<lambda>h. be32 (f h)) hs)) = 4 * length hs"
  by (induction hs) simp_all

lemma items_dwords: "items_bytes (map (\<lambda>h. Dword (f h)) hs) = concat (map (\<lambda>h. be32 (f h)) hs)"
  by (induction hs) simp_all

section \<open>A fresh session\<close>

text \<open>The state that \<open>connect\<close> leaves behind, with the smallest counter.\<close>

definition fresh_client :: "'s \<Rightarrow> 's loop_world sftp" where
  "fresh_client s = \<lparr>fdType = SFTP_CLIENT_FD, sectorSize = SFTP_DEFAULT_SECTOR_SIZE,
     partialReadThreshold = 10000, partialWriteThreshold = 10000, dead = False, dropped = 0,
     mutex_count = 0, counter = 1,
     rpool = replicate 8 \<lparr>req_id = -1, inputData = 0, outputData = 0, served = 0\<rparr>,
     strings = (\<lambda>_. []), rd_buf = replicate 65536 0, rd_total = 0, rd_head = None, rd_alive = True,
     world = (s, [], 0)\<rparr>"

lemma quiet_fresh: "quiet (fresh_client s)"
  by (auto simp: quiet_def fresh_client_def reader_ok_def held_def loop_queue_def intro: unique_idsI)

lemma fresh_simps [simp]:
  "counter (fresh_client s) = 1" "world (fresh_client s) = (s, [], 0)" "\<not> dead (fresh_client s)"
  "sectorSize (fresh_client s) = 32768" "partialReadThreshold (fresh_client s) = 10000"
  "partialWriteThreshold (fresh_client s) = 10000"
  by (simp_all add: fresh_client_def SFTP_DEFAULT_SECTOR_SIZE_def)

text \<open>The parts of a request, for servers that are given by a function.\<close>

definition req_ident :: "byte list \<Rightarrow> u32" where
  "req_ident p = word_be (take 4 (drop 5 p))"

definition req_type :: "byte list \<Rightarrow> byte" where
  "req_type p = p ! 4"

definition req_body :: "byte list \<Rightarrow> byte list" where
  "req_body p = drop 9 p"

lemma req_frame [simp]:
  "req_ident (frame ident ty body) = ident" "req_type (frame ident ty body) = ty"
  "req_body (frame ident ty body) = body"
  by (simp_all add: req_ident_def req_type_def req_body_def frame_def nth_append)

section \<open>Properties\<close>

text \<open>
  The commands with a status: every one of them sends exactly the packet of the protocol,
  with its size, its type, a fresh number and its arguments, waits for the answer, and returns the code
  of the server; the session stays usable and the number is used up. It holds for every server that
  answers with a status, and however its answers are cut into pieces.
\<close>

theorem status_commands:
  assumes "quiet st" "counter st < int_max" "status_server srv step code"
    "length path + length path2 \<le> 60000" "handles \<noteq> []" "length handles \<le> 15000"
  shows "answered (SftpClient_mkdir (loop_os srv chunk) path st) st step code
       SSH2_FXP_MKDIR (be32 (len32 path) @ path @ be32 0) \<and>
     answered (SftpClient_remove (loop_os srv chunk) path st) st step code
       SSH2_FXP_REMOVE (be32 (len32 path) @ path) \<and>
     answered (SftpClient_rmdir (loop_os srv chunk) path st) st step code
       SSH2_FXP_RMDIR (be32 (len32 path) @ path) \<and>
     answered (SftpClient_rename (loop_os srv chunk) path path2 st) st step code
       SSH2_FXP_RENAME (be32 (len32 path) @ path @ be32 (len32 path2) @ path2) \<and>
     answered (SftpClient_close (loop_os srv chunk) handle st) st step code
       SSH2_FXP_CLOSE (be32 4 @ be32 (word_of_int handle)) \<and>
     answered (SftpClient_resetdir (loop_os srv chunk) handle st) st step code
       SSH2_FXP_DIRLIGO_RESETDIR (be32 (word_of_int handle)) \<and>
     answered (SftpClient_multiclose (loop_os srv chunk) handles st) st step code
       SSH2_FXP_DIRLIGO_MULTICLOSE
       (be32 (word_of_nat (length handles)) @ concat (map (\<lambda>h. be32 (word_of_int h)) handles))"
proof -
  note a = status_answered [OF assms(1-3)]
  show ?thesis
    unfolding SftpClient_mkdir_def SftpClient_remove_def SftpClient_rmdir_def SftpClient_rename_def
      SftpClient_close_def SftpClient_resetdir_def SftpClient_multiclose_def
    using assms(4-6) by (intro conjI) (simp_all add: a items_dwords)
qed

theorem status_commands_witness:
  "\<exists>st'. SftpClient_mkdir (loop_os (\<lambda>s p. (Suc s, frame (req_ident p) SSH2_FXP_STATUS (be32 7))) (\<lambda>t. (t, 0))) [47]
       (fresh_client 0) = Some (7, st') \<and> fst (world st') = 1"
proof -
  have "status_server (\<lambda>s p. (Suc s, frame (req_ident p) SSH2_FXP_STATUS (be32 7))) (\<lambda>s ty body. Suc s) (\<lambda>_ _ _. 7)"
    by (simp add: status_server_def)
  from status_commands [OF quiet_fresh _ this, of 0 "[47]" "[]" "[1]" "\<lambda>t. (t, 0)" 0, THEN conjunct1] show ?thesis
    by (auto simp: answered_def)
qed

text \<open>
  An answer with a wrong number or a wrong type ends the session, but it is not reported:
  the code is popped before the checks, so the command returns whatever double word follows the header.
  A server that answers \<open>mkdir\<close> with the packet for an opened file and a leading zero makes it return
  success. Only an answer that is too short is reported as a failure.
\<close>

theorem mismatched_answer:
  assumes "length r + 13 \<le> 65536" "length short < 13"
  shows "SftpClient_popStatusPacket (frame i ty (be32 code @ r)) ident st =
       Some (code, if i \<noteq> ident \<or> ty \<noteq> SSH2_FXP_STATUS then SftpClient_shutdown st else st) \<and>
     dead (SftpClient_shutdown st) \<and> SftpClient_popStatusPacket short ident st = Some (SSH2_FX_FAILURE, st)"
proof -
  have "SftpClient_popStatusPacket short ident st = Some (SSH2_FX_FAILURE, st)"
    using assms(2)
    by (auto simp: SftpClient_popStatusPacket_def pop_head_def pop_dword_eq pop_byte_eq split: list.splits
        dest!: arg_cong [of _ _ length])
  moreover have "dead (SftpClient_shutdown st)" by (simp add: SftpClient_shutdown_def)
  ultimately show ?thesis using pop_status_frame [OF assms(1), of i ty code ident st] by simp
qed

theorem mismatched_answer_witness:
  "SftpClient_popStatusPacket (frame 5 SSH2_FXP_HANDLE (be32 0 @ be32 9)) 5 (fresh_client ()) =
     Some (SSH2_FX_OK, SftpClient_shutdown (fresh_client ()))"
  using mismatched_answer [of "be32 9" "[]" 5 SSH2_FXP_HANDLE 0 5 "fresh_client ()"] by (simp add: fxp_defs)

text \<open>
  A dead session: no command touches the network, the pool or the reader any more, and all
  report a failure, with one exception: \<open>createfile\<close> returns 0, which is the number of a valid handle.
\<close>

theorem dead_session:
  assumes "dead st" "counter st < int_max" "- int_max \<le> counter st"
  shows "let st' = st\<lparr>counter := counter st + 1\<rparr> in
     SftpClient_open os path mode isDir st = Some (-1, st') \<and>
     SftpClient_opendir os path st = Some (-1, st') \<and>
     SftpClient_close os handle st = Some (SSH2_FX_FAILURE, st') \<and>
     SftpClient_multiclose os handles st = Some (SSH2_FX_FAILURE, st') \<and>
     SftpClient_resetdir os handle st = Some (SSH2_FX_FAILURE, st') \<and>
     SftpClient_mkdir os path st = Some (SSH2_FX_FAILURE, st') \<and>
     SftpClient_remove os path st = Some (SSH2_FX_FAILURE, st') \<and>
     SftpClient_rmdir os path st = Some (SSH2_FX_FAILURE, st') \<and>
     SftpClient_rename os path path2 st = Some (SSH2_FX_FAILURE, st') \<and>
     SftpClient_stat os p attr st = Some (-1, attr, st') \<and>
     SftpClient_statvfs os path st = Some (-1, [], st') \<and>
     SftpClient_readdir os handle st = Some (-1, [], st) \<and>
     SftpClient_read os handle buffer off n st = Some (-1, buffer, st) \<and>
     SftpClient_write os handle buffer off n st = Some (-1, st) \<and>
     SftpClient_createfile os path acc shared create flags d st = Some (0, d, st')"
proof -
  have g: "GenerateUniqueId st = Some (counter st, st\<lparr>counter := counter st + 1\<rparr>)"
    using assms(2,3) by (simp add: GenerateUniqueId_def cint_add_def)
  have sc: "status_command os sz ty items st = Some (SSH2_FX_FAILURE, st\<lparr>counter := counter st + 1\<rparr>)" for sz ty items
    using assms(1) g by (simp add: status_command_def)
  show ?thesis
    using assms(1) g
    by (simp add: Let_def sc SftpClient_open_def SftpClient_opendir_def SftpClient_close_def SftpClient_multiclose_def
        SftpClient_resetdir_def SftpClient_mkdir_def SftpClient_remove_def SftpClient_rmdir_def
        SftpClient_rename_def SftpClient_stat_def SftpClient_statvfs_def SftpClient_readdir_def
        SftpClient_read_def SftpClient_write_def SftpClient_createfile_def)
qed

theorem dead_session_witness:
  "SftpClient_createfile (loop_os (\<lambda>s p. (s, p)) (\<lambda>t. (t, 0))) [47] 0 0 0 0 None (SftpClient_shutdown (fresh_client ())) =
     Some (0, None, (SftpClient_shutdown (fresh_client ()))\<lparr>counter := 2\<rparr>)"
  using dead_session [of "SftpClient_shutdown (fresh_client ())" "loop_os (\<lambda>s p. (s, p)) (\<lambda>t. (t, 0))" "[47]"]
  by (simp add: SftpClient_shutdown_def Let_def)

end
