(* ===== verification/Sftp_File.thy ===== *)
theory Sftp_File
  imports Sftp_Session
begin

text \<open>
  Reading and writing of remote files. The commands cut a transfer into pieces of at most a sector;
  seen from outside they are one read or one write of a range of the file. The server is a parameter
  again: \<open>serves_reads\<close> and \<open>serves_writes\<close> say what the protocol asks of it.
\<close>

section \<open>Servers of files\<close>

text \<open>
  Reads of an open handle: a server may return less than it was asked for, but at least one byte before
  the end of the file; at the end it answers with the status \<^verbatim>\<open>SSH2_FX_EOF\<close>.
\<close>

definition serves_reads ::
    "('s \<Rightarrow> byte list \<Rightarrow> 's \<times> byte list) \<Rightarrow> u32 \<Rightarrow> ('s \<Rightarrow> byte list) \<Rightarrow> (nat \<Rightarrow> nat \<Rightarrow> nat) \<Rightarrow> bool" where
  "serves_reads srv h content piece \<longleftrightarrow>
     (\<forall>off n. 0 < n \<longrightarrow> 0 < piece off n \<and> piece off n \<le> n) \<and>
     (\<forall>s ident off n. 0 < n \<longrightarrow> n \<le> 65523 \<longrightarrow> off < 2 ^ 64 \<longrightarrow>
       srv s (frame ident SSH2_FXP_READ
                (be32 4 @ be32 h @ be64 (word_of_nat off) @ be32 (word_of_nat n))) =
         (s, if off < length (content s)
             then (let d = take (piece off n) (drop off (content s)) in
                   frame ident SSH2_FXP_DATA (be32 (len32 d) @ d))
             else frame ident SSH2_FXP_STATUS (be32 SSH2_FX_EOF)))"

text \<open>Writing \<open>d\<close> at an offset of a file; a gap is filled with zeros.\<close>

definition splice :: "byte list \<Rightarrow> nat \<Rightarrow> byte list \<Rightarrow> byte list" where
  "splice c off d = take off c @ replicate (off - length c) 0 @ d @ drop (off + length d) c"

definition serves_writes ::
    "('s \<Rightarrow> byte list \<Rightarrow> 's \<times> byte list) \<Rightarrow> u32 \<Rightarrow> ('s \<Rightarrow> byte list) \<Rightarrow> bool" where
  "serves_writes srv h content \<longleftrightarrow>
     (\<forall>s ident off d. d \<noteq> [] \<longrightarrow> length d \<le> 65507 \<longrightarrow> off < 2 ^ 64 \<longrightarrow>
       (\<exists>s'. srv s (frame ident SSH2_FXP_WRITE
                (be32 4 @ be32 h @ be64 (word_of_nat off) @ be32 (len32 d) @ d)) =
           (s', frame ident SSH2_FXP_STATUS (be32 SSH2_FX_OK)) \<and> content s' = splice (content s) off d))"

text \<open>What a command with at most \<open>n\<close> requests leaves of the session.\<close>

definition session_kept :: "'s loop_world sftp \<Rightarrow> nat \<Rightarrow> 's loop_world sftp \<Rightarrow> bool" where
  "session_kept st n st' \<longleftrightarrow> quiet st' \<and> sectorSize st' = sectorSize st \<and>
     partialReadThreshold st' = partialReadThreshold st \<and> partialWriteThreshold st' = partialWriteThreshold st \<and>
     counter st' \<le> counter st + int n"

lemma session_kept_step:
  "quiet st' \<Longrightarrow> settings st' = settings (st\<lparr>counter := counter st + 1\<rparr>) \<Longrightarrow> 0 < n \<Longrightarrow> session_kept st n st'"
  by (simp add: session_kept_def settings_def)

lemma session_kept_trans:
  "session_kept st a st1 \<Longrightarrow> session_kept st1 b st2 \<Longrightarrow> a + b \<le> n \<Longrightarrow> session_kept st n st2"
  by (simp add: session_kept_def)

section \<open>Reading\<close>

text \<open>The variables of the read loop after \<open>k\<close> bytes of \<open>data\<close> and the time \<open>el\<close>.\<close>

definition read_at :: "byte list \<Rightarrow> byte list \<Rightarrow> nat \<Rightarrow> nat \<Rightarrow> real \<Rightarrow> xfer" where
  "read_at data buffer off k el = \<lparr>x_buf = take k data @ drop k buffer, x_pos = k, x_done = int k,
     x_offset = word_of_nat (off + k), x_elapsed = el\<rparr>"

lemma take_take_drop: "take k xs @ take n (drop k xs) = take (k + n) xs"
  by (simp add: take_add)

lemma data_copied:
  assumes "k + length d \<le> length data" "k + length d \<le> length buffer" "d = take (length d) (drop k data)"
  shows "memcpy (take k data @ drop k buffer) k d 0 (length d) =
     Some (take (k + length d) data @ drop (k + length d) buffer)"
proof -
  have "take (k + length d) data = take k data @ d" using assms(3) take_add [of k "length d" data] by simp
  then show ?thesis using assms(1,2) by (simp add: mem_simps add.commute)
qed

lemma read_request:
  "push_items [] [Dword 25, Byte SSH2_FXP_READ, Dword ident, Dword 4, Dword h, Qword off, Dword n] =
     Some (frame ident SSH2_FXP_READ (be32 4 @ be32 h @ be64 off @ be32 n))"
  using push_frame [of 25 "[Dword 4, Dword h, Qword off, Dword n]" SSH2_FXP_READ ident] by simp

lemma done_word: "int (k + l) \<le> int_max \<Longrightarrow> sint (word_of_int (int k) + word_of_nat l :: u32) = int (k + l)"
  using sint_u32_small [of "k + l"] by simp

lemma read_step_server:
  assumes "quiet st" "counter st < int_max" "serves_reads srv h content piece"
    "h = word_of_int handle" "0 < sectorSize st" "sectorSize st \<le> 65523"
    "k < n" "int n \<le> int_max" "off + n < 2 ^ 64" "n \<le> length buffer"
    "data = drop off (content (fst (world st)))" "k \<le> length data"
  obtains st' l where
    "read_step (loop_os srv chunk) handle (int n) (read_at data buffer off k el) st =
       Some (True, l \<noteq> 0 \<and> k + l \<noteq> n \<and> el + spent chunk st st' \<le> partialReadThreshold st,
         read_at data buffer off (k + l) (el + spent chunk st st'), st')"
    "quiet st'" "fst (world st') = fst (world st)" "settings st' = settings (st\<lparr>counter := counter st + 1\<rparr>)"
    "k + l \<le> n" "k + l \<le> length data" "l = 0 \<longrightarrow> length data = k"
proof -
  let ?s = "fst (world st)" and ?id = "word_of_int (counter st) :: u32"
  define ps where "ps = min (n - k) (nat (sectorSize st))"
  have ps: "0 < ps" "ps \<le> 65523" "ps \<le> n - k" and pse: "min (int n - int k) (sectorSize st) = int ps"
    using assms(5,6,7) by (auto simp: ps_def min_def)
  note piece = assms(3) [unfolded serves_reads_def, THEN conjunct1, rule_format, OF ps(1)]
  define body where "body = be32 4 @ be32 h @ be64 (word_of_nat (off + k)) @ be32 (word_of_nat ps)"
  define d where "d = take (piece (off + k) ps) (drop (off + k) (content ?s))"
  have dd: "d = take (piece (off + k) ps) (drop k data)" by (simp add: d_def assms(11) add.commute)
  define ans where "ans = (if k < length data then frame ?id SSH2_FXP_DATA (be32 (len32 d) @ d)
      else frame ?id SSH2_FXP_STATUS (be32 SSH2_FX_EOF))"
  have eof: "off + k < length (content ?s) \<longleftrightarrow> k < length data" using assms(11,12) by auto
  have answer: "srv ?s (frame ?id SSH2_FXP_READ body) = (?s, ans)"
    using assms(3) [unfolded serves_reads_def, THEN conjunct2, rule_format, OF ps(1,2), of "off + k" ?s ?id]
      assms(7,9) eof by (simp add: body_def ans_def d_def Let_def)
  have ld: "length d \<le> ps" using piece [of "off + k"] by (simp add: dd min.coboundedI2)
  obtain ty bd where ans2: "ans = frame ?id ty bd" "length bd + 9 \<le> 65536"
  proof (cases "k < length data")
    case True
    then show thesis using that [of SSH2_FXP_DATA "be32 (len32 d) @ d"] ld ps(2) by (simp add: ans_def)
  next
    case False
    then show thesis using that [of SSH2_FXP_STATUS "be32 SSH2_FX_EOF"] by (simp add: ans_def)
  qed
  obtain st' where st': "SftpClient_processPacket (loop_os srv chunk) (frame ?id SSH2_FXP_READ body)
        (st\<lparr>counter := counter st + 1\<rparr>) = Some (0, ans, spent chunk st st', st')"
      "quiet st'" "fst (world st') = ?s" "settings st' = settings (st\<lparr>counter := counter st + 1\<rparr>)"
    using exchange [where srv = srv and chunk = chunk, OF assms(1,2) refl, of body SSH2_FXP_READ ?s ty bd]
      answer ans2 by (auto simp: body_def)
  have thr: "partialReadThreshold st' = partialReadThreshold st" using st'(4) by (simp add: settings_def)
  note step = quiet_number(1) [OF assms(1,2)] st'(1) [unfolded body_def] read_request [of ?id h "word_of_nat (off + k)" "word_of_nat ps"]
  have left: "cint_add (int n) (- int k) = Some (int n - int k)" using assms(7,8) by (simp add: cint_add_def)
  show thesis
  proof (cases "k < length data")
    case True
    define l where "l = length d"
    have l: "0 < l" "l \<le> ps" "k + l \<le> length data" using True piece [of "off + k"] ld by (auto simp: l_def dd)
    have dl: "d = take (length d) (drop k data)" by (metis dd append_take_drop_id append_eq_conv_conj)
    have cp: "memcpy (take k data @ drop k buffer) k d 0 l = Some (take (k + l) data @ drop (k + l) buffer)"
      using data_copied [of k d data buffer] l ps(3) assms(7,10) dl by (simp add: l_def)
    have w: "unat (word_of_nat l :: u32) = l" "sint (word_of_int (int k) + word_of_nat l :: u32) = int (k + l)"
      using l(2) ps(2,3) assms(7,8) unat_u32_small [of l] done_word [of k l] by simp_all
    have u: "ucast (len32 d) = (word_of_nat (length d) :: u64)"
      using w(1) by (metis l_def of_nat_unat)
    have eqs: "(int k + int (length d) = int n) = (k + length d = n)" by linarith
    have pop: "pop_dword (be32 (len32 d) @ d) = Some (Some (word_of_nat l), d)"
      using l(2) ps(2) by (simp add: l_def)
    have hd: "pop_head ans = Some (Some (word_of_nat (5 + length (be32 (len32 d) @ d)), SSH2_FXP_DATA, ?id), be32 (len32 d) @ d)"
      using True l(2) ps(2) by (simp add: ans_def l_def)
    have "read_step (loop_os srv chunk) handle (int n) (read_at data buffer off k el) st =
       Some (True, l \<noteq> 0 \<and> k + l \<noteq> n \<and> el + spent chunk st st' \<le> partialReadThreshold st,
         read_at data buffer off (k + l) (el + spent chunk st st'), st')"
      unfolding read_step_def read_at_def
      using step left pse hd pop cp w u eqs l(1) thr assms(4) by (simp add: Let_def l_def not_less)
    then show ?thesis using that [of l st'] st' l ps(3) assms(7) by simp
  next
    case False
    have "read_step (loop_os srv chunk) handle (int n) (read_at data buffer off k el) st =
       Some (True, False, read_at data buffer off k (el + spent chunk st st'), st')"
      unfolding read_step_def read_at_def
      using step left pse thr assms(4) False by (simp add: Let_def ans_def fxp_defs)
    then show ?thesis using that [of 0 st'] st' False assms(7,12) by simp
  qed
qed

text \<open>
  The rounds from position \<open>k\<close> on: at most \<open>n - k\<close> numbers are drawn. The loop stops before the whole
  range is read only when the time of the requests exceeds the limit, and then after at least one piece.
\<close>

lemma read_loop_server:
  assumes "quiet st" "counter st + int (n - k) \<le> int_max" "serves_reads srv (word_of_int handle) content piece"
    "0 < sectorSize st" "sectorSize st \<le> 65523"
    "k < n" "int n \<le> int_max" "off + n < 2 ^ 64" "n \<le> length buffer"
    "data = drop off (content (fst (world st)))" "k \<le> length data"
  shows "\<exists>m st'. read_loop (loop_os srv chunk) handle (int n) (read_at data buffer off k el) st =
      Some (int m, take m data @ drop m buffer, st') \<and> session_kept st (n - k) st' \<and> fst (world st') = fst (world st) \<and>
      k \<le> m \<and> m \<le> min n (length data) \<and> (k < length data \<longrightarrow> k < m) \<and>
      (m = min n (length data) \<or> partialReadThreshold st < el + spent chunk st st')"
  using assms
proof (induction "n - k" arbitrary: k el st rule: less_induct)
  case less
  have "counter st < int_max" using less.prems(2,6) by simp
  then obtain st1 l where step:
    "read_step (loop_os srv chunk) handle (int n) (read_at data buffer off k el) st =
       Some (True, l \<noteq> 0 \<and> k + l \<noteq> n \<and> el + spent chunk st st1 \<le> partialReadThreshold st,
         read_at data buffer off (k + l) (el + spent chunk st st1), st1)"
    "quiet st1" "fst (world st1) = fst (world st)" "settings st1 = settings (st\<lparr>counter := counter st + 1\<rparr>)"
    "k + l \<le> n" "k + l \<le> length data" "l = 0 \<longrightarrow> length data = k"
    using read_step_server [where chunk = chunk, OF less.prems(1) _ less.prems(3) refl less.prems(4-11)] by metis
  have kept: "session_kept st 1 st1" using step(2,4) by (simp add: session_kept_step)
  let ?m = "min n (length data)"
  show ?case
  proof (cases "l \<noteq> 0 \<and> k + l \<noteq> n \<and> el + spent chunk st st1 \<le> partialReadThreshold st")
    case True
    then have "\<exists>m st'. read_loop (loop_os srv chunk) handle (int n) (read_at data buffer off (k + l) (el + spent chunk st st1)) st1 =
        Some (int m, take m data @ drop m buffer, st') \<and> session_kept st1 (n - (k + l)) st' \<and>
        fst (world st') = fst (world st1) \<and> k + l \<le> m \<and> m \<le> ?m \<and> (k + l < length data \<longrightarrow> k + l < m) \<and>
        (m = ?m \<or> partialReadThreshold st1 < el + spent chunk st st1 + spent chunk st1 st')"
      using less.prems step kept by (intro less.hyps) (auto simp: session_kept_def)
    then obtain m st' where st': "read_loop (loop_os srv chunk) handle (int n) (read_at data buffer off (k + l) (el + spent chunk st st1)) st1 =
        Some (int m, take m data @ drop m buffer, st')" "session_kept st1 (n - (k + l)) st'"
        "fst (world st') = fst (world st1)" "k + l \<le> m" "m \<le> ?m" "k + l < length data \<longrightarrow> k + l < m"
        "m = ?m \<or> partialReadThreshold st1 < el + spent chunk st st1 + spent chunk st1 st'" by blast
    have "1 + (n - (k + l)) \<le> n - k" using True step(5) by linarith
    then have "session_kept st (n - k) st'" by (rule session_kept_trans [OF kept st'(2)])
    moreover have "partialReadThreshold st1 = partialReadThreshold st" using step(4) by (simp add: settings_def)
    moreover have "k < length data \<longrightarrow> k < m" using st'(4) True by simp
    ultimately show ?thesis using step(1,3) st' True spent_trans [of chunk st st1 st']
      by (subst read_loop.simps) (auto simp: algebra_simps)
  next
    case False
    then have stop: "(l \<noteq> 0 \<and> k + l \<noteq> n \<and> el + spent chunk st st1 \<le> partialReadThreshold st) = False" by blast
    have m: "k + l = ?m \<or> partialReadThreshold st < el + spent chunk st st1" "k + l \<le> ?m" "k < length data \<longrightarrow> k < k + l"
      using False step(5-7) less.prems(6) by auto
    have "session_kept st (n - k) st1" using step(2,4) less.prems(6) by (simp add: session_kept_step)
    moreover have "read_loop (loop_os srv chunk) handle (int n) (read_at data buffer off k el) st =
        Some (int (k + l), take (k + l) data @ drop (k + l) buffer, st1)"
      using step(1) [unfolded stop] by (subst read_loop.simps) (simp, simp add: read_at_def)
    ultimately show ?thesis using step(3) m le_add1 [of k l] by blast
  qed
qed

section \<open>Writing\<close>

lemma splice_append: "splice (splice c off a) (off + length a) b = splice c off (a @ b)"
proof -
  define t where "t = take off c @ replicate (off - length c) 0"
  have "length t = off" by (simp add: t_def)
  moreover have "splice c off a = t @ a @ drop (off + length a) c" by (simp add: splice_def t_def)
  ultimately show ?thesis by (simp add: splice_def t_def add.commute add.left_commute)
qed

text \<open>The three steps that build a request: the header, the room for the data, the copy.\<close>

lemma write_request:
  assumes "l \<le> 65507" "k + l \<le> length buffer" "d = take l (drop k buffer)"
    "hdr = be32 (word_of_nat (25 + l)) @ [SSH2_FXP_WRITE] @ be32 ident @ be32 4 @ be32 h @ be64 off @ be32 (len32 d)"
  shows "push_items [] [Dword (word_of_int (25 + int l)), Byte SSH2_FXP_WRITE, Dword ident, Dword 4,
      Dword h, Qword off, Dword (word_of_int (int l))] = Some hdr"
    "str_resize (int (length hdr) + int l) hdr = Some (hdr @ replicate l 0)"
    "memcpy (hdr @ replicate l 0) 29 buffer k (size_t (int l)) =
       Some (frame ident SSH2_FXP_WRITE (be32 4 @ be32 h @ be64 off @ be32 (len32 d) @ d))"
proof -
  have l: "length hdr = 29" "length d = l" using assms(2-4) by simp_all
  show "push_items [] [Dword (word_of_int (25 + int l)), Byte SSH2_FXP_WRITE, Dword ident, Dword 4,
      Dword h, Qword off, Dword (word_of_int (int l))] = Some hdr"
    using l assms(4) by (simp add: push_items_bytes)
  have "nat (29 + int l) = 29 + l" by simp
  then show "str_resize (int (length hdr) + int l) hdr = Some (hdr @ replicate l 0)"
    using l by (simp add: str_resize_def)
  have "size_t (int l) = l" using assms(1) by simp
  moreover have "take 29 (hdr @ replicate l 0) @ d @ drop (29 + l) (hdr @ replicate l 0) =
      frame ident SSH2_FXP_WRITE (be32 4 @ be32 h @ be64 off @ be32 (len32 d) @ d)"
    using l by (simp add: assms(4) frame_def)
  ultimately show "memcpy (hdr @ replicate l 0) 29 buffer k (size_t (int l)) =
       Some (frame ident SSH2_FXP_WRITE (be32 4 @ be32 h @ be64 off @ be32 (len32 d) @ d))"
    using l(1) assms(2) by (simp add: mem_simps assms(3))
qed

text \<open>The variables of the write loop after \<open>k\<close> bytes and the time \<open>el\<close>.\<close>

definition write_at :: "byte list \<Rightarrow> nat \<Rightarrow> nat \<Rightarrow> real \<Rightarrow> xfer" where
  "write_at buffer off k el = \<lparr>x_buf = buffer, x_pos = k, x_done = int k, x_offset = word_of_nat (off + k), x_elapsed = el\<rparr>"

lemma write_step_server:
  assumes "quiet st" "counter st < int_max" "serves_writes srv (word_of_int handle) content"
    "0 < sectorSize st" "sectorSize st \<le> 65507"
    "k < n" "int n \<le> int_max" "off + n < 2 ^ 64" "n \<le> length buffer"
  obtains st' l where
    "write_step (loop_os srv chunk) handle (int n) (write_at buffer off k el) st =
       Some (True, k + l \<noteq> n \<and> el + spent chunk st st' \<le> partialWriteThreshold st,
         write_at buffer off (k + l) (el + spent chunk st st'), st')"
    "quiet st'" "settings st' = settings (st\<lparr>counter := counter st + 1\<rparr>)" "0 < l" "k + l \<le> n"
    "content (fst (world st')) = splice (content (fst (world st))) (off + k) (take l (drop k buffer))"
proof -
  let ?s = "fst (world st)" and ?id = "word_of_int (counter st) :: u32" and ?h = "word_of_int handle :: u32"
  define l where "l = min (n - k) (nat (sectorSize st))"
  have l: "0 < l" "l \<le> 65507" "k + l \<le> n" and le: "min (int n - int k) (sectorSize st) = int l"
    using assms(4,5,6) by (auto simp: l_def min_def)
  define d where "d = take l (drop k buffer)"
  have ld: "length d = l" using l(3) assms(9) by (simp add: d_def)
  define body where "body = be32 4 @ be32 ?h @ be64 (word_of_nat (off + k)) @ be32 (len32 d) @ d"
  obtain s' where s': "srv ?s (frame ?id SSH2_FXP_WRITE body) = (s', frame ?id SSH2_FXP_STATUS (be32 SSH2_FX_OK))"
      "content s' = splice (content ?s) (off + k) d"
    using assms(3) [unfolded serves_writes_def, rule_format, of d "off + k" ?s ?id] assms(6,8) l(1,2) ld
    by (auto simp: body_def)
  obtain st' where st': "SftpClient_processPacket (loop_os srv chunk) (frame ?id SSH2_FXP_WRITE body)
        (st\<lparr>counter := counter st + 1\<rparr>) = Some (0, frame ?id SSH2_FXP_STATUS (be32 SSH2_FX_OK), spent chunk st st', st')"
      "quiet st'" "fst (world st') = s'" "settings st' = settings (st\<lparr>counter := counter st + 1\<rparr>)"
    using exchange [where srv = srv and chunk = chunk, OF assms(1,2) refl, of body SSH2_FXP_WRITE s' SSH2_FXP_STATUS "be32 SSH2_FX_OK"]
      s'(1) ld l(2) by (auto simp: body_def)
  have thr: "partialWriteThreshold st' = partialWriteThreshold st" using st'(4) by (simp add: settings_def)
  have left: "cint_add (int n) (- int k) = Some (int n - int k)" "cint_add (int k) (int l) = Some (int k + int l)"
    using assms(6,7) l(3) by (simp_all add: cint_add_def)
  have eqs: "(int n \<le> int k + int l) = (k + l = n)" using l(3) by linarith
  have kl: "k + l \<le> length buffer" using l(3) assms(9) by simp
  note req = write_request [OF l(2) kl d_def refl, of ?id ?h "word_of_nat (off + k)", folded body_def]
  have "write_step (loop_os srv chunk) handle (int n) (write_at buffer off k el) st =
       Some (True, k + l \<noteq> n \<and> el + spent chunk st st' \<le> partialWriteThreshold st,
         write_at buffer off (k + l) (el + spent chunk st st'), st')"
    unfolding write_step_def write_at_def
    using quiet_number(1) [OF assms(1,2)] st'(1) left le req thr eqs
    by (auto simp: Let_def not_less)
  then show thesis using that [of l st'] st' s' l by (simp add: d_def)
qed

lemma write_loop_server:
  assumes "quiet st" "counter st + int (n - k) \<le> int_max" "serves_writes srv (word_of_int handle) content"
    "0 < sectorSize st" "sectorSize st \<le> 65507"
    "k < n" "int n \<le> int_max" "off + n < 2 ^ 64" "n \<le> length buffer"
  shows "\<exists>m st'. write_loop (loop_os srv chunk) handle (int n) (write_at buffer off k el) st = Some (int m, st') \<and>
    session_kept st (n - k) st' \<and>
    content (fst (world st')) = splice (content (fst (world st))) (off + k) (take (m - k) (drop k buffer)) \<and>
    k < m \<and> m \<le> n \<and> (m = n \<or> partialWriteThreshold st < el + spent chunk st st')"
  using assms
proof (induction "n - k" arbitrary: k el st rule: less_induct)
  case less
  have "counter st < int_max" using less.prems(2,6) by simp
  then obtain st1 l where step:
    "write_step (loop_os srv chunk) handle (int n) (write_at buffer off k el) st =
       Some (True, k + l \<noteq> n \<and> el + spent chunk st st1 \<le> partialWriteThreshold st,
         write_at buffer off (k + l) (el + spent chunk st st1), st1)"
    "quiet st1" "settings st1 = settings (st\<lparr>counter := counter st + 1\<rparr>)" "0 < l" "k + l \<le> n"
    "content (fst (world st1)) = splice (content (fst (world st))) (off + k) (take l (drop k buffer))"
    using write_step_server [where chunk = chunk, OF less.prems(1) _ less.prems(3-9)] by metis
  have kept: "session_kept st 1 st1" using step(2,3) by (simp add: session_kept_step)
  show ?case
  proof (cases "k + l \<noteq> n \<and> el + spent chunk st st1 \<le> partialWriteThreshold st")
    case True
    then have "\<exists>m st'. write_loop (loop_os srv chunk) handle (int n) (write_at buffer off (k + l) (el + spent chunk st st1)) st1 = Some (int m, st') \<and>
        session_kept st1 (n - (k + l)) st' \<and>
        content (fst (world st')) = splice (content (fst (world st1))) (off + (k + l)) (take (m - (k + l)) (drop (k + l) buffer)) \<and>
        k + l < m \<and> m \<le> n \<and> (m = n \<or> partialWriteThreshold st1 < el + spent chunk st st1 + spent chunk st1 st')"
      using less.prems step kept by (intro less.hyps) (auto simp: session_kept_def)
    then obtain m st' where st': "write_loop (loop_os srv chunk) handle (int n) (write_at buffer off (k + l) (el + spent chunk st st1)) st1 = Some (int m, st')"
        "session_kept st1 (n - (k + l)) st'"
        "content (fst (world st')) = splice (content (fst (world st1))) (off + (k + l)) (take (m - (k + l)) (drop (k + l) buffer))"
        "k + l < m" "m \<le> n" "m = n \<or> partialWriteThreshold st1 < el + spent chunk st st1 + spent chunk st1 st'"
      by blast
    have "take l (drop k buffer) @ take (m - (k + l)) (drop (k + l) buffer) = take (m - k) (drop k buffer)"
      using take_add [of l "m - (k + l)" "drop k buffer"] st'(4) by (simp add: add.commute)
    moreover have "length (take l (drop k buffer)) = l" using step(5) less.prems(9) by simp
    ultimately have "content (fst (world st')) = splice (content (fst (world st))) (off + k) (take (m - k) (drop k buffer))"
      using st'(3) step(6) splice_append [of _ "off + k" "take l (drop k buffer)"] by (simp add: add.assoc)
    moreover have "session_kept st (n - k) st'" using session_kept_trans [OF kept st'(2)] step(4,5) by simp
    moreover have "partialWriteThreshold st1 = partialWriteThreshold st" using step(3) by (simp add: settings_def)
    ultimately show ?thesis using step(1) st'(1,4-6) True spent_trans [of chunk st st1 st']
      by (subst write_loop.simps) (auto simp: algebra_simps)
  next
    case False
    then have stop: "(k + l \<noteq> n \<and> el + spent chunk st st1 \<le> partialWriteThreshold st) = False" by blast
    have "session_kept st (n - k) st1" using step(2,3) less.prems(6) by (simp add: session_kept_step)
    moreover have "write_loop (loop_os srv chunk) handle (int n) (write_at buffer off k el) st = Some (int (k + l), st1)"
      using step(1) [unfolded stop] by (subst write_loop.simps) (simp add: write_at_def)
    ultimately show ?thesis using step(4-6) False by (intro exI [of _ "k + l"] exI [of _ st1]) auto
  qed
qed

section \<open>The commands\<close>

lemma read_slice:
  assumes "quiet st" "serves_reads srv (word_of_int handle) content piece"
    "0 < sectorSize st" "sectorSize st \<le> 65523"
    "0 < n" "counter st + int n \<le> int_max" "off + n < 2 ^ 64" "n \<le> length buffer"
  shows "let data = drop off (content (fst (world st))) in
    \<exists>m st'. SftpClient_read (loop_os srv chunk) handle buffer (word_of_nat off) (int n) st =
      Some (int m, take m data @ drop m buffer, st') \<and> session_kept st n st' \<and> fst (world st') = fst (world st) \<and>
      m \<le> min n (length data) \<and> (data \<noteq> [] \<longrightarrow> 0 < m) \<and>
      (m = min n (length data) \<or> partialReadThreshold st < spent chunk st st')"
proof -
  have c: "\<not> dead st" "int n \<le> int_max" "counter st + int (n - 0) \<le> int_max" using assms(1,6) by (simp_all add: quiet_def)
  note r = read_loop_server [where srv = srv and chunk = chunk and el = 0, OF assms(1) c(3) assms(2-5) c(2) assms(7,8) refl]
  show ?thesis using r c(1) by (simp add: SftpClient_read_def read_at_def Let_def not_le)
qed

lemma write_file:
  assumes "quiet st" "serves_writes srv (word_of_int handle) content"
    "0 < sectorSize st" "sectorSize st \<le> 65507"
    "0 < n" "counter st + int n \<le> int_max" "off + n < 2 ^ 64" "n \<le> length buffer"
  shows "\<exists>m st'. SftpClient_write (loop_os srv chunk) handle buffer (word_of_nat off) (int n) st = Some (int m, st') \<and>
    session_kept st n st' \<and> content (fst (world st')) = splice (content (fst (world st))) off (take m buffer) \<and>
    0 < m \<and> m \<le> n \<and> (m = n \<or> partialWriteThreshold st < spent chunk st st')"
proof -
  have c: "\<not> dead st" "int n \<le> int_max" "counter st + int (n - 0) \<le> int_max" using assms(1,6) by (simp_all add: quiet_def)
  note r = write_loop_server [where srv = srv and chunk = chunk and el = 0, OF assms(1) c(3) assms(2-5) c(2) assms(7,8)]
  show ?thesis using r c(1) by (simp add: SftpClient_write_def write_at_def)
qed

text \<open>A clock on which no more than \<open>limit\<close> passes: nothing is cut short.\<close>

definition prompt :: "(nat \<Rightarrow> nat \<times> real) \<Rightarrow> int \<Rightarrow> bool" where
  "prompt chunk limit \<longleftrightarrow> (\<forall>i j. snd (chunk j) - snd (chunk i) \<le> limit)"

lemma prompt_spent: "prompt chunk limit \<Longrightarrow> \<not> limit < spent chunk st st'"
  by (simp add: prompt_def spent_def loop_time_def not_less)

lemma read_slice_prompt:
  assumes "quiet st" "serves_reads srv (word_of_int handle) content piece"
    "0 < sectorSize st" "sectorSize st \<le> 65523" "prompt chunk (partialReadThreshold st)"
    "0 < n" "counter st + int n \<le> int_max" "off + n < 2 ^ 64" "n \<le> length buffer"
  shows "let data = drop off (content (fst (world st))); m = min n (length data) in
    \<exists>st'. SftpClient_read (loop_os srv chunk) handle buffer (word_of_nat off) (int n) st =
      Some (int m, take m data @ drop m buffer, st') \<and> session_kept st n st' \<and> fst (world st') = fst (world st)"
  using read_slice [where chunk = chunk, OF assms(1-4,6-9)] prompt_spent [OF assms(5), of st] by (fastforce simp: Let_def)

lemma write_file_prompt:
  assumes "quiet st" "serves_writes srv (word_of_int handle) content"
    "0 < sectorSize st" "sectorSize st \<le> 65507" "prompt chunk (partialWriteThreshold st)"
    "0 < n" "counter st + int n \<le> int_max" "off + n < 2 ^ 64" "n \<le> length buffer"
  shows "\<exists>st'. SftpClient_write (loop_os srv chunk) handle buffer (word_of_nat off) (int n) st = Some (int n, st') \<and>
    session_kept st n st' \<and> content (fst (world st')) = splice (content (fst (world st))) off (take n buffer)"
  using write_file [where chunk = chunk, OF assms(1-4,6-9)] prompt_spent [OF assms(5), of st] by blast

section \<open>A server of one file\<close>

text \<open>The smallest server that serves both; \<open>piece\<close> bounds what one read returns.\<close>

definition file_server :: "(nat \<Rightarrow> nat \<Rightarrow> nat) \<Rightarrow> byte list \<Rightarrow> byte list \<Rightarrow> byte list \<times> byte list" where
  "file_server piece c p =
     (let ident = req_ident p; b = req_body p;
          off = unat (word_be (take 8 (drop 8 b)) :: u64); n = unat (word_be (take 4 (drop 16 b)) :: u32) in
      if req_type p = SSH2_FXP_READ then
        (c, if off < length c
            then (let d = take (piece off n) (drop off c) in frame ident SSH2_FXP_DATA (be32 (len32 d) @ d))
            else frame ident SSH2_FXP_STATUS (be32 SSH2_FX_EOF))
      else if req_type p = SSH2_FXP_WRITE then (splice c off (drop 20 b), frame ident SSH2_FXP_STATUS (be32 SSH2_FX_OK))
      else (c, frame ident SSH2_FXP_STATUS (be32 SSH2_FX_FAILURE)))"

lemma file_server_serves:
  "(\<And>off n. 0 < n \<Longrightarrow> 0 < piece off n \<and> piece off n \<le> n) \<Longrightarrow> serves_reads (file_server piece) h (\<lambda>c. c) piece"
  "serves_writes (file_server piece) h (\<lambda>c. c)"
  by (auto simp: serves_reads_def serves_writes_def file_server_def Let_def fxp_defs take_bit_nat_eq_self unat_of_nat)

section \<open>Properties\<close>

text \<open>
  Property C24. Reading a file, with any clock: for every server that keeps to the protocol and is
  asked with handles of four bytes, however short the pieces are that it returns and however its bytes
  arrive, \<open>read\<close> ends; the result is a number of bytes, at most the number that was asked for, the start
  of the buffer holds as many bytes of the file from the offset on, the rest of the buffer is untouched, and
  the session stays usable. The number is that of all bytes that the file has in the range unless the
  requests took longer than the limit for partial reads; even then it is positive if the file has a byte
  there. The sector size must leave room for the header in the 64 kB of the reading thread, numbers for the
  requests must be left, and the buffer must have room for what is asked for.
\<close>

theorem read_returns_slice:
  assumes "quiet st" "serves_reads srv (word_of_int handle) content piece"
    "0 < sectorSize st" "sectorSize st \<le> 65523"
    "0 < n" "counter st + int n \<le> int_max" "off + n < 2 ^ 64" "n \<le> length buffer"
  shows "let data = drop off (content (fst (world st))) in
    \<exists>m st'. SftpClient_read (loop_os srv chunk) handle buffer (word_of_nat off) (int n) st =
      Some (int m, take m data @ drop m buffer, st') \<and> session_kept st n st' \<and> fst (world st') = fst (world st) \<and>
      m \<le> min n (length data) \<and> (data \<noteq> [] \<longrightarrow> 0 < m) \<and>
      (m = min n (length data) \<or> partialReadThreshold st < spent chunk st st')"
  by (rule read_slice [OF assms])

text \<open>The witness: with a clock that stands still the file is read to its end.\<close>

theorem read_returns_slice_witness:
  "\<exists>st'. SftpClient_read (loop_os (file_server (\<lambda>off n. min n 2)) (\<lambda>t. (3, 0))) 9 [0, 0, 0, 0, 0] 1 5 (fresh_client [1, 2, 3, 4]) =
     Some (3, [2, 3, 4, 0, 0], st')"
proof -
  have "\<not> 10000 < spent (\<lambda>t. (3, 0)) st st'" for st st' :: "byte list loop_world sftp" by (simp add: spent_def loop_time_def)
  then show ?thesis
    using read_returns_slice [where st = "fresh_client [1, 2, 3, 4]" and srv = "file_server (\<lambda>off n. min n 2)" and chunk = "\<lambda>t. (3, 0)"
        and handle = 9 and content = "\<lambda>c. c" and piece = "\<lambda>off n. min n 2" and n = 5 and off = 1 and buffer = "[0, 0, 0, 0, 0]",
        OF quiet_fresh file_server_serves(1)]
    by (auto simp: Let_def)
qed

text \<open>
  Writing a file: \<open>write\<close> ends, returns a positive number of bytes, all of them unless the requests took longer
  than the limit for partial writes, and the file of the server is the old one with as many bytes of the buffer at
  the offset, as if they had been written at once.
\<close>

theorem write_splices:
  assumes "quiet st" "serves_writes srv (word_of_int handle) content"
    "0 < sectorSize st" "sectorSize st \<le> 65507"
    "0 < n" "counter st + int n \<le> int_max" "off + n < 2 ^ 64" "n \<le> length buffer"
  shows "\<exists>m st'. SftpClient_write (loop_os srv chunk) handle buffer (word_of_nat off) (int n) st = Some (int m, st') \<and>
    session_kept st n st' \<and> content (fst (world st')) = splice (content (fst (world st))) off (take m buffer) \<and>
    0 < m \<and> m \<le> n \<and> (m = n \<or> partialWriteThreshold st < spent chunk st st')"
  by (rule write_file [OF assms])

theorem write_splices_witness:
  "\<exists>m st'. SftpClient_write (loop_os (file_server (\<lambda>off n. n)) (\<lambda>t. (3, 0))) 9 [7, 8] 1 2 (fresh_client [1, 2, 3, 4]) =
     Some (m, st') \<and> fst (world st') = [1, 7, 8, 4]"
proof -
  have "\<not> 10000 < spent (\<lambda>t. (3, 0)) st st'" for st st' :: "byte list loop_world sftp" by (simp add: spent_def loop_time_def)
  then show ?thesis
    using write_splices [where st = "fresh_client [1, 2, 3, 4]" and srv = "file_server (\<lambda>off n. n)" and chunk = "\<lambda>t. (3, 0)"
        and handle = 9 and content = "\<lambda>c. c" and n = 2 and off = 1 and buffer = "[7, 8]", OF quiet_fresh file_server_serves(2)]
    by (auto simp: splice_def)
qed

end
