(* ===== verification/Sftp_Dir.thy ===== *)
theory Sftp_Dir
  imports Sftp_File
begin

text \<open>
  File attributes and directory listings of the SFTP client: the encoding that the protocol
  prescribes for them, its inverse \<open>popAttribs\<close>, and what \<open>readdir\<close> collects from a server.
\<close>

section \<open>Attributes\<close>

text \<open>The encoding: the flags and, for each flag that is set, its fields.\<close>

definition attr_bytes :: "SftpFileAttr \<Rightarrow> byte list" where
  "attr_bytes a = be32 (attr_flags a) @
     (if attr_flags a AND SSH2_FILEXFER_ATTR_SIZE \<noteq> 0
      then be32 (ucast (drop_bit 32 (attr_size a))) @ be32 (ucast (attr_size a)) else []) @
     (if attr_flags a AND SSH2_FILEXFER_ATTR_UIDGID \<noteq> 0 then be32 (attr_uid a) @ be32 (attr_guid a) else []) @
     (if attr_flags a AND SSH2_FILEXFER_ATTR_PERMISSIONS \<noteq> 0 then be32 (attr_perm a) else []) @
     (if attr_flags a AND SSH2_FILEXFER_ATTR_ACMODTIME \<noteq> 0 then be32 (attr_atime a) @ be32 (attr_mtime a) else [])"

text \<open>The bytes that attributes with these flags take.\<close>

definition attr_need :: "u32 \<Rightarrow> nat" where
  "attr_need fl = 4 + (if fl AND SSH2_FILEXFER_ATTR_SIZE \<noteq> 0 then 8 else 0) +
     (if fl AND SSH2_FILEXFER_ATTR_UIDGID \<noteq> 0 then 8 else 0) +
     (if fl AND SSH2_FILEXFER_ATTR_PERMISSIONS \<noteq> 0 then 4 else 0) +
     (if fl AND SSH2_FILEXFER_ATTR_ACMODTIME \<noteq> 0 then 8 else 0)"

lemma length_attr_bytes [simp]: "length (attr_bytes a) = attr_need (attr_flags a)"
  by (simp add: attr_bytes_def attr_need_def)

lemma attr_need_le: "attr_need fl \<le> 32"
  by (simp add: attr_need_def)

text \<open>Fields whose flag is not set are zero.\<close>

definition attr_normal :: "SftpFileAttr \<Rightarrow> bool" where
  "attr_normal a \<longleftrightarrow>
     (attr_flags a AND SSH2_FILEXFER_ATTR_SIZE = 0 \<longrightarrow> attr_size a = 0) \<and>
     (attr_flags a AND SSH2_FILEXFER_ATTR_UIDGID = 0 \<longrightarrow> attr_uid a = 0 \<and> attr_guid a = 0) \<and>
     (attr_flags a AND SSH2_FILEXFER_ATTR_PERMISSIONS = 0 \<longrightarrow> attr_perm a = 0) \<and>
     (attr_flags a AND SSH2_FILEXFER_ATTR_ACMODTIME = 0 \<longrightarrow> attr_atime a = 0 \<and> attr_mtime a = 0)"

lemma halves_join: "push_bit 32 (ucast (ucast (drop_bit 32 v) :: u32)) OR ucast (ucast v :: u32) = (v :: u64)"
  by (rule bit_word_eqI) (auto simp: bit_simps)

lemma pop_two_eq:
  assumes "int (length p) \<le> int_max"
  shows "pop_two p = Some (if length p < 4 then (None, None, p)
    else if length p < 8 then (Some (word_be (take 4 p)), None, drop 4 p)
    else (Some (word_be (take 4 p)), Some (word_be (take 4 (drop 4 p))), drop 8 p))"
  using assms by (auto simp: pop_two_def pop_dword_eq)

lemma pop_two_be:
  "int (length rest) + 8 \<le> int_max \<Longrightarrow> pop_two (be32 x @ be32 y @ rest) = Some (Some x, Some y, rest)"
  by (simp add: pop_two_eq)

lemma popAttribs_bytes:
  assumes "attr_normal a" "int (length rest) + 32 \<le> int_max"
  shows "SftpClient_popAttribs (attr_bytes a @ rest) st = Some (0, a, rest, st)"
proof -
  define sz ug pm tm where parts:
    "sz = (if attr_flags a AND SSH2_FILEXFER_ATTR_SIZE \<noteq> 0
      then be32 (ucast (drop_bit 32 (attr_size a))) @ be32 (ucast (attr_size a)) else [])"
    "ug = (if attr_flags a AND SSH2_FILEXFER_ATTR_UIDGID \<noteq> 0 then be32 (attr_uid a) @ be32 (attr_guid a) else [])"
    "pm = (if attr_flags a AND SSH2_FILEXFER_ATTR_PERMISSIONS \<noteq> 0 then be32 (attr_perm a) else [])"
    "tm = (if attr_flags a AND SSH2_FILEXFER_ATTR_ACMODTIME \<noteq> 0 then be32 (attr_atime a) @ be32 (attr_mtime a) else [])"
  have len: "length sz \<le> 8" "length ug \<le> 8" "length pm \<le> 4" "length tm \<le> 8" by (simp_all add: parts)
  define a1 a2 a3 where as: "a1 = no_attr\<lparr>attr_flags := attr_flags a, attr_size := attr_size a\<rparr>"
    "a2 = a1\<lparr>attr_uid := attr_uid a, attr_guid := attr_guid a\<rparr>" "a3 = a2\<lparr>attr_perm := attr_perm a\<rparr>"
  have fl: "attr_flags a1 = attr_flags a" "attr_flags a2 = attr_flags a" "attr_flags a3 = attr_flags a" by (simp_all add: as)
  have s1: "pop_attr_size (no_attr\<lparr>attr_flags := attr_flags a\<rparr>) (sz @ r) = Some (True, a1, r)"
    if "int (length r) + 8 \<le> int_max" for r
    using that assms(1) by (simp add: pop_attr_size_def parts attr_normal_def no_attr_def as pop_two_be halves_join)
  have s2: "pop_attr_uidgid a1 (ug @ r) = Some (True, a2, r)" if "int (length r) + 8 \<le> int_max" for r
    using that assms(1) by (simp add: pop_attr_uidgid_def parts attr_normal_def no_attr_def as pop_two_be)
  have s3: "pop_attr_perm a2 (pm @ r) = Some (True, a3, r)" if "int (length r) + 4 \<le> int_max" for r
    using that assms(1) by (simp add: pop_attr_perm_def parts attr_normal_def no_attr_def as)
  have s4: "pop_attr_times a3 (tm @ rest) = Some (True, a, rest)"
    using assms by (cases a) (simp add: pop_attr_times_def parts attr_normal_def no_attr_def as pop_two_be)
  have bytes: "attr_bytes a @ rest = be32 (attr_flags a) @ sz @ ug @ pm @ tm @ rest"
    by (simp add: attr_bytes_def parts)
  show ?thesis
    unfolding bytes SftpClient_popAttribs_def using s1 s2 s3 s4 len assms(2) by simp
qed

text \<open>A part of the attributes that takes \<open>n\<close> bytes succeeds exactly if they are there.\<close>

definition part_takes :: "(bool \<times> SftpFileAttr \<times> byte list) run \<Rightarrow> SftpFileAttr \<Rightarrow> byte list \<Rightarrow> nat \<Rightarrow> bool" where
  "part_takes r a p n \<longleftrightarrow> (\<exists>ok a' p'. r = Some (ok, a', p') \<and> attr_flags a' = attr_flags a \<and>
     (ok \<longleftrightarrow> n \<le> length p) \<and> (ok \<longrightarrow> length p' = length p - n))"

lemma parts_take:
  assumes "int (length p) \<le> int_max"
  shows "part_takes (pop_attr_size a p) a p (if attr_flags a AND SSH2_FILEXFER_ATTR_SIZE \<noteq> 0 then 8 else 0)"
    "part_takes (pop_attr_uidgid a p) a p (if attr_flags a AND SSH2_FILEXFER_ATTR_UIDGID \<noteq> 0 then 8 else 0)"
    "part_takes (pop_attr_perm a p) a p (if attr_flags a AND SSH2_FILEXFER_ATTR_PERMISSIONS \<noteq> 0 then 4 else 0)"
    "part_takes (pop_attr_times a p) a p (if attr_flags a AND SSH2_FILEXFER_ATTR_ACMODTIME \<noteq> 0 then 8 else 0)"
  using assms
  by (simp_all add: part_takes_def pop_attr_size_def pop_attr_uidgid_def pop_attr_perm_def pop_attr_times_def
      pop_dword_eq pop_two_eq)

text \<open>Two parts in a row; the second is only popped after the first.\<close>

lemma part_takes_bind:
  assumes "part_takes r a p n" "\<And>a' p'. attr_flags a' = attr_flags a \<Longrightarrow> length p' \<le> length p \<Longrightarrow> part_takes (f a' p') a' p' m"
  shows "part_takes (do { (ok, a, p) \<leftarrow> r; if \<not> ok then Some (False, a, p) else f a p }) a p (n + m)"
proof -
  obtain ok a' p' where r: "r = Some (ok, a', p')" "attr_flags a' = attr_flags a" "ok \<longleftrightarrow> n \<le> length p"
      "ok \<longrightarrow> length p' = length p - n"
    using assms(1) by (auto simp: part_takes_def)
  show ?thesis
  proof (cases ok)
    case True
    then have "part_takes (f a' p') a' p' m" using assms(2) r by simp
    then show ?thesis using r True by (auto simp: part_takes_def)
  next
    case False
    then show ?thesis using r by (auto simp: part_takes_def)
  qed
qed

lemma popAttribs_short:
  assumes "length p < 4 \<or> length p < attr_need (word_be (take 4 p))" "int (length p) \<le> int_max"
  shows "\<exists>a r. SftpClient_popAttribs p st = Some (-1, a, r, SftpClient_shutdown st)"
proof (cases "length p < 4")
  case True
  then show ?thesis using assms(2) by (simp add: SftpClient_popAttribs_def pop_dword_eq)
next
  case False
  define fl where "fl = (word_be (take 4 p) :: u32)"
  define sz ug pm tm :: nat where parts: "sz = (if fl AND SSH2_FILEXFER_ATTR_SIZE \<noteq> 0 then 8 else 0)"
    "ug = (if fl AND SSH2_FILEXFER_ATTR_UIDGID \<noteq> 0 then 8 else 0)"
    "pm = (if fl AND SSH2_FILEXFER_ATTR_PERMISSIONS \<noteq> 0 then 4 else 0)"
    "tm = (if fl AND SSH2_FILEXFER_ATTR_ACMODTIME \<noteq> 0 then 8 else 0)"
  have t: "part_takes (pop_attr_times a q) a q tm" if "attr_flags a = fl" "length q \<le> length p" for a q
    using parts_take(4) [of q a] that assms(2) by (simp add: parts)
  have m: "part_takes (do { (ok, a, q) \<leftarrow> pop_attr_perm a q;
      if \<not> ok then Some (False, a, q) else pop_attr_times a q }) a q (pm + tm)"
    if "attr_flags a = fl" "length q \<le> length p" for a q
    by (rule part_takes_bind) (use parts_take(3) [of q a] that assms(2) t in \<open>simp_all add: parts(3)\<close>)
  have u: "part_takes (do { (ok, a, q) \<leftarrow> pop_attr_uidgid a q;
      if \<not> ok then Some (False, a, q) else do { (ok, a, q) \<leftarrow> pop_attr_perm a q;
      if \<not> ok then Some (False, a, q) else pop_attr_times a q } }) a q (ug + (pm + tm))"
    if "attr_flags a = fl" "length q \<le> length p" for a q
    by (rule part_takes_bind) (use parts_take(2) [of q a] that assms(2) m in \<open>simp_all add: parts(2)\<close>)
  have "part_takes (do { (ok, a, q) \<leftarrow> pop_attr_size a q;
      if \<not> ok then Some (False, a, q) else do { (ok, a, q) \<leftarrow> pop_attr_uidgid a q;
      if \<not> ok then Some (False, a, q) else do { (ok, a, q) \<leftarrow> pop_attr_perm a q;
      if \<not> ok then Some (False, a, q) else pop_attr_times a q } } }) a q (sz + (ug + (pm + tm)))"
    if "attr_flags a = fl" "length q \<le> length p" for a q
    by (rule part_takes_bind) (use parts_take(1) [of q a] that assms(2) u in \<open>simp_all add: parts(1)\<close>)
  note all = this [of "no_attr\<lparr>attr_flags := fl\<rparr>" "drop 4 p"]
  have "\<not> 4 + (sz + (ug + (pm + tm))) \<le> length p" using assms(1) False by (simp add: parts fl_def attr_need_def)
  then show ?thesis
    using assms(2) False all by (auto simp: SftpClient_popAttribs_def pop_dword_eq part_takes_def simp flip: fl_def simp del: Option.bind_assoc)
qed

section \<open>Names\<close>

lemma pop_name_bytes:
  assumes "length nm \<le> MAX_PATH" "int (length rest) + 300 \<le> int_max"
  shows "pop_name (be32 (len32 nm) @ nm @ rest) = Some (Some (nm @ replicate (MAX_PATH - length nm) 0), rest)"
proof -
  have m: "MAX_PATH = 260" by (simp add: MAX_PATH_def)
  have l: "sint (len32 nm) = int (length nm)" using assms(1) m sint_u32_small [of "length nm"] by simp
  have c: "csize (nm @ rest) = int (length nm + length rest)" using assms m by simp
  have r: "size_t (int (length nm + length rest) - int (length nm)) = length rest" using assms by simp
  have sz: "size_t (int (length nm)) = length nm" using assms(1) m by simp
  have cp: "memcpy (replicate MAX_PATH 0) 0 (nm @ rest) 0 (length nm) = Some (nm @ replicate (MAX_PATH - length nm) 0)"
    "memcpy_down (nm @ rest) (length nm) (length rest) = Some (rest @ drop (length rest) (nm @ rest))"
    using assms(1) by (simp_all add: memcpy_down_def mem_simps)
  have rs: "str_resize (int (length nm + length rest) - int (length nm)) (rest @ drop (length rest) (nm @ rest)) = Some rest"
    by (simp add: str_resize_def)
  have "StrPopRaw_str (Some (replicate MAX_PATH 0)) (int (length nm)) (nm @ rest) =
      Some (0, Some (nm @ replicate (MAX_PATH - length nm) 0), rest)"
    unfolding StrPopRaw_str_def Let_def c using sz r cp rs by simp
  then show ?thesis using assms m l by (simp add: pop_name_def)
qed

lemma pop_name_long:
  assumes "MAX_PATH < length nm" "length (nm @ rest) \<le> 65536"
  shows "pop_name (be32 (len32 nm) @ nm @ rest) = None"
proof -
  have l: "sint (len32 nm) = int (length nm)" "int (length nm) \<le> int_max"
    using assms(2) sint_u32_small [of "length nm"] by simp_all
  have "memcpy (replicate MAX_PATH 0) 0 (nm @ rest) 0 (length nm) = None"
    using assms(1) by (auto simp: memcpy_def mem_read_def mem_write_def)
  then have "StrPopRaw_str (Some (replicate MAX_PATH 0)) (int (length nm)) (nm @ rest) = None"
    using assms(2) l by (simp add: StrPopRaw_str_def Let_def)
  then show ?thesis using assms l by (simp add: pop_name_def)
qed

lemma buf_string_name:
  "0 \<notin> set nm \<Longrightarrow> buf_string (nm @ replicate n 0) = (if n = 0 then None else Some nm)"
  by (cases n) (auto simp: buf_string_def takeWhile_append)

section \<open>Listings\<close>

text \<open>
  An element of \<^verbatim>\<open>SSH2_FXP_NAME\<close>: what the client keeps of it and its long name, which is skipped. Names fit
  their buffers, the short one with its zero.
\<close>

type_synonym dir_entry = "SftpFileInfo \<times> byte list"

definition entry_bytes :: "dir_entry \<Rightarrow> byte list" where
  "entry_bytes e = be32 (len32 (info_name (fst e))) @ info_name (fst e) @ be32 (len32 (snd e)) @ snd e @
     attr_bytes (info_attr (fst e))"

definition entry_ok :: "dir_entry \<Rightarrow> bool" where
  "entry_ok e \<longleftrightarrow> length (info_name (fst e)) < MAX_PATH \<and> 0 \<notin> set (info_name (fst e)) \<and>
     length (snd e) \<le> MAX_PATH \<and> attr_normal (info_attr (fst e))"

definition is_marker :: "dir_entry \<Rightarrow> bool" where
  "is_marker e \<longleftrightarrow> info_name (fst e) = last_marker"

definition entries_bytes :: "dir_entry list \<Rightarrow> byte list" where
  "entries_bytes es = concat (map entry_bytes es)"

lemma name_loop_entries:
  assumes "list_all entry_ok es" "int (length (entries_bytes es @ rest)) + 1000 \<le> int_max"
  shows "name_loop (length es) (entries_bytes es @ rest) files goOn st =
     Some (True, files @ map fst (filter (\<lambda>e. \<not> is_marker e) es), goOn \<and> \<not> list_ex is_marker es, st)"
  using assms
proof (induction es arbitrary: files goOn)
  case Nil
  then show ?case by simp
next
  case (Cons e es)
  define r where "r = entries_bytes es @ rest"
  have e: "entries_bytes (e # es) @ rest = be32 (len32 (info_name (fst e))) @ info_name (fst e) @
      (be32 (len32 (snd e)) @ snd e @ (attr_bytes (info_attr (fst e)) @ r))"
    by (simp add: entries_bytes_def entry_bytes_def r_def)
  have ok: "length (info_name (fst e)) < MAX_PATH" "0 \<notin> set (info_name (fst e))" "length (snd e) \<le> MAX_PATH"
      "attr_normal (info_attr (fst e))"
    using Cons.prems(1) by (simp_all add: entry_ok_def)
  have oks: "list_all entry_ok es" using Cons.prems(1) by simp
  have len: "int (length (be32 (len32 (snd e)) @ snd e @ (attr_bytes (info_attr (fst e)) @ r))) + 300 \<le> int_max"
      "int (length (attr_bytes (info_attr (fst e)) @ r)) + 300 \<le> int_max" "int (length r) + 32 \<le> int_max"
      "int (length (entries_bytes es @ rest)) + 1000 \<le> int_max"
    using Cons.prems(2) unfolding e by (simp_all add: r_def)
  note pops = pop_name_bytes [OF less_imp_le [OF ok(1)] len(1)] pop_name_bytes [OF ok(3) len(2)]
    popAttribs_bytes [OF ok(4) len(3), of st]
  have s: "buf_string (info_name (fst e) @ replicate (MAX_PATH - length (info_name (fst e))) 0) = Some (info_name (fst e))"
    using buf_string_name [OF ok(2)] ok(1) by simp
  show ?case
    unfolding e using pops s Cons.IH [OF oks len(4), folded r_def] by (simp add: is_marker_def)
qed

text \<open>
  A server that lists a directory in batches and answers \<^verbatim>\<open>SSH2_FX_EOF\<close> when there are no more.
\<close>

definition serves_dir ::
    "('s \<Rightarrow> byte list \<Rightarrow> 's \<times> byte list) \<Rightarrow> u32 \<Rightarrow> ('s \<Rightarrow> dir_entry list list) \<Rightarrow> bool" where
  "serves_dir srv h batches \<longleftrightarrow>
     (\<forall>s ident. batches s = [] \<longrightarrow> (\<exists>s'. batches s' = [] \<and>
        srv s (frame ident SSH2_FXP_DIRLIGO_READDIR_SHORT (be32 4 @ be32 h)) =
          (s', frame ident SSH2_FXP_STATUS (be32 SSH2_FX_EOF)))) \<and>
     (\<forall>s ident es ess. batches s = es # ess \<longrightarrow> (\<exists>s'. batches s' = ess \<and>
        srv s (frame ident SSH2_FXP_DIRLIGO_READDIR_SHORT (be32 4 @ be32 h)) =
          (s', frame ident SSH2_FXP_NAME (be32 (word_of_nat (length es)) @ entries_bytes es))))"

definition batch_ok :: "dir_entry list \<Rightarrow> bool" where
  "batch_ok es \<longleftrightarrow> list_all entry_ok es \<and> length (entries_bytes es) + 13 \<le> 65536 \<and> length es \<le> 65536"

text \<open>The listing: every element but the marker, up to the end of the batch with the marker.\<close>

fun listing :: "dir_entry list list \<Rightarrow> SftpFileInfo list" where
  "listing [] = []"
| "listing (es # ess) = map fst (filter (\<lambda>e. \<not> is_marker e) es) @ (if list_ex is_marker es then [] else listing ess)"

lemma readdir_request:
  "push_items [] [Dword 13, Byte SSH2_FXP_DIRLIGO_READDIR_SHORT, Dword ident, Dword 4, Dword h] =
     Some (frame ident SSH2_FXP_DIRLIGO_READDIR_SHORT (be32 4 @ be32 h))"
  using push_frame [of 13 "[Dword 4, Dword h]" SSH2_FXP_DIRLIGO_READDIR_SHORT ident] by simp

lemma names_step_server:
  assumes "quiet st" "counter st < int_max" "serves_dir srv (word_of_int handle) batches"
    "batches (fst (world st)) = bs" "list_all batch_ok bs"
  obtains st' where
    "names_step (loop_os srv chunk) handle files st =
      Some (True, files @ (case bs of [] \<Rightarrow> [] | es # _ \<Rightarrow> map fst (filter (\<lambda>e. \<not> is_marker e) es)),
        (case bs of [] \<Rightarrow> False | es # _ \<Rightarrow> \<not> list_ex is_marker es), bs \<noteq> [], st')"
    "quiet st'" "settings st' = settings (st\<lparr>counter := counter st + 1\<rparr>)" "batches (fst (world st')) = tl bs"
proof -
  let ?s = "fst (world st)" and ?id = "word_of_int (counter st) :: u32"
  define body where "body = be32 4 @ be32 (word_of_int handle :: u32)"
  define ty where "ty = (case bs of [] \<Rightarrow> SSH2_FXP_STATUS | _ \<Rightarrow> SSH2_FXP_NAME)"
  define bd where "bd = (case bs of [] \<Rightarrow> be32 SSH2_FX_EOF | es # _ \<Rightarrow> be32 (word_of_nat (length es)) @ entries_bytes es)"
  obtain s' where s': "srv ?s (frame ?id SSH2_FXP_DIRLIGO_READDIR_SHORT body) = (s', frame ?id ty bd)" "batches s' = tl bs"
  proof (cases bs)
    case Nil
    then show thesis
      using that assms(3) [unfolded serves_dir_def, THEN conjunct1, rule_format, of ?s ?id] assms(4)
      by (auto simp: body_def ty_def bd_def)
  next
    case (Cons es ess)
    then show thesis
      using that assms(3) [unfolded serves_dir_def, THEN conjunct2, rule_format, of ?s es ess ?id] assms(4)
      by (auto simp: body_def ty_def bd_def)
  qed
  have lb: "length bd + 9 \<le> 65536" using assms(5) by (cases bs) (simp_all add: bd_def batch_ok_def)
  obtain st' where st': "SftpClient_processPacket (loop_os srv chunk) (frame ?id SSH2_FXP_DIRLIGO_READDIR_SHORT body)
        (st\<lparr>counter := counter st + 1\<rparr>) = Some (0, frame ?id ty bd, spent chunk st st', st')"
      "quiet st'" "fst (world st') = s'" "settings st' = settings (st\<lparr>counter := counter st + 1\<rparr>)"
    using exchange [where srv = srv and chunk = chunk, OF assms(1,2) refl _ s'(1) lb] by (auto simp: body_def)
  have "names_step (loop_os srv chunk) handle files st =
      Some (True, files @ (case bs of [] \<Rightarrow> [] | es # _ \<Rightarrow> map fst (filter (\<lambda>e. \<not> is_marker e) es)),
        (case bs of [] \<Rightarrow> False | es # _ \<Rightarrow> \<not> list_ex is_marker es), bs \<noteq> [], st')"
  proof (cases bs)
    case Nil
    then show ?thesis
      using quiet_number(1) [OF assms(1,2)] st'(1) readdir_request [of ?id "word_of_int handle"]
      by (simp add: names_step_def body_def ty_def bd_def)
  next
    case (Cons es ess)
    then have ok: "list_all entry_ok es" "length (entries_bytes es) + 13 \<le> 65536" "length es \<le> 65536"
      using assms(5) by (simp_all add: batch_ok_def)
    have "unat (word_of_nat (length es) :: u32) = length es" using ok(3) unat_u32_small [of "length es"] by simp
    moreover have "name_loop (length es) (entries_bytes es) files True st' =
        Some (True, files @ map fst (filter (\<lambda>e. \<not> is_marker e) es), \<not> list_ex is_marker es, st')"
      using name_loop_entries [OF ok(1), of "[]" files True st'] ok(2) by simp
    ultimately show ?thesis
      using Cons ok quiet_number(1) [OF assms(1,2)] st'(1) readdir_request [of ?id "word_of_int handle"]
      by (simp add: names_step_def body_def ty_def bd_def SSH2_FXP_NAME_def SSH2_FXP_STATUS_def)
  qed
  then show thesis using that [of st'] st' s'(2) by simp
qed

lemma readdir_step_server:
  assumes "quiet st" "counter st < int_max" "serves_dir srv (word_of_int handle) batches"
    "batches (fst (world st)) = bs" "list_all batch_ok bs"
  obtains st' where
    "readdir_step (loop_os srv chunk) handle files st =
      Some (True, files @ (case bs of [] \<Rightarrow> [] | es # _ \<Rightarrow> map fst (filter (\<lambda>e. \<not> is_marker e) es)),
        (case bs of [] \<Rightarrow> False | es # _ \<Rightarrow> \<not> list_ex is_marker es), st')"
    "quiet st'" "settings st' = settings (st\<lparr>counter := counter st + 1\<rparr>)" "batches (fst (world st')) = tl bs"
  by (rule names_step_server [where chunk = chunk and files = files, OF assms]) (rule that, simp_all add: readdir_step_def)

lemma readdir_loop_server:
  assumes "quiet st" "counter st + int (length bs) < int_max" "serves_dir srv (word_of_int handle) batches"
    "batches (fst (world st)) = bs" "list_all batch_ok bs"
  shows "\<exists>st'. readdir_loop (loop_os srv chunk) handle files st = Some (0, files @ listing bs, st') \<and>
    session_kept st (length bs + 1) st'"
  using assms
proof (induction bs arbitrary: files st)
  case Nil
  then obtain st' where "readdir_step (loop_os srv chunk) handle files st = Some (True, files, False, st')"
      "quiet st'" "settings st' = settings (st\<lparr>counter := counter st + 1\<rparr>)"
    using readdir_step_server [where chunk = chunk, OF Nil.prems(1) _ Nil.prems(3-5), of files] by auto
  then show ?case by (subst readdir_loop.simps) (simp add: session_kept_step)
next
  case (Cons es bs)
  then have c: "counter st < int_max" by simp
  obtain st1 where st1: "readdir_step (loop_os srv chunk) handle files st =
      Some (True, files @ map fst (filter (\<lambda>e. \<not> is_marker e) es), \<not> list_ex is_marker es, st1)"
      "quiet st1" "settings st1 = settings (st\<lparr>counter := counter st + 1\<rparr>)" "batches (fst (world st1)) = bs"
    using readdir_step_server [where chunk = chunk, OF Cons.prems(1) c Cons.prems(3-5), of files] by auto
  have c1: "counter st1 = counter st + 1" using st1(3) by (simp add: settings_def)
  show ?case
  proof (cases "list_ex is_marker es")
    case True
    then show ?thesis using st1 by (subst readdir_loop.simps) (simp add: session_kept_step)
  next
    case False
    have "counter st1 + int (length bs) < int_max" using Cons.prems(2) c1 by simp
    then obtain st' where "readdir_loop (loop_os srv chunk) handle (files @ map fst (filter (\<lambda>e. \<not> is_marker e) es)) st1 =
        Some (0, (files @ map fst (filter (\<lambda>e. \<not> is_marker e) es)) @ listing bs, st')" "session_kept st1 (length bs + 1) st'"
      using Cons.IH [OF st1(2) _ Cons.prems(3) st1(4), of "files @ map fst (filter (\<lambda>e. \<not> is_marker e) es)"] Cons.prems(5) by auto
    moreover have "session_kept st 1 st1" using st1(2,3) by (simp add: session_kept_step)
    ultimately show ?thesis
      using st1(1) False session_kept_trans [of st 1 st1 "length bs + 1" st' "length (es # bs) + 1"]
      by (subst readdir_loop.simps) simp
  qed
qed

section \<open>One answer to every request\<close>

text \<open>A server that answers the next request with a given packet, whatever it is.\<close>

definition next_answer ::
    "('s \<Rightarrow> byte list \<Rightarrow> 's \<times> byte list) \<Rightarrow> 's \<Rightarrow> byte \<Rightarrow> byte list \<Rightarrow> bool" where
  "next_answer srv s ty body \<longleftrightarrow> length body + 9 \<le> 65536 \<and>
     (\<forall>ident ty0 body0. srv s (frame ident ty0 body0) = (s, frame ident ty body))"

lemma next_exchange:
  assumes "quiet st" "counter st < int_max" "next_answer srv (fst (world st)) ty body" "length body0 + 9 \<le> 100000"
  obtains st' where
    "SftpClient_processPacket (loop_os srv chunk) (frame (word_of_int (counter st)) ty0 body0) (st\<lparr>counter := counter st + 1\<rparr>) =
       Some (0, frame (word_of_int (counter st)) ty body, spent chunk st st', st')"
    "quiet st'" "settings st' = settings (st\<lparr>counter := counter st + 1\<rparr>)"
  using exchange [where srv = srv and chunk = chunk, OF assms(1,2) refl assms(4), of ty0 "fst (world st)" ty body] assms(3)
  by (auto simp: next_answer_def)

section \<open>Properties\<close>

text \<open>
  File attributes: \<open>popAttribs\<close> is the inverse of the encoding of the protocol, for every
  combination of flags, and leaves what follows; bytes that end before the attributes do are never
  decoded to something else, but fail and end the session.
\<close>

theorem attribs_roundtrip:
  assumes "attr_normal a" "int (length rest) + 32 \<le> int_max" "n < length (attr_bytes a)"
  shows "SftpClient_popAttribs (attr_bytes a @ rest) st = Some (0, a, rest, st) \<and>
    (\<exists>a' r. SftpClient_popAttribs (take n (attr_bytes a)) st = Some (-1, a', r, SftpClient_shutdown st))"
proof -
  have "word_be (take 4 (take n (attr_bytes a))) = attr_flags a" if "\<not> n < 4"
    using that by (simp add: attr_bytes_def min_def)
  then have "length (take n (attr_bytes a)) < 4 \<or>
      length (take n (attr_bytes a)) < attr_need (word_be (take 4 (take n (attr_bytes a))))"
    using assms(3) by fastforce
  moreover have "int (length (take n (attr_bytes a))) \<le> int_max"
    using attr_need_le [of "attr_flags a"] by (simp add: min_def)
  ultimately show ?thesis using popAttribs_bytes [OF assms(1,2)] popAttribs_short by blast
qed

theorem attribs_roundtrip_witness:
  "SftpClient_popAttribs (attr_bytes (no_attr\<lparr>attr_flags := 5, attr_size := 3, attr_perm := 420\<rparr>) @ [1, 2]) (fresh_client ()) =
     Some (0, no_attr\<lparr>attr_flags := 5, attr_size := 3, attr_perm := 420\<rparr>, [1, 2], fresh_client ())"
proof -
  let ?a = "no_attr\<lparr>attr_flags := 5, attr_size := 3, attr_perm := 420\<rparr>"
  have "attr_normal ?a" by (simp add: attr_normal_def no_attr_def SSH2_FILEXFER_ATTR_SIZE_def
      SSH2_FILEXFER_ATTR_UIDGID_def SSH2_FILEXFER_ATTR_PERMISSIONS_def SSH2_FILEXFER_ATTR_ACMODTIME_def)
  moreover have "3 < length (attr_bytes ?a)" by (simp add: attr_need_def)
  ultimately show ?thesis using attribs_roundtrip [of ?a "[1, 2]" 3 "fresh_client ()"] by simp
qed

text \<open>
  Listing a directory: whatever batches the server sends, \<open>readdir\<close> ends and returns exactly
  the elements in their order, without the marker \<^verbatim>\<open>...\<close>, after which it stops asking; otherwise it asks
  until the server reports the end. The session stays usable.
\<close>

theorem readdir_lists:
  assumes "quiet st" "serves_dir srv (word_of_int handle) batches" "batches (fst (world st)) = bs"
    "list_all batch_ok bs" "counter st + int (length bs) < int_max"
  shows "\<exists>st'. SftpClient_readdir (loop_os srv chunk) handle st = Some (0, listing bs, st') \<and>
    session_kept st (length bs + 1) st'"
  using readdir_loop_server [OF assms(1,5,2,3,4), of chunk "[]"] assms(1)
  by (simp add: SftpClient_readdir_def quiet_def)

definition demo_entry :: "string \<Rightarrow> dir_entry" where
  "demo_entry nm = (\<lparr>info_name = map of_char nm, info_attr = no_attr\<rparr>, [])"

definition demo_dir :: "dir_entry list list \<Rightarrow> byte list \<Rightarrow> dir_entry list list \<times> byte list" where
  "demo_dir ess p = (tl ess, case ess of [] \<Rightarrow> frame (req_ident p) SSH2_FXP_STATUS (be32 SSH2_FX_EOF)
     | es # _ \<Rightarrow> frame (req_ident p) SSH2_FXP_NAME (be32 (word_of_nat (length es)) @ entries_bytes es))"

theorem readdir_lists_witness:
  "\<exists>st'. SftpClient_readdir (loop_os demo_dir (\<lambda>t. (t, 0))) 9
      (fresh_client [[demo_entry ''a'', demo_entry ''b''], [demo_entry ''c'', demo_entry ''...'']]) =
    Some (0, map fst [demo_entry ''a'', demo_entry ''b'', demo_entry ''c''], st')"
proof -
  let ?b = "[[demo_entry ''a'', demo_entry ''b''], [demo_entry ''c'', demo_entry ''...'']]"
  have "serves_dir demo_dir (word_of_int 9) (\<lambda>s. s)" by (simp add: serves_dir_def demo_dir_def)
  moreover have "list_all batch_ok ?b"
    by (simp add: batch_ok_def entry_ok_def demo_entry_def MAX_PATH_def attr_normal_def no_attr_def entries_bytes_def
        entry_bytes_def attr_need_def of_char_def)
  moreover have "listing ?b = map fst [demo_entry ''a'', demo_entry ''b'', demo_entry ''c'']"
    by (simp add: is_marker_def demo_entry_def last_marker_def of_char_def)
  ultimately show ?thesis
    using readdir_lists [OF quiet_fresh, of demo_dir 9 "\<lambda>s. s" ?b ?b "\<lambda>t. (t, 0)"] by auto
qed

text \<open>
  A hostile server writes past the caller's memory. A read takes as many bytes as the answer
  carries, not as many as were asked for or as the buffer holds; an element of a listing is copied into
  a buffer of \<^verbatim>\<open>MAX_PATH\<close> bytes whatever the length of its name is. In both cases the run has no
  defined meaning.
\<close>

theorem hostile_answers_overflow:
  assumes "quiet st" "counter st < int_max"
    "0 < n" "int n \<le> int_max" "length buffer < length d"
    "next_answer srv (fst (world st)) SSH2_FXP_DATA (be32 (len32 d) @ d)"
    "MAX_PATH < length nm"
    "next_answer srv2 (fst (world st)) SSH2_FXP_NAME (be32 (word_of_nat (Suc m)) @ be32 (len32 nm) @ nm @ rest)" "m < 65536"
  shows "SftpClient_read (loop_os srv chunk) handle buffer off (int n) st = None \<and>
    SftpClient_readdir (loop_os srv2 chunk) handle st = None"
proof
  let ?id = "word_of_int (counter st) :: u32"
  have alive: "\<not> dead st" using assms(1) by (simp add: quiet_def)
  note num = quiet_number(1) [OF assms(1,2)]
  have ld: "length d \<le> 65523" "length nm + length rest \<le> 65519" using assms(6,8) by (simp_all add: next_answer_def)
  define ps where "ps = (word_of_int (min (int n) (sectorSize st)) :: u32)"
  have l1: "length (be32 4 @ be32 (word_of_int handle) @ be64 off @ be32 ps) + 9 \<le> 100000" by simp
  obtain st1 where r: "SftpClient_processPacket (loop_os srv chunk)
      (frame ?id SSH2_FXP_READ (be32 4 @ be32 (word_of_int handle) @ be64 off @ be32 ps))
      (st\<lparr>counter := counter st + 1\<rparr>) = Some (0, frame ?id SSH2_FXP_DATA (be32 (len32 d) @ d), spent chunk st st1, st1)"
    using next_exchange [OF assms(1,2,6) l1] .
  have big: "unat (len32 d) = length d" using ld unat_u32_small [of "length d"] by simp
  have over: "memcpy buffer 0 d 0 (length d) = None"
    using assms(5) by (auto simp: memcpy_def mem_read_def mem_write_def)
  have left: "cint_add (int n) (- 0) = Some (int n)" using assms(4) by (simp add: cint_add_def)
  have "read_step (loop_os srv chunk) handle (int n)
      \<lparr>x_buf = buffer, x_pos = 0, x_done = 0, x_offset = off, x_elapsed = 0\<rparr> st = None"
    using num r read_request [of ?id "word_of_int handle" off ps] left big over ld
    by (simp add: read_step_def Let_def ps_def)
  then show "SftpClient_read (loop_os srv chunk) handle buffer off (int n) st = None"
    using alive by (simp add: SftpClient_read_def read_loop.simps)
  have l2: "length (be32 4 @ be32 (word_of_int handle)) + 9 \<le> 100000" by simp
  obtain st2 where r2: "SftpClient_processPacket (loop_os srv2 chunk)
      (frame ?id SSH2_FXP_DIRLIGO_READDIR_SHORT (be32 4 @ be32 (word_of_int handle))) (st\<lparr>counter := counter st + 1\<rparr>) =
        Some (0, frame ?id SSH2_FXP_NAME (be32 (word_of_nat (Suc m)) @ be32 (len32 nm) @ nm @ rest), spent chunk st st2, st2)"
    using next_exchange [OF assms(1,2,8) l2] .
  have m: "unat (word_of_nat (Suc m) :: u32) = Suc m" using assms(9) unat_u32_small [of "Suc m"] by simp
  have "name_loop (Suc m) (be32 (len32 nm) @ nm @ rest) [] True st2 = None"
    using pop_name_long [OF assms(7), of rest] ld by simp
  then have "readdir_step (loop_os srv2 chunk) handle [] st = None"
    using num r2 readdir_request [of ?id "word_of_int handle"] m ld
    by (simp add: readdir_step_def names_step_def SSH2_FXP_NAME_def SSH2_FXP_STATUS_def del: of_nat_Suc name_loop.simps)
  then show "SftpClient_readdir (loop_os srv2 chunk) handle st = None"
    using alive by (simp add: SftpClient_readdir_def readdir_loop.simps)
qed

theorem hostile_answers_overflow_witness:
  "SftpClient_read (loop_os (\<lambda>s p. (s, frame (req_ident p) SSH2_FXP_DATA (be32 2 @ [7, 7]))) (\<lambda>t. (t, 0))) 9 [0] 0 1 (fresh_client ()) = None"
  using hostile_answers_overflow [of "fresh_client ()" 1 "[0]" "[7, 7]"
      "\<lambda>s p. (s, frame (req_ident p) SSH2_FXP_DATA (be32 2 @ [7, 7]))" "replicate 261 65"
      "\<lambda>s p. (s, frame (req_ident p) SSH2_FXP_NAME (be32 (word_of_nat (Suc 0)) @ be32 (len32 (replicate 261 65)) @ replicate 261 65 @ []))"
      0 "[]" "\<lambda>t. (t, 0)" 9 0]
  by (simp add: quiet_fresh next_answer_def MAX_PATH_def)

text \<open>
  Opening: when the server answers with a handle, \<open>open\<close> returns it as an unsigned number.
  \<open>createfile\<close> takes the directory flag out of a handle that is not negative and reports it through
  \<open>isDir\<close>; when the caller passed no pointer and the object is a directory, it writes through
  \<^verbatim>\<open>NULL\<close>. A refusal of the server gives \<^verbatim>\<open>-1\<close> from \<open>open\<close>, and 0 together with the end of the session from
  \<open>createfile\<close>, because it does not know the packet \<^verbatim>\<open>SSH2_FXP_STATUS\<close>.
\<close>

theorem opened_handles:
  assumes "quiet st" "counter st < int_max" "length path \<le> 60000"
    "next_answer srv (fst (world st)) SSH2_FXP_HANDLE (be32 4 @ be32 h)"
    "next_answer srv2 (fst (world st)) SSH2_FXP_STATUS (be32 code)"
  shows "(\<exists>st'. SftpClient_open (loop_os srv chunk) path mode 0 st = Some (uint h, st') \<and> quiet st') \<and>
    (\<exists>st'. SftpClient_open (loop_os srv2 chunk) path mode 0 st = Some (-1, st') \<and> quiet st') \<and>
    (0 \<le> sint h \<longrightarrow> (\<exists>st'. quiet st' \<and> SftpClient_createfile (loop_os srv chunk) path acc shared create flags (Some d) st =
        Some (sint h AND NOT SSH2_FXP_DIRLIGO_DIR_FLAG,
              Some (if sint h AND SSH2_FXP_DIRLIGO_DIR_FLAG \<noteq> 0 then 1 else d), st'))) \<and>
    (0 \<le> sint h \<longrightarrow> sint h AND SSH2_FXP_DIRLIGO_DIR_FLAG \<noteq> 0 \<longrightarrow>
       SftpClient_createfile (loop_os srv chunk) path acc shared create flags None st = None) \<and>
    (\<exists>st'. SftpClient_createfile (loop_os srv2 chunk) path acc shared create flags (Some d) st = Some (0, Some d, st') \<and> dead st')"
proof -
  let ?id = "word_of_int (counter st) :: u32"
  have alive: "\<not> dead st" using assms(1) by (simp add: quiet_def)
  note num = quiet_number(1) [OF assms(1,2)]
  define ob where "ob = be32 (len32 path) @ path @ be32 mode @ be32 0"
  define cb where "cb = be32 (len32 path) @ path @ be32 acc @ be32 shared @ be32 create @ be32 flags"
  have lens: "length ob + 9 \<le> 100000" "length cb + 9 \<le> 100000" using assms(3) by (simp_all add: ob_def cb_def)
  have po: "push_items [] [Dword (17 + len32 path), Byte SSH2_FXP_OPEN, Dword ?id, Dword (len32 path), Raw path, Dword mode, Dword 0] =
      Some (frame ?id SSH2_FXP_OPEN ob)"
    using push_frame [of "17 + len32 path" "[Dword (len32 path), Raw path, Dword mode, Dword 0]" SSH2_FXP_OPEN ?id] assms(3)
    by (simp add: ob_def)
  have pc: "push_items [] [Dword (25 + len32 path), Byte SSH2_FXP_DIRLIGO_CREATEFILE, Dword ?id, Dword (len32 path), Raw path,
      Dword acc, Dword shared, Dword create, Dword flags] = Some (frame ?id SSH2_FXP_DIRLIGO_CREATEFILE cb)"
    using push_frame [of "25 + len32 path" "[Dword (len32 path), Raw path, Dword acc, Dword shared, Dword create, Dword flags]"
        SSH2_FXP_DIRLIGO_CREATEFILE ?id] assms(3) by (simp add: cb_def)
  obtain a where a: "SftpClient_processPacket (loop_os srv chunk) (frame ?id SSH2_FXP_OPEN ob) (st\<lparr>counter := counter st + 1\<rparr>) =
      Some (0, frame ?id SSH2_FXP_HANDLE (be32 4 @ be32 h), spent chunk st a, a)" "quiet a"
    using next_exchange [OF assms(1,2,4) lens(1)] .
  obtain b where b: "SftpClient_processPacket (loop_os srv2 chunk) (frame ?id SSH2_FXP_OPEN ob) (st\<lparr>counter := counter st + 1\<rparr>) =
      Some (0, frame ?id SSH2_FXP_STATUS (be32 code), spent chunk st b, b)" "quiet b"
    using next_exchange [OF assms(1,2,5) lens(1)] .
  obtain c where c: "SftpClient_processPacket (loop_os srv chunk) (frame ?id SSH2_FXP_DIRLIGO_CREATEFILE cb) (st\<lparr>counter := counter st + 1\<rparr>) =
      Some (0, frame ?id SSH2_FXP_HANDLE (be32 4 @ be32 h), spent chunk st c, c)" "quiet c"
    using next_exchange [OF assms(1,2,4) lens(2)] .
  obtain e where e: "SftpClient_processPacket (loop_os srv2 chunk) (frame ?id SSH2_FXP_DIRLIGO_CREATEFILE cb) (st\<lparr>counter := counter st + 1\<rparr>) =
      Some (0, frame ?id SSH2_FXP_STATUS (be32 code), spent chunk st e, e)" "quiet e"
    using next_exchange [OF assms(1,2,5) lens(2)] .
  have o1: "SftpClient_open (loop_os srv chunk) path mode 0 st = Some (uint h, a)"
    using num alive po a(1) by (simp add: SftpClient_open_def)
  have o2: "SftpClient_open (loop_os srv2 chunk) path mode 0 st = Some (-1, b)"
    using num alive po b(1) by (simp add: SftpClient_open_def SSH2_FXP_STATUS_def SSH2_FXP_HANDLE_def)
  have c1: "SftpClient_createfile (loop_os srv chunk) path acc shared create flags (Some d) st =
        Some (sint h AND NOT SSH2_FXP_DIRLIGO_DIR_FLAG,
              Some (if sint h AND SSH2_FXP_DIRLIGO_DIR_FLAG \<noteq> 0 then 1 else d), c)" if "0 \<le> sint h"
    using that num alive pc c(1) by (simp add: SftpClient_createfile_def Let_def)
  have c2: "SftpClient_createfile (loop_os srv chunk) path acc shared create flags None st = None"
    if "0 \<le> sint h" "sint h AND SSH2_FXP_DIRLIGO_DIR_FLAG \<noteq> 0"
    using that num alive pc c(1) by (simp add: SftpClient_createfile_def Let_def)
  have c3: "SftpClient_createfile (loop_os srv2 chunk) path acc shared create flags (Some d) st = Some (0, Some d, SftpClient_shutdown e)"
    using num alive pc e(1) by (simp add: SftpClient_createfile_def SSH2_FXP_STATUS_def SSH2_FXP_HANDLE_def)
  show ?thesis using o1 o2 c1 c2 c3 a(2) b(2) c(2) by (simp add: SftpClient_shutdown_def)
qed

theorem opened_handles_witness:
  "\<exists>st'. SftpClient_createfile (loop_os (\<lambda>s p. (s, frame (req_ident p) SSH2_FXP_HANDLE (be32 4 @ be32 0x40000007))) (\<lambda>t. (t, 0)))
     [47] 0 0 0 0 (Some 0) (fresh_client ()) = Some (7, Some 1, st')"
  using opened_handles [of "fresh_client ()" "[47]"
      "\<lambda>s p. (s, frame (req_ident p) SSH2_FXP_HANDLE (be32 4 @ be32 0x40000007))" "0x40000007"
      "\<lambda>s p. (s, frame (req_ident p) SSH2_FXP_STATUS (be32 0))" 0 "\<lambda>t. (t, 0)" 0 0 0 0 0 0]
  by (auto simp: quiet_fresh next_answer_def SSH2_FXP_DIRLIGO_DIR_FLAG_def)

end
