(* ===== verification/Sftp_Cache.thy ===== *)
theory Sftp_Cache
  imports Sftp_Session
begin

text \<open>
  The caching client (\<^verbatim>\<open>LibSftp/SftpClientCached.cpp\<close>): a wrapper around the SFTP client that shares the
  handle of a directory between its users, keeps it open for some seconds after the last of them has
  closed it, and remembers listings and disk statistics for a short time. The methods of the base class
  that it calls are collected in a record, so that what the wrapper promises can be stated over their
  contract (locale \<open>handle_base\<close>) and then be obtained for the modelled client.
\<close>

text \<open>The cleaner is the routine of a thread; that it ends without a result is not described.\<close>

section \<open>State\<close>

text \<open>\<open>b_time\<close> is \<^verbatim>\<open>time(0)\<close>; \<open>'d\<close> is the type of the elements of a listing.\<close>

record ('c, 'd) base_ops =
  b_time :: "'c \<Rightarrow> int"
  b_opendir :: "byte list \<Rightarrow> 'c \<Rightarrow> (int \<times> 'c) run"
  b_createfile :: "byte list \<Rightarrow> u32 \<Rightarrow> u32 \<Rightarrow> u32 \<Rightarrow> u32 \<Rightarrow> int option \<Rightarrow> 'c \<Rightarrow> (int \<times> int option \<times> 'c) run"
  b_close :: "int \<Rightarrow> 'c \<Rightarrow> (u32 \<times> 'c) run"
  b_multiclose :: "int list \<Rightarrow> 'c \<Rightarrow> (u32 \<times> 'c) run"
  b_resetdir :: "int \<Rightarrow> 'c \<Rightarrow> (u32 \<times> 'c) run"
  b_readdir :: "int \<Rightarrow> 'c \<Rightarrow> (int \<times> 'd list \<times> 'c) run"
  b_mkdir :: "byte list \<Rightarrow> 'c \<Rightarrow> (u32 \<times> 'c) run"
  b_rmdir :: "byte list \<Rightarrow> 'c \<Rightarrow> (u32 \<times> 'c) run"
  b_rename :: "byte list \<Rightarrow> byte list \<Rightarrow> 'c \<Rightarrow> (u32 \<times> 'c) run"
  b_statvfs :: "byte list \<Rightarrow> 'c \<Rightarrow> (int \<times> u64 list \<times> 'c) run"

text \<open>\<open>closeTime\<close> and \<open>findTime\<close> are \<^const>\<open>None\<close> until they are first assigned.\<close>

record 'd CacheElement =
  ce_path :: "byte list"
  ce_handle :: int
  ce_refCount :: int
  ce_closeTime :: "int option"
  ce_isDir :: int
  ce_readdirCalled :: int
  ce_findData :: "'d list"
  ce_findTime :: "int option"

record ('c, 'd) CachedSftpClient =
  cache :: "'d CacheElement list"
  cacheStatvfs :: "byte list \<rightharpoonup> u64 list \<times> int"
  lock_count :: int
  base :: 'c

definition CachedSftpClient_new :: "'c \<Rightarrow> ('c, 'd) CachedSftpClient" where
  "CachedSftpClient_new c = \<lparr>cache = [], cacheStatvfs = Map.empty, lock_count = 0, base = c\<rparr>"

definition CachedSftpClient_lock :: "('c, 'd) CachedSftpClient \<Rightarrow> ('c, 'd) CachedSftpClient" where
  "CachedSftpClient_lock st = st\<lparr>lock_count := lock_count st + 1\<rparr>"

definition CachedSftpClient_unlock :: "('c, 'd) CachedSftpClient \<Rightarrow> ('c, 'd) CachedSftpClient" where
  "CachedSftpClient_unlock st = st\<lparr>lock_count := lock_count st - 1\<rparr>"

section \<open>Searching\<close>

fun first_index :: "('a \<Rightarrow> bool) \<Rightarrow> 'a list \<Rightarrow> nat option" where
  "first_index P [] = None"
| "first_index P (x # xs) = (if P x then Some 0 else map_option Suc (first_index P xs))"

text \<open>The two variants of each function are its overloads for a handle and for a path.\<close>

definition CachedSftpClient_findElement_handle ::
    "int \<Rightarrow> ('c, 'd) CachedSftpClient \<Rightarrow> nat option \<times> ('c, 'd) CachedSftpClient" where
  "CachedSftpClient_findElement_handle handle st =
     (let st = CachedSftpClient_lock st; it = first_index (\<lambda>e. ce_handle e = handle) (cache st) in
      (it, CachedSftpClient_unlock st))"

definition CachedSftpClient_findElementForUpdate_handle ::
    "int \<Rightarrow> ('c, 'd) CachedSftpClient \<Rightarrow> nat option \<times> ('c, 'd) CachedSftpClient" where
  "CachedSftpClient_findElementForUpdate_handle handle st =
     (let st = CachedSftpClient_lock st; it = first_index (\<lambda>e. ce_handle e = handle) (cache st) in
      (it, if it = None then CachedSftpClient_unlock st else st))"

definition CachedSftpClient_findElement_path ::
    "byte list \<Rightarrow> ('c, 'd) CachedSftpClient \<Rightarrow> nat option \<times> ('c, 'd) CachedSftpClient" where
  "CachedSftpClient_findElement_path path st =
     (let st = CachedSftpClient_lock st; it = first_index (\<lambda>e. ce_path e = path) (cache st) in
      (it, CachedSftpClient_unlock st))"

definition CachedSftpClient_findElementForUpdate_path ::
    "byte list \<Rightarrow> ('c, 'd) CachedSftpClient \<Rightarrow> nat option \<times> ('c, 'd) CachedSftpClient" where
  "CachedSftpClient_findElementForUpdate_path path st =
     (let st = CachedSftpClient_lock st; it = first_index (\<lambda>e. ce_path e = path) (cache st) in
      (it, if it = None then CachedSftpClient_unlock st else st))"

section \<open>Closing unused handles\<close>

definition erase :: "nat \<Rightarrow> 'a list \<Rightarrow> 'a list" where
  "erase k xs = take k xs @ drop (Suc k) xs"

definition CachedSftpClient_realclose ::
    "('c, 'd) base_ops \<Rightarrow> int \<Rightarrow> ('c, 'd) CachedSftpClient \<Rightarrow> (u32 \<times> ('c, 'd) CachedSftpClient) run" where
  "CachedSftpClient_realclose ops handle st = do {
     (rc, c) \<leftarrow> b_close ops handle (base st);
     Some (rc, st\<lparr>base := c\<rparr>) }"

text \<open>What both overloads do with the iterator they found.\<close>

definition remove_if_unused ::
    "('c, 'd) base_ops \<Rightarrow> nat option \<times> ('c, 'd) CachedSftpClient \<Rightarrow> ('c, 'd) CachedSftpClient run" where
  "remove_if_unused ops found =
     (case found of
        (None, st) \<Rightarrow> Some st
      | (Some k, st) \<Rightarrow>
          let e = cache st ! k;
              (handleToClose, st) =
                (if ce_refCount e = 0 then (ce_handle e, st\<lparr>cache := erase k (cache st)\<rparr>) else (-1, st));
              st = CachedSftpClient_unlock st
          in if handleToClose \<noteq> -1 then do {
               (_, st) \<leftarrow> CachedSftpClient_realclose ops handleToClose st;
               Some st }
             else Some st)"

definition CachedSftpClient_removeUnusedHandle_path ::
    "('c, 'd) base_ops \<Rightarrow> byte list \<Rightarrow> ('c, 'd) CachedSftpClient \<Rightarrow> ('c, 'd) CachedSftpClient run" where
  "CachedSftpClient_removeUnusedHandle_path ops path st =
     remove_if_unused ops (CachedSftpClient_findElementForUpdate_path path st)"

definition CachedSftpClient_removeUnusedHandle_handle ::
    "('c, 'd) base_ops \<Rightarrow> int \<Rightarrow> ('c, 'd) CachedSftpClient \<Rightarrow> ('c, 'd) CachedSftpClient run" where
  "CachedSftpClient_removeUnusedHandle_handle ops handle st =
     remove_if_unused ops (CachedSftpClient_findElementForUpdate_handle handle st)"

text \<open>
  One round of the cleaner. \<open>currentTime\<close> is read before the thread waits; the closing time of an
  element is only read when nobody uses it.
\<close>

fun clean_loop :: "int \<Rightarrow> 'd CacheElement list \<Rightarrow> (int list \<times> 'd CacheElement list) run" where
  "clean_loop currentTime [] = Some ([], [])"
| "clean_loop currentTime (e # es) = do {
     expired \<leftarrow> (if ce_refCount e = 0 then map_option (\<lambda>t. currentTime - t > 5) (ce_closeTime e) else Some False);
     (handles, rest) \<leftarrow> clean_loop currentTime es;
     Some (if expired then (ce_handle e # handles, rest) else (handles, e # rest)) }"

definition CachedSftpClient_cleanerLoop ::
    "('c, 'd) base_ops \<Rightarrow> int \<Rightarrow> ('c, 'd) CachedSftpClient \<Rightarrow> ('c, 'd) CachedSftpClient run" where
  "CachedSftpClient_cleanerLoop ops currentTime st = do {
     let st = CachedSftpClient_lock st;
     (handlesToClose, rest) \<leftarrow> clean_loop currentTime (cache st);
     let st = CachedSftpClient_unlock (st\<lparr>cache := rest\<rparr>);
     if handlesToClose \<noteq> [] then do {
       (_, c) \<leftarrow> b_multiclose ops handlesToClose (base st);
       Some (st\<lparr>base := c\<rparr>) }
     else Some st }"

section \<open>Directories\<close>

text \<open>\<open>data\<close> is the content of the caller's vector; an element is updated in place.\<close>

definition upd_elem ::
    "nat \<Rightarrow> ('d CacheElement \<Rightarrow> 'd CacheElement) \<Rightarrow> ('c, 'd) CachedSftpClient \<Rightarrow> ('c, 'd) CachedSftpClient" where
  "upd_elem k f st = st\<lparr>cache := (cache st)[k := f (cache st ! k)]\<rparr>"

text \<open>The first half of \<open>readdir\<close>: a listing that is less than a second old is reused.\<close>

definition readdir_reuse ::
    "('c, 'd) base_ops \<Rightarrow> int \<Rightarrow> 'd list \<Rightarrow> ('c, 'd) CachedSftpClient \<Rightarrow>
      (int \<times> 'd list \<times> ('c, 'd) CachedSftpClient) run" where
  "readdir_reuse ops handle data st =
     (case CachedSftpClient_findElementForUpdate_handle handle st of
        (None, st) \<Rightarrow> Some (-1, data, st)
      | (Some k, st) \<Rightarrow> do {
          let e = cache st ! k;
          (ret, data, st) \<leftarrow>
            (if ce_readdirCalled e = 1 then do {
               findTime \<leftarrow> ce_findTime e;
               if b_time ops (base st) - findTime < 1 then Some (0, ce_findData e, st)
               else do {
                 (_, c) \<leftarrow> b_resetdir ops handle (base st);
                 Some (-1, data, st\<lparr>base := c\<rparr>) } }
             else Some (-1, data, st));
          Some (ret, data, CachedSftpClient_unlock (upd_elem k (\<lambda>e. e\<lparr>ce_readdirCalled := 1\<rparr>) st)) })"

text \<open>The second half stores a new listing; its last \<^verbatim>\<open>unlock\<close> is not inside the \<^verbatim>\<open>if\<close>.\<close>

definition readdir_store ::
    "('c, 'd) base_ops \<Rightarrow> int \<Rightarrow> 'd list \<Rightarrow> ('c, 'd) CachedSftpClient \<Rightarrow> ('c, 'd) CachedSftpClient" where
  "readdir_store ops handle data st =
     CachedSftpClient_unlock
       (case CachedSftpClient_findElementForUpdate_handle handle st of
          (None, st) \<Rightarrow> st
        | (Some k, st) \<Rightarrow>
            upd_elem k (\<lambda>e. e\<lparr>ce_findData := data, ce_findTime := Some (b_time ops (base st))\<rparr>) st)"

definition CachedSftpClient_readdir ::
    "('c, 'd) base_ops \<Rightarrow> int \<Rightarrow> 'd list \<Rightarrow> ('c, 'd) CachedSftpClient \<Rightarrow>
      (int \<times> 'd list \<times> ('c, 'd) CachedSftpClient) run" where
  "CachedSftpClient_readdir ops handle data st = do {
     (ret, data, st) \<leftarrow> readdir_reuse ops handle data st;
     if ret = -1 then do {
       (ret, data, c) \<leftarrow> b_readdir ops handle (base st);
       let st = st\<lparr>base := c\<rparr>;
       Some (ret, data, if ret = 0 then readdir_store ops handle data st else st) }
     else Some (ret, data, st) }"

definition new_element :: "byte list \<Rightarrow> int \<Rightarrow> 'd CacheElement" where
  "new_element path handle = \<lparr>ce_path = path, ce_handle = handle, ce_refCount = 1, ce_closeTime = None,
     ce_isDir = 1, ce_readdirCalled = 0, ce_findData = [], ce_findTime = None\<rparr>"

definition add_element :: "byte list \<Rightarrow> int \<Rightarrow> ('c, 'd) CachedSftpClient \<Rightarrow> ('c, 'd) CachedSftpClient" where
  "add_element path handle st =
     CachedSftpClient_unlock ((CachedSftpClient_lock st)\<lparr>cache := cache st @ [new_element path handle]\<rparr>)"

text \<open>The part that \<open>opendir\<close> and \<open>createfile\<close> share: a cached directory is reused; else the result is -1.\<close>

definition reuse_handle ::
    "byte list \<Rightarrow> ('c, 'd) CachedSftpClient \<Rightarrow> (int \<times> ('c, 'd) CachedSftpClient) run" where
  "reuse_handle path st =
     (case CachedSftpClient_findElementForUpdate_path path st of
        (None, st) \<Rightarrow> Some (-1, st)
      | (Some k, st) \<Rightarrow>
          let e = cache st ! k in
          if ce_isDir e \<noteq> 0 then do {
            n \<leftarrow> cint_add (ce_refCount e) 1;
            Some (ce_handle e, CachedSftpClient_unlock (upd_elem k (\<lambda>e. e\<lparr>ce_refCount := n\<rparr>) st)) }
          else Some (-1, CachedSftpClient_unlock st))"

definition CachedSftpClient_opendir ::
    "('c, 'd) base_ops \<Rightarrow> byte list \<Rightarrow> ('c, 'd) CachedSftpClient \<Rightarrow> (int \<times> ('c, 'd) CachedSftpClient) run" where
  "CachedSftpClient_opendir ops path st = do {
     (handle, st) \<leftarrow> reuse_handle path st;
     if handle = -1 then do {
       (handle, c) \<leftarrow> b_opendir ops path (base st);
       let st = st\<lparr>base := c\<rparr>;
       Some (handle, if handle \<noteq> -1 then add_element path handle st else st) }
     else Some (handle, st) }"

text \<open>\<open>isDir\<close> is the value behind the caller's pointer, which a reused handle leaves alone.\<close>

definition CachedSftpClient_createfile ::
    "('c, 'd) base_ops \<Rightarrow> byte list \<Rightarrow> u32 \<Rightarrow> u32 \<Rightarrow> u32 \<Rightarrow> u32 \<Rightarrow> int option \<Rightarrow>
      ('c, 'd) CachedSftpClient \<Rightarrow> (int \<times> int option \<times> ('c, 'd) CachedSftpClient) run" where
  "CachedSftpClient_createfile ops path access shared create flags isDir st = do {
     (handle, st) \<leftarrow> reuse_handle path st;
     if handle = -1 then do {
       (handle, isDirLocal, c) \<leftarrow> b_createfile ops path access shared create flags (Some 0) (base st);
       d \<leftarrow> isDirLocal;
       let st = st\<lparr>base := c\<rparr>;
       Some (handle, if isDir \<noteq> None then Some d else None,
             if handle \<noteq> -1 \<and> d \<noteq> 0 then add_element path handle st else st) }
     else Some (handle, isDir, st) }"

text \<open>
  The last \<^verbatim>\<open>mutex_.unlock()\<close> has no matching lock. The function is declared with a result but has no \<^verbatim>\<open>return\<close>, which C++ leaves undefined; to say anything
  about sessions that close their handles, the definition describes compilers that come back to the caller with an arbitrary result, and has no result.
\<close>

definition CachedSftpClient_close ::
    "('c, 'd) base_ops \<Rightarrow> int \<Rightarrow> ('c, 'd) CachedSftpClient \<Rightarrow> ('c, 'd) CachedSftpClient run" where
  "CachedSftpClient_close ops handle st = do {
     let (it, st) = CachedSftpClient_findElementForUpdate_handle handle st;
     (realCloseNeeded, st) \<leftarrow>
       (case it of
          None \<Rightarrow> Some (True, st)
        | Some k \<Rightarrow>
            if ce_isDir (cache st ! k) \<noteq> 0 then do {
              n \<leftarrow> cint_add (ce_refCount (cache st ! k)) (-1);
              Some (False, CachedSftpClient_unlock
                (upd_elem k (\<lambda>e. e\<lparr>ce_refCount := n, ce_closeTime := Some (b_time ops (base st))\<rparr>) st)) }
            else Some (True, CachedSftpClient_unlock st));
     (_, st) \<leftarrow> (if realCloseNeeded then CachedSftpClient_realclose ops handle st else Some (0, st));
     Some (CachedSftpClient_unlock st) }"

section \<open>Other commands\<close>

definition on_base ::
    "('c \<Rightarrow> (u32 \<times> 'c) run) \<Rightarrow> ('c, 'd) CachedSftpClient \<Rightarrow> (u32 \<times> ('c, 'd) CachedSftpClient) run" where
  "on_base f st = do { (rc, c) \<leftarrow> f (base st); Some (rc, st\<lparr>base := c\<rparr>) }"

definition CachedSftpClient_mkdir ::
    "('c, 'd) base_ops \<Rightarrow> byte list \<Rightarrow> ('c, 'd) CachedSftpClient \<Rightarrow> (u32 \<times> ('c, 'd) CachedSftpClient) run" where
  "CachedSftpClient_mkdir ops path st = do {
     st \<leftarrow> CachedSftpClient_removeUnusedHandle_path ops path st;
     on_base (b_mkdir ops path) st }"

definition CachedSftpClient_rmdir ::
    "('c, 'd) base_ops \<Rightarrow> byte list \<Rightarrow> ('c, 'd) CachedSftpClient \<Rightarrow> (u32 \<times> ('c, 'd) CachedSftpClient) run" where
  "CachedSftpClient_rmdir ops path st = do {
     st \<leftarrow> CachedSftpClient_removeUnusedHandle_path ops path st;
     on_base (b_rmdir ops path) st }"

definition CachedSftpClient_rename ::
    "('c, 'd) base_ops \<Rightarrow> byte list \<Rightarrow> byte list \<Rightarrow> ('c, 'd) CachedSftpClient \<Rightarrow>
      (u32 \<times> ('c, 'd) CachedSftpClient) run" where
  "CachedSftpClient_rename ops path1 path2 st = do {
     st \<leftarrow> CachedSftpClient_removeUnusedHandle_path ops path1 st;
     st \<leftarrow> CachedSftpClient_removeUnusedHandle_path ops path2 st;
     on_base (b_rename ops path1 path2) st }"

definition CachedSftpClient_statvfs ::
    "('c, 'd) base_ops \<Rightarrow> byte list \<Rightarrow> ('c, 'd) CachedSftpClient \<Rightarrow>
      (int \<times> u64 list \<times> ('c, 'd) CachedSftpClient) run" where
  "CachedSftpClient_statvfs ops path st = do {
     let st = CachedSftpClient_lock st;
     let found = (case cacheStatvfs st path of
                    Some (vs, timestamp) \<Rightarrow> if b_time ops (base st) - timestamp < 5 then Some vs else None
                  | None \<Rightarrow> None);
     let st = CachedSftpClient_unlock st;
     case found of
       Some vs \<Rightarrow> Some (0, vs, st)
     | None \<Rightarrow> do {
         (ret, vs, c) \<leftarrow> b_statvfs ops path (base st);
         let st = st\<lparr>base := c\<rparr>;
         Some (ret, vs,
           if ret = 0
           then CachedSftpClient_unlock ((CachedSftpClient_lock st)\<lparr>cacheStatvfs :=
                  (cacheStatvfs st)(path \<mapsto> (vs, b_time ops (base st)))\<rparr>)
           else st) } }"

section \<open>Lists of elements\<close>

lemma first_index_Some:
  "first_index P xs = Some k \<Longrightarrow> k < length xs \<and> P (xs ! k) \<and> (\<forall>j<k. \<not> P (xs ! j))"
proof (induction xs arbitrary: k)
  case (Cons x xs)
  then show ?case by (cases k) (auto split: if_splits simp: less_Suc_eq_0_disj nth_Cons')
qed simp

lemma lock_simps [simp]:
  "cache (CachedSftpClient_lock st) = cache st" "base (CachedSftpClient_lock st) = base st"
  "cache (CachedSftpClient_unlock st) = cache st" "base (CachedSftpClient_unlock st) = base st"
  "lock_count (CachedSftpClient_lock st) = lock_count st + 1" "lock_count (CachedSftpClient_unlock st) = lock_count st - 1"
  "cacheStatvfs (CachedSftpClient_lock st) = cacheStatvfs st" "cacheStatvfs (CachedSftpClient_unlock st) = cacheStatvfs st"
  by (simp_all add: CachedSftpClient_lock_def CachedSftpClient_unlock_def)

lemma upd_elem_simps [simp]:
  "base (upd_elem k f st) = base st" "lock_count (upd_elem k f st) = lock_count st"
  "cache (upd_elem k f st) = (cache st)[k := f (cache st ! k)]"
  by (simp_all add: upd_elem_def)

lemma find_simps:
  "CachedSftpClient_findElementForUpdate_handle h st =
     (case first_index (\<lambda>e. ce_handle e = h) (cache st) of
        None \<Rightarrow> (None, CachedSftpClient_unlock (CachedSftpClient_lock st)) | Some k \<Rightarrow> (Some k, CachedSftpClient_lock st))"
  "CachedSftpClient_findElementForUpdate_path path st =
     (case first_index (\<lambda>e. ce_path e = path) (cache st) of
        None \<Rightarrow> (None, CachedSftpClient_unlock (CachedSftpClient_lock st)) | Some k \<Rightarrow> (Some k, CachedSftpClient_lock st))"
  by (simp_all add: CachedSftpClient_findElementForUpdate_handle_def CachedSftpClient_findElementForUpdate_path_def
      split: option.splits)

lemma first_index_None: "first_index P xs = None \<longleftrightarrow> (\<forall>x\<in>set xs. \<not> P x)"
  by (induction xs) auto

lemma set_erase: "x \<in> set (erase k xs) \<Longrightarrow> x \<in> set xs"
  by (auto simp: erase_def dest: in_set_takeD in_set_dropD)

lemma map_erase: "map f (erase k xs) = erase k (map f xs)"
  by (simp add: erase_def take_map drop_map)

lemma distinct_erase:
  assumes "distinct xs" "k < length xs"
  shows "distinct (erase k xs)" "set (erase k xs) = set xs - {xs ! k}"
proof -
  have "distinct (take k xs @ xs ! k # drop (Suc k) xs)" using assms by (simp add: id_take_nth_drop [symmetric])
  then show "distinct (erase k xs)" by (simp add: erase_def)
  have "set xs = set (take k xs @ xs ! k # drop (Suc k) xs)" using assms by (simp add: id_take_nth_drop [symmetric])
  then show "set (erase k xs) = set xs - {xs ! k}"
    using \<open>distinct (take k xs @ xs ! k # drop (Suc k) xs)\<close> by (auto simp: erase_def)
qed

definition expired :: "int \<Rightarrow> 'd CacheElement \<Rightarrow> bool" where
  "expired now e \<longleftrightarrow> ce_refCount e = 0 \<and> (\<exists>t. ce_closeTime e = Some t \<and> now - t > 5)"

lemma clean_loop_filter:
  "(\<And>e. e \<in> set es \<Longrightarrow> ce_refCount e = 0 \<Longrightarrow> ce_closeTime e \<noteq> None) \<Longrightarrow>
     clean_loop now es = Some (map ce_handle (filter (expired now) es), filter (\<lambda>e. \<not> expired now e) es)"
proof (induction es)
  case (Cons e es)
  then have IH: "clean_loop now es = Some (map ce_handle (filter (expired now) es), filter (\<lambda>e. \<not> expired now e) es)" by simp
  show ?case
    using Cons.prems [of e] expired_def [of now e] by (cases "ce_refCount e = 0"; cases "ce_closeTime e") (simp_all add: IH)
qed simp

section \<open>What is kept of the handles\<close>

text \<open>
  \<open>users h\<close> is the number of times that handle \<open>h\<close> was given out and not closed again. Every cached element
  is an open directory of the server with exactly these users, a handle that is in use is open, and a
  handle outside the cache has one user.
\<close>

definition elem_ok :: "int set \<Rightarrow> (int \<Rightarrow> nat) \<Rightarrow> 'd CacheElement \<Rightarrow> bool" where
  "elem_ok opened users e \<longleftrightarrow> ce_handle e \<in> opened \<and> ce_isDir e = 1 \<and> ce_refCount e = int (users (ce_handle e)) \<and>
     (ce_refCount e = 0 \<longrightarrow> ce_closeTime e \<noteq> None) \<and> ce_handle e \<noteq> -1"

definition handles_ok :: "'d CacheElement list \<Rightarrow> int set \<Rightarrow> (int \<Rightarrow> nat) \<Rightarrow> bool" where
  "handles_ok es opened users \<longleftrightarrow> distinct (map ce_handle es) \<and> (\<forall>e\<in>set es. elem_ok opened users e) \<and>
     (\<forall>h. 0 < users h \<longrightarrow> h \<in> opened) \<and> (\<forall>h. h \<notin> ce_handle ` set es \<longrightarrow> users h \<le> 1)"

lemma handles_ok_more: "handles_ok es A users \<Longrightarrow> A \<subseteq> B \<Longrightarrow> handles_ok es B users"
  by (auto simp: handles_ok_def elem_ok_def)

lemma same_handle_index:
  "distinct (map ce_handle es) \<Longrightarrow> i < length es \<Longrightarrow> k < length es \<Longrightarrow> ce_handle (es ! i) = ce_handle (es ! k) \<Longrightarrow> i = k"
  by (metis distinct_conv_nth length_map nth_map)

text \<open>One element changes together with its number of users.\<close>

lemma handles_ok_update:
  assumes "handles_ok es A users" "k < length es" "ce_handle e = ce_handle (es ! k)"
    "elem_ok A (users(ce_handle e := n)) e"
  shows "handles_ok (es[k := e]) A (users(ce_handle e := n))"
proof -
  have m: "map ce_handle (es[k := e]) = map ce_handle es"
    using assms(2,3) by (simp add: map_update list_update_same_conv)
  have hs: "ce_handle ` set (es[k := e]) = ce_handle ` set es" using arg_cong [OF m, of set] by simp
  have "elem_ok A (users(ce_handle e := n)) x" if x: "x \<in> set (es[k := e])" for x
  proof -
    obtain i where i: "i < length es" "x = es[k := e] ! i" using x by (auto simp: in_set_conv_nth)
    show ?thesis
    proof (cases "i = k")
      case False
      then have "ce_handle (es ! i) \<noteq> ce_handle e"
        using same_handle_index [OF _ i(1) assms(2)] assms(1,3) by (auto simp: handles_ok_def)
      then show ?thesis using assms(1) i False by (auto simp: handles_ok_def elem_ok_def)
    qed (use assms(2,4) i in simp)
  qed
  moreover have "ce_handle e \<in> A" "ce_handle e \<in> ce_handle ` set es" using assms(2-4) by (auto simp: elem_ok_def)
  ultimately show ?thesis using assms(1) unfolding handles_ok_def m hs by auto
qed

text \<open>Elements without users are dropped and their handles closed.\<close>

lemma handles_ok_drop:
  assumes "handles_ok es A users" "distinct (map ce_handle es')" "set es' \<subseteq> set es"
    "\<And>e. e \<in> set es - set es' \<Longrightarrow> ce_refCount e = 0" "A - ce_handle ` (set es - set es') \<subseteq> B"
  shows "handles_ok es' B users"
proof -
  have unused: "users h = 0" if "h \<in> ce_handle ` (set es - set es')" for h
    using that assms(1,4) by (fastforce simp: handles_ok_def elem_ok_def)
  have keep: "ce_handle e \<in> B" if "e \<in> set es'" for e
  proof -
    have "ce_handle e \<notin> ce_handle ` (set es - set es')"
      using that assms(1,3) inj_onD [of ce_handle "set es"] by (auto simp: handles_ok_def distinct_map)
    then show ?thesis using that assms(1,3,5) by (auto simp: handles_ok_def elem_ok_def)
  qed
  have "users h \<le> 1" if "h \<notin> ce_handle ` set es'" for h
  proof (cases "h \<in> ce_handle ` set es")
    case True
    then have "h \<in> ce_handle ` (set es - set es')" using that by blast
    then show ?thesis using unused [of h] by simp
  qed (use assms(1) in \<open>simp add: handles_ok_def\<close>)
  moreover have "h \<in> B" if "0 < users h" for h using that unused [of h] assms(1,5) by (auto simp: handles_ok_def)
  ultimately show ?thesis using assms(1-3) keep by (auto simp: handles_ok_def elem_ok_def)
qed

text \<open>A handle that the server has just opened, cached or not, and one outside the cache that is closed.\<close>

lemma handles_ok_fresh:
  assumes "handles_ok es A users" "h \<notin> A"
  shows "h \<noteq> -1 \<Longrightarrow> handles_ok (es @ [new_element path h]) (insert h A) (users(h := users h + 1))"
    "handles_ok es (insert h A) (users(h := users h + 1))"
proof -
  have n: "users h = 0" "h \<notin> ce_handle ` set es" using assms by (auto simp: handles_ok_def elem_ok_def)
  have "elem_ok (insert h A) (users(h := users h + 1)) e" if "e \<in> set es" for e
    using that n assms(1) by (auto simp: handles_ok_def elem_ok_def)
  moreover have "elem_ok (insert h A) (users(h := users h + 1)) (new_element path h)" if "h \<noteq> -1"
    using n(1) that by (simp add: elem_ok_def new_element_def)
  ultimately show "h \<noteq> -1 \<Longrightarrow> handles_ok (es @ [new_element path h]) (insert h A) (users(h := users h + 1))"
      "handles_ok es (insert h A) (users(h := users h + 1))"
    using assms n by (auto simp: handles_ok_def new_element_def)
qed

lemma handles_ok_close:
  assumes "handles_ok es A users" "h \<notin> ce_handle ` set es" "A - {h} \<subseteq> B"
  shows "handles_ok es B (users(h := users h - 1))"
proof -
  have "users h \<le> 1" using assms(1,2) by (simp add: handles_ok_def)
  then show ?thesis using assms by (auto simp: handles_ok_def elem_ok_def)
qed

section \<open>Steps of the users and of the cleaner\<close>

text \<open>
  The calls of the users of the cache, one after the other, and rounds of the cleaner in between. A user
  closes only what was given to him. \<open>createfile\<close> gave out a handle when it changed the cache or the
  handles of the server, which \<open>opened\<close> reads off the state of the base class.
\<close>

inductive cache_step ::
    "('c, 'd) base_ops \<Rightarrow> (byte list \<Rightarrow> bool) \<Rightarrow> ('c \<Rightarrow> int set) \<Rightarrow>
      ('c, 'd) CachedSftpClient \<times> (int \<Rightarrow> nat) \<Rightarrow> ('c, 'd) CachedSftpClient \<times> (int \<Rightarrow> nat) \<Rightarrow> bool"
  for ops okp opened where
  step_opendir: "okp path \<Longrightarrow> CachedSftpClient_opendir ops path st = Some (h, st') \<Longrightarrow>
     cache_step ops okp opened (st, users) (st', if h = -1 then users else users(h := users h + 1))"
| step_createfile: "okp path \<Longrightarrow> CachedSftpClient_createfile ops path a s c f d st = Some (h, d', st') \<Longrightarrow>
     cache_step ops okp opened (st, users)
       (st', if cache st' = cache st \<and> opened (base st') = opened (base st) then users else users(h := users h + 1))"
| step_close: "0 < users h \<Longrightarrow> CachedSftpClient_close ops h st = Some st' \<Longrightarrow>
     cache_step ops okp opened (st, users) (st', users(h := users h - 1))"
| step_readdir: "CachedSftpClient_readdir ops h data st = Some (ret, data', st') \<Longrightarrow>
     cache_step ops okp opened (st, users) (st', users)"
| step_mkdir: "okp path \<Longrightarrow> CachedSftpClient_mkdir ops path st = Some (rc, st') \<Longrightarrow>
     cache_step ops okp opened (st, users) (st', users)"
| step_rmdir: "okp path \<Longrightarrow> CachedSftpClient_rmdir ops path st = Some (rc, st') \<Longrightarrow>
     cache_step ops okp opened (st, users) (st', users)"
| step_rename: "okp path \<Longrightarrow> okp path2 \<Longrightarrow> CachedSftpClient_rename ops path path2 st = Some (rc, st') \<Longrightarrow>
     cache_step ops okp opened (st, users) (st', users)"
| step_statvfs: "okp path \<Longrightarrow> CachedSftpClient_statvfs ops path st = Some (ret, vs, st') \<Longrightarrow>
     cache_step ops okp opened (st, users) (st', users)"
| step_clean: "CachedSftpClient_cleanerLoop ops now st = Some st' \<Longrightarrow>
     cache_step ops okp opened (st, users) (st', users)"

text \<open>
  What the wrapper relies on. In the states \<open>ok\<close> of the base class, for paths \<open>okp\<close>: a successful open
  returns a handle that was not open before, closing affects the given handles only, and nothing else
  closes a handle.
\<close>

locale handle_base =
  fixes ops :: "('c, 'd) base_ops"
    and ok :: "'c \<Rightarrow> bool"
    and okp :: "byte list \<Rightarrow> bool"
    and opened :: "'c \<Rightarrow> int set"
  assumes opendir_law: "ok c \<Longrightarrow> okp p \<Longrightarrow> b_opendir ops p c = Some (h, c') \<Longrightarrow>
      ok c' \<and> (if h = -1 then opened c \<subseteq> opened c' else h \<notin> opened c \<and> opened c' = insert h (opened c))"
    and createfile_law: "ok c \<Longrightarrow> okp p \<Longrightarrow> b_createfile ops p a s cr f (Some 0) c = Some (h, d, c') \<Longrightarrow>
      ok c' \<and> (d = Some 0 \<and> opened c' = opened c \<or> h \<notin> opened c \<and> opened c' = insert h (opened c))"
    and close_law: "ok c \<Longrightarrow> h \<in> opened c \<Longrightarrow> b_close ops h c = Some (rc, c') \<Longrightarrow> ok c' \<and> opened c - {h} \<subseteq> opened c'"
    and multiclose_law: "ok c \<Longrightarrow> distinct hs \<Longrightarrow> set hs \<subseteq> opened c \<Longrightarrow> b_multiclose ops hs c = Some (rc, c') \<Longrightarrow> ok c' \<and> opened c - set hs \<subseteq> opened c'"
    and resetdir_law: "ok c \<Longrightarrow> b_resetdir ops h c = Some (rc, c') \<Longrightarrow> ok c' \<and> opened c \<subseteq> opened c'"
    and readdir_law: "ok c \<Longrightarrow> b_readdir ops h c = Some (n, data, c') \<Longrightarrow> ok c' \<and> opened c \<subseteq> opened c'"
    and mkdir_law: "ok c \<Longrightarrow> okp p \<Longrightarrow> b_mkdir ops p c = Some (rc, c') \<Longrightarrow> ok c' \<and> opened c \<subseteq> opened c'"
    and rmdir_law: "ok c \<Longrightarrow> okp p \<Longrightarrow> b_rmdir ops p c = Some (rc, c') \<Longrightarrow> ok c' \<and> opened c \<subseteq> opened c'"
    and rename_law: "ok c \<Longrightarrow> okp p \<Longrightarrow> okp q \<Longrightarrow> b_rename ops p q c = Some (rc, c') \<Longrightarrow> ok c' \<and> opened c \<subseteq> opened c'"
    and statvfs_law: "ok c \<Longrightarrow> okp p \<Longrightarrow> b_statvfs ops p c = Some (n, vs, c') \<Longrightarrow> ok c' \<and> opened c \<subseteq> opened c'"
begin

definition cache_inv :: "('c, 'd) CachedSftpClient \<Rightarrow> (int \<Rightarrow> nat) \<Rightarrow> bool" where
  "cache_inv st users \<longleftrightarrow> ok (base st) \<and> handles_ok (cache st) (opened (base st)) users"

lemma inv_new: "ok c \<Longrightarrow> cache_inv (CachedSftpClient_new c) (\<lambda>_. 0)"
  by (simp add: cache_inv_def CachedSftpClient_new_def handles_ok_def)

lemma inv_base:
  "cache_inv st users \<Longrightarrow> ok c \<Longrightarrow> opened (base st) \<subseteq> opened c \<Longrightarrow> base st' = c \<Longrightarrow> cache st' = cache st \<Longrightarrow> cache_inv st' users"
  by (auto simp: cache_inv_def intro: handles_ok_more)

lemma inv_lock [simp]:
  "cache_inv (CachedSftpClient_lock st) users = cache_inv st users"
  "cache_inv (CachedSftpClient_unlock st) users = cache_inv st users"
  by (simp_all add: cache_inv_def CachedSftpClient_lock_def CachedSftpClient_unlock_def)

lemma inv_elem:
  assumes "cache_inv st users" "k < length (cache st)"
  shows "elem_ok (opened (base st)) users (cache st ! k)"
  using assms by (auto simp: cache_inv_def handles_ok_def)

lemma inv_update:
  assumes "cache_inv st users" "k < length (cache st)" "ce_handle (f (cache st ! k)) = h" "h = ce_handle (cache st ! k)"
    "elem_ok (opened (base st)) (users(h := n)) (f (cache st ! k))"
  shows "cache_inv (upd_elem k f st) (users(h := n))"
  using handles_ok_update [of "cache st" "opened (base st)" users k "f (cache st ! k)" n] assms
  by (simp add: cache_inv_def upd_elem_def)

lemma inv_reuse:
  assumes "cache_inv st users" "reuse_handle path st = Some (h, st')"
  shows "base st' = base st \<and>
    (if h = -1 then cache st' = cache st else cache st' \<noteq> cache st \<and> cache_inv st' (users(h := users h + 1)))"
proof (cases "first_index (\<lambda>e. ce_path e = path) (cache st)")
  case None
  then show ?thesis using assms(2) by (auto simp: reuse_handle_def find_simps)
next
  case (Some k)
  let ?e = "cache st ! k"
  have k: "k < length (cache st)" using first_index_Some [OF Some] by simp
  note e = inv_elem [OF assms(1) k, unfolded elem_ok_def]
  obtain n where n: "cint_add (ce_refCount ?e) 1 = Some n" "h = ce_handle ?e"
      "st' = CachedSftpClient_unlock (upd_elem k (\<lambda>e. e\<lparr>ce_refCount := n\<rparr>) (CachedSftpClient_lock st))"
    using assms(2) Some e by (auto simp: reuse_handle_def find_simps Let_def bind_eq_Some_conv)
  have n1: "n = ce_refCount ?e + 1" using n(1) by (simp add: cint_add_def split: if_splits)
  have "cache st' ! k \<noteq> cache st ! k"
    using k n1 by (auto simp: n(3) dest!: arg_cong [of _ _ ce_refCount])
  moreover have "cache_inv (upd_elem k (\<lambda>e. e\<lparr>ce_refCount := n\<rparr>) (CachedSftpClient_lock st)) (users(h := users h + 1))"
    using assms(1) k e by (intro inv_update) (auto simp: n(2) n1 elem_ok_def)
  ultimately show ?thesis using e by (auto simp: n(2,3))
qed

lemma inv_opendir:
  assumes "cache_inv st users" "okp path" "CachedSftpClient_opendir ops path st = Some (h, st')"
  shows "cache_inv st' (if h = -1 then users else users(h := users h + 1))"
proof -
  obtain h1 st1 where r: "reuse_handle path st = Some (h1, st1)"
    using assms(3) by (auto simp: CachedSftpClient_opendir_def bind_eq_Some_conv)
  note u = inv_reuse [OF assms(1) r]
  show ?thesis
  proof (cases "h1 = -1")
    case False
    then show ?thesis using assms(3) r u by (simp add: CachedSftpClient_opendir_def)
  next
    case True
    then obtain c where c: "b_opendir ops path (base st) = Some (h, c)"
        "st' = (if h \<noteq> -1 then add_element path h (st1\<lparr>base := c\<rparr>) else st1\<lparr>base := c\<rparr>)"
      using assms(3) r u by (auto simp: CachedSftpClient_opendir_def bind_eq_Some_conv Let_def)
    have i: "ok (base st)" "handles_ok (cache st) (opened (base st)) users" using assms(1) by (simp_all add: cache_inv_def)
    note law = opendir_law [OF i(1) assms(2) c(1)]
    show ?thesis
      using law c(2) u True handles_ok_fresh(1) [OF i(2), of h path] handles_ok_more [OF i(2)]
      by (cases "h = -1") (auto simp: cache_inv_def add_element_def)
  qed
qed

lemma inv_createfile:
  assumes "cache_inv st users" "okp path" "CachedSftpClient_createfile ops path a s cr f d st = Some (h, d', st')"
  shows "cache_inv st' (if cache st' = cache st \<and> opened (base st') = opened (base st) then users else users(h := users h + 1))"
proof -
  obtain h1 st1 where r: "reuse_handle path st = Some (h1, st1)"
    using assms(3) by (auto simp: CachedSftpClient_createfile_def bind_eq_Some_conv)
  note u = inv_reuse [OF assms(1) r]
  show ?thesis
  proof (cases "h1 = -1")
    case False
    then show ?thesis using assms(3) r u by (auto simp: CachedSftpClient_createfile_def)
  next
    case True
    then obtain x c where c: "b_createfile ops path a s cr f (Some 0) (base st) = Some (h, Some x, c)"
        "st' = (if h \<noteq> -1 \<and> x \<noteq> 0 then add_element path h (st1\<lparr>base := c\<rparr>) else st1\<lparr>base := c\<rparr>)"
      using assms(3) r u by (auto simp: CachedSftpClient_createfile_def bind_eq_Some_conv Let_def)
    have i: "ok (base st)" "handles_ok (cache st) (opened (base st)) users" using assms(1) by (simp_all add: cache_inv_def)
    note law = createfile_law [OF i(1) assms(2) c(1)]
    show ?thesis
    proof (cases "x = 0 \<and> opened c = opened (base st)")
      case same: True
      then show ?thesis using law c(2) u True i by (simp add: cache_inv_def)
    next
      case False
      then have n: "h \<notin> opened (base st)" "opened c = insert h (opened (base st))" using law by auto
      have "cache st' = cache st \<and> opened (base st') = opened (base st) \<longleftrightarrow> False"
        using n c(2) u True by (auto simp: add_element_def)
      moreover have "cache_inv st' (users(h := users h + 1))"
        using n law c(2) u True handles_ok_fresh [OF i(2) n(1)] by (auto simp: cache_inv_def add_element_def)
      ultimately show ?thesis by (simp only: if_False)
    qed
  qed
qed

lemma inv_drop:
  assumes "cache_inv st users" "distinct (map ce_handle es)" "set es \<subseteq> set (cache st)"
    "\<And>e. e \<in> set (cache st) - set es \<Longrightarrow> ce_refCount e = 0" "ok c"
    "opened (base st) - ce_handle ` (set (cache st) - set es) \<subseteq> opened c" "cache st' = es" "base st' = c"
  shows "cache_inv st' users"
  using handles_ok_drop [of "cache st" "opened (base st)" users es "opened c"] assms by (simp add: cache_inv_def)

lemma inv_remove:
  assumes "cache_inv st users" "remove_if_unused ops (first_index P (cache st), st1) = Some st'" "cache st1 = cache st" "base st1 = base st"
  shows "cache_inv st' users"
proof (cases "first_index P (cache st)")
  case None
  then show ?thesis using assms by (simp add: remove_if_unused_def cache_inv_def)
next
  case (Some k)
  let ?e = "cache st ! k" and ?es = "erase k (cache st)"
  have k: "k < length (cache st)" using first_index_Some [OF Some] by simp
  note e = inv_elem [OF assms(1) k, unfolded elem_ok_def]
  show ?thesis
  proof (cases "ce_refCount ?e = 0")
    case False
    then show ?thesis using assms Some by (auto simp: remove_if_unused_def Let_def cache_inv_def)
  next
    case True
    then obtain rc c where c: "b_close ops (ce_handle ?e) (base st) = Some (rc, c)" "base st' = c" "cache st' = ?es"
      using assms(2-4) Some e by (auto simp: remove_if_unused_def Let_def CachedSftpClient_realclose_def bind_eq_Some_conv)
    have i: "ok (base st)" "distinct (map ce_handle (cache st))" using assms(1) by (simp_all add: cache_inv_def handles_ok_def)
    have d: "distinct (cache st)" using i(2) by (simp add: distinct_map)
    have "distinct (map ce_handle ?es)" using distinct_erase(1) [OF i(2)] k by (simp add: map_erase)
    moreover have "set (cache st) - set ?es = {?e}" using distinct_erase(2) [OF d k] nth_mem [OF k] by auto
    ultimately show ?thesis
      using close_law [OF i(1) _ c(1)] e True distinct_erase(2) [OF d k]
      by (intro inv_drop [OF assms(1), of ?es c st']) (auto simp: c)
  qed
qed

lemma inv_remove_path:
  "cache_inv st users \<Longrightarrow> CachedSftpClient_removeUnusedHandle_path ops path st = Some st' \<Longrightarrow> cache_inv st' users"
  using inv_remove [of st users "\<lambda>e. ce_path e = path" _ st']
  by (auto simp: CachedSftpClient_removeUnusedHandle_path_def find_simps split: option.splits)

lemma inv_close:
  assumes "cache_inv st users" "CachedSftpClient_close ops h st = Some st'" "0 < users h"
  shows "cache_inv st' (users(h := users h - 1))"
proof (cases "first_index (\<lambda>e. ce_handle e = h) (cache st)")
  case None
  then obtain rc c where c: "b_close ops h (base st) = Some (rc, c)" "base st' = c" "cache st' = cache st"
    using assms(2) by (auto simp: CachedSftpClient_close_def find_simps CachedSftpClient_realclose_def bind_eq_Some_conv)
  have "h \<notin> ce_handle ` set (cache st)" using None by (auto simp: first_index_None)
  moreover have "h \<in> opened (base st)" using assms(1,3) by (simp add: cache_inv_def handles_ok_def)
  ultimately show ?thesis
    using handles_ok_close close_law [OF _ _ c(1)] assms(1) c(2,3) by (auto simp: cache_inv_def)
next
  case (Some k)
  let ?e = "cache st ! k"
  have k: "k < length (cache st)" "ce_handle ?e = h" using first_index_Some [OF Some] by simp_all
  note e = inv_elem [OF assms(1) k(1), unfolded elem_ok_def]
  obtain n where n: "cint_add (ce_refCount ?e) (-1) = Some n" and st': "st' = CachedSftpClient_unlock (CachedSftpClient_unlock
        (upd_elem k (\<lambda>e. e\<lparr>ce_refCount := n, ce_closeTime := Some (b_time ops (base st))\<rparr>) (CachedSftpClient_lock st)))"
    using assms(2) Some e by (auto simp: CachedSftpClient_close_def find_simps bind_eq_Some_conv)
  have n1: "n = ce_refCount ?e - 1" using n by (simp add: cint_add_def split: if_splits)
  have "cache_inv (upd_elem k (\<lambda>e. e\<lparr>ce_refCount := n, ce_closeTime := Some (b_time ops (base st))\<rparr>)
      (CachedSftpClient_lock st)) (users(h := users h - 1))"
    using assms(1,3) k e by (intro inv_update) (auto simp: n1 elem_ok_def)
  then show ?thesis by (simp add: st')
qed

text \<open>Changes of an element that the invariant does not see.\<close>

lemma inv_remember:
  assumes "cache_inv st users" "k < length (cache st)"
    "\<And>e. ce_handle (f e) = ce_handle e" "\<And>e. ce_isDir (f e) = ce_isDir e" "\<And>e. ce_refCount (f e) = ce_refCount e"
    "\<And>e. ce_closeTime (f e) = ce_closeTime e"
  shows "cache_inv (upd_elem k f st) users"
  using inv_update [OF assms(1,2), of f "ce_handle (cache st ! k)" "users (ce_handle (cache st ! k))"]
    inv_elem [OF assms(1,2)] assms(3-6) by (simp add: elem_ok_def)

lemma inv_readdir_reuse:
  assumes "cache_inv st users" "readdir_reuse ops h data st = Some (ret, data', st')"
  shows "cache_inv st' users"
proof (cases "first_index (\<lambda>e. ce_handle e = h) (cache st)")
  case None
  then show ?thesis using assms by (auto simp: readdir_reuse_def find_simps)
next
  case (Some k)
  have k: "k < length (cache st)" using first_index_Some [OF Some] by simp
  obtain st1 where st1: "st' = CachedSftpClient_unlock (upd_elem k (\<lambda>e. e\<lparr>ce_readdirCalled := 1\<rparr>) st1)"
      "st1 = CachedSftpClient_lock st \<or>
        (\<exists>rc c. b_resetdir ops h (base st) = Some (rc, c) \<and> st1 = (CachedSftpClient_lock st)\<lparr>base := c\<rparr>)"
    using assms(2) Some by (auto simp: readdir_reuse_def find_simps Let_def bind_eq_Some_conv split: if_splits)
  have "ok (base st)" using assms(1) by (simp add: cache_inv_def)
  then have "cache_inv st1 users" "cache st1 = cache st"
    using st1(2) assms(1) resetdir_law inv_base [OF assms(1), of _ st1] by auto
  then show ?thesis using inv_remember [of st1 users k "\<lambda>e. e\<lparr>ce_readdirCalled := 1\<rparr>"] k st1(1) by simp
qed

lemma inv_readdir_store:
  assumes "cache_inv st users"
  shows "cache_inv (readdir_store ops h data st) users"
proof (cases "first_index (\<lambda>e. ce_handle e = h) (cache st)")
  case None
  then show ?thesis using assms by (simp add: readdir_store_def find_simps)
next
  case (Some k)
  then show ?thesis
    using assms first_index_Some [OF Some] by (simp add: readdir_store_def find_simps inv_remember)
qed

lemma inv_readdir:
  assumes "cache_inv st users" "CachedSftpClient_readdir ops h data st = Some (ret, data', st')"
  shows "cache_inv st' users"
proof -
  obtain ret1 data1 st1 where r: "readdir_reuse ops h data st = Some (ret1, data1, st1)"
    using assms(2) by (auto simp: CachedSftpClient_readdir_def bind_eq_Some_conv)
  have i: "cache_inv st1 users" using inv_readdir_reuse [OF assms(1) r] .
  show ?thesis
  proof (cases "ret1 = -1")
    case True
    then obtain c where c: "b_readdir ops h (base st1) = Some (ret, data', c)"
        "st' = (if ret = 0 then readdir_store ops h data' (st1\<lparr>base := c\<rparr>) else st1\<lparr>base := c\<rparr>)"
      using assms(2) r by (auto simp: CachedSftpClient_readdir_def bind_eq_Some_conv Let_def)
    have "cache_inv (st1\<lparr>base := c\<rparr>) users"
      using readdir_law [OF _ c(1)] i inv_base [OF i, of c "st1\<lparr>base := c\<rparr>"] by (simp add: cache_inv_def)
    then show ?thesis using c(2) inv_readdir_store by simp
  qed (use assms(2) r i in \<open>simp add: CachedSftpClient_readdir_def\<close>)
qed

lemma inv_clean:
  assumes "cache_inv st users" "CachedSftpClient_cleanerLoop ops now st = Some st'"
  shows "cache_inv st' users"
proof -
  let ?x = "expired now" and ?es = "filter (\<lambda>e. \<not> expired now e) (cache st)"
  have i: "ok (base st)" "handles_ok (cache st) (opened (base st)) users" using assms(1) by (simp_all add: cache_inv_def)
  have c: "clean_loop now (cache st) = Some (map ce_handle (filter ?x (cache st)), ?es)"
    using i(2) by (intro clean_loop_filter) (auto simp: handles_ok_def elem_ok_def)
  have gone: "set (cache st) - set ?es = set (filter ?x (cache st))" by auto
  obtain c' where c': "cache st' = ?es" "base st' = c'" "ok c'" "opened (base st) - ce_handle ` (set (cache st) - set ?es) \<subseteq> opened c'"
  proof (cases "filter ?x (cache st) = []")
    case True
    then show thesis using that [of "base st"] assms(2) c i(1) by (auto simp: CachedSftpClient_cleanerLoop_def Let_def)
  next
    case False
    then obtain rc c1 where "b_multiclose ops (map ce_handle (filter ?x (cache st))) (base st) = Some (rc, c1)"
        "cache st' = ?es" "base st' = c1"
      using assms(2) c by (auto simp: CachedSftpClient_cleanerLoop_def Let_def bind_eq_Some_conv)
    moreover have "distinct (map ce_handle (filter ?x (cache st)))" "set (map ce_handle (filter ?x (cache st))) \<subseteq> opened (base st)"
      using i(2) by (auto simp: handles_ok_def elem_ok_def distinct_map_filter)
    moreover from calculation(4,5,1) have "ok c1 \<and> opened (base st) - set (map ce_handle (filter ?x (cache st))) \<subseteq> opened c1"
      by (rule multiclose_law [OF i(1)])
    ultimately show thesis using that [of c1] gone by simp
  qed
  have "distinct (map ce_handle ?es)" using i(2) by (simp add: handles_ok_def distinct_map_filter)
  then show ?thesis
    using gone by (intro inv_drop [OF assms(1) _ _ _ c'(3,4,1,2)]) (auto simp: expired_def)
qed

lemma inv_on_base:
  assumes "cache_inv st users" "on_base f st = Some (rc, st')"
    "\<And>c rc c'. ok c \<Longrightarrow> f c = Some (rc, c') \<Longrightarrow> ok c' \<and> opened c \<subseteq> opened c'"
  shows "cache_inv st' users"
proof -
  obtain c where c: "f (base st) = Some (rc, c)" "st' = st\<lparr>base := c\<rparr>"
    using assms(2) by (auto simp: on_base_def bind_eq_Some_conv)
  then show ?thesis using assms(3) [OF _ c(1)] inv_base [OF assms(1), of c st'] assms(1) by (simp add: cache_inv_def)
qed

lemma inv_remove_then:
  assumes "cache_inv st users" "do { st \<leftarrow> CachedSftpClient_removeUnusedHandle_path ops path st; on_base f st } = Some (rc, st')"
    "\<And>c rc c'. ok c \<Longrightarrow> f c = Some (rc, c') \<Longrightarrow> ok c' \<and> opened c \<subseteq> opened c'"
  shows "cache_inv st' users"
proof -
  obtain st1 where r: "CachedSftpClient_removeUnusedHandle_path ops path st = Some st1" "on_base f st1 = Some (rc, st')"
    using assms(2) by (auto simp: bind_eq_Some_conv)
  show ?thesis by (rule inv_on_base [OF inv_remove_path [OF assms(1) r(1)] r(2)]) (rule assms(3))
qed

lemma inv_mkdir:
  "cache_inv st users \<Longrightarrow> okp path \<Longrightarrow> CachedSftpClient_mkdir ops path st = Some (rc, st') \<Longrightarrow> cache_inv st' users"
  unfolding CachedSftpClient_mkdir_def by (erule (1) inv_remove_then) (rule mkdir_law)

lemma inv_rmdir:
  "cache_inv st users \<Longrightarrow> okp path \<Longrightarrow> CachedSftpClient_rmdir ops path st = Some (rc, st') \<Longrightarrow> cache_inv st' users"
  unfolding CachedSftpClient_rmdir_def by (erule (1) inv_remove_then) (rule rmdir_law)

lemma inv_rename:
  assumes "cache_inv st users" "okp p" "okp q" "CachedSftpClient_rename ops p q st = Some (rc, st')"
  shows "cache_inv st' users"
proof -
  obtain st1 st2 where "CachedSftpClient_removeUnusedHandle_path ops p st = Some st1"
      "CachedSftpClient_removeUnusedHandle_path ops q st1 = Some st2" and r: "on_base (b_rename ops p q) st2 = Some (rc, st')"
    using assms(4) by (auto simp: CachedSftpClient_rename_def bind_eq_Some_conv)
  then have "cache_inv st2 users" using inv_remove_path assms(1) by blast
  then show ?thesis using inv_on_base [OF _ r] rename_law assms(2,3) by blast
qed

lemma inv_statvfs:
  assumes "cache_inv st users" "okp path" "CachedSftpClient_statvfs ops path st = Some (ret, vs, st')"
  shows "cache_inv st' users"
proof -
  consider "cache st' = cache st" "base st' = base st"
    | c where "b_statvfs ops path (base st) = Some (ret, vs, c)" "cache st' = cache st" "base st' = c"
    using assms(3) by (auto simp: CachedSftpClient_statvfs_def Let_def bind_eq_Some_conv split: option.splits if_splits)
  then show ?thesis
  proof cases
    case 2
    then show ?thesis using statvfs_law [OF _ assms(2)] assms(1) inv_base [OF assms(1), of "base st'" st'] by (auto simp: cache_inv_def)
  qed (use assms(1) in \<open>simp add: cache_inv_def\<close>)
qed

lemma inv_step:
  assumes "cache_step ops okp opened s s'" "cache_inv (fst s) (snd s)"
  shows "cache_inv (fst s') (snd s')"
  using assms
proof cases
  case (step_opendir path st h st' users)
  then show ?thesis using inv_opendir assms(2) by simp
next
  case (step_createfile path st a s c f d h d' st' users)
  then show ?thesis using inv_createfile assms(2) by auto
next
  case (step_rename path path2 st rc st' users)
  then show ?thesis using inv_rename assms(2) by simp
next
  case (step_close users h st st')
  then show ?thesis using inv_close assms(2) by simp
next
  case (step_readdir h data st ret data' st' users)
  then show ?thesis using inv_readdir assms(2) by simp
next
  case (step_mkdir path st rc st' users)
  then show ?thesis using inv_mkdir assms(2) by simp
next
  case (step_rmdir path st rc st' users)
  then show ?thesis using inv_rmdir assms(2) by simp
next
  case (step_statvfs path st ret vs st' users)
  then show ?thesis using inv_statvfs assms(2) by simp
next
  case (step_clean now st st' users)
  then show ?thesis using inv_clean assms(2) by simp
qed

end

sublocale handle_base \<subseteq> steps: step_invariant "cache_step ops okp opened" "\<lambda>s. cache_inv (fst s) (snd s)"
  by unfold_locales (rule inv_step)

context handle_base
begin

text \<open>No handle that somebody uses is ever closed on the server.\<close>

lemma reachable_handles:
  assumes "ok c" "(cache_step ops okp opened)\<^sup>*\<^sup>* (CachedSftpClient_new c, \<lambda>_. 0) (st, users)"
  shows "handles_ok (cache st) (opened (base st)) users"
  using steps.inv_reachable [OF assms(2)] inv_new [OF assms(1)] by (simp add: cache_inv_def)

end

section \<open>Properties\<close>

lemma first_index_upd:
  assumes "\<And>e. P (f e) = P e"
  shows "first_index P (es[k := f (es ! k)]) = first_index P es"
proof (induction es arbitrary: k)
  case (Cons e es)
  then show ?case using assms by (cases k) simp_all
qed simp

text \<open>
  Listings: after a listing was fetched from the server, a second call for the same handle
  less than a second later returns the same elements without a request, and takes and gives back the
  lock; the first call asks the server after it has set the directory back to its start if it was
  listed before.
\<close>

theorem listing_reused:
  assumes "readdir_reuse ops h data st = Some (-1, data1, st1)" "b_readdir ops h (base st1) = Some (0, d, c1)"
    "h \<in> ce_handle ` set (cache st)" "b_time ops c2 - b_time ops c1 < 1"
  shows "\<exists>st2 st3. CachedSftpClient_readdir ops h data st = Some (0, d, st2) \<and>
    CachedSftpClient_readdir ops h data2 (st2\<lparr>base := c2\<rparr>) = Some (0, d, st3) \<and> base st3 = c2 \<and>
    lock_count st2 = lock_count st \<and> lock_count st3 = lock_count st"
proof -
  let ?P = "\<lambda>e. ce_handle e = h"
  obtain k where k: "first_index ?P (cache st) = Some k"
    using assms(3) by (cases "first_index ?P (cache st)") (auto simp: first_index_None)
  note kk = first_index_Some [OF k]
  have c1: "cache st1 = (cache st)[k := (cache st ! k)\<lparr>ce_readdirCalled := 1\<rparr>]" "lock_count st1 = lock_count st"
    using assms(1) k by (auto simp: readdir_reuse_def find_simps Let_def bind_eq_Some_conv split: if_splits)
  have k1: "first_index ?P (cache st1) = Some k"
    using first_index_upd [of ?P "\<lambda>e. e\<lparr>ce_readdirCalled := 1\<rparr>" "cache st" k] k c1(1) by simp
  let ?f = "\<lambda>e. e\<lparr>ce_findData := d, ce_findTime := Some (b_time ops c1)\<rparr>"
  define st2 where "st2 = readdir_store ops h d (st1\<lparr>base := c1\<rparr>)"
  have s2: "cache st2 = (cache st1)[k := ?f (cache st1 ! k)]" "lock_count st2 = lock_count st"
    using k1 c1(2) by (simp_all add: st2_def readdir_store_def find_simps)
  have k2: "first_index ?P (cache st2) = Some k" using first_index_upd [of ?P ?f "cache st1" k] k1 s2(1) by simp
  have e2: "ce_readdirCalled (cache st2 ! k) = 1" "ce_findTime (cache st2 ! k) = Some (b_time ops c1)" "ce_findData (cache st2 ! k) = d"
    using kk c1(1) s2(1) by simp_all
  have one: "CachedSftpClient_readdir ops h data st = Some (0, d, st2)"
    using assms(1,2) by (simp add: CachedSftpClient_readdir_def st2_def Let_def)
  define st3 where "st3 = CachedSftpClient_unlock (upd_elem k (\<lambda>e. e\<lparr>ce_readdirCalled := 1\<rparr>) (CachedSftpClient_lock (st2\<lparr>base := c2\<rparr>)))"
  have "readdir_reuse ops h data2 (st2\<lparr>base := c2\<rparr>) = Some (0, d, st3)"
    using k2 e2 assms(4) by (simp add: readdir_reuse_def find_simps Let_def st3_def)
  then have "CachedSftpClient_readdir ops h data2 (st2\<lparr>base := c2\<rparr>) = Some (0, d, st3)"
    by (simp add: CachedSftpClient_readdir_def)
  then show ?thesis using one s2(2) by (auto simp: st3_def)
qed

text \<open>A base class whose directories are all empty, for examples.\<close>

definition demo_base :: "int \<Rightarrow> (int, nat) base_ops" where
  "demo_base rc = \<lparr>b_time = (\<lambda>t. t), b_opendir = (\<lambda>p t. Some (7, t)), b_createfile = (\<lambda>p a s c f d t. Some (7, Some 1, t)),
     b_close = (\<lambda>h t. Some (0, t)), b_multiclose = (\<lambda>hs t. Some (0, t)), b_resetdir = (\<lambda>h t. Some (0, t)),
     b_readdir = (\<lambda>h t. Some (rc, [], t)), b_mkdir = (\<lambda>p t. Some (0, t)), b_rmdir = (\<lambda>p t. Some (0, t)),
     b_rename = (\<lambda>p q t. Some (0, t)), b_statvfs = (\<lambda>p t. Some (0, [], t))\<rparr>"

definition demo_cache :: "(int, nat) CachedSftpClient" where
  "demo_cache = (CachedSftpClient_new 5)\<lparr>cache := [new_element [47] 7]\<rparr>"

theorem listing_reused_witness:
  "\<exists>st2 st3. CachedSftpClient_readdir (demo_base 0) 7 [1] demo_cache = Some (0, [], st2) \<and>
    CachedSftpClient_readdir (demo_base 0) 7 [2] (st2\<lparr>base := 5\<rparr>) = Some (0, [], st3)"
proof -
  obtain data1 st1 where "readdir_reuse (demo_base 0) 7 [1] demo_cache = Some (-1, data1, st1)"
    by (simp add: readdir_reuse_def find_simps demo_cache_def new_element_def CachedSftpClient_new_def Let_def)
  moreover have "b_readdir (demo_base 0) 7 (base st1) = Some (0, [], base st1)" "base st1 = 5"
    using calculation by (auto simp: demo_base_def readdir_reuse_def find_simps demo_cache_def new_element_def
        CachedSftpClient_new_def Let_def)
  ultimately show ?thesis
    using listing_reused [of "demo_base 0" 7 "[1]" demo_cache data1 st1 "[]" "base st1" 5 "[2]"]
    by (auto simp: demo_cache_def new_element_def demo_base_def)
qed

text \<open>
  Where the cache goes wrong. \<open>close\<close> gives the lock back once more than it took it, always.
  When the first listing of a directory fails, the second call reads a time that was never assigned.
  \<open>createfile\<close> does not tell that a reused handle is a directory. A directory that is in use keeps its
  old path when it is renamed, so that opening this path later gives the handle of the moved directory.
\<close>

theorem cache_defects:
  assumes "first_index (\<lambda>e. ce_handle e = h) (cache st) = Some k" "cache st ! k = new_element path h" "h \<noteq> -1"
    "b_readdir ops h (base st) = Some (rc, d, c1)" "rc \<noteq> 0"
    "first_index (\<lambda>e. ce_path e = path) (cache st) = Some k" "path2 \<notin> ce_path ` set (cache st)"
    "b_rename ops path path2 (base st) = Some (code, c2)"
  shows "(\<forall>g st'. CachedSftpClient_close ops g st = Some st' \<longrightarrow> lock_count st' = lock_count st - 1) \<and>
    (\<exists>st'. CachedSftpClient_readdir ops h data st = Some (rc, d, st') \<and> CachedSftpClient_readdir ops h data st' = None) \<and>
    (\<exists>st'. CachedSftpClient_createfile ops path a s cr f isDir st = Some (h, isDir, st')) \<and>
    (\<exists>st1 st2. CachedSftpClient_rename ops path path2 st = Some (code, st1) \<and> CachedSftpClient_opendir ops path st1 = Some (h, st2))"
proof (intro conjI allI impI)
  fix g st'
  assume "CachedSftpClient_close ops g st = Some st'"
  then show "lock_count st' = lock_count st - 1"
    by (cases "first_index (\<lambda>e. ce_handle e = g) (cache st)")
      (auto simp: CachedSftpClient_close_def find_simps CachedSftpClient_realclose_def bind_eq_Some_conv split: if_splits)
next
  let ?f = "\<lambda>e. e\<lparr>ce_readdirCalled := 1\<rparr>"
  define st1 where "st1 = CachedSftpClient_unlock (upd_elem k ?f (CachedSftpClient_lock st))"
  have r: "readdir_reuse ops h data st = Some (-1, data, st1)"
    using assms(1,2) by (simp add: readdir_reuse_def find_simps Let_def st1_def new_element_def)
  have "first_index (\<lambda>e. ce_handle e = h) (cache st1) = Some k"
    using first_index_upd [of "\<lambda>e. ce_handle e = h" ?f "cache st" k] assms(1) by (simp add: st1_def)
  moreover have "ce_readdirCalled (cache st1 ! k) = 1" "ce_findTime (cache st1 ! k) = None"
    using first_index_Some [OF assms(1)] assms(2) by (simp_all add: st1_def new_element_def)
  ultimately have "readdir_reuse ops h data (st1\<lparr>base := c1\<rparr>) = None" by (simp add: readdir_reuse_def find_simps)
  then show "\<exists>st'. CachedSftpClient_readdir ops h data st = Some (rc, d, st') \<and> CachedSftpClient_readdir ops h data st' = None"
    using r assms(4,5) by (intro exI [of _ "st1\<lparr>base := c1\<rparr>"]) (simp add: CachedSftpClient_readdir_def st1_def)
next
  have reuse: "\<exists>st'. reuse_handle path x = Some (h, st')" if "cache x = cache st" for x
    using assms(2,6) that by (simp add: reuse_handle_def find_simps new_element_def cint_add_def)
  then show "\<exists>st'. CachedSftpClient_createfile ops path a s cr f isDir st = Some (h, isDir, st')"
    using assms(3) by (fastforce simp: CachedSftpClient_createfile_def)
  have n: "first_index (\<lambda>e. ce_path e = path2) (cache st) = None" using assms(7) by (auto simp: first_index_None)
  define st1 where "st1 = (CachedSftpClient_unlock (CachedSftpClient_lock (CachedSftpClient_unlock (CachedSftpClient_lock st))))\<lparr>base := c2\<rparr>"
  have "CachedSftpClient_rename ops path path2 st = Some (code, st1)"
    using assms(2,6,8) n
    by (simp add: CachedSftpClient_rename_def CachedSftpClient_removeUnusedHandle_path_def find_simps remove_if_unused_def
        new_element_def on_base_def st1_def Let_def)
  moreover obtain st2 where "reuse_handle path st1 = Some (h, st2)" using reuse [of st1] by (auto simp: st1_def)
  ultimately show "\<exists>st1 st2. CachedSftpClient_rename ops path path2 st = Some (code, st1) \<and> CachedSftpClient_opendir ops path st1 = Some (h, st2)"
    using assms(3) by (auto simp: CachedSftpClient_opendir_def)
qed

theorem cache_defects_witness:
  "\<exists>st'. CachedSftpClient_readdir (demo_base (-1)) 7 [1] demo_cache = Some (-1, [], st') \<and>
     CachedSftpClient_readdir (demo_base (-1)) 7 [1] st' = None"
  using cache_defects [of 7 demo_cache 0 "[47]" "demo_base (-1)" "-1" "[]" 5 "[48]" 0 5 "[1]" 0 0 0 0 None]
  by (simp add: demo_cache_def new_element_def demo_base_def CachedSftpClient_new_def)

end
