(* ===== verification/Sftp_Cached_Session.thy ===== *)
theory Sftp_Cached_Session
  imports Sftp_Cache
begin

text \<open>
  The caching client on top of the modelled client and a server of handles. The locale
  \<open>handle_server\<close> says what the protocol asks of the server; from it follows the contract
  \<open>handle_base\<close> for the methods of the client, and with it what the cache promises.
\<close>

section \<open>The base class\<close>

definition client_ops :: "'w os \<Rightarrow> ('w \<Rightarrow> int) \<Rightarrow> ('w sftp, SftpFileInfo) base_ops" where
  "client_ops os clock = \<lparr>b_time = (\<lambda>c. clock (world c)), b_opendir = SftpClient_opendir os,
     b_createfile = SftpClient_createfile os, b_close = SftpClient_close os,
     b_multiclose = SftpClient_multiclose os, b_resetdir = SftpClient_resetdir os,
     b_readdir = SftpClient_readdir os, b_mkdir = SftpClient_mkdir os, b_rmdir = SftpClient_rmdir os,
     b_rename = SftpClient_rename os, b_statvfs = SftpClient_statvfs os\<rparr>"

lemma client_ops_simps [simp]:
  "b_opendir (client_ops os clock) = SftpClient_opendir os" "b_createfile (client_ops os clock) = SftpClient_createfile os"
  "b_close (client_ops os clock) = SftpClient_close os" "b_multiclose (client_ops os clock) = SftpClient_multiclose os"
  "b_resetdir (client_ops os clock) = SftpClient_resetdir os" "b_readdir (client_ops os clock) = SftpClient_readdir os"
  "b_mkdir (client_ops os clock) = SftpClient_mkdir os" "b_rmdir (client_ops os clock) = SftpClient_rmdir os"
  "b_rename (client_ops os clock) = SftpClient_rename os" "b_statvfs (client_ops os clock) = SftpClient_statvfs os"
  by (simp_all add: client_ops_def)

text \<open>A session that works, or one that has ended; a path that fits into a packet.\<close>

definition session_ok :: "'s loop_world sftp \<Rightarrow> bool" where
  "session_ok c \<longleftrightarrow> quiet c \<or> dead c"

definition short_path :: "byte list \<Rightarrow> bool" where
  "short_path p \<longleftrightarrow> length p \<le> 30000"

section \<open>Servers of handles\<close>

text \<open>What one request does to the open handles of the server, given its answer.\<close>

definition handle_effect ::
    "('s \<Rightarrow> int set) \<Rightarrow> 's \<Rightarrow> byte \<Rightarrow> byte list \<Rightarrow> 's \<Rightarrow> byte \<Rightarrow> byte list \<Rightarrow> bool" where
  "handle_effect opens s ty body s' ty' body' \<longleftrightarrow>
     (if ty = SSH2_FXP_OPENDIR \<and> ty' = SSH2_FXP_HANDLE then
        \<exists>h. body' = be32 4 @ be32 h \<and> uint h \<notin> opens s \<and> opens s' = insert (uint h) (opens s)
      else if ty = SSH2_FXP_DIRLIGO_CREATEFILE \<and> ty' = SSH2_FXP_HANDLE then
        \<exists>h. body' = be32 4 @ be32 h \<and>
          (if 0 \<le> sint h
           then sint h AND NOT SSH2_FXP_DIRLIGO_DIR_FLAG \<notin> opens s \<and>
                opens s' = insert (sint h AND NOT SSH2_FXP_DIRLIGO_DIR_FLAG) (opens s)
           else opens s' = opens s)
      else if ty = SSH2_FXP_CLOSE then \<forall>w. body = be32 4 @ be32 w \<longrightarrow> opens s - {uint w} \<subseteq> opens s'
      else if ty = SSH2_FXP_DIRLIGO_MULTICLOSE then
        \<forall>ws. body = be32 (word_of_nat (length ws)) @ concat (map be32 ws) \<longrightarrow> opens s - uint ` set ws \<subseteq> opens s'
      else opens s' = opens s)"

lemmas not_handle_types = SSH2_FXP_OPENDIR_def SSH2_FXP_DIRLIGO_CREATEFILE_def SSH2_FXP_CLOSE_def
  SSH2_FXP_DIRLIGO_MULTICLOSE_def SSH2_FXP_MKDIR_def SSH2_FXP_RMDIR_def SSH2_FXP_RENAME_def
  SSH2_FXP_DIRLIGO_RESETDIR_def SSH2_FXP_EXTENDED_def SSH2_FXP_DIRLIGO_READDIR_SHORT_def

text \<open>
  The server answers every request with a packet of the same number that fits into the client's
  buffer, has a bounded number of open handles, and changes them as above.
\<close>

locale handle_server =
  fixes srv :: "'s \<Rightarrow> byte list \<Rightarrow> 's \<times> byte list"
    and opens :: "'s \<Rightarrow> int set"
  assumes answers: "\<exists>s' ty' body'. srv s (frame ident ty body) = (s', frame ident ty' body') \<and>
      length body' + 9 \<le> 65536 \<and> handle_effect opens s ty body s' ty' body'"
    and handles_few: "finite (opens s)" "card (opens s) \<le> 15000"
    and handles_u32: "h \<in> opens s \<Longrightarrow> 0 \<le> h \<and> h < 2 ^ 32"
begin

abbreviation opened_of :: "'s loop_world sftp \<Rightarrow> int set" where
  "opened_of c \<equiv> opens (fst (world c))"

lemma request:
  assumes "quiet c" "counter c < int_max" "length body + 9 \<le> 100000"
  obtains ty' body' c' where
    "SftpClient_processPacket (loop_os srv chunk) (frame (word_of_int (counter c)) ty body) (c\<lparr>counter := counter c + 1\<rparr>) =
       Some (0, frame (word_of_int (counter c)) ty' body', spent chunk c c', c')"
    "quiet c'" "length body' + 9 \<le> 65536" "handle_effect opens (fst (world c)) ty body (fst (world c')) ty' body'"
proof -
  obtain s' ty' body' where a: "srv (fst (world c)) (frame (word_of_int (counter c)) ty body) = (s', frame (word_of_int (counter c)) ty' body')"
      "length body' + 9 \<le> 65536" "handle_effect opens (fst (world c)) ty body s' ty' body'"
    using answers by blast
  then show thesis
    using exchange [where srv = srv and chunk = chunk, OF assms(1,2) refl assms(3) a(1,2)] that by blast
qed

lemma number:
  assumes "quiet c" "GenerateUniqueId c = Some (i, c')"
  shows "counter c < int_max" "i = counter c" "c' = c\<lparr>counter := counter c + 1\<rparr>"
  using assms by (auto simp: GenerateUniqueId_def cint_add_def split: if_splits)

lemma shutdown_keeps:
  "session_ok (SftpClient_shutdown c)" "fst (world (SftpClient_shutdown c)) = fst (world c)"
  by (simp_all add: session_ok_def SftpClient_shutdown_def)

text \<open>A session that has ended: only the counter moves.\<close>

lemma dead_number:
  assumes "dead c" "GenerateUniqueId c = Some (i, c')"
  shows "dead c'" "session_ok c'" "world c' = world c"
  using assms by (auto simp: GenerateUniqueId_def session_ok_def bind_eq_Some_conv)

lemma number_keeps:
  assumes "session_ok c" "GenerateUniqueId c = Some (i, c')"
  shows "session_ok c'" "world c' = world c"
proof -
  have "session_ok c' \<and> world c' = world c"
  proof (cases "dead c")
    case True
    then show ?thesis using dead_number [OF _ assms(2)] by simp
  next
    case False
    then have q: "quiet c" using assms(1) by (simp add: session_ok_def)
    note n = number [OF q assms(2)]
    show ?thesis using quiet_number(2) [OF q n(1)] n(3) by (simp add: session_ok_def)
  qed
  then show "session_ok c'" "world c' = world c" by simp_all
qed

lemma status_command_law:
  assumes "session_ok c" "status_command (loop_os srv chunk) sz ty items c = Some (rc, c')"
    "sz = word_of_nat (5 + length (items_bytes items))" "length (items_bytes items) + 9 \<le> 100000"
    "\<And>s' ty' body'. handle_effect opens (fst (world c)) ty (items_bytes items) s' ty' body' \<Longrightarrow> A \<subseteq> opens s'"
    "A \<subseteq> opened_of c"
  shows "session_ok c' \<and> A \<subseteq> opened_of c'"
proof -
  obtain i c1 where g: "GenerateUniqueId c = Some (i, c1)"
    using assms(2) by (auto simp: status_command_def bind_eq_Some_conv)
  show ?thesis
  proof (cases "dead c")
    case True
    note d = dead_number [OF True g]
    have "c' = c1" using assms(2) g d(1) by (simp add: status_command_def)
    then show ?thesis using d assms(6) by simp
  next
    case False
    then have q: "quiet c" using assms(1) by (simp add: session_ok_def)
    note n = number [OF q g]
    let ?id = "word_of_int (counter c) :: u32"
    obtain ty' body' c2 where r: "SftpClient_processPacket (loop_os srv chunk) (frame ?id ty (items_bytes items)) (c\<lparr>counter := counter c + 1\<rparr>) =
        Some (0, frame ?id ty' body', spent chunk c c2, c2)" "quiet c2" "length body' + 9 \<le> 65536"
        "handle_effect opens (fst (world c)) ty (items_bytes items) (fst (world c2)) ty' body'"
      using request [OF q n(1) assms(4)] .
    have "push_items [] ([Dword sz, Byte ty, Dword ?id] @ items) = Some (frame ?id ty (items_bytes items))"
      using push_frame [OF assms(3)] assms(4) by simp
    then have p: "SftpClient_popStatusPacket (frame ?id ty' body') ?id c2 = Some (rc, c')"
      using assms(2) g n r(1) False by (simp add: status_command_def Let_def)
    then have "c' = c2 \<or> c' = SftpClient_shutdown c2"
      using r(3) by (auto simp: SftpClient_popStatusPacket_def pop_dword_eq split: if_splits)
    moreover have "session_ok c2" using r(2) by (simp add: session_ok_def)
    ultimately show ?thesis using assms(5) [OF r(4)] by (auto simp: shutdown_keeps)
  qed
qed

lemma uint_handle: "h \<in> opens s \<Longrightarrow> uint (word_of_int h :: u32) = h"
  using handles_u32 [of h s] by (simp add: uint_word_of_int)

lemma close_keeps:
  assumes "session_ok c" "h \<in> opened_of c" "SftpClient_close (loop_os srv chunk) h c = Some (rc, c')"
  shows "session_ok c' \<and> opened_of c - {h} \<subseteq> opened_of c'"
  by (rule status_command_law [OF assms(1) assms(3) [unfolded SftpClient_close_def]])
    (use uint_handle [OF assms(2)] in \<open>auto simp: handle_effect_def SSH2_FXP_OPENDIR_def SSH2_FXP_CLOSE_def SSH2_FXP_DIRLIGO_CREATEFILE_def\<close>)

lemma multiclose_keeps:
  assumes "session_ok c" "distinct hs" "set hs \<subseteq> opened_of c" "SftpClient_multiclose (loop_os srv chunk) hs c = Some (rc, c')"
  shows "session_ok c' \<and> opened_of c - set hs \<subseteq> opened_of c'"
proof (cases "hs = []")
  case True
  then obtain i where "GenerateUniqueId c = Some (i, c')"
    using assms(4) by (auto simp: SftpClient_multiclose_def bind_eq_Some_conv)
  then show ?thesis using number_keeps [OF assms(1)] by auto
next
  case False
  let ?ws = "map (\<lambda>h. word_of_int h :: u32) hs"
  have len: "length hs \<le> 15000" 
    using distinct_card [OF assms(2)] card_mono [OF handles_few(1) assms(3)] handles_few(2) by (metis le_trans)
  have ws: "uint ` set ?ws = set hs"
    using uint_handle assms(3) by (force simp: image_iff)
  have c: "status_command (loop_os srv chunk) (9 + 4 * word_of_nat (length hs)) SSH2_FXP_DIRLIGO_MULTICLOSE
      (Dword (word_of_nat (length hs)) # map (\<lambda>h. Dword (word_of_int h)) hs) c = Some (rc, c')"
    using assms(4) False by (simp add: SftpClient_multiclose_def)
  show ?thesis
  proof (rule status_command_law [OF assms(1) c])
    fix s' ty' body'
    assume "handle_effect opens (fst (world c)) SSH2_FXP_DIRLIGO_MULTICLOSE
       (items_bytes (Dword (word_of_nat (length hs)) # map (\<lambda>h. Dword (word_of_int h)) hs)) s' ty' body'"
    then show "opened_of c - set hs \<subseteq> opens s'"
      using ws by (auto simp: handle_effect_def not_handle_types items_dwords comp_def dest!: spec [of _ ?ws])
  qed (use len in \<open>auto simp: items_dwords\<close>)
qed

lemma other_keeps:
  assumes "session_ok c" "status_command (loop_os srv chunk) sz ty items c = Some (rc, c')"
    "sz = word_of_nat (5 + length (items_bytes items))" "length (items_bytes items) + 9 \<le> 100000"
    "ty \<notin> {SSH2_FXP_OPENDIR, SSH2_FXP_DIRLIGO_CREATEFILE, SSH2_FXP_CLOSE, SSH2_FXP_DIRLIGO_MULTICLOSE}"
  shows "session_ok c' \<and> opened_of c \<subseteq> opened_of c'"
  by (rule status_command_law [OF assms(1-4)]) (use assms(5) in \<open>auto simp: handle_effect_def\<close>)

lemma status_keeps:
  assumes "session_ok c" "short_path p" "short_path q"
  shows "SftpClient_mkdir (loop_os srv chunk) p c = Some (rc, c') \<Longrightarrow> session_ok c' \<and> opened_of c \<subseteq> opened_of c'"
    "SftpClient_rmdir (loop_os srv chunk) p c = Some (rc, c') \<Longrightarrow> session_ok c' \<and> opened_of c \<subseteq> opened_of c'"
    "SftpClient_rename (loop_os srv chunk) p q c = Some (rc, c') \<Longrightarrow> session_ok c' \<and> opened_of c \<subseteq> opened_of c'"
    "SftpClient_resetdir (loop_os srv chunk) h c = Some (rc, c') \<Longrightarrow> session_ok c' \<and> opened_of c \<subseteq> opened_of c'"
  unfolding SftpClient_mkdir_def SftpClient_rmdir_def SftpClient_rename_def SftpClient_resetdir_def
  by (erule other_keeps [OF assms(1)]; use assms(2,3) in \<open>simp add: short_path_def not_handle_types\<close>)+

text \<open>The commands with an answer of their own.\<close>

lemma opendir_keeps:
  assumes "session_ok c" "short_path p" "SftpClient_opendir (loop_os srv chunk) p c = Some (h, c')"
  shows "session_ok c' \<and> (if h = -1 then opened_of c \<subseteq> opened_of c' else h \<notin> opened_of c \<and> opened_of c' = insert h (opened_of c))"
proof -
  obtain i c1 where g: "GenerateUniqueId c = Some (i, c1)"
    using assms(3) by (auto simp: SftpClient_opendir_def SftpClient_open_def bind_eq_Some_conv)
  show ?thesis
  proof (cases "dead c")
    case True
    note d = dead_number [OF True g]
    have "c' = c1" "h = -1" using assms(3) g d(1) by (simp_all add: SftpClient_opendir_def SftpClient_open_def)
    then show ?thesis using d by simp
  next
    case False
    then have q: "quiet c" using assms(1) by (simp add: session_ok_def)
    note n = number [OF q g]
    let ?id = "word_of_int (counter c) :: u32" and ?b = "be32 (len32 p) @ p"
    have len: "length ?b + 9 \<le> 100000" using assms(2) by (simp add: short_path_def)
    obtain ty' body' c2 where r: "SftpClient_processPacket (loop_os srv chunk) (frame ?id SSH2_FXP_OPENDIR ?b) (c\<lparr>counter := counter c + 1\<rparr>) =
        Some (0, frame ?id ty' body', spent chunk c c2, c2)" "quiet c2" "length body' + 9 \<le> 65536"
        "handle_effect opens (fst (world c)) SSH2_FXP_OPENDIR ?b (fst (world c2)) ty' body'"
      using request [OF q n(1) len] .
    have push: "push_items [] [Dword (9 + len32 p), Byte SSH2_FXP_OPENDIR, Dword ?id, Dword (len32 p), Raw p] =
        Some (frame ?id SSH2_FXP_OPENDIR ?b)"
      using push_frame [of "9 + len32 p" "[Dword (len32 p), Raw p]" SSH2_FXP_OPENDIR ?id] assms(2) by (simp add: short_path_def)
    have ok: "session_ok c2" using r(2) by (simp add: session_ok_def)
    note run = assms(3) [unfolded SftpClient_opendir_def SftpClient_open_def]
    show ?thesis
    proof (cases "ty' = SSH2_FXP_HANDLE")
      case True
      then obtain w where w: "body' = be32 4 @ be32 w" "uint w \<notin> opened_of c" "opened_of c2 = insert (uint w) (opened_of c)"
        using r(4) by (auto simp: handle_effect_def)
      have "h = uint w" "c' = c2" using run g n push r(1) False True w(1) by simp_all
      moreover have "uint w \<noteq> -1" by (metis uint_nonnegative neg_0_le_iff_le not_one_le_zero)
      ultimately show ?thesis using w ok by simp
    next
      case other: False
      have "h = -1" "c' = c2 \<or> c' = SftpClient_shutdown c2"
        using run g n push r(1,3) False other by (auto simp: pop_dword_eq split: if_splits)
      then show ?thesis using r(4) ok other by (auto simp: shutdown_keeps handle_effect_def not_handle_types)
    qed
  qed
qed

lemma createfile_keeps:
  assumes "session_ok c" "short_path p" "SftpClient_createfile (loop_os srv chunk) p a s cr f (Some 0) c = Some (h, d, c')"
  shows "session_ok c' \<and> (d = Some 0 \<and> opened_of c' = opened_of c \<or> h \<notin> opened_of c \<and> opened_of c' = insert h (opened_of c))"
proof -
  obtain i c1 where g: "GenerateUniqueId c = Some (i, c1)"
    using assms(3) by (auto simp: SftpClient_createfile_def bind_eq_Some_conv)
  show ?thesis
  proof (cases "dead c")
    case True
    note d = dead_number [OF True g]
    have "c' = c1" "d = Some 0" using assms(3) g d(1) by (simp_all add: SftpClient_createfile_def)
    then show ?thesis using d by simp
  next
    case False
    then have q: "quiet c" using assms(1) by (simp add: session_ok_def)
    note n = number [OF q g]
    let ?id = "word_of_int (counter c) :: u32" and ?b = "be32 (len32 p) @ p @ be32 a @ be32 s @ be32 cr @ be32 f"
    have len: "length ?b + 9 \<le> 100000" using assms(2) by (simp add: short_path_def)
    obtain ty' body' c2 where r: "SftpClient_processPacket (loop_os srv chunk) (frame ?id SSH2_FXP_DIRLIGO_CREATEFILE ?b) (c\<lparr>counter := counter c + 1\<rparr>) =
        Some (0, frame ?id ty' body', spent chunk c c2, c2)" "quiet c2" "length body' + 9 \<le> 65536"
        "handle_effect opens (fst (world c)) SSH2_FXP_DIRLIGO_CREATEFILE ?b (fst (world c2)) ty' body'"
      using request [OF q n(1) len] .
    have push: "push_items [] [Dword (25 + len32 p), Byte SSH2_FXP_DIRLIGO_CREATEFILE, Dword ?id, Dword (len32 p), Raw p,
        Dword a, Dword s, Dword cr, Dword f] = Some (frame ?id SSH2_FXP_DIRLIGO_CREATEFILE ?b)"
      using push_frame [of "25 + len32 p" "[Dword (len32 p), Raw p, Dword a, Dword s, Dword cr, Dword f]" SSH2_FXP_DIRLIGO_CREATEFILE ?id]
        assms(2) by (simp add: short_path_def)
    have ok: "session_ok c2" using r(2) by (simp add: session_ok_def)
    note run = assms(3) [unfolded SftpClient_createfile_def]
    show ?thesis
    proof (cases "ty' = SSH2_FXP_HANDLE")
      case True
      then obtain w where w: "body' = be32 4 @ be32 w" "if 0 \<le> sint w
           then sint w AND NOT SSH2_FXP_DIRLIGO_DIR_FLAG \<notin> opened_of c \<and>
                opened_of c2 = insert (sint w AND NOT SSH2_FXP_DIRLIGO_DIR_FLAG) (opened_of c)
           else opened_of c2 = opened_of c"
        using r(4) by (auto simp: handle_effect_def not_handle_types)
      have "c' = c2 \<and> (if 0 \<le> sint w then h = sint w AND NOT SSH2_FXP_DIRLIGO_DIR_FLAG else d = Some 0)"
        using run g n push r(1) False True w(1) by (auto simp: Let_def split: if_splits)
      then show ?thesis using w(2) ok by (simp split: if_splits)
    next
      case other: False
      have "d = Some 0" "c' = SftpClient_shutdown c2" using run g n push r(1,3) False other by simp_all
      then show ?thesis using r(4) ok other by (auto simp: shutdown_keeps handle_effect_def not_handle_types)
    qed
  qed
qed

lemma statvfs_keeps:
  assumes "session_ok c" "short_path p" "SftpClient_statvfs (loop_os srv chunk) p c = Some (rc, vs, c')"
  shows "session_ok c' \<and> opened_of c \<subseteq> opened_of c'"
proof -
  obtain i c1 where g: "GenerateUniqueId c = Some (i, c1)"
    using assms(3) by (auto simp: SftpClient_statvfs_def bind_eq_Some_conv)
  show ?thesis
  proof (cases "dead c")
    case True
    note d = dead_number [OF True g]
    have "c' = c1" using assms(3) g d(1) by (simp add: SftpClient_statvfs_def)
    then show ?thesis using d by simp
  next
    case False
    then have q: "quiet c" using assms(1) by (simp add: session_ok_def)
    note n = number [OF q g]
    let ?id = "word_of_int (counter c) :: u32"
    let ?b = "be32 (len32 statvfs_name) @ statvfs_name @ be32 (len32 p) @ p"
    have ln: "length statvfs_name = 19" by (simp add: statvfs_name_def)
    have len: "length ?b + 9 \<le> 100000" using assms(2) ln by (simp add: short_path_def)
    obtain ty' body' c2 where r: "SftpClient_processPacket (loop_os srv chunk) (frame ?id SSH2_FXP_EXTENDED ?b) (c\<lparr>counter := counter c + 1\<rparr>) =
        Some (0, frame ?id ty' body', spent chunk c c2, c2)" "quiet c2" "length body' + 9 \<le> 65536"
        "handle_effect opens (fst (world c)) SSH2_FXP_EXTENDED ?b (fst (world c2)) ty' body'"
      using request [OF q n(1) len] .
    have push: "push_items [] [Dword (13 + len32 statvfs_name + len32 p), Byte SSH2_FXP_EXTENDED, Dword ?id, Dword (len32 statvfs_name),
        Raw statvfs_name, Dword (len32 p), Raw p] = Some (frame ?id SSH2_FXP_EXTENDED ?b)"
      using push_frame [of "13 + len32 statvfs_name + len32 p" "[Dword (len32 statvfs_name), Raw statvfs_name, Dword (len32 p), Raw p]"
          SSH2_FXP_EXTENDED ?id] assms(2) ln by (simp add: short_path_def)
    have ok: "session_ok c2" using r(2) by (simp add: session_ok_def)
    have "c' = c2 \<or> c' = SftpClient_shutdown c2"
      using assms(3) g n push r(1,3) False by (auto simp: SftpClient_statvfs_def bind_eq_Some_conv Let_def split: if_splits)
    then show ?thesis using r(4) ok by (auto simp: shutdown_keeps handle_effect_def not_handle_types)
  qed
qed

lemma popAttribs_state:
  "SftpClient_popAttribs p c = Some (rc, a, r, c') \<Longrightarrow> c' = (if rc = 0 then c else SftpClient_shutdown c)"
  by (auto simp: SftpClient_popAttribs_def bind_eq_Some_conv split: if_splits)

lemma name_loop_state:
  "name_loop n p files goOn c = Some r \<Longrightarrow>
     snd (snd (snd r)) = c \<or> \<not> fst r \<and> snd (snd (snd r)) = SftpClient_shutdown c"
proof (induction n arbitrary: p files goOn r)
  case (Suc n)
  from Suc.prems show ?case
    by (auto simp: bind_eq_Some_conv split: option.splits if_splits dest!: popAttribs_state) (use Suc.IH in fastforce)+
qed auto

lemma readdir_step_keeps:
  assumes "quiet c" "readdir_step (loop_os srv chunk) h files c = Some (ok, files', goOn, c')"
  shows "opened_of c' = opened_of c" "ok \<Longrightarrow> quiet c'" "session_ok c'"
proof -
  obtain i c1 where g: "GenerateUniqueId c = Some (i, c1)"
  proof (cases "GenerateUniqueId c")
    case None
    then show thesis using assms(2) by (simp add: readdir_step_def names_step_def)
  qed (use that in auto)
  note n = number [OF assms(1) g]
  let ?id = "word_of_int (counter c) :: u32" and ?b = "be32 4 @ be32 (word_of_int h)"
  have len: "length ?b + 9 \<le> 100000" by simp
  obtain ty' body' c2 where r: "SftpClient_processPacket (loop_os srv chunk) (frame ?id SSH2_FXP_DIRLIGO_READDIR_SHORT ?b) (c\<lparr>counter := counter c + 1\<rparr>) =
      Some (0, frame ?id ty' body', spent chunk c c2, c2)" "quiet c2" "length body' + 9 \<le> 65536"
      "handle_effect opens (fst (world c)) SSH2_FXP_DIRLIGO_READDIR_SHORT ?b (fst (world c2)) ty' body'"
    using request [OF assms(1) n(1) len] .
  have push: "push_items [] [Dword 13, Byte SSH2_FXP_DIRLIGO_READDIR_SHORT, Dword ?id, Dword 4, Dword (word_of_int h)] =
      Some (frame ?id SSH2_FXP_DIRLIGO_READDIR_SHORT ?b)"
    using push_frame [of 13 "[Dword 4, Dword (word_of_int h)]" SSH2_FXP_DIRLIGO_READDIR_SHORT ?id] by simp
  have c': "c' = c2 \<or> \<not> ok \<and> c' = SftpClient_shutdown c2"
  proof (cases "ty' = SSH2_FXP_NAME \<and> 4 \<le> length body'")
    case True
    then have "name_loop (unat (word_be (take 4 body') :: u32)) (drop 4 body') files True c2 = Some (ok, files', goOn, c')"
      using assms(2) g n push r(1,3)
      by (cases "name_loop (unat (word_be (take 4 body') :: u32)) (drop 4 body') files True c2")
        (auto simp: readdir_step_def names_step_def pop_dword_eq SSH2_FXP_NAME_def SSH2_FXP_STATUS_def)
    from name_loop_state [OF this] show ?thesis by simp
  next
    case False
    consider (status) "ty' = SSH2_FXP_STATUS" | (short) "ty' = SSH2_FXP_NAME" "length body' < 4"
      | (other) "ty' \<noteq> SSH2_FXP_STATUS" "ty' \<noteq> SSH2_FXP_NAME"
      using False by force
    then show ?thesis
    proof cases
      case status
      then show ?thesis using assms(2) g n push r(1,3) by (simp add: readdir_step_def names_step_def pop_dword_eq split: if_splits)
    next
      case short
      then show ?thesis
        using assms(2) g n push r(1,3) by (simp add: readdir_step_def names_step_def pop_dword_eq SSH2_FXP_NAME_def SSH2_FXP_STATUS_def)
    next
      case other
      then show ?thesis using assms(2) g n push r(1,3) by (simp add: readdir_step_def names_step_def)
    qed
  qed
  have "opened_of c2 = opened_of c" using r(4) by (simp add: handle_effect_def not_handle_types)
  then show "opened_of c' = opened_of c" using c' by (elim disjE conjE) (simp_all add: shutdown_keeps)
  have "session_ok c2" using r(2) by (simp add: session_ok_def)
  then show "ok \<Longrightarrow> quiet c'" "session_ok c'" using c' r(2) by (elim disjE conjE; simp add: shutdown_keeps)+
qed

lemma readdir_loop_keeps:
  assumes "readdir_loop (loop_os srv chunk) h files c = Some r" "quiet c"
  shows "session_ok (snd (snd r)) \<and> opened_of (snd (snd r)) = opened_of c"
proof -
  have "os = loop_os srv chunk \<longrightarrow> quiet c \<longrightarrow> session_ok (snd (snd r)) \<and> opened_of (snd (snd r)) = opened_of c"
    if "readdir_loop os h files c = Some r" for os h files c r
  proof (rule readdir_loop.raw_induct [OF _ that, where
        P = "\<lambda>os h files c r. os = loop_os srv chunk \<longrightarrow> quiet c \<longrightarrow> session_ok (snd (snd r)) \<and> opened_of (snd (snd r)) = opened_of c"])
    fix loop os h files c r
    assume IH: "\<And>os h files c r. loop os h files c = Some r \<Longrightarrow>
          os = loop_os srv chunk \<longrightarrow> quiet c \<longrightarrow> session_ok (snd (snd r)) \<and> opened_of (snd (snd r)) = opened_of c"
      and body: "(case readdir_step os h files c of None \<Rightarrow> None
        | Some (ok, files, goOn, st) \<Rightarrow> if \<not> ok then Some (-1, files, st)
            else if goOn then loop os h files st else Some (0, files, st)) = Some r"
    show "os = loop_os srv chunk \<longrightarrow> quiet c \<longrightarrow> session_ok (snd (snd r)) \<and> opened_of (snd (snd r)) = opened_of c"
    proof (intro impI)
      assume os: "os = loop_os srv chunk" and q: "quiet c"
      obtain ok files1 goOn c1 where step: "readdir_step os h files c = Some (ok, files1, goOn, c1)"
        using body by (cases "readdir_step os h files c") auto
      note k = readdir_step_keeps [OF q step [unfolded os]]
      show "session_ok (snd (snd r)) \<and> opened_of (snd (snd r)) = opened_of c"
      proof (cases "ok \<and> goOn")
        case True
        then have "loop os h files1 c1 = Some r" using body step by simp
        then show ?thesis using IH os k True by metis
      next
        case False
        then have "snd (snd r) = c1" using body step by (auto split: if_splits)
        then show ?thesis using k by simp
      qed
    qed
  qed
  then show ?thesis using assms by blast
qed

lemma readdir_keeps:
  assumes "session_ok c" "SftpClient_readdir (loop_os srv chunk) h c = Some (rc, d, c')"
  shows "session_ok c' \<and> opened_of c \<subseteq> opened_of c'"
proof (cases "dead c")
  case True
  then show ?thesis using assms by (simp add: SftpClient_readdir_def)
next
  case False
  then have "readdir_loop (loop_os srv chunk) h [] c = Some (rc, d, c')" "quiet c"
    using assms by (simp_all add: SftpClient_readdir_def session_ok_def)
  then show ?thesis using readdir_loop_keeps by fastforce
qed

end

text \<open>So the client over such a server is a base for the cache, however the bytes are cut on the way.\<close>

sublocale handle_server \<subseteq> client: handle_base "client_ops (loop_os srv chunk) clock" session_ok short_path "\<lambda>c. opens (fst (world c))"
  for chunk clock
  apply (unfold_locales, unfold client_ops_simps)
  subgoal by (erule (2) opendir_keeps)
  subgoal by (erule (2) createfile_keeps)
  subgoal by (erule (2) close_keeps)
  subgoal by (erule (3) multiclose_keeps)
  subgoal by (erule status_keeps(4) [of _ "[]" "[]"]) (simp_all add: short_path_def)
  subgoal by (erule (1) readdir_keeps)
  subgoal for c p by (erule status_keeps(1) [of c p p])
  subgoal for c p by (erule status_keeps(2) [of c p p])
  subgoal for c p q by (erule status_keeps(3) [of c p q])
  subgoal by (erule (2) statvfs_keeps)
  done

context handle_server
begin

lemmas client_is_base = client.handle_base_axioms

end

section \<open>A store of handles\<close>

text \<open>
  The smallest server with handles: it opens the first free number, closes what it is told to, and
  answers everything else with a status.
\<close>

fun words_of :: "byte list \<Rightarrow> u32 list" where
  "words_of (a # b # c # d # bs) = word_be [a, b, c, d] # words_of bs"
| "words_of bs = []"

definition free_handle :: "nat list \<Rightarrow> nat option" where
  "free_handle xs = find (\<lambda>i. i \<notin> set xs) [0..<10000]"

definition store_server :: "nat list \<Rightarrow> byte list \<Rightarrow> nat list \<times> byte list" where
  "store_server xs p =
     (let ident = req_ident p; ty = req_type p; body = req_body p in
      if ty = SSH2_FXP_OPENDIR \<or> ty = SSH2_FXP_DIRLIGO_CREATEFILE then
        (case free_handle xs of
           Some i \<Rightarrow> (i # xs, frame ident SSH2_FXP_HANDLE (be32 4 @ be32 (word_of_nat i)))
         | None \<Rightarrow> (xs, frame ident SSH2_FXP_STATUS (be32 SSH2_FX_FAILURE)))
      else if ty = SSH2_FXP_CLOSE \<or> ty = SSH2_FXP_DIRLIGO_MULTICLOSE then
        (filter (\<lambda>i. word_of_nat i \<notin> set (words_of (drop 4 body))) xs, frame ident SSH2_FXP_STATUS (be32 SSH2_FX_OK))
      else (xs, frame ident SSH2_FXP_STATUS (be32 SSH2_FX_EOF)))"

definition store_handles :: "nat list \<Rightarrow> int set" where
  "store_handles xs = int ` (set xs \<inter> {..<10000})"

lemma words_of_concat: "words_of (concat (map be32 ws)) = ws"
proof (induction ws)
  case (Cons w ws)
  have four: "\<exists>a b c d. xs = [a, b, c, d]" if "length xs = Suc (Suc (Suc (Suc 0)))" for xs :: "byte list"
    using that by (auto simp: length_Suc_conv)
  obtain a b c d where "be32 w = [a, b, c, d]" using four [of "be32 w"] by auto
  moreover from this have "word_be [a, b, c, d] = w" using word_be_wire(1) [of w] by simp
  ultimately show ?case using Cons.IH by simp
qed simp

lemma free_handle_Some: "free_handle xs = Some i \<Longrightarrow> i < 10000 \<and> i \<notin> set xs"
  by (auto simp: free_handle_def find_Some_iff)

lemma small_word: "i < 10000 \<Longrightarrow> uint (word_of_nat i :: u32) = int i" "i < 10000 \<Longrightarrow> sint (word_of_nat i :: u32) = int i"
  using sint_u32_small [of i] unat_u32_small [of i] by (simp_all add: uint_nat)

lemma no_dir_flag: "i < 10000 \<Longrightarrow> int i AND NOT SSH2_FXP_DIRLIGO_DIR_FLAG = int i"
proof -
  assume "i < 10000"
  then have "take_bit 30 (int i) = int i" by (simp add: take_bit_int_eq_self)
  then have "bit (int i) n \<Longrightarrow> n < 30" for n by (metis bit_take_bit_iff)
  moreover have flag: "SSH2_FXP_DIRLIGO_DIR_FLAG = 2 ^ 30" by (simp add: SSH2_FXP_DIRLIGO_DIR_FLAG_def)
  have "bit SSH2_FXP_DIRLIGO_DIR_FLAG n \<longleftrightarrow> n = 30" for n
    unfolding flag bit_exp_iff by auto
  ultimately show ?thesis by (intro bit_eqI) (auto simp: bit_simps)
qed

lemma answersI:
  "srv s (frame ident ty body) = (s', frame ident ty' body') \<Longrightarrow> length body' + 9 \<le> 65536 \<Longrightarrow>
     handle_effect opens s ty body s' ty' body' \<Longrightarrow>
   \<exists>s' ty' body'. srv s (frame ident ty body) = (s', frame ident ty' body') \<and>
      length body' + 9 \<le> 65536 \<and> handle_effect opens s ty body s' ty' body'"
  by blast

interpretation store: handle_server store_server store_handles
proof
  fix xs ident ty body
  show "\<exists>s' ty' body'. store_server xs (frame ident ty body) = (s', frame ident ty' body') \<and>
      length body' + 9 \<le> 65536 \<and> handle_effect store_handles xs ty body s' ty' body'"
  proof (cases "ty = SSH2_FXP_OPENDIR \<or> ty = SSH2_FXP_DIRLIGO_CREATEFILE")
    case True
    show ?thesis
    proof (cases "free_handle xs")
      case None
      then show ?thesis using True
        by (intro answersI [where ty' = SSH2_FXP_STATUS and body' = "be32 SSH2_FX_FAILURE"])
          (auto simp: store_server_def handle_effect_def SSH2_FXP_STATUS_def SSH2_FXP_HANDLE_def not_handle_types)
    next
      case (Some i)
      note i = free_handle_Some [OF Some]
      then have "store_handles (i # xs) = insert (int i) (store_handles xs)" "int i \<notin> store_handles xs"
        by (auto simp: store_handles_def)
      then show ?thesis using True Some i
        by (intro answersI [where ty' = SSH2_FXP_HANDLE and body' = "be32 4 @ be32 (word_of_nat i)"])
          (auto simp: store_server_def handle_effect_def not_handle_types small_word no_dir_flag)
    qed
  next
    case other: False
    show ?thesis
    proof (cases "ty = SSH2_FXP_CLOSE \<or> ty = SSH2_FXP_DIRLIGO_MULTICLOSE")
      case False
      then show ?thesis using other
        by (intro answersI [where ty' = SSH2_FXP_STATUS and body' = "be32 SSH2_FX_EOF"]) (auto simp: store_server_def handle_effect_def)
    next
      case True
      define ys where "ys = filter (\<lambda>i. (word_of_nat i :: u32) \<notin> set (words_of (drop 4 body))) xs"
      have "store_handles xs - uint ` set (words_of (drop 4 body)) \<subseteq> store_handles ys"
        by (auto simp: store_handles_def ys_def image_iff) (metis small_word(1))
      moreover have "words_of (be32 w) = [w]" for w using words_of_concat [of "[w]"] by simp
      ultimately have "handle_effect store_handles xs ty body ys SSH2_FXP_STATUS (be32 SSH2_FX_OK)"
        using True by (auto simp: handle_effect_def not_handle_types words_of_concat)
      then show ?thesis using True other
        by (intro answersI [where ty' = SSH2_FXP_STATUS and body' = "be32 SSH2_FX_OK"]) (auto simp: store_server_def ys_def)
    qed
  qed
next
  fix xs :: "nat list"
  show "finite (store_handles xs)" by (simp add: store_handles_def)
  have "store_handles xs \<subseteq> int ` {..<10000}" by (auto simp: store_handles_def)
  then have "card (store_handles xs) \<le> card (int ` {..<10000::nat})" by (intro card_mono) auto
  then show "card (store_handles xs) \<le> 15000" by (simp add: card_image)
next
  fix h xs
  assume "h \<in> store_handles xs"
  then show "0 \<le> h \<and> h < 2 ^ 32" by (auto simp: store_handles_def)
qed

section \<open>Properties\<close>

text \<open>
  Property C27. Shared handles: whatever sequence of calls the users make and whenever the cleaner runs in
  between, a handle that was given out and not yet closed is open on the server. Every cached directory
  is open, is cached once, and its reference counter is the number of its users. It holds for every
  server that keeps to the protocol, and a session that breaks down is no exception.
\<close>

theorem cached_handles_stay_open:
  assumes "handle_server srv opens" "session_ok c"
    "(cache_step (client_ops (loop_os srv chunk) clock) short_path (\<lambda>c. opens (fst (world c))))\<^sup>*\<^sup>*
       (CachedSftpClient_new c, \<lambda>_. 0) (st, users)"
  shows "(\<forall>h. 0 < users h \<longrightarrow> h \<in> opens (fst (world (base st)))) \<and>
    (\<forall>e\<in>set (cache st). ce_handle e \<in> opens (fst (world (base st))) \<and> ce_refCount e = int (users (ce_handle e))) \<and>
    distinct (map ce_handle (cache st))"
proof -
  have "handles_ok (cache st) (opens (fst (world (base st)))) users"
    using handle_base.reachable_handles [OF handle_server.client_is_base [OF assms(1)] assms(2,3)] .
  then show ?thesis by (auto simp: handles_ok_def elem_ok_def)
qed

lemma store_opens:
  "\<exists>c'. SftpClient_opendir (loop_os store_server (\<lambda>t. (t, 0))) [47] (fresh_client []) = Some (0, c')"
proof -
  have free: "free_handle [] = Some 0" unfolding free_handle_def by (subst upt_conv_Cons) simp_all
  have srv: "store_server [] (frame 1 SSH2_FXP_OPENDIR (be32 1 @ [47])) = ([0], frame 1 SSH2_FXP_HANDLE (be32 4 @ be32 0))"
    by (simp add: store_server_def free SSH2_FXP_OPENDIR_def)
  obtain c' where "SftpClient_processPacket (loop_os store_server (\<lambda>t. (t, 0))) (frame 1 SSH2_FXP_OPENDIR (be32 1 @ [47]))
      ((fresh_client [])\<lparr>counter := 2\<rparr>) = Some (0, frame 1 SSH2_FXP_HANDLE (be32 4 @ be32 0), spent (\<lambda>t. (t, 0)) (fresh_client []) c', c')"
    using exchange [where srv = store_server and chunk = "\<lambda>t. (t, 0)" and st = "fresh_client []", OF quiet_fresh _ refl _ _ ,
        of "be32 1 @ [47]" SSH2_FXP_OPENDIR "[0]" SSH2_FXP_HANDLE "be32 4 @ be32 0"] srv by auto
  moreover have "push_items [] [Dword 10, Byte SSH2_FXP_OPENDIR, Dword 1, Dword 1, Raw [47]] = Some (frame 1 SSH2_FXP_OPENDIR (be32 1 @ [47]))"
    using push_frame [of 10 "[Dword 1, Raw [47]]" SSH2_FXP_OPENDIR 1] by simp
  ultimately show ?thesis
    using quiet_number(1) [OF quiet_fresh, of "[] :: nat list"] by (simp add: SftpClient_opendir_def SftpClient_open_def)
qed

theorem cached_handles_stay_open_witness:
  "\<exists>st users. (cache_step (client_ops (loop_os store_server (\<lambda>t. (t, 0))) (\<lambda>_. 0)) short_path (\<lambda>c. store_handles (fst (world c))))\<^sup>*\<^sup>*
       (CachedSftpClient_new (fresh_client []), \<lambda>_. 0) (st, users) \<and> 0 < users 0 \<and> 0 \<in> store_handles (fst (world (base st)))"
proof -
  let ?ops = "client_ops (loop_os store_server (\<lambda>t. (t, 0))) (\<lambda>_. 0)"
  obtain c' where c': "SftpClient_opendir (loop_os store_server (\<lambda>t. (t, 0))) [47] (fresh_client []) = Some (0, c')"
    using store_opens by auto
  obtain st where "CachedSftpClient_opendir ?ops [47] (CachedSftpClient_new (fresh_client [])) = Some (0, st)"
    using c' by (simp add: CachedSftpClient_opendir_def reuse_handle_def find_simps CachedSftpClient_new_def
        CachedSftpClient_lock_def CachedSftpClient_unlock_def)
  then have "cache_step ?ops short_path (\<lambda>c. store_handles (fst (world c))) (CachedSftpClient_new (fresh_client []), \<lambda>_. 0)
      (st, (\<lambda>_. 0)(0 := 0 + 1))"
    using cache_step.step_opendir [of short_path "[47]" ?ops "CachedSftpClient_new (fresh_client [])" 0 st _ "\<lambda>_. 0"]
    by (simp add: short_path_def)
  then have r: "(cache_step ?ops short_path (\<lambda>c. store_handles (fst (world c))))\<^sup>*\<^sup>* (CachedSftpClient_new (fresh_client []), \<lambda>_. 0)
      (st, (\<lambda>_. 0)(0 := 0 + 1))" by (rule r_into_rtranclp)
  have "session_ok (fresh_client [])" using quiet_fresh by (simp add: session_ok_def)
  from cached_handles_stay_open [OF store.handle_server_axioms this r] r show ?thesis by (intro exI conjI) auto
qed

end
