(* ===== verification/Sftp_Job.thy ===== *)
theory Sftp_Job
  imports Teg_Job Sftp_Dir
begin

text \<open>
  The background transfers of the SFTP client: the job objects (\<^verbatim>\<open>LibSftp/SftpJob.cpp\<close>) and the workers that
  download, upload and list (\<^verbatim>\<open>LibSftp/SftpClient.cpp\<close>). The user of a job acts between the polls of
  its worker: \<open>cancelled i\<close> says that he has called \<open>cancel\<close> before poll number \<open>i\<close>. The local
  file system is a map from names to contents with the limits of the record \<open>local_os\<close>. The average
  rate is a floating point number and is left out; the byte counters pass through a \<^verbatim>\<open>double\<close>, which is
  exact below \<open>2 ^ 53\<close>.
\<close>

section \<open>Jobs (SftpJob.cpp)\<close>

definition SFTP_JOB_TYPE_DOWNLOAD :: int where "SFTP_JOB_TYPE_DOWNLOAD = 1"
definition SFTP_JOB_TYPE_UPLOAD :: int where "SFTP_JOB_TYPE_UPLOAD = 2"
definition SFTP_JOB_TYPE_LIST :: int where "SFTP_JOB_TYPE_LIST = 3"
definition SFTP_JOB_STATE_ERROR :: int where "SFTP_JOB_STATE_ERROR = 1"
definition SFTP_JOB_STATE_INITIALIZING :: int where "SFTP_JOB_STATE_INITIALIZING = 2"
definition SFTP_JOB_STATE_PENDING :: int where "SFTP_JOB_STATE_PENDING = 4"
definition SFTP_JOB_STATE_FINISHED :: int where "SFTP_JOB_STATE_FINISHED = 8"
definition SFTP_JOB_STATE_STOPPED :: int where "SFTP_JOB_STATE_STOPPED = 16"
definition SFTP_JOB_NOTIFY_STATE_CHANGED :: int where "SFTP_JOB_NOTIFY_STATE_CHANGED = 1"
definition SFTP_JOB_NOTIFY_TRANSFER_STATISTICS :: int where "SFTP_JOB_NOTIFY_TRANSFER_STATISTICS = 2"
definition SFTP_JOB_NOTIFY_FILES_LIST_ARRIVED :: int where "SFTP_JOB_NOTIFY_FILES_LIST_ARRIVED = 3"

lemmas sftp_job_defs = SFTP_JOB_STATE_ERROR_def SFTP_JOB_STATE_INITIALIZING_def SFTP_JOB_STATE_PENDING_def
  SFTP_JOB_STATE_FINISHED_def SFTP_JOB_STATE_STOPPED_def

text \<open>
  \<open>sj_notified\<close> lists the codes that were passed to the notify callback with the state at that time;
  \<open>sj_deleted\<close> counts how often the destructor was entered.
\<close>

record SftpJob =
  sj_type :: int
  sj_localName :: "byte list"
  sj_remoteName :: "byte list"
  sj_totalBytes :: int
  sj_processedBytes :: int
  sj_state :: int
  sj_refCount :: int
  sj_notify :: bool
  sj_notified :: "(int \<times> int) list"
  sj_files :: "SftpFileInfo list"
  sj_deleted :: nat

definition SftpJob_new :: "int \<Rightarrow> byte list option \<Rightarrow> byte list option \<Rightarrow> bool \<Rightarrow> SftpJob" where
  "SftpJob_new ty localName remoteName cb =
     \<lparr>sj_type = ty, sj_localName = (case localName of None \<Rightarrow> [] | Some s \<Rightarrow> s),
      sj_remoteName = (case remoteName of None \<Rightarrow> [] | Some s \<Rightarrow> s),
      sj_totalBytes = 0, sj_processedBytes = 0, sj_state = SFTP_JOB_STATE_INITIALIZING, sj_refCount = 1,
      sj_notify = cb, sj_notified = [], sj_files = [], sj_deleted = 0\<rparr>"

definition SftpJob_triggerNotifyCallback :: "int \<Rightarrow> SftpJob \<Rightarrow> SftpJob" where
  "SftpJob_triggerNotifyCallback code j =
     (if sj_notify j then j\<lparr>sj_notified := sj_notified j @ [(code, sj_state j)]\<rparr> else j)"

definition SftpJob_addRef :: "SftpJob \<Rightarrow> SftpJob run" where
  "SftpJob_addRef j = do { c \<leftarrow> cint_add (sj_refCount j) 1; Some (j\<lparr>sj_refCount := c\<rparr>) }"

definition SftpJob_release :: "SftpJob \<Rightarrow> SftpJob run" where
  "SftpJob_release j = do {
     c \<leftarrow> cint_add (sj_refCount j) (-1);
     let j' = j\<lparr>sj_refCount := c\<rparr>;
     Some (if c = 0 then j'\<lparr>sj_deleted := sj_deleted j' + 1\<rparr> else j') }"

definition SftpJob_setState :: "int \<Rightarrow> SftpJob \<Rightarrow> SftpJob" where
  "SftpJob_setState s j = SftpJob_triggerNotifyCallback SFTP_JOB_NOTIFY_STATE_CHANGED (j\<lparr>sj_state := s\<rparr>)"

definition SftpJob_getStateString :: "SftpJob \<Rightarrow> string" where
  "SftpJob_getStateString j =
     (if sj_state j = SFTP_JOB_STATE_ERROR then ''Error''
      else if sj_state j = SFTP_JOB_STATE_INITIALIZING then ''Initializing''
      else if sj_state j = SFTP_JOB_STATE_PENDING then ''Pending''
      else if sj_state j = SFTP_JOB_STATE_FINISHED then ''Finished''
      else if sj_state j = SFTP_JOB_STATE_STOPPED then ''Stopped''
      else ''Unknown'')"

definition SftpJob_cancel :: "SftpJob \<Rightarrow> SftpJob" where
  "SftpJob_cancel j = SftpJob_setState SFTP_JOB_STATE_STOPPED j"

text \<open>\<open>obs\<close> lists the states that the polls see; \<^const>\<open>None\<close> means that it is still polling at its end.\<close>

fun sftp_wait_loop :: "int \<Rightarrow> int \<Rightarrow> int list \<Rightarrow> int option" where
  "sftp_wait_loop timeout timeLeft [] = None"
| "sftp_wait_loop timeout timeLeft (s # obs) =
     (if s = SFTP_JOB_STATE_INITIALIZING \<or> s = SFTP_JOB_STATE_PENDING
      then if 0 < timeout
           then let timeLeft' = timeLeft - 50
                in if timeLeft' \<le> 0 then Some (-1) else sftp_wait_loop timeout timeLeft' obs
           else sftp_wait_loop timeout timeLeft obs
      else Some 0)"

definition SftpJob_wait :: "int \<Rightarrow> int list \<Rightarrow> int option" where
  "SftpJob_wait timeout obs = sftp_wait_loop timeout timeout obs"

definition SftpJob_updateStatistics :: "int \<Rightarrow> int \<Rightarrow> SftpJob \<Rightarrow> SftpJob" where
  "SftpJob_updateStatistics processed totals j =
     SftpJob_triggerNotifyCallback SFTP_JOB_NOTIFY_TRANSFER_STATISTICS
       (j\<lparr>sj_processedBytes := processed, sj_totalBytes := totals\<rparr>)"

definition SftpJob_getPercentCompleted :: "SftpJob \<Rightarrow> real" where
  "SftpJob_getPercentCompleted j =
     (if sj_totalBytes j > 0 then of_int (sj_processedBytes j) / of_int (sj_totalBytes j) * 100 else 0)"

definition SftpJob_clearFiles :: "SftpJob \<Rightarrow> SftpJob" where
  "SftpJob_clearFiles j = j\<lparr>sj_files := []\<rparr>"

definition SftpJob_addFile :: "SftpFileInfo \<Rightarrow> SftpJob \<Rightarrow> SftpJob" where
  "SftpJob_addFile f j = j\<lparr>sj_files := sj_files j @ [f]\<rparr>"

section \<open>Workers (SftpClient.cpp)\<close>

text \<open>
  The local side: whether a file can be created or opened, and how many bytes a file can hold;
  \<^verbatim>\<open>fwrite\<close> writes what fits and its result is ignored.
\<close>

record local_os =
  l_create :: "byte list \<Rightarrow> bool"
  l_open :: "byte list \<Rightarrow> bool"
  l_room :: nat

definition fwrite :: "nat \<Rightarrow> byte list \<Rightarrow> byte list \<Rightarrow> byte list" where
  "fwrite room content d = take room (content @ d)"

definition user_acts :: "(nat \<Rightarrow> bool) \<Rightarrow> nat \<Rightarrow> SftpJob \<Rightarrow> SftpJob" where
  "user_acts cancelled i j = (if cancelled i then SftpJob_cancel j else j)"

text \<open>How the body of a worker ends: the loop is through, the job was stopped, or \<^verbatim>\<open>goto fail\<close>.\<close>

datatype xfer_end = Copied | Stopped | Failed

definition SFTP_BUF :: int where "SFTP_BUF = 32768"

function download_loop ::
    "'w os \<Rightarrow> nat \<Rightarrow> (nat \<Rightarrow> bool) \<Rightarrow> int \<Rightarrow> int \<Rightarrow> nat \<Rightarrow> int \<Rightarrow> int \<Rightarrow> byte list \<Rightarrow> byte list \<Rightarrow> SftpJob \<Rightarrow>
      'w sftp \<Rightarrow> (xfer_end \<times> byte list \<times> SftpJob \<times> 'w sftp) run" where
  "download_loop os room cancelled handle totals i bytesToCopy totalWritten buf content job st =
     (if bytesToCopy > 0
      then let job = user_acts cancelled i job in
           if sj_state job = SFTP_JOB_STATE_STOPPED then Some (Stopped, content, job, st)
           else let pieceSize = min SFTP_BUF bytesToCopy in
                case SftpClient_read os handle buf (word_of_int totalWritten) pieceSize st of
                  None \<Rightarrow> None
                | Some (readed, buf, st) \<Rightarrow>
                    if readed \<noteq> pieceSize then Some (Failed, content, job, st)
                    else download_loop os room cancelled handle totals (Suc i)
                           (bytesToCopy - pieceSize) (totalWritten + pieceSize) buf
                           (fwrite room content (take (nat pieceSize) buf))
                           (SftpJob_updateStatistics (totalWritten + pieceSize) totals job) st
      else Some (Copied, content, job, st))"
  by pat_completeness auto
termination
  by (relation "measure (\<lambda>(os, room, c, h, t, i, b, w, buf, content, job, st). nat b)") (auto simp: SFTP_BUF_def)

declare download_loop.simps [simp del]

text \<open>
  The end of the workers: the state of the job, the close of the remote handle, the release of the
  worker's reference.
\<close>

definition finish_worker ::
    "'w os \<Rightarrow> xfer_end \<Rightarrow> int \<Rightarrow> SftpJob \<Rightarrow> 'w sftp \<Rightarrow> (int \<times> SftpJob \<times> 'w sftp) run" where
  "finish_worker os e handle job st = do {
     let job = (case e of Copied \<Rightarrow> SftpJob_setState SFTP_JOB_STATE_FINISHED job
                | Stopped \<Rightarrow> job
                | Failed \<Rightarrow> SftpJob_setState SFTP_JOB_STATE_ERROR job);
     (_, st) \<leftarrow> (if handle \<noteq> -1 then SftpClient_close os handle st else Some (0, st));
     job \<leftarrow> SftpJob_release job;
     Some (if e = Failed then -1 else 0, job, st) }"

text \<open>
  A worker takes a reference and waits until the state is no longer initializing; \<open>job\<close> is the object
  as it is then. \<open>junk\<close> and \<open>buf\<close> are the uninitialised local variables \<^verbatim>\<open>attr\<close> and \<^verbatim>\<open>buf\<close>. The remote
  file is opened with the default mode, which is the constant \<^verbatim>\<open>SSH2_FXP_OPEN\<close>.
\<close>

definition SftpClient_DownloadFileWorker ::
    "'w os \<Rightarrow> local_os \<Rightarrow> (nat \<Rightarrow> bool) \<Rightarrow> SftpFileAttr \<Rightarrow> byte list \<Rightarrow> SftpJob \<Rightarrow> 'w sftp \<Rightarrow>
      (byte list \<rightharpoonup> byte list) \<Rightarrow> (int \<times> SftpJob \<times> 'w sftp \<times> (byte list \<rightharpoonup> byte list)) run" where
  "SftpClient_DownloadFileWorker os los cancelled junk buf job st fs = do {
     job \<leftarrow> SftpJob_addRef job;
     if sj_state job = SFTP_JOB_STATE_INITIALIZING then None else do {
       (rc, attr, st) \<leftarrow> SftpClient_stat os (Some (sj_remoteName job)) (Some junk) st;
       (e, handle, fs, job, st) \<leftarrow>
         (if rc \<noteq> 0 then Some (Failed, -1, fs, job, st) else do {
            (handle, st) \<leftarrow> SftpClient_open os (sj_remoteName job) (ucast SSH2_FXP_OPEN) 0 st;
            if handle = -1 then Some (Failed, handle, fs, job, st)
            else if \<not> l_create los (sj_localName job) then Some (Failed, handle, fs, job, st)
            else do {
              attr \<leftarrow> attr;
              (e, content, job, st) \<leftarrow> download_loop os (l_room los) cancelled handle (sint (attr_size attr)) 0
                 (sint (attr_size attr)) 0 buf [] job st;
              Some (e, handle, fs(sj_localName job \<mapsto> content), job, st) } });
       (rc, job, st) \<leftarrow> finish_worker os e handle job st;
       Some (rc, job, st, fs) } }"

definition SSH2_FXF_WRITE :: u32 where "SSH2_FXF_WRITE = 2"
definition SSH2_FXF_CREAT :: u32 where "SSH2_FXF_CREAT = 8"
definition SSH2_FXF_TRUNC :: u32 where "SSH2_FXF_TRUNC = 16"

function upload_loop ::
    "'w os \<Rightarrow> (nat \<Rightarrow> bool) \<Rightarrow> int \<Rightarrow> int \<Rightarrow> nat \<Rightarrow> int \<Rightarrow> int \<Rightarrow> byte list \<Rightarrow> byte list \<Rightarrow> SftpJob \<Rightarrow>
      'w sftp \<Rightarrow> (xfer_end \<times> SftpJob \<times> 'w sftp) run" where
  "upload_loop os cancelled handle totals i bytesToCopy totalWritten buf content job st =
     (if bytesToCopy > 0
      then let job = user_acts cancelled i job in
           if sj_state job = SFTP_JOB_STATE_STOPPED then Some (Stopped, job, st)
           else let pieceSize = min SFTP_BUF bytesToCopy;
                    d = take (nat pieceSize) (drop (nat totalWritten) content);
                    buf = d @ drop (length d) buf in
                if int (length d) \<noteq> pieceSize then Some (Failed, job, st)
                else case SftpClient_write os handle buf (word_of_int totalWritten) pieceSize st of
                  None \<Rightarrow> None
                | Some (written, st) \<Rightarrow>
                    if written \<noteq> pieceSize then Some (Failed, job, st)
                    else upload_loop os cancelled handle totals (Suc i)
                           (bytesToCopy - pieceSize) (totalWritten + pieceSize) buf content
                           (SftpJob_updateStatistics (totalWritten + pieceSize) totals job) st
      else Some (Copied, job, st))"
  by pat_completeness auto
termination
  by (relation "measure (\<lambda>(os, c, h, t, i, b, w, buf, content, job, st). nat b)") (auto simp: SFTP_BUF_def)

declare upload_loop.simps [simp del]

text \<open>The local \<^verbatim>\<open>stat\<close> succeeds for existing files and gives their length.\<close>

definition SftpClient_UploadFileWorker ::
    "'w os \<Rightarrow> local_os \<Rightarrow> (nat \<Rightarrow> bool) \<Rightarrow> byte list \<Rightarrow> SftpJob \<Rightarrow> 'w sftp \<Rightarrow>
      (byte list \<rightharpoonup> byte list) \<Rightarrow> (int \<times> SftpJob \<times> 'w sftp) run" where
  "SftpClient_UploadFileWorker os los cancelled buf job st fs = do {
     job \<leftarrow> SftpJob_addRef job;
     if sj_state job = SFTP_JOB_STATE_INITIALIZING then None else do {
       (e, handle, job, st) \<leftarrow>
         (case fs (sj_localName job) of
            None \<Rightarrow> Some (Failed, -1, job, st)
          | Some content \<Rightarrow>
              if \<not> l_open los (sj_localName job) then Some (Failed, -1, job, st)
              else do {
                (handle, st) \<leftarrow> SftpClient_open os (sj_remoteName job)
                   (SSH2_FXF_WRITE OR SSH2_FXF_CREAT OR SSH2_FXF_TRUNC) 0 st;
                if handle = -1 then Some (Failed, handle, job, st)
                else do {
                  (e, job, st) \<leftarrow> upload_loop os cancelled handle (int (length content)) 0
                     (int (length content)) 0 buf content job st;
                  Some (e, handle, job, st) } });
       finish_worker os e handle job st } }"

text \<open>A number is drawn before the state is polled.\<close>

partial_function (option) list_loop ::
    "'w os \<Rightarrow> (nat \<Rightarrow> bool) \<Rightarrow> int \<Rightarrow> nat \<Rightarrow> SftpJob \<Rightarrow> 'w sftp \<Rightarrow> (xfer_end \<times> SftpJob \<times> 'w sftp) option" where
  "list_loop os cancelled handle i job st =
     (let job = user_acts cancelled i job in
      if sj_state job = SFTP_JOB_STATE_STOPPED
      then map_option (\<lambda>(_, st). (Stopped, job, st)) (GenerateUniqueId st)
      else case names_step os handle (sj_files job) st of
             None \<Rightarrow> None
           | Some (ok, files, goOn, arrived, st) \<Rightarrow>
               let job = job\<lparr>sj_files := files\<rparr>;
                   job = (if arrived then SftpJob_triggerNotifyCallback SFTP_JOB_NOTIFY_FILES_LIST_ARRIVED job else job)
               in if \<not> ok then Some (Failed, job, st)
                  else if goOn then list_loop os cancelled handle (Suc i) job st
                  else Some (Copied, job, st))"

definition SftpClient_ListFilesWorker ::
    "'w os \<Rightarrow> (nat \<Rightarrow> bool) \<Rightarrow> SftpJob \<Rightarrow> 'w sftp \<Rightarrow> (int \<times> SftpJob \<times> 'w sftp) run" where
  "SftpClient_ListFilesWorker os cancelled job st = do {
     job \<leftarrow> SftpJob_addRef job;
     if sj_state job = SFTP_JOB_STATE_INITIALIZING then None else do {
       (handle, st) \<leftarrow> SftpClient_opendir os (sj_remoteName job) st;
       (e, job, st) \<leftarrow> (if handle < 0 then Some (Failed, job, st) else list_loop os cancelled handle 0 job st);
       finish_worker os e handle job st } }"

text \<open>The starters: no job for a \<^verbatim>\<open>NULL\<close> argument or a dead session, else a pending job with a worker thread.\<close>

definition SftpClient_downloadFile :: "byte list option \<Rightarrow> byte list option \<Rightarrow> bool \<Rightarrow> 'w sftp \<Rightarrow> SftpJob option" where
  "SftpClient_downloadFile localPath remotePath cb st =
     (if localPath = None \<or> remotePath = None \<or> dead st then None
      else Some (SftpJob_setState SFTP_JOB_STATE_PENDING (SftpJob_new SFTP_JOB_TYPE_DOWNLOAD localPath remotePath cb)))"

definition SftpClient_uploadFile :: "byte list option \<Rightarrow> byte list option \<Rightarrow> bool \<Rightarrow> 'w sftp \<Rightarrow> SftpJob option" where
  "SftpClient_uploadFile remotePath localPath cb st =
     (if localPath = None \<or> remotePath = None \<or> dead st then None
      else Some (SftpJob_setState SFTP_JOB_STATE_PENDING (SftpJob_new SFTP_JOB_TYPE_UPLOAD localPath remotePath cb)))"

definition SftpClient_listFiles :: "byte list option \<Rightarrow> bool \<Rightarrow> 'w sftp \<Rightarrow> SftpJob option" where
  "SftpClient_listFiles remotePath cb st =
     (if remotePath = None \<or> dead st then None
      else Some (SftpJob_setState SFTP_JOB_STATE_PENDING (SftpJob_new SFTP_JOB_TYPE_LIST None remotePath cb)))"

section \<open>The reference counter\<close>

lemma sj_frame [simp]:
  "sj_state (SftpJob_setState s j) = s" "sj_refCount (SftpJob_setState s j) = sj_refCount j"
  "sj_deleted (SftpJob_setState s j) = sj_deleted j" "sj_files (SftpJob_setState s j) = sj_files j"
  "sj_localName (SftpJob_setState s j) = sj_localName j" "sj_remoteName (SftpJob_setState s j) = sj_remoteName j"
  "sj_processedBytes (SftpJob_setState s j) = sj_processedBytes j" "sj_totalBytes (SftpJob_setState s j) = sj_totalBytes j"
  "sj_state (SftpJob_triggerNotifyCallback c j) = sj_state j" "sj_refCount (SftpJob_triggerNotifyCallback c j) = sj_refCount j"
  "sj_deleted (SftpJob_triggerNotifyCallback c j) = sj_deleted j" "sj_files (SftpJob_triggerNotifyCallback c j) = sj_files j"
  "sj_localName (SftpJob_triggerNotifyCallback c j) = sj_localName j" "sj_remoteName (SftpJob_triggerNotifyCallback c j) = sj_remoteName j"
  "sj_processedBytes (SftpJob_triggerNotifyCallback c j) = sj_processedBytes j" "sj_totalBytes (SftpJob_triggerNotifyCallback c j) = sj_totalBytes j"
  by (simp_all add: SftpJob_setState_def SftpJob_triggerNotifyCallback_def)

lemma sj_statistics [simp]:
  "sj_state (SftpJob_updateStatistics p t j) = sj_state j" "sj_refCount (SftpJob_updateStatistics p t j) = sj_refCount j"
  "sj_deleted (SftpJob_updateStatistics p t j) = sj_deleted j" "sj_localName (SftpJob_updateStatistics p t j) = sj_localName j"
  "sj_processedBytes (SftpJob_updateStatistics p t j) = p" "sj_totalBytes (SftpJob_updateStatistics p t j) = t"
  by (simp_all add: SftpJob_updateStatistics_def)

definition sftp_job_ok :: "SftpJob \<Rightarrow> bool" where
  "sftp_job_ok j \<longleftrightarrow> 0 \<le> sj_refCount j \<and> sj_refCount j \<le> int_max \<and> sj_deleted j = (if sj_refCount j = 0 then 1 else 0)"

lemma sftp_refs:
  "sj_refCount j < int_max \<Longrightarrow> 0 \<le> sj_refCount j \<Longrightarrow> SftpJob_addRef j = Some (j\<lparr>sj_refCount := sj_refCount j + 1\<rparr>)"
  "sj_refCount j \<le> int_max \<Longrightarrow> 1 < sj_refCount j \<Longrightarrow> SftpJob_release j = Some (j\<lparr>sj_refCount := sj_refCount j - 1\<rparr>)"
  "sj_refCount j = 1 \<Longrightarrow> SftpJob_release j = Some (j\<lparr>sj_refCount := 0, sj_deleted := sj_deleted j + 1\<rparr>)"
  by (simp_all add: SftpJob_addRef_def SftpJob_release_def cint_add_def)

interpretation sftp_job: ref_counted SftpJob_addRef SftpJob_release "\<lambda>j. nat (sj_refCount j)" sftp_job_ok
proof unfold_locales
  fix j
  assume "sftp_job_ok j" "0 < nat (sj_refCount j)" "int (nat (sj_refCount j)) < int_max"
  then show "\<exists>j'. SftpJob_addRef j = Some j' \<and> sftp_job_ok j' \<and> nat (sj_refCount j') = nat (sj_refCount j) + 1"
    using sftp_refs(1) [of j] by (simp add: sftp_job_ok_def nat_add_distrib)
next
  fix j
  assume j: "sftp_job_ok j" "0 < nat (sj_refCount j)"
  show "\<exists>j'. SftpJob_release j = Some j' \<and> sftp_job_ok j' \<and> nat (sj_refCount j') = nat (sj_refCount j) - 1"
  proof (cases "sj_refCount j = 1")
    case True
    then show ?thesis using sftp_refs(3) [of j] j by (simp add: sftp_job_ok_def)
  next
    case False
    then show ?thesis using sftp_refs(2) [of j] j by (simp add: sftp_job_ok_def nat_diff_distrib)
  qed
qed

text \<open>Waiting is the loop of LibJob up to the numbers of the states.\<close>

definition job_state_of :: "int \<Rightarrow> int" where
  "job_state_of s = (if s = SFTP_JOB_STATE_INITIALIZING then JOB_STATE_INITIALIZING
     else if s = SFTP_JOB_STATE_PENDING then JOB_STATE_PENDING else JOB_STATE_FINISHED)"

lemma sftp_wait_loop_eq: "sftp_wait_loop timeout left obs = wait_loop timeout left (map job_state_of obs)"
  by (induction timeout left obs rule: sftp_wait_loop.induct)
    (auto simp: job_state_of_def job_state_defs sftp_job_defs Let_def)

end
