(* ===== verification/Sftp_Transfer.thy ===== *)
theory Sftp_Transfer
  imports Sftp_Job
begin

text \<open>
  What the background transfers achieve with a server that keeps to the protocol: a download leaves a
  copy of the remote file, an upload a copy of the local one, a listing the elements of the
  directory; a job that is cancelled stops at the next piece.
\<close>

section \<open>Single requests\<close>

definition stat_answer :: "nat \<Rightarrow> SftpFileAttr" where
  "stat_answer n = no_attr\<lparr>attr_flags := SSH2_FILEXFER_ATTR_SIZE, attr_size := word_of_nat n\<rparr>"

lemma stat_answer_normal: "attr_normal (stat_answer n)"
  by (simp add: attr_normal_def stat_answer_def no_attr_def SSH2_FILEXFER_ATTR_SIZE_def
      SSH2_FILEXFER_ATTR_UIDGID_def SSH2_FILEXFER_ATTR_PERMISSIONS_def SSH2_FILEXFER_ATTR_ACMODTIME_def)

lemma stat_server:
  assumes "quiet st" "counter st < int_max" "length path \<le> 30000" "attr_normal a"
    "ident = word_of_int (counter st)" "srv (fst (world st)) (frame ident SSH2_FXP_STAT_VERSION_0 (be32 (len32 path) @ path)) =
       (s', frame ident SSH2_FXP_ATTRS (attr_bytes a))"
  obtains st' where "SftpClient_stat (loop_os srv chunk) (Some path) (Some junk) st = Some (0, Some a, st')"
    "session_kept st 1 st'" "fst (world st') = s'"
proof -
  let ?id = "word_of_int (counter st) :: u32" and ?b = "be32 (len32 path) @ path"
  have len: "length ?b + 9 \<le> 100000" "length (attr_bytes a) + 9 \<le> 65536"
    using assms(3) attr_need_le [of "attr_flags a"] by simp_all
  obtain st' where st': "SftpClient_processPacket (loop_os srv chunk) (frame ?id SSH2_FXP_STAT_VERSION_0 ?b) (st\<lparr>counter := counter st + 1\<rparr>) =
      Some (0, frame ?id SSH2_FXP_ATTRS (attr_bytes a), spent chunk st st', st')"
      "quiet st'" "fst (world st') = s'" "settings st' = settings (st\<lparr>counter := counter st + 1\<rparr>)"
    using exchange [where srv = srv and chunk = chunk, OF assms(1,2) refl len(1) assms(6) [unfolded assms(5)] len(2)] by blast
  have push: "push_items [] [Dword (9 + len32 path), Byte SSH2_FXP_STAT_VERSION_0, Dword ?id, Dword (len32 path), Raw path] =
      Some (frame ?id SSH2_FXP_STAT_VERSION_0 ?b)"
    using push_frame [of "9 + len32 path" "[Dword (len32 path), Raw path]" SSH2_FXP_STAT_VERSION_0 ?id] assms(3) by simp
  have "SftpClient_popAttribs (attr_bytes a) st' = Some (0, a, [], st')"
    using popAttribs_bytes [OF assms(4), of "[]" st'] by simp
  moreover have "\<not> dead st" using assms(1) by (simp add: quiet_def)
  ultimately have "SftpClient_stat (loop_os srv chunk) (Some path) (Some junk) st = Some (0, Some a, st')"
    using quiet_number(1) [OF assms(1,2)] push st'(1) len(2) by (simp add: SftpClient_stat_def)
  then show thesis using that st' by (simp add: session_kept_step)
qed

lemma open_server:
  assumes "quiet st" "counter st < int_max" "length path \<le> 30000"
    "ident = word_of_int (counter st)" "srv (fst (world st)) (frame ident SSH2_FXP_OPEN (be32 (len32 path) @ path @ be32 mode @ be32 0)) =
       (s', frame ident SSH2_FXP_HANDLE (be32 4 @ be32 h))"
  obtains st' where "SftpClient_open (loop_os srv chunk) path mode 0 st = Some (uint h, st')"
    "session_kept st 1 st'" "fst (world st') = s'"
proof -
  let ?id = "word_of_int (counter st) :: u32" and ?b = "be32 (len32 path) @ path @ be32 mode @ be32 0"
  have len: "length ?b + 9 \<le> 100000" "length (be32 4 @ be32 h) + 9 \<le> 65536" using assms(3) by simp_all
  obtain st' where st': "SftpClient_processPacket (loop_os srv chunk) (frame ?id SSH2_FXP_OPEN ?b) (st\<lparr>counter := counter st + 1\<rparr>) =
      Some (0, frame ?id SSH2_FXP_HANDLE (be32 4 @ be32 h), spent chunk st st', st')"
      "quiet st'" "fst (world st') = s'" "settings st' = settings (st\<lparr>counter := counter st + 1\<rparr>)"
    using exchange [where srv = srv and chunk = chunk, OF assms(1,2) refl len(1) assms(5) [unfolded assms(4)] len(2)] by blast
  have push: "push_items [] [Dword (17 + len32 path), Byte SSH2_FXP_OPEN, Dword ?id, Dword (len32 path), Raw path, Dword mode, Dword 0] =
      Some (frame ?id SSH2_FXP_OPEN ?b)"
    using push_frame [of "17 + len32 path" "[Dword (len32 path), Raw path, Dword mode, Dword 0]" SSH2_FXP_OPEN ?id] assms(3) by simp
  have "\<not> dead st" using assms(1) by (simp add: quiet_def)
  then have "SftpClient_open (loop_os srv chunk) path mode 0 st = Some (uint h, st')"
    using quiet_number(1) [OF assms(1,2)] push st'(1) by (simp add: SftpClient_open_def)
  then show thesis using that st' by (simp add: session_kept_step)
qed

lemma close_server:
  assumes "quiet st" "counter st < int_max"
    "ident = word_of_int (counter st)" "srv (fst (world st)) (frame ident SSH2_FXP_CLOSE (be32 4 @ be32 (word_of_int h))) =
       (s', frame ident SSH2_FXP_STATUS (be32 code))"
  obtains st' where "SftpClient_close (loop_os srv chunk) h st = Some (code, st')"
    "session_kept st 1 st'" "fst (world st') = s'"
proof -
  have "\<exists>st'. status_command (loop_os srv chunk) 13 SSH2_FXP_CLOSE [Dword 4, Dword (word_of_int h)] st = Some (code, st') \<and>
     quiet st' \<and> fst (world st') = s' \<and> settings st' = settings (st\<lparr>counter := counter st + 1\<rparr>)"
    by (rule status_command_answered [OF assms(1,2) refl]) (use assms(3,4) in simp_all)
  then show thesis using that by (auto simp: SftpClient_close_def session_kept_step)
qed

section \<open>Downloading\<close>

lemma fwrite_take [simp]: "fwrite room (take room xs) ys = take room (xs @ ys)"
  by (simp add: fwrite_def min_def)

text \<open>What a loop leaves of the job, for \<open>n\<close> polls before the user cancels it.\<close>

definition job_kept :: "SftpJob \<Rightarrow> SftpJob \<Rightarrow> bool" where
  "job_kept j j' \<longleftrightarrow> sj_refCount j' = sj_refCount j \<and> sj_deleted j' = sj_deleted j \<and> sj_localName j' = sj_localName j"

lemma job_kept_simps [simp]:
  "job_kept j j" "job_kept j (SftpJob_updateStatistics p t j') = job_kept j j'"
  "job_kept (SftpJob_updateStatistics p t j) j' = job_kept j j'" "job_kept j (SftpJob_setState s j') = job_kept j j'"
  by (simp_all add: job_kept_def)

lemma cancel_job [simp]: "sj_state (SftpJob_cancel j) = SFTP_JOB_STATE_STOPPED" "job_kept j' (SftpJob_cancel j) = job_kept j' j"
  by (simp_all add: SftpJob_cancel_def)

text \<open>Piece number \<open>i\<close> of a file of \<open>l\<close> bytes, and the position where it starts.\<close>

definition piece_len :: "nat \<Rightarrow> nat \<Rightarrow> nat" where
  "piece_len l i = min 32768 (l - 32768 * i)"

abbreviation piece_pos :: "nat \<Rightarrow> nat \<Rightarrow> nat" where
  "piece_pos l i \<equiv> min (32768 * i) l"

lemma piece_next:
  assumes "32768 * i < l"
  shows "min SFTP_BUF (int (l - 32768 * i)) = int (piece_len l i)" "0 < piece_len l i" "piece_pos l i = 32768 * i"
    "int (l - 32768 * i) - int (piece_len l i) = int (l - 32768 * Suc i)"
    "int (piece_pos l i) + int (piece_len l i) = int (piece_pos l (Suc i))"
    "piece_len l i + (l - 32768 * Suc i) \<le> l - 32768 * i"
  using assms by (auto simp: piece_len_def SFTP_BUF_def min_def)

lemma piece_take:
  "take (piece_len (length c) i) (drop (32768 * i) c) = take 32768 (drop (32768 * i) c)"
  "take (32768 * i) c @ take 32768 (drop (32768 * i) c) = take (32768 * Suc i) c"
  using take_add [of "32768 * i" 32768 c] by (simp_all add: piece_len_def min_def add.commute)

lemma download_step:
  assumes "quiet st" "serves_reads srv (word_of_int handle) content piece"
    "0 < sectorSize st" "sectorSize st \<le> 65523" "prompt chunk (partialReadThreshold st)"
    "c = content (fst (world st))" "length c < 2 ^ 63" "counter st + int (length c - 32768 * i) \<le> int_max"
    "\<not> cancelled i" "length buf = 32768" "sj_state job \<noteq> SFTP_JOB_STATE_STOPPED" "32768 * i < length c"
    "job1 = SftpJob_updateStatistics (int (piece_pos (length c) (Suc i))) totals job"
  obtains buf1 st1 where
    "download_loop (loop_os srv chunk) room cancelled handle totals i (int (length c - 32768 * i))
        (int (piece_pos (length c) i)) buf (take room (take (32768 * i) c)) job st =
      download_loop (loop_os srv chunk) room cancelled handle totals (Suc i) (int (length c - 32768 * Suc i))
        (int (piece_pos (length c) (Suc i))) buf1 (take room (take (32768 * Suc i) c)) job1 st1"
    "session_kept st (piece_len (length c) i) st1" "fst (world st1) = fst (world st)" "length buf1 = 32768"
proof -
  define m data where "m = piece_len (length c) i" and "data = drop (32768 * i) c"
  note pn = piece_next [OF assms(12), folded m_def]
  have m: "m \<le> length data" "m \<le> length buf" "m \<le> length c - 32768 * i" using assms(10) by (simp_all add: m_def data_def piece_len_def)
  have "counter st + int m \<le> int_max" "32768 * i + m < 2 ^ 64" using assms(7,8,12) m(3) by simp_all
  then obtain st1 where st1: "SftpClient_read (loop_os srv chunk) handle buf (word_of_nat (32768 * i)) (int m) st =
      Some (int m, take m data @ drop m buf, st1)" "session_kept st m st1" "fst (world st1) = fst (world st)"
    using read_slice_prompt [where chunk = chunk, OF assms(1-5) pn(2) _ _ m(2), of "32768 * i"] m(1)
    by (auto simp: Let_def data_def assms(6) min_absorb1)
  define old new nbuf where "old = take room (take (32768 * i) c)" and "new = take room (take (32768 * Suc i) c)"
    and "nbuf = take m data @ drop m buf"
  have "take m nbuf = take m data" using m(1) by (simp add: nbuf_def)
  then have "take m nbuf = take 32768 data" unfolding m_def data_def piece_take(1) .
  then have w: "fwrite room old (take m nbuf) = new"
    unfolding old_def new_def piece_take(2) [symmetric] data_def by (simp only: fwrite_take)
  have "download_loop (loop_os srv chunk) room cancelled handle totals i (int (length c - 32768 * i))
      (int (piece_pos (length c) i)) buf old job st =
    download_loop (loop_os srv chunk) room cancelled handle totals (Suc i) (int (length c - 32768 * Suc i))
      (int (piece_pos (length c) (Suc i))) nbuf new job1 st1"
    using assms(9,11,12,13) st1(1) [folded nbuf_def] pn w
    by (subst download_loop.simps) (simp add: user_acts_def Let_def)
  then show thesis using that [of nbuf st1] st1 m assms(10) by (simp add: old_def new_def nbuf_def m_def)
qed

lemma download_loop_server:
  assumes "quiet st" "serves_reads srv (word_of_int handle) content piece"
    "0 < sectorSize st" "sectorSize st \<le> 65523" "prompt chunk (partialReadThreshold st)"
    "c = content (fst (world st))" "length c < 2 ^ 63" "counter st + int (length c - 32768 * i) \<le> int_max"
    "i \<le> n" "\<And>j. j < n \<Longrightarrow> \<not> cancelled j" "length c \<le> 32768 * n \<or> cancelled n"
    "length buf = 32768" "sj_state job \<noteq> SFTP_JOB_STATE_STOPPED"
  shows "\<exists>job' st'. download_loop (loop_os srv chunk) room cancelled handle totals i (int (length c - 32768 * i))
        (int (piece_pos (length c) i)) buf (take room (take (32768 * i) c)) job st =
      Some (if length c \<le> 32768 * n then Copied else Stopped, take room (take (32768 * n) c), job', st') \<and>
    session_kept st (length c - 32768 * i) st' \<and> fst (world st') = fst (world st) \<and> job_kept job job' \<and>
    (32768 * n < length c \<longrightarrow> sj_state job' = SFTP_JOB_STATE_STOPPED)"
  using assms
proof (induction "n - i" arbitrary: i buf job st)
  case 0
  then have n: "i = n" by simp
  show ?case
  proof (cases "length c \<le> 32768 * n")
    case True
    then show ?thesis using n "0.prems"(1) by (subst download_loop.simps) (simp add: session_kept_def)
  next
    case False
    then show ?thesis using n "0.prems"(1,11)
      by (subst download_loop.simps) (simp add: session_kept_def user_acts_def)
  qed
next
  case (Suc d)
  then have i: "i < n" "\<not> cancelled i" by simp_all
  show ?case
  proof (cases "length c \<le> 32768 * i")
    case True
    then have "length c \<le> 32768 * n" using i(1) by simp
    then show ?thesis using True Suc.prems(1) by (subst download_loop.simps) (simp add: session_kept_def)
  next
    case False
    define job1 where "job1 = SftpJob_updateStatistics (int (piece_pos (length c) (Suc i))) totals job"
    obtain buf1 st1 where st1: "download_loop (loop_os srv chunk) room cancelled handle totals i (int (length c - 32768 * i))
        (int (piece_pos (length c) i)) buf (take room (take (32768 * i) c)) job st =
      download_loop (loop_os srv chunk) room cancelled handle totals (Suc i) (int (length c - 32768 * Suc i))
        (int (piece_pos (length c) (Suc i))) buf1 (take room (take (32768 * Suc i) c)) job1 st1"
      "session_kept st (piece_len (length c) i) st1" "fst (world st1) = fst (world st)" "length buf1 = 32768"
      by (rule download_step [where chunk = chunk and srv = srv and content = content and c = c and i = i
            and cancelled = cancelled and handle = handle and room = room and buf = buf and st = st and job = job
            and totals = totals, OF Suc.prems(1-8) i(2) Suc.prems(12,13) _ job1_def]) (use False in auto)
    have "session_kept st1 (length c - 32768 * Suc i) st' \<Longrightarrow> session_kept st (length c - 32768 * i) st'" for st'
      using session_kept_trans [OF st1(2)] piece_next(6) [of i "length c"] False by simp
    moreover have "\<exists>job' st'. download_loop (loop_os srv chunk) room cancelled handle totals (Suc i) (int (length c - 32768 * Suc i))
        (int (piece_pos (length c) (Suc i))) buf1 (take room (take (32768 * Suc i) c)) job1 st1 =
      Some (if length c \<le> 32768 * n then Copied else Stopped, take room (take (32768 * n) c), job', st') \<and>
      session_kept st1 (length c - 32768 * Suc i) st' \<and> fst (world st') = fst (world st1) \<and> job_kept job1 job' \<and>
      (32768 * n < length c \<longrightarrow> sj_state job' = SFTP_JOB_STATE_STOPPED)"
      by (rule Suc.hyps(1)) (use Suc.prems Suc.hyps(2) st1 i(1) piece_next(6) [of i "length c"] False in
          \<open>auto simp: session_kept_def job1_def\<close>)
    ultimately show ?thesis unfolding st1(1) using st1(3) by (auto simp: job1_def)
  qed
qed

text \<open>
  A server with one file: its size, an open for reading, one that truncates, reads, writes and the close.
\<close>

definition serves_file ::
    "('s \<Rightarrow> byte list \<Rightarrow> 's \<times> byte list) \<Rightarrow> byte list \<Rightarrow> u32 \<Rightarrow> ('s \<Rightarrow> byte list) \<Rightarrow> (nat \<Rightarrow> nat \<Rightarrow> nat) \<Rightarrow> bool" where
  "serves_file srv path h content piece \<longleftrightarrow>
     serves_reads srv h content piece \<and> serves_writes srv h content \<and>
     (\<forall>s ident. \<exists>s'. srv s (frame ident SSH2_FXP_STAT_VERSION_0 (be32 (len32 path) @ path)) =
        (s', frame ident SSH2_FXP_ATTRS (attr_bytes (stat_answer (length (content s))))) \<and> content s' = content s) \<and>
     (\<forall>s ident. \<exists>s'. srv s (frame ident SSH2_FXP_OPEN (be32 (len32 path) @ path @ be32 (ucast SSH2_FXP_OPEN) @ be32 0)) =
        (s', frame ident SSH2_FXP_HANDLE (be32 4 @ be32 h)) \<and> content s' = content s) \<and>
     (\<forall>s ident. \<exists>s'. srv s (frame ident SSH2_FXP_OPEN (be32 (len32 path) @ path @
            be32 (SSH2_FXF_WRITE OR SSH2_FXF_CREAT OR SSH2_FXF_TRUNC) @ be32 0)) =
        (s', frame ident SSH2_FXP_HANDLE (be32 4 @ be32 h)) \<and> content s' = []) \<and>
     (\<forall>s ident. \<exists>s' code. srv s (frame ident SSH2_FXP_CLOSE (be32 4 @ be32 h)) =
        (s', frame ident SSH2_FXP_STATUS (be32 code)) \<and> content s' = content s)"

lemma serves_fileD:
  assumes "serves_file srv path h content piece"
  shows "serves_reads srv h content piece" "serves_writes srv h content"
    "\<forall>s ident. \<exists>s'. srv s (frame ident SSH2_FXP_STAT_VERSION_0 (be32 (len32 path) @ path)) =
        (s', frame ident SSH2_FXP_ATTRS (attr_bytes (stat_answer (length (content s))))) \<and> content s' = content s"
    "\<forall>s ident. \<exists>s'. srv s (frame ident SSH2_FXP_OPEN (be32 (len32 path) @ path @ be32 (ucast SSH2_FXP_OPEN) @ be32 0)) =
        (s', frame ident SSH2_FXP_HANDLE (be32 4 @ be32 h)) \<and> content s' = content s"
    "\<forall>s ident. \<exists>s'. srv s (frame ident SSH2_FXP_OPEN (be32 (len32 path) @ path @
            be32 (SSH2_FXF_WRITE OR SSH2_FXF_CREAT OR SSH2_FXF_TRUNC) @ be32 0)) =
        (s', frame ident SSH2_FXP_HANDLE (be32 4 @ be32 h)) \<and> content s' = []"
    "\<forall>s ident. \<exists>s' code. srv s (frame ident SSH2_FXP_CLOSE (be32 4 @ be32 h)) =
        (s', frame ident SSH2_FXP_STATUS (be32 code)) \<and> content s' = content s"
  by (insert assms, unfold serves_file_def, (elim conjE, assumption)+)

text \<open>The end of a worker that was not failed.\<close>

lemma finish_server:
  assumes "quiet st" "counter st < int_max" "\<forall>s ident. \<exists>s' code. srv s (frame ident SSH2_FXP_CLOSE (be32 4 @ be32 h)) =
        (s', frame ident SSH2_FXP_STATUS (be32 code)) \<and> content s' = content s" "e \<noteq> Failed"
    "1 < sj_refCount job" "sj_refCount job \<le> int_max"
  obtains job' st' where "finish_worker (loop_os srv chunk) e (uint h) job st = Some (0, job', st')"
    "session_kept st 1 st'" "content (fst (world st')) = content (fst (world st))"
    "sj_refCount job' = sj_refCount job - 1" "sj_deleted job' = sj_deleted job"
    "sj_state job' = (if e = Copied then SFTP_JOB_STATE_FINISHED else sj_state job)" "sj_files job' = sj_files job"
proof -
  obtain s' code where c: "srv (fst (world st)) (frame (word_of_int (counter st)) SSH2_FXP_CLOSE (be32 4 @ be32 (word_of_int (uint h)))) =
      (s', frame (word_of_int (counter st)) SSH2_FXP_STATUS (be32 code))" "content s' = content (fst (world st))"
    using assms(3) unfolding word_of_int_uint by blast
  obtain st' where st': "SftpClient_close (loop_os srv chunk) (uint h) st = Some (code, st')" "session_kept st 1 st'"
      "fst (world st') = s'"
    using close_server [where chunk = chunk and srv = srv and st = st, OF assms(1,2) refl c(1)] .
  have h: "uint h \<noteq> -1" using uint_ge_0 [of h] by linarith
  define job1 where "job1 = (if e = Copied then SftpJob_setState SFTP_JOB_STATE_FINISHED job else job)"
  have j: "SftpJob_release job1 = Some (job1\<lparr>sj_refCount := sj_refCount job - 1\<rparr>)"
    using sftp_refs(2) [of job1] assms(5,6) by (simp add: job1_def)
  have "finish_worker (loop_os srv chunk) e (uint h) job st = Some (0, job1\<lparr>sj_refCount := sj_refCount job - 1\<rparr>, st')"
    using assms(4) st'(1) h j by (cases e) (simp_all add: finish_worker_def job1_def)
  then show thesis using that st' c(2) by (simp add: job1_def)
qed

lemma file_opened:
  assumes "quiet st" "counter st < int_max" "length path \<le> 30000"
    "\<forall>s ident. \<exists>s'. srv s (frame ident SSH2_FXP_OPEN (be32 (len32 path) @ path @ be32 mode @ be32 0)) =
        (s', frame ident SSH2_FXP_HANDLE (be32 4 @ be32 h)) \<and> content s' = g (content s)"
  obtains st' where "SftpClient_open (loop_os srv chunk) path mode 0 st = Some (uint h, st')"
    "session_kept st 1 st'" "content (fst (world st')) = g (content (fst (world st)))"
proof -
  obtain s' where s': "srv (fst (world st)) (frame (word_of_int (counter st)) SSH2_FXP_OPEN (be32 (len32 path) @ path @ be32 mode @ be32 0)) =
      (s', frame (word_of_int (counter st)) SSH2_FXP_HANDLE (be32 4 @ be32 h))" "content s' = g (content (fst (world st)))"
    using assms(4) by blast
  obtain st' where st': "SftpClient_open (loop_os srv chunk) path mode 0 st = Some (uint h, st')"
      "session_kept st 1 st'" "fst (world st') = s'"
    by (rule open_server [where chunk = chunk and srv = srv and st = st, OF assms(1-3) refl s'(1)])
  then show thesis using that [of st'] s'(2) by simp
qed

lemma file_size:
  assumes "quiet st" "counter st < int_max" "length path \<le> 30000" "serves_file srv path h content piece"
  obtains st' where "SftpClient_stat (loop_os srv chunk) (Some path) (Some junk) st =
      Some (0, Some (stat_answer (length (content (fst (world st))))), st')"
    "session_kept st 1 st'" "content (fst (world st')) = content (fst (world st))"
proof -
  obtain s' where s': "srv (fst (world st)) (frame (word_of_int (counter st)) SSH2_FXP_STAT_VERSION_0 (be32 (len32 path) @ path)) =
      (s', frame (word_of_int (counter st)) SSH2_FXP_ATTRS (attr_bytes (stat_answer (length (content (fst (world st)))))))"
      "content s' = content (fst (world st))"
    using serves_fileD(3) [OF assms(4)] by blast
  obtain st' where st': "SftpClient_stat (loop_os srv chunk) (Some path) (Some junk) st =
      Some (0, Some (stat_answer (length (content (fst (world st))))), st')" "session_kept st 1 st'" "fst (world st') = s'"
    by (rule stat_server [where chunk = chunk and srv = srv and st = st and junk = junk, OF assms(1-3) stat_answer_normal refl s'(1)])
  then show thesis using that [of st'] s'(2) by simp
qed

text \<open>
  The local part of the requirements on a session: the sector size leaves room for the headers, numbers are left for the
  requests, and the time limits of partial reads and writes are not exceeded.
\<close>

definition usable :: "(nat \<Rightarrow> nat \<times> real) \<Rightarrow> 's loop_world sftp \<Rightarrow> nat \<Rightarrow> bool" where
  "usable chunk st n \<longleftrightarrow> quiet st \<and> 0 < sectorSize st \<and> sectorSize st \<le> 65507 \<and> prompt chunk (partialReadThreshold st) \<and>
     prompt chunk (partialWriteThreshold st) \<and> counter st + int n \<le> int_max"

lemma usable_kept: "usable chunk st n \<Longrightarrow> session_kept st m st' \<Longrightarrow> m + k \<le> n \<Longrightarrow> usable chunk st' k"
  by (auto simp: usable_def session_kept_def)

lemma usableD: "usable chunk st n \<Longrightarrow> quiet st" "usable chunk st n \<Longrightarrow> 0 < n \<Longrightarrow> counter st < int_max"
  by (simp_all add: usable_def)

lemma sint_size: "n < 2 ^ 63 \<Longrightarrow> sint (attr_size (stat_answer n)) = int n"
  by (simp add: stat_answer_def no_attr_def signed_of_nat sint_word_ariths signed_take_bit_int_eq_self)

lemma download_worker:
  assumes "usable chunk st (length c + 3)" "serves_file srv (sj_remoteName job) h content piece"
    "c = content (fst (world st))" "length c < 2 ^ 63" "length (sj_remoteName job) \<le> 30000"
    "sj_state job = SFTP_JOB_STATE_PENDING" "0 < sj_refCount job" "sj_refCount job < int_max"
    "l_create los (sj_localName job)" "length buf = 32768"
    "\<And>j. j < n \<Longrightarrow> \<not> cancelled j" "length c \<le> 32768 * n \<or> cancelled n"
  shows "\<exists>job' st'. SftpClient_DownloadFileWorker (loop_os srv chunk) los cancelled junk buf job st fs =
      Some (0, job', st', fs(sj_localName job \<mapsto> take (l_room los) (take (32768 * n) c))) \<and>
    session_kept st (length c + 3) st' \<and> content (fst (world st')) = c \<and>
    sj_refCount job' = sj_refCount job \<and> sj_deleted job' = sj_deleted job \<and>
    sj_state job' = (if length c \<le> 32768 * n then SFTP_JOB_STATE_FINISHED else SFTP_JOB_STATE_STOPPED)"
proof -
  let ?os = "loop_os srv chunk" and ?path = "sj_remoteName job"
  define job0 where "job0 = job\<lparr>sj_refCount := sj_refCount job + 1\<rparr>"
  have j0: "SftpJob_addRef job = Some job0" "sj_state job0 = SFTP_JOB_STATE_PENDING" "sj_remoteName job0 = ?path"
      "sj_localName job0 = sj_localName job"
    using assms(6-8) sftp_refs(1) [of job] by (simp_all add: job0_def)
  note u = assms(1)
  obtain st1 where st1: "SftpClient_stat ?os (Some ?path) (Some junk) st = Some (0, Some (stat_answer (length c)), st1)"
      "session_kept st 1 st1" "content (fst (world st1)) = c"
    using file_size [where chunk = chunk, OF usableD [OF u] assms(5,2), of junk] assms(3) by auto
  have u1: "usable chunk st1 (length c + 2)" using usable_kept [OF u st1(2)] by simp
  obtain st2 where st2: "SftpClient_open ?os ?path (ucast SSH2_FXP_OPEN) 0 st1 = Some (uint h, st2)"
      "session_kept st1 1 st2" "content (fst (world st2)) = c"
    using file_opened [where chunk = chunk and g = "\<lambda>x. x", OF usableD [OF u1] assms(5) serves_fileD(4) [OF assms(2)]] st1(3) by auto
  have u2: "usable chunk st2 (length c + 1)" using usable_kept [OF u1 st2(2)] by simp
  define e where "e = (if length c \<le> 32768 * n then Copied else Stopped)"
  then have ef: "e \<noteq> Failed" by simp
  obtain job3 st3 where st3: "download_loop ?os (l_room los) cancelled (uint h) (int (length c)) 0 (int (length c)) 0 buf [] job0 st2 =
        Some (e, take (l_room los) (take (32768 * n) c), job3, st3)"
      "session_kept st2 (length c) st3" "fst (world st3) = fst (world st2)" "job_kept job0 job3"
      "e \<noteq> Copied \<longrightarrow> sj_state job3 = SFTP_JOB_STATE_STOPPED"
    using download_loop_server [where chunk = chunk and srv = srv and i = 0 and c = c and content = content and handle = "uint h"
        and piece = piece and n = n and cancelled = cancelled and buf = buf and job = job0 and st = st2 and room = "l_room los"
        and totals = "int (length c)"]
      serves_fileD(1) [OF assms(2)] u2 st2(3) assms(4,10-12) j0(2)
    by (auto simp: usable_def e_def sftp_job_defs)
  have u3: "usable chunk st3 1" using usable_kept [OF u2 st3(2)] by simp
  have r3: "1 < sj_refCount job3" "sj_refCount job3 \<le> int_max" "sj_localName job3 = sj_localName job"
    using st3(4) assms(7,8) by (simp_all add: job_kept_def job0_def)
  obtain job' st' where f: "finish_worker ?os e (uint h) job3 st3 = Some (0, job', st')"
      "session_kept st3 1 st'" "content (fst (world st')) = content (fst (world st3))"
      "sj_refCount job' = sj_refCount job3 - 1" "sj_deleted job' = sj_deleted job3"
      "sj_state job' = (if e = Copied then SFTP_JOB_STATE_FINISHED else sj_state job3)"
    by (rule finish_server [where chunk = chunk, OF usableD(1) [OF u3] usableD(2) [OF u3 zero_less_one] serves_fileD(6) [OF assms(2)] ef r3(1,2)])
  have h: "uint h \<noteq> -1" using uint_ge_0 [of h] by linarith
  have "SftpClient_DownloadFileWorker ?os los cancelled junk buf job st fs =
      Some (0, job', st', fs(sj_localName job \<mapsto> take (l_room los) (take (32768 * n) c)))"
    using j0 st1(1) st2(1) st3(1) f(1) h r3(3) assms(9) sint_size [OF assms(4)]
    by (simp add: SftpClient_DownloadFileWorker_def sftp_job_defs)
  moreover have "session_kept st (length c + 3) st'"
    using st1(2) st2(2) st3(2) f(2) by (simp add: session_kept_def)
  moreover have "sj_refCount job' = sj_refCount job" "sj_deleted job' = sj_deleted job"
    using f(4,5) st3(4) by (simp_all add: job_kept_def job0_def)
  moreover have "sj_state job' = (if length c \<le> 32768 * n then SFTP_JOB_STATE_FINISHED else SFTP_JOB_STATE_STOPPED)"
    using f(6) st3(5) by (auto simp: e_def)
  moreover have "content (fst (world st')) = c" using f(3) st3(3) st2(3) by simp
  ultimately show ?thesis by blast
qed

section \<open>Uploading\<close>

lemma splice_end: "splice c (length c) d = c @ d"
  by (simp add: splice_def)

lemma upload_step:
  assumes "quiet st" "serves_writes srv (word_of_int handle) content"
    "0 < sectorSize st" "sectorSize st \<le> 65507" "prompt chunk (partialWriteThreshold st)"
    "content (fst (world st)) = take (32768 * i) c" "length c < 2 ^ 63" "counter st + int (length c - 32768 * i) \<le> int_max"
    "\<not> cancelled i" "length buf = 32768" "sj_state job \<noteq> SFTP_JOB_STATE_STOPPED" "32768 * i < length c"
    "job1 = SftpJob_updateStatistics (int (piece_pos (length c) (Suc i))) totals job"
  obtains buf1 st1 where
    "upload_loop (loop_os srv chunk) cancelled handle totals i (int (length c - 32768 * i))
        (int (piece_pos (length c) i)) buf c job st =
      upload_loop (loop_os srv chunk) cancelled handle totals (Suc i) (int (length c - 32768 * Suc i))
        (int (piece_pos (length c) (Suc i))) buf1 c job1 st1"
    "session_kept st (piece_len (length c) i) st1" "content (fst (world st1)) = take (32768 * Suc i) c" "length buf1 = 32768"
proof -
  define m where "m = piece_len (length c) i"
  note pn = piece_next [OF assms(12), folded m_def]
  define d where "d = take m (drop (32768 * i) c)"
  define buf1 where "buf1 = d @ drop (length d) buf"
  have m: "m \<le> length buf" "m \<le> length c - 32768 * i" using assms(10) by (simp_all add: m_def piece_len_def)
  have d: "length d = m" "d = take 32768 (drop (32768 * i) c)"
    using m(2) by (simp add: d_def) (simp add: d_def m_def piece_take(1))
  have cut: "take m (drop (32768 * i) c) = d" "d @ drop m buf = buf1" by (simp_all add: d_def [symmetric] buf1_def d(1))
  have b: "length buf1 = 32768" "take m buf1 = d" using d(1) m(1) assms(10) by (simp_all add: buf1_def)
  have c: "counter st + int m \<le> int_max" "32768 * i + m < 2 ^ 64" "m \<le> length buf1"
    using assms(7,8,10,12) m b(1) by simp_all
  obtain st1 where st1: "SftpClient_write (loop_os srv chunk) handle buf1 (word_of_nat (32768 * i)) (int m) st = Some (int m, st1)"
      "session_kept st m st1" "content (fst (world st1)) = splice (take (32768 * i) c) (32768 * i) (take m buf1)"
    using write_file_prompt [where chunk = chunk, OF assms(1-5) pn(2) c] assms(6) by auto
  have "length (take (32768 * i) c) = 32768 * i" using assms(12) by simp
  then have "content (fst (world st1)) = take (32768 * i) c @ d"
    using st1(3) splice_end [of "take (32768 * i) c" d] b(2) by simp
  then have w: "content (fst (world st1)) = take (32768 * Suc i) c" using d(2) piece_take(2) [of i c] by simp
  have "upload_loop (loop_os srv chunk) cancelled handle totals i (int (length c - 32768 * i))
      (int (piece_pos (length c) i)) buf c job st =
    upload_loop (loop_os srv chunk) cancelled handle totals (Suc i) (int (length c - 32768 * Suc i))
      (int (piece_pos (length c) (Suc i))) buf1 c job1 st1"
    using assms(9,11,12,13) st1(1) pn d(1) cut nat_mult_distrib [of 32768 "int i"]
    by (subst upload_loop.simps) (simp add: user_acts_def Let_def)
  then show thesis using that [of buf1 st1] st1(2) b(1) w by (simp add: m_def)
qed

lemma upload_loop_server:
  assumes "quiet st" "serves_writes srv (word_of_int handle) content"
    "0 < sectorSize st" "sectorSize st \<le> 65507" "prompt chunk (partialWriteThreshold st)"
    "content (fst (world st)) = take (32768 * i) c" "length c < 2 ^ 63" "counter st + int (length c - 32768 * i) \<le> int_max"
    "i \<le> n" "\<And>j. j < n \<Longrightarrow> \<not> cancelled j" "length c \<le> 32768 * n \<or> cancelled n"
    "length buf = 32768" "sj_state job \<noteq> SFTP_JOB_STATE_STOPPED"
  shows "\<exists>job' st'. upload_loop (loop_os srv chunk) cancelled handle totals i (int (length c - 32768 * i))
        (int (piece_pos (length c) i)) buf c job st =
      Some (if length c \<le> 32768 * n then Copied else Stopped, job', st') \<and>
    session_kept st (length c - 32768 * i) st' \<and> content (fst (world st')) = take (32768 * n) c \<and> job_kept job job' \<and>
    (32768 * n < length c \<longrightarrow> sj_state job' = SFTP_JOB_STATE_STOPPED)"
  using assms
proof (induction "n - i" arbitrary: i buf job st)
  case 0
  then have n: "i = n" by simp
  show ?case
  proof (cases "length c \<le> 32768 * n")
    case True
    then show ?thesis using n "0.prems"(1,6) by (subst upload_loop.simps) (simp add: session_kept_def)
  next
    case False
    then show ?thesis using n "0.prems"(1,6,11)
      by (subst upload_loop.simps) (simp add: session_kept_def user_acts_def)
  qed
next
  case (Suc d)
  then have i: "i < n" "\<not> cancelled i" by simp_all
  show ?case
  proof (cases "length c \<le> 32768 * i")
    case True
    then have "length c \<le> 32768 * n" using i(1) by simp
    then show ?thesis using True Suc.prems(1,6) by (subst upload_loop.simps) (simp add: session_kept_def)
  next
    case False
    define job1 where "job1 = SftpJob_updateStatistics (int (piece_pos (length c) (Suc i))) totals job"
    obtain buf1 st1 where st1: "upload_loop (loop_os srv chunk) cancelled handle totals i (int (length c - 32768 * i))
        (int (piece_pos (length c) i)) buf c job st =
      upload_loop (loop_os srv chunk) cancelled handle totals (Suc i) (int (length c - 32768 * Suc i))
        (int (piece_pos (length c) (Suc i))) buf1 c job1 st1"
      "session_kept st (piece_len (length c) i) st1" "content (fst (world st1)) = take (32768 * Suc i) c" "length buf1 = 32768"
      by (rule upload_step [where chunk = chunk and srv = srv and content = content and c = c and i = i
            and cancelled = cancelled and handle = handle and buf = buf and st = st and job = job
            and totals = totals, OF Suc.prems(1-8) i(2) Suc.prems(12,13) _ job1_def]) (use False in auto)
    have "session_kept st1 (length c - 32768 * Suc i) st' \<Longrightarrow> session_kept st (length c - 32768 * i) st'" for st'
      using session_kept_trans [OF st1(2)] piece_next(6) [of i "length c"] False by simp
    moreover have "\<exists>job' st'. upload_loop (loop_os srv chunk) cancelled handle totals (Suc i) (int (length c - 32768 * Suc i))
        (int (piece_pos (length c) (Suc i))) buf1 c job1 st1 =
      Some (if length c \<le> 32768 * n then Copied else Stopped, job', st') \<and>
      session_kept st1 (length c - 32768 * Suc i) st' \<and> content (fst (world st')) = take (32768 * n) c \<and> job_kept job1 job' \<and>
      (32768 * n < length c \<longrightarrow> sj_state job' = SFTP_JOB_STATE_STOPPED)"
      by (rule Suc.hyps(1)) (use Suc.prems Suc.hyps(2) st1 i(1) piece_next(6) [of i "length c"] False in
          \<open>auto simp: session_kept_def job1_def\<close>)
    ultimately show ?thesis unfolding st1(1) by (auto simp: job1_def)
  qed
qed

lemma upload_worker:
  assumes "usable chunk st (length c + 2)" "serves_file srv (sj_remoteName job) h content piece"
    "fs (sj_localName job) = Some c" "length c < 2 ^ 63" "length (sj_remoteName job) \<le> 30000"
    "sj_state job = SFTP_JOB_STATE_PENDING" "0 < sj_refCount job" "sj_refCount job < int_max"
    "l_open los (sj_localName job)" "length buf = 32768"
    "\<And>j. j < n \<Longrightarrow> \<not> cancelled j" "length c \<le> 32768 * n \<or> cancelled n"
  shows "\<exists>job' st'. SftpClient_UploadFileWorker (loop_os srv chunk) los cancelled buf job st fs = Some (0, job', st') \<and>
    session_kept st (length c + 2) st' \<and> content (fst (world st')) = take (32768 * n) c \<and>
    sj_refCount job' = sj_refCount job \<and> sj_deleted job' = sj_deleted job \<and>
    sj_state job' = (if length c \<le> 32768 * n then SFTP_JOB_STATE_FINISHED else SFTP_JOB_STATE_STOPPED)"
proof -
  let ?os = "loop_os srv chunk" and ?path = "sj_remoteName job"
  define job0 where "job0 = job\<lparr>sj_refCount := sj_refCount job + 1\<rparr>"
  have j0: "SftpJob_addRef job = Some job0" "sj_state job0 = SFTP_JOB_STATE_PENDING" "sj_remoteName job0 = ?path"
      "sj_localName job0 = sj_localName job"
    using assms(6-8) sftp_refs(1) [of job] by (simp_all add: job0_def)
  obtain st2 where st2: "SftpClient_open ?os ?path (SSH2_FXF_WRITE OR SSH2_FXF_CREAT OR SSH2_FXF_TRUNC) 0 st = Some (uint h, st2)"
      "session_kept st 1 st2" "content (fst (world st2)) = []"
    using file_opened [where chunk = chunk and g = "\<lambda>x. []", OF usableD [OF assms(1)] assms(5) serves_fileD(5) [OF assms(2)]] by auto
  have u2: "usable chunk st2 (length c + 1)" using usable_kept [OF assms(1) st2(2)] by simp
  define e where "e = (if length c \<le> 32768 * n then Copied else Stopped)"
  then have ef: "e \<noteq> Failed" by simp
  obtain job3 st3 where st3: "upload_loop ?os cancelled (uint h) (int (length c)) 0 (int (length c)) 0 buf c job0 st2 =
        Some (e, job3, st3)"
      "session_kept st2 (length c) st3" "content (fst (world st3)) = take (32768 * n) c" "job_kept job0 job3"
      "e \<noteq> Copied \<longrightarrow> sj_state job3 = SFTP_JOB_STATE_STOPPED"
    using upload_loop_server [where chunk = chunk and srv = srv and i = 0 and c = c and content = content and handle = "uint h"
        and n = n and cancelled = cancelled and buf = buf and job = job0 and st = st2 and totals = "int (length c)"]
      serves_fileD(2) [OF assms(2)] u2 st2(3) assms(4,10-12) j0(2)
    by (auto simp: usable_def e_def sftp_job_defs)
  have u3: "usable chunk st3 1" using usable_kept [OF u2 st3(2)] by simp
  have r3: "1 < sj_refCount job3" "sj_refCount job3 \<le> int_max"
    using st3(4) assms(7,8) by (simp_all add: job_kept_def job0_def)
  obtain job' st' where f: "finish_worker ?os e (uint h) job3 st3 = Some (0, job', st')"
      "session_kept st3 1 st'" "content (fst (world st')) = content (fst (world st3))"
      "sj_refCount job' = sj_refCount job3 - 1" "sj_deleted job' = sj_deleted job3"
      "sj_state job' = (if e = Copied then SFTP_JOB_STATE_FINISHED else sj_state job3)"
    by (rule finish_server [where chunk = chunk, OF usableD(1) [OF u3] usableD(2) [OF u3 zero_less_one] serves_fileD(6) [OF assms(2)] ef r3])
  have h: "uint h \<noteq> -1" using uint_ge_0 [of h] by linarith
  have "SftpClient_UploadFileWorker ?os los cancelled buf job st fs = Some (0, job', st')"
    using j0 st2(1) st3(1) f(1) h assms(3,9) by (simp add: SftpClient_UploadFileWorker_def sftp_job_defs)
  moreover have "session_kept st (length c + 2) st'"
    using st2(2) st3(2) f(2) by (simp add: session_kept_def)
  moreover have "sj_refCount job' = sj_refCount job" "sj_deleted job' = sj_deleted job"
    using f(4,5) st3(4) by (simp_all add: job_kept_def job0_def)
  moreover have "sj_state job' = (if length c \<le> 32768 * n then SFTP_JOB_STATE_FINISHED else SFTP_JOB_STATE_STOPPED)"
    using f(6) st3(5) by (auto simp: e_def)
  ultimately show ?thesis using f(3) st3(3) by auto
qed

section \<open>Listing\<close>

text \<open>A listing with at most \<open>n\<close> requests is through when there was a marker or the end of the directory.\<close>

definition list_through :: "nat \<Rightarrow> dir_entry list list \<Rightarrow> bool" where
  "list_through n bs \<longleftrightarrow> length bs < n \<or> list_ex (list_ex is_marker) (take n bs)"

lemma list_through_simps [simp]:
  "\<not> list_through 0 bs" "list_through (Suc n) []"
  "list_through (Suc n) (es # bs) \<longleftrightarrow> list_ex is_marker es \<or> list_through n bs"
  by (auto simp: list_through_def)

lemma list_loop_server:
  assumes "quiet st" "counter st + int (length bs) < int_max" "serves_dir srv (word_of_int handle) batches"
    "batches (fst (world st)) = bs" "list_all batch_ok bs"
    "\<And>j. j < n \<Longrightarrow> \<not> cancelled (i + j)" "list_through n bs \<or> cancelled (i + n)"
    "sj_state job \<noteq> SFTP_JOB_STATE_STOPPED"
  shows "\<exists>job' st'. list_loop (loop_os srv chunk) cancelled handle i job st =
      Some (if list_through n bs then Copied else Stopped, job', st') \<and>
    session_kept st (length bs + 1) st' \<and> job_kept job job' \<and> sj_files job' = sj_files job @ listing (take n bs) \<and>
    (\<not> list_through n bs \<longrightarrow> sj_state job' = SFTP_JOB_STATE_STOPPED)"
  using assms
proof (induction n arbitrary: i bs job st)
  case 0
  then have "GenerateUniqueId st = Some (counter st, st\<lparr>counter := counter st + 1\<rparr>)" "quiet (st\<lparr>counter := counter st + 1\<rparr>)"
    using quiet_number [of st] by simp_all
  then show ?case using "0.prems"(7)
    by (subst list_loop.simps) (simp add: user_acts_def session_kept_step settings_def SftpJob_cancel_def)
next
  case (Suc n)
  have c: "counter st < int_max" and i: "\<not> cancelled i" using Suc.prems(2) Suc.prems(6) [of 0] by simp_all
  define new where "new = (case bs of [] \<Rightarrow> [] | es # _ \<Rightarrow> map fst (filter (\<lambda>e. \<not> is_marker e) es))"
  obtain st1 where st1: "names_step (loop_os srv chunk) handle (sj_files job) st =
      Some (True, sj_files job @ new, (case bs of [] \<Rightarrow> False | es # _ \<Rightarrow> \<not> list_ex is_marker es), bs \<noteq> [], st1)"
      "quiet st1" "settings st1 = settings (st\<lparr>counter := counter st + 1\<rparr>)" "batches (fst (world st1)) = tl bs"
    by (rule names_step_server [where chunk = chunk and files = "sj_files job", OF Suc.prems(1) c Suc.prems(3-5), folded new_def])
  have k1: "session_kept st 1 st1" using st1(2,3) by (simp add: session_kept_step)
  define job1 where "job1 = (if bs \<noteq> [] then SftpJob_triggerNotifyCallback SFTP_JOB_NOTIFY_FILES_LIST_ARRIVED (job\<lparr>sj_files := sj_files job @ new\<rparr>)
      else job\<lparr>sj_files := sj_files job @ new\<rparr>)"
  have j1: "job_kept j job1 = job_kept j job" "job_kept job1 j = job_kept job j" "sj_files job1 = sj_files job @ new" "sj_state job1 = sj_state job" for j
    by (simp_all add: job1_def job_kept_def)
  have step: "list_loop (loop_os srv chunk) cancelled handle i job st =
     (if (case bs of [] \<Rightarrow> False | es # _ \<Rightarrow> \<not> list_ex is_marker es)
      then list_loop (loop_os srv chunk) cancelled handle (Suc i) job1 st1 else Some (Copied, job1, st1))"
    using i st1(1) Suc.prems(8) by (subst list_loop.simps) (simp add: user_acts_def job1_def Let_def)
  show ?case
  proof (cases bs)
    case Nil
    then show ?thesis using step j1 st1 by (simp add: session_kept_step new_def)
  next
    case (Cons es ess)
    show ?thesis
    proof (cases "list_ex is_marker es")
      case True
      then show ?thesis using step j1 st1 Cons by (simp add: session_kept_step new_def)
    next
      case False
      have "counter st1 = counter st + 1" using st1(3) by (simp add: settings_def)
      then have "\<exists>job' st'. list_loop (loop_os srv chunk) cancelled handle (Suc i) job1 st1 =
          Some (if list_through n ess then Copied else Stopped, job', st') \<and>
        session_kept st1 (length ess + 1) st' \<and> job_kept job1 job' \<and> sj_files job' = sj_files job1 @ listing (take n ess) \<and>
        (\<not> list_through n ess \<longrightarrow> sj_state job' = SFTP_JOB_STATE_STOPPED)"
        using Suc.prems(2,5,7,8) Suc.prems(6) [of "Suc _"] st1(2,4) Cons False j1(4)
        by (intro Suc.IH Suc.prems(3)) simp_all
      then show ?thesis using step Cons False j1 session_kept_trans [OF k1, of "length ess + 1" _ "length bs + 1"]
        by (auto simp: new_def)
    qed
  qed
qed

lemma opendir_server:
  assumes "quiet st" "counter st < int_max" "length path \<le> 30000" "ident = word_of_int (counter st)"
    "srv (fst (world st)) (frame ident SSH2_FXP_OPENDIR (be32 (len32 path) @ path)) =
       (s', frame ident SSH2_FXP_HANDLE (be32 4 @ be32 h))"
  obtains st' where "SftpClient_opendir (loop_os srv chunk) path st = Some (uint h, st')"
    "session_kept st 1 st'" "fst (world st') = s'"
proof -
  let ?id = "word_of_int (counter st) :: u32" and ?b = "be32 (len32 path) @ path"
  have len: "length ?b + 9 \<le> 100000" "length (be32 4 @ be32 h) + 9 \<le> 65536" using assms(3) by simp_all
  obtain st' where st': "SftpClient_processPacket (loop_os srv chunk) (frame ?id SSH2_FXP_OPENDIR ?b) (st\<lparr>counter := counter st + 1\<rparr>) =
      Some (0, frame ?id SSH2_FXP_HANDLE (be32 4 @ be32 h), spent chunk st st', st')"
      "quiet st'" "fst (world st') = s'" "settings st' = settings (st\<lparr>counter := counter st + 1\<rparr>)"
    using exchange [where srv = srv and chunk = chunk, OF assms(1,2) refl len(1) assms(5) [unfolded assms(4)] len(2)] by blast
  have push: "push_items [] [Dword (9 + len32 path), Byte SSH2_FXP_OPENDIR, Dword ?id, Dword (len32 path), Raw path] =
      Some (frame ?id SSH2_FXP_OPENDIR ?b)"
    using push_frame [of "9 + len32 path" "[Dword (len32 path), Raw path]" SSH2_FXP_OPENDIR ?id] assms(3) by simp
  have "\<not> dead st" using assms(1) by (simp add: quiet_def)
  then have "SftpClient_opendir (loop_os srv chunk) path st = Some (uint h, st')"
    using quiet_number(1) [OF assms(1,2)] push st'(1) by (simp add: SftpClient_opendir_def SftpClient_open_def)
  then show thesis using that st' by (simp add: session_kept_step)
qed

text \<open>A server with one directory.\<close>

definition serves_listing ::
    "('s \<Rightarrow> byte list \<Rightarrow> 's \<times> byte list) \<Rightarrow> byte list \<Rightarrow> u32 \<Rightarrow> ('s \<Rightarrow> dir_entry list list) \<Rightarrow> bool" where
  "serves_listing srv path h batches \<longleftrightarrow> serves_dir srv h batches \<and>
     (\<forall>s ident. \<exists>s'. srv s (frame ident SSH2_FXP_OPENDIR (be32 (len32 path) @ path)) =
        (s', frame ident SSH2_FXP_HANDLE (be32 4 @ be32 h)) \<and> batches s' = batches s) \<and>
     (\<forall>s ident. \<exists>s' code. srv s (frame ident SSH2_FXP_CLOSE (be32 4 @ be32 h)) =
        (s', frame ident SSH2_FXP_STATUS (be32 code)))"

lemma list_worker:
  assumes "quiet st" "counter st + int (length bs) + 3 \<le> int_max" "serves_listing srv (sj_remoteName job) h batches"
    "batches (fst (world st)) = bs" "list_all batch_ok bs" "length (sj_remoteName job) \<le> 30000"
    "sj_state job = SFTP_JOB_STATE_PENDING" "0 < sj_refCount job" "sj_refCount job < int_max"
    "\<And>j. j < n \<Longrightarrow> \<not> cancelled j" "list_through n bs \<or> cancelled n"
  shows "\<exists>job' st'. SftpClient_ListFilesWorker (loop_os srv chunk) cancelled job st = Some (0, job', st') \<and>
    session_kept st (length bs + 3) st' \<and> sj_files job' = sj_files job @ listing (take n bs) \<and>
    sj_refCount job' = sj_refCount job \<and> sj_deleted job' = sj_deleted job \<and>
    sj_state job' = (if list_through n bs then SFTP_JOB_STATE_FINISHED else SFTP_JOB_STATE_STOPPED)"
proof -
  let ?os = "loop_os srv chunk" and ?path = "sj_remoteName job"
  define job0 where "job0 = job\<lparr>sj_refCount := sj_refCount job + 1\<rparr>"
  have j0: "SftpJob_addRef job = Some job0" "sj_state job0 = SFTP_JOB_STATE_PENDING" "sj_remoteName job0 = ?path"
    using assms(7-9) sftp_refs(1) [of job] by (simp_all add: job0_def)
  note srv = assms(3) [unfolded serves_listing_def]
  obtain s' where s': "srv (fst (world st)) (frame (word_of_int (counter st)) SSH2_FXP_OPENDIR (be32 (len32 ?path) @ ?path)) =
      (s', frame (word_of_int (counter st)) SSH2_FXP_HANDLE (be32 4 @ be32 h))" "batches s' = bs"
    using srv assms(4) by blast
  have c: "counter st < int_max" using assms(2) by simp
  obtain st2 where st2: "SftpClient_opendir ?os ?path st = Some (uint h, st2)" "session_kept st 1 st2" "fst (world st2) = s'"
    by (rule opendir_server [where chunk = chunk and srv = srv and st = st, OF assms(1) c assms(6) refl s'(1)])
  have q2: "quiet st2" "counter st2 + int (length bs) < int_max" using st2(2) assms(2) by (auto simp: session_kept_def)
  define e where "e = (if list_through n bs then Copied else Stopped)"
  then have ef: "e \<noteq> Failed" by simp
  obtain job3 st3 where st3: "list_loop ?os cancelled (uint h) 0 job0 st2 = Some (e, job3, st3)"
      "session_kept st2 (length bs + 1) st3" "job_kept job0 job3" "sj_files job3 = sj_files job @ listing (take n bs)"
      "e \<noteq> Copied \<longrightarrow> sj_state job3 = SFTP_JOB_STATE_STOPPED"
    using list_loop_server [where chunk = chunk and srv = srv and i = 0 and handle = "uint h" and n = n and cancelled = cancelled
        and job = job0 and st = st2 and bs = bs and batches = batches] srv q2 st2(3) s'(2) assms(5,10,11) j0(2)
    by (auto simp: e_def sftp_job_defs job0_def)
  have q3: "quiet st3" "counter st3 < int_max" using st3(2) st2(2) assms(2) by (auto simp: session_kept_def)
  have r3: "1 < sj_refCount job3" "sj_refCount job3 \<le> int_max"
    using st3(3) assms(8,9) by (simp_all add: job_kept_def job0_def)
  have cl: "\<forall>s ident. \<exists>s' code. srv s (frame ident SSH2_FXP_CLOSE (be32 4 @ be32 h)) =
      (s', frame ident SSH2_FXP_STATUS (be32 code)) \<and> (\<lambda>x. ()) s' = (\<lambda>x. ()) s" using srv by simp
  obtain job' st' where f: "finish_worker ?os e (uint h) job3 st3 = Some (0, job', st')"
      "session_kept st3 1 st'" "(\<lambda>x. ()) (fst (world st')) = (\<lambda>x. ()) (fst (world st3))"
      "sj_refCount job' = sj_refCount job3 - 1" "sj_deleted job' = sj_deleted job3"
      "sj_state job' = (if e = Copied then SFTP_JOB_STATE_FINISHED else sj_state job3)" "sj_files job' = sj_files job3"
    by (rule finish_server [where chunk = chunk and content = "\<lambda>x. ()", OF q3 cl ef r3])
  have h: "uint h \<noteq> -1" "\<not> uint h < 0" using uint_ge_0 [of h] by linarith+
  have "SftpClient_ListFilesWorker ?os cancelled job st = Some (0, job', st')"
    using j0 st2(1) st3(1) f(1) h by (simp add: SftpClient_ListFilesWorker_def sftp_job_defs)
  moreover have "session_kept st (length bs + 3) st'"
    using st2(2) st3(2) f(2) by (simp add: session_kept_def)
  moreover have "sj_refCount job' = sj_refCount job" "sj_deleted job' = sj_deleted job"
    using f(4,5) st3(3) by (simp_all add: job_kept_def job0_def)
  moreover have "sj_state job' = (if list_through n bs then SFTP_JOB_STATE_FINISHED else SFTP_JOB_STATE_STOPPED)"
    using f(6) st3(5) by (auto simp: e_def)
  ultimately show ?thesis using f(7) st3(4) by auto
qed

section \<open>Any server\<close>

text \<open>Whatever the server does: what a worker that returns has done with its job.\<close>

definition settled :: "int \<Rightarrow> SftpJob \<Rightarrow> SftpJob \<Rightarrow> bool" where
  "settled rc job job' \<longleftrightarrow> sj_refCount job' = sj_refCount job \<and> sj_deleted job' = sj_deleted job \<and>
     (rc = 0 \<and> sj_state job' \<in> {SFTP_JOB_STATE_FINISHED, SFTP_JOB_STATE_STOPPED} \<or> rc = -1 \<and> sj_state job' = SFTP_JOB_STATE_ERROR)"

definition loop_leaves :: "SftpJob \<Rightarrow> xfer_end \<Rightarrow> SftpJob \<Rightarrow> bool" where
  "loop_leaves job e job' \<longleftrightarrow> job_kept job job' \<and> (e = Stopped \<longrightarrow> sj_state job' = SFTP_JOB_STATE_STOPPED)"

lemma user_kept [simp]: "job_kept (user_acts cancelled i job) j = job_kept job j" "job_kept j (user_acts cancelled i job) = job_kept j job"
  by (simp_all add: user_acts_def SftpJob_cancel_def job_kept_def)

lemma download_loop_leaves:
  "download_loop os room cancelled handle totals i b w buf content job st = Some (e, c, job', st') \<Longrightarrow> loop_leaves job e job'"
proof (induction os room cancelled handle totals i b w buf content job st rule: download_loop.induct)
  case (1 os room cancelled handle totals i b w buf content job st)
  show ?case using "1.prems"
    by (subst (asm) download_loop.simps)
      (auto simp: loop_leaves_def Let_def split: if_splits option.splits prod.splits dest!: "1.IH" [OF _ refl])
qed

lemma upload_loop_leaves:
  "upload_loop os cancelled handle totals i b w buf content job st = Some (e, job', st') \<Longrightarrow> loop_leaves job e job'"
proof (induction "nat b" arbitrary: i b w buf job st rule: less_induct)
  case less
  define job0 where "job0 = user_acts cancelled i job"
  define ps where "ps = min SFTP_BUF b"
  define d where "d = take (nat ps) (drop (nat w) content)"
  define buf1 where "buf1 = d @ drop (length d) buf"
  note body = less.prems [unfolded upload_loop.simps [of os _ _ _ _ b], folded job0_def, folded ps_def, unfolded Let_def, folded d_def, folded buf1_def]
  have leaves: "loop_leaves job Failed job0" "loop_leaves job Copied job" by (simp_all add: loop_leaves_def job0_def)
  show ?case
  proof (cases "0 < b \<and> sj_state job0 \<noteq> SFTP_JOB_STATE_STOPPED \<and> int (length d) = ps")
    case False
    then show ?thesis using body leaves by (auto simp: loop_leaves_def job0_def ps_def d_def split: if_splits)
  next
    case True
    then obtain written st1 where w: "SftpClient_write os handle buf1 (word_of_int w) ps st = Some (written, st1)"
      using body by (auto simp: split: option.splits)
    show ?thesis
    proof (cases "written = ps")
      case False
      then show ?thesis using body True w leaves by simp
    next
      case c: True
      have "upload_loop os cancelled handle totals (Suc i) (b - ps) (w + ps) buf1 content
          (SftpJob_updateStatistics (w + ps) totals job0) st1 = Some (e, job', st')" using body True w c by simp
      then have "loop_leaves (SftpJob_updateStatistics (w + ps) totals job0) e job'"
        by (rule less.hyps [rotated]) (use True in \<open>auto simp: ps_def SFTP_BUF_def\<close>)
      then show ?thesis by (simp add: loop_leaves_def job0_def)
    qed
  qed
qed

lemma list_loop_leaves:
  assumes "list_loop os cancelled handle i job st = Some r"
  shows "loop_leaves job (fst r) (fst (snd r))"
proof (rule list_loop.raw_induct [OF _ assms, where P = "\<lambda>os c h i job st r. loop_leaves job (fst r) (fst (snd r))"])
  fix f os cancelled handle i job st r
  assume IH: "\<And>os c h i job st r. f os c h i job st = Some r \<Longrightarrow> loop_leaves job (fst r) (fst (snd r))"
    and body: "(let job = user_acts cancelled i job in
      if sj_state job = SFTP_JOB_STATE_STOPPED
      then map_option (\<lambda>(_, st). (Stopped, job, st)) (GenerateUniqueId st)
      else case names_step os handle (sj_files job) st of
             None \<Rightarrow> None
           | Some (ok, files, goOn, arrived, st) \<Rightarrow>
               let job = job\<lparr>sj_files := files\<rparr>;
                   job = (if arrived then SftpJob_triggerNotifyCallback SFTP_JOB_NOTIFY_FILES_LIST_ARRIVED job else job)
               in if \<not> ok then Some (Failed, job, st)
                  else if goOn then f os cancelled handle (Suc i) job st
                  else Some (Copied, job, st)) = Some r"
  define job0 where "job0 = user_acts cancelled i job"
  have k: "job_kept (job0\<lparr>sj_files := x\<rparr>) j = job_kept job j" "job_kept j (job0\<lparr>sj_files := x\<rparr>) = job_kept j job"
    "job_kept (SftpJob_triggerNotifyCallback c j') j = job_kept j' j" "job_kept j (SftpJob_triggerNotifyCallback c j') = job_kept j j'"
    "job_kept job job0" for j j' x c
    by (auto simp: job0_def job_kept_def user_acts_def SftpJob_cancel_def)
  show "loop_leaves job (fst r) (fst (snd r))"
    using body unfolding job0_def [symmetric]
    by (auto simp: Let_def loop_leaves_def k split: if_splits option.splits prod.splits dest!: IH)
qed

lemma finish_settles:
  assumes "finish_worker os e handle job' st = Some (rc, job1, st1)" "loop_leaves (job\<lparr>sj_refCount := sj_refCount job + 1\<rparr>) e job'"
    "0 < sj_refCount job" "sj_refCount job < int_max"
  shows "settled rc job job1"
proof -
  define s where "s = (case e of Copied \<Rightarrow> SftpJob_setState SFTP_JOB_STATE_FINISHED job' | Stopped \<Rightarrow> job'
    | Failed \<Rightarrow> SftpJob_setState SFTP_JOB_STATE_ERROR job')"
  have k: "sj_refCount s = sj_refCount job + 1" "sj_deleted s = sj_deleted job"
    using assms(2) by (cases e; simp add: s_def loop_leaves_def job_kept_def)+
  then have "SftpJob_release s = Some (s\<lparr>sj_refCount := sj_refCount job\<rparr>)"
    using sftp_refs(2) [of s] assms(3,4) by simp
  then have "job1 = s\<lparr>sj_refCount := sj_refCount job\<rparr>" "rc = (if e = Failed then -1 else 0)"
    using assms(1) by (auto simp: finish_worker_def s_def [symmetric] bind_eq_Some_conv Let_def)
  moreover have "sj_state s = (case e of Copied \<Rightarrow> SFTP_JOB_STATE_FINISHED | Stopped \<Rightarrow> SFTP_JOB_STATE_STOPPED | Failed \<Rightarrow> SFTP_JOB_STATE_ERROR)"
    using assms(2) by (cases e) (simp_all add: s_def loop_leaves_def)
  ultimately show ?thesis using k by (cases e) (simp_all add: settled_def)
qed

lemma failed_leaves: "loop_leaves job Failed job" "loop_leaves job Copied job"
  by (simp_all add: loop_leaves_def)

section \<open>A server of one file with a name\<close>

definition transfer_server :: "(nat \<Rightarrow> nat \<Rightarrow> nat) \<Rightarrow> byte list \<Rightarrow> byte list \<Rightarrow> byte list \<times> byte list" where
  "transfer_server piece c p =
     (let ident = req_ident p; b = req_body p; mode = word_be (take 4 (drop (length b - 8) b)) :: u32 in
      if req_type p = SSH2_FXP_STAT_VERSION_0 then (c, frame ident SSH2_FXP_ATTRS (attr_bytes (stat_answer (length c))))
      else if req_type p = SSH2_FXP_OPEN then
        (if mode AND SSH2_FXF_TRUNC = 0 then c else [], frame ident SSH2_FXP_HANDLE (be32 4 @ be32 5))
      else if req_type p = SSH2_FXP_CLOSE then (c, frame ident SSH2_FXP_STATUS (be32 SSH2_FX_OK))
      else file_server piece c p)"

lemma transfer_server_serves:
  assumes "\<And>off n. 0 < n \<Longrightarrow> 0 < piece off n \<and> piece off n \<le> n"
  shows "serves_file (transfer_server piece) path 5 (\<lambda>c. c) piece"
proof -
  have t: "ty \<in> {SSH2_FXP_READ, SSH2_FXP_WRITE} \<Longrightarrow> transfer_server piece c (frame ident ty b) = file_server piece c (frame ident ty b)"
    for c ident ty b by (auto simp: transfer_server_def Let_def fxp_defs SSH2_FXP_STAT_VERSION_0_def)
  have "serves_reads (transfer_server piece) 5 (\<lambda>c. c) piece" "serves_writes (transfer_server piece) 5 (\<lambda>c. c)"
    using file_server_serves(1) [of piece, OF assms, of 5] file_server_serves(2) [of piece 5] by (simp_all add: serves_reads_def serves_writes_def t)
  then show ?thesis
    by (auto simp: serves_file_def transfer_server_def Let_def fxp_defs SSH2_FXP_STAT_VERSION_0_def
        SSH2_FXF_WRITE_def SSH2_FXF_CREAT_def SSH2_FXF_TRUNC_def)
qed

definition demo_job :: "byte list \<Rightarrow> SftpJob" where
  "demo_job nm = SftpJob_setState SFTP_JOB_STATE_PENDING (SftpJob_new SFTP_JOB_TYPE_UPLOAD (Some nm) (Some [114]) True)"

lemma demo_job_simps [simp]:
  "sj_state (demo_job nm) = SFTP_JOB_STATE_PENDING" "sj_refCount (demo_job nm) = 1" "sj_localName (demo_job nm) = nm"
  "sj_remoteName (demo_job nm) = [114]" "sj_deleted (demo_job nm) = 0" "sj_files (demo_job nm) = []"
  by (simp_all add: demo_job_def SftpJob_new_def)

lemma usable_fresh: "n < 1000000 \<Longrightarrow> usable (\<lambda>t. (k, 0)) (fresh_client s) n"
  by (simp add: usable_def quiet_fresh prompt_def)

section \<open>Properties\<close>

text \<open>
  Property C26. Whatever the server sends and whenever the user cancels: a worker that returns has given
  back its reference, without destroying the job, and the result and the state agree: 0 with a finished or
  stopped job, or -1 with a job in the error state. No job is left pending.
\<close>

theorem workers_settle:
  assumes "0 < sj_refCount job" "sj_refCount job < int_max"
    "SftpClient_DownloadFileWorker os los cancelled junk buf job st fs = Some (rc, job', st', fs') \<or>
     SftpClient_UploadFileWorker os los cancelled buf job st fs = Some (rc, job', st') \<or>
     SftpClient_ListFilesWorker os cancelled job st = Some (rc, job', st')"
  shows "settled rc job job'"
proof -
  note f = finish_settles [OF _ _ assms(1,2)]
  have r: "SftpJob_addRef job = Some (job\<lparr>sj_refCount := sj_refCount job + 1\<rparr>)" using sftp_refs(1) [of job] assms(1,2) by simp
  from assms(3) show ?thesis
  proof (elim disjE)
    assume "SftpClient_DownloadFileWorker os los cancelled junk buf job st fs = Some (rc, job', st', fs')"
    then show ?thesis unfolding SftpClient_DownloadFileWorker_def r
      by (auto simp: bind_eq_Some_conv Let_def split: if_splits intro: f failed_leaves dest: download_loop_leaves)
  next
    assume "SftpClient_UploadFileWorker os los cancelled buf job st fs = Some (rc, job', st')"
    then show ?thesis unfolding SftpClient_UploadFileWorker_def r
      by (auto simp: bind_eq_Some_conv Let_def split: if_splits option.splits intro: f failed_leaves dest: upload_loop_leaves)
  next
    assume "SftpClient_ListFilesWorker os cancelled job st = Some (rc, job', st')"
    then show ?thesis unfolding SftpClient_ListFilesWorker_def r
      by (auto simp: bind_eq_Some_conv Let_def split: if_splits option.splits intro: f failed_leaves dest!: list_loop_leaves)
  qed
qed

theorem workers_settle_witness:
  "\<exists>rc job' st'. SftpClient_ListFilesWorker (loop_os demo_dir (\<lambda>t. (t, 0))) (\<lambda>i. False) (demo_job [108]) ((fresh_client [])\<lparr>dead := True\<rparr>) =
     Some (rc, job', st') \<and> settled rc (demo_job [108]) job'"
proof -
  let ?st = "(fresh_client [])\<lparr>dead := True\<rparr> :: dir_entry list list loop_world sftp"
  obtain job' st' where r: "SftpClient_ListFilesWorker (loop_os demo_dir (\<lambda>t. (t, 0))) (\<lambda>i. False) (demo_job [108]) ?st = Some (-1, job', st')"
    by (simp add: SftpClient_ListFilesWorker_def sftp_refs sftp_job_defs SftpClient_opendir_def SftpClient_open_def GenerateUniqueId_def
        cint_add_def finish_worker_def)
  show ?thesis
    using workers_settle [where job = "demo_job [108]" and rc = "-1" and job' = job' and st' = st' and st = ?st
        and os = "loop_os demo_dir (\<lambda>t. (t, 0))" and cancelled = "\<lambda>i. False"] r by auto
qed

text \<open>
  A download is a copy: with a server that keeps to the protocol, in whatever pieces the
  data arrive, the worker returns 0 and the local file is the remote one. A job that is cancelled before
  poll number \<open>n\<close> leaves the first \<open>n\<close> blocks of 32 kB and ends as stopped. When the local disk
  has room for \<open>l_room\<close> bytes only, the file is cut there and the job is reported as finished.
\<close>

theorem download_copies:
  assumes "usable chunk st (length c + 3)" "serves_file srv (sj_remoteName job) h content piece"
    "c = content (fst (world st))" "length c < 2 ^ 63" "length (sj_remoteName job) \<le> 30000"
    "sj_state job = SFTP_JOB_STATE_PENDING" "0 < sj_refCount job" "sj_refCount job < int_max"
    "l_create los (sj_localName job)" "length buf = 32768"
    "\<And>j. j < n \<Longrightarrow> \<not> cancelled j" "length c \<le> 32768 * n \<or> cancelled n"
  shows "\<exists>job' st'. SftpClient_DownloadFileWorker (loop_os srv chunk) los cancelled junk buf job st fs =
      Some (0, job', st', fs(sj_localName job \<mapsto> take (l_room los) (take (32768 * n) c))) \<and>
    session_kept st (length c + 3) st' \<and> content (fst (world st')) = c \<and>
    sj_refCount job' = sj_refCount job \<and> sj_deleted job' = sj_deleted job \<and>
    sj_state job' = (if length c \<le> 32768 * n then SFTP_JOB_STATE_FINISHED else SFTP_JOB_STATE_STOPPED)"
  by (rule download_worker [where srv = srv and content = content and cancelled = cancelled and n = n and c = c and st = st and job = job
        and buf = buf and los = los, OF assms(1-10)]) (use assms(11,12) in auto)

theorem download_copies_witness:
  "\<exists>job' st'. SftpClient_DownloadFileWorker (loop_os (transfer_server (\<lambda>off n. n)) (\<lambda>t. (3, 0))) \<lparr>l_create = \<lambda>f. True, l_open = \<lambda>f. True, l_room = 2\<rparr>
     (\<lambda>i. False) no_attr (replicate 32768 0) (demo_job [108]) (fresh_client [1, 2, 3]) Map.empty = Some (0, job', st', [[108] \<mapsto> [1, 2]]) \<and>
     sj_state job' = SFTP_JOB_STATE_FINISHED"
  using download_copies [where st = "fresh_client [1, 2, 3]" and c = "[1, 2, 3]" and srv = "transfer_server (\<lambda>off n. n)" and job = "demo_job [108]"
      and h = 5 and content = "\<lambda>c. c" and piece = "\<lambda>off n. n" and los = "\<lparr>l_create = \<lambda>f. True, l_open = \<lambda>f. True, l_room = 2\<rparr>"
      and buf = "replicate 32768 0" and n = 1 and cancelled = "\<lambda>i. False" and chunk = "\<lambda>t. (3, 0)" and junk = no_attr and fs = Map.empty,
      OF usable_fresh transfer_server_serves]
  by (auto simp: SFTP_JOB_STATE_PENDING_def)



text \<open>
  An upload is a copy: the worker returns 0 and the remote file, which is truncated first, is the
  local one; a job that is cancelled before poll number \<open>n\<close> leaves its first \<open>n\<close> blocks.
\<close>

theorem upload_copies:
  assumes "usable chunk st (length c + 2)" "serves_file srv (sj_remoteName job) h content piece"
    "fs (sj_localName job) = Some c" "length c < 2 ^ 63" "length (sj_remoteName job) \<le> 30000"
    "sj_state job = SFTP_JOB_STATE_PENDING" "0 < sj_refCount job" "sj_refCount job < int_max"
    "l_open los (sj_localName job)" "length buf = 32768"
    "\<And>j. j < n \<Longrightarrow> \<not> cancelled j" "length c \<le> 32768 * n \<or> cancelled n"
  shows "\<exists>job' st'. SftpClient_UploadFileWorker (loop_os srv chunk) los cancelled buf job st fs = Some (0, job', st') \<and>
    session_kept st (length c + 2) st' \<and> content (fst (world st')) = take (32768 * n) c \<and>
    sj_refCount job' = sj_refCount job \<and> sj_deleted job' = sj_deleted job \<and>
    sj_state job' = (if length c \<le> 32768 * n then SFTP_JOB_STATE_FINISHED else SFTP_JOB_STATE_STOPPED)"
  by (rule upload_worker [where srv = srv and content = content and cancelled = cancelled and n = n and c = c and st = st and job = job
        and buf = buf and los = los and fs = fs, OF assms(1-10)]) (use assms(11,12) in auto)

theorem upload_copies_witness:
  "\<exists>job' st'. SftpClient_UploadFileWorker (loop_os (transfer_server (\<lambda>off n. n)) (\<lambda>t. (3, 0))) \<lparr>l_create = \<lambda>f. True, l_open = \<lambda>f. True, l_room = 2\<rparr>
     (\<lambda>i. True) (replicate 32768 0) (demo_job [108]) (fresh_client [1, 2, 3]) [[108] \<mapsto> [8, 9]] = Some (0, job', st') \<and>
     fst (world st') = [] \<and> sj_state job' = SFTP_JOB_STATE_STOPPED"
  using upload_copies [where st = "fresh_client [1, 2, 3]" and c = "[8, 9]" and srv = "transfer_server (\<lambda>off n. n)" and job = "demo_job [108]"
      and h = 5 and content = "\<lambda>c. c" and piece = "\<lambda>off n. n" and los = "\<lparr>l_create = \<lambda>f. True, l_open = \<lambda>f. True, l_room = 2\<rparr>"
      and buf = "replicate 32768 0" and n = 0 and cancelled = "\<lambda>i. True" and chunk = "\<lambda>t. (3, 0)" and fs = "[[108] \<mapsto> [8, 9]]",
      OF usable_fresh transfer_server_serves]
  by (auto simp: SFTP_JOB_STATE_PENDING_def)

text \<open>
  The background listing gives the job the elements of the batches in their order, up to the
  batch with the marker or to the end of the directory, and ends as finished; cancelled before poll
  number \<open>n\<close> it has the elements of the first \<open>n\<close> batches and ends as stopped. It returns in all cases.
\<close>

theorem list_job_lists:
  assumes "quiet st" "counter st + int (length bs) + 3 \<le> int_max" "serves_listing srv (sj_remoteName job) h batches"
    "batches (fst (world st)) = bs" "list_all batch_ok bs" "length (sj_remoteName job) \<le> 30000"
    "sj_state job = SFTP_JOB_STATE_PENDING" "0 < sj_refCount job" "sj_refCount job < int_max"
    "\<And>j. j < n \<Longrightarrow> \<not> cancelled j" "list_through n bs \<or> cancelled n"
  shows "\<exists>job' st'. SftpClient_ListFilesWorker (loop_os srv chunk) cancelled job st = Some (0, job', st') \<and>
    session_kept st (length bs + 3) st' \<and> sj_files job' = sj_files job @ listing (take n bs) \<and>
    sj_refCount job' = sj_refCount job \<and> sj_deleted job' = sj_deleted job \<and>
    sj_state job' = (if list_through n bs then SFTP_JOB_STATE_FINISHED else SFTP_JOB_STATE_STOPPED)"
  by (rule list_worker [where srv = srv and batches = batches and cancelled = cancelled and n = n and st = st and job = job
        and bs = bs, OF assms(1-9)]) (use assms(10,11) in auto)

definition listing_server :: "dir_entry list list \<Rightarrow> byte list \<Rightarrow> dir_entry list list \<times> byte list" where
  "listing_server ess p =
     (if req_type p = SSH2_FXP_OPENDIR then (ess, frame (req_ident p) SSH2_FXP_HANDLE (be32 4 @ be32 5))
      else if req_type p = SSH2_FXP_CLOSE then (ess, frame (req_ident p) SSH2_FXP_STATUS (be32 SSH2_FX_OK))
      else demo_dir ess p)"

theorem list_job_lists_witness:
  "\<exists>job' st'. SftpClient_ListFilesWorker (loop_os listing_server (\<lambda>t. (t, 0))) (\<lambda>i. i = 1) (demo_job [])
      (fresh_client [[demo_entry ''a''], [demo_entry ''b'']]) = Some (0, job', st') \<and>
    sj_files job' = [fst (demo_entry ''a'')] \<and> sj_state job' = SFTP_JOB_STATE_STOPPED"
proof -
  let ?b = "[[demo_entry ''a''], [demo_entry ''b'']]"
  have "serves_listing listing_server [114] 5 (\<lambda>s. s)"
    by (auto simp: serves_listing_def serves_dir_def listing_server_def demo_dir_def fxp_defs SSH2_FXP_OPENDIR_def
        SSH2_FXP_DIRLIGO_READDIR_SHORT_def)
  moreover have "list_all batch_ok ?b"
    by (simp add: batch_ok_def entry_ok_def demo_entry_def MAX_PATH_def attr_normal_def no_attr_def entries_bytes_def
        entry_bytes_def attr_need_def of_char_def)
  moreover have "listing (take 1 ?b) = [fst (demo_entry ''a'')]" "\<not> list_through 1 ?b"
    by (simp_all add: is_marker_def demo_entry_def last_marker_def of_char_def list_through_def)
  ultimately show ?thesis
    using list_job_lists [OF quiet_fresh, where s1 = ?b and srv = listing_server and job = "demo_job []" and h = 5 and batches = "\<lambda>s. s"
        and bs = ?b and n = 1 and cancelled = "\<lambda>i. i = 1" and chunk = "\<lambda>t. (t, 0)"] by auto
qed

end
