(* ===== verification/IO_Mixer.thy ===== *)
theory IO_Mixer
  imports Std_Map Ref_Object
begin

text \<open>
  The I/O mixer (\<^verbatim>\<open>LibIO/IOMixer.cpp\<close>, Linux branch): many isolated channels over one master stream.
  A slave thread wraps the data of its channel into packets \<^verbatim>\<open><id><flags><size><data>\<close> and writes them to
  the master output; the master thread reads packets from the master input and hands the data to the
  channels. The system calls, the callbacks of the user and zlib are parameters.

  Threads are shown by the rounds of their loops; \<^verbatim>\<open>masterEncode\<close> holds a mutex from its first to its last
  step and is one step here. A thread that is cancelled is taken to wait in its \<^verbatim>\<open>select\<close>. Waiting for
  the master thread is not shown: the operations that wait for it describe the state after it has ended.
\<close>

section \<open>State\<close>

definition IOMIXER_MAX_PACKET :: int where "IOMIXER_MAX_PACKET = 1024 * 64"
definition IOMIXER_TYPE_AUTO :: int where "IOMIXER_TYPE_AUTO = 0"
definition IOMIXER_TYPE_FD :: int where "IOMIXER_TYPE_FD = 1"
definition IOMIXER_TYPE_SOCKET :: int where "IOMIXER_TYPE_SOCKET = 2"
definition IOMIXER_TYPE_CALLBACK :: int where "IOMIXER_TYPE_CALLBACK = 3"
definition IOMIXER_FLAG_COMPRESSION_ON :: byte where "IOMIXER_FLAG_COMPRESSION_ON = 1"

text \<open>
  Calls on the master stream take and return bytes (no bytes for a result that is zero or negative),
  calls on the pipes of the slaves their descriptor.
\<close>

record 'w mixer_os =
  mo_write :: "'w \<Rightarrow> byte list \<Rightarrow> int \<times> 'w"
  mo_send :: "'w \<Rightarrow> byte list \<Rightarrow> int \<times> 'w"
  mo_outCallback :: "'w \<Rightarrow> byte list \<Rightarrow> int \<times> 'w"
  mo_read :: "'w \<Rightarrow> nat \<Rightarrow> byte list \<times> 'w"
  mo_recv :: "'w \<Rightarrow> nat \<Rightarrow> byte list \<times> 'w"
  mo_inCallback :: "'w \<Rightarrow> nat \<Rightarrow> byte list \<times> 'w"
  mo_pipe :: "'w \<Rightarrow> (int \<times> int) option \<times> 'w"
  mo_close :: "int \<Rightarrow> 'w \<Rightarrow> 'w"
  mo_fdwrite :: "int \<Rightarrow> byte list \<Rightarrow> 'w \<Rightarrow> int \<times> 'w"
  mo_fdread :: "int \<Rightarrow> nat \<Rightarrow> 'w \<Rightarrow> int \<times> byte list \<times> 'w"

text \<open>
  What the dynamic loader found of zlib. Compression gets the size of the target and the data and gives
  a code and the result; decompression gives what it wrote and the new value of its size argument. Both
  write the size through a pointer to \<^verbatim>\<open>unsigned long\<close>, where \<^verbatim>\<open>IOMixer.h\<close> declares and passes a pointer to
  \<^verbatim>\<open>int\<close>: \<open>z_long32\<close> tells whether the \<^verbatim>\<open>unsigned long\<close> of the library has 32 bits, as on Windows; where it
  is longer the library writes past the variable.
\<close>

record zlib =
  z_handle :: bool
  z_long32 :: bool
  z_compress :: "(nat \<Rightarrow> byte list \<Rightarrow> int \<times> byte list) option"
  z_uncompress :: "(nat \<Rightarrow> byte list \<Rightarrow> byte list \<times> int) option"
  z_bound :: "(int \<Rightarrow> int) option"

text \<open>\<open>sl_running\<close>: the thread has not ended; \<open>sl_cancelled\<close>: there is a byte in the cancel pipe.\<close>

record IOMixerSlave =
  sl_id :: int
  sl_eofSent :: bool
  sl_eofReceived :: bool
  sl_fdin :: int
  sl_fdout :: int
  sl_running :: bool
  sl_cancelled :: bool
  sl_thread :: bool
  sl_flags :: byte

text \<open>
  \<open>mx_lock\<close> counts the locks minus the unlocks of \<^verbatim>\<open>slavesMutex_\<close>, \<open>mx_notified\<close> lists the calls of the slave-dead
  callback, \<open>mx_deleted\<close> how often the destructor was entered, \<open>mx_cancelled\<close> the calls of the cancel
  callback. \<open>mx_cancelCallback\<close> and \<open>mx_masterThread\<close> are \<^const>\<open>None\<close> while they were never assigned.
\<close>

record 'w IOMixer =
  mx_slaves :: "(int, IOMixerSlave) smap"
  mx_masterIn :: int
  mx_masterOut :: int
  mx_slavesCount :: int
  mx_masterInType :: int
  mx_masterOutType :: int
  mx_dead :: bool
  mx_masterEofSent :: bool
  mx_masterEofReceived :: bool
  mx_refCount :: int
  mx_deleted :: nat
  mx_quietMode :: bool
  mx_masterThread :: "bool option"
  mx_cancelCallback :: "bool option"
  mx_cancelled :: nat
  mx_callback :: bool
  mx_notified :: "int list"
  mx_init :: bool
  mx_zlib :: zlib
  mx_zlibLoaded :: bool
  mx_lock :: int
  mx_world :: 'w

section \<open>Construction and references\<close>

definition IOMixer_initZLib :: "zlib \<Rightarrow> 'w IOMixer \<Rightarrow> int \<times> 'w IOMixer" where
  "IOMixer_initZLib z m =
     (let ok = z_handle z \<and> z_compress z \<noteq> None \<and> z_uncompress z \<noteq> None \<and> z_bound z \<noteq> None
      in (if ok then 0 else -1, m\<lparr>mx_zlib := z, mx_zlibLoaded := ok\<rparr>))"

text \<open>\<open>junk\<close> is the memory of the object before; a constructor that fails leaves most of it.\<close>

definition IOMixer_base :: "'w IOMixer \<Rightarrow> 'w IOMixer" where
  "IOMixer_base junk = junk\<lparr>mx_slaves := [], mx_init := False, mx_dead := False, mx_quietMode := False,
     mx_zlibLoaded := False, mx_refCount := 1, mx_deleted := 0, mx_masterThread := None, mx_cancelCallback := None,
     mx_notified := [], mx_lock := 0, mx_cancelled := 0\<rparr>"

definition IOMixer_new :: "zlib \<Rightarrow> int \<Rightarrow> int \<Rightarrow> int \<Rightarrow> int \<Rightarrow> 'w IOMixer \<Rightarrow> 'w IOMixer" where
  "IOMixer_new z masterOut masterIn masterOutType masterInType junk =
     (let m = IOMixer_base junk in
      if masterOut < 0 \<or> masterIn < 0 then m
      else (snd (IOMixer_initZLib z (m\<lparr>mx_slavesCount := 1, mx_masterOut := masterOut, mx_masterIn := masterIn,
             mx_masterOutType := masterOutType, mx_masterInType := masterInType, mx_masterEofSent := False,
             mx_masterEofReceived := False, mx_callback := False\<rparr>)))\<lparr>mx_init := True\<rparr>)"

definition IOMixer_new_callback :: "zlib \<Rightarrow> bool \<Rightarrow> bool \<Rightarrow> bool \<Rightarrow> 'w IOMixer \<Rightarrow> 'w IOMixer" where
  "IOMixer_new_callback z readCallback writeCallback ioCancelCallback junk =
     (let m = IOMixer_base junk in
      if \<not> readCallback \<or> \<not> writeCallback then m
      else (snd (IOMixer_initZLib z (m\<lparr>mx_slavesCount := 1, mx_masterOut := -1, mx_masterIn := -1,
             mx_masterOutType := IOMIXER_TYPE_CALLBACK, mx_masterInType := IOMIXER_TYPE_CALLBACK,
             mx_cancelCallback := Some ioCancelCallback, mx_masterEofSent := False,
             mx_masterEofReceived := False, mx_callback := False\<rparr>)))\<lparr>mx_init := True\<rparr>)"

definition IOMixer_addRef :: "'w IOMixer \<Rightarrow> 'w IOMixer run" where
  "IOMixer_addRef m = do { c \<leftarrow> cint_add (mx_refCount m) 1; Some (m\<lparr>mx_refCount := c\<rparr>) }"

definition IOMixer_release :: "'w IOMixer \<Rightarrow> 'w IOMixer run" where
  "IOMixer_release m = do {
     c \<leftarrow> cint_add (mx_refCount m) (-1);
     let m' = m\<lparr>mx_refCount := c\<rparr>;
     Some (if c = 0 then m'\<lparr>mx_deleted := mx_deleted m' + 1\<rparr> else m') }"

definition IOMixer_setSlaveDeadCallback :: "bool \<Rightarrow> 'w IOMixer \<Rightarrow> 'w IOMixer" where
  "IOMixer_setSlaveDeadCallback cb m = m\<lparr>mx_callback := cb\<rparr>"

definition IOMixer_setQuietMode :: "bool \<Rightarrow> 'w IOMixer \<Rightarrow> 'w IOMixer" where
  "IOMixer_setQuietMode v m = m\<lparr>mx_quietMode := v\<rparr>"

definition notify_dead :: "int \<Rightarrow> 'w IOMixer \<Rightarrow> 'w IOMixer" where
  "notify_dead i m = (if mx_callback m then m\<lparr>mx_notified := mx_notified m @ [i]\<rparr> else m)"

section \<open>The master stream\<close>

function master_write_loop ::
    "('w \<Rightarrow> byte list \<Rightarrow> int \<times> 'w) \<Rightarrow> byte list \<Rightarrow> nat \<Rightarrow> int \<Rightarrow> 'w \<Rightarrow> int \<times> 'w" where
  "master_write_loop out buf src bytesToWrite w =
     (if bytesToWrite > 0
      then case out w (take (nat bytesToWrite) (drop src buf)) of
             (written, w) \<Rightarrow> if written \<le> 0 then (-1, w)
                             else master_write_loop out buf (src + nat written) (bytesToWrite - written) w
      else (0, w))"
  by pat_completeness auto
termination
  by (relation "measure (\<lambda>(out, buf, s, b, w). nat b)") auto

declare master_write_loop.simps [simp del]

definition master_out :: "'w mixer_os \<Rightarrow> int \<Rightarrow> ('w \<Rightarrow> byte list \<Rightarrow> int \<times> 'w) option" where
  "master_out os ty = (if ty = IOMIXER_TYPE_SOCKET then Some (mo_send os)
     else if ty = IOMIXER_TYPE_FD then Some (mo_write os)
     else if ty = IOMIXER_TYPE_CALLBACK then Some (mo_outCallback os) else None)"

text \<open>The block \<open>buf\<close> must hold the bytes; for any other type of master nothing is written.\<close>

definition IOMixer_masterWrite :: "'w mixer_os \<Rightarrow> byte list \<Rightarrow> int \<Rightarrow> 'w IOMixer \<Rightarrow> (int \<times> 'w IOMixer) run" where
  "IOMixer_masterWrite os buf bytesToWrite m =
     (if mx_masterEofSent m then Some (0, m)
      else case master_out os (mx_masterOutType m) of
             None \<Rightarrow> Some (0, m)
           | Some out \<Rightarrow>
               if int (length buf) < bytesToWrite then None
               else case master_write_loop out buf 0 bytesToWrite (mx_world m) of
                      (rc, w) \<Rightarrow> Some (rc, m\<lparr>mx_world := w\<rparr>))"

function master_read_loop ::
    "('w \<Rightarrow> nat \<Rightarrow> byte list \<times> 'w) \<Rightarrow> byte list \<Rightarrow> nat \<Rightarrow> nat \<Rightarrow> 'w \<Rightarrow> (int \<times> byte list \<times> 'w) run" where
  "master_read_loop inp buf dst bytesToRead w =
     (if bytesToRead > 0
      then case inp w bytesToRead of
             (bs, w) \<Rightarrow> if bs = [] then Some (-1, buf, w)
                        else case mem_write buf dst bs of
                               None \<Rightarrow> None
                             | Some buf \<Rightarrow> master_read_loop inp buf (dst + length bs) (bytesToRead - length bs) w
      else Some (0, buf, w))"
  by pat_completeness auto
termination
  by (relation "measure (\<lambda>(inp, buf, d, b, w). b)") (auto simp flip: length_greater_0_conv)

declare master_read_loop.simps [simp del]

definition master_in :: "'w mixer_os \<Rightarrow> int \<Rightarrow> ('w \<Rightarrow> nat \<Rightarrow> byte list \<times> 'w) option" where
  "master_in os ty = (if ty = IOMIXER_TYPE_SOCKET then Some (mo_recv os)
     else if ty = IOMIXER_TYPE_FD then Some (mo_read os)
     else if ty = IOMIXER_TYPE_CALLBACK then Some (mo_inCallback os) else None)"

text \<open>For any other type of master the buffer keeps its old contents and 0 is returned.\<close>

definition IOMixer_masterRead ::
    "'w mixer_os \<Rightarrow> byte list \<Rightarrow> int \<Rightarrow> 'w IOMixer \<Rightarrow> (int \<times> byte list \<times> 'w IOMixer) run" where
  "IOMixer_masterRead os buf bytesToRead m =
     (if mx_masterEofReceived m then Some (-1, buf, m)
      else case master_in os (mx_masterInType m) of
             None \<Rightarrow> Some (0, buf, m)
           | Some inp \<Rightarrow> map_option (\<lambda>(rc, buf, w). (rc, buf, m\<lparr>mx_world := w\<rparr>))
               (master_read_loop inp buf 0 (nat bytesToRead) (mx_world m)))"

section \<open>Packets\<close>

text \<open>
  The packed structure has the fields at the offsets 0, 4, 5 and 9; its size is 10. \<open>block\<close> is the memory of
  \<^verbatim>\<open>malloc\<close>, whose contents before do not matter.
\<close>

definition encode_packet :: "zlib \<Rightarrow> bool \<Rightarrow> int \<Rightarrow> byte list \<Rightarrow> int \<Rightarrow> byte \<Rightarrow> (bool \<times> byte list \<times> int) run" where
  "encode_packet z loaded ident buf sz flags = do {
     let bound = (if loaded then the (z_bound z) sz else sz);
     block \<leftarrow> (if bound + 10 < 0 then None else Some (replicate (nat (bound + 10)) 0));
     block \<leftarrow> mem_write block 0 (obj_bytes 4 (word_of_int ident :: u32));
     block \<leftarrow> mem_write block 4 [flags];
     block \<leftarrow> mem_write block 5 (obj_bytes 4 (word_of_int sz :: u32));
     if sz > 256 \<and> flags AND IOMIXER_FLAG_COMPRESSION_ON \<noteq> 0 \<and> loaded then do {
       src \<leftarrow> mem_read buf 0 (nat sz);
       (ret, comp) \<leftarrow> (if z_long32 z then Some (the (z_compress z) (nat bound) src) else None);
       if ret \<noteq> 0 then Some (False, block, sz) else do {
         block \<leftarrow> mem_write block 9 comp;
         block \<leftarrow> mem_write block 5 (obj_bytes 4 (word_of_nat (length comp) :: u32));
         Some (True, block, int (length comp)) } }
     else if sz > 0 then do {
       block \<leftarrow> mem_write block 4 [flags AND NOT IOMIXER_FLAG_COMPRESSION_ON];
       block \<leftarrow> memcpy block 9 buf 0 (nat sz);
       Some (True, block, sz) }
     else Some (True, block, sz) }"

definition IOMixer_masterEncode ::
    "'w mixer_os \<Rightarrow> int \<Rightarrow> byte list \<Rightarrow> int \<Rightarrow> byte \<Rightarrow> 'w IOMixer \<Rightarrow> (int \<times> 'w IOMixer) run" where
  "IOMixer_masterEncode os ident buf sz flags m = do {
     (ok, block, sz) \<leftarrow> encode_packet (mx_zlib m) (mx_zlibLoaded m) ident buf sz flags;
     if \<not> ok then Some (-1, m) else do {
       (rc, m) \<leftarrow> IOMixer_masterWrite os block (sz + 9) m;
       Some (if rc \<noteq> 0 then -1 else 0, m) } }"

text \<open>The part after the head, for the size and the flags that were read.\<close>

definition decode_body ::
    "'w mixer_os \<Rightarrow> int \<Rightarrow> int \<Rightarrow> byte \<Rightarrow> int \<Rightarrow> byte list \<Rightarrow> 'w IOMixer \<Rightarrow> (int \<times> int \<times> int \<times> byte list \<times> 'w IOMixer) run" where
  "decode_body os dataSize i f sz data m =
     (if dataSize < sz then Some (-1, i, sz, data, m)
      else if sz > 0 then
       (if f AND IOMIXER_FLAG_COMPRESSION_ON \<noteq> 0 then do {
          (rc, comp, m) \<leftarrow> IOMixer_masterRead os (replicate (nat sz) 0) sz m;
          if rc \<noteq> 0 then Some (-1, i, sz, data, m)
          else if mx_zlibLoaded m then do {
            (out, sz) \<leftarrow> (if z_long32 (mx_zlib m) then Some (the (z_uncompress (mx_zlib m)) (nat dataSize) comp) else None);
            data \<leftarrow> mem_write data 0 out;
            Some (0, i, sz, data, m) }
          else Some (-1, i, sz, data, m) }
        else do {
          (rc, data, m) \<leftarrow> IOMixer_masterRead os data sz m;
          Some (if rc \<noteq> 0 then -1 else 0, i, sz, data, m) })
     else Some (0, i, sz, data, m))"

text \<open>
  \<open>id0\<close>, \<open>sz0\<close> and \<open>flags0\<close> are the values of the variables before; they stay where nothing is read.
\<close>

definition IOMixer_masterDecode ::
    "'w mixer_os \<Rightarrow> int \<Rightarrow> int \<Rightarrow> byte \<Rightarrow> byte list \<Rightarrow> int \<Rightarrow> 'w IOMixer \<Rightarrow>
      (int \<times> int \<times> int \<times> byte list \<times> 'w IOMixer) run" where
  "IOMixer_masterDecode os id0 sz0 flags0 data dataSize m = do {
     (rc, b, m) \<leftarrow> IOMixer_masterRead os (obj_bytes 4 (word_of_int id0 :: u32)) 4 m;
     let i = sint (word_of_le b :: u32);
     if rc \<noteq> 0 then Some (-1, i, sz0, data, m) else do {
     (rc, f, m) \<leftarrow> IOMixer_masterRead os [flags0] 1 m;
     if rc \<noteq> 0 then Some (-1, i, sz0, data, m) else do {
     (rc, b, m) \<leftarrow> IOMixer_masterRead os (obj_bytes 4 (word_of_int sz0 :: u32)) 4 m;
     let sz = sint (word_of_le b :: u32);
     if rc \<noteq> 0 then Some (-1, i, sz, data, m) else decode_body os dataSize i (hd f) sz data m } } }"

section \<open>Slaves\<close>

definition IOMixer_getSlave :: "int \<Rightarrow> 'w IOMixer \<Rightarrow> IOMixerSlave option" where
  "IOMixer_getSlave i m = smap_find (mx_slaves m) i"

definition upd_slave :: "int \<Rightarrow> (IOMixerSlave \<Rightarrow> IOMixerSlave) \<Rightarrow> 'w IOMixer \<Rightarrow> 'w IOMixer" where
  "upd_slave i f m = (case IOMixer_getSlave i m of None \<Rightarrow> m | Some s \<Rightarrow> m\<lparr>mx_slaves := smap_set i (f s) (mx_slaves m)\<rparr>)"

abbreviation lock_slaves :: "'w IOMixer \<Rightarrow> 'w IOMixer" where
  "lock_slaves m \<equiv> m\<lparr>mx_lock := mx_lock m + 1\<rparr>"

abbreviation unlock_slaves :: "'w IOMixer \<Rightarrow> 'w IOMixer" where
  "unlock_slaves m \<equiv> m\<lparr>mx_lock := mx_lock m - 1\<rparr>"

text \<open>The loop that looks for a free number.\<close>

function free_number :: "(int, IOMixerSlave) smap \<Rightarrow> int \<Rightarrow> int run" where
  "free_number slaves c =
     (if smap_find slaves c \<noteq> None
      then (case cint_add c 1 of None \<Rightarrow> None | Some c' \<Rightarrow> free_number slaves c')
      else Some c)"
  by pat_completeness auto
termination
proof (relation "measure (\<lambda>(slaves, c). card {k \<in> fst ` set slaves. c \<le> k})")
  fix slaves :: "(int, IOMixerSlave) smap" and c c' :: int
  assume "smap_find slaves c \<noteq> None" "cint_add c 1 = Some c'"
  then have "c \<in> fst ` set slaves" "c' = c + 1"
    by (auto simp: smap_find_def cint_add_def map_of_eq_None_iff split: if_splits)
  then have "{k \<in> fst ` set slaves. c' \<le> k} \<subseteq> {k \<in> fst ` set slaves. c \<le> k}"
    "c \<in> {k \<in> fst ` set slaves. c \<le> k} - {k \<in> fst ` set slaves. c' \<le> k}" by auto
  then have "{k \<in> fst ` set slaves. c' \<le> k} \<subset> {k \<in> fst ` set slaves. c \<le> k}" by blast
  then show "((slaves, c'), (slaves, c)) \<in> measure (\<lambda>(slaves, c). card {k \<in> fst ` set slaves. c \<le> k})"
    using psubset_card_mono [of "{k \<in> fst ` set slaves. c \<le> k}"] by simp
qed simp

declare free_number.simps [simp del]

text \<open>
  The new thread takes its reference and waits for data. A failure before the lock unlocks the mutex all the
  same; the pipes of a refused number stay open. The cancel pipe is taken to be created.
\<close>

definition IOMixer_addSlave ::
    "'w mixer_os \<Rightarrow> int \<Rightarrow> 'w IOMixer \<Rightarrow> (int \<times> (int \<times> int) option \<times> 'w IOMixer) run" where
  "IOMixer_addSlave os slaveId m =
     (if \<not> mx_init m \<or> slaveId = 0 \<or> mx_dead m then Some (-1, None, unlock_slaves m)
      else case mo_pipe os (mx_world m) of
        (None, w) \<Rightarrow> Some (-1, None, unlock_slaves (m\<lparr>mx_world := w\<rparr>))
      | (Some pin, w) \<Rightarrow> (case mo_pipe os w of
          (None, w) \<Rightarrow> Some (-1, None, unlock_slaves (m\<lparr>mx_world := w\<rparr>))
        | (Some pout, w) \<Rightarrow>
            let fds = (fst pout, snd pin); m = lock_slaves (m\<lparr>mx_world := w\<rparr>) in do {
              (ok, slaveId, m) \<leftarrow>
                (if slaveId = -1 then do {
                   c \<leftarrow> free_number (mx_slaves m) (mx_slavesCount m);
                   Some (True, c, m\<lparr>mx_slavesCount := c\<rparr>) }
                 else Some (IOMixer_getSlave slaveId m = None, slaveId, m));
              if \<not> ok then Some (-1, Some fds, unlock_slaves m) else do {
                let slave = \<lparr>sl_id = slaveId, sl_eofSent = False, sl_eofReceived = False, sl_fdin = fst pin,
                     sl_fdout = snd pout, sl_running = True, sl_cancelled = False, sl_thread = True, sl_flags = 0\<rparr>;
                m \<leftarrow> IOMixer_addRef m;
                Some (slaveId, Some fds, unlock_slaves (m\<lparr>mx_slaves := smap_set slaveId slave (mx_slaves m)\<rparr>)) } }))"

definition IOMixer_setSlaveCompression :: "int \<Rightarrow> bool \<Rightarrow> 'w IOMixer \<Rightarrow> int \<times> 'w IOMixer" where
  "IOMixer_setSlaveCompression i enabled m =
     (if IOMixer_getSlave i m = None then (-1, m)
      else if z_compress (mx_zlib m) = None then (-1, m)
      else (0, upd_slave i (\<lambda>s. s\<lparr>sl_flags := (if enabled then sl_flags s OR IOMIXER_FLAG_COMPRESSION_ON
                                       else sl_flags s AND NOT IOMIXER_FLAG_COMPRESSION_ON)\<rparr>) m))"

definition IOMixer_slaveWrite :: "'w mixer_os \<Rightarrow> int \<Rightarrow> byte list \<Rightarrow> int \<Rightarrow> 'w IOMixer \<Rightarrow> (int \<times> 'w IOMixer) run" where
  "IOMixer_slaveWrite os i buf sz m =
     (case IOMixer_getSlave i m of
        None \<Rightarrow> Some (0, m)
      | Some slave \<Rightarrow>
          if sl_eofSent slave then Some (0, m)
          else do {
            d \<leftarrow> mem_read buf 0 (nat sz);
            let (written, w) = mo_fdwrite os (sl_fdout slave) d (mx_world m);
            Some (if written \<noteq> sz then -1 else 0, m\<lparr>mx_world := w\<rparr>) })"

text \<open>
  A round of \<^verbatim>\<open>slaveLoop\<close>: whether the loop goes on. The end of the thread compares \<^verbatim>\<open>eofSent_\<close> with 1
  instead of assigning it.
\<close>

definition slave_round :: "'w mixer_os \<Rightarrow> int \<Rightarrow> byte list \<Rightarrow> 'w IOMixer \<Rightarrow> (bool \<times> byte list \<times> 'w IOMixer) run" where
  "slave_round os i buf m = do {
     slave \<leftarrow> IOMixer_getSlave i m;
     (readed, buf, m) \<leftarrow>
       (if sl_cancelled slave then Some (0, buf, m)
        else do {
          let (n, bs, w) = mo_fdread os (sl_fdin slave) (nat IOMIXER_MAX_PACKET) (mx_world m);
          buf \<leftarrow> mem_write buf 0 bs;
          Some (n, buf, m\<lparr>mx_world := w\<rparr>) });
     (ret, m) \<leftarrow> IOMixer_masterEncode os i buf readed (sl_flags slave) m;
     Some (ret = 0 \<and> readed > 0, buf, m) }"

definition slave_finish :: "int \<Rightarrow> 'w IOMixer \<Rightarrow> 'w IOMixer run" where
  "slave_finish i m = IOMixer_release (notify_dead i (upd_slave i (\<lambda>s. s\<lparr>sl_running := False\<rparr>) m))"

partial_function (option) IOMixer_slaveLoop ::
    "'w mixer_os \<Rightarrow> int \<Rightarrow> byte list \<Rightarrow> 'w IOMixer \<Rightarrow> 'w IOMixer option" where
  "IOMixer_slaveLoop os i buf m =
     (if mx_dead m then slave_finish i m
      else case slave_round os i buf m of
             None \<Rightarrow> None
           | Some (goOn, buf, m) \<Rightarrow> if goOn then IOMixer_slaveLoop os i buf m else slave_finish i m)"

text \<open>Cancelling a slave and waiting for its thread, which sees the cancel pipe and ends.\<close>

definition cancel_slave :: "'w mixer_os \<Rightarrow> int \<Rightarrow> 'w IOMixer \<Rightarrow> 'w IOMixer run" where
  "cancel_slave os i m = do {
     let m = upd_slave i (\<lambda>s. s\<lparr>sl_cancelled := True\<rparr>) m;
     slave \<leftarrow> IOMixer_getSlave i m;
     if \<not> sl_thread slave then Some m else do {
       m \<leftarrow> (if sl_running slave then do {
               (_, _, m) \<leftarrow> slave_round os i [] m;
               slave_finish i m }
             else Some m);
       Some (upd_slave i (\<lambda>s. s\<lparr>sl_thread := False\<rparr>) m) } }"

definition close_fd :: "'w mixer_os \<Rightarrow> int \<Rightarrow> 'w IOMixer \<Rightarrow> 'w IOMixer" where
  "close_fd os fd m = (if fd \<noteq> -1 then m\<lparr>mx_world := mo_close os fd (mx_world m)\<rparr> else m)"

definition IOMixer_removeSlave :: "'w mixer_os \<Rightarrow> int \<Rightarrow> 'w IOMixer \<Rightarrow> (int \<times> 'w IOMixer) run" where
  "IOMixer_removeSlave os i m = do {
     let m = lock_slaves m;
     case IOMixer_getSlave i m of
       None \<Rightarrow> Some (0, unlock_slaves m)
     | Some slave \<Rightarrow> do {
         let m = close_fd os (sl_fdin slave) (close_fd os (sl_fdout slave) m);
         let m = upd_slave i (\<lambda>s. s\<lparr>sl_fdin := -1, sl_fdout := -1\<rparr>) m;
         m \<leftarrow> (if sl_thread slave then cancel_slave os i m else Some m);
         Some (0, unlock_slaves (m\<lparr>mx_slaves := smap_erase i (mx_slaves m)\<rparr>)) } }"

section \<open>The master thread\<close>

text \<open>The local variables of the loop: number, size and data of the last packet.\<close>

definition master_round ::
    "'w mixer_os \<Rightarrow> byte \<Rightarrow> int \<times> int \<times> byte list \<Rightarrow> 'w IOMixer \<Rightarrow> (bool \<times> (int \<times> int \<times> byte list) \<times> 'w IOMixer) run" where
  "master_round os flags0 v m = do {
     let (i, sz, data) = v;
     (ret, i, sz, data, m) \<leftarrow> IOMixer_masterDecode os i sz flags0 data IOMIXER_MAX_PACKET m;
     if ret \<noteq> 0 then Some (False, (i, sz, data), m)
     else if sz \<le> 0 then
       (if i = 0 then Some (True, (i, sz, data), m\<lparr>mx_masterEofReceived := True\<rparr>)
        else let m = (case IOMixer_getSlave i m of
                        None \<Rightarrow> m
                      | Some slave \<Rightarrow> upd_slave i (\<lambda>s. s\<lparr>sl_eofReceived := True, sl_fdout := -1\<rparr>)
                                        (close_fd os (sl_fdout slave) m))
             in Some (True, (i, sz, data), m))
     else do {
       (_, m) \<leftarrow> IOMixer_slaveWrite os i data sz m;
       Some (True, (i, sz, data), m) } }"

definition master_finish :: "'w IOMixer \<Rightarrow> 'w IOMixer run" where
  "master_finish m = IOMixer_release (notify_dead 0 (m\<lparr>mx_masterEofReceived := True\<rparr>))"

partial_function (option) master_rounds ::
    "'w mixer_os \<Rightarrow> byte \<Rightarrow> int \<times> int \<times> byte list \<Rightarrow> 'w IOMixer \<Rightarrow> 'w IOMixer option" where
  "master_rounds os flags0 v m =
     (if mx_masterEofReceived m then master_finish m
      else case master_round os flags0 v m of
             None \<Rightarrow> None
           | Some (ok, v, m) \<Rightarrow> if ok then master_rounds os flags0 v m else master_finish m)"

definition IOMixer_masterLoop :: "'w mixer_os \<Rightarrow> byte \<Rightarrow> byte list \<Rightarrow> 'w IOMixer \<Rightarrow> 'w IOMixer run" where
  "IOMixer_masterLoop os flags0 data m = do { m \<leftarrow> IOMixer_addRef m; master_rounds os flags0 (-1, -1, data) m }"

section \<open>Start and end\<close>

definition IOMixer_start :: "'w IOMixer \<Rightarrow> int \<times> 'w IOMixer" where
  "IOMixer_start m = (if \<not> mx_init m then (0, m) else (0, m\<lparr>mx_masterThread := Some True\<rparr>))"

text \<open>\<^verbatim>\<open>stop\<close> tests two pointers; it is declared with a result but has no \<^verbatim>\<open>return\<close>.\<close>

definition IOMixer_stop :: "'w IOMixer \<Rightarrow> 'w IOMixer run" where
  "IOMixer_stop m = do {
     let m = m\<lparr>mx_dead := True\<rparr>;
     cb \<leftarrow> mx_cancelCallback m;
     let m = (if cb then m\<lparr>mx_cancelled := mx_cancelled m + 2\<rparr> else m);
     t \<leftarrow> mx_masterThread m;
     no_return (if t then m\<lparr>mx_masterThread := Some False\<rparr> else m) }"

text \<open>One turn per slave, but each on the first slave of the map.\<close>

fun flush_loop :: "'w mixer_os \<Rightarrow> nat \<Rightarrow> 'w IOMixer \<Rightarrow> 'w IOMixer run" where
  "flush_loop os 0 m = Some m"
| "flush_loop os (Suc n) m =
     (case mx_slaves m of
        [] \<Rightarrow> Some m
      | (k, _) # _ \<Rightarrow> (case cancel_slave os k m of None \<Rightarrow> None | Some m \<Rightarrow> flush_loop os n m))"

definition IOMixer_flush :: "'w mixer_os \<Rightarrow> 'w IOMixer \<Rightarrow> (int \<times> 'w IOMixer) run" where
  "IOMixer_flush os m = do {
     m \<leftarrow> flush_loop os (length (mx_slaves m)) (lock_slaves m);
     Some (0, unlock_slaves m) }"

definition IOMixer_join :: "'w mixer_os \<Rightarrow> 'w IOMixer \<Rightarrow> (int \<times> 'w IOMixer) run" where
  "IOMixer_join os m = do {
     (_, m) \<leftarrow> IOMixer_flush os m;
     t \<leftarrow> mx_masterThread m;
     Some (0, if t then m\<lparr>mx_masterThread := Some False\<rparr> else m) }"

fun send_eofs :: "'w mixer_os \<Rightarrow> int list \<Rightarrow> 'w IOMixer \<Rightarrow> 'w IOMixer run" where
  "send_eofs os [] m = Some m"
| "send_eofs os (i # is) m =
     (case IOMixer_masterEncode os i [] 0 0 m of
        None \<Rightarrow> None
      | Some (_, m) \<Rightarrow> send_eofs os is (upd_slave i (\<lambda>s. s\<lparr>sl_eofSent := True\<rparr>) m))"

fun remove_slaves :: "'w mixer_os \<Rightarrow> nat \<Rightarrow> 'w IOMixer \<Rightarrow> 'w IOMixer run" where
  "remove_slaves os 0 m = Some m"
| "remove_slaves os (Suc n) m =
     (case mx_slaves m of
        [] \<Rightarrow> Some m
      | (_, s) # _ \<Rightarrow> (case IOMixer_removeSlave os (sl_id s) m of None \<Rightarrow> None | Some (_, m) \<Rightarrow> remove_slaves os n m))"

text \<open>
  After the ten polls \<^verbatim>\<open>masterEofReceived_\<close> is set, either by the master thread or by the timeout. The loop that
  removes all slaves takes one turn for each.
\<close>

definition IOMixer_shutdown :: "'w mixer_os \<Rightarrow> 'w IOMixer \<Rightarrow> (int \<times> 'w IOMixer) run" where
  "IOMixer_shutdown os m =
     (if mx_dead m then Some (-1, m)
      else do {
        let m = lock_slaves (m\<lparr>mx_dead := True\<rparr>);
        m \<leftarrow> send_eofs os (map (\<lambda>(k, s). sl_id s) (mx_slaves m)) m;
        (_, m) \<leftarrow> IOMixer_masterEncode os 0 [] 0 0 (unlock_slaves m);
        let m = m\<lparr>mx_masterEofSent := True, mx_masterEofReceived := True\<rparr>;
        (_, m) \<leftarrow> IOMixer_flush os m;
        m \<leftarrow> IOMixer_stop m;
        m \<leftarrow> remove_slaves os (length (mx_slaves m)) m;
        Some (0, m) })"

text \<open>The destructor of an object that is tracked; the libraries that it frees are left out.\<close>

definition IOMixer_destroy :: "'w mixer_os \<Rightarrow> 'w IOMixer \<Rightarrow> 'w IOMixer run" where
  "IOMixer_destroy os m = map_option snd (IOMixer_shutdown os m)"

end
