(* ===== verification/IO_Mixer_Wire.thy ===== *)
theory IO_Mixer_Wire
  imports IO_Mixer
begin

text \<open>
  The mixer as a multiplexer. The locale \<open>mixer_net\<close> says what the system calls promise: bytes that are written
  arrive at the stream in order, in pieces of any length; a pipe holds what was written to it. Its lemmas
  show that \<^verbatim>\<open>masterEncode\<close> and \<^verbatim>\<open>masterDecode\<close> are inverse and that the channels do not mix.
\<close>

section \<open>Packets\<close>

definition mix_frame :: "int \<Rightarrow> byte \<Rightarrow> byte list \<Rightarrow> byte list" where
  "mix_frame i f d = obj_bytes 4 (word_of_int i :: u32) @ [f] @ obj_bytes 4 (word_of_nat (length d) :: u32) @ d"

lemma length_mix_frame [simp]: "length (mix_frame i f d) = length d + 9"
  by (simp add: mix_frame_def)

text \<open>Whether data are compressed, and the flags and the body that are sent for them.\<close>

definition packs :: "bool \<Rightarrow> byte \<Rightarrow> byte list \<Rightarrow> bool" where
  "packs loaded flags d \<longleftrightarrow> 256 < length d \<and> flags AND IOMIXER_FLAG_COMPRESSION_ON \<noteq> 0 \<and> loaded"

definition pack :: "zlib \<Rightarrow> byte list \<Rightarrow> byte list" where
  "pack z d = snd (the (z_compress z) (nat (the (z_bound z) (int (length d)))) d)"

definition mix_packet :: "zlib \<Rightarrow> bool \<Rightarrow> int \<Rightarrow> byte \<Rightarrow> byte list \<Rightarrow> byte list" where
  "mix_packet z loaded i flags d =
     (if packs loaded flags d then mix_frame i flags (pack z d)
      else mix_frame i (if d = [] then flags else flags AND NOT IOMIXER_FLAG_COMPRESSION_ON) d)"

text \<open>
  What is asked of zlib: the bound is one, the result fits into it and into a packet, and is undone by
  decompression.
\<close>

definition pack_ok :: "zlib \<Rightarrow> byte list \<Rightarrow> bool" where
  "pack_ok z d \<longleftrightarrow> z_long32 z \<and> the (z_compress z) (nat (the (z_bound z) (int (length d)))) d = (0, pack z d) \<and>
     pack z d \<noteq> [] \<and> length (pack z d) \<le> nat (the (z_bound z) (int (length d))) \<and>
     int (length (pack z d)) \<le> IOMIXER_MAX_PACKET \<and>
     the (z_uncompress z) (nat IOMIXER_MAX_PACKET) (pack z d) = (d, int (length d))"

definition data_ok :: "zlib \<Rightarrow> bool \<Rightarrow> byte \<Rightarrow> byte list \<Rightarrow> bool" where
  "data_ok z loaded flags d \<longleftrightarrow> int (length d) \<le> IOMIXER_MAX_PACKET \<and>
     (loaded \<longrightarrow> int (length d) \<le> the (z_bound z) (int (length d))) \<and> (packs loaded flags d \<longrightarrow> pack_ok z d)"

text \<open>The part of it that sending needs.\<close>

definition send_ok :: "zlib \<Rightarrow> bool \<Rightarrow> byte \<Rightarrow> byte list \<Rightarrow> bool" where
  "send_ok z loaded flags d \<longleftrightarrow> (loaded \<longrightarrow> int (length d) \<le> the (z_bound z) (int (length d))) \<and>
     (packs loaded flags d \<longrightarrow> z_long32 z \<and> the (z_compress z) (nat (the (z_bound z) (int (length d)))) d = (0, pack z d) \<and>
        length (pack z d) \<le> nat (the (z_bound z) (int (length d))))"

lemma data_ok_send: "data_ok z l flags d \<Longrightarrow> send_ok z l flags d"
  by (simp add: data_ok_def send_ok_def pack_ok_def)

text \<open>Writes into the header and the body of a block.\<close>

lemma block_head:
  assumes "length a = 4" "length b = 4"
  shows "mem_write (replicate (n + 10) 0) 0 a = Some (a @ replicate (n + 6) 0)"
    "mem_write (a @ replicate (n + 6) 0) 4 [f] = Some (a @ [f] @ replicate (n + 5) 0)"
    "mem_write (a @ [f] @ replicate (n + 5) 0) 5 b = Some (a @ [f] @ b @ replicate (n + 1) 0)"
    "mem_write (a @ [f] @ b @ r) 4 [f'] = Some (a @ [f'] @ b @ r)"
    "length b' = 4 \<Longrightarrow> mem_write (a @ [f] @ b @ r) 5 b' = Some (a @ [f] @ b' @ r)"
    "length d \<le> length r \<Longrightarrow> mem_write (a @ [f] @ b @ r) 9 d = Some (a @ [f] @ b @ d @ drop (length d) r)"
  using assms by (simp_all add: mem_write_def drop_Cons')

section \<open>Channels\<close>

type_synonym packet = "int \<times> byte \<times> byte list"

definition stream :: "zlib \<Rightarrow> bool \<Rightarrow> packet list \<Rightarrow> byte list" where
  "stream z loaded ps = concat (map (\<lambda>(i, f, d). mix_packet z loaded i f d) ps)"

lemma stream_simps [simp]:
  "stream z l [] = []" "stream z l ((i, f, d) # ps) = mix_packet z l i f d @ stream z l ps"
  "stream z l (ps @ qs) = stream z l ps @ stream z l qs"
  by (simp_all add: stream_def)

definition packet_ok :: "zlib \<Rightarrow> bool \<Rightarrow> packet \<Rightarrow> bool" where
  "packet_ok z loaded p = (case p of (i, f, d) \<Rightarrow> data_ok z loaded f d \<and> i \<noteq> 0 \<and> - int_max - 1 \<le> i \<and> i \<le> int_max)"

text \<open>What a channel receives: the data of its packets in order, up to the empty one.\<close>

fun channel :: "int \<Rightarrow> packet list \<Rightarrow> byte list" where
  "channel i [] = []"
| "channel i ((j, f, d) # ps) = (if j \<noteq> i then channel i ps else if d = [] then [] else d @ channel i ps)"

text \<open>The effect of a packet on the slaves and the pipes.\<close>

fun hand_out :: "packet \<Rightarrow> (int, IOMixerSlave) smap \<times> (int \<Rightarrow> byte list) \<Rightarrow> (int, IOMixerSlave) smap \<times> (int \<Rightarrow> byte list)" where
  "hand_out (i, f, d) (ss, p) =
     (case smap_find ss i of
        None \<Rightarrow> (ss, p)
      | Some s \<Rightarrow> if d = [] then (smap_set i (s\<lparr>sl_eofReceived := True, sl_fdout := -1\<rparr>) ss, p)
                  else if sl_eofSent s \<or> sl_fdout s = -1 then (ss, p)
                  else (ss, p(sl_fdout s := p (sl_fdout s) @ d)))"

definition outs_apart :: "(int, IOMixerSlave) smap \<Rightarrow> bool" where
  "outs_apart ss \<longleftrightarrow> smap_ok ss \<and> (\<forall>i j s t. smap_find ss i = Some s \<longrightarrow> smap_find ss j = Some t \<longrightarrow> i \<noteq> j \<longrightarrow>
     sl_fdout s = sl_fdout t \<longrightarrow> sl_fdout s = -1)"

lemma smap_find_set [simp]: "smap_find (smap_set k v m) k' = (if k' = k then Some v else smap_find m k')"
  by (simp add: smap_find_def map_of_smap_set)

lemma outs_apartD:
  "outs_apart ss \<Longrightarrow> smap_find ss i = Some s \<Longrightarrow> smap_find ss j = Some t \<Longrightarrow> sl_fdout s \<noteq> -1 \<Longrightarrow>
     sl_fdout s = sl_fdout t \<Longrightarrow> i = j"
  unfolding outs_apart_def by blast

lemma outs_apart_close:
  assumes "outs_apart ss"
  shows "outs_apart (smap_set i (s\<lparr>sl_eofReceived := True, sl_fdout := -1\<rparr>) ss)"
  unfolding outs_apart_def
proof (intro conjI allI impI)
  show "smap_ok (smap_set i (s\<lparr>sl_eofReceived := True, sl_fdout := -1\<rparr>) ss)"
    using assms by (simp add: outs_apart_def smap_ok_set)
next
  fix k j x y
  assume "smap_find (smap_set i (s\<lparr>sl_eofReceived := True, sl_fdout := -1\<rparr>) ss) k = Some x"
    "smap_find (smap_set i (s\<lparr>sl_eofReceived := True, sl_fdout := -1\<rparr>) ss) j = Some y" "k \<noteq> j" "sl_fdout x = sl_fdout y"
  then show "sl_fdout x = -1" using outs_apartD [OF assms, of k x j y] by (cases "k = i"; cases "j = i") auto
qed

lemma outs_apart_hand_out: "outs_apart ss \<Longrightarrow> outs_apart (fst (hand_out p (ss, q)))"
  by (cases p) (simp add: outs_apart_close split: option.split)

lemma hand_out_other:
  assumes "smap_find ss i = Some s" "i \<noteq> fst p"
  shows "smap_find (fst (hand_out p (ss, q))) i = Some s"
  using assms by (cases p) (auto split: option.splits)

lemma hand_out_pipe:
  assumes "outs_apart ss" "smap_find ss i = Some s" "sl_fdout s \<noteq> -1" "\<not> sl_eofSent s"
  shows "snd (hand_out (j, f, d) (ss, q)) (sl_fdout s) = (if j = i then q (sl_fdout s) @ d else q (sl_fdout s))"
  using assms by (auto dest: outs_apartD split: option.splits)

lemma unowned_pipe:
  assumes "\<forall>j t. smap_find ss j = Some t \<longrightarrow> sl_fdout t \<noteq> fd" "fd \<noteq> -1"
  shows "snd (fold hand_out ps (ss, q)) fd = q fd"
  using assms(1)
proof (induction ps arbitrary: ss q)
  case Nil
  then show ?case by simp
next
  case (Cons p ps)
  have "snd (hand_out p (ss, q)) fd = q fd" "\<forall>j t. smap_find (fst (hand_out p (ss, q))) j = Some t \<longrightarrow> sl_fdout t \<noteq> fd"
    using Cons.prems assms(2) by (cases p; auto split: option.splits if_splits)+
  then show ?case using Cons.IH [of "fst (hand_out p (ss, q))" "snd (hand_out p (ss, q))"] by simp
qed

lemma fold_hand_out:
  assumes "outs_apart ss" "smap_find ss i = Some s" "sl_fdout s \<noteq> -1" "\<not> sl_eofSent s"
  shows "snd (fold hand_out ps (ss, q)) (sl_fdout s) = q (sl_fdout s) @ channel i ps"
  using assms(1,2)
proof (induction ps arbitrary: ss q)
  case Nil
  then show ?case by simp
next
  case (Cons p ps)
  obtain j f d where p: "p = (j, f, d)" by (cases p)
  define ss1 q1 where "ss1 = fst (hand_out p (ss, q))" and "q1 = snd (hand_out p (ss, q))"
  have q1: "q1 (sl_fdout s) = (if j = i then q (sl_fdout s) @ d else q (sl_fdout s))"
    using hand_out_pipe [OF Cons.prems assms(3,4)] by (simp add: q1_def p)
  have step: "fold hand_out (p # ps) (ss, q) = fold hand_out ps (ss1, q1)" by (simp add: ss1_def q1_def)
  show ?case
  proof (cases "j = i \<and> d = []")
    case True
    have "\<forall>k t. smap_find ss1 k = Some t \<longrightarrow> sl_fdout t \<noteq> sl_fdout s"
      using Cons.prems True assms(3) by (auto simp: ss1_def p dest: outs_apartD split: if_splits)
    then have "snd (fold hand_out ps (ss1, q1)) (sl_fdout s) = q1 (sl_fdout s)" using unowned_pipe assms(3) by blast
    then show ?thesis unfolding step using True q1 by (simp add: p)
  next
    case False
    then have "smap_find ss1 i = Some s" using Cons.prems(2) by (auto simp: ss1_def p split: option.splits)
    moreover have "outs_apart ss1" using outs_apart_hand_out [OF Cons.prems(1)] by (simp add: ss1_def)
    ultimately show ?thesis unfolding step using Cons.IH [of ss1 q1] q1 False by (auto simp: p)
  qed
qed

text \<open>
  The threads of the slaves take turns in any order, each with its own buffer; what they send when the
  channel \<open>i\<close> has the pieces \<open>F i\<close> to send.
\<close>

fun run_rounds :: "'w mixer_os \<Rightarrow> int list \<Rightarrow> (int \<Rightarrow> byte list) \<Rightarrow> 'w IOMixer \<Rightarrow> 'w IOMixer run" where
  "run_rounds os [] bufs m = Some m"
| "run_rounds os (i # is) bufs m =
     (case slave_round os i (bufs i) m of None \<Rightarrow> None | Some (_, b, m) \<Rightarrow> run_rounds os is (bufs(i := b)) m)"

fun emitted :: "(int \<Rightarrow> byte) \<Rightarrow> (int \<Rightarrow> byte list list) \<Rightarrow> int list \<Rightarrow> packet list" where
  "emitted fl F [] = []"
| "emitted fl F (i # is) = (i, fl i, hd (F i)) # emitted fl (F(i := tl (F i))) is"

lemma channel_emitted:
  assumes "\<forall>i\<in>set is. count_list is i \<le> length (F i) \<and> [] \<notin> set (F i)"
  shows "channel i (emitted fl F is) = concat (take (count_list is i) (F i))"
  using assms
proof (induction "is" arbitrary: F)
  case Nil
  then show ?case by simp
next
  case (Cons j js)
  then obtain d ds where d: "F j = d # ds" "d \<noteq> []" by (cases "F j") auto
  define G where "G = F(j := ds)"
  have G: "G j = ds" "k \<noteq> j \<Longrightarrow> G k = F k" "tl (F j) = ds" "hd (F j) = d" for k using d by (simp_all add: G_def)
  have "\<forall>k\<in>set js. count_list js k \<le> length (G k) \<and> [] \<notin> set (G k)"
  proof
    fix k
    assume "k \<in> set js"
    then show "count_list js k \<le> length (G k) \<and> [] \<notin> set (G k)"
      using Cons.prems d G(1) G(2) [of k] by (cases "k = j") (auto split: if_splits)
  qed
  then have "channel i (emitted fl G js) = concat (take (count_list js i) (G i))" by (rule Cons.IH)
  then show ?case using d G(1) G(2) [of i] by (cases "i = j") (simp_all add: G(3,4) G_def [symmetric] del: fun_upd_apply)
qed

lemma packet_ok_iff:
  "packet_ok z l (i, f, d) \<longleftrightarrow> data_ok z l f d \<and> i \<noteq> 0 \<and> - int_max - 1 \<le> i \<and> i \<le> int_max"
  by (simp add: packet_ok_def)

lemma emitted_ok:
  assumes "\<forall>i\<in>set is. count_list is i \<le> length (F i) \<and> i \<noteq> 0 \<and> - int_max - 1 \<le> i \<and> i \<le> int_max \<and>
      (\<forall>d\<in>set (F i). data_ok z l (fl i) d)"
  shows "list_all (packet_ok z l) (emitted fl F is)"
  using assms
proof (induction "is" arbitrary: F)
  case Nil
  then show ?case by simp
next
  case (Cons j js)
  then obtain d ds where d: "F j = d # ds" by (cases "F j") auto
  define G where "G = F(j := ds)"
  have G: "G j = ds" "k \<noteq> j \<Longrightarrow> G k = F k" "tl (F j) = ds" "hd (F j) = d" for k using d by (simp_all add: G_def)
  have "\<forall>i\<in>set js. count_list js i \<le> length (G i) \<and> i \<noteq> 0 \<and> - int_max - 1 \<le> i \<and> i \<le> int_max \<and>
      (\<forall>d\<in>set (G i). data_ok z l (fl i) d)"
  proof
    fix k
    assume "k \<in> set js"
    then show "count_list js k \<le> length (G k) \<and> k \<noteq> 0 \<and> - int_max - 1 \<le> k \<and> k \<le> int_max \<and>
        (\<forall>d\<in>set (G k). data_ok z l (fl k) d)"
      using Cons.prems d G(1) G(2) [of k] by (cases "k = j") (auto split: if_splits)
  qed
  then have "list_all (packet_ok z l) (emitted fl G js)" by (rule Cons.IH)
  then show ?case using Cons.prems d by (simp add: packet_ok_iff G(3,4) G_def [symmetric] del: fun_upd_apply)
qed

section \<open>The contract of the system calls\<close>

locale mixer_net =
  fixes os :: "'w mixer_os"
    and sent :: "'w \<Rightarrow> byte list"
    and coming :: "'w \<Rightarrow> byte list"
    and pipe :: "'w \<Rightarrow> int \<Rightarrow> byte list"
    and feed :: "'w \<Rightarrow> int \<Rightarrow> byte list list"
  assumes out_law: "master_out os ty = Some out \<Longrightarrow> bs \<noteq> [] \<Longrightarrow>
      \<exists>n w'. out w bs = (n, w') \<and> 0 < n \<and> n \<le> int (length bs) \<and> sent w' = sent w @ take (nat n) bs \<and>
        coming w' = coming w \<and> pipe w' = pipe w \<and> feed w' = feed w"
    and in_law: "master_in os ty = Some inp \<Longrightarrow> coming w \<noteq> [] \<Longrightarrow> 0 < n \<Longrightarrow>
      \<exists>bs w'. inp w n = (bs, w') \<and> bs \<noteq> [] \<and> length bs \<le> n \<and> coming w = bs @ coming w' \<and>
        sent w' = sent w \<and> pipe w' = pipe w"
    and pipe_law: "\<exists>n w'. mo_fdwrite os fd d w = (n, w') \<and> sent w' = sent w \<and> coming w' = coming w \<and>
        (if fd = -1 then pipe w' = pipe w else n = int (length d) \<and> pipe w' = (pipe w)(fd := pipe w fd @ d))"
    and close_law: "sent (mo_close os fd w) = sent w" "coming (mo_close os fd w) = coming w"
      "pipe (mo_close os fd w) = pipe w"
    and read_law: "feed w fd = d # ds \<Longrightarrow> length d \<le> n \<Longrightarrow> \<exists>w'. mo_fdread os fd n w = (int (length d), d, w') \<and>
        feed w' = (feed w)(fd := ds) \<and> sent w' = sent w"
begin

lemma write_loop_sends:
  assumes "master_out os ty = Some out" "src + b \<le> length buf"
  shows "\<exists>w'. master_write_loop out buf src (int b) w = (0, w') \<and> sent w' = sent w @ take b (drop src buf) \<and>
    coming w' = coming w \<and> pipe w' = pipe w \<and> feed w' = feed w"
  using assms(2)
proof (induction b arbitrary: src w rule: less_induct)
  case (less b)
  show ?case
  proof (cases "b = 0")
    case True
    then show ?thesis by (simp add: master_write_loop.simps)
  next
    case False
    define bs where "bs = take b (drop src buf)"
    have l: "length bs = b" "bs \<noteq> []" using False less.prems by (auto simp: bs_def)
    obtain n w1 where n: "out w bs = (n, w1)" "0 < n" "n \<le> int b" "sent w1 = sent w @ take (nat n) bs"
        "coming w1 = coming w" "pipe w1 = pipe w" "feed w1 = feed w"
      using out_law [OF assms(1) l(2), of w] l(1) by auto
    define k where "k = nat n"
    have k: "0 < k" "k \<le> b" "n = int k" using n(2,3) by (simp_all add: k_def)
    obtain w' where w': "master_write_loop out buf (src + k) (int (b - k)) w1 = (0, w')"
        "sent w' = sent w1 @ take (b - k) (drop (src + k) buf)" "coming w' = coming w1" "pipe w' = pipe w1" "feed w' = feed w1"
      using less.IH [of "b - k" "src + k" w1] k less.prems by auto
    have "int b - int k = int (b - k)" using k(2) by simp
    then have "master_write_loop out buf src (int b) w = (0, w')"
      using n(1) w'(1) k False by (subst master_write_loop.simps) (simp add: bs_def)
    moreover have tk: "take k bs = take k (drop src buf)" using k(2) by (simp add: bs_def min_absorb1)
    have "take k bs @ take (b - k) (drop (src + k) buf) = bs"
      unfolding tk using take_add [of k "b - k" "drop src buf"] k(2) by (simp add: bs_def add.commute)
    ultimately show ?thesis using w' n k by (simp add: bs_def [symmetric])
  qed
qed

lemma read_loop_receives:
  assumes "master_in os ty = Some inp" "coming w = d @ rest" "dst + length d \<le> length buf"
  shows "\<exists>w'. master_read_loop inp buf dst (length d) w = Some (0, take dst buf @ d @ drop (dst + length d) buf, w') \<and>
    coming w' = rest \<and> sent w' = sent w \<and> pipe w' = pipe w"
  using assms(2,3)
proof (induction "length d" arbitrary: d dst buf w rule: less_induct)
  case less
  show ?case
  proof (cases "d = []")
    case True
    then show ?thesis using less.prems by (simp add: master_read_loop.simps)
  next
    case False
    then obtain bs w1 where r: "inp w (length d) = (bs, w1)" "bs \<noteq> []" "length bs \<le> length d" "coming w = bs @ coming w1"
        "sent w1 = sent w" "pipe w1 = pipe w"
      using in_law [OF assms(1), of w "length d"] less.prems(1) by auto
    then obtain d' where d: "d = bs @ d'" "coming w1 = d' @ rest"
      using less.prems(1) by (auto simp: append_eq_append_conv2)
    define buf1 where "buf1 = take dst buf @ bs @ drop (dst + length bs) buf"
    have b1: "length buf1 = length buf" "mem_write buf dst bs = Some buf1"
      using less.prems(2) d(1) by (simp_all add: buf1_def mem_simps)
    obtain w' where w': "master_read_loop inp buf1 (dst + length bs) (length d') w1 =
        Some (0, take (dst + length bs) buf1 @ d' @ drop (dst + length bs + length d') buf1, w')"
        "coming w' = rest" "sent w' = sent w1" "pipe w' = pipe w1"
      using less.hyps [of d' w1 "dst + length bs" buf1] d r(2) less.prems(2) b1(1) by (auto simp flip: length_greater_0_conv)
    have "take (dst + length bs) buf1 @ d' @ drop (dst + length bs + length d') buf1 =
        take dst buf @ d @ drop (dst + length d) buf"
      using less.prems(2) d(1) by (simp add: buf1_def ac_simps)
    then show ?thesis using w' r b1(2) d(1) False by (subst master_read_loop.simps) simp
  qed
qed

lemma masterWrite_sends:
  assumes "\<not> mx_masterEofSent m" "master_out os (mx_masterOutType m) = Some out" "n \<le> length block"
  shows "\<exists>w. IOMixer_masterWrite os block (int n) m = Some (0, m\<lparr>mx_world := w\<rparr>) \<and>
    sent w = sent (mx_world m) @ take n block \<and> coming w = coming (mx_world m) \<and> pipe w = pipe (mx_world m) \<and> feed w = feed (mx_world m)"
  using write_loop_sends [OF assms(2), of 0 n block "mx_world m"] assms
  by (auto simp: IOMixer_masterWrite_def)

lemma masterRead_receives:
  assumes "\<not> mx_masterEofReceived m" "master_in os (mx_masterInType m) = Some inp" "coming (mx_world m) = d @ rest"
    "length d \<le> length buf"
  shows "\<exists>w. IOMixer_masterRead os buf (int (length d)) m = Some (0, d @ drop (length d) buf, m\<lparr>mx_world := w\<rparr>) \<and>
    coming w = rest \<and> sent w = sent (mx_world m) \<and> pipe w = pipe (mx_world m)"
  using read_loop_receives [OF assms(2,3), of 0 buf] assms(1,2,4)
  by (auto simp: IOMixer_masterRead_def)

text \<open>The packet that is built in the block.\<close>

lemma masterEncode_block:
  assumes "send_ok (mx_zlib m) (mx_zlibLoaded m) flags d" "buf = d @ rest"
  shows "\<exists>block (body :: byte list). IOMixer_masterEncode os i buf (int (length d)) flags m =
      do { (rc, m) \<leftarrow> IOMixer_masterWrite os block (int (length body + 9)) m; Some (if rc \<noteq> 0 then -1 else 0, m) } \<and>
    take (length body + 9) block = mix_packet (mx_zlib m) (mx_zlibLoaded m) i flags d \<and> length body + 9 \<le> length block"
proof -
  let ?z = "mx_zlib m" and ?l = "mx_zlibLoaded m"
  define bound where "bound = (if ?l then the (z_bound ?z) (int (length d)) else int (length d))"
  define n where "n = nat bound"
  have b: "length d \<le> n" "bound = int n" "nat (bound + 10) = n + 10" "\<not> bound + 10 < 0"
    using assms(1) by (auto simp: send_ok_def bound_def n_def)
  define a where "a = obj_bytes 4 (word_of_int i :: u32)"
  define sz where "sz = obj_bytes 4 (word_of_nat (length d) :: u32)"
  have la: "length a = 4" "length sz = 4" by (simp_all add: a_def sz_def)
  note head = block_head(1) [OF la, where n = n] block_head(2,3) [OF la, where n = n and f = flags]
  show ?thesis
  proof (cases "packs ?l flags d")
    case True
    define body where "body = pack ?z d"
    define bsz where "bsz = obj_bytes 4 (word_of_nat (length body) :: u32)"
    have z: "z_long32 ?z" "the (z_compress ?z) n d = (0, body)" "length body \<le> n"
      using assms(1) True by (auto simp: send_ok_def packs_def n_def bound_def body_def)
    have c: "256 < length d" "flags AND IOMIXER_FLAG_COMPRESSION_ON \<noteq> 0" ?l using True by (simp_all add: packs_def)
    define r where "r = drop (length body) (replicate (n + 1) 0 :: byte list)"
    have wr: "mem_write (a @ [flags] @ sz @ replicate (n + 1) 0) 9 body = Some (a @ [flags] @ sz @ body @ r)"
      "mem_write (a @ [flags] @ sz @ body @ r) 5 bsz = Some (a @ [flags] @ bsz @ body @ r)"
      using block_head(6) [OF la, where d = body and r = "replicate (n + 1) 0" and f = flags] block_head(5) [OF la, where b' = bsz and f = flags and r = "body @ r"] z(3)
      by (simp_all add: r_def bsz_def)
    have rd: "mem_read buf 0 (length d) = Some d" by (simp add: mem_read_def assms(2))
    have "IOMixer_masterEncode os i buf (int (length d)) flags m =
      do { (rc, m) \<leftarrow> IOMixer_masterWrite os (a @ [flags] @ bsz @ body @ r) (int (length body + 9)) m; Some (if rc \<noteq> 0 then -1 else 0, m) }"
      unfolding IOMixer_masterEncode_def encode_packet_def bound_def [symmetric] Let_def
      using c b(2-4) head wr rd z
      by (simp add: a_def [symmetric] sz_def [symmetric] bsz_def [symmetric] ac_simps)
    moreover have "take (length body + 9) (a @ [flags] @ bsz @ body @ r) = mix_packet ?z ?l i flags d"
      using True la by (simp add: mix_packet_def mix_frame_def a_def bsz_def body_def take_Cons')
    moreover have "length body + 9 \<le> length (a @ [flags] @ bsz @ body @ r)" using la by (simp add: bsz_def)
    ultimately show ?thesis by blast
  next
    case False
    define f where "f = (if d = [] then flags else flags AND NOT IOMIXER_FLAG_COMPRESSION_ON)"
    define r where "r = drop (length d) (replicate (n + 1) 0 :: byte list)"
    have wr: "mem_write (a @ [flags] @ sz @ replicate (n + 1) 0) 4 [f] = Some (a @ [f] @ sz @ replicate (n + 1) 0)"
      "memcpy (a @ [f] @ sz @ replicate (n + 1) 0) 9 buf 0 (length d) = Some (a @ [f] @ sz @ d @ r)"
      using block_head(4) [OF la] block_head(6) [OF la, where d = d and r = "replicate (n + 1) 0" and f = f] b(1)
      by (simp_all add: r_def memcpy_def mem_read_def assms(2))
    have empty: "d = [] \<Longrightarrow> obj_bytes 4 (0 :: u32) = sz" by (simp add: sz_def)
    have c: "\<not> (256 < int (length d) \<and> flags AND IOMIXER_FLAG_COMPRESSION_ON \<noteq> 0 \<and> ?l)" using False by (simp add: packs_def)
    have "IOMixer_masterEncode os i buf (int (length d)) flags m =
      do { (rc, m) \<leftarrow> IOMixer_masterWrite os (a @ [f] @ sz @ d @ r) (int (length d + 9)) m; Some (if rc \<noteq> 0 then -1 else 0, m) }"
      unfolding IOMixer_masterEncode_def encode_packet_def bound_def [symmetric] Let_def if_not_P [OF c]
      using b(2-4) head wr empty
      by (cases "d = []") (simp_all add: a_def [symmetric] sz_def [symmetric] f_def r_def ac_simps)
    moreover have "take (length d + 9) (a @ [f] @ sz @ d @ r) = mix_packet ?z ?l i flags d"
      using False la by (simp add: mix_packet_def mix_frame_def a_def sz_def f_def take_Cons')
    moreover have "length d + 9 \<le> length (a @ [f] @ sz @ d @ r)" using la by simp
    ultimately show ?thesis by blast
  qed
qed

lemma masterEncode_sends:
  assumes "\<not> mx_masterEofSent m" "master_out os (mx_masterOutType m) = Some out"
    "send_ok (mx_zlib m) (mx_zlibLoaded m) flags d" "buf = d @ rest"
  shows "\<exists>w. IOMixer_masterEncode os i buf (int (length d)) flags m = Some (0, m\<lparr>mx_world := w\<rparr>) \<and>
    sent w = sent (mx_world m) @ mix_packet (mx_zlib m) (mx_zlibLoaded m) i flags d \<and>
    coming w = coming (mx_world m) \<and> pipe w = pipe (mx_world m) \<and> feed w = feed (mx_world m)"
proof -
  obtain block body where e: "IOMixer_masterEncode os i buf (int (length d)) flags m =
      do { (rc, m) \<leftarrow> IOMixer_masterWrite os block (int (length body + 9)) m; Some (if rc \<noteq> 0 then -1 else 0, m) }"
      "take (length body + 9) block = mix_packet (mx_zlib m) (mx_zlibLoaded m) i flags d" "length (body :: byte list) + 9 \<le> length block"
    using masterEncode_block [OF assms(3,4)] by blast
  show ?thesis unfolding e(1) using masterWrite_sends [OF assms(1,2) e(3)] e(2) by auto
qed

lemma masterRead_exact:
  assumes "\<not> mx_masterEofReceived m" "master_in os (mx_masterInType m) = Some inp" "coming (mx_world m) = b @ rest"
    "length b = n" "length buf = n"
  shows "\<exists>w. IOMixer_masterRead os buf (int n) m = Some (0, b, m\<lparr>mx_world := w\<rparr>) \<and>
    coming w = rest \<and> sent w = sent (mx_world m) \<and> pipe w = pipe (mx_world m)"
  using masterRead_receives [OF assms(1-3), of buf] assms(4,5) by simp

lemma masterDecode_head:
  assumes "\<not> mx_masterEofReceived m" "master_in os (mx_masterInType m) = Some inp"
    "coming (mx_world m) = obj_bytes 4 (wi :: u32) @ [f] @ obj_bytes 4 (ws :: u32) @ rest"
  shows "\<exists>w. IOMixer_masterDecode os id0 sz0 flags0 data IOMIXER_MAX_PACKET m =
      decode_body os IOMIXER_MAX_PACKET (sint wi) f (sint ws) data (m\<lparr>mx_world := w\<rparr>) \<and>
    coming w = rest \<and> sent w = sent (mx_world m) \<and> pipe w = pipe (mx_world m)"
proof -
  obtain w1 where w1: "IOMixer_masterRead os (obj_bytes 4 (word_of_int id0 :: u32)) 4 m = Some (0, obj_bytes 4 wi, m\<lparr>mx_world := w1\<rparr>)"
      "coming w1 = [f] @ obj_bytes 4 ws @ rest" "sent w1 = sent (mx_world m)" "pipe w1 = pipe (mx_world m)"
    using masterRead_exact [OF assms(1-3), of 4 "obj_bytes 4 (word_of_int id0 :: u32)"] by auto
  obtain w2 where w2: "IOMixer_masterRead os [flags0] 1 (m\<lparr>mx_world := w1\<rparr>) = Some (0, [f], m\<lparr>mx_world := w2\<rparr>)"
      "coming w2 = obj_bytes 4 ws @ rest" "sent w2 = sent w1" "pipe w2 = pipe w1"
    using masterRead_exact [of "m\<lparr>mx_world := w1\<rparr>" inp "[f]" "obj_bytes 4 ws @ rest" 1 "[flags0]"] assms(1,2) w1(2) by auto
  obtain w3 where w3: "IOMixer_masterRead os (obj_bytes 4 (word_of_int sz0 :: u32)) 4 (m\<lparr>mx_world := w2\<rparr>) =
      Some (0, obj_bytes 4 ws, m\<lparr>mx_world := w3\<rparr>)" "coming w3 = rest" "sent w3 = sent w2" "pipe w3 = pipe w2"
    using masterRead_exact [of "m\<lparr>mx_world := w2\<rparr>" inp "obj_bytes 4 ws" rest 4 "obj_bytes 4 (word_of_int sz0 :: u32)"] assms(1,2) w2(2)
    by auto
  have "IOMixer_masterDecode os id0 sz0 flags0 data IOMIXER_MAX_PACKET m =
      decode_body os IOMIXER_MAX_PACKET (sint wi) f (sint ws) data (m\<lparr>mx_world := w3\<rparr>)"
    using w1(1) w2(1) w3(1) by (simp add: IOMixer_masterDecode_def Let_def)
  then show ?thesis using w1 w2 w3 by auto
qed

lemma masterDecode_receives:
  assumes "\<not> mx_masterEofReceived m" "master_in os (mx_masterInType m) = Some inp"
    "coming (mx_world m) = mix_packet (mx_zlib m) (mx_zlibLoaded m) i flags d @ rest"
    "data_ok (mx_zlib m) (mx_zlibLoaded m) flags d" "- int_max - 1 \<le> i" "i \<le> int_max"
    "int (length data) = IOMIXER_MAX_PACKET"
  shows "\<exists>w. IOMixer_masterDecode os id0 sz0 flags0 data IOMIXER_MAX_PACKET m =
      Some (0, i, int (length d), d @ drop (length d) data, m\<lparr>mx_world := w\<rparr>) \<and>
    coming w = rest \<and> sent w = sent (mx_world m) \<and> pipe w = pipe (mx_world m)"
proof -
  let ?z = "mx_zlib m" and ?l = "mx_zlibLoaded m"
  define body where "body = (if packs ?l flags d then pack ?z d else d)"
  define f where "f = (if packs ?l flags d \<or> d = [] then flags else flags AND NOT IOMIXER_FLAG_COMPRESSION_ON)"
  have pk: "mix_packet ?z ?l i flags d = mix_frame i f body" by (simp add: mix_packet_def f_def body_def)
  have lb: "int (length body) \<le> IOMIXER_MAX_PACKET" using assms(4) by (auto simp: body_def data_ok_def pack_ok_def)
  then have sl: "sint (word_of_nat (length body) :: u32) = int (length body)"
    using sint_u32_small [of "length body"] by (simp add: IOMIXER_MAX_PACKET_def)
  have si: "sint (word_of_int i :: u32) = i" using assms(5,6) by (simp add: signed_of_int signed_take_bit_int_eq_self)
  obtain w1 where w1: "IOMixer_masterDecode os id0 sz0 flags0 data IOMIXER_MAX_PACKET m =
      decode_body os IOMIXER_MAX_PACKET i f (int (length body)) data (m\<lparr>mx_world := w1\<rparr>)"
      "coming w1 = body @ rest" "sent w1 = sent (mx_world m)" "pipe w1 = pipe (mx_world m)"
    using masterDecode_head [OF assms(1,2), of "word_of_int i" f "word_of_nat (length body)" "body @ rest" id0 sz0 flags0 data]
      assms(3) unfolding pk by (auto simp: mix_frame_def sl si)
  consider "packs ?l flags d" | "\<not> packs ?l flags d" "d \<noteq> []" | "d = []" "\<not> packs ?l flags d" by blast
  then show ?thesis
  proof cases
    case 1
    then have p: "body = pack ?z d" "body \<noteq> []" "f AND IOMIXER_FLAG_COMPRESSION_ON \<noteq> 0" ?l
        "z_long32 ?z" "the (z_uncompress ?z) (nat IOMIXER_MAX_PACKET) body = (d, int (length d))"
      using assms(4) by (auto simp: body_def f_def packs_def data_ok_def pack_ok_def)
    obtain w2 where w2: "IOMixer_masterRead os (replicate (length body) 0) (int (length body)) (m\<lparr>mx_world := w1\<rparr>) =
        Some (0, body, m\<lparr>mx_world := w2\<rparr>)" "coming w2 = rest" "sent w2 = sent w1" "pipe w2 = pipe w1"
      using masterRead_exact [of "m\<lparr>mx_world := w1\<rparr>" inp body rest "length body" "replicate (length body) 0"] assms(1,2) w1(2) by auto
    have "length d \<le> length data" using assms(4,7) by (simp add: data_ok_def)
    then have "mem_write data 0 d = Some (d @ drop (length d) data)" by (simp add: mem_write_def)
    then have "decode_body os IOMIXER_MAX_PACKET i f (int (length body)) data (m\<lparr>mx_world := w1\<rparr>) =
        Some (0, i, int (length d), d @ drop (length d) data, m\<lparr>mx_world := w2\<rparr>)"
      using p lb w2(1) by (simp add: decode_body_def)
    then show ?thesis using w1 w2 by auto
  next
    case 2
    then have p: "body = d" "f AND IOMIXER_FLAG_COMPRESSION_ON = 0" by (simp_all add: body_def f_def and.assoc)
    have ld: "length d \<le> length data" using assms(4,7) by (simp add: data_ok_def)
    obtain w2 where w2: "IOMixer_masterRead os data (int (length d)) (m\<lparr>mx_world := w1\<rparr>) =
        Some (0, d @ drop (length d) data, m\<lparr>mx_world := w2\<rparr>)" "coming w2 = rest" "sent w2 = sent w1" "pipe w2 = pipe w1"
      using masterRead_receives [of "m\<lparr>mx_world := w1\<rparr>" inp d rest data] assms(1,2) w1(2) p(1) ld by auto
    have "decode_body os IOMIXER_MAX_PACKET i f (int (length body)) data (m\<lparr>mx_world := w1\<rparr>) =
        Some (0, i, int (length d), d @ drop (length d) data, m\<lparr>mx_world := w2\<rparr>)"
      using p lb w2(1) 2(2) by (simp add: decode_body_def)
    then show ?thesis using w1 w2 by auto
  next
    case 3
    then have "body = []" by (simp add: body_def)
    then show ?thesis using w1 3 by (auto simp: decode_body_def IOMIXER_MAX_PACKET_def)
  qed
qed

lemma master_round_packet:
  assumes "\<not> mx_masterEofReceived m" "master_in os (mx_masterInType m) = Some inp"
    "coming (mx_world m) = mix_packet (mx_zlib m) (mx_zlibLoaded m) i f d @ rest"
    "packet_ok (mx_zlib m) (mx_zlibLoaded m) (i, f, d)" "int (length data) = IOMIXER_MAX_PACKET"
    "(ss, q) = hand_out (i, f, d) (mx_slaves m, pipe (mx_world m))"
  shows "\<exists>v data' w. master_round os flags0 (i0, sz0, data) m = Some (True, v, m\<lparr>mx_slaves := ss, mx_world := w\<rparr>) \<and>
    snd (snd v) = data' \<and> length data' = length data \<and> coming w = rest \<and> sent w = sent (mx_world m) \<and> pipe w = q"
proof -
  have ok: "data_ok (mx_zlib m) (mx_zlibLoaded m) f d" "i \<noteq> 0" "- int_max - 1 \<le> i" "i \<le> int_max" "length d \<le> length data"
    using assms(4,5) by (auto simp: packet_ok_def data_ok_def)
  obtain w1 where w1: "IOMixer_masterDecode os i0 sz0 flags0 data IOMIXER_MAX_PACKET m =
      Some (0, i, int (length d), d @ drop (length d) data, m\<lparr>mx_world := w1\<rparr>)" "coming w1 = rest"
      "sent w1 = sent (mx_world m)" "pipe w1 = pipe (mx_world m)"
    using masterDecode_receives [OF assms(1-3) ok(1,3,4) assms(5)] by blast
  define v where "v = (i, int (length d), d @ drop (length d) data)"
  have v: "length (snd (snd v)) = length data" using ok(5) by (simp add: v_def)
  have "\<exists>w. master_round os flags0 (i0, sz0, data) m = Some (True, v, m\<lparr>mx_slaves := ss, mx_world := w\<rparr>) \<and>
      coming w = rest \<and> sent w = sent (mx_world m) \<and> pipe w = q"
  proof (cases "smap_find (mx_slaves m) i")
    case None
    then have "ss = mx_slaves m" "q = pipe (mx_world m)" using assms(6) by simp_all
    moreover have "master_round os flags0 (i0, sz0, data) m = Some (True, v, m\<lparr>mx_world := w1\<rparr>)"
      using w1(1) ok(2) None by (simp add: master_round_def IOMixer_getSlave_def IOMixer_slaveWrite_def v_def)
    ultimately show ?thesis using w1 by (intro exI [of _ w1]) simp
  next
    case (Some s)
    show ?thesis
    proof (cases "d = []")
      case True
      define w2 where "w2 = (if sl_fdout s \<noteq> -1 then mo_close os (sl_fdout s) w1 else w1)"
      have "ss = smap_set i (s\<lparr>sl_eofReceived := True, sl_fdout := -1\<rparr>) (mx_slaves m)" "q = pipe (mx_world m)"
        using assms(6) Some True by simp_all
      moreover have "master_round os flags0 (i0, sz0, data) m =
          Some (True, v, m\<lparr>mx_slaves := smap_set i (s\<lparr>sl_eofReceived := True, sl_fdout := -1\<rparr>) (mx_slaves m), mx_world := w2\<rparr>)"
        using w1(1) ok(2) Some True by (simp add: master_round_def IOMixer_getSlave_def upd_slave_def close_fd_def v_def w2_def)
      ultimately show ?thesis using w1 by (intro exI [of _ w2]) (simp add: w2_def close_law)
    next
      case False
      obtain n w2 where w2: "mo_fdwrite os (sl_fdout s) d w1 = (n, w2)" "sent w2 = sent w1" "coming w2 = coming w1"
          "if sl_fdout s = -1 then pipe w2 = pipe w1 else n = int (length d) \<and> pipe w2 = (pipe w1)(sl_fdout s := pipe w1 (sl_fdout s) @ d)"
        using pipe_law by blast
      define w3 where "w3 = (if sl_eofSent s then w1 else w2)"
      have rd: "mem_read (d @ drop (length d) data) 0 (length d) = Some d" by (simp add: mem_read_def)
      have "ss = mx_slaves m" "q = pipe w3" using assms(6) Some False w1(4) w2(4) by (auto simp: w3_def split: if_splits)
      moreover have "master_round os flags0 (i0, sz0, data) m = Some (True, v, m\<lparr>mx_world := w3\<rparr>)"
        using w1(1) ok(2) Some False rd w2(1)
        by (simp add: master_round_def IOMixer_getSlave_def IOMixer_slaveWrite_def v_def w3_def)
      ultimately show ?thesis using w1 w2 by (intro exI [of _ w3]) (simp add: w3_def)
    qed
  qed
  then show ?thesis using v by blast
qed

lemma master_rounds_stream:
  assumes "\<not> mx_masterEofReceived m" "master_in os (mx_masterInType m) = Some inp"
    "coming (mx_world m) = stream (mx_zlib m) (mx_zlibLoaded m) ps @ mix_packet (mx_zlib m) (mx_zlibLoaded m) 0 0 [] @ rest"
    "list_all (packet_ok (mx_zlib m) (mx_zlibLoaded m)) ps" "int (length data) = IOMIXER_MAX_PACKET"
    "mx_zlibLoaded m \<longrightarrow> 0 \<le> the (z_bound (mx_zlib m)) 0"
  shows "\<exists>w. master_rounds os flags0 (i0, sz0, data) m =
      master_finish (m\<lparr>mx_slaves := fst (fold hand_out ps (mx_slaves m, pipe (mx_world m))), mx_world := w, mx_masterEofReceived := True\<rparr>) \<and>
    coming w = rest \<and> pipe w = snd (fold hand_out ps (mx_slaves m, pipe (mx_world m)))"
  using assms
proof (induction ps arbitrary: m i0 sz0 data)
  case Nil
  have ok: "data_ok (mx_zlib m) (mx_zlibLoaded m) 0 []" using Nil.prems(6) by (simp add: data_ok_def packs_def IOMIXER_MAX_PACKET_def)
  obtain w1 where w1: "IOMixer_masterDecode os i0 sz0 flags0 data IOMIXER_MAX_PACKET m =
      Some (0, 0, 0, data, m\<lparr>mx_world := w1\<rparr>)" "coming w1 = rest" "pipe w1 = pipe (mx_world m)"
    using masterDecode_receives [OF Nil.prems(1,2) _ ok, where rest = rest and i = 0 and data = data and ?id0.0 = i0 and ?sz0.0 = sz0 and ?flags0.0 = flags0]
      Nil.prems(3,5) by auto
  have "master_round os flags0 (i0, sz0, data) m = Some (True, (0, 0, data), m\<lparr>mx_world := w1, mx_masterEofReceived := True\<rparr>)"
    using w1(1) by (simp add: master_round_def)
  then show ?case using Nil.prems(1) w1 by (subst master_rounds.simps, subst master_rounds.simps) auto
next
  case (Cons p ps)
  obtain i f d where p: "p = (i, f, d)" by (cases p)
  define ss q where "ss = fst (hand_out p (mx_slaves m, pipe (mx_world m)))" and "q = snd (hand_out p (mx_slaves m, pipe (mx_world m)))"
  define rest1 where "rest1 = stream (mx_zlib m) (mx_zlibLoaded m) ps @ mix_packet (mx_zlib m) (mx_zlibLoaded m) 0 0 [] @ rest"
  have c: "coming (mx_world m) = mix_packet (mx_zlib m) (mx_zlibLoaded m) i f d @ rest1"
    using Cons.prems(3) by (simp add: p rest1_def)
  have k: "packet_ok (mx_zlib m) (mx_zlibLoaded m) (i, f, d)" "(ss, q) = hand_out (i, f, d) (mx_slaves m, pipe (mx_world m))"
    using Cons.prems(4) p by (simp_all add: ss_def q_def)
  obtain v data' w where w: "master_round os flags0 (i0, sz0, data) m = Some (True, v, m\<lparr>mx_slaves := ss, mx_world := w\<rparr>)"
      "snd (snd v) = data'" "length data' = length data" "coming w = rest1" "pipe w = q"
    using master_round_packet [OF Cons.prems(1,2) c k(1) Cons.prems(5) k(2)] by blast
  obtain i1 sz1 where v: "v = (i1, sz1, data')" using w(2) by (cases v) auto
  have "master_rounds os flags0 (i0, sz0, data) m = master_rounds os flags0 (i1, sz1, data') (m\<lparr>mx_slaves := ss, mx_world := w\<rparr>)"
    using Cons.prems(1) w(1) v by (subst master_rounds.simps) simp
  then show ?case
    using Cons.IH [of "m\<lparr>mx_slaves := ss, mx_world := w\<rparr>" data' i1 sz1] Cons.prems w(3-5) by (simp add: rest1_def ss_def q_def)
qed

text \<open>A round of a slave sends the next piece of its channel.\<close>

lemma slave_round_sends:
  assumes "\<not> mx_masterEofSent m" "master_out os (mx_masterOutType m) = Some out" "smap_find (mx_slaves m) i = Some s"
    "\<not> sl_cancelled s" "feed (mx_world m) (sl_fdin s) = d # ds" "d \<noteq> []"
    "data_ok (mx_zlib m) (mx_zlibLoaded m) (sl_flags s) d" "int (length buf) = IOMIXER_MAX_PACKET"
  shows "\<exists>buf' w. slave_round os i buf m = Some (True, buf', m\<lparr>mx_world := w\<rparr>) \<and> length buf' = length buf \<and>
    sent w = sent (mx_world m) @ mix_packet (mx_zlib m) (mx_zlibLoaded m) i (sl_flags s) d \<and>
    feed w = (feed (mx_world m))(sl_fdin s := ds)"
proof -
  have l: "length d \<le> nat IOMIXER_MAX_PACKET" "length d \<le> length buf" using assms(7,8) by (auto simp: data_ok_def)
  obtain w1 where w1: "mo_fdread os (sl_fdin s) (nat IOMIXER_MAX_PACKET) (mx_world m) = (int (length d), d, w1)"
      "feed w1 = (feed (mx_world m))(sl_fdin s := ds)" "sent w1 = sent (mx_world m)"
    using read_law [OF assms(5) l(1)] by blast
  define buf1 where "buf1 = d @ drop (length d) buf"
  have b: "mem_write buf 0 d = Some buf1" using l(2) by (simp add: buf1_def mem_write_def)
  obtain w2 where "IOMixer_masterEncode os i buf1 (int (length d)) (sl_flags s) (m\<lparr>mx_world := w1\<rparr>) = Some (0, m\<lparr>mx_world := w2\<rparr>)"
      "sent w2 = sent w1 @ mix_packet (mx_zlib m) (mx_zlibLoaded m) i (sl_flags s) d" "feed w2 = feed w1"
    using masterEncode_sends [of "m\<lparr>mx_world := w1\<rparr>" out "sl_flags s" d buf1 "drop (length d) buf" i] assms(1,2) data_ok_send [OF assms(7)]
    by (auto simp: buf1_def)
  then show ?thesis
    using assms(3,4,6) w1 b l(2) by (intro exI [of _ buf1] exI [of _ w2]) (simp add: slave_round_def IOMixer_getSlave_def buf1_def)
qed

lemma run_rounds_send:
  assumes "\<not> mx_masterEofSent m" "master_out os (mx_masterOutType m) = Some out" "inj_on fi (set is)"
    "\<forall>i\<in>set is. count_list is i \<le> length (F i) \<and> feed (mx_world m) (fi i) = F i \<and>
       (\<exists>s. smap_find (mx_slaves m) i = Some s \<and> \<not> sl_cancelled s \<and> sl_flags s = fl i \<and> sl_fdin s = fi i) \<and>
       (\<forall>d\<in>set (F i). d \<noteq> [] \<and> data_ok (mx_zlib m) (mx_zlibLoaded m) (fl i) d)"
    "\<And>i. int (length (bufs i)) = IOMIXER_MAX_PACKET"
  shows "\<exists>w. run_rounds os is bufs m = Some (m\<lparr>mx_world := w\<rparr>) \<and>
    sent w = sent (mx_world m) @ stream (mx_zlib m) (mx_zlibLoaded m) (emitted fl F is)"
  using assms
proof (induction "is" arbitrary: m F bufs)
  case Nil
  show ?case by (intro exI [of _ "mx_world m"]) simp
next
  case (Cons i js)
  note Fi = bspec [OF Cons.prems(4) list.set_intros(1)]
  obtain s where s: "smap_find (mx_slaves m) i = Some s" "\<not> sl_cancelled s" "sl_flags s = fl i" "sl_fdin s = fi i"
      "feed (mx_world m) (fi i) = F i"
    using Fi by blast
  obtain d ds where d: "F i = d # ds" "d \<noteq> []" "data_ok (mx_zlib m) (mx_zlibLoaded m) (fl i) d"
    using Fi by (cases "F i") simp_all
  obtain b w1 where w1: "slave_round os i (bufs i) m = Some (True, b, m\<lparr>mx_world := w1\<rparr>)" "length b = length (bufs i)"
      "sent w1 = sent (mx_world m) @ mix_packet (mx_zlib m) (mx_zlibLoaded m) i (fl i) d"
      "feed w1 = (feed (mx_world m))(fi i := ds)"
    using slave_round_sends [OF Cons.prems(1,2) s(1,2) _ d(2) _ Cons.prems(5), of ds i] s d by auto
  have "\<exists>w. run_rounds os js (bufs(i := b)) (m\<lparr>mx_world := w1\<rparr>) = Some (m\<lparr>mx_world := w1, mx_world := w\<rparr>) \<and>
      sent w = sent (mx_world (m\<lparr>mx_world := w1\<rparr>)) @
        stream (mx_zlib (m\<lparr>mx_world := w1\<rparr>)) (mx_zlibLoaded (m\<lparr>mx_world := w1\<rparr>)) (emitted fl (F(i := ds)) js)"
  proof (rule Cons.IH)
    show "inj_on fi (set js)" using Cons.prems(3) by (simp add: inj_on_def)
    show "\<forall>k\<in>set js. count_list js k \<le> length ((F(i := ds)) k) \<and> feed (mx_world (m\<lparr>mx_world := w1\<rparr>)) (fi k) = (F(i := ds)) k \<and>
       (\<exists>s. smap_find (mx_slaves (m\<lparr>mx_world := w1\<rparr>)) k = Some s \<and> \<not> sl_cancelled s \<and> sl_flags s = fl k \<and> sl_fdin s = fi k) \<and>
       (\<forall>d\<in>set ((F(i := ds)) k). d \<noteq> [] \<and> data_ok (mx_zlib (m\<lparr>mx_world := w1\<rparr>)) (mx_zlibLoaded (m\<lparr>mx_world := w1\<rparr>)) (fl k) d)"
    proof
      fix k
      assume k: "k \<in> set js"
      have "k \<noteq> i \<Longrightarrow> fi k \<noteq> fi i" using Cons.prems(3) k by (auto simp: inj_on_def)
      then show "count_list js k \<le> length ((F(i := ds)) k) \<and> feed (mx_world (m\<lparr>mx_world := w1\<rparr>)) (fi k) = (F(i := ds)) k \<and>
       (\<exists>s. smap_find (mx_slaves (m\<lparr>mx_world := w1\<rparr>)) k = Some s \<and> \<not> sl_cancelled s \<and> sl_flags s = fl k \<and> sl_fdin s = fi k) \<and>
       (\<forall>d\<in>set ((F(i := ds)) k). d \<noteq> [] \<and> data_ok (mx_zlib (m\<lparr>mx_world := w1\<rparr>)) (mx_zlibLoaded (m\<lparr>mx_world := w1\<rparr>)) (fl k) d)"
        using bspec [OF Cons.prems(4) list.set_intros(2) [OF k]] w1(4) d by (cases "k = i") (simp_all, blast?)
    qed
  qed (use Cons.prems w1(2) in auto)
  then obtain w where "run_rounds os js (bufs(i := b)) (m\<lparr>mx_world := w1\<rparr>) = Some (m\<lparr>mx_world := w\<rparr>)"
      "sent w = sent w1 @ stream (mx_zlib m) (mx_zlibLoaded m) (emitted fl (F(i := ds)) js)" by auto
  then show ?case using w1(1,3) d(1) by (intro exI [of _ w]) simp
qed

end

end
