(* ===== verification/IO_Mixer_Net.thy ===== *)
theory IO_Mixer_Net
  imports IO_Mixer_Wire
begin

text \<open>
  Two mixers over one connection. The world \<open>net\<close> has the bytes that come in and go out of the master stream, cut into
  pieces of any length (\<open>chunk\<close>), what was written to the pipes, and what the callers have written for the
  slaves. The properties of the mixer follow, with its defects.
\<close>

section \<open>A connection\<close>

record net =
  n_in :: "byte list"
  n_out :: "byte list"
  n_pipes :: "int \<Rightarrow> byte list"
  n_feeds :: "int \<Rightarrow> byte list list"
  n_time :: nat
  n_fds :: int

definition net_out :: "(nat \<Rightarrow> nat) \<Rightarrow> net \<Rightarrow> byte list \<Rightarrow> int \<times> net" where
  "net_out chunk w bs =
     (let k = min (max 1 (chunk (n_time w))) (length bs)
      in (int k, w\<lparr>n_out := n_out w @ take k bs, n_time := n_time w + 1\<rparr>))"

definition net_in :: "(nat \<Rightarrow> nat) \<Rightarrow> net \<Rightarrow> nat \<Rightarrow> byte list \<times> net" where
  "net_in chunk w n =
     (let k = min (max 1 (chunk (n_time w))) n
      in (take k (n_in w), w\<lparr>n_in := drop k (n_in w), n_time := n_time w + 1\<rparr>))"

definition net_fdwrite :: "int \<Rightarrow> byte list \<Rightarrow> net \<Rightarrow> int \<times> net" where
  "net_fdwrite fd d w =
     (if fd = -1 then (-1, w) else (int (length d), w\<lparr>n_pipes := (n_pipes w)(fd := n_pipes w fd @ d)\<rparr>))"

definition net_fdread :: "int \<Rightarrow> nat \<Rightarrow> net \<Rightarrow> int \<times> byte list \<times> net" where
  "net_fdread fd n w =
     (case n_feeds w fd of
        [] \<Rightarrow> (0, [], w)
      | d # ds \<Rightarrow> (int (length (take n d)), take n d,
                   w\<lparr>n_feeds := (n_feeds w)(fd := (if length d \<le> n then ds else drop n d # ds))\<rparr>))"

definition net_os :: "(nat \<Rightarrow> nat) \<Rightarrow> net mixer_os" where
  "net_os chunk = \<lparr>mo_write = net_out chunk, mo_send = net_out chunk, mo_outCallback = net_out chunk,
     mo_read = net_in chunk, mo_recv = net_in chunk, mo_inCallback = net_in chunk,
     mo_pipe = (\<lambda>w. (Some (n_fds w, n_fds w + 1), w\<lparr>n_fds := n_fds w + 2\<rparr>)),
     mo_close = (\<lambda>fd w. w\<lparr>n_time := n_time w + 1\<rparr>), mo_fdwrite = net_fdwrite, mo_fdread = net_fdread\<rparr>"

lemma net_calls:
  "master_out (net_os chunk) ty = Some out \<Longrightarrow> out = net_out chunk"
  "master_in (net_os chunk) ty = Some inp \<Longrightarrow> inp = net_in chunk"
  by (auto simp: master_out_def master_in_def net_os_def split: if_splits)

interpretation net: mixer_net "net_os chunk" n_out n_in n_pipes n_feeds for chunk
proof
  fix ty and out and bs :: "byte list" and w :: net
  assume "master_out (net_os chunk) ty = Some out" "bs \<noteq> []"
  then show "\<exists>n w'. out w bs = (n, w') \<and> 0 < n \<and> n \<le> int (length bs) \<and> n_out w' = n_out w @ take (nat n) bs \<and>
      n_in w' = n_in w \<and> n_pipes w' = n_pipes w \<and> n_feeds w' = n_feeds w"
    using net_calls(1) [of chunk ty out] by (auto simp: net_out_def Let_def)
next
  fix ty and inp and n :: nat and w :: net
  assume a: "master_in (net_os chunk) ty = Some inp" "n_in w \<noteq> []" "0 < n"
  have "take (min (max 1 (chunk (n_time w))) n) (n_in w) \<noteq> []" using a(2,3) by (simp add: min_def max_def)
  then show "\<exists>bs w'. inp w n = (bs, w') \<and> bs \<noteq> [] \<and> length bs \<le> n \<and> n_in w = bs @ n_in w' \<and>
      n_out w' = n_out w \<and> n_pipes w' = n_pipes w"
    using net_calls(2) [OF a(1)] by (auto simp: net_in_def Let_def)
qed (auto simp: net_os_def net_fdwrite_def net_fdread_def)

definition stream_type :: "int \<Rightarrow> bool" where
  "stream_type ty \<longleftrightarrow> ty \<in> {IOMIXER_TYPE_FD, IOMIXER_TYPE_SOCKET, IOMIXER_TYPE_CALLBACK}"

lemma stream_type_calls:
  assumes "stream_type ty"
  shows "\<exists>out. master_out os ty = Some out" "\<exists>inp. master_in os ty = Some inp"
  using assms by (auto simp: stream_type_def master_out_def master_in_def)

section \<open>End to end\<close>

text \<open>A sender whose channels in \<open>is\<close> have the pieces \<open>F i\<close> to send, and a receiver.\<close>

definition sender_ok :: "int list \<Rightarrow> (int \<Rightarrow> byte list list) \<Rightarrow> net IOMixer \<Rightarrow> bool" where
  "sender_ok is F m \<longleftrightarrow> \<not> mx_masterEofSent m \<and> stream_type (mx_masterOutType m) \<and> n_out (mx_world m) = [] \<and>
     (mx_zlibLoaded m \<longrightarrow> 0 \<le> the (z_bound (mx_zlib m)) 0) \<and>
     inj_on (\<lambda>i. sl_fdin (the (IOMixer_getSlave i m))) (set is) \<and>
     (\<forall>i\<in>set is. i \<noteq> 0 \<and> - int_max - 1 \<le> i \<and> i \<le> int_max \<and> count_list is i \<le> length (F i) \<and>
       (\<exists>s. IOMixer_getSlave i m = Some s \<and> \<not> sl_cancelled s \<and> n_feeds (mx_world m) (sl_fdin s) = F i \<and>
         (\<forall>d\<in>set (F i). d \<noteq> [] \<and> data_ok (mx_zlib m) (mx_zlibLoaded m) (sl_flags s) d)))"

definition receiver_ok :: "net IOMixer \<Rightarrow> bool" where
  "receiver_ok m \<longleftrightarrow> \<not> mx_masterEofReceived m \<and> stream_type (mx_masterInType m) \<and> outs_apart (mx_slaves m) \<and>
     0 < mx_refCount m \<and> mx_refCount m < int_max"

lemma sender_sends:
  assumes "sender_ok is F m" "\<And>i. int (length (bufs i)) = IOMIXER_MAX_PACKET"
  shows "\<exists>w w' fl. run_rounds (net_os chunk) is bufs m = Some (m\<lparr>mx_world := w\<rparr>) \<and>
    IOMixer_masterEncode (net_os chunk) 0 [] 0 0 (m\<lparr>mx_world := w\<rparr>) = Some (0, m\<lparr>mx_world := w'\<rparr>) \<and>
    n_out w' = stream (mx_zlib m) (mx_zlibLoaded m) (emitted fl F is) @ mix_packet (mx_zlib m) (mx_zlibLoaded m) 0 0 [] \<and>
    list_all (packet_ok (mx_zlib m) (mx_zlibLoaded m)) (emitted fl F is)"
proof -
  note s = assms(1) [unfolded sender_ok_def]
  note ball = s [THEN conjunct2, THEN conjunct2, THEN conjunct2, THEN conjunct2, THEN conjunct2]
  obtain out where out: "master_out (net_os chunk) (mx_masterOutType m) = Some out"
    using stream_type_calls(1) s by blast
  define fl where "fl = (\<lambda>i. sl_flags (the (IOMixer_getSlave i m)))"
  define fi where "fi = (\<lambda>i. sl_fdin (the (IOMixer_getSlave i m)))"
  have each: "count_list is i \<le> length (F i) \<and> n_feeds (mx_world m) (fi i) = F i \<and>
       (\<exists>s. smap_find (mx_slaves m) i = Some s \<and> \<not> sl_cancelled s \<and> sl_flags s = fl i \<and> sl_fdin s = fi i) \<and>
       (\<forall>d\<in>set (F i). d \<noteq> [] \<and> data_ok (mx_zlib m) (mx_zlibLoaded m) (fl i) d)" if i: "i \<in> set is" for i
  proof -
    obtain s' where "IOMixer_getSlave i m = Some s'" "\<not> sl_cancelled s'" "n_feeds (mx_world m) (sl_fdin s') = F i"
        "\<forall>d\<in>set (F i). d \<noteq> [] \<and> data_ok (mx_zlib m) (mx_zlibLoaded m) (sl_flags s') d" "count_list is i \<le> length (F i)"
      using bspec [OF ball i] by blast
    then show ?thesis by (simp add: fl_def fi_def IOMixer_getSlave_def)
  qed
  have ns: "\<not> mx_masterEofSent m" and inj: "inj_on fi (set is)" and o: "n_out (mx_world m) = []" using s by (simp_all add: fi_def)
  obtain w where w: "run_rounds (net_os chunk) is bufs m = Some (m\<lparr>mx_world := w\<rparr>)"
      "n_out w = n_out (mx_world m) @ stream (mx_zlib m) (mx_zlibLoaded m) (emitted fl F is)"
    using net.run_rounds_send [where bufs = bufs and F = F and fl = fl, OF ns out inj ballI [OF each] assms(2)] by blast
  have "send_ok (mx_zlib m) (mx_zlibLoaded m) 0 []" using s by (simp add: send_ok_def packs_def)
  then obtain w' where w': "IOMixer_masterEncode (net_os chunk) 0 [] 0 0 (m\<lparr>mx_world := w\<rparr>) = Some (0, m\<lparr>mx_world := w'\<rparr>)"
      "n_out w' = n_out w @ mix_packet (mx_zlib m) (mx_zlibLoaded m) 0 0 []"
    using net.masterEncode_sends [of "m\<lparr>mx_world := w\<rparr>" chunk out 0 "[]" "[]" "[]" 0] ns out by auto
  have "list_all (packet_ok (mx_zlib m) (mx_zlibLoaded m)) (emitted fl F is)"
    by (rule emitted_ok) (use each ball in blast)
  then show ?thesis using w w' o by auto
qed

lemma refs_net:
  assumes "0 < mx_refCount m" "mx_refCount m < int_max"
  shows "IOMixer_addRef m = Some (m\<lparr>mx_refCount := mx_refCount m + 1\<rparr>)"
    "mx_refCount m' = mx_refCount m + 1 \<Longrightarrow> master_finish m' = Some ((notify_dead 0 m')\<lparr>mx_masterEofReceived := True, mx_refCount := mx_refCount m\<rparr>)"
  using assms by (simp_all add: IOMixer_addRef_def master_finish_def IOMixer_release_def cint_add_def notify_dead_def)

lemma receiver_receives:
  assumes "receiver_ok m" "n_in (mx_world m) = stream (mx_zlib m) (mx_zlibLoaded m) ps @ mix_packet (mx_zlib m) (mx_zlibLoaded m) 0 0 []"
    "list_all (packet_ok (mx_zlib m) (mx_zlibLoaded m)) ps" "int (length data) = IOMIXER_MAX_PACKET"
    "mx_zlibLoaded m \<longrightarrow> 0 \<le> the (z_bound (mx_zlib m)) 0"
  shows "\<exists>m'. IOMixer_masterLoop (net_os chunk) flags0 data m = Some m' \<and> mx_masterEofReceived m' \<and> n_in (mx_world m') = [] \<and>
    mx_refCount m' = mx_refCount m \<and>
    (\<forall>i s. IOMixer_getSlave i m = Some s \<longrightarrow> sl_fdout s \<noteq> -1 \<longrightarrow> \<not> sl_eofSent s \<longrightarrow>
      n_pipes (mx_world m') (sl_fdout s) = n_pipes (mx_world m) (sl_fdout s) @ channel i ps)"
proof -
  note r = assms(1) [unfolded receiver_ok_def]
  define m0 where "m0 = m\<lparr>mx_refCount := mx_refCount m + 1\<rparr>"
  obtain inp where inp: "master_in (net_os chunk) (mx_masterInType m0) = Some inp"
    using stream_type_calls(2) r unfolding m0_def by fastforce
  define p where "p = fold hand_out ps (mx_slaves m, n_pipes (mx_world m))"
  obtain w where w: "master_rounds (net_os chunk) flags0 (-1, -1, data) m0 =
      master_finish (m0\<lparr>mx_slaves := fst p, mx_world := w, mx_masterEofReceived := True\<rparr>)" "n_in w = []" "n_pipes w = snd p"
    using net.master_rounds_stream [of m0 chunk inp ps "[]" data flags0 "-1" "-1"] inp r assms(2-5) by (auto simp: m0_def p_def)
  define m' where "m' = (notify_dead 0 (m0\<lparr>mx_slaves := fst p, mx_world := w, mx_masterEofReceived := True\<rparr>))
      \<lparr>mx_masterEofReceived := True, mx_refCount := mx_refCount m\<rparr>"
  have "IOMixer_masterLoop (net_os chunk) flags0 data m = Some m'"
    using refs_net(1) [of m] refs_net(2) [of m "m0\<lparr>mx_slaves := fst p, mx_world := w, mx_masterEofReceived := True\<rparr>"] r w(1)
    by (simp add: IOMixer_masterLoop_def m0_def m'_def)
  moreover have "mx_world m' = w" "mx_refCount m' = mx_refCount m" "mx_masterEofReceived m'" by (simp_all add: m'_def notify_dead_def)
  moreover have "n_pipes w (sl_fdout s) = n_pipes (mx_world m) (sl_fdout s) @ channel i ps"
    if "IOMixer_getSlave i m = Some s" "sl_fdout s \<noteq> -1" "\<not> sl_eofSent s" for i s
    using fold_hand_out [of "mx_slaves m" i s ps "n_pipes (mx_world m)"] r that w(3) by (simp add: IOMixer_getSlave_def p_def)
  ultimately show ?thesis using w(2) by auto
qed

section \<open>Any bytes\<close>

text \<open>Calls that return at most what was asked for, and a decompression that keeps to the target.\<close>

definition calls_ok :: "'w mixer_os \<Rightarrow> bool" where
  "calls_ok os \<longleftrightarrow> (\<forall>ty inp w n. master_in os ty = Some inp \<longrightarrow> length (fst (inp w n)) \<le> n)"

definition unpack_ok :: "'w IOMixer \<Rightarrow> bool" where
  "unpack_ok m \<longleftrightarrow> (mx_zlibLoaded m \<longrightarrow> z_long32 (mx_zlib m) \<and> (\<forall>n c out sz. the (z_uncompress (mx_zlib m)) n c = (out, sz) \<longrightarrow>
     length out \<le> n \<and> sz \<le> int n))"

lemma read_loop_safe:
  assumes "\<And>w n. length (fst (inp w n)) \<le> n" "dst + b \<le> length buf"
  shows "\<exists>rc buf' w'. master_read_loop inp buf dst b w = Some (rc, buf', w') \<and> length buf' = length buf"
  using assms(2)
proof (induction b arbitrary: dst buf w rule: less_induct)
  case (less b)
  show ?case
  proof (cases "0 < b \<and> fst (inp w b) \<noteq> []")
    case False
    then show ?thesis by (subst master_read_loop.simps) (auto split: prod.splits)
  next
    case True
    obtain bs w1 where r: "inp w b = (bs, w1)" by (cases "inp w b")
    have bs: "bs \<noteq> []" "length bs \<le> b" using True r assms(1) [of w b] by simp_all
    then obtain buf1 where b1: "mem_write buf dst bs = Some buf1" using less.prems by (auto simp: mem_write_def)
    then have l: "length buf1 = length buf" by (rule mem_write_length)
    have "\<exists>rc buf' w'. master_read_loop inp buf1 (dst + length bs) (b - length bs) w1 = Some (rc, buf', w') \<and> length buf' = length buf1"
      using bs less.prems l by (intro less.IH) (auto simp flip: length_greater_0_conv)
    then show ?thesis using True r bs b1 l by (subst master_read_loop.simps) simp
  qed
qed

lemma masterRead_safe:
  assumes "calls_ok os" "nat n \<le> length buf"
  shows "\<exists>rc buf' w. IOMixer_masterRead os buf n m = Some (rc, buf', m\<lparr>mx_world := w\<rparr>) \<and> length buf' = length buf"
proof (cases "mx_masterEofReceived m \<or> master_in os (mx_masterInType m) = None")
  case True
  have "IOMixer_masterRead os buf n m = Some (if mx_masterEofReceived m then -1 else 0, buf, m\<lparr>mx_world := mx_world m\<rparr>)"
    using True by (auto simp: IOMixer_masterRead_def)
  then show ?thesis by blast
next
  case False
  then obtain inp where inp: "master_in os (mx_masterInType m) = Some inp" by blast
  then have "length (fst (inp w k)) \<le> k" for w k using assms(1) unfolding calls_ok_def by blast
  then obtain rc buf' w where "master_read_loop inp buf 0 (nat n) (mx_world m) = Some (rc, buf', w)" "length buf' = length buf"
    using read_loop_safe [of inp 0 "nat n" buf "mx_world m"] assms(2) by auto
  then have "IOMixer_masterRead os buf n m = Some (rc, buf', m\<lparr>mx_world := w\<rparr>) \<and> length buf' = length buf"
    using False inp by (simp add: IOMixer_masterRead_def)
  then show ?thesis by blast
qed

lemma decode_body_safe:
  assumes "calls_ok os" "unpack_ok m" "int (length data) = IOMIXER_MAX_PACKET"
  obtains rc sz' data' w where "decode_body os IOMIXER_MAX_PACKET i f sz data m = Some (rc, i, sz', data', m\<lparr>mx_world := w\<rparr>)"
    "length data' = length data" "rc = 0 \<longrightarrow> sz' \<le> IOMIXER_MAX_PACKET"
proof (cases "IOMIXER_MAX_PACKET < sz \<or> sz \<le> 0")
  case True
  then show thesis using that [of _ sz data "mx_world m"] by (auto simp: decode_body_def IOMIXER_MAX_PACKET_def)
next
  case False
  then have sz: "nat sz \<le> length data" "\<not> IOMIXER_MAX_PACKET < sz" "0 < sz" using assms(3) by auto
  show thesis
  proof (cases "f AND IOMIXER_FLAG_COMPRESSION_ON = 0")
    case True
    obtain rc data' w where "IOMixer_masterRead os data sz m = Some (rc, data', m\<lparr>mx_world := w\<rparr>)" "length data' = length data"
      using masterRead_safe [OF assms(1) sz(1)] by blast
    then show thesis using that [of "if rc \<noteq> 0 then -1 else 0" sz data' w] True sz by (simp add: decode_body_def)
  next
    case c: False
    obtain rc comp w where r: "IOMixer_masterRead os (replicate (nat sz) 0) sz m = Some (rc, comp, m\<lparr>mx_world := w\<rparr>)"
      using masterRead_safe [OF assms(1), of sz "replicate (nat sz) 0" m] by auto
    show thesis
    proof (cases "rc = 0 \<and> mx_zlibLoaded m")
      case False
      then show thesis using that [of "-1" sz data w] c sz r by (auto simp: decode_body_def)
    next
      case True
      obtain out sz' where z: "the (z_uncompress (mx_zlib m)) (nat IOMIXER_MAX_PACKET) comp = (out, sz')"
        by (cases "the (z_uncompress (mx_zlib m)) (nat IOMIXER_MAX_PACKET) comp")
      have l: "z_long32 (mx_zlib m)" using assms(2) True by (simp add: unpack_ok_def)
      have "length out \<le> nat IOMIXER_MAX_PACKET \<and> sz' \<le> int (nat IOMIXER_MAX_PACKET)"
        using z assms(2) True unfolding unpack_ok_def by blast
      then have o: "length out \<le> length data" "sz' \<le> IOMIXER_MAX_PACKET"
        using assms(3) by (auto simp: IOMIXER_MAX_PACKET_def)
      then have "mem_write data 0 out = Some (out @ drop (length out) data)" by (simp add: mem_write_def)
      then show thesis using that [of 0 sz' "out @ drop (length out) data" w] True c sz r z o l by (simp add: decode_body_def)
    qed
  qed
qed

lemma masterDecode_safe:
  assumes "calls_ok os" "unpack_ok m" "int (length data) = IOMIXER_MAX_PACKET"
  obtains rc i sz' data' w where
    "IOMixer_masterDecode os id0 sz0 flags0 data IOMIXER_MAX_PACKET m = Some (rc, i, sz', data', m\<lparr>mx_world := w\<rparr>)"
    "length data' = length data" "rc = 0 \<longrightarrow> sz' \<le> IOMIXER_MAX_PACKET"
proof -
  obtain r1 b1 w1 where r1: "IOMixer_masterRead os (obj_bytes 4 (word_of_int id0 :: u32)) 4 m = Some (r1, b1, m\<lparr>mx_world := w1\<rparr>)"
    using masterRead_safe [OF assms(1), of 4 "obj_bytes 4 (word_of_int id0 :: u32)" m] by auto
  obtain r2 b2 w2 where r2: "IOMixer_masterRead os [flags0] 1 (m\<lparr>mx_world := w1\<rparr>) = Some (r2, b2, m\<lparr>mx_world := w2\<rparr>)"
    using masterRead_safe [OF assms(1), of 1 "[flags0]" "m\<lparr>mx_world := w1\<rparr>"] by auto
  obtain r3 b3 w3 where r3: "IOMixer_masterRead os (obj_bytes 4 (word_of_int sz0 :: u32)) 4 (m\<lparr>mx_world := w2\<rparr>) = Some (r3, b3, m\<lparr>mx_world := w3\<rparr>)"
    using masterRead_safe [OF assms(1), of 4 "obj_bytes 4 (word_of_int sz0 :: u32)" "m\<lparr>mx_world := w2\<rparr>"] by auto
  have u: "unpack_ok (m\<lparr>mx_world := w3\<rparr>)" using assms(2) by (simp add: unpack_ok_def)
  show thesis
  proof (cases "r1 = 0 \<and> r2 = 0 \<and> r3 = 0")
    case True
    obtain rc sz' data' w where d: "decode_body os IOMIXER_MAX_PACKET (sint (word_of_le b1 :: u32)) (hd b2) (sint (word_of_le b3 :: u32)) data
          (m\<lparr>mx_world := w3\<rparr>) = Some (rc, sint (word_of_le b1 :: u32), sz', data', m\<lparr>mx_world := w3, mx_world := w\<rparr>)"
        "length data' = length data" "rc = 0 \<longrightarrow> sz' \<le> IOMIXER_MAX_PACKET"
      by (rule decode_body_safe [OF assms(1) u assms(3)])
    show thesis using that [of rc _ sz' data' w] d r1 r2 r3 True by (simp add: IOMixer_masterDecode_def)
  next
    case False
    then consider "r1 \<noteq> 0" | "r1 = 0" "r2 \<noteq> 0" | "r1 = 0" "r2 = 0" "r3 \<noteq> 0" by blast
    then show thesis
    proof cases
      case 1
      then show thesis using that [of "-1" _ _ data w1] r1 by (auto simp: IOMixer_masterDecode_def)
    next
      case 2
      then show thesis using that [of "-1" _ _ data w2] r1 r2 by (auto simp: IOMixer_masterDecode_def)
    next
      case 3
      then show thesis using that [of "-1" _ _ data w3] r1 r2 r3 by (auto simp: IOMixer_masterDecode_def Let_def)
    qed
  qed
qed

section \<open>The table of slaves\<close>

definition mixer_inv :: "'w IOMixer \<Rightarrow> bool" where
  "mixer_inv m \<longleftrightarrow> smap_ok (mx_slaves m) \<and> 1 \<le> mx_slavesCount m \<and>
     (\<forall>k s. IOMixer_getSlave k m = Some s \<longrightarrow> sl_id s = k \<and> k \<noteq> 0)"

lemma free_number_free: "free_number ss c = Some c' \<Longrightarrow> smap_find ss c' = None \<and> c \<le> c'"
proof (induction ss c rule: free_number.induct)
  case (1 ss c)
  show ?case
  proof (cases "smap_find ss c = None")
    case True
    then show ?thesis using "1.prems" by (simp add: free_number.simps)
  next
    case False
    then obtain c1 where c1: "cint_add c 1 = Some c1" "free_number ss c1 = Some c'"
      using "1.prems" by (subst (asm) free_number.simps) (auto split: option.splits)
    then have "smap_find ss c' = None \<and> c1 \<le> c'" using "1.IH" [OF False] by blast
    then show ?thesis using c1(1) by (auto simp: cint_add_def split: if_splits)
  qed
qed

lemma refs_frame:
  "IOMixer_addRef m = Some m' \<Longrightarrow> mx_slaves m' = mx_slaves m \<and> mx_slavesCount m' = mx_slavesCount m \<and> mx_lock m' = mx_lock m"
  "IOMixer_release m = Some m' \<Longrightarrow> mx_slaves m' = mx_slaves m \<and> mx_slavesCount m' = mx_slavesCount m \<and> mx_lock m' = mx_lock m"
  by (auto simp: IOMixer_addRef_def IOMixer_release_def bind_eq_Some_conv Let_def)

text \<open>A slave that was added, and what the others keep.\<close>

lemma addSlave_cases:
  assumes "IOMixer_addSlave os slaveId m = Some (ret, fds, m')" "mixer_inv m"
  obtains "ret = -1" "mx_slaves m' = mx_slaves m" "mx_slavesCount m \<le> mx_slavesCount m'"
  | slave where "ret \<noteq> -1" "ret \<noteq> 0" "IOMixer_getSlave ret m = None" "mx_slaves m' = smap_set ret slave (mx_slaves m)" "sl_id slave = ret"
      "sl_flags slave = 0" "\<not> sl_eofSent slave" "\<not> sl_cancelled slave" "mx_slavesCount m \<le> mx_slavesCount m'" "mx_lock m' = mx_lock m"
proof (cases "\<not> mx_init m \<or> slaveId = 0 \<or> mx_dead m")
  case True
  then show thesis using assms(1) that(1) by (auto simp: IOMixer_addSlave_def)
next
  case go: False
  obtain p1 w1 where p1: "mo_pipe os (mx_world m) = (p1, w1)" by (cases "mo_pipe os (mx_world m)")
  obtain p2 w2 where p2: "mo_pipe os w1 = (p2, w2)" by (cases "mo_pipe os w1")
  show thesis
  proof (cases "p1 = None \<or> p2 = None")
    case True
    then show thesis using assms(1) that(1) go p1 p2 by (cases p1) (auto simp: IOMixer_addSlave_def)
  next
    case False
    then obtain a b where ab: "p1 = Some a" "p2 = Some b" by auto
    show thesis
    proof (cases "slaveId = -1")
      case True
      then obtain c where c: "free_number (mx_slaves m) (mx_slavesCount m) = Some c"
        using assms(1) go p1 p2 ab by (auto simp: IOMixer_addSlave_def bind_eq_Some_conv Let_def)
      note fr = free_number_free [OF c]
      then have "1 \<le> c" using assms(2) by (simp add: mixer_inv_def)
      then show thesis using assms(1) True go p1 p2 ab c fr that(2)
        by (auto simp: IOMixer_addSlave_def bind_eq_Some_conv Let_def IOMixer_getSlave_def dest!: refs_frame(1))
    next
      case no: False
      show thesis
      proof (cases "IOMixer_getSlave slaveId m = None")
        case True
        then show thesis using assms(1) no go p1 p2 ab that(2)
          by (auto simp: IOMixer_addSlave_def bind_eq_Some_conv Let_def IOMixer_getSlave_def dest!: refs_frame(1))
      next
        case False
        then show thesis using assms(1) no go p1 p2 ab that(1)
          by (auto simp: IOMixer_addSlave_def bind_eq_Some_conv Let_def IOMixer_getSlave_def)
      qed
    qed
  qed
qed

lemma mixer_inv_add:
  assumes "mixer_inv m" "mx_slaves m' = smap_set i slave (mx_slaves m)" "sl_id slave = i" "i \<noteq> 0"
    "mx_slavesCount m \<le> mx_slavesCount m'"
  shows "mixer_inv m'"
  using assms by (auto simp: mixer_inv_def IOMixer_getSlave_def smap_ok_set split: if_splits)

text \<open>Cancelling changes the one slave only.\<close>

lemma encode_frame:
  assumes "IOMixer_masterEncode os i buf sz f m = Some (rc, m')"
  shows "\<exists>w. m' = m\<lparr>mx_world := w\<rparr>"
proof -
  have w: "IOMixer_masterWrite os b n m = Some (rc, m') \<Longrightarrow> \<exists>w. m' = m\<lparr>mx_world := w\<rparr>" for b n rc m'
    by (auto simp: IOMixer_masterWrite_def split: if_splits option.splits prod.splits intro: exI [of _ "mx_world m"])
  have s: "\<exists>w. m = m\<lparr>mx_world := w\<rparr>" by (rule exI [of _ "mx_world m"]) simp
  obtain ok block sz' where e: "encode_packet (mx_zlib m) (mx_zlibLoaded m) i buf sz f = Some (ok, block, sz')"
    using assms by (auto simp: IOMixer_masterEncode_def bind_eq_Some_conv)
  show ?thesis
  proof (cases ok)
    case True
    then obtain rc' where "IOMixer_masterWrite os block (sz' + 9) m = Some (rc', m')"
      using assms e by (auto simp: IOMixer_masterEncode_def bind_eq_Some_conv)
    then show ?thesis by (rule w)
  next
    case False
    then show ?thesis using assms e s by (simp add: IOMixer_masterEncode_def)
  qed
qed

lemma upd_slave_frame:
  "mx_slavesCount (upd_slave i f m) = mx_slavesCount m" "mx_lock (upd_slave i f m) = mx_lock m" "mx_world (upd_slave i f m) = mx_world m"
  "IOMixer_getSlave j (upd_slave i f m) = (if j = i then map_option f (IOMixer_getSlave i m) else IOMixer_getSlave j m)"
  "smap_ok (mx_slaves m) \<Longrightarrow> smap_ok (mx_slaves (upd_slave i f m))"
  by (auto simp: upd_slave_def IOMixer_getSlave_def smap_ok_set split: option.splits)

lemma smap_set_keys_same: "smap_ok m \<Longrightarrow> smap_find m k = Some v0 \<Longrightarrow> map fst (smap_set k v m) = map fst m"
  by (induction k v m rule: smap_set.induct) (auto simp: smap_find_def smap_ok_def split: if_splits dest!: map_of_SomeD)

text \<open>What an operation on the slave \<open>i\<close> leaves of the table.\<close>

definition only_slave :: "int \<Rightarrow> 'w IOMixer \<Rightarrow> 'w IOMixer \<Rightarrow> bool" where
  "only_slave i m m' \<longleftrightarrow> mx_slavesCount m' = mx_slavesCount m \<and> mx_lock m' = mx_lock m \<and>
     (\<forall>j. j \<noteq> i \<longrightarrow> IOMixer_getSlave j m' = IOMixer_getSlave j m) \<and>
     map_option sl_id (IOMixer_getSlave i m') = map_option sl_id (IOMixer_getSlave i m) \<and>
     (smap_ok (mx_slaves m) \<longrightarrow> smap_ok (mx_slaves m') \<and> map fst (mx_slaves m') = map fst (mx_slaves m))"

lemma only_slave_trans: "only_slave i m m1 \<Longrightarrow> only_slave i m1 m2 \<Longrightarrow> only_slave i m m2"
  by (auto simp: only_slave_def)

lemma only_slave_upd: "(\<And>s. sl_id (f s) = sl_id s) \<Longrightarrow> only_slave i m (upd_slave i f m)"
  by (auto simp: only_slave_def upd_slave_frame upd_slave_def IOMixer_getSlave_def smap_ok_set smap_set_keys_same option.map_comp
      comp_def split: option.splits)

lemma only_slave_same: "mx_slaves m' = mx_slaves m \<Longrightarrow> mx_slavesCount m' = mx_slavesCount m \<Longrightarrow> mx_lock m' = mx_lock m \<Longrightarrow> only_slave i m m'"
  by (simp add: only_slave_def IOMixer_getSlave_def)

lemma round_frame:
  assumes "slave_round os i buf m = Some (goOn, buf', m')"
  shows "\<exists>w. m' = m\<lparr>mx_world := w\<rparr>"
proof -
  obtain s where s: "IOMixer_getSlave i m = Some s" using assms by (auto simp: slave_round_def bind_eq_Some_conv)
  obtain readed b w ret where "IOMixer_masterEncode os i b readed (sl_flags s) (m\<lparr>mx_world := w\<rparr>) = Some (ret, m')"
  proof (cases "sl_cancelled s")
    case True
    then show thesis using that [of _ _ "mx_world m"] assms s by (auto simp: slave_round_def bind_eq_Some_conv)
  next
    case False
    then show thesis using that assms s by (auto simp: slave_round_def bind_eq_Some_conv split: prod.splits)
  qed
  then show ?thesis using encode_frame by fastforce
qed

lemma finish_only: "slave_finish i m = Some m' \<Longrightarrow> only_slave i m m'"
proof -
  assume f: "slave_finish i m = Some m'"
  define m1 where "m1 = upd_slave i (\<lambda>s. s\<lparr>sl_running := False\<rparr>) m"
  have "only_slave i m m1" unfolding m1_def by (rule only_slave_upd) simp
  moreover have "only_slave i m1 m'"
    using f refs_frame(2) [of "notify_dead i m1" m'] by (intro only_slave_same) (auto simp: slave_finish_def m1_def notify_dead_def)
  ultimately show "only_slave i m m'" by (rule only_slave_trans)
qed

lemma cancel_only:
  assumes "cancel_slave os i m = Some m'"
  shows "only_slave i m m'"
proof -
  define m1 where "m1 = upd_slave i (\<lambda>s. s\<lparr>sl_cancelled := True\<rparr>) m"
  have o1: "only_slave i m m1" unfolding m1_def by (rule only_slave_upd) simp
  obtain s where s: "IOMixer_getSlave i m1 = Some s" using assms by (auto simp: cancel_slave_def m1_def Let_def bind_eq_Some_conv)
  show ?thesis
  proof (cases "sl_thread s")
    case False
    then show ?thesis using assms s o1 by (simp add: cancel_slave_def m1_def [symmetric])
  next
    case True
    have last: "only_slave i m2 (upd_slave i (\<lambda>s. s\<lparr>sl_thread := False\<rparr>) m2)" for m2 :: "'a IOMixer" by (rule only_slave_upd) simp
    show ?thesis
    proof (cases "sl_running s")
      case False
      then show ?thesis using assms s o1 True last [of m1] by (auto simp: cancel_slave_def m1_def [symmetric] intro: only_slave_trans)
    next
      case run: True
      obtain g b m2 m3 where r: "slave_round os i [] m1 = Some (g, b, m2)" "slave_finish i m2 = Some m3"
          "m' = upd_slave i (\<lambda>s. s\<lparr>sl_thread := False\<rparr>) m3"
        using assms s True run by (auto simp: cancel_slave_def m1_def [symmetric] bind_eq_Some_conv)
      obtain w where "m2 = m1\<lparr>mx_world := w\<rparr>" using round_frame [OF r(1)] by blast
      then have "only_slave i m1 m2" by (intro only_slave_same) simp_all
      then show ?thesis using o1 finish_only [OF r(2)] last [of m3] r(3) by (metis only_slave_trans)
    qed
  qed
qed

lemma removeSlave_only:
  assumes "IOMixer_removeSlave os i m = Some (rc, m')" "mixer_inv m"
  shows "rc = 0 \<and> mixer_inv m' \<and> IOMixer_getSlave i m' = None \<and> (\<forall>j. j \<noteq> i \<longrightarrow> IOMixer_getSlave j m' = IOMixer_getSlave j m) \<and>
    mx_lock m' = mx_lock m"
proof (cases "IOMixer_getSlave i m")
  case None
  then show ?thesis using assms by (auto simp: IOMixer_removeSlave_def IOMixer_getSlave_def mixer_inv_def)
next
  case (Some s)
  define m1 where "m1 = upd_slave i (\<lambda>s. s\<lparr>sl_fdin := -1, sl_fdout := -1\<rparr>) (close_fd os (sl_fdin s) (close_fd os (sl_fdout s) (lock_slaves m)))"
  have o0: "only_slave i (lock_slaves m) (close_fd os (sl_fdin s) (close_fd os (sl_fdout s) (lock_slaves m)))"
    by (rule only_slave_same) (simp_all add: close_fd_def)
  have "only_slave i (close_fd os (sl_fdin s) (close_fd os (sl_fdout s) (lock_slaves m))) m1"
    unfolding m1_def by (rule only_slave_upd) simp
  then have o1: "only_slave i (lock_slaves m) m1" by (rule only_slave_trans [OF o0])
  obtain m2 where m2: "(if sl_thread s then cancel_slave os i m1 else Some m1) = Some m2" "rc = 0"
      "m' = unlock_slaves (m2\<lparr>mx_slaves := smap_erase i (mx_slaves m2)\<rparr>)"
    using assms(1) Some by (cases "sl_thread s") (auto simp: IOMixer_removeSlave_def IOMixer_getSlave_def Let_def m1_def bind_eq_Some_conv)
  have "only_slave i m1 m2" using m2(1) cancel_only [of os i m1 m2] by (auto simp: only_slave_def split: if_splits)
  then have o2: "only_slave i (lock_slaves m) m2" by (rule only_slave_trans [OF o1])
  have g: "IOMixer_getSlave j m' = (if j = i then None else IOMixer_getSlave j m)" for j
    using o2 by (simp add: m2(3) IOMixer_getSlave_def smap.find_erase only_slave_def)
  have "smap_ok (mx_slaves m')" "mx_slavesCount m' = mx_slavesCount m" "mx_lock m' = mx_lock m"
    using o2 assms(2) by (simp_all add: m2(3) only_slave_def mixer_inv_def smap.ok_erase)
  then show ?thesis using g assms(2) m2(2) by (auto simp: mixer_inv_def split: if_splits)
qed

lemma flush_only:
  assumes "flush_loop os n m = Some m'" "smap_ok (mx_slaves m)" "map fst (mx_slaves m) = k # ks"
  shows "only_slave k m m'"
  using assms
proof (induction n arbitrary: m)
  case 0
  then show ?case by (simp add: only_slave_def)
next
  case (Suc n)
  then obtain s rest where s: "mx_slaves m = (k, s) # rest" by (cases "mx_slaves m") auto
  then obtain m1 where m1: "cancel_slave os k m = Some m1" "flush_loop os n m1 = Some m'"
    using Suc.prems(1) by (auto split: option.splits)
  have o: "only_slave k m m1" by (rule cancel_only [OF m1(1)])
  then have "only_slave k m1 m'" using Suc.IH [OF m1(2)] Suc.prems(2,3) by (simp add: only_slave_def)
  then show ?case by (rule only_slave_trans [OF o])
qed

section \<open>Broken streams\<close>

text \<open>A read error of a slave is sent as the size -1, and only eight of the nine bytes of the head.\<close>

lemma error_packet:
  assumes "\<not> mx_masterEofSent m" "stream_type (mx_masterOutType m)" "\<not> mx_zlibLoaded m"
  shows "\<exists>w. IOMixer_masterEncode (net_os chunk) i buf (-1) f m = Some (0, m\<lparr>mx_world := w\<rparr>) \<and>
    n_out w = n_out (mx_world m) @ obj_bytes 4 (word_of_int i :: u32) @ [f] @ [255, 255, 255]"
proof -
  obtain out where out: "master_out (net_os chunk) (mx_masterOutType m) = Some out" using stream_type_calls(1) [OF assms(2)] by blast
  define a where "a = obj_bytes 4 (word_of_int i :: u32)"
  have la: "length a = 4" by (simp add: a_def)
  have sz: "obj_bytes 4 (-1 :: u32) = [255, 255, 255, 255]" by code_simp
  define block where "block = a @ [f] @ [255, 255, 255, 255 :: byte]"
  have wr: "mem_write (replicate 9 0) 0 a = Some (a @ replicate 5 0)" "mem_write (a @ replicate 5 0) 4 [f] = Some (a @ [f] @ replicate 4 0)"
    "mem_write (a @ [f] @ replicate 4 0) 5 [255, 255, 255, 255] = Some block"
    using la by (simp_all add: mem_write_def block_def)
  have "encode_packet (mx_zlib m) (mx_zlibLoaded m) i buf (-1) f = Some (True, block, -1)"
    using assms(3) wr by (simp add: encode_packet_def a_def [symmetric] sz)
  moreover have "take 8 block = a @ [f] @ [255, 255, 255]" "8 \<le> length block" using la by (simp_all add: block_def)
  ultimately show ?thesis
    using net.masterWrite_sends [OF assms(1) out, of 8 block] by (auto simp: IOMixer_masterEncode_def a_def)
qed

lemma error_size: "j \<in> {1..<128} \<Longrightarrow> 65536 < sint (word_of_le [255, 255, 255, word_of_int j] :: u32)"
proof -
  have "list_all (\<lambda>j. 65536 < sint (word_of_le [255, 255, 255, word_of_int j] :: u32)) [1..127]" by code_simp
  then show "j \<in> {1..<128} \<Longrightarrow> 65536 < sint (word_of_le [255, 255, 255, word_of_int j] :: u32)" by (auto simp: list_all_iff)
qed

lemma small_id_bytes: "j \<in> {1..<128} \<Longrightarrow> obj_bytes 4 (word_of_int j :: u32) = [word_of_int j, 0, 0, 0]"
proof -
  have "list_all (\<lambda>j. obj_bytes 4 (word_of_int j :: u32) = [word_of_int j, 0, 0, 0]) [1..127]" by code_simp
  then show "j \<in> {1..<128} \<Longrightarrow> obj_bytes 4 (word_of_int j :: u32) = [word_of_int j, 0, 0, 0]" by (auto simp: list_all_iff)
qed

lemma oversized_head:
  assumes "\<not> mx_masterEofReceived m" "stream_type (mx_masterInType m)"
    "n_in (mx_world m) = obj_bytes 4 (wi :: u32) @ [f] @ obj_bytes 4 (ws :: u32) @ rest" "IOMIXER_MAX_PACKET < sint ws"
  shows "\<exists>m'. IOMixer_masterDecode (net_os chunk) id0 sz0 flags0 data IOMIXER_MAX_PACKET m = Some (-1, sint wi, sint ws, data, m')"
proof -
  obtain inp where inp: "master_in (net_os chunk) (mx_masterInType m) = Some inp" using stream_type_calls(2) [OF assms(2)] by blast
  show ?thesis
    using net.masterDecode_head [OF assms(1) inp assms(3), of id0 sz0 flags0 data] assms(4) by (auto simp: decode_body_def)
qed

text \<open>With a master of type \<^verbatim>\<open>IOMIXER_TYPE_AUTO\<close> nothing is read and the loop of the master thread spins.\<close>

lemma auto_spins:
  assumes "mx_masterInType m = IOMIXER_TYPE_AUTO" "\<not> mx_masterEofReceived m" "IOMixer_getSlave (-1) m = None"
  shows "master_rounds os flags0 (-1, -1, data) m = None"
proof (rule ccontr)
  assume "master_rounds os flags0 (-1, -1, data) m \<noteq> None"
  then obtain r where r: "master_rounds os flags0 (-1, -1, data) m = Some r" by blast
  have round: "master_round os' fl (-1, -1, d) m = Some (True, (-1, -1, d), m)" for os' fl d
  proof -
    have rd: "IOMixer_masterRead os' b n m = Some (0, b, m)" for b n
      using assms by (simp add: IOMixer_masterRead_def master_in_def IOMIXER_TYPE_AUTO_def IOMIXER_TYPE_FD_def
          IOMIXER_TYPE_SOCKET_def IOMIXER_TYPE_CALLBACK_def)
    show ?thesis using assms(3)
      by (simp add: master_round_def IOMixer_masterDecode_def rd decode_body_def IOMIXER_MAX_PACKET_def)
  qed
  have "(-1 :: int, -1 :: int, data) = (-1, -1, data) \<and> m = m \<longrightarrow> False"
  proof (rule master_rounds.raw_induct [OF _ r, where P = "\<lambda>os fl v m' r. v = (-1, -1, data) \<and> m' = m \<longrightarrow> False"])
    fix loop os fl v m' r
    assume IH: "\<And>os fl v m' r. loop os fl v m' = Some r \<Longrightarrow> v = (-1, -1, data) \<and> m' = m \<longrightarrow> False"
      and body: "(if mx_masterEofReceived m' then master_finish m'
        else case master_round os fl v m' of None \<Rightarrow> None
             | Some (ok, v, m) \<Rightarrow> if ok then loop os fl v m else master_finish m) = Some r"
    show "v = (-1, -1, data) \<and> m' = m \<longrightarrow> False" using body round [of os fl data] assms(2) IH [of os fl v m' r] by auto
  qed
  then show False by simp
qed

section \<open>Properties\<close>

definition no_zlib :: zlib where
  "no_zlib = \<lparr>z_handle = False, z_long32 = True, z_compress = None, z_uncompress = None, z_bound = None\<rparr>"

definition demo_slave :: "int \<Rightarrow> int \<Rightarrow> IOMixerSlave" where
  "demo_slave i fd = \<lparr>sl_id = i, sl_eofSent = False, sl_eofReceived = False, sl_fdin = fd, sl_fdout = fd + 1, sl_running = True,
     sl_cancelled = False, sl_thread = True, sl_flags = 0\<rparr>"

definition demo_mixer :: "(int \<Rightarrow> byte list list) \<Rightarrow> net IOMixer" where
  "demo_mixer feeds = \<lparr>mx_slaves = [(1, demo_slave 1 10), (2, demo_slave 2 20)], mx_masterIn = 3, mx_masterOut = 4, mx_slavesCount = 2,
     mx_masterInType = IOMIXER_TYPE_FD, mx_masterOutType = IOMIXER_TYPE_FD, mx_dead = False, mx_masterEofSent = False,
     mx_masterEofReceived = False, mx_refCount = 1, mx_deleted = 0, mx_quietMode = False, mx_masterThread = None,
     mx_cancelCallback = None, mx_cancelled = 0, mx_callback = False, mx_notified = [], mx_init = True, mx_zlib = no_zlib, mx_zlibLoaded = False,
     mx_lock = 0, mx_world = \<lparr>n_in = [], n_out = [], n_pipes = (\<lambda>fd. []), n_feeds = feeds, n_time = 0, n_fds = 5\<rparr>\<rparr>"



end
