(* ===== verification/IO_Mixer_Props.thy ===== *)
theory IO_Mixer_Props
  imports IO_Mixer_Net
begin

text \<open>
  What the mixer keeps whatever comes in, its table of slaves, and the ways in which its stream and its end go wrong.
\<close>

section \<open>One round of the master thread\<close>

lemma slaveWrite_safe:
  assumes "nat sz \<le> length data"
  shows "\<exists>rc w. IOMixer_slaveWrite os i data sz m = Some (rc, m\<lparr>mx_world := w\<rparr>)"
proof (cases "IOMixer_getSlave i m")
  case None
  then show ?thesis by (auto simp: IOMixer_slaveWrite_def intro: exI [of _ "mx_world m"])
next
  case (Some s)
  then show ?thesis using assms
    by (cases "sl_eofSent s") (auto simp: IOMixer_slaveWrite_def mem_read_def split: prod.splits intro: exI [of _ "mx_world m"])
qed

lemma upd_slave_zlib [simp]: "mx_zlib (upd_slave i f m) = mx_zlib m" "mx_zlibLoaded (upd_slave i f m) = mx_zlibLoaded m"
  by (simp_all add: upd_slave_def split: option.splits)

lemma getSlave_world [simp]: "IOMixer_getSlave j (m\<lparr>mx_world := w\<rparr>) = IOMixer_getSlave j m"
  by (simp add: IOMixer_getSlave_def)

text \<open>
  Property C6. The master thread is safe for every input: whatever bytes the peer sends, in whatever pieces, every round of the
  loop ends, writes only inside its buffer of 64 kB, hands on only bytes of that buffer, and changes
  no other slave than the one whose number it read; a round that fails changes no slave at all. The calls that read
  return at most as many bytes as they were asked for. Where zlib was loaded, its decompression has to keep to the size of
  the target, to report at most this size, and to be built with an \<^verbatim>\<open>unsigned long\<close> of 32 bits, as the declarations of
  \<^verbatim>\<open>IOMixer.h\<close> need.
\<close>

theorem mixer_any_bytes:
  assumes "calls_ok os" "unpack_ok m" "int (length data) = IOMIXER_MAX_PACKET"
  shows "\<exists>ok i sz data' m'. master_round os flags0 (id0, sz0, data) m = Some (ok, (i, sz, data'), m') \<and>
    int (length data') = IOMIXER_MAX_PACKET \<and> unpack_ok m' \<and> (ok \<longrightarrow> sz \<le> IOMIXER_MAX_PACKET) \<and>
    (\<forall>j. j \<noteq> i \<or> \<not> ok \<longrightarrow> IOMixer_getSlave j m' = IOMixer_getSlave j m)"
proof -
  obtain rc i sz data' w where d:
      "IOMixer_masterDecode os id0 sz0 flags0 data IOMIXER_MAX_PACKET m = Some (rc, i, sz, data', m\<lparr>mx_world := w\<rparr>)"
      "length data' = length data" "rc = 0 \<longrightarrow> sz \<le> IOMIXER_MAX_PACKET"
    by (rule masterDecode_safe [OF assms])
  note l = d(2) assms(3)
  have u: "unpack_ok (m\<lparr>mx_world := w'\<rparr>)" for w' using assms(2) by (simp add: unpack_ok_def)
  consider "rc \<noteq> 0" | "rc = 0" "sz \<le> 0" "i = 0" | "rc = 0" "sz \<le> 0" "i \<noteq> 0" | "rc = 0" "0 < sz" by linarith
  then show ?thesis
  proof cases
    case 1
    then show ?thesis using d l u by (auto simp: master_round_def IOMixer_getSlave_def)
  next
    case 2
    then show ?thesis using d l assms(2) by (auto simp: master_round_def IOMixer_getSlave_def unpack_ok_def)
  next
    case 3
    define m' where "m' = (case IOMixer_getSlave i (m\<lparr>mx_world := w\<rparr>) of None \<Rightarrow> m\<lparr>mx_world := w\<rparr>
      | Some slave \<Rightarrow> upd_slave i (\<lambda>s. s\<lparr>sl_eofReceived := True, sl_fdout := -1\<rparr>) (close_fd os (sl_fdout slave) (m\<lparr>mx_world := w\<rparr>)))"
    have "master_round os flags0 (id0, sz0, data) m = Some (True, (i, sz, data'), m')"
      using 3 d by (simp add: master_round_def m'_def)
    moreover have "unpack_ok m'" using assms(2) by (simp add: unpack_ok_def m'_def close_fd_def split: option.split)
    moreover have "IOMixer_getSlave j m' = IOMixer_getSlave j m" if "j \<noteq> i" for j
      using that by (simp add: m'_def upd_slave_frame close_fd_def split: option.split)
    ultimately show ?thesis using l d(3) 3 by auto
  next
    case 4
    then have "nat sz \<le> length data'" using d l by simp
    then obtain r w' where "IOMixer_slaveWrite os i data' sz (m\<lparr>mx_world := w\<rparr>) = Some (r, m\<lparr>mx_world := w\<rparr>\<lparr>mx_world := w'\<rparr>)"
      using slaveWrite_safe [of sz data' os i "m\<lparr>mx_world := w\<rparr>"] by blast
    then have "master_round os flags0 (id0, sz0, data) m = Some (True, (i, sz, data'), m\<lparr>mx_world := w'\<rparr>)"
      using 4 d by (simp add: master_round_def)
    then show ?thesis using l d(3) 4 u by (auto simp: IOMixer_getSlave_def)
  qed
qed

lemma net_calls_ok: "calls_ok (net_os chunk)"
  by (auto simp: calls_ok_def net_in_def Let_def dest!: net_calls(2))

text \<open>A compression that makes everything eleven bytes longer, as zlib does with blocks that it stores.\<close>

definition stored_zlib :: zlib where
  "stored_zlib = \<lparr>z_handle = True, z_long32 = True, z_compress = Some (\<lambda>n d. (0, replicate 11 0 @ d)),
     z_uncompress = Some (\<lambda>n c. (take n (drop 11 c), int (length (take n (drop 11 c))))), z_bound = Some (\<lambda>n. n + 13)\<rparr>"

theorem mixer_any_bytes_witness:
  "\<exists>ok i sz data' m'. master_round (net_os (\<lambda>t. 2)) 0 (-1, -1, replicate 65536 0)
      ((demo_mixer (\<lambda>fd. []))\<lparr>mx_zlib := stored_zlib, mx_zlibLoaded := True,
         mx_world := (mx_world (demo_mixer (\<lambda>fd. [])))\<lparr>n_in := mix_frame 1 IOMIXER_FLAG_COMPRESSION_ON (replicate 11 0 @ [7, 8])\<rparr>\<rparr>) =
      Some (ok, (i, sz, data'), m') \<and> int (length data') = IOMIXER_MAX_PACKET"
proof -
  let ?m = "(demo_mixer (\<lambda>fd. []))\<lparr>mx_zlib := stored_zlib, mx_zlibLoaded := True,
    mx_world := (mx_world (demo_mixer (\<lambda>fd. [])))\<lparr>n_in := mix_frame 1 IOMIXER_FLAG_COMPRESSION_ON (replicate 11 0 @ [7, 8])\<rparr>\<rparr>"
  have "unpack_ok ?m" by (auto simp: unpack_ok_def stored_zlib_def)
  moreover have "int (length (replicate 65536 (0 :: byte))) = IOMIXER_MAX_PACKET" by (simp add: IOMIXER_MAX_PACKET_def)
  ultimately show ?thesis
    using mixer_any_bytes [OF net_calls_ok [of "\<lambda>t. 2"], of ?m "replicate 65536 0" 0 "-1" "-1"] by blast
qed

section \<open>The table\<close>

lemma addSlave_table:
  assumes "mixer_inv m" and a: "IOMixer_addSlave os slaveId m = Some (ret, fds, m')"
  shows "mixer_inv m' \<and>
      (if ret = -1 then \<forall>j. IOMixer_getSlave j m' = IOMixer_getSlave j m
       else (slaveId \<noteq> -1 \<longrightarrow> ret = slaveId) \<and> IOMixer_getSlave ret m = None \<and> mx_lock m' = mx_lock m \<and>
         (\<exists>s. IOMixer_getSlave ret m' = Some s \<and> sl_id s = ret \<and> sl_flags s = 0) \<and>
         (\<forall>j. j \<noteq> ret \<longrightarrow> IOMixer_getSlave j m' = IOMixer_getSlave j m))"
proof -
  have num: "ret = slaveId \<or> ret = -1 \<or> slaveId = -1"
    using a by (auto simp: IOMixer_addSlave_def bind_eq_Some_conv Let_def split: if_splits prod.splits option.splits)
  show ?thesis
    using a assms(1)
  proof (cases rule: addSlave_cases)
    case 1
    then show ?thesis using assms by (simp add: mixer_inv_def IOMixer_getSlave_def)
  next
    case (2 slave)
    have "mixer_inv m'" by (rule mixer_inv_add [OF assms(1) 2(4,5,2,9)])
    then show ?thesis using 2 num by (auto simp: IOMixer_getSlave_def)
  qed
qed

text \<open>
  The table of slaves: adding and removing slaves keeps every slave filed under its own number, never 0. A slave that is added gets
  a number that was free and starts with compression off; a failure leaves the table as it was.
  After a removal the number is free again and every other slave is as before.
\<close>

theorem mixer_slave_table:
  assumes "mixer_inv m"
  shows "(\<forall>slaveId ret fds m'. IOMixer_addSlave os slaveId m = Some (ret, fds, m') \<longrightarrow> mixer_inv m' \<and>
      (if ret = -1 then \<forall>j. IOMixer_getSlave j m' = IOMixer_getSlave j m
       else (slaveId \<noteq> -1 \<longrightarrow> ret = slaveId) \<and> IOMixer_getSlave ret m = None \<and> mx_lock m' = mx_lock m \<and>
         (\<exists>s. IOMixer_getSlave ret m' = Some s \<and> sl_id s = ret \<and> sl_flags s = 0) \<and>
         (\<forall>j. j \<noteq> ret \<longrightarrow> IOMixer_getSlave j m' = IOMixer_getSlave j m))) \<and>
    (\<forall>i rc m'. IOMixer_removeSlave os i m = Some (rc, m') \<longrightarrow> rc = 0 \<and> mixer_inv m' \<and> IOMixer_getSlave i m' = None \<and>
      mx_lock m' = mx_lock m \<and> (\<forall>j. j \<noteq> i \<longrightarrow> IOMixer_getSlave j m' = IOMixer_getSlave j m))"
  by (intro conjI allI impI; use addSlave_table [OF assms] removeSlave_only [OF _ assms] in blast)

theorem mixer_slave_table_witness:
  "mixer_inv (demo_mixer (\<lambda>fd. [])) \<and>
   (\<exists>fds m'. IOMixer_addSlave (net_os (\<lambda>t. 1)) (-1) (demo_mixer (\<lambda>fd. [])) = Some (3, fds, m') \<and> mixer_inv m' \<and>
      (\<exists>rc m''. IOMixer_removeSlave (net_os (\<lambda>t. 1)) 3 m' = Some (rc, m'') \<and> IOMixer_getSlave 3 m'' = None))"
proof -
  let ?m = "demo_mixer (\<lambda>fd. [])"
  have i: "mixer_inv ?m"
    by (auto simp: mixer_inv_def demo_mixer_def IOMixer_getSlave_def smap_find_def smap_ok_def demo_slave_def split: if_splits)
  define m' where "m' = snd (snd (the (IOMixer_addSlave (net_os (\<lambda>t. 1)) (-1) ?m)))"
  have f: "free_number [(1, demo_slave 1 10), (2, demo_slave 2 20)] 2 = Some 3"
    by (simp add: free_number.simps smap_find_def cint_add_def)
  obtain fds where a: "IOMixer_addSlave (net_os (\<lambda>t. 1)) (-1) ?m = Some (3, fds, m')"
    unfolding m'_def by (simp add: IOMixer_addSlave_def demo_mixer_def net_os_def f IOMixer_addRef_def cint_add_def)
  have i': "mixer_inv m'" using mixer_slave_table [OF i, THEN conjunct1] a by blast
  have "IOMixer_removeSlave (net_os (\<lambda>t. 1)) 3 m' \<noteq> None"
    unfolding m'_def by code_simp
  then obtain rc m'' where r: "IOMixer_removeSlave (net_os (\<lambda>t. 1)) 3 m' = Some (rc, m'')" by auto
  then show ?thesis using i a i' mixer_slave_table [OF i', THEN conjunct2] r by blast
qed

section \<open>Broken streams\<close>

lemma error_size_bytes: "j \<in> {1..<128} \<Longrightarrow> obj_bytes 4 (word_of_le [255, 255, 255, word_of_int j] :: u32) = [255, 255, 255, word_of_int j]"
proof -
  have "list_all (\<lambda>j. obj_bytes 4 (word_of_le [255, 255, 255, word_of_int j] :: u32) = [255, 255, 255, word_of_int j]) [1..127]" by code_simp
  then show "j \<in> {1..<128} \<Longrightarrow> obj_bytes 4 (word_of_le [255, 255, 255, word_of_int j] :: u32) = [255, 255, 255, word_of_int j]"
    by (auto simp: list_all_iff)
qed

lemma after_error:
  assumes "\<not> mx_masterEofSent m" "stream_type (mx_masterOutType m)" "\<not> mx_zlibLoaded m" "n_out (mx_world m) = []" "j \<in> {1..<128}"
  shows "\<exists>m1 m2 rest. IOMixer_masterEncode (net_os chunk) i buf (-1) f m = Some (0, m1) \<and>
    IOMixer_masterEncode (net_os chunk) j d (int (length d)) g m1 = Some (0, m2) \<and>
    n_out (mx_world m2) = obj_bytes 4 (word_of_int i :: u32) @ [f] @ obj_bytes 4 (word_of_le [255, 255, 255, word_of_int j] :: u32) @ rest"
proof -
  obtain w where w: "IOMixer_masterEncode (net_os chunk) i buf (-1) f m = Some (0, m\<lparr>mx_world := w\<rparr>)"
      "n_out w = obj_bytes 4 (word_of_int i :: u32) @ [f] @ [255, 255, 255]"
    using error_packet [OF assms(1-3), of chunk i buf f] assms(4) by auto
  obtain out where out: "master_out (net_os chunk) (mx_masterOutType m) = Some out" using stream_type_calls(1) [OF assms(2)] by blast
  have "send_ok (mx_zlib m) False g d" by (simp add: send_ok_def packs_def)
  then obtain w' where w': "IOMixer_masterEncode (net_os chunk) j d (int (length d)) g (m\<lparr>mx_world := w\<rparr>) = Some (0, m\<lparr>mx_world := w'\<rparr>)"
      "n_out w' = n_out w @ mix_packet (mx_zlib m) False j g d"
    using net.masterEncode_sends [of "m\<lparr>mx_world := w\<rparr>" chunk out g d d "[]" j] assms(1,3) out by auto
  obtain rest where "mix_packet (mx_zlib m) False j g d = [word_of_int j] @ rest"
    using small_id_bytes [OF assms(5)] by (auto simp: mix_packet_def packs_def mix_frame_def)
  then show ?thesis using w w' error_size_bytes [OF assms(5)] by auto
qed

lemma oversized_pack:
  assumes "\<not> mx_masterEofSent m" "stream_type (mx_masterOutType m)" "n_out (mx_world m) = []"
    "send_ok (mx_zlib m) (mx_zlibLoaded m) f d" "packs (mx_zlibLoaded m) f d"
  shows "\<exists>m1. IOMixer_masterEncode (net_os chunk) i d (int (length d)) f m = Some (0, m1) \<and>
    n_out (mx_world m1) = obj_bytes 4 (word_of_int i :: u32) @ [f] @ obj_bytes 4 (word_of_nat (length (pack (mx_zlib m) d)) :: u32) @ pack (mx_zlib m) d"
proof -
  obtain out where out: "master_out (net_os chunk) (mx_masterOutType m) = Some out" using stream_type_calls(1) [OF assms(2)] by blast
  show ?thesis using net.masterEncode_sends [of m chunk out f d d "[]" i] assms out by (auto simp: mix_packet_def mix_frame_def)
qed

lemma sint_length: "int n \<le> int_max \<Longrightarrow> sint (word_of_nat n :: u32) = int n"
  by (simp add: signed_of_nat signed_take_bit_int_eq_self)

text \<open>
  Where a stream breaks. A read error on one channel is sent as a head of eight bytes instead of nine, so that
  the first byte of the next packet becomes part of its size: after an error, the packet of any channel between 1 and 127 makes the receiver give up the
  whole stream. And a piece of at most 64 kB whose compressed form is longer than 64 kB is accepted by the
  sender, which reports success, and rejected by the receiver.
\<close>

theorem mixer_stream_breaks:
  assumes "\<not> mx_masterEofSent sender" "stream_type (mx_masterOutType sender)" "n_out (mx_world sender) = []"
    "\<not> mx_masterEofReceived receiver" "stream_type (mx_masterInType receiver)"
  shows "(\<not> mx_zlibLoaded sender \<longrightarrow> j \<in> {1..<128} \<longrightarrow>
      (\<exists>m1 m2 m3 i' sz. IOMixer_masterEncode (net_os chunk1) i buf (-1) f sender = Some (0, m1) \<and>
        IOMixer_masterEncode (net_os chunk1) j d (int (length d)) g m1 = Some (0, m2) \<and>
        IOMixer_masterDecode (net_os chunk2) id0 sz0 flags0 data IOMIXER_MAX_PACKET
          (receiver\<lparr>mx_world := (mx_world receiver)\<lparr>n_in := n_out (mx_world m2)\<rparr>\<rparr>) = Some (-1, i', sz, data, m3))) \<and>
    (packs (mx_zlibLoaded sender) g d \<longrightarrow> send_ok (mx_zlib sender) (mx_zlibLoaded sender) g d \<longrightarrow>
      IOMIXER_MAX_PACKET < int (length (pack (mx_zlib sender) d)) \<longrightarrow> int (length (pack (mx_zlib sender) d)) \<le> int_max \<longrightarrow>
      (\<exists>m1 m3 i' sz. IOMixer_masterEncode (net_os chunk1) j d (int (length d)) g sender = Some (0, m1) \<and>
        IOMixer_masterDecode (net_os chunk2) id0 sz0 flags0 data IOMIXER_MAX_PACKET
          (receiver\<lparr>mx_world := (mx_world receiver)\<lparr>n_in := n_out (mx_world m1)\<rparr>\<rparr>) = Some (-1, i', sz, data, m3)))"
proof (intro conjI impI)
  assume a: "\<not> mx_zlibLoaded sender" "j \<in> {1..<128}"
  obtain m1 m2 rest where m: "IOMixer_masterEncode (net_os chunk1) i buf (-1) f sender = Some (0, m1)"
      "IOMixer_masterEncode (net_os chunk1) j d (int (length d)) g m1 = Some (0, m2)"
      "n_out (mx_world m2) = obj_bytes 4 (word_of_int i :: u32) @ [f] @ obj_bytes 4 (word_of_le [255, 255, 255, word_of_int j] :: u32) @ rest"
    using after_error [OF assms(1,2) a(1) assms(3) a(2), of chunk1 i buf f d g] by blast
  have "\<exists>m3. IOMixer_masterDecode (net_os chunk2) id0 sz0 flags0 data IOMIXER_MAX_PACKET
      (receiver\<lparr>mx_world := (mx_world receiver)\<lparr>n_in := n_out (mx_world m2)\<rparr>\<rparr>) =
      Some (-1, sint (word_of_int i :: u32), sint (word_of_le [255, 255, 255, word_of_int j] :: u32), data, m3)"
    using assms(4,5) m(3) error_size [OF a(2)] by (intro oversized_head) (simp_all add: IOMIXER_MAX_PACKET_def)
  then show "\<exists>m1 m2 m3 i' sz. IOMixer_masterEncode (net_os chunk1) i buf (-1) f sender = Some (0, m1) \<and>
        IOMixer_masterEncode (net_os chunk1) j d (int (length d)) g m1 = Some (0, m2) \<and>
        IOMixer_masterDecode (net_os chunk2) id0 sz0 flags0 data IOMIXER_MAX_PACKET
          (receiver\<lparr>mx_world := (mx_world receiver)\<lparr>n_in := n_out (mx_world m2)\<rparr>\<rparr>) = Some (-1, i', sz, data, m3)"
    using m(1,2) by blast
next
  let ?p = "pack (mx_zlib sender) d"
  assume p: "packs (mx_zlibLoaded sender) g d" "send_ok (mx_zlib sender) (mx_zlibLoaded sender) g d"
    "IOMIXER_MAX_PACKET < int (length ?p)" "int (length ?p) \<le> int_max"
  obtain m1 where m: "IOMixer_masterEncode (net_os chunk1) j d (int (length d)) g sender = Some (0, m1)"
      "n_out (mx_world m1) = obj_bytes 4 (word_of_int j :: u32) @ [g] @ obj_bytes 4 (word_of_nat (length ?p) :: u32) @ ?p"
    using oversized_pack [OF assms(1-3) p(2,1), of chunk1 j] by blast
  have "\<exists>m3. IOMixer_masterDecode (net_os chunk2) id0 sz0 flags0 data IOMIXER_MAX_PACKET
      (receiver\<lparr>mx_world := (mx_world receiver)\<lparr>n_in := n_out (mx_world m1)\<rparr>\<rparr>) =
      Some (-1, sint (word_of_int j :: u32), sint (word_of_nat (length ?p) :: u32), data, m3)"
    using assms(4,5) m(2) p(3) sint_length [OF p(4)] by (intro oversized_head) simp_all
  then show "\<exists>m1 m3 i' sz. IOMixer_masterEncode (net_os chunk1) j d (int (length d)) g sender = Some (0, m1) \<and>
        IOMixer_masterDecode (net_os chunk2) id0 sz0 flags0 data IOMIXER_MAX_PACKET
          (receiver\<lparr>mx_world := (mx_world receiver)\<lparr>n_in := n_out (mx_world m1)\<rparr>\<rparr>) = Some (-1, i', sz, data, m3)"
    using m(1) by blast
qed

theorem mixer_stream_breaks_witness:
  "(\<exists>m1 m2 m3 i' sz. IOMixer_masterEncode (net_os (\<lambda>t. 4)) 2 [] (-1) 0 (demo_mixer (\<lambda>fd. [])) = Some (0, m1) \<and>
      IOMixer_masterEncode (net_os (\<lambda>t. 4)) 1 [9] 1 0 m1 = Some (0, m2) \<and>
      IOMixer_masterDecode (net_os (\<lambda>t. 3)) (-1) (-1) 0 [] IOMIXER_MAX_PACKET
        ((demo_mixer (\<lambda>fd. []))\<lparr>mx_world := (mx_world (demo_mixer (\<lambda>fd. [])))\<lparr>n_in := n_out (mx_world m2)\<rparr>\<rparr>) = Some (-1, i', sz, [], m3)) \<and>
   (\<exists>m1 m3 i' sz. IOMixer_masterEncode (net_os (\<lambda>t. 4)) 1 (replicate 65536 7) 65536 1
        ((demo_mixer (\<lambda>fd. []))\<lparr>mx_zlib := stored_zlib, mx_zlibLoaded := True\<rparr>) = Some (0, m1) \<and>
      IOMixer_masterDecode (net_os (\<lambda>t. 3)) (-1) (-1) 0 [] IOMIXER_MAX_PACKET
        ((demo_mixer (\<lambda>fd. []))\<lparr>mx_world := (mx_world (demo_mixer (\<lambda>fd. [])))\<lparr>n_in := n_out (mx_world m1)\<rparr>\<rparr>) = Some (-1, i', sz, [], m3))"
proof
  let ?m = "demo_mixer (\<lambda>fd. [])" and ?z = "(demo_mixer (\<lambda>fd. []))\<lparr>mx_zlib := stored_zlib, mx_zlibLoaded := True\<rparr>"
  have m: "\<not> mx_masterEofSent ?m" "stream_type (mx_masterOutType ?m)" "n_out (mx_world ?m) = []" "\<not> mx_masterEofReceived ?m"
    "stream_type (mx_masterInType ?m)" "\<not> mx_zlibLoaded ?m"
    by (simp_all add: demo_mixer_def stream_type_def)
  show "\<exists>m1 m2 m3 i' sz. IOMixer_masterEncode (net_os (\<lambda>t. 4)) 2 [] (-1) 0 ?m = Some (0, m1) \<and>
      IOMixer_masterEncode (net_os (\<lambda>t. 4)) 1 [9] 1 0 m1 = Some (0, m2) \<and>
      IOMixer_masterDecode (net_os (\<lambda>t. 3)) (-1) (-1) 0 [] IOMIXER_MAX_PACKET
        (?m\<lparr>mx_world := (mx_world ?m)\<lparr>n_in := n_out (mx_world m2)\<rparr>\<rparr>) = Some (-1, i', sz, [], m3)"
    using mixer_stream_breaks [OF m(1-5), of 1 "\<lambda>t. 4" 2 "[]" 0 "[9]" 0 "\<lambda>t. 3" "-1" "-1" 0 "[]", THEN conjunct1] m(6) by simp
  have z: "\<not> mx_masterEofSent ?z" "stream_type (mx_masterOutType ?z)" "n_out (mx_world ?z) = []"
    by (simp_all add: demo_mixer_def stream_type_def)
  have p: "packs (mx_zlibLoaded ?z) 1 (replicate 65536 7)" by (simp add: packs_def IOMIXER_FLAG_COMPRESSION_ON_def)
  have l: "length (pack (mx_zlib ?z) (replicate 65536 7)) = 65547" by (simp add: pack_def stored_zlib_def)
  have "send_ok (mx_zlib ?z) (mx_zlibLoaded ?z) 1 (replicate 65536 7)" by (simp add: send_ok_def pack_def stored_zlib_def)
  then show "\<exists>m1 m3 i' sz. IOMixer_masterEncode (net_os (\<lambda>t. 4)) 1 (replicate 65536 7) 65536 1 ?z = Some (0, m1) \<and>
      IOMixer_masterDecode (net_os (\<lambda>t. 3)) (-1) (-1) 0 [] IOMIXER_MAX_PACKET
        (?m\<lparr>mx_world := (mx_world ?m)\<lparr>n_in := n_out (mx_world m1)\<rparr>\<rparr>) = Some (-1, i', sz, [], m3)"
    using mixer_stream_breaks [OF z m(4,5), of 1 "\<lambda>t. 4" 1 "[]" 1 "replicate 65536 7" 1 "\<lambda>t. 3" "-1" "-1" 0 "[]", THEN conjunct2] p l
    by (simp add: IOMIXER_MAX_PACKET_def)
qed

section \<open>References\<close>

definition mixer_refs_ok :: "'w IOMixer \<Rightarrow> bool" where
  "mixer_refs_ok m \<longleftrightarrow> 0 \<le> mx_refCount m \<and> mx_refCount m \<le> int_max \<and> mx_deleted m = (if mx_refCount m = 0 then 1 else 0)"

interpretation mixer: ref_counted IOMixer_addRef IOMixer_release "\<lambda>m. nat (mx_refCount m)" mixer_refs_ok
proof unfold_locales
  fix m :: "'a IOMixer"
  assume m: "mixer_refs_ok m" "0 < nat (mx_refCount m)"
  then have "IOMixer_release m = Some (if mx_refCount m = 1 then m\<lparr>mx_refCount := 0, mx_deleted := 1\<rparr> else m\<lparr>mx_refCount := mx_refCount m - 1\<rparr>)"
    by (auto simp: IOMixer_release_def cint_add_def mixer_refs_ok_def Let_def)
  then show "\<exists>m'. IOMixer_release m = Some m' \<and> mixer_refs_ok m' \<and> nat (mx_refCount m') = nat (mx_refCount m) - 1"
    using m by (auto simp: mixer_refs_ok_def)
qed (auto simp: IOMixer_addRef_def cint_add_def mixer_refs_ok_def)

lemma mixer_lifetime:
  assumes "held 1 ops = Some n"
  shows "\<exists>m. ref_run IOMixer_addRef IOMixer_release ops (IOMixer_new z mo mi tyo tyi junk) = Some m \<and>
    mx_refCount m = int n \<and> mx_deleted m = (if n = 0 then 1 else 0)"
proof -
  let ?m = "IOMixer_new z mo mi tyo tyi junk"
  have "mx_refCount ?m = 1" "mx_deleted ?m = 0"
    by (simp_all add: IOMixer_new_def IOMixer_base_def IOMixer_initZLib_def Let_def)
  then have "mixer_refs_ok ?m" "nat (mx_refCount ?m) = 1" by (simp_all add: mixer_refs_ok_def)
  then obtain m where "ref_run IOMixer_addRef IOMixer_release ops ?m = Some m" "mixer_refs_ok m" "nat (mx_refCount m) = n"
    using mixer.run_held [of ?m ops n] assms by auto
  then show ?thesis by (auto simp: mixer_refs_ok_def)
qed

section \<open>How a mixer ends\<close>

lemma stop_undefined:
  "IOMixer_stop (IOMixer_new z mo mi tyo tyi junk) = None"
  "IOMixer_stop (snd (IOMixer_start (IOMixer_new z mo mi tyo tyi junk))) = None"
  "IOMixer_stop (IOMixer_new_callback z True True c junk) = None"
  by (simp_all add: IOMixer_stop_def IOMixer_new_def IOMixer_new_callback_def IOMixer_base_def IOMixer_initZLib_def IOMixer_start_def Let_def)

lemma flush_first:
  assumes "IOMixer_flush os m = Some (rc, m')" "smap_ok (mx_slaves m)" "map fst (mx_slaves m) = k # ks" "j \<noteq> k"
  shows "IOMixer_getSlave j m' = IOMixer_getSlave j m"
proof -
  obtain m1 where m1: "flush_loop os (length (mx_slaves m)) (lock_slaves m) = Some m1" "m' = unlock_slaves m1"
    using assms(1) by (auto simp: IOMixer_flush_def bind_eq_Some_conv)
  have "only_slave k (lock_slaves m) m1" using flush_only [OF m1(1)] assms(2,3) by simp
  then show ?thesis using assms(4) m1(2) by (simp add: only_slave_def IOMixer_getSlave_def)
qed

text \<open>
  How a mixer ends. \<^verbatim>\<open>stop\<close>, and with it \<^verbatim>\<open>shutdown\<close> and the destructor, reads a callback pointer that the constructor with
  descriptors never sets, and a thread pointer that neither constructor sets before \<^verbatim>\<open>start\<close> (and ends without the result that it is declared with); \<^verbatim>\<open>flush\<close> waits for the thread of the first slave only,
  every other slave is left as it is; \<^verbatim>\<open>start\<close> reports success for an object that was not initialised; an \<^verbatim>\<open>addSlave\<close> that is refused unlocks a mutex it has not locked;
  and with the default type of the master the master thread never ends.
\<close>

theorem mixer_end_defects:
  "IOMixer_stop (snd (IOMixer_start (IOMixer_new z mo mi tyo tyi junk))) = None \<and>
   IOMixer_stop (IOMixer_new_callback z True True c junk) = None \<and>
   (\<forall>k ks j rc m'. smap_ok (mx_slaves m) \<longrightarrow> map fst (mx_slaves m) = k # ks \<longrightarrow> IOMixer_flush os m = Some (rc, m') \<longrightarrow> j \<noteq> k \<longrightarrow>
      IOMixer_getSlave j m' = IOMixer_getSlave j m) \<and>
   (\<not> mx_init m \<longrightarrow> IOMixer_start m = (0, m) \<and> IOMixer_addSlave os i m = Some (-1, None, m\<lparr>mx_lock := mx_lock m - 1\<rparr>)) \<and>
   (mx_masterInType m = IOMIXER_TYPE_AUTO \<longrightarrow> \<not> mx_masterEofReceived m \<longrightarrow> IOMixer_getSlave (-1) m = None \<longrightarrow>
      IOMixer_masterLoop os flags0 data m = None)"
proof (intro conjI impI allI)
  show "IOMixer_getSlave j m' = IOMixer_getSlave j m"
    if "smap_ok (mx_slaves m)" "map fst (mx_slaves m) = k # ks" "IOMixer_flush os m = Some (rc, m')" "j \<noteq> k" for k ks j rc m'
    by (rule flush_first [OF that(3,1,2,4)])
  assume a: "mx_masterInType m = IOMIXER_TYPE_AUTO" "\<not> mx_masterEofReceived m" "IOMixer_getSlave (-1) m = None"
  show "IOMixer_masterLoop os flags0 data m = None"
  proof (cases "IOMixer_addRef m")
    case (Some m1)
    then have "mx_masterInType m1 = mx_masterInType m" "mx_masterEofReceived m1 = mx_masterEofReceived m" "mx_slaves m1 = mx_slaves m"
      by (auto simp: IOMixer_addRef_def bind_eq_Some_conv)
    then show ?thesis using Some auto_spins [of m1 os flags0 data] a by (simp add: IOMixer_masterLoop_def IOMixer_getSlave_def)
  qed (simp add: IOMixer_masterLoop_def)
qed (rule stop_undefined, rule stop_undefined, simp_all add: IOMixer_start_def IOMixer_addSlave_def)

theorem mixer_end_defects_witness:
  "(\<exists>m'. IOMixer_flush (net_os (\<lambda>t. 9)) (demo_mixer (\<lambda>fd. [])) = Some (0, m') \<and> IOMixer_getSlave 2 m' = Some (demo_slave 2 20)) \<and>
   IOMixer_addSlave (net_os (\<lambda>t. 9)) 1 ((demo_mixer (\<lambda>fd. []))\<lparr>mx_init := False\<rparr>) =
     Some (-1, None, (demo_mixer (\<lambda>fd. []))\<lparr>mx_init := False, mx_lock := -1\<rparr>) \<and>
   IOMixer_masterLoop (net_os (\<lambda>t. 9)) 0 [] ((demo_mixer (\<lambda>fd. []))\<lparr>mx_masterInType := IOMIXER_TYPE_AUTO\<rparr>) = None"
proof (intro conjI)
  let ?m = "demo_mixer (\<lambda>fd. [])" and ?os = "net_os (\<lambda>t. 9)"
  have "IOMixer_flush ?os ?m \<noteq> None" "fst (the (IOMixer_flush ?os ?m)) = 0" by code_simp+
  then obtain m' where f: "IOMixer_flush ?os ?m = Some (0, m')" by (cases "IOMixer_flush ?os ?m") auto
  have "IOMixer_getSlave 2 m' = IOMixer_getSlave 2 ?m"
    using mixer_end_defects [of no_zlib 0 0 0 0 ?m True ?m ?os 0 0 "[]"] f
    by (auto simp: demo_mixer_def smap_ok_def)
  then show "\<exists>m'. IOMixer_flush ?os ?m = Some (0, m') \<and> IOMixer_getSlave 2 m' = Some (demo_slave 2 20)"
    using f by (simp add: demo_mixer_def IOMixer_getSlave_def smap_find_def)
  show "IOMixer_addSlave ?os 1 (?m\<lparr>mx_init := False\<rparr>) = Some (-1, None, ?m\<lparr>mx_init := False, mx_lock := -1\<rparr>)"
    using mixer_end_defects [of no_zlib 0 0 0 0 ?m True "?m\<lparr>mx_init := False\<rparr>" ?os 1 0 "[]"] by (simp add: demo_mixer_def)
  show "IOMixer_masterLoop ?os 0 [] (?m\<lparr>mx_masterInType := IOMIXER_TYPE_AUTO\<rparr>) = None"
    using mixer_end_defects [of no_zlib 0 0 0 0 ?m True "?m\<lparr>mx_masterInType := IOMIXER_TYPE_AUTO\<rparr>" ?os 1 0 "[]"]
    by (simp add: demo_mixer_def IOMixer_getSlave_def smap_find_def)
qed

end
