(* ===== verification/Net_Request.thy ===== *)
theory Net_Request
  imports C_String
begin

text \<open>
  What the requests of LibNet (\<^verbatim>\<open>NetConnection::request\<close>) and of LibSecure (\<^verbatim>\<open>SecureConnection::request\<close>) share: the buffer in which the command is formatted, and
  the code of an answer.
\<close>

text \<open>\<^verbatim>\<open>vsnprintf\<close> stores at most 1022 characters and a zero.\<close>

definition request_buffer :: "byte list \<Rightarrow> byte list" where
  "request_buffer cmd = (let t = take 1022 cmd @ [0] in t @ replicate (1024 - length t) 0)"

lemma request_buffer_cmd:
  assumes "length cmd \<le> 1022"
  shows "mem_read (request_buffer cmd) 0 (length cmd + 1) = Some (cmd @ [0])" "length (request_buffer cmd) = 1024"
  using assms by (auto simp: request_buffer_def mem_read_def Let_def)

lemma request_buffer_long: "1024 \<le> length cmd \<Longrightarrow> mem_read (request_buffer cmd) 0 (length cmd + 1) = None"
  by (auto simp: request_buffer_def mem_read_def Let_def)

text \<open>The code of an answer is the number in its first four bytes.\<close>

definition answer_code :: "byte list \<Rightarrow> int" where
  "answer_code pre = atoi_value (c_str (map (\<lambda>b. char_of (unat b)) (take 4 pre)))"

lemma answer_code_buffer:
  assumes "length pre = 5"
  shows "atoi (c_str (map (\<lambda>b. char_of (unat b)) (take 5 ((pre @ rest)[4 := 0])))) = Some (answer_code pre)"
proof -
  have "take 5 ((pre @ rest)[4 := 0]) = take 4 pre @ [0]"
    using assms by (cases pre rule: rev_cases) (auto simp: list_update_append take_Cons' numeral_eq_Suc)
  moreover have "c_str (xs @ [CHR 0x00]) = c_str xs" for xs by (induction xs) (simp_all add: c_str_def)
  moreover have "(char_of (0 :: nat) :: char) = CHR 0x00" by code_simp
  moreover have "length (c_str (map (\<lambda>b. char_of (unat b)) (take 4 pre))) \<le> 9"
    using length_takeWhile_le [of "\<lambda>c. c \<noteq> nul" "map (\<lambda>b. char_of (unat b)) (take 4 pre)"] by (simp add: c_str_def min_def split: if_splits)
  ultimately show ?thesis by (simp add: answer_code_def atoi_short)
qed

end
