(* ===== verification/Secure_Conn.thy ===== *)
theory Secure_Conn
  imports C_String Ref_Object Net_Request
begin

text \<open>
  Secure connections (\<^verbatim>\<open>LibSecure/Connection.cpp\<close>): a DTLS session of OpenSSL over callbacks, descriptors, a socket, or no
  transport at all. OpenSSL and the transport are parameters: a session and its two memory buffers (BIO) are
  one value of type \<open>'s\<close>, the outside is a value of type \<open>'w\<close>.
\<close>

section \<open>State\<close>

definition SECURE_INTENT_SERVER :: int where "SECURE_INTENT_SERVER = 0"
definition SECURE_INTENT_CLIENT :: int where "SECURE_INTENT_CLIENT = 1"
definition SECURE_STATE_HANDSHAKE_WRITE :: int where "SECURE_STATE_HANDSHAKE_WRITE = 0"
definition SECURE_STATE_HANDSHAKE_READ :: int where "SECURE_STATE_HANDSHAKE_READ = 1"
definition SECURE_STATE_ESTABLISHED :: int where "SECURE_STATE_ESTABLISHED = 2"
definition SECURE_IOMODE_NONE :: int where "SECURE_IOMODE_NONE = 0"
definition SECURE_IOMODE_CALLBACKS :: int where "SECURE_IOMODE_CALLBACKS = 1"
definition SECURE_IOMODE_FDS :: int where "SECURE_IOMODE_FDS = 2"
definition SECURE_IOMODE_SOCKET :: int where "SECURE_IOMODE_SOCKET = 3"
definition SECURE_TLS_HANDSHAKE_TIMEOUT :: int where "SECURE_TLS_HANDSHAKE_TIMEOUT = 30000"

text \<open>
  The functions of OpenSSL. Reading calls get the size of the target and give a code and the bytes that they
  write. \<open>a_ctx_new\<close> is false when no context can be made, \<open>a_random\<close> is the code of \<^verbatim>\<open>SecureRandom\<close>; \<open>a_new\<close> makes a session for a
  server with certificate and key, or for a client, with empty buffers.
\<close>

record 's ssl_api =
  a_ctx_new :: bool
  a_random :: int
  a_new :: "(string \<times> string) option \<Rightarrow> 's option"
  a_write :: "'s \<Rightarrow> byte list \<Rightarrow> int \<times> 's"
  a_read :: "'s \<Rightarrow> nat \<Rightarrow> int \<times> byte list \<times> 's"
  a_do_handshake :: "'s \<Rightarrow> 's"
  a_is_init_finished :: "'s \<Rightarrow> bool"
  a_bio_read :: "'s \<Rightarrow> nat \<Rightarrow> int \<times> byte list \<times> 's"
  a_bio_write :: "'s \<Rightarrow> byte list \<Rightarrow> int \<times> 's"

text \<open>The transport; the callbacks get a timeout.\<close>

record 'w sec_io =
  i_writeCallback :: "'w \<Rightarrow> byte list \<Rightarrow> int \<Rightarrow> int \<times> 'w"
  i_write :: "'w \<Rightarrow> byte list \<Rightarrow> int \<times> 'w"
  i_send :: "'w \<Rightarrow> byte list \<Rightarrow> int \<times> 'w"
  i_readCallback :: "'w \<Rightarrow> nat \<Rightarrow> int \<Rightarrow> int \<times> byte list \<times> 'w"
  i_read :: "'w \<Rightarrow> nat \<Rightarrow> int \<times> byte list \<times> 'w"
  i_recv :: "'w \<Rightarrow> nat \<Rightarrow> int \<times> byte list \<times> 'w"

text \<open>\<open>sc_ssl\<close> is \<^const>\<open>None\<close> for a null pointer, \<open>sc_deleted\<close> counts entries of the destructor.\<close>

record ('s, 'w) SecureConnection =
  sc_ssl :: "'s option"
  sc_ctx :: bool
  sc_intent :: int
  sc_state :: int
  sc_ioMode :: int
  sc_refCount :: int
  sc_deleted :: nat
  sc_world :: 'w

section \<open>Raw input and output\<close>

text \<open>The write callback is called without the timeout.\<close>

definition SecureConnection_writeRaw ::
    "'w sec_io \<Rightarrow> byte list \<Rightarrow> int \<Rightarrow> ('s, 'w) SecureConnection \<Rightarrow> int \<times> ('s, 'w) SecureConnection" where
  "SecureConnection_writeRaw io d timeout c =
     (if sc_ioMode c = SECURE_IOMODE_CALLBACKS then
        (case i_writeCallback io (sc_world c) d (-1) of (n, w) \<Rightarrow> (n, c\<lparr>sc_world := w\<rparr>))
      else if sc_ioMode c = SECURE_IOMODE_FDS then
        (case i_write io (sc_world c) d of (n, w) \<Rightarrow> (n, c\<lparr>sc_world := w\<rparr>))
      else if sc_ioMode c = SECURE_IOMODE_SOCKET then
        (case i_send io (sc_world c) d of (n, w) \<Rightarrow> (n, c\<lparr>sc_world := w\<rparr>))
      else (-1, c))"

definition SecureConnection_readRaw ::
    "'w sec_io \<Rightarrow> nat \<Rightarrow> int \<Rightarrow> ('s, 'w) SecureConnection \<Rightarrow> int \<times> byte list \<times> ('s, 'w) SecureConnection" where
  "SecureConnection_readRaw io len timeout c =
     (if sc_ioMode c = SECURE_IOMODE_CALLBACKS then
        (case i_readCallback io (sc_world c) len timeout of (n, bs, w) \<Rightarrow> (n, bs, c\<lparr>sc_world := w\<rparr>))
      else if sc_ioMode c = SECURE_IOMODE_FDS then
        (case i_read io (sc_world c) len of (n, bs, w) \<Rightarrow> (n, bs, c\<lparr>sc_world := w\<rparr>))
      else if sc_ioMode c = SECURE_IOMODE_SOCKET then
        (case i_recv io (sc_world c) len of (n, bs, w) \<Rightarrow> (n, bs, c\<lparr>sc_world := w\<rparr>))
      else (-1, [], c))"

section \<open>Messages\<close>

text \<open>The codes of \<^verbatim>\<open>SSL_write\<close> and \<^verbatim>\<open>BIO_write\<close> are not looked at. The result is a code and what was written to the target.\<close>

definition SecureConnection_encrypt ::
    "'s ssl_api \<Rightarrow> nat \<Rightarrow> byte list \<Rightarrow> ('s, 'w) SecureConnection \<Rightarrow> (int \<times> byte list \<times> ('s, 'w) SecureConnection) run" where
  "SecureConnection_encrypt api encryptedSize d c = do {
     s \<leftarrow> sc_ssl c;
     let (_, s) = a_write api s d;
     let (readed, bs, s) = a_bio_read api s encryptedSize;
     Some (readed, bs, c\<lparr>sc_ssl := Some s\<rparr>) }"

definition SecureConnection_decrypt ::
    "'s ssl_api \<Rightarrow> nat \<Rightarrow> byte list \<Rightarrow> ('s, 'w) SecureConnection \<Rightarrow> (int \<times> byte list \<times> ('s, 'w) SecureConnection) run" where
  "SecureConnection_decrypt api decryptedSize d c = do {
     s \<leftarrow> sc_ssl c;
     let (_, s) = a_bio_write api s d;
     let (readed, bs, s) = a_read api s decryptedSize;
     Some (readed, bs, c\<lparr>sc_ssl := Some s\<rparr>) }"

text \<open>The local array of 1024 bytes after a call has written \<open>bs\<close>, of which \<open>n\<close> bytes are used.\<close>

definition local_buffer :: "int \<Rightarrow> byte list \<Rightarrow> byte list run" where
  "local_buffer n bs = do { b \<leftarrow> mem_write (replicate 1024 0) 0 bs; mem_read b 0 (nat n) }"

definition SecureConnection_write ::
    "'s ssl_api \<Rightarrow> 'w sec_io \<Rightarrow> byte list \<Rightarrow> int \<Rightarrow> ('s, 'w) SecureConnection \<Rightarrow> (int \<times> ('s, 'w) SecureConnection) run" where
  "SecureConnection_write api io d timeout c = do {
     (encryptedSize, bs, c) \<leftarrow> SecureConnection_encrypt api 1024 d c;
     e \<leftarrow> local_buffer encryptedSize bs;
     Some (if encryptedSize > 0 then SecureConnection_writeRaw io e timeout c else (-1, c)) }"

definition SecureConnection_read ::
    "'s ssl_api \<Rightarrow> 'w sec_io \<Rightarrow> nat \<Rightarrow> int \<Rightarrow> ('s, 'w) SecureConnection \<Rightarrow> (int \<times> byte list \<times> ('s, 'w) SecureConnection) run" where
  "SecureConnection_read api io len timeout c = do {
     let (encryptedSize, bs, c) = SecureConnection_readRaw io 1024 timeout c;
     e \<leftarrow> local_buffer encryptedSize bs;
     if encryptedSize > 0 then SecureConnection_decrypt api len e c else Some (-1, [], c) }"

section \<open>Requests\<close>

text \<open>
  The loop that reads the message byte by byte into \<open>serverMsg\<close>, \<open>n\<close> turns before it is full: whether the end was
  received, and the number of bytes.
\<close>

fun request_msg_loop :: "'s ssl_api \<Rightarrow> 'w sec_io \<Rightarrow> int \<Rightarrow> nat \<Rightarrow> nat \<Rightarrow> byte list \<Rightarrow> ('s, 'w) SecureConnection \<Rightarrow>
      (bool \<times> nat \<times> byte list \<times> ('s, 'w) SecureConnection) run" where
  "request_msg_loop api io timeout n tot msg c =
     (case SecureConnection_read api io 1 timeout c of
        None \<Rightarrow> None
      | Some (r, bs, c) \<Rightarrow>
          (case mem_write msg tot bs of
             None \<Rightarrow> None
           | Some msg \<Rightarrow>
               if r \<noteq> 1 then Some (False, tot, msg, c)
               else (case n of
                       0 \<Rightarrow> Some (False, tot, msg, c)
                     | Suc n \<Rightarrow> if msg ! tot = 0 then Some (True, tot, msg, c)
                                else request_msg_loop api io timeout n (tot + 1) msg c)))"

declare request_msg_loop.simps [simp del]

partial_function (option) request_flush ::
    "'s ssl_api \<Rightarrow> 'w sec_io \<Rightarrow> int \<Rightarrow> byte list \<Rightarrow> ('s, 'w) SecureConnection \<Rightarrow> ('s, 'w) SecureConnection option" where
  "request_flush api io timeout buf c =
     (case SecureConnection_read api io 1 timeout c of
        None \<Rightarrow> None
      | Some (r, bs, c) \<Rightarrow>
          (case mem_write buf 0 bs of
             None \<Rightarrow> None
           | Some buf \<Rightarrow> if r \<le> 0 \<or> buf ! 0 = 0 then Some c else request_flush api io timeout buf c))"

text \<open>
  \<open>fmt\<close> is the formatted text, if any, \<open>codePtr\<close> whether there is a target for the code; \<^verbatim>\<open>vsnprintf\<close> stores at most 1022 characters and a zero but returns the full length. \<open>serverMsg\<close> is
  the target with the size that the caller claims, or \<^const>\<open>None\<close>. The results are the exit code, the server code
  and the target. \<open>request_answer\<close> is the part after the prefix was read.
\<close>

definition request_answer ::
    "'s ssl_api \<Rightarrow> 'w sec_io \<Rightarrow> (byte list \<times> int) option \<Rightarrow> int \<Rightarrow> byte list \<Rightarrow> ('s, 'w) SecureConnection \<Rightarrow>
      (byte list option \<times> ('s, 'w) SecureConnection) run" where
  "request_answer api io serverMsg timeout buf c = do {
     (eof, msg, c) \<leftarrow>
       (case serverMsg of
          None \<Rightarrow> Some (False, None, c)
        | Some (m, sz) \<Rightarrow>
            if sz > 0 then do {
              (eof, tot, m, c) \<leftarrow> request_msg_loop api io timeout (nat sz) 0 m c;
              m \<leftarrow> mem_write m tot [0];
              Some (eof, Some m, c) }
            else Some (False, Some m, c));
     c \<leftarrow> (if eof then Some c else request_flush api io timeout buf c);
     Some (msg, c) }"

definition SecureConnection_request ::
    "'s ssl_api \<Rightarrow> 'w sec_io \<Rightarrow> bool \<Rightarrow> (byte list \<times> int) option \<Rightarrow> int \<Rightarrow> byte list option \<Rightarrow> ('s, 'w) SecureConnection \<Rightarrow>
      (int \<times> int option \<times> byte list option \<times> ('s, 'w) SecureConnection) run" where
  "SecureConnection_request api io codePtr serverMsg timeout fmt c =
     (if \<not> codePtr \<or> fmt = None then Some (-1, None, map_option fst serverMsg, c)
      else do {
     let cmd = the fmt;
     d \<leftarrow> mem_read (request_buffer cmd) 0 (length cmd + 1);
     (written, c) \<leftarrow> SecureConnection_write api io d timeout c;
     if written < 0 then Some (-1, None, map_option fst serverMsg, c) else do {
       (readed, bs, c) \<leftarrow> SecureConnection_read api io 5 timeout c;
       buf \<leftarrow> mem_write (request_buffer cmd) 0 bs;
       if readed \<noteq> 5 then Some (-1, None, map_option fst serverMsg, c) else do {
         let buf = buf[4 := 0];
         serverCode \<leftarrow> atoi (c_str (map (\<lambda>b. char_of (unat b)) (take 5 buf)));
         (msg, c) \<leftarrow> request_answer api io serverMsg timeout buf c;
         Some (0, Some serverCode, msg, c) } } })"

section \<open>Handshake\<close>

text \<open>The client waits for the message OK.\<close>

definition read_ok :: "'s ssl_api \<Rightarrow> ('s, 'w) SecureConnection \<Rightarrow> (bool \<times> ('s, 'w) SecureConnection) run" where
  "read_ok api c =
     (if sc_intent c \<noteq> SECURE_INTENT_CLIENT then Some (True, c)
      else do {
        s \<leftarrow> sc_ssl c;
        let (readed, bs, s) = a_read api s 2;
        Some (readed = 2 \<and> take 2 bs = [79, 75], c\<lparr>sc_ssl := Some s\<rparr>) })"

text \<open>A turn of writing and one of reading; \<open>custom\<close> is the buffer of the caller with its size, if the pointers are set.\<close>

definition hs_write ::
    "'s ssl_api \<Rightarrow> 'w sec_io \<Rightarrow> (byte list \<times> int) option \<Rightarrow> ('s, 'w) SecureConnection \<Rightarrow>
      (bool \<times> (byte list \<times> int) option \<times> ('s, 'w) SecureConnection) run" where
  "hs_write api io custom c = do {
     s \<leftarrow> sc_ssl c;
     let (readed, bs, s) = a_bio_read api (a_do_handshake api s) 1024;
     let c = c\<lparr>sc_ssl := Some s\<rparr>;
     d \<leftarrow> local_buffer readed bs;
     if readed \<le> 0 then Some (False, custom, c) else do {
       (written, custom, c) \<leftarrow>
         (if sc_ioMode c = SECURE_IOMODE_NONE then
            (case custom of
               None \<Rightarrow> None
             | Some (b, n) \<Rightarrow> if n < readed then Some (0, custom, c)
                             else do { b \<leftarrow> mem_write b 0 d; Some (readed, Some (b, readed), c) })
          else case SecureConnection_writeRaw io d SECURE_TLS_HANDSHAKE_TIMEOUT c of (n, c) \<Rightarrow> Some (n, custom, c));
       if written \<le> 0 then Some (False, custom, c)
       else Some (True, custom, c\<lparr>sc_state := (if a_is_init_finished api s then SECURE_STATE_ESTABLISHED
                                               else SECURE_STATE_HANDSHAKE_READ)\<rparr>) } }"

definition hs_read ::
    "'s ssl_api \<Rightarrow> 'w sec_io \<Rightarrow> (byte list \<times> int) option \<Rightarrow> ('s, 'w) SecureConnection \<Rightarrow>
      (bool \<times> ('s, 'w) SecureConnection) run" where
  "hs_read api io custom c = do {
     (readed, d, c) \<leftarrow>
       (if sc_ioMode c = SECURE_IOMODE_NONE then
          (case custom of
             None \<Rightarrow> None
           | Some (b, n) \<Rightarrow> do { d \<leftarrow> mem_read b 0 (size_t n); d \<leftarrow> local_buffer n d; Some (n, d, c) })
        else case SecureConnection_readRaw io 1024 SECURE_TLS_HANDSHAKE_TIMEOUT c of
               (n, bs, c) \<Rightarrow> do { d \<leftarrow> local_buffer n bs; Some (n, d, c) });
     if readed \<le> 0 then Some (False, c) else do {
       s \<leftarrow> sc_ssl c;
       let (written, s) = a_bio_write api s d;
       let c = c\<lparr>sc_ssl := Some s\<rparr>;
       if written \<le> 0 then Some (False, c)
       else if a_is_init_finished api s then read_ok api (c\<lparr>sc_state := SECURE_STATE_ESTABLISHED\<rparr>)
       else Some (True, c\<lparr>sc_ssl := Some (a_do_handshake api s), sc_state := SECURE_STATE_HANDSHAKE_WRITE\<rparr>) } }"

text \<open>The server ends with the message OK.\<close>

definition send_ok_msg ::
    "'s ssl_api \<Rightarrow> 'w sec_io \<Rightarrow> (byte list \<times> int) option \<Rightarrow> ('s, 'w) SecureConnection \<Rightarrow>
      ((byte list \<times> int) option \<times> ('s, 'w) SecureConnection) run" where
  "send_ok_msg api io custom c =
     (if sc_state c = SECURE_STATE_ESTABLISHED \<and> sc_intent c = SECURE_INTENT_SERVER then
        (if sc_ioMode c = SECURE_IOMODE_NONE then
           (case custom of
              None \<Rightarrow> None
            | Some (b, n) \<Rightarrow> do {
                (readed, bs, c) \<leftarrow> SecureConnection_encrypt api (nat n) [79, 75] c;
                b \<leftarrow> mem_write b 0 bs;
                Some (Some (b, readed), c) })
         else do {
           (_, c) \<leftarrow> SecureConnection_write api io [79, 75] SECURE_TLS_HANDSHAKE_TIMEOUT c;
           Some (custom, c) })
      else Some (custom, c))"

definition SecureConnection_handshakeStep ::
    "'s ssl_api \<Rightarrow> 'w sec_io \<Rightarrow> (byte list \<times> int) option \<Rightarrow> ('s, 'w) SecureConnection \<Rightarrow>
      (int \<times> (byte list \<times> int) option \<times> ('s, 'w) SecureConnection) run" where
  "SecureConnection_handshakeStep api io custom c = do {
     s \<leftarrow> sc_ssl c;
     (ok, custom, c) \<leftarrow>
       (if a_is_init_finished api s then do {
          (ok, c) \<leftarrow> read_ok api (c\<lparr>sc_state := SECURE_STATE_ESTABLISHED\<rparr>);
          Some (ok, custom, c) }
        else if sc_state c = SECURE_STATE_HANDSHAKE_WRITE then hs_write api io custom c
        else if sc_state c = SECURE_STATE_HANDSHAKE_READ then do {
          (ok, c) \<leftarrow> hs_read api io custom c;
          Some (ok, custom, c) }
        else Some (True, custom, c));
     if \<not> ok then Some (-1, custom, c) else do {
       (custom, c) \<leftarrow> send_ok_msg api io custom c;
       Some (0, custom, c) } }"

text \<open>The step of a custom connection with separate buffers for input and output.\<close>

definition SecureConnection_handshakeStep_custom ::
    "'s ssl_api \<Rightarrow> 'w sec_io \<Rightarrow> byte list \<times> int \<Rightarrow> byte list \<times> int \<Rightarrow> ('s, 'w) SecureConnection \<Rightarrow>
      (int \<times> (byte list \<times> int) option \<times> ('s, 'w) SecureConnection) run" where
  "SecureConnection_handshakeStep_custom api io outp inp c = do {
     (rc, _, c) \<leftarrow> SecureConnection_handshakeStep api io (Some inp) c;
     if rc \<noteq> 0 then Some (-1, Some outp, c)
     else if sc_state c \<noteq> SECURE_STATE_ESTABLISHED then do {
       (rc, outp, c) \<leftarrow> SecureConnection_handshakeStep api io (Some outp) c;
       Some (if rc \<noteq> 0 then -1 else 0, outp, c) }
     else Some (0, Some outp, c) }"

partial_function (option) handshake_loop ::
    "'s ssl_api \<Rightarrow> 'w sec_io \<Rightarrow> ('s, 'w) SecureConnection \<Rightarrow> (int \<times> ('s, 'w) SecureConnection) option" where
  "handshake_loop api io c =
     (if sc_state c = SECURE_STATE_ESTABLISHED then Some (0, c)
      else case SecureConnection_handshakeStep api io None c of
             None \<Rightarrow> None
           | Some (rc, _, c) \<Rightarrow> if rc \<noteq> 0 then Some (-1, c) else handshake_loop api io c)"

section \<open>Construction\<close>

text \<open>
  \<open>junk\<close> is the memory before: the constructor assigns local variables that have the names of the members for intent,
  state and mode.
\<close>

definition SecureConnection_new :: "('s, 'w) SecureConnection \<Rightarrow> ('s, 'w) SecureConnection" where
  "SecureConnection_new junk = junk\<lparr>sc_ssl := None, sc_ctx := False, sc_refCount := 1, sc_deleted := 0\<rparr>"

text \<open>Certificate and key are the names of files; a passphrase is refused.\<close>

definition SecureConnection_initSSL ::
    "'s ssl_api \<Rightarrow> 'w sec_io \<Rightarrow> int \<Rightarrow> string \<Rightarrow> string \<Rightarrow> string option \<Rightarrow> ('s, 'w) SecureConnection \<Rightarrow>
      (int \<times> ('s, 'w) SecureConnection) run" where
  "SecureConnection_initSSL api io intent cert privKey privKeyPass c =
     (if \<not> a_ctx_new api then Some (-1, c)
      else do {
        let c = c\<lparr>sc_ctx := True\<rparr>;
        if intent = SECURE_INTENT_SERVER \<and> (privKeyPass \<noteq> None \<or> a_random api \<noteq> 0) then Some (-1, c) else do {
          s \<leftarrow> a_new api (if intent = SECURE_INTENT_SERVER then Some (cert, privKey) else None);
          let c = c\<lparr>sc_ssl := Some s, sc_state := (if intent = SECURE_INTENT_SERVER then SECURE_STATE_HANDSHAKE_READ
                                                   else SECURE_STATE_HANDSHAKE_WRITE)\<rparr>;
          if sc_ioMode c \<noteq> SECURE_IOMODE_NONE then handshake_loop api io c else Some (0, c) } })"

definition SecureConnection_addRef :: "('s, 'w) SecureConnection \<Rightarrow> ('s, 'w) SecureConnection run" where
  "SecureConnection_addRef c = do { n \<leftarrow> cint_add (sc_refCount c) 1; Some (c\<lparr>sc_refCount := n\<rparr>) }"

definition SecureConnection_release :: "('s, 'w) SecureConnection \<Rightarrow> ('s, 'w) SecureConnection run" where
  "SecureConnection_release c = do {
     n \<leftarrow> cint_add (sc_refCount c) (-1);
     let c' = c\<lparr>sc_refCount := n\<rparr>;
     Some (if n = 0 then c'\<lparr>sc_ssl := None, sc_ctx := False, sc_deleted := sc_deleted c' + 1\<rparr> else c') }"

definition SecureConnection_getState :: "('s, 'w) SecureConnection \<Rightarrow> int" where
  "SecureConnection_getState c = sc_state c"

text \<open>
  The four ways to create a connection differ in the mode. The result is the pointer, if any, and the object
  behind it, which was destroyed when the pointer is null.
\<close>

definition create_connection ::
    "'s ssl_api \<Rightarrow> 'w sec_io \<Rightarrow> int \<Rightarrow> int \<Rightarrow> string \<Rightarrow> string \<Rightarrow> string option \<Rightarrow> ('s, 'w) SecureConnection \<Rightarrow>
      (bool \<times> ('s, 'w) SecureConnection) run" where
  "create_connection api io ioMode intent cert privKey privKeyPass junk = do {
     let c = (SecureConnection_new junk)\<lparr>sc_intent := intent, sc_ioMode := ioMode\<rparr>;
     (rc, c) \<leftarrow> SecureConnection_initSSL api io intent cert privKey privKeyPass c;
     if rc \<noteq> 0 then do { c \<leftarrow> SecureConnection_release c; Some (False, c) } else Some (True, c) }"

definition SecureConnectionCreate_callbacks where
  "SecureConnectionCreate_callbacks api io = create_connection api io SECURE_IOMODE_CALLBACKS"

definition SecureConnectionCreate_fds where
  "SecureConnectionCreate_fds api io = create_connection api io SECURE_IOMODE_FDS"

definition SecureConnectionCreate_socket where
  "SecureConnectionCreate_socket api io = create_connection api io SECURE_IOMODE_SOCKET"

definition SecureConnectionCreate_custom where
  "SecureConnectionCreate_custom api io = create_connection api io SECURE_IOMODE_NONE"

interpretation secure: ref_counted SecureConnection_addRef SecureConnection_release "\<lambda>c. nat (sc_refCount c)"
  "\<lambda>c. 0 \<le> sc_refCount c \<and> sc_refCount c \<le> int_max \<and> (sc_refCount c = 0 \<longrightarrow> 0 < sc_deleted c)"
proof unfold_locales
  fix c :: "('a, 'b) SecureConnection"
  assume c: "0 \<le> sc_refCount c \<and> sc_refCount c \<le> int_max \<and> (sc_refCount c = 0 \<longrightarrow> 0 < sc_deleted c)" "0 < nat (sc_refCount c)"
  then have "SecureConnection_release c = Some (if sc_refCount c = 1
      then c\<lparr>sc_refCount := 0, sc_ssl := None, sc_ctx := False, sc_deleted := sc_deleted c + 1\<rparr> else c\<lparr>sc_refCount := sc_refCount c - 1\<rparr>)"
    by (auto simp: SecureConnection_release_def cint_add_def Let_def)
  then show "\<exists>c'. SecureConnection_release c = Some c' \<and>
      (0 \<le> sc_refCount c' \<and> sc_refCount c' \<le> int_max \<and> (sc_refCount c' = 0 \<longrightarrow> 0 < sc_deleted c')) \<and> nat (sc_refCount c') = nat (sc_refCount c) - 1"
    using c by auto
qed (auto simp: SecureConnection_addRef_def cint_add_def)

end
