(* ===== verification/Secure_Session.thy ===== *)
theory Secure_Session
  imports Secure_Conn
begin

text \<open>
  What a secure connection needs of OpenSSL and of its transport, and what it gives. A session is described by the record \<open>tls\<close>:
  four flights of a handshake that the two sides send in turn, then sealed records. The locale \<open>dtls_session\<close>
  asks that the functions of OpenSSL follow this description through an abstraction \<open>absn\<close>; \<open>secure_link\<close> extends it by a transport
  that takes every piece whole and delivers every piece with one read, as a datagram socket or a message callback does, and as a stream socket does
  only when nothing is cut or joined on the way. \<open>quiet_link\<close> adds that a read returns when nothing comes.

  The description is idealised: the certificate and key files are valid, a handshake has four flights, none is lost or repeated, and reading or writing before the
  handshake is complete does not go on with it (the code does neither). OpenSSL is not part of the program, so these are hypotheses on it.
\<close>

section \<open>A session\<close>

text \<open>
  The parameters of a session: its flights, sealing and unsealing of the \<open>k\<close>-th record of a side, and what is
  kept of an input that is not complete.
\<close>

record dtls =
  flight :: "nat \<Rightarrow> byte list"
  seal :: "bool \<Rightarrow> nat \<Rightarrow> byte list \<Rightarrow> byte list"
  unseal :: "bool \<Rightarrow> nat \<Rightarrow> byte list \<Rightarrow> (byte list \<times> byte list) option"
  keep :: "byte list \<Rightarrow> byte list"

definition dtls_ok :: "dtls \<Rightarrow> bool" where
  "dtls_ok p \<longleftrightarrow> (\<forall>i<4. flight p i \<noteq> []) \<and> (\<forall>x. length (keep p x) \<le> length x) \<and>
     (\<forall>r k d rest. d \<noteq> [] \<longrightarrow> length d \<le> length (seal p r k d) \<and> unseal p r k (seal p r k d @ rest) = Some (d, rest)) \<and>
     (\<forall>r k. unseal p r k [] = None) \<and>
     (\<forall>r k d n. d \<noteq> [] \<longrightarrow> n < length (seal p r k d) \<longrightarrow> unseal p r k (take n (seal p r k d)) = None)"

record tls =
  t_server :: bool
  t_phase :: nat
  t_in :: "byte list"
  t_out :: "byte list"
  t_plain :: "byte list"
  t_sent :: nat
  t_got :: nat

lemma seal_ne: "dtls_ok p \<Longrightarrow> d \<noteq> [] \<Longrightarrow> seal p r k d \<noteq> []"
proof -
  assume "dtls_ok p" "d \<noteq> []"
  then have "length d \<le> length (seal p r k d)" unfolding dtls_ok_def by blast
  then show "seal p r k d \<noteq> []" using \<open>d \<noteq> []\<close> by auto
qed

lemma sealed_length: "dtls_ok p \<Longrightarrow> length (seal p r k d) \<le> n \<Longrightarrow> length d \<le> n"
proof (cases "d = []")
  assume "dtls_ok p" "length (seal p r k d) \<le> n" "d \<noteq> []"
  moreover have "length d \<le> length (seal p r k d)" using calculation(1,3) unfolding dtls_ok_def by blast
  ultimately show ?thesis by simp
qed simp

definition tls_new :: "bool \<Rightarrow> tls" where
  "tls_new server = \<lparr>t_server = server, t_phase = 0, t_in = [], t_out = [], t_plain = [], t_sent = 0, t_got = 0\<rparr>"

text \<open>The client sends the even flights.\<close>

function tls_handshake :: "dtls \<Rightarrow> tls \<Rightarrow> tls" where
  "tls_handshake p t =
     (if 4 \<le> t_phase t then t
      else if even (t_phase t) \<longleftrightarrow> \<not> t_server t
      then tls_handshake p (t\<lparr>t_out := t_out t @ flight p (t_phase t), t_phase := t_phase t + 1\<rparr>)
      else if take (length (flight p (t_phase t))) (t_in t) = flight p (t_phase t)
      then tls_handshake p (t\<lparr>t_in := drop (length (flight p (t_phase t))) (t_in t), t_phase := t_phase t + 1\<rparr>)
      else t\<lparr>t_in := keep p (t_in t)\<rparr>)"
  by pat_completeness auto
termination
  by (relation "measure (\<lambda>(p, t). 4 - t_phase t)") auto

declare tls_handshake.simps [simp del]

text \<open>SSL_write of a DTLS session seals at most 16384 bytes, and refuses more.\<close>

definition tls_write :: "dtls \<Rightarrow> tls \<Rightarrow> byte list \<Rightarrow> tls" where
  "tls_write p t d = (if t_phase t < 4 \<or> d = [] \<or> 16384 < length d then t
     else t\<lparr>t_out := t_out t @ seal p (t_server t) (t_sent t) d, t_sent := t_sent t + 1\<rparr>)"

definition tls_read :: "dtls \<Rightarrow> tls \<Rightarrow> nat \<Rightarrow> int \<times> byte list \<times> tls" where
  "tls_read p t n =
     (if t_phase t < 4 then (-1, [], t)
      else if t_plain t \<noteq> [] then (int (min n (length (t_plain t))), take n (t_plain t), t\<lparr>t_plain := drop n (t_plain t)\<rparr>)
      else case unseal p (\<not> t_server t) (t_got t) (t_in t) of
             None \<Rightarrow> (-1, [], t\<lparr>t_in := keep p (t_in t)\<rparr>)
           | Some (d, rest) \<Rightarrow> (int (min n (length d)), take n d, t\<lparr>t_in := rest, t_got := t_got t + 1, t_plain := drop n d\<rparr>))"

definition tls_bio_read :: "tls \<Rightarrow> nat \<Rightarrow> int \<times> byte list \<times> tls" where
  "tls_bio_read t n = (if t_out t = [] then (-1, [], t)
     else (int (min n (length (t_out t))), take n (t_out t), t\<lparr>t_out := drop n (t_out t)\<rparr>))"

definition tls_bio_write :: "tls \<Rightarrow> byte list \<Rightarrow> int \<times> tls" where
  "tls_bio_write t d = (int (length d), t\<lparr>t_in := t_in t @ d\<rparr>)"

section \<open>The interface\<close>

definition io_writer :: "'w sec_io \<Rightarrow> int \<Rightarrow> 'w \<Rightarrow> byte list \<Rightarrow> int \<times> 'w" where
  "io_writer io mode w d = (if mode = SECURE_IOMODE_CALLBACKS then i_writeCallback io w d (-1)
     else if mode = SECURE_IOMODE_FDS then i_write io w d else i_send io w d)"

definition io_reader :: "'w sec_io \<Rightarrow> int \<Rightarrow> int \<Rightarrow> 'w \<Rightarrow> nat \<Rightarrow> int \<times> byte list \<times> 'w" where
  "io_reader io mode timeout w n = (if mode = SECURE_IOMODE_CALLBACKS then i_readCallback io w n timeout
     else if mode = SECURE_IOMODE_FDS then i_read io w n else i_recv io w n)"

text \<open>What is seen of a connection of a given intent: its session, its state and the two ends of the transport.\<close>

definition conn_view :: "('s \<Rightarrow> tls) \<Rightarrow> int \<Rightarrow> ('w \<Rightarrow> byte list list) \<Rightarrow> ('w \<Rightarrow> byte list list) \<Rightarrow>
      ('s, 'w) SecureConnection \<Rightarrow> int \<Rightarrow> tls \<Rightarrow> int \<Rightarrow> byte list list \<Rightarrow> byte list list \<Rightarrow> bool" where
  "conn_view absn mode inq outq c i t st q out \<longleftrightarrow> (\<exists>s. sc_ssl c = Some s \<and> absn s = t) \<and> sc_ioMode c = mode \<and> sc_intent c = i \<and>
     sc_state c = st \<and> inq (sc_world c) = q \<and> outq (sc_world c) = out \<and> sc_refCount c = 1 \<and> sc_deleted c = 0"

locale dtls_session =
  fixes api :: "'s ssl_api" and p :: dtls and absn :: "'s \<Rightarrow> tls"
  assumes params: "dtls_ok p"
    and new_law: "\<exists>s. a_new api files = Some s \<and> absn s = tls_new (files \<noteq> None)"
    and write_law: "\<exists>n s'. a_write api s d = (n, s') \<and> absn s' = tls_write p (absn s) d"
    and read_law: "\<exists>s'. a_read api s n = (fst (tls_read p (absn s) n), fst (snd (tls_read p (absn s) n)), s') \<and> absn s' = snd (snd (tls_read p (absn s) n))"
    and handshake_law: "absn (a_do_handshake api s) = tls_handshake p (absn s)"
    and finished_law: "a_is_init_finished api s \<longleftrightarrow> t_phase (absn s) = 4"
    and bio_read_law: "\<exists>s'. a_bio_read api s n = (fst (tls_bio_read (absn s) n), fst (snd (tls_bio_read (absn s) n)), s') \<and> absn s' = snd (snd (tls_bio_read (absn s) n))"
    and bio_write_law: "\<exists>s'. a_bio_write api s d = (fst (tls_bio_write (absn s) d), s') \<and> absn s' = snd (tls_bio_write (absn s) d)"
begin

text \<open>Encryption and decryption as operations of the session.\<close>

lemma encrypt_ssl:
  assumes "sc_ssl c = Some s" "t_phase (absn s) = 4" "d \<noteq> []" "length d \<le> 16384" "x = t_out (absn s) @ seal p (t_server (absn s)) (t_sent (absn s)) d"
  shows "\<exists>s'. SecureConnection_encrypt api n d c = Some (int (min n (length x)), take n x, c\<lparr>sc_ssl := Some s'\<rparr>) \<and>
    absn s' = (absn s)\<lparr>t_out := drop n x, t_sent := t_sent (absn s) + 1\<rparr>"
proof -
  obtain k s1 where s1: "a_write api s d = (k, s1)" "absn s1 = tls_write p (absn s) d" using write_law [of s d] by auto
  obtain s2 where s2: "a_bio_read api s1 n = (fst (tls_bio_read (absn s1) n), fst (snd (tls_bio_read (absn s1) n)), s2)"
      "absn s2 = snd (snd (tls_bio_read (absn s1) n))" using bio_read_law by blast
  have "seal p (t_server (absn s)) (t_sent (absn s)) d \<noteq> []" by (rule seal_ne [OF params assms(3)])
  then show ?thesis using assms s1 s2 by (intro exI [of _ s2]) (simp add: SecureConnection_encrypt_def tls_write_def tls_bio_read_def)
qed

lemma decrypt_ssl:
  assumes "sc_ssl c = Some s" "tls_read p ((absn s)\<lparr>t_in := t_in (absn s) @ d\<rparr>) n = (r, bs, t')"
  shows "\<exists>s'. SecureConnection_decrypt api n d c = Some (r, bs, c\<lparr>sc_ssl := Some s'\<rparr>) \<and> absn s' = t'"
proof -
  obtain k s1 where s1: "a_bio_write api s d = (k, s1)" "absn s1 = (absn s)\<lparr>t_in := t_in (absn s) @ d\<rparr>"
    using bio_write_law [of s d] by (auto simp: tls_bio_write_def)
  obtain s2 where s2: "a_read api s1 n = (fst (tls_read p (absn s1) n), fst (snd (tls_read p (absn s1) n)), s2)"
      "absn s2 = snd (snd (tls_read p (absn s1) n))" using read_law by blast
  show ?thesis using assms s1 s2 by (intro exI [of _ s2]) (simp add: SecureConnection_decrypt_def)
qed

end

locale secure_link = dtls_session api p absn
  for api :: "'s ssl_api" and p :: dtls and absn :: "'s \<Rightarrow> tls" +
  fixes io :: "'w sec_io" and mode :: int and inq :: "'w \<Rightarrow> byte list list" and outq :: "'w \<Rightarrow> byte list list"
  assumes mode_law: "mode \<in> {SECURE_IOMODE_CALLBACKS, SECURE_IOMODE_FDS, SECURE_IOMODE_SOCKET}"
    and out_law: "d \<noteq> [] \<Longrightarrow> \<exists>w'. io_writer io mode w d = (int (length d), w') \<and> outq w' = outq w @ [d] \<and> inq w' = inq w"
    and in_law: "inq w = x # xs \<Longrightarrow> x \<noteq> [] \<Longrightarrow> length x \<le> n \<Longrightarrow>
      \<exists>w'. io_reader io mode timeout w n = (int (length x), x, w') \<and> inq w' = xs \<and> outq w' = outq w"
begin

abbreviation view where "view \<equiv> conn_view absn mode inq outq"

lemmas view_def = conn_view_def [of absn mode inq outq]

lemma mode_cases: "mode \<noteq> SECURE_IOMODE_NONE" "mode = SECURE_IOMODE_CALLBACKS \<or> mode = SECURE_IOMODE_FDS \<or> mode = SECURE_IOMODE_SOCKET"
  using mode_law by (auto simp: SECURE_IOMODE_NONE_def SECURE_IOMODE_CALLBACKS_def SECURE_IOMODE_FDS_def SECURE_IOMODE_SOCKET_def)

lemma raw_io:
  assumes "sc_ioMode c = mode"
  shows "SecureConnection_writeRaw io d timeout c = (case io_writer io mode (sc_world c) d of (n, w) \<Rightarrow> (n, c\<lparr>sc_world := w\<rparr>))"
    "SecureConnection_readRaw io n timeout c = (case io_reader io mode timeout (sc_world c) n of (r, bs, w) \<Rightarrow> (r, bs, c\<lparr>sc_world := w\<rparr>))"
  using assms mode_cases(2)
  by (auto simp: SecureConnection_writeRaw_def SecureConnection_readRaw_def io_writer_def io_reader_def
      SECURE_IOMODE_CALLBACKS_def SECURE_IOMODE_FDS_def SECURE_IOMODE_SOCKET_def)

lemma writeRaw_view:
  assumes "view c i t st q out" "d \<noteq> []"
  shows "\<exists>c'. SecureConnection_writeRaw io d timeout c = (int (length d), c') \<and> view c' i t st q (out @ [d]) \<and> sc_ssl c' = sc_ssl c"
proof -
  obtain w' where "io_writer io mode (sc_world c) d = (int (length d), w')" "outq w' = outq (sc_world c) @ [d]" "inq w' = inq (sc_world c)"
    using out_law [OF assms(2)] by blast
  then show ?thesis using assms(1) raw_io(1) [of c d timeout] by (simp add: view_def)
qed

lemma readRaw_view:
  assumes "view c i t st (x # q) out" "x \<noteq> []" "length x \<le> n"
  shows "\<exists>c'. SecureConnection_readRaw io n timeout c = (int (length x), x, c') \<and> view c' i t st q out"
proof -
  have "inq (sc_world c) = x # q" using assms(1) by (simp add: view_def)
  then obtain w' where "io_reader io mode timeout (sc_world c) n = (int (length x), x, w')" "inq w' = q" "outq w' = outq (sc_world c)"
    using in_law [OF _ assms(2,3)] by blast
  then show ?thesis using assms(1) raw_io(2) [of c n timeout] by (simp add: view_def)
qed

end

lemma local_buffer_all: "int (length bs) = n \<Longrightarrow> length bs \<le> 1024 \<Longrightarrow> local_buffer n bs = Some bs"
  by (auto simp: local_buffer_def mem_write_def mem_read_def)

lemma local_buffer_none: "n \<le> 0 \<Longrightarrow> local_buffer n [] = Some []"
  by (simp add: local_buffer_def mem_write_def mem_read_def)

context secure_link
begin

text \<open>Messages of an established session.\<close>

lemma encrypt_view:
  assumes "view c i t st q out" "t_phase t = 4" "d \<noteq> []" "length d \<le> 16384"
  shows "\<exists>c'. SecureConnection_encrypt api n d c =
      Some (int (min n (length (t_out t @ seal p (t_server t) (t_sent t) d))), take n (t_out t @ seal p (t_server t) (t_sent t) d), c') \<and>
    view c' i (t\<lparr>t_out := drop n (t_out t @ seal p (t_server t) (t_sent t) d), t_sent := t_sent t + 1\<rparr>) st q out"
proof -
  obtain s where s: "sc_ssl c = Some s" "absn s = t" using assms(1) by (auto simp: view_def)
  show ?thesis using encrypt_ssl [OF s(1) _ assms(3,4) refl, of n] s assms(1,2) by (auto simp: view_def)
qed

lemma decrypt_view:
  assumes "view c i t st q out"
  shows "\<exists>c'. SecureConnection_decrypt api n d c = Some (fst (tls_read p (t\<lparr>t_in := t_in t @ d\<rparr>) n), fst (snd (tls_read p (t\<lparr>t_in := t_in t @ d\<rparr>) n)), c') \<and>
    view c' i (snd (snd (tls_read p (t\<lparr>t_in := t_in t @ d\<rparr>) n))) st q out"
proof -
  obtain s where s: "sc_ssl c = Some s" "absn s = t" using assms(1) by (auto simp: view_def)
  obtain r bs t' where "tls_read p (t\<lparr>t_in := t_in t @ d\<rparr>) n = (r, bs, t')" by (cases "tls_read p (t\<lparr>t_in := t_in t @ d\<rparr>) n")
  then show ?thesis using decrypt_ssl [OF s(1), of d n r bs t'] s assms(1) by (auto simp: view_def)
qed

lemma write_view:
  assumes "view c i t st q out" "t_phase t = 4" "d \<noteq> []" "length d \<le> 16384"
  shows "\<exists>c'. SecureConnection_write api io d timeout c = Some (int (min 1024 (length (t_out t @ seal p (t_server t) (t_sent t) d))), c') \<and>
    view c' i (t\<lparr>t_out := drop 1024 (t_out t @ seal p (t_server t) (t_sent t) d), t_sent := t_sent t + 1\<rparr>) st q
      (out @ [take 1024 (t_out t @ seal p (t_server t) (t_sent t) d)])"
proof -
  define e where "e = take 1024 (t_out t @ seal p (t_server t) (t_sent t) d)"
  have "seal p (t_server t) (t_sent t) d \<noteq> []" by (rule seal_ne [OF params assms(3)])
  then have e: "e \<noteq> []" "int (length e) = int (min 1024 (length (t_out t @ seal p (t_server t) (t_sent t) d)))" "length e \<le> 1024"
    by (auto simp: e_def)
  obtain c1 where c1: "SecureConnection_encrypt api 1024 d c = Some (int (length e), e, c1)"
      "view c1 i (t\<lparr>t_out := drop 1024 (t_out t @ seal p (t_server t) (t_sent t) d), t_sent := t_sent t + 1\<rparr>) st q out"
    using encrypt_view [OF assms, of 1024] e(2) by (auto simp: e_def)
  obtain c2 where c2: "SecureConnection_writeRaw io e timeout c1 = (int (length e), c2)"
      "view c2 i (t\<lparr>t_out := drop 1024 (t_out t @ seal p (t_server t) (t_sent t) d), t_sent := t_sent t + 1\<rparr>) st q (out @ [e])"
    using writeRaw_view [OF c1(2) e(1)] by blast
  show ?thesis using c1 c2 e local_buffer_all [OF refl e(3)] by (simp add: SecureConnection_write_def e_def)
qed

lemma read_view:
  assumes "view c i t st (x # q) out" "x \<noteq> []" "length x \<le> 1024"
  shows "\<exists>c'. SecureConnection_read api io n timeout c = Some (fst (tls_read p (t\<lparr>t_in := t_in t @ x\<rparr>) n), fst (snd (tls_read p (t\<lparr>t_in := t_in t @ x\<rparr>) n)), c') \<and>
    view c' i (snd (snd (tls_read p (t\<lparr>t_in := t_in t @ x\<rparr>) n))) st q out"
proof -
  obtain c1 where c1: "SecureConnection_readRaw io 1024 timeout c = (int (length x), x, c1)" "view c1 i t st q out"
    using readRaw_view [OF assms] by blast
  show ?thesis using decrypt_view [OF c1(2), of n x] c1(1) local_buffer_all [OF refl assms(3)] assms(2)
    by (auto simp: SecureConnection_read_def)
qed

text \<open>Turns of the handshake.\<close>

lemma step_write:
  assumes "view c i t SECURE_STATE_HANDSHAKE_WRITE q out" "t_phase t \<noteq> 4" "t' = tls_handshake p t" "t_out t' \<noteq> []" "t_phase t' \<noteq> 4"
  shows "\<exists>c'. SecureConnection_handshakeStep api io None c = Some (0, None, c') \<and>
    view c' i (t'\<lparr>t_out := drop 1024 (t_out t')\<rparr>) SECURE_STATE_HANDSHAKE_READ q (out @ [take 1024 (t_out t')])"
proof -
  obtain s where s: "sc_ssl c = Some s" "absn s = t" using assms(1) by (auto simp: view_def)
  obtain s2 where s2: "a_bio_read api (a_do_handshake api s) 1024 = (int (min 1024 (length (t_out t'))), take 1024 (t_out t'), s2)"
      "absn s2 = t'\<lparr>t_out := drop 1024 (t_out t')\<rparr>"
    using bio_read_law [of "a_do_handshake api s" 1024] assms(3,4) s handshake_law [of s] by (auto simp: tls_bio_read_def)
  define e where "e = take 1024 (t_out t')"
  have e: "e \<noteq> []" "length e \<le> 1024" "int (length e) = int (min 1024 (length (t_out t')))" using assms(4) by (auto simp: e_def)
  define c1 where "c1 = c\<lparr>sc_ssl := Some s2\<rparr>"
  have v1: "view c1 i (t'\<lparr>t_out := drop 1024 (t_out t')\<rparr>) SECURE_STATE_HANDSHAKE_WRITE q out"
    using assms(1) s2(2) by (auto simp: view_def c1_def)
  obtain c2 where c2: "SecureConnection_writeRaw io e SECURE_TLS_HANDSHAKE_TIMEOUT c1 = (int (length e), c2)"
      "view c2 i (t'\<lparr>t_out := drop 1024 (t_out t')\<rparr>) SECURE_STATE_HANDSHAKE_WRITE q (out @ [e])" "sc_ssl c2 = sc_ssl c1"
    using writeRaw_view [OF v1 e(1)] by blast
  have nf: "\<not> a_is_init_finished api s" "\<not> a_is_init_finished api s2" using assms(2,5) s s2 by (simp_all add: finished_law)
  have "hs_write api io None c = Some (True, None, c2\<lparr>sc_state := SECURE_STATE_HANDSHAKE_READ\<rparr>)"
    using s s2(1) c2(1) e nf local_buffer_all [OF refl e(2)] assms(1,4) mode_cases(1)
    by (simp add: hs_write_def c1_def [symmetric] e_def [symmetric] view_def, simp add: c1_def)
  moreover have "send_ok_msg api io None (c2\<lparr>sc_state := SECURE_STATE_HANDSHAKE_READ\<rparr>) = Some (None, c2\<lparr>sc_state := SECURE_STATE_HANDSHAKE_READ\<rparr>)"
    by (simp add: send_ok_msg_def SECURE_STATE_ESTABLISHED_def SECURE_STATE_HANDSHAKE_READ_def)
  moreover have "view (c2\<lparr>sc_state := SECURE_STATE_HANDSHAKE_READ\<rparr>) i (t'\<lparr>t_out := drop 1024 (t_out t')\<rparr>) SECURE_STATE_HANDSHAKE_READ q (out @ [e])"
    using c2(2) by (simp add: view_def)
  ultimately show ?thesis using s nf assms(1)
    by (auto simp: SecureConnection_handshakeStep_def view_def e_def)
qed

lemma step_nothing:
  assumes "view c i t SECURE_STATE_HANDSHAKE_WRITE q out" "t_phase t \<noteq> 4" "t_out (tls_handshake p t) = []"
  shows "\<exists>c'. SecureConnection_handshakeStep api io None c = Some (-1, None, c') \<and>
    view c' i (tls_handshake p t) SECURE_STATE_HANDSHAKE_WRITE q out"
proof -
  obtain s where s: "sc_ssl c = Some s" "absn s = t" using assms(1) by (auto simp: view_def)
  obtain s2 where s2: "a_bio_read api (a_do_handshake api s) 1024 = (-1, [], s2)" "absn s2 = tls_handshake p t"
    using bio_read_law [of "a_do_handshake api s" 1024] assms(3) s handshake_law [of s] by (auto simp: tls_bio_read_def)
  have "\<not> a_is_init_finished api s" using assms(2) s by (simp add: finished_law)
  then show ?thesis using s s2 assms(1)
    by (auto simp: SecureConnection_handshakeStep_def hs_write_def view_def local_buffer_none)
qed

lemma step_read:
  assumes "view c i t SECURE_STATE_HANDSHAKE_READ (x # q) out" "t_phase t \<noteq> 4" "x \<noteq> []" "length x \<le> 1024"
  shows "\<exists>c'. SecureConnection_handshakeStep api io None c = Some (0, None, c') \<and>
    view c' i (tls_handshake p (t\<lparr>t_in := t_in t @ x\<rparr>)) SECURE_STATE_HANDSHAKE_WRITE q out"
proof -
  obtain c1 where c1: "SecureConnection_readRaw io 1024 SECURE_TLS_HANDSHAKE_TIMEOUT c = (int (length x), x, c1)"
      "view c1 i t SECURE_STATE_HANDSHAKE_READ q out"
    using readRaw_view [OF assms(1,3,4)] by blast
  obtain s where s: "sc_ssl c = Some s" "absn s = t" using assms(1) by (auto simp: view_def)
  obtain s1 where s1: "sc_ssl c1 = Some s1" "absn s1 = t" using c1(2) by (auto simp: view_def)
  obtain s2 where s2: "a_bio_write api s1 x = (int (length x), s2)" "absn s2 = t\<lparr>t_in := t_in t @ x\<rparr>"
    using bio_write_law [of s1 x] s1 by (auto simp: tls_bio_write_def)
  define c' where "c' = c1\<lparr>sc_ssl := Some (a_do_handshake api s2), sc_state := SECURE_STATE_HANDSHAKE_WRITE\<rparr>"
  have nf: "\<not> a_is_init_finished api s" "\<not> a_is_init_finished api s2" using assms(2) s s2 by (simp_all add: finished_law)
  have st: "sc_state c = SECURE_STATE_HANDSHAKE_READ" "sc_ioMode c \<noteq> SECURE_IOMODE_NONE" using assms(1) mode_cases(1) by (auto simp: view_def)
  have "hs_read api io None c = Some (True, c')"
    using st c1(1) s1 s2 nf local_buffer_all [OF refl assms(4)] assms(3) by (simp add: hs_read_def c'_def)
  moreover have "view c' i (tls_handshake p (t\<lparr>t_in := t_in t @ x\<rparr>)) SECURE_STATE_HANDSHAKE_WRITE q out"
    using c1(2) s2(2) handshake_law [of s2] by (simp add: view_def c'_def)
  moreover have "send_ok_msg api io None c' = Some (None, c')"
    by (simp add: c'_def send_ok_msg_def SECURE_STATE_ESTABLISHED_def SECURE_STATE_HANDSHAKE_WRITE_def)
  ultimately show ?thesis using s nf st
    by (simp add: SecureConnection_handshakeStep_def SECURE_STATE_HANDSHAKE_READ_def SECURE_STATE_HANDSHAKE_WRITE_def)
qed

lemma step_server_end:
  assumes "view c SECURE_INTENT_SERVER t st q out" "t_phase t = 4"
  shows "\<exists>c'. SecureConnection_handshakeStep api io None c = Some (0, None, c') \<and>
    view c' SECURE_INTENT_SERVER (t\<lparr>t_out := drop 1024 (t_out t @ seal p (t_server t) (t_sent t) [79, 75]), t_sent := t_sent t + 1\<rparr>)
      SECURE_STATE_ESTABLISHED q (out @ [take 1024 (t_out t @ seal p (t_server t) (t_sent t) [79, 75])])"
proof -
  obtain s where s: "sc_ssl c = Some s" "absn s = t" using assms(1) by (auto simp: view_def)
  then have f: "a_is_init_finished api s" using assms(2) by (simp add: finished_law)
  define c1 where "c1 = c\<lparr>sc_state := SECURE_STATE_ESTABLISHED\<rparr>"
  have v1: "view c1 SECURE_INTENT_SERVER t SECURE_STATE_ESTABLISHED q out" using assms(1) by (simp add: view_def c1_def)
  have ro: "read_ok api c1 = Some (True, c1)"
    using v1 by (simp add: read_ok_def view_def SECURE_INTENT_CLIENT_def SECURE_INTENT_SERVER_def)
  have mo: "sc_state c1 = SECURE_STATE_ESTABLISHED" "sc_intent c1 = SECURE_INTENT_SERVER" "sc_ioMode c1 \<noteq> SECURE_IOMODE_NONE"
    using v1 mode_cases(1) by (auto simp: view_def)
  have ok: "[79, 75 :: byte] \<noteq> []" "length [79, 75 :: byte] \<le> 16384" by simp_all
  obtain n c2 where c2: "SecureConnection_write api io [79, 75] SECURE_TLS_HANDSHAKE_TIMEOUT c1 = Some (n, c2)"
    "view c2 SECURE_INTENT_SERVER (t\<lparr>t_out := drop 1024 (t_out t @ seal p (t_server t) (t_sent t) [79, 75]), t_sent := t_sent t + 1\<rparr>)
      SECURE_STATE_ESTABLISHED q (out @ [take 1024 (t_out t @ seal p (t_server t) (t_sent t) [79, 75])])"
    using write_view [OF v1 assms(2) ok] by blast
  show ?thesis using s f ro mo c2 by (simp add: SecureConnection_handshakeStep_def c1_def [symmetric] send_ok_msg_def)
qed

lemma step_client_end:
  assumes "view c SECURE_INTENT_CLIENT t st q out" "t_phase t = 4" "tls_read p t 2 = (r, bs, t')"
  shows "\<exists>c'. SecureConnection_handshakeStep api io None c = Some (if r = 2 \<and> bs = [79, 75] then 0 else -1, None, c') \<and>
    view c' SECURE_INTENT_CLIENT t' SECURE_STATE_ESTABLISHED q out"
proof -
  obtain s where s: "sc_ssl c = Some s" "absn s = t" using assms(1) by (auto simp: view_def)
  then have f: "a_is_init_finished api s" using assms(2) by (simp add: finished_law)
  obtain s2 where s2: "a_read api s 2 = (r, bs, s2)" "absn s2 = t'" using read_law [of s 2] s assms(3) by auto
  have bs: "take 2 bs = bs" using assms(3) by (auto simp: tls_read_def split: if_splits option.splits)
  have i: "sc_intent c = SECURE_INTENT_CLIENT" "SECURE_INTENT_CLIENT \<noteq> SECURE_INTENT_SERVER"
    using assms(1) by (simp_all add: view_def SECURE_INTENT_CLIENT_def SECURE_INTENT_SERVER_def)
  show ?thesis using s f s2 bs i assms(1)
    by (auto simp: SecureConnection_handshakeStep_def read_ok_def send_ok_msg_def view_def)
qed

text \<open>The loop over such turns.\<close>

lemma loop_step:
  assumes "SecureConnection_handshakeStep api io None c = Some (0, None, c')" "sc_state c \<noteq> SECURE_STATE_ESTABLISHED"
  shows "handshake_loop api io c = handshake_loop api io c'"
  using assms by (subst handshake_loop.simps) simp

lemma loop_fail:
  assumes "SecureConnection_handshakeStep api io None c = Some (-1, None, c')" "sc_state c \<noteq> SECURE_STATE_ESTABLISHED"
  shows "handshake_loop api io c = Some (-1, c')"
  using assms by (subst handshake_loop.simps) simp

lemma loop_done: "sc_state c = SECURE_STATE_ESTABLISHED \<Longrightarrow> handshake_loop api io c = Some (0, c)"
  by (subst handshake_loop.simps) simp

lemma view_not_done:
  "view c i t SECURE_STATE_HANDSHAKE_WRITE q out \<Longrightarrow> sc_state c \<noteq> SECURE_STATE_ESTABLISHED"
  "view c i t SECURE_STATE_HANDSHAKE_READ q out \<Longrightarrow> sc_state c \<noteq> SECURE_STATE_ESTABLISHED"
  by (auto simp: view_def SECURE_STATE_HANDSHAKE_WRITE_def SECURE_STATE_HANDSHAKE_READ_def SECURE_STATE_ESTABLISHED_def)

end

section \<open>Handshakes\<close>

text \<open>Every flight fits into a buffer, the last one together with the message OK.\<close>

definition hs_fits :: "dtls \<Rightarrow> bool" where
  "hs_fits p \<longleftrightarrow> (\<forall>i<3. length (flight p i) \<le> 1024) \<and> length (flight p 3 @ seal p True 0 [79, 75]) \<le> 1024"

definition client_up :: tls where
  "client_up = (tls_new False)\<lparr>t_phase := 4, t_got := 1\<rparr>"

definition server_up :: tls where
  "server_up = (tls_new True)\<lparr>t_phase := 4, t_sent := 1\<rparr>"

lemma keep_Nil: "dtls_ok p \<Longrightarrow> keep p [] = []"
proof -
  assume "dtls_ok p"
  then have "length (keep p []) \<le> length ([] :: byte list)" unfolding dtls_ok_def by blast
  then show "keep p [] = []" by simp
qed

lemma flight_ne: "dtls_ok p \<Longrightarrow> i < 4 \<Longrightarrow> flight p i \<noteq> []"
  by (simp add: dtls_ok_def)

text \<open>The sessions along the handshake.\<close>

lemma tls_client:
  assumes "dtls_ok p"
  shows "tls_handshake p (tls_new False) = (tls_new False)\<lparr>t_out := flight p 0, t_phase := 1\<rparr>"
    "tls_handshake p ((tls_new False)\<lparr>t_phase := 1, t_in := flight p 1\<rparr>) = (tls_new False)\<lparr>t_out := flight p 2, t_phase := 3\<rparr>"
    "tls_handshake p ((tls_new False)\<lparr>t_out := flight p 2, t_phase := 3\<rparr>) = (tls_new False)\<lparr>t_out := flight p 2, t_phase := 3\<rparr>"
    "tls_handshake p ((tls_new False)\<lparr>t_phase := 3, t_in := flight p 3 @ x\<rparr>) = (tls_new False)\<lparr>t_phase := 4, t_in := x\<rparr>"
  using keep_Nil [OF assms] flight_ne [OF assms, of 1] flight_ne [OF assms, of 3]
  by (simp_all add: tls_handshake.simps tls_new_def flip: numeral_2_eq_2)

lemma tls_server:
  assumes "dtls_ok p"
  shows "tls_handshake p ((tls_new True)\<lparr>t_in := flight p 0\<rparr>) = (tls_new True)\<lparr>t_out := flight p 1, t_phase := 2\<rparr>"
    "tls_handshake p ((tls_new True)\<lparr>t_out := flight p 1, t_phase := 2\<rparr>) = (tls_new True)\<lparr>t_out := flight p 1, t_phase := 2\<rparr>"
    "tls_handshake p ((tls_new True)\<lparr>t_phase := 2, t_in := flight p 2\<rparr>) = (tls_new True)\<lparr>t_out := flight p 3, t_phase := 4\<rparr>"
  using keep_Nil [OF assms] flight_ne [OF assms, of 2]
  by (simp_all add: tls_handshake.simps tls_new_def flip: numeral_2_eq_2)

lemma tls_client_stuck:
  assumes "dtls_ok p" "length x < length (flight p 1)"
  shows "tls_handshake p ((tls_new False)\<lparr>t_phase := 1, t_in := x\<rparr>) = (tls_new False)\<lparr>t_phase := 1, t_in := keep p x\<rparr>"
proof -
  have "take (length (flight p 1)) x \<noteq> flight p 1" using assms(2) by auto
  then show ?thesis by (simp add: tls_handshake.simps tls_new_def)
qed

context secure_link
begin

lemma client_handshake:
  assumes "hs_fits p" "view c SECURE_INTENT_CLIENT (tls_new False) SECURE_STATE_HANDSHAKE_WRITE [flight p 1, flight p 3 @ seal p True 0 [79, 75]] []"
  shows "\<exists>c'. handshake_loop api io c = Some (0, c') \<and>
    view c' SECURE_INTENT_CLIENT client_up SECURE_STATE_ESTABLISHED [] [flight p 0, flight p 2]"
proof -
  note tc = tls_client [OF params]
  let ?t = "tls_new False" and ?x = "flight p 3 @ seal p True 0 [79, 75]"
  have f: "flight p 0 \<noteq> []" "flight p 1 \<noteq> []" "flight p 2 \<noteq> []" "?x \<noteq> []" using flight_ne [OF params] by simp_all
  have l: "length (flight p 0) \<le> 1024" "length (flight p 1) \<le> 1024" "length (flight p 2) \<le> 1024" "length ?x \<le> 1024"
    using assms(1) by (simp_all add: hs_fits_def)
  obtain c1 where c1: "SecureConnection_handshakeStep api io None c = Some (0, None, c1)"
      "view c1 SECURE_INTENT_CLIENT (?t\<lparr>t_phase := 1\<rparr>) SECURE_STATE_HANDSHAKE_READ [flight p 1, ?x] [flight p 0]"
    using step_write [OF assms(2) _ refl] f l unfolding tc by (auto simp: tls_new_def)
  obtain c2 where c2: "SecureConnection_handshakeStep api io None c1 = Some (0, None, c2)"
      "view c2 SECURE_INTENT_CLIENT (?t\<lparr>t_out := flight p 2, t_phase := 3\<rparr>) SECURE_STATE_HANDSHAKE_WRITE [?x] [flight p 0]"
    using step_read [OF c1(2) _ f(2) l(2)] tc(2) by (auto simp: tls_new_def)
  obtain c3 where c3: "SecureConnection_handshakeStep api io None c2 = Some (0, None, c3)"
      "view c3 SECURE_INTENT_CLIENT (?t\<lparr>t_phase := 3\<rparr>) SECURE_STATE_HANDSHAKE_READ [?x] [flight p 0, flight p 2]"
    using step_write [OF c2(2) _ refl] f l unfolding tc by (auto simp: tls_new_def)
  obtain c4 where c4: "SecureConnection_handshakeStep api io None c3 = Some (0, None, c4)"
      "view c4 SECURE_INTENT_CLIENT (?t\<lparr>t_phase := 4, t_in := seal p True 0 [79, 75]\<rparr>) SECURE_STATE_HANDSHAKE_WRITE [] [flight p 0, flight p 2]"
    using step_read [OF c3(2) _ f(4) l(4)] tc(4) [of "seal p True 0 [79, 75]"] by (auto simp: tls_new_def)
  have "unseal p True 0 (seal p True 0 [79, 75] @ []) = Some ([79, 75], [])" using params unfolding dtls_ok_def by blast
  then have r: "tls_read p (?t\<lparr>t_phase := 4, t_in := seal p True 0 [79, 75]\<rparr>) 2 = (2, [79, 75], client_up)"
    by (simp add: tls_read_def tls_new_def client_up_def)
  obtain c5 where c5: "SecureConnection_handshakeStep api io None c4 = Some (0, None, c5)"
      "view c5 SECURE_INTENT_CLIENT client_up SECURE_STATE_ESTABLISHED [] [flight p 0, flight p 2]"
    using step_client_end [OF c4(2) _ r] by auto
  have "sc_state c5 = SECURE_STATE_ESTABLISHED" using c5(2) by (simp add: view_def)
  then have "handshake_loop api io c = Some (0, c5)"
    using loop_step [OF c1(1)] loop_step [OF c2(1)] loop_step [OF c3(1)] loop_step [OF c4(1)] loop_step [OF c5(1)] loop_done
      view_not_done(1) [OF assms(2)] view_not_done(2) [OF c1(2)] view_not_done(1) [OF c2(2)] view_not_done(2) [OF c3(2)] view_not_done(1) [OF c4(2)]
    by simp
  then show ?thesis using c5(2) by blast
qed

lemma server_handshake:
  assumes "hs_fits p" "view c SECURE_INTENT_SERVER (tls_new True) SECURE_STATE_HANDSHAKE_READ [flight p 0, flight p 2] []"
  shows "\<exists>c'. handshake_loop api io c = Some (0, c') \<and>
    view c' SECURE_INTENT_SERVER server_up SECURE_STATE_ESTABLISHED [] [flight p 1, flight p 3 @ seal p True 0 [79, 75]]"
proof -
  note ts = tls_server [OF params]
  let ?t = "tls_new True" and ?x = "flight p 3 @ seal p True 0 [79, 75]"
  have f: "flight p 0 \<noteq> []" "flight p 1 \<noteq> []" "flight p 2 \<noteq> []" using flight_ne [OF params] by simp_all
  have l: "length (flight p 0) \<le> 1024" "length (flight p 1) \<le> 1024" "length (flight p 2) \<le> 1024" "length ?x \<le> 1024"
    using assms(1) by (simp_all add: hs_fits_def)
  obtain c1 where c1: "SecureConnection_handshakeStep api io None c = Some (0, None, c1)"
      "view c1 SECURE_INTENT_SERVER (?t\<lparr>t_out := flight p 1, t_phase := 2\<rparr>) SECURE_STATE_HANDSHAKE_WRITE [flight p 2] []"
    using step_read [OF assms(2) _ f(1) l(1)] ts(1) by (auto simp: tls_new_def)
  obtain c2 where c2: "SecureConnection_handshakeStep api io None c1 = Some (0, None, c2)"
      "view c2 SECURE_INTENT_SERVER (?t\<lparr>t_phase := 2\<rparr>) SECURE_STATE_HANDSHAKE_READ [flight p 2] [flight p 1]"
    using step_write [OF c1(2) _ refl] f l unfolding ts by (auto simp: tls_new_def)
  obtain c3 where c3: "SecureConnection_handshakeStep api io None c2 = Some (0, None, c3)"
      "view c3 SECURE_INTENT_SERVER (?t\<lparr>t_out := flight p 3, t_phase := 4\<rparr>) SECURE_STATE_HANDSHAKE_WRITE [] [flight p 1]"
    using step_read [OF c2(2) _ f(3) l(3)] ts(3) by (auto simp: tls_new_def)
  obtain c4 where c4: "SecureConnection_handshakeStep api io None c3 = Some (0, None, c4)"
      "view c4 SECURE_INTENT_SERVER server_up SECURE_STATE_ESTABLISHED [] [flight p 1, ?x]"
    using step_server_end [OF c3(2)] l(4) by (auto simp: tls_new_def server_up_def)
  have "sc_state c4 = SECURE_STATE_ESTABLISHED" using c4(2) by (simp add: view_def)
  then have "handshake_loop api io c = Some (0, c4)"
    using loop_step [OF c1(1)] loop_step [OF c2(1)] loop_step [OF c3(1)] loop_step [OF c4(1)] loop_done
      view_not_done(2) [OF assms(2)] view_not_done(1) [OF c1(2)] view_not_done(2) [OF c2(2)] view_not_done(1) [OF c3(2)]
    by simp
  then show ?thesis using c4(2) by blast
qed

text \<open>A first flight of the server that arrives cut.\<close>

lemma client_stuck:
  assumes "length (flight p 0) \<le> 1024" "1024 < length (flight p 1)"
    "view c SECURE_INTENT_CLIENT (tls_new False) SECURE_STATE_HANDSHAKE_WRITE (take 1024 (flight p 1) # q) []"
  shows "\<exists>c' t st. handshake_loop api io c = Some (-1, c') \<and> view c' SECURE_INTENT_CLIENT t st q [flight p 0]"
proof -
  note tc = tls_client [OF params]
  let ?t = "tls_new False" and ?x = "take 1024 (flight p 1)"
  have f: "flight p 0 \<noteq> []" "?x \<noteq> []" "length ?x \<le> 1024" using flight_ne [OF params] by simp_all
  have lt: "length ?x < length (flight p 1)" "length (keep p ?x) < length (flight p 1)"
  proof -
    have "length (keep p y) \<le> length y" for y using params unfolding dtls_ok_def by blast
    from this [of ?x] show "length (keep p ?x) < length (flight p 1)" using assms(2) by simp
    show "length ?x < length (flight p 1)" using assms(2) by simp
  qed
  obtain c1 where c1: "SecureConnection_handshakeStep api io None c = Some (0, None, c1)"
      "view c1 SECURE_INTENT_CLIENT (?t\<lparr>t_phase := 1\<rparr>) SECURE_STATE_HANDSHAKE_READ (?x # q) [flight p 0]"
    using step_write [OF assms(3) _ refl] f assms(1) unfolding tc by (auto simp: tls_new_def)
  obtain c2 where c2: "SecureConnection_handshakeStep api io None c1 = Some (0, None, c2)"
      "view c2 SECURE_INTENT_CLIENT (?t\<lparr>t_phase := 1, t_in := keep p ?x\<rparr>) SECURE_STATE_HANDSHAKE_WRITE q [flight p 0]"
    using step_read [OF c1(2) _ f(2,3)] tls_client_stuck [OF params lt(1)] by (auto simp: tls_new_def)
  obtain c3 t where c3: "SecureConnection_handshakeStep api io None c2 = Some (-1, None, c3)"
      "view c3 SECURE_INTENT_CLIENT t SECURE_STATE_HANDSHAKE_WRITE q [flight p 0]"
    using step_nothing [OF c2(2)] unfolding tls_client_stuck [OF params lt(2)] by (auto simp: tls_new_def)
  have "handshake_loop api io c = Some (-1, c3)"
    using loop_step [OF c1(1)] loop_step [OF c2(1)] loop_fail [OF c3(1)]
      view_not_done(1) [OF assms(3)] view_not_done(2) [OF c1(2)] view_not_done(1) [OF c2(2)]
    by simp
  then show ?thesis using c3(2) by blast
qed

text \<open>Creating a connection runs the handshake.\<close>

lemma init_view:
  assumes "a_ctx_new api" "a_random api = 0" "inq (sc_world junk) = q" "outq (sc_world junk) = out" "i \<in> {SECURE_INTENT_SERVER, SECURE_INTENT_CLIENT}"
  shows "\<exists>c. SecureConnection_initSSL api io i cert privKey None ((SecureConnection_new junk)\<lparr>sc_intent := i, sc_ioMode := mode\<rparr>) = handshake_loop api io c \<and>
    view c i (tls_new (i = SECURE_INTENT_SERVER)) (if i = SECURE_INTENT_SERVER then SECURE_STATE_HANDSHAKE_READ else SECURE_STATE_HANDSHAKE_WRITE) q out"
proof -
  obtain s where s: "a_new api (if i = SECURE_INTENT_SERVER then Some (cert, privKey) else None) = Some s" "absn s = tls_new (i = SECURE_INTENT_SERVER)"
    using new_law [of "if i = SECURE_INTENT_SERVER then Some (cert, privKey) else None"] by auto
  define c where "c = (SecureConnection_new junk)\<lparr>sc_intent := i, sc_ioMode := mode, sc_ctx := True, sc_ssl := Some s,
      sc_state := (if i = SECURE_INTENT_SERVER then SECURE_STATE_HANDSHAKE_READ else SECURE_STATE_HANDSHAKE_WRITE)\<rparr>"
  have "SecureConnection_initSSL api io i cert privKey None ((SecureConnection_new junk)\<lparr>sc_intent := i, sc_ioMode := mode\<rparr>) = handshake_loop api io c"
    using s assms(1,2) mode_cases(1) by (simp add: SecureConnection_initSSL_def SecureConnection_new_def c_def)
  moreover have "view c i (tls_new (i = SECURE_INTENT_SERVER)) (if i = SECURE_INTENT_SERVER then SECURE_STATE_HANDSHAKE_READ else SECURE_STATE_HANDSHAKE_WRITE) q out"
    using s assms by (simp add: view_def c_def SecureConnection_new_def)
  ultimately show ?thesis by blast
qed

end

section \<open>A transport that reports that nothing comes\<close>

text \<open>
  When nothing is left, such a transport makes a read return with 0 or an error (the peer has closed, a time limit has passed, the descriptor does
  not block) instead of waiting for ever. Only what is said of a side that waits in vain needs it.
\<close>

locale quiet_link = secure_link api p absn io mode inq outq
  for api :: "'s ssl_api" and p :: dtls and absn :: "'s \<Rightarrow> tls" and io :: "'w sec_io" and mode :: int
    and inq :: "'w \<Rightarrow> byte list list" and outq :: "'w \<Rightarrow> byte list list" +
  assumes silent_law: "inq w = [] \<Longrightarrow> \<exists>r w'. io_reader io mode timeout w n = (r, [], w') \<and> r \<le> 0 \<and> inq w' = [] \<and> outq w' = outq w"
begin

lemma readRaw_silent:
  assumes "view c i t st [] out"
  shows "\<exists>r c'. SecureConnection_readRaw io n timeout c = (r, [], c') \<and> r \<le> 0 \<and> view c' i t st [] out"
proof -
  have "inq (sc_world c) = []" using assms by (simp add: view_def)
  then obtain r w' where "io_reader io mode timeout (sc_world c) n = (r, [], w')" "r \<le> 0" "inq w' = []" "outq w' = outq (sc_world c)"
    using silent_law by blast
  then show ?thesis using assms raw_io(2) [of c n timeout] by (simp add: view_def)
qed

lemma read_silent:
  assumes "view c i t st [] out"
  shows "\<exists>c'. SecureConnection_read api io n timeout c = Some (-1, [], c') \<and> view c' i t st [] out"
proof -
  obtain r c1 where "SecureConnection_readRaw io 1024 timeout c = (r, [], c1)" "r \<le> 0" "view c1 i t st [] out"
    using readRaw_silent [OF assms] by blast
  then show ?thesis by (simp add: SecureConnection_read_def local_buffer_none)
qed

lemma step_read_silent:
  assumes "view c i t SECURE_STATE_HANDSHAKE_READ [] out" "t_phase t \<noteq> 4"
  shows "\<exists>c'. SecureConnection_handshakeStep api io None c = Some (-1, None, c') \<and> view c' i t SECURE_STATE_HANDSHAKE_READ [] out"
proof -
  obtain r c1 where c1: "SecureConnection_readRaw io 1024 SECURE_TLS_HANDSHAKE_TIMEOUT c = (r, [], c1)" "r \<le> 0"
      "view c1 i t SECURE_STATE_HANDSHAKE_READ [] out"
    using readRaw_silent [OF assms(1)] by blast
  obtain s where s: "sc_ssl c = Some s" "absn s = t" using assms(1) by (auto simp: view_def)
  then have nf: "\<not> a_is_init_finished api s" using assms(2) by (simp add: finished_law)
  have st: "sc_state c = SECURE_STATE_HANDSHAKE_READ" "sc_ioMode c \<noteq> SECURE_IOMODE_NONE" using assms(1) mode_cases(1) by (auto simp: view_def)
  have "hs_read api io None c = Some (False, c1)" using st c1(1,2) by (simp add: hs_read_def local_buffer_none)
  then show ?thesis using s nf st c1(3)
    by (simp add: SecureConnection_handshakeStep_def SECURE_STATE_HANDSHAKE_READ_def SECURE_STATE_HANDSHAKE_WRITE_def)
qed

text \<open>A server whose first flight is cut waits for an answer in vain.\<close>

lemma server_stuck:
  assumes "length (flight p 0) \<le> 1024" "view c SECURE_INTENT_SERVER (tls_new True) SECURE_STATE_HANDSHAKE_READ [flight p 0] []"
  shows "\<exists>c' t st. handshake_loop api io c = Some (-1, c') \<and> view c' SECURE_INTENT_SERVER t st [] [take 1024 (flight p 1)]"
proof -
  note ts = tls_server [OF params]
  let ?t = "tls_new True"
  have f: "flight p 0 \<noteq> []" "flight p 1 \<noteq> []" using flight_ne [OF params] by simp_all
  obtain c1 where c1: "SecureConnection_handshakeStep api io None c = Some (0, None, c1)"
      "view c1 SECURE_INTENT_SERVER (?t\<lparr>t_out := flight p 1, t_phase := 2\<rparr>) SECURE_STATE_HANDSHAKE_WRITE [] []"
    using step_read [OF assms(2) _ f(1) assms(1)] ts(1) by (auto simp: tls_new_def)
  obtain c2 where c2: "SecureConnection_handshakeStep api io None c1 = Some (0, None, c2)"
      "view c2 SECURE_INTENT_SERVER (?t\<lparr>t_phase := 2, t_out := drop 1024 (flight p 1)\<rparr>) SECURE_STATE_HANDSHAKE_READ [] [take 1024 (flight p 1)]"
    using step_write [OF c1(2) _ refl] f unfolding ts by (auto simp: tls_new_def)
  obtain c3 where c3: "SecureConnection_handshakeStep api io None c2 = Some (-1, None, c3)"
      "view c3 SECURE_INTENT_SERVER (?t\<lparr>t_phase := 2, t_out := drop 1024 (flight p 1)\<rparr>) SECURE_STATE_HANDSHAKE_READ [] [take 1024 (flight p 1)]"
    using step_read_silent [OF c2(2)] by (auto simp: tls_new_def)
  have "handshake_loop api io c = Some (-1, c3)"
    using loop_step [OF c1(1)] loop_step [OF c2(1)] loop_fail [OF c3(1)]
      view_not_done(2) [OF assms(2)] view_not_done(1) [OF c1(2)] view_not_done(2) [OF c2(2)]
    by simp
  then show ?thesis using c3(2) by blast
qed

end

end
