(* ===== verification/Secure_Props.thy ===== *)
theory Secure_Props
  imports Secure_Session
begin

text \<open>
  The properties of secure connections: handshakes, messages, requests, and the limits of the local buffers of 1024 bytes.
\<close>

section \<open>Messages\<close>

fun records :: "dtls \<Rightarrow> bool \<Rightarrow> nat \<Rightarrow> byte list list \<Rightarrow> byte list list" where
  "records p r k [] = []"
| "records p r k (d # ds) = seal p r k d # records p r (k + 1) ds"

text \<open>A sequence of calls of \<^verbatim>\<open>write\<close> and of \<^verbatim>\<open>read\<close>, with their results.\<close>

fun write_all :: "'s ssl_api \<Rightarrow> 'w sec_io \<Rightarrow> int \<Rightarrow> byte list list \<Rightarrow> ('s, 'w) SecureConnection \<Rightarrow> (int list \<times> ('s, 'w) SecureConnection) run" where
  "write_all api io timeout [] c = Some ([], c)"
| "write_all api io timeout (d # ds) c = do {
     (n, c) \<leftarrow> SecureConnection_write api io d timeout c;
     (ns, c) \<leftarrow> write_all api io timeout ds c;
     Some (n # ns, c) }"

fun read_all :: "'s ssl_api \<Rightarrow> 'w sec_io \<Rightarrow> nat \<Rightarrow> int \<Rightarrow> nat \<Rightarrow> ('s, 'w) SecureConnection \<Rightarrow>
      ((int \<times> byte list) list \<times> ('s, 'w) SecureConnection) run" where
  "read_all api io len timeout 0 c = Some ([], c)"
| "read_all api io len timeout (Suc k) c = do {
     (n, bs, c) \<leftarrow> SecureConnection_read api io len timeout c;
     (rs, c) \<leftarrow> read_all api io len timeout k c;
     Some ((n, bs) # rs, c) }"

definition messages_ok :: "dtls \<Rightarrow> bool \<Rightarrow> nat \<Rightarrow> byte list list \<Rightarrow> bool" where
  "messages_ok p r k ds \<longleftrightarrow> [] \<notin> set ds \<and> (\<forall>x\<in>set (records p r k ds). length x \<le> 1024)"

lemma messages_ok_Cons [simp]:
  "messages_ok p r k (d # ds) \<longleftrightarrow> d \<noteq> [] \<and> length (seal p r k d) \<le> 1024 \<and> messages_ok p r (k + 1) ds"
  by (auto simp: messages_ok_def)

lemma seal_open:
  assumes "dtls_ok p" "d \<noteq> []"
  shows "seal p r k d \<noteq> []" "unseal p r k (seal p r k d @ rest) = Some (d, rest)" "unseal p r k (seal p r k d) = Some (d, [])"
proof -
  show "seal p r k d \<noteq> []" by (rule seal_ne [OF assms])
  show *: "unseal p r k (seal p r k d @ rest) = Some (d, rest)" for rest using assms unfolding dtls_ok_def by blast
  show "unseal p r k (seal p r k d) = Some (d, [])" using * [of "[]"] by simp
qed

lemma tls_same [simp]:
  "t_out t = [] \<Longrightarrow> t\<lparr>t_out := [], t_sent := k\<rparr> = t\<lparr>t_sent := k\<rparr>"
  "t_plain t = [] \<Longrightarrow> t\<lparr>t_got := k, t_plain := []\<rparr> = t\<lparr>t_got := k\<rparr>"
  by simp_all

context secure_link
begin

lemma write_all_view:
  assumes "view c i t st q out" "t_phase t = 4" "t_out t = []" "messages_ok p (t_server t) (t_sent t) ds"
  shows "\<exists>c'. write_all api io timeout ds c = Some (map (\<lambda>x. int (length x)) (records p (t_server t) (t_sent t) ds), c') \<and>
    view c' i (t\<lparr>t_sent := t_sent t + length ds\<rparr>) st q (out @ records p (t_server t) (t_sent t) ds)"
  using assms
proof (induction ds arbitrary: c t out)
  case Nil
  then show ?case by simp
next
  case (Cons d ds)
  let ?x = "seal p (t_server t) (t_sent t) d"
  obtain c1 where c1: "SecureConnection_write api io d timeout c = Some (int (length ?x), c1)"
      "view c1 i (t\<lparr>t_sent := t_sent t + 1\<rparr>) st q (out @ [?x])"
    using write_view [OF Cons.prems(1,2), of d timeout] sealed_length [OF params, of "t_server t" "t_sent t" d 1024] Cons.prems(3,4) by auto
  show ?case using Cons.IH [OF c1(2)] c1(1) Cons.prems by auto
qed

lemma read_one:
  assumes "view c i t st (seal p (\<not> t_server t) (t_got t) d # q) out" "t_phase t = 4" "t_in t = []" "t_plain t = []"
    "d \<noteq> []" "length (seal p (\<not> t_server t) (t_got t) d) \<le> 1024"
  shows "\<exists>c'. SecureConnection_read api io n timeout c = Some (int (min n (length d)), take n d, c') \<and>
    view c' i (t\<lparr>t_got := t_got t + 1, t_plain := drop n d\<rparr>) st q out"
proof -
  note so = seal_open [OF params assms(5), of "\<not> t_server t" "t_got t"]
  have "tls_read p (t\<lparr>t_in := t_in t @ seal p (\<not> t_server t) (t_got t) d\<rparr>) n =
      (int (min n (length d)), take n d, t\<lparr>t_got := t_got t + 1, t_plain := drop n d\<rparr>)"
    using assms(2-4) so(3) by (simp add: tls_read_def)
  then show ?thesis using read_view [OF assms(1) so(1) assms(6), of n timeout] by simp
qed

lemma read_all_view:
  assumes "view c i t st (records p (\<not> t_server t) (t_got t) ds @ q) out" "t_phase t = 4" "t_in t = []" "t_plain t = []"
    "messages_ok p (\<not> t_server t) (t_got t) ds" "\<forall>d\<in>set ds. length d \<le> n"
  shows "\<exists>c'. read_all api io n timeout (length ds) c = Some (map (\<lambda>d. (int (length d), d)) ds, c') \<and>
    view c' i (t\<lparr>t_got := t_got t + length ds\<rparr>) st q out"
  using assms
proof (induction ds arbitrary: c t)
  case Nil
  then show ?case by simp
next
  case (Cons d ds)
  have "length d \<le> n" using Cons.prems(6) by simp
  then obtain c1 where c1: "SecureConnection_read api io n timeout c = Some (int (length d), d, c1)"
      "view c1 i (t\<lparr>t_got := t_got t + 1\<rparr>) st (records p (\<not> t_server t) (t_got t + 1) ds @ q) out"
    using read_one [of c i t st d "records p (\<not> t_server t) (t_got t + 1) ds @ q" out n timeout] Cons.prems by auto
  show ?case using Cons.IH [of c1 "t\<lparr>t_got := t_got t + 1\<rparr>"] c1 Cons.prems by auto
qed

section \<open>Requests\<close>

text \<open>An answer whose bytes come one by one.\<close>

lemma msg_loop_bytes:
  assumes "view c i t st (records p (\<not> t_server t) (t_got t) (map (\<lambda>b. [b]) m @ [[0]]) @ q) out" "t_phase t = 4" "t_in t = []" "t_plain t = []"
    "messages_ok p (\<not> t_server t) (t_got t) (map (\<lambda>b. [b]) m @ [[0]])" "0 \<notin> set m" "length m < n" "tot + n \<le> length msg"
  shows "\<exists>c'. request_msg_loop api io timeout n tot msg c =
      Some (True, tot + length m, take tot msg @ m @ [0] @ drop (tot + length m + 1) msg, c') \<and>
    view c' i (t\<lparr>t_got := t_got t + length m + 1\<rparr>) st q out"
  using assms
proof (induction m arbitrary: c t n tot msg)
  case Nil
  obtain n' where n': "n = Suc n'" using Nil.prems(7) by (cases n) auto
  obtain c1 where "SecureConnection_read api io 1 timeout c = Some (1, [0], c1)" "view c1 i (t\<lparr>t_got := t_got t + 1\<rparr>) st q out"
    using read_one [of c i t st "[0]" q out 1 timeout] Nil.prems by auto
  then show ?case using Nil.prems n'
    by (subst request_msg_loop.simps) (simp add: mem_write_def nth_append)
next
  case (Cons b m)
  obtain n' where n': "n = Suc n'" using Cons.prems(7) by (cases n) auto
  obtain c1 where c1: "SecureConnection_read api io 1 timeout c = Some (1, [b], c1)"
      "view c1 i (t\<lparr>t_got := t_got t + 1\<rparr>) st (records p (\<not> t_server t) (t_got t + 1) (map (\<lambda>b. [b]) m @ [[0]]) @ q) out"
    using read_one [of c i t st "[b]" "records p (\<not> t_server t) (t_got t + 1) (map (\<lambda>b. [b]) m @ [[0]]) @ q" out 1 timeout] Cons.prems by auto
  define msg' where "msg' = take tot msg @ b # drop (Suc tot) msg"
  have w: "mem_write msg tot [b] = Some msg'" "msg' ! tot = b" "length msg' = length msg"
    using Cons.prems(8) n' by (auto simp: mem_write_def msg'_def nth_append)
  have eq: "request_msg_loop api io timeout n tot msg c = request_msg_loop api io timeout n' (tot + 1) msg' c1"
    using c1(1) w Cons.prems(6) n' by (subst request_msg_loop.simps) simp
  have l: "length m < n'" "tot + 1 + n' \<le> length msg'" using Cons.prems(7,8) n' w(3) by simp_all
  have tk: "take (tot + 1) msg' = take tot msg @ [b]" "drop (tot + 1 + length m + 1) msg' = drop (tot + length (b # m) + 1) msg"
    using Cons.prems(8) n' by (simp_all add: msg'_def add.commute)
  have "0 \<notin> set m" using Cons.prems(6) by simp
  then show ?case unfolding eq using Cons.IH [of c1 "t\<lparr>t_got := t_got t + 1\<rparr>" n' "tot + 1" msg'] Cons.prems(2-5) c1(2) l
    unfolding tk by simp
qed

text \<open>A message that is as long as the target is written past its end.\<close>

lemma msg_loop_overflow:
  assumes "view c i t st (records p (\<not> t_server t) (t_got t) (map (\<lambda>b. [b]) m @ [[b']]) @ q) out" "t_phase t = 4" "t_in t = []" "t_plain t = []"
    "messages_ok p (\<not> t_server t) (t_got t) (map (\<lambda>b. [b]) m @ [[b']])" "0 \<notin> set m" "length m = n" "tot + n = length msg"
  shows "request_msg_loop api io timeout n tot msg c = None"
  using assms
proof (induction m arbitrary: c t n tot msg)
  case Nil
  obtain c1 where "SecureConnection_read api io 1 timeout c = Some (1, [b'], c1)"
    using read_one [of c i t st "[b']" q out 1 timeout] Nil.prems by auto
  then show ?case using Nil.prems by (subst request_msg_loop.simps) (simp add: mem_write_def)
next
  case (Cons b m)
  obtain n' where n': "n = Suc n'" using Cons.prems(7) by (cases n) auto
  obtain c1 where c1: "SecureConnection_read api io 1 timeout c = Some (1, [b], c1)"
      "view c1 i (t\<lparr>t_got := t_got t + 1\<rparr>) st (records p (\<not> t_server t) (t_got t + 1) (map (\<lambda>b. [b]) m @ [[b']]) @ q) out"
    using read_one [of c i t st "[b]" "records p (\<not> t_server t) (t_got t + 1) (map (\<lambda>b. [b]) m @ [[b']]) @ q" out 1 timeout] Cons.prems by auto
  define msg' where "msg' = take tot msg @ b # drop (Suc tot) msg"
  have w: "mem_write msg tot [b] = Some msg'" "msg' ! tot = b" "length msg' = length msg"
    using Cons.prems(8) n' by (auto simp: mem_write_def msg'_def nth_append)
  have eq: "request_msg_loop api io timeout n tot msg c = request_msg_loop api io timeout n' (tot + 1) msg' c1"
    using c1(1) w Cons.prems(6) n' by (subst request_msg_loop.simps) simp
  have "length m = n'" "tot + 1 + n' = length msg'" using Cons.prems(7,8) n' w(3) by simp_all
  then show ?case unfolding eq using Cons.IH [of c1 "t\<lparr>t_got := t_got t + 1\<rparr>" n' "tot + 1" msg'] Cons.prems(2-6) c1(2) by simp
qed

end

context secure_link
begin

text \<open>Sending the command and reading the prefix.\<close>

lemma request_start:
  assumes "view c i t st (seal p (\<not> t_server t) (t_got t) (pre @ m) # q) out" "t_phase t = 4" "t_in t = []" "t_out t = []" "t_plain t = []"
    "length pre = 5" "length (seal p (\<not> t_server t) (t_got t) (pre @ m)) \<le> 1024" "length cmd \<le> 1022"
    "length (seal p (t_server t) (t_sent t) (cmd @ [0])) \<le> 1024"
  shows "\<exists>c' buf. SecureConnection_request api io True serverMsg timeout (Some cmd) c =
      do { (msg, c) \<leftarrow> request_answer api io serverMsg timeout buf c'; Some (0, Some (answer_code pre), msg, c) } \<and> 0 < length buf \<and>
    view c' i (t\<lparr>t_sent := t_sent t + 1, t_got := t_got t + 1, t_plain := m\<rparr>) st q (out @ [seal p (t_server t) (t_sent t) (cmd @ [0])])"
proof -
  obtain n c1 where c1: "SecureConnection_write api io (cmd @ [0]) timeout c = Some (int n, c1)"
      "view c1 i (t\<lparr>t_sent := t_sent t + 1\<rparr>) st (seal p (\<not> t_server t) (t_got t) (pre @ m) # q) (out @ [seal p (t_server t) (t_sent t) (cmd @ [0])])"
    using write_view [OF assms(1,2), of "cmd @ [0]" timeout] assms(4,8,9) by auto
  have ne: "pre @ m \<noteq> []" using assms(6) by auto
  obtain c2 where c2: "SecureConnection_read api io 5 timeout c1 = Some (5, pre, c2)"
      "view c2 i (t\<lparr>t_sent := t_sent t + 1, t_got := t_got t + 1, t_plain := m\<rparr>) st q (out @ [seal p (t_server t) (t_sent t) (cmd @ [0])])"
    using read_one [of c1 i "t\<lparr>t_sent := t_sent t + 1\<rparr>" st "pre @ m" q _ 5 timeout] c1(2) assms ne by auto
  note b = request_buffer_cmd [OF assms(8)]
  define buf where "buf = (pre @ drop 5 (request_buffer cmd))[4 := 0]"
  have w: "mem_write (request_buffer cmd) 0 pre = Some (pre @ drop 5 (request_buffer cmd))" using b assms(6) by (simp add: mem_write_def)
  have code: "atoi (c_str (map (\<lambda>b. char_of (unat b)) (take 5 buf))) = Some (answer_code pre)"
    unfolding buf_def by (rule answer_code_buffer [OF assms(6)])
  have "SecureConnection_request api io True serverMsg timeout (Some cmd) c =
      do { (msg, c) \<leftarrow> request_answer api io serverMsg timeout buf c2; Some (0, Some (answer_code pre), msg, c) }"
    using b(1) c1(1) c2(1) w code by (simp add: SecureConnection_request_def buf_def)
  moreover have "0 < length buf" using assms(6) by (simp add: buf_def)
  ultimately show ?thesis using c2(2) by blast
qed

lemma request_bytes:
  assumes "view c i t st (records p (\<not> t_server t) (t_got t) (pre # map (\<lambda>b. [b]) m @ [[0]]) @ q) out" "t_phase t = 4" "t_in t = []" "t_out t = []" "t_plain t = []"
    "messages_ok p (\<not> t_server t) (t_got t) (pre # map (\<lambda>b. [b]) m @ [[0]])" "length pre = 5" "0 \<notin> set m" "length cmd \<le> 1022"
    "length (seal p (t_server t) (t_sent t) (cmd @ [0])) \<le> 1024" "length m < n" "n \<le> length msg"
  shows "\<exists>c'. SecureConnection_request api io True (Some (msg, int n)) timeout (Some cmd) c =
      Some (0, Some (answer_code pre), Some (m @ [0] @ drop (length m + 1) msg), c') \<and>
    view c' i (t\<lparr>t_sent := t_sent t + 1, t_got := t_got t + length m + 2\<rparr>) st q (out @ [seal p (t_server t) (t_sent t) (cmd @ [0])])"
proof -
  define t1 where "t1 = t\<lparr>t_sent := t_sent t + 1, t_got := t_got t + 1\<rparr>"
  have t1: "t\<lparr>t_sent := t_sent t + 1, t_got := t_got t + 1, t_plain := []\<rparr> = t1" using assms(5) by (simp add: t1_def)
  obtain c1 buf where c1: "SecureConnection_request api io True (Some (msg, int n)) timeout (Some cmd) c =
      do { (msg, c) \<leftarrow> request_answer api io (Some (msg, int n)) timeout buf c1; Some (0, Some (answer_code pre), msg, c) }"
      "view c1 i t1 st (records p (\<not> t_server t) (t_got t + 1) (map (\<lambda>b. [b]) m @ [[0]]) @ q) (out @ [seal p (t_server t) (t_sent t) (cmd @ [0])])"
    using request_start [of c i t st pre "[]" "records p (\<not> t_server t) (t_got t + 1) (map (\<lambda>b. [b]) m @ [[0]]) @ q" out cmd "Some (msg, int n)" timeout]
      assms unfolding t1 by auto
  have v: "view c1 i t1 st (records p (\<not> t_server t1) (t_got t1) (map (\<lambda>b. [b]) m @ [[0]]) @ q) (out @ [seal p (t_server t) (t_sent t) (cmd @ [0])])"
    "t_phase t1 = 4" "t_in t1 = []" "t_plain t1 = []" "messages_ok p (\<not> t_server t1) (t_got t1) (map (\<lambda>b. [b]) m @ [[0]])"
    using c1(2) assms(2,3,5,6) by (simp_all add: t1_def)
  obtain c2 where c2: "request_msg_loop api io timeout n 0 msg c1 = Some (True, length m, m @ [0] @ drop (length m + 1) msg, c2)"
      "view c2 i (t1\<lparr>t_got := t_got t1 + length m + 1\<rparr>) st q (out @ [seal p (t_server t) (t_sent t) (cmd @ [0])])"
    using msg_loop_bytes [OF v assms(8,11), of 0 msg timeout] assms(12) by auto
  have "mem_write (m @ [0] @ drop (length m + 1) msg) (length m) [0] = Some (m @ [0] @ drop (length m + 1) msg)" by (simp add: mem_write_def)
  then have "request_answer api io (Some (msg, int n)) timeout buf c1 = Some (Some (m @ [0] @ drop (length m + 1) msg), c2)"
    using c2(1) assms(11) by (simp add: request_answer_def)
  then show ?thesis using c1(1) c2(2) by (auto simp: t1_def)
qed

lemma request_overflow:
  assumes "view c i t st (records p (\<not> t_server t) (t_got t) (pre # map (\<lambda>b. [b]) msg @ [[b']]) @ q) out" "t_phase t = 4" "t_in t = []" "t_out t = []" "t_plain t = []"
    "messages_ok p (\<not> t_server t) (t_got t) (pre # map (\<lambda>b. [b]) msg @ [[b']])" "length pre = 5" "0 \<notin> set msg" "length cmd \<le> 1022"
    "length (seal p (t_server t) (t_sent t) (cmd @ [0])) \<le> 1024" "length buf = length msg" "buf \<noteq> []"
  shows "SecureConnection_request api io True (Some (buf, int (length buf))) timeout (Some cmd) c = None"
proof -
  define t1 where "t1 = t\<lparr>t_sent := t_sent t + 1, t_got := t_got t + 1\<rparr>"
  have t1: "t\<lparr>t_sent := t_sent t + 1, t_got := t_got t + 1, t_plain := []\<rparr> = t1" using assms(5) by (simp add: t1_def)
  obtain c1 b where c1: "SecureConnection_request api io True (Some (buf, int (length buf))) timeout (Some cmd) c =
      do { (msg, c) \<leftarrow> request_answer api io (Some (buf, int (length buf))) timeout b c1; Some (0, Some (answer_code pre), msg, c) }"
      "view c1 i t1 st (records p (\<not> t_server t) (t_got t + 1) (map (\<lambda>b. [b]) msg @ [[b']]) @ q) (out @ [seal p (t_server t) (t_sent t) (cmd @ [0])])"
    using request_start [of c i t st pre "[]" "records p (\<not> t_server t) (t_got t + 1) (map (\<lambda>b. [b]) msg @ [[b']]) @ q" out cmd "Some (buf, int (length buf))" timeout]
      assms unfolding t1 by auto
  have v: "view c1 i t1 st (records p (\<not> t_server t1) (t_got t1) (map (\<lambda>b. [b]) msg @ [[b']]) @ q) (out @ [seal p (t_server t) (t_sent t) (cmd @ [0])])"
    "t_phase t1 = 4" "t_in t1 = []" "t_plain t1 = []" "messages_ok p (\<not> t_server t1) (t_got t1) (map (\<lambda>b. [b]) msg @ [[b']])"
    using c1(2) assms(2,3,5,6) by (simp_all add: t1_def)
  have "request_msg_loop api io timeout (length buf) 0 buf c1 = None"
    using msg_loop_overflow [OF v assms(8), of "length buf" 0 buf timeout] assms(11) by simp
  then show ?thesis using c1(1) assms(12) by (simp add: request_answer_def)
qed

end

section \<open>Creation\<close>

context secure_link
begin

lemma create_up:
  assumes "hs_fits p" "a_ctx_new api" "a_random api = 0"
  shows "inq (sc_world junk) = [flight p 1, flight p 3 @ seal p True 0 [79, 75]] \<Longrightarrow> outq (sc_world junk) = [] \<Longrightarrow>
    \<exists>c. create_connection api io mode SECURE_INTENT_CLIENT cert privKey None junk = Some (True, c) \<and>
      view c SECURE_INTENT_CLIENT client_up SECURE_STATE_ESTABLISHED [] [flight p 0, flight p 2]"
    "inq (sc_world junk) = [flight p 0, flight p 2] \<Longrightarrow> outq (sc_world junk) = [] \<Longrightarrow>
    \<exists>c. create_connection api io mode SECURE_INTENT_SERVER cert privKey None junk = Some (True, c) \<and>
      view c SECURE_INTENT_SERVER server_up SECURE_STATE_ESTABLISHED [] [flight p 1, flight p 3 @ seal p True 0 [79, 75]]"
proof -
  assume q: "inq (sc_world junk) = [flight p 1, flight p 3 @ seal p True 0 [79, 75]]" "outq (sc_world junk) = []"
  have ne: "SECURE_INTENT_CLIENT \<noteq> SECURE_INTENT_SERVER" by (simp add: SECURE_INTENT_CLIENT_def SECURE_INTENT_SERVER_def)
  obtain c where c: "SecureConnection_initSSL api io SECURE_INTENT_CLIENT cert privKey None
        ((SecureConnection_new junk)\<lparr>sc_intent := SECURE_INTENT_CLIENT, sc_ioMode := mode\<rparr>) = handshake_loop api io c"
      "view c SECURE_INTENT_CLIENT (tls_new False) SECURE_STATE_HANDSHAKE_WRITE [flight p 1, flight p 3 @ seal p True 0 [79, 75]] []"
    using init_view [OF assms(2,3) q, of SECURE_INTENT_CLIENT cert privKey] ne by auto
  show "\<exists>c. create_connection api io mode SECURE_INTENT_CLIENT cert privKey None junk = Some (True, c) \<and>
      view c SECURE_INTENT_CLIENT client_up SECURE_STATE_ESTABLISHED [] [flight p 0, flight p 2]"
    using client_handshake [OF assms(1) c(2)] c(1) by (auto simp: create_connection_def)
next
  assume q: "inq (sc_world junk) = [flight p 0, flight p 2]" "outq (sc_world junk) = []"
  obtain c where c: "SecureConnection_initSSL api io SECURE_INTENT_SERVER cert privKey None
        ((SecureConnection_new junk)\<lparr>sc_intent := SECURE_INTENT_SERVER, sc_ioMode := mode\<rparr>) = handshake_loop api io c"
      "view c SECURE_INTENT_SERVER (tls_new True) SECURE_STATE_HANDSHAKE_READ [flight p 0, flight p 2] []"
    using init_view [OF assms(2,3) q, of SECURE_INTENT_SERVER cert privKey] by auto
  show "\<exists>c. create_connection api io mode SECURE_INTENT_SERVER cert privKey None junk = Some (True, c) \<and>
      view c SECURE_INTENT_SERVER server_up SECURE_STATE_ESTABLISHED [] [flight p 1, flight p 3 @ seal p True 0 [79, 75]]"
    using server_handshake [OF assms(1) c(2)] c(1) by (auto simp: create_connection_def)
qed

lemma create_failed:
  assumes "SecureConnection_initSSL api io i cert privKey None ((SecureConnection_new junk)\<lparr>sc_intent := i, sc_ioMode := mode\<rparr>) = Some (-1, c)"
    "view c i t st q out"
  shows "\<exists>c'. create_connection api io mode i cert privKey None junk = Some (False, c') \<and> sc_deleted c' = 1 \<and> outq (sc_world c') = out"
  using assms by (simp add: create_connection_def SecureConnection_release_def cint_add_def view_def)

lemma create_stuck:
  assumes "length (flight p 0) \<le> 1024" "1024 < length (flight p 1)" "a_ctx_new api" "a_random api = 0"
    "inq (sc_world junk) = [take 1024 (flight p 1)]" "outq (sc_world junk) = []"
  shows "\<exists>c. create_connection api io mode SECURE_INTENT_CLIENT cert privKey None junk = Some (False, c) \<and> sc_deleted c = 1 \<and>
      outq (sc_world c) = [flight p 0]"
proof -
  have ne: "SECURE_INTENT_CLIENT \<noteq> SECURE_INTENT_SERVER" by (simp add: SECURE_INTENT_CLIENT_def SECURE_INTENT_SERVER_def)
  obtain c where c: "SecureConnection_initSSL api io SECURE_INTENT_CLIENT cert privKey None
        ((SecureConnection_new junk)\<lparr>sc_intent := SECURE_INTENT_CLIENT, sc_ioMode := mode\<rparr>) = handshake_loop api io c"
      "view c SECURE_INTENT_CLIENT (tls_new False) SECURE_STATE_HANDSHAKE_WRITE [take 1024 (flight p 1)] []"
    using init_view [OF assms(3-6), of SECURE_INTENT_CLIENT cert privKey] ne by auto
  obtain c' t st where "handshake_loop api io c = Some (-1, c')" "view c' SECURE_INTENT_CLIENT t st [] [flight p 0]"
    using client_stuck [OF assms(1,2) c(2)] by blast
  then show ?thesis
    using create_failed c(1) by simp
qed

text \<open>A record that does not fit into the local buffer.\<close>

lemma read_cut:
  assumes "view c i t st (take 1024 (seal p (\<not> t_server t) (t_got t) d) # q) out" "t_phase t = 4" "t_in t = []" "t_plain t = []"
    "d \<noteq> []" "1024 < length (seal p (\<not> t_server t) (t_got t) d)"
  shows "\<exists>c'. SecureConnection_read api io n timeout c = Some (-1, [], c')"
proof -
  let ?x = "take 1024 (seal p (\<not> t_server t) (t_got t) d)"
  have "unseal p (\<not> t_server t) (t_got t) ?x = None" using params assms(5,6) unfolding dtls_ok_def by blast
  then have "tls_read p (t\<lparr>t_in := t_in t @ ?x\<rparr>) n = (-1, [], t\<lparr>t_in := keep p ?x\<rparr>)"
    using assms(2-4) by (simp add: tls_read_def)
  moreover have "?x \<noteq> []" "length ?x \<le> 1024" using seal_open(1) [OF params assms(5)] by simp_all
  ultimately show ?thesis using read_view [OF assms(1), of n timeout] by auto
qed

end

section \<open>Waiting in vain\<close>

context quiet_link
begin

lemma request_single:
  assumes "view c i t st [seal p (\<not> t_server t) (t_got t) (pre @ m)] out" "t_phase t = 4" "t_in t = []" "t_out t = []" "t_plain t = []"
    "length pre = 5" "length (seal p (\<not> t_server t) (t_got t) (pre @ m)) \<le> 1024" "length cmd \<le> 1022"
    "length (seal p (t_server t) (t_sent t) (cmd @ [0])) \<le> 1024" "0 < n" "n \<le> length msg"
  shows "\<exists>c'. SecureConnection_request api io True (Some (msg, int n)) timeout (Some cmd) c =
      Some (0, Some (answer_code pre), Some (0 # drop 1 msg), c') \<and>
    view c' i (t\<lparr>t_sent := t_sent t + 1, t_got := t_got t + 1, t_plain := m\<rparr>) st [] (out @ [seal p (t_server t) (t_sent t) (cmd @ [0])])"
proof -
  let ?t = "t\<lparr>t_sent := t_sent t + 1, t_got := t_got t + 1, t_plain := m\<rparr>" and ?o = "out @ [seal p (t_server t) (t_sent t) (cmd @ [0])]"
  obtain c1 buf where c1: "SecureConnection_request api io True (Some (msg, int n)) timeout (Some cmd) c =
      do { (msg, c) \<leftarrow> request_answer api io (Some (msg, int n)) timeout buf c1; Some (0, Some (answer_code pre), msg, c) }"
      "view c1 i ?t st [] ?o" "0 < length buf"
    using request_start [OF assms(1-9), of "Some (msg, int n)" timeout] by blast
  obtain c2 where c2: "SecureConnection_read api io 1 timeout c1 = Some (-1, [], c2)" "view c2 i ?t st [] ?o"
    using read_silent [OF c1(2)] by blast
  obtain c3 where c3: "SecureConnection_read api io 1 timeout c2 = Some (-1, [], c3)" "view c3 i ?t st [] ?o"
    using read_silent [OF c2(2)] by blast
  have "request_msg_loop api io timeout n 0 msg c1 = Some (False, 0, msg, c2)"
    using c2(1) by (subst request_msg_loop.simps) (simp add: mem_write_def)
  moreover have "request_flush api io timeout buf c2 = Some c3"
    using c3(1) by (subst request_flush.simps) (simp add: mem_write_def)
  moreover have "mem_write msg 0 [0] = Some (0 # drop 1 msg)" using assms(10,11) by (simp add: mem_write_def)
  ultimately have "request_answer api io (Some (msg, int n)) timeout buf c1 = Some (Some (0 # drop 1 msg), c3)"
    using assms(10) by (simp add: request_answer_def)
  then show ?thesis using c1(1) c3(2) by auto
qed

lemma create_stuck_server:
  assumes "length (flight p 0) \<le> 1024" "a_ctx_new api" "a_random api = 0" "inq (sc_world junk) = [flight p 0]" "outq (sc_world junk) = []"
  shows "\<exists>c. create_connection api io mode SECURE_INTENT_SERVER cert privKey None junk = Some (False, c) \<and> sc_deleted c = 1 \<and>
      outq (sc_world c) = [take 1024 (flight p 1)]"
proof -
  obtain c where c: "SecureConnection_initSSL api io SECURE_INTENT_SERVER cert privKey None
        ((SecureConnection_new junk)\<lparr>sc_intent := SECURE_INTENT_SERVER, sc_ioMode := mode\<rparr>) = handshake_loop api io c"
      "view c SECURE_INTENT_SERVER (tls_new True) SECURE_STATE_HANDSHAKE_READ [flight p 0] []"
    using init_view [OF assms(2-5), of SECURE_INTENT_SERVER cert privKey] by auto
  obtain c' t st where "handshake_loop api io c = Some (-1, c')" "view c' SECURE_INTENT_SERVER t st [] [take 1024 (flight p 1)]"
    using server_stuck [OF assms(1) c(2)] by blast
  then show ?thesis
    using create_failed c(1) by simp
qed

end

section \<open>A session without secrets\<close>

text \<open>A reference session over a pair of queues, for the examples.\<close>

definition plain_seal :: "byte list \<Rightarrow> byte list" where
  "plain_seal d = replicate (length d) 1 @ 0 # d"

definition plain_unseal :: "byte list \<Rightarrow> (byte list \<times> byte list) option" where
  "plain_unseal x = (let n = length (takeWhile (\<lambda>b. b = 1) x) in
     if 0 < n \<and> 2 * n + 1 \<le> length x \<and> x ! n = 0 then Some (take n (drop (n + 1) x), drop (2 * n + 1) x) else None)"

definition plain_dtls :: "(nat \<Rightarrow> byte list) \<Rightarrow> dtls" where
  "plain_dtls fl = \<lparr>flight = fl, seal = (\<lambda>r k. plain_seal), unseal = (\<lambda>r k. plain_unseal), keep = (\<lambda>x. x)\<rparr>"

lemma takeWhile_marks: "takeWhile (\<lambda>b. b = 1) (replicate n (1 :: byte) @ 0 # x) = replicate n 1"
  by (induction n) simp_all

lemma plain_dtls_ok: "(\<And>i. i < 4 \<Longrightarrow> fl i \<noteq> []) \<Longrightarrow> dtls_ok (plain_dtls fl)"
proof -
  assume fl: "\<And>i. i < 4 \<Longrightarrow> fl i \<noteq> []"
  have opened: "plain_unseal (plain_seal d @ rest) = Some (d, rest)" if "d \<noteq> []" for d rest
    using that by (simp add: plain_unseal_def plain_seal_def takeWhile_marks nth_append)
  have cut: "plain_unseal (take n (plain_seal d)) = None" if "n < length (plain_seal d)" for d n
  proof (cases "n \<le> length d")
    case True
    then have "take n (plain_seal d) = replicate n 1" by (simp add: plain_seal_def)
    then show ?thesis by (simp add: plain_unseal_def)
  next
    case False
    then have "take n (plain_seal d) = replicate (length d) 1 @ 0 # take (n - length d - 1) d"
      by (auto simp: plain_seal_def take_Cons' split: nat.splits)
    then show ?thesis using that False by (simp add: plain_unseal_def takeWhile_marks plain_seal_def)
  qed
  show "dtls_ok (plain_dtls fl)"
    using fl opened cut by (auto simp: dtls_ok_def plain_dtls_def plain_seal_def plain_unseal_def)
qed

definition ref_api :: "dtls \<Rightarrow> tls ssl_api" where
  "ref_api p = \<lparr>a_ctx_new = True, a_random = 0, a_new = (\<lambda>files. Some (tls_new (files \<noteq> None))),
     a_write = (\<lambda>t d. (int (length d), tls_write p t d)), a_read = tls_read p, a_do_handshake = tls_handshake p,
     a_is_init_finished = (\<lambda>t. t_phase t = 4), a_bio_read = tls_bio_read, a_bio_write = tls_bio_write\<rparr>"

type_synonym wire = "byte list list \<times> byte list list"

definition wire_write :: "wire \<Rightarrow> byte list \<Rightarrow> int \<times> wire" where
  "wire_write w d = (int (length d), (fst w, snd w @ [d]))"

definition wire_read :: "wire \<Rightarrow> nat \<Rightarrow> int \<times> byte list \<times> wire" where
  "wire_read w n = (case fst w of [] \<Rightarrow> (-1, [], w) | x # xs \<Rightarrow> (int (min n (length x)), take n x, (xs, snd w)))"

definition wire_io :: "wire sec_io" where
  "wire_io = \<lparr>i_writeCallback = (\<lambda>w d t. wire_write w d), i_write = wire_write, i_send = wire_write,
     i_readCallback = (\<lambda>w n t. wire_read w n), i_read = wire_read, i_recv = wire_read\<rparr>"

lemma ref_link:
  assumes "dtls_ok p" "mode \<in> {SECURE_IOMODE_CALLBACKS, SECURE_IOMODE_FDS, SECURE_IOMODE_SOCKET}"
  shows "quiet_link (ref_api p) p (\<lambda>t. t) wire_io mode fst snd"
proof
  show "dtls_ok p" "mode \<in> {SECURE_IOMODE_CALLBACKS, SECURE_IOMODE_FDS, SECURE_IOMODE_SOCKET}" by fact+
qed (simp_all add: ref_api_def io_writer_def io_reader_def wire_io_def wire_write_def wire_read_def prod_eq_iff)

definition demo_flights :: "nat \<Rightarrow> byte list" where
  "demo_flights i = [word_of_nat i + 1, 7]"

interpretation plain_link: quiet_link "ref_api (plain_dtls demo_flights)" "plain_dtls demo_flights" "\<lambda>t. t" wire_io SECURE_IOMODE_FDS fst snd
  by (rule ref_link) (auto intro: plain_dtls_ok simp: demo_flights_def)

definition demo_conn :: "byte list list \<Rightarrow> (tls, wire) SecureConnection" where
  "demo_conn q = \<lparr>sc_ssl = None, sc_ctx = False, sc_intent = -1, sc_state = -1, sc_ioMode = -1, sc_refCount = 0, sc_deleted = 0, sc_world = (q, [])\<rparr>"

definition demo_up :: "int \<Rightarrow> tls \<Rightarrow> byte list list \<Rightarrow> (tls, wire) SecureConnection" where
  "demo_up i t q = \<lparr>sc_ssl = Some t, sc_ctx = True, sc_intent = i, sc_state = SECURE_STATE_ESTABLISHED, sc_ioMode = SECURE_IOMODE_FDS,
     sc_refCount = 1, sc_deleted = 0, sc_world = (q, [])\<rparr>"

lemma demo_up_view: "conn_view (\<lambda>t. t) SECURE_IOMODE_FDS fst snd (demo_up i t q) i t SECURE_STATE_ESTABLISHED q []"
  by (simp add: conn_view_def demo_up_def)

section \<open>Properties\<close>

text \<open>
  Property C9. Handshakes complete. Over any transport that delivers to each side what the other has sent, creating a client and creating
  a server both succeed: the pieces that the client sends are those that the server expects and the other way round, and at the end
  both are established, the client having read the message OK of the server; provided that every flight of the handshake fits into
  the buffer of 1024 bytes.
\<close>

theorem secure_handshake:
  assumes "secure_link api p absn io mode inq outq" "hs_fits p" "a_ctx_new api" "a_random api = 0"
    "inq (sc_world cj) = [flight p 1, flight p 3 @ seal p True 0 [79, 75]]" "outq (sc_world cj) = []"
    "inq (sc_world sj) = [flight p 0, flight p 2]" "outq (sc_world sj) = []"
  shows "\<exists>c s. create_connection api io mode SECURE_INTENT_CLIENT cert privKey None cj = Some (True, c) \<and>
    create_connection api io mode SECURE_INTENT_SERVER cert privKey None sj = Some (True, s) \<and>
    outq (sc_world c) = inq (sc_world sj) \<and> outq (sc_world s) = inq (sc_world cj) \<and>
    SecureConnection_getState c = SECURE_STATE_ESTABLISHED \<and> SecureConnection_getState s = SECURE_STATE_ESTABLISHED \<and>
    conn_view absn mode inq outq c SECURE_INTENT_CLIENT client_up SECURE_STATE_ESTABLISHED [] [flight p 0, flight p 2] \<and>
    conn_view absn mode inq outq s SECURE_INTENT_SERVER server_up SECURE_STATE_ESTABLISHED [] [flight p 1, flight p 3 @ seal p True 0 [79, 75]]"
proof -
  obtain c where c: "create_connection api io mode SECURE_INTENT_CLIENT cert privKey None cj = Some (True, c)"
      "conn_view absn mode inq outq c SECURE_INTENT_CLIENT client_up SECURE_STATE_ESTABLISHED [] [flight p 0, flight p 2]"
    using secure_link.create_up(1) [OF assms(1-6)] by blast
  obtain s where s: "create_connection api io mode SECURE_INTENT_SERVER cert privKey None sj = Some (True, s)"
      "conn_view absn mode inq outq s SECURE_INTENT_SERVER server_up SECURE_STATE_ESTABLISHED [] [flight p 1, flight p 3 @ seal p True 0 [79, 75]]"
    using secure_link.create_up(2) [OF assms(1-4,7,8)] by blast
  show ?thesis using c s assms(5,7) by (auto simp: conn_view_def SecureConnection_getState_def)
qed

theorem secure_handshake_witness:
  "\<exists>c s. create_connection (ref_api (plain_dtls demo_flights)) wire_io SECURE_IOMODE_FDS SECURE_INTENT_CLIENT ''c'' ''k'' None
      (demo_conn [[2, 7], [4, 7, 1, 1, 0, 79, 75]]) = Some (True, c) \<and>
    create_connection (ref_api (plain_dtls demo_flights)) wire_io SECURE_IOMODE_FDS SECURE_INTENT_SERVER ''c'' ''k'' None
      (demo_conn [[1, 7], [3, 7]]) = Some (True, s) \<and> SecureConnection_getState c = SECURE_STATE_ESTABLISHED"
proof -
  have f: "hs_fits (plain_dtls demo_flights)" by (simp add: hs_fits_def plain_dtls_def demo_flights_def plain_seal_def)
  have a: "a_ctx_new (ref_api (plain_dtls demo_flights))" "a_random (ref_api (plain_dtls demo_flights)) = 0" by (simp_all add: ref_api_def)
  show ?thesis
    using secure_handshake [OF plain_link.secure_link_axioms f a, of "demo_conn [[2, 7], [4, 7, 1, 1, 0, 79, 75]]" "demo_conn [[1, 7], [3, 7]]" "''c''" "''k''"]
    by (auto simp: demo_conn_def plain_dtls_def demo_flights_def plain_seal_def)
qed

text \<open>
  Property C8. Messages survive. Over a transport that takes every piece whole and delivers each piece with one read (a datagram socket, a message callback),
  what one side of an established connection writes in any number of calls, none of them empty, the other side reads in as many calls, each call returning
  one complete message with its length, in order; as long as every message fits into 1024 bytes after sealing and every read has room for a message. The results of the writes are not part of
  the claim: \<^verbatim>\<open>write\<close> returns the length of the sealed record, not that of the message.
\<close>

theorem secure_messages:
  assumes "secure_link api p absn io mode inq outq" "conn_view absn mode inq outq a i t st q out" "t_phase t = 4" "t_out t = []"
    "messages_ok p (t_server t) (t_sent t) ds"
    "conn_view absn mode inq outq b i' u st' (records p (t_server t) (t_sent t) ds) out'" "t_phase u = 4" "t_in u = []" "t_plain u = []"
    "t_server u = (\<not> t_server t)" "t_got u = t_sent t" "\<forall>d\<in>set ds. length d \<le> n"
  shows "\<exists>ns a' b'. write_all api io timeout ds a = Some (ns, a') \<and> outq (sc_world a') = outq (sc_world a) @ inq (sc_world b) \<and>
    read_all api io n timeout (length ds) b = Some (map (\<lambda>d. (int (length d), d)) ds, b')"
proof -
  obtain ns a' where a': "write_all api io timeout ds a = Some (ns, a')"
      "conn_view absn mode inq outq a' i (t\<lparr>t_sent := t_sent t + length ds\<rparr>) st q (out @ records p (t_server t) (t_sent t) ds)"
    using secure_link.write_all_view [OF assms(1-5)] by blast
  obtain b' where "read_all api io n timeout (length ds) b = Some (map (\<lambda>d. (int (length d), d)) ds, b')"
    using secure_link.read_all_view [OF assms(1), of b i' u st' ds "[]" out' n timeout] assms(5-12) by auto
  then show ?thesis using a' assms(2,6) by (auto simp: conn_view_def)
qed

theorem secure_messages_witness:
  "\<exists>ns a' b'. write_all (ref_api (plain_dtls demo_flights)) wire_io (-1) [[5, 6], [7]] (demo_up SECURE_INTENT_CLIENT client_up []) = Some (ns, a') \<and>
    snd (sc_world a') = [[1, 1, 0, 5, 6], [1, 0, 7]] \<and>
    read_all (ref_api (plain_dtls demo_flights)) wire_io 8 (-1) 2
      (demo_up SECURE_INTENT_SERVER server_up [[1, 1, 0, 5, 6], [1, 0, 7]]) = Some ([(2, [5, 6]), (1, [7])], b')"
proof -
  have m: "messages_ok (plain_dtls demo_flights) (t_server client_up) (t_sent client_up) [[5, 6], [7]]"
    by (simp add: messages_ok_def plain_dtls_def plain_seal_def)
  have r: "records (plain_dtls demo_flights) (t_server client_up) (t_sent client_up) [[5, 6], [7]] = [[1, 1, 0, 5, 6], [1, 0, 7]]"
    by (simp add: plain_dtls_def plain_seal_def)
  show ?thesis
    using secure_messages [OF plain_link.secure_link_axioms demo_up_view [of SECURE_INTENT_CLIENT client_up "[]"] _ _ m
        demo_up_view [of SECURE_INTENT_SERVER server_up "records (plain_dtls demo_flights) (t_server client_up) (t_sent client_up) [[5, 6], [7]]"], of 8 "-1"]
    unfolding r by (auto simp: client_up_def server_up_def tls_new_def demo_up_def simp del: write_all.simps read_all.simps simp flip: numeral_2_eq_2)
qed

text \<open>
  A request to a server that sends the prefix of its answer as one message and every byte of the text as a message of its own
  sends the command with its zero byte, returns the code of the prefix, stores the text with its zero byte and leaves
  the connection ready for the next request.
\<close>

theorem secure_request:
  assumes "secure_link api p absn io mode inq outq"
    "conn_view absn mode inq outq c i t st (records p (\<not> t_server t) (t_got t) (pre # map (\<lambda>b. [b]) m @ [[0]]) @ q) out"
    "t_phase t = 4" "t_in t = []" "t_out t = []" "t_plain t = []"
    "messages_ok p (\<not> t_server t) (t_got t) (pre # map (\<lambda>b. [b]) m @ [[0]])" "length pre = 5" "0 \<notin> set m" "length cmd \<le> 1022"
    "length (seal p (t_server t) (t_sent t) (cmd @ [0])) \<le> 1024" "length m < n" "n \<le> length msg"
  shows "\<exists>c'. SecureConnection_request api io True (Some (msg, int n)) timeout (Some cmd) c =
      Some (0, Some (answer_code pre), Some (m @ [0] @ drop (length m + 1) msg), c') \<and>
    conn_view absn mode inq outq c' i (t\<lparr>t_sent := t_sent t + 1, t_got := t_got t + length m + 2\<rparr>) st q
      (out @ [seal p (t_server t) (t_sent t) (cmd @ [0])])"
  by (rule secure_link.request_bytes [OF assms])

theorem secure_request_witness:
  "\<exists>c'. SecureConnection_request (ref_api (plain_dtls demo_flights)) wire_io True (Some ([9, 9, 9, 9], 4)) (-1) (Some [108, 115])
      (demo_up SECURE_INTENT_CLIENT client_up [plain_seal [50, 48, 48, 62, 32], plain_seal [111], plain_seal [107], plain_seal [0]]) =
    Some (0, Some 200, Some [111, 107, 0, 9], c')"
proof -
  let ?p = "plain_dtls demo_flights" and ?pre = "[50, 48, 48, 62, 32] :: byte list" and ?m = "[111, 107] :: byte list"
  have r: "records ?p (\<not> t_server client_up) (t_got client_up) (?pre # map (\<lambda>b. [b]) ?m @ [[0]]) @ [] =
      [plain_seal [50, 48, 48, 62, 32], plain_seal [111], plain_seal [107], plain_seal [0]]" by (simp add: plain_dtls_def)
  have k: "messages_ok ?p (\<not> t_server client_up) (t_got client_up) (?pre # map (\<lambda>b. [b]) ?m @ [[0]])"
    by (simp add: messages_ok_def plain_dtls_def plain_seal_def)
  have code: "answer_code ?pre = 200" by code_simp
  have t: "t_phase client_up = 4" "t_in client_up = []" "t_out client_up = []" "t_plain client_up = []" by (simp_all add: client_up_def tls_new_def)
  have s: "length (seal ?p (t_server client_up) (t_sent client_up) ([108, 115] @ [0])) \<le> 1024" by (simp add: plain_dtls_def plain_seal_def)
  show ?thesis
    using secure_request [OF plain_link.secure_link_axioms demo_up_view [of SECURE_INTENT_CLIENT client_up
          "records ?p (\<not> t_server client_up) (t_got client_up) (?pre # map (\<lambda>b. [b]) ?m @ [[0]]) @ []"] t k _ _ _ s, of 4 "[9, 9, 9, 9]" "-1"]
    unfolding r code by auto
qed

text \<open>
  What requests get wrong. An answer that comes as one message, prefix and text together, is reported as a success with the right code, but
  the text is lost: \<^verbatim>\<open>read\<close> waits for new bytes although the session holds the rest, which stays there
  and is taken for the beginning of the next answer. A text that is as long as the buffer of the caller is written past its end, whatever comes after it, and a
  command of 1024 characters or more is read past the end of the local buffer.
\<close>

theorem secure_request_defects:
  assumes "quiet_link api p absn io mode inq outq" "t_phase t = 4" "t_in t = []" "t_out t = []" "t_plain t = []" "length pre = 5"
    "length (seal p (t_server t) (t_sent t) (cmd @ [0])) \<le> 1024" "length cmd \<le> 1022" "msg \<noteq> []"
  shows "(conn_view absn mode inq outq c i t st [seal p (\<not> t_server t) (t_got t) (pre @ m)] out \<longrightarrow>
      length (seal p (\<not> t_server t) (t_got t) (pre @ m)) \<le> 1024 \<longrightarrow>
      (\<exists>c'. SecureConnection_request api io True (Some (msg, int (length msg))) timeout (Some cmd) c =
          Some (0, Some (answer_code pre), Some (0 # drop 1 msg), c') \<and>
        conn_view absn mode inq outq c' i (t\<lparr>t_sent := t_sent t + 1, t_got := t_got t + 1, t_plain := m\<rparr>) st []
          (out @ [seal p (t_server t) (t_sent t) (cmd @ [0])]))) \<and>
    (conn_view absn mode inq outq c i t st (records p (\<not> t_server t) (t_got t) (pre # map (\<lambda>b. [b]) m @ [[b']]) @ q) out \<longrightarrow>
      messages_ok p (\<not> t_server t) (t_got t) (pre # map (\<lambda>b. [b]) m @ [[b']]) \<longrightarrow> 0 \<notin> set m \<longrightarrow> length m = length msg \<longrightarrow>
      SecureConnection_request api io True (Some (msg, int (length msg))) timeout (Some cmd) c = None) \<and>
    (1024 \<le> length long \<longrightarrow> SecureConnection_request api io True serverMsg timeout (Some long) c = None)"
proof (intro conjI impI)
  assume v: "conn_view absn mode inq outq c i t st [seal p (\<not> t_server t) (t_got t) (pre @ m)] out"
    "length (seal p (\<not> t_server t) (t_got t) (pre @ m)) \<le> 1024"
  show "\<exists>c'. SecureConnection_request api io True (Some (msg, int (length msg))) timeout (Some cmd) c =
          Some (0, Some (answer_code pre), Some (0 # drop 1 msg), c') \<and>
        conn_view absn mode inq outq c' i (t\<lparr>t_sent := t_sent t + 1, t_got := t_got t + 1, t_plain := m\<rparr>) st []
          (out @ [seal p (t_server t) (t_sent t) (cmd @ [0])])"
    by (rule quiet_link.request_single [OF assms(1) v(1) assms(2-6) v(2) assms(8,7)]) (use assms(9) in auto)
next
  assume v: "conn_view absn mode inq outq c i t st (records p (\<not> t_server t) (t_got t) (pre # map (\<lambda>b. [b]) m @ [[b']]) @ q) out"
    "messages_ok p (\<not> t_server t) (t_got t) (pre # map (\<lambda>b. [b]) m @ [[b']])" "0 \<notin> set m" "length m = length msg"
  show "SecureConnection_request api io True (Some (msg, int (length msg))) timeout (Some cmd) c = None"
    by (rule secure_link.request_overflow [OF quiet_link.axioms(1) [OF assms(1)] v(1) assms(2-5) v(2) assms(6) v(3) assms(8,7) v(4) [symmetric] assms(9)])
next
  assume "1024 \<le> length long"
  then show "SecureConnection_request api io True serverMsg timeout (Some long) c = None"
    using request_buffer_long [of long] by (simp add: SecureConnection_request_def)
qed

theorem secure_request_defects_witness:
  "\<exists>c'. SecureConnection_request (ref_api (plain_dtls demo_flights)) wire_io True (Some ([9, 9, 9, 9], 4)) (-1) (Some [108, 115])
      (demo_up SECURE_INTENT_CLIENT client_up [plain_seal [50, 48, 48, 62, 32, 111, 107, 0]]) = Some (0, Some 200, Some [0, 9, 9, 9], c')"
proof -
  let ?p = "plain_dtls demo_flights" and ?pre = "[50, 48, 48, 62, 32] :: byte list" and ?m = "[111, 107, 0] :: byte list"
  have code: "answer_code ?pre = 200" by code_simp
  have t: "t_phase client_up = 4" "t_in client_up = []" "t_out client_up = []" "t_plain client_up = []" by (simp_all add: client_up_def tls_new_def)
  have s: "length (seal ?p (t_server client_up) (t_sent client_up) ([108, 115] @ [0])) \<le> 1024" by (simp add: plain_dtls_def plain_seal_def)
  have q: "seal ?p (\<not> t_server client_up) (t_got client_up) (?pre @ ?m) = plain_seal [50, 48, 48, 62, 32, 111, 107, 0]" by (simp add: plain_dtls_def)
  have l: "length ?pre = 5" "length [108, 115 :: byte] \<le> 1022" "[9, 9, 9, 9 :: byte] \<noteq> []" "length (plain_seal [50, 48, 48, 62, 32, 111, 107, 0]) \<le> 1024"
    by (simp_all add: plain_seal_def)
  show ?thesis
    using secure_request_defects [OF plain_link.quiet_link_axioms t l(1) s l(2,3), where m = ?m and timeout = "-1", THEN conjunct1, rule_format,
        OF demo_up_view [of SECURE_INTENT_CLIENT client_up "[seal ?p (\<not> t_server client_up) (t_got client_up) (?pre @ ?m)]"]] l(4)
    unfolding q code by auto
qed

text \<open>
  Property C12. The buffers of 1024 bytes. When the first flight of the client fits but the first flight of the server (hello, certificate chain, key exchange) is
  longer than 1024 bytes, the server sends its first 1024 bytes only. The client that gets these gives up: its connection is not created and the object is destroyed; and so does the server,
  once its transport reports that nothing more comes. When a message of at most 16384 bytes is longer than 1024 bytes after sealing, \<^verbatim>\<open>write\<close> sends the
  first 1024 bytes, reports them as written and keeps the rest, and the peer that reads these 1024 bytes gets an error.
\<close>

theorem secure_buffers:
  assumes "secure_link api p absn io mode inq outq"
  shows "(a_ctx_new api \<longrightarrow> a_random api = 0 \<longrightarrow> length (flight p 0) \<le> 1024 \<longrightarrow> 1024 < length (flight p 1) \<longrightarrow>
      inq (sc_world cj) = [take 1024 (flight p 1)] \<longrightarrow> outq (sc_world cj) = [] \<longrightarrow> inq (sc_world sj) = [flight p 0] \<longrightarrow> outq (sc_world sj) = [] \<longrightarrow>
      (\<exists>c. create_connection api io mode SECURE_INTENT_CLIENT cert privKey None cj = Some (False, c) \<and> sc_deleted c = 1 \<and>
        outq (sc_world c) = inq (sc_world sj)) \<and>
      (quiet_link api p absn io mode inq outq \<longrightarrow>
        (\<exists>s. create_connection api io mode SECURE_INTENT_SERVER cert privKey None sj = Some (False, s) \<and> sc_deleted s = 1 \<and>
          outq (sc_world s) = inq (sc_world cj)))) \<and>
    (conn_view absn mode inq outq a i t st q out \<longrightarrow> t_phase t = 4 \<longrightarrow> t_out t = [] \<longrightarrow> d \<noteq> [] \<longrightarrow> length d \<le> 16384 \<longrightarrow>
      1024 < length (seal p (t_server t) (t_sent t) d) \<longrightarrow>
      conn_view absn mode inq outq b i' u st' (take 1024 (seal p (t_server t) (t_sent t) d) # q') out' \<longrightarrow>
      t_phase u = 4 \<longrightarrow> t_in u = [] \<longrightarrow> t_plain u = [] \<longrightarrow> t_server u = (\<not> t_server t) \<longrightarrow> t_got u = t_sent t \<longrightarrow>
      (\<exists>a' b'. SecureConnection_write api io d timeout a = Some (1024, a') \<and>
        conn_view absn mode inq outq a' i (t\<lparr>t_out := drop 1024 (seal p (t_server t) (t_sent t) d), t_sent := t_sent t + 1\<rparr>) st q
          (out @ [take 1024 (seal p (t_server t) (t_sent t) d)]) \<and>
        SecureConnection_read api io n timeout b = Some (-1, [], b')))"
proof (rule conjI; intro impI)
  assume a: "a_ctx_new api" "a_random api = 0" "length (flight p 0) \<le> 1024" "1024 < length (flight p 1)"
    "inq (sc_world cj) = [take 1024 (flight p 1)]" "outq (sc_world cj) = []" "inq (sc_world sj) = [flight p 0]" "outq (sc_world sj) = []"
  show "(\<exists>c. create_connection api io mode SECURE_INTENT_CLIENT cert privKey None cj = Some (False, c) \<and> sc_deleted c = 1 \<and>
        outq (sc_world c) = inq (sc_world sj)) \<and>
      (quiet_link api p absn io mode inq outq \<longrightarrow>
        (\<exists>s. create_connection api io mode SECURE_INTENT_SERVER cert privKey None sj = Some (False, s) \<and> sc_deleted s = 1 \<and>
          outq (sc_world s) = inq (sc_world cj)))"
    using secure_link.create_stuck [OF assms a(3,4,1,2,5,6)] quiet_link.create_stuck_server [of api p absn io mode inq outq sj cert privKey]
      a(1-3,7,8) unfolding a(5) by auto
next
  assume a: "conn_view absn mode inq outq a i t st q out" "t_phase t = 4" "t_out t = []" "d \<noteq> []" "length d \<le> 16384"
      "1024 < length (seal p (t_server t) (t_sent t) d)"
    and b: "conn_view absn mode inq outq b i' u st' (take 1024 (seal p (t_server t) (t_sent t) d) # q') out'"
      "t_phase u = 4" "t_in u = []" "t_plain u = []" "t_server u = (\<not> t_server t)" "t_got u = t_sent t"
  have "\<exists>b'. SecureConnection_read api io n timeout b = Some (-1, [], b')"
    using secure_link.read_cut [OF assms, of b i' u st' d q' out' n timeout] a(4,6) b by simp
  then show "\<exists>a' b'. SecureConnection_write api io d timeout a = Some (1024, a') \<and>
        conn_view absn mode inq outq a' i (t\<lparr>t_out := drop 1024 (seal p (t_server t) (t_sent t) d), t_sent := t_sent t + 1\<rparr>) st q
          (out @ [take 1024 (seal p (t_server t) (t_sent t) d)]) \<and>
        SecureConnection_read api io n timeout b = Some (-1, [], b')"
    using secure_link.write_view [OF assms a(1,2,4,5), of timeout] a(3,6) by auto
qed

text \<open>A server whose certificate chain is long.\<close>

definition long_flights :: "nat \<Rightarrow> byte list" where
  "long_flights i = (if i = 1 then replicate 1500 7 else [word_of_nat i + 1, 7])"

lemma long_link: "quiet_link (ref_api (plain_dtls long_flights)) (plain_dtls long_flights) (\<lambda>t. t) wire_io SECURE_IOMODE_FDS fst snd"
  by (rule ref_link [OF plain_dtls_ok]) (simp_all add: long_flights_def)

theorem secure_buffers_witness:
  "(\<exists>c s. create_connection (ref_api (plain_dtls long_flights)) wire_io SECURE_IOMODE_FDS SECURE_INTENT_CLIENT ''c'' ''k'' None
      (demo_conn [replicate 1024 7]) = Some (False, c) \<and> sc_deleted c = 1 \<and>
    create_connection (ref_api (plain_dtls long_flights)) wire_io SECURE_IOMODE_FDS SECURE_INTENT_SERVER ''c'' ''k'' None
      (demo_conn [[1, 7]]) = Some (False, s) \<and> snd (sc_world s) = [replicate 1024 7]) \<and>
   (\<exists>a' b'. SecureConnection_write (ref_api (plain_dtls long_flights)) wire_io (replicate 600 5) (-1) (demo_up SECURE_INTENT_CLIENT client_up []) = Some (1024, a') \<and>
    SecureConnection_read (ref_api (plain_dtls long_flights)) wire_io 700 (-1)
      (demo_up SECURE_INTENT_SERVER server_up [take 1024 (plain_seal (replicate 600 5))]) = Some (-1, [], b'))"
proof
  let ?p = "plain_dtls long_flights"
  note sb = secure_buffers [OF quiet_link.axioms(1) [OF long_link]]
  have f: "flight ?p 0 = [1, 7]" "flight ?p 1 = replicate 1500 7" "take 1024 (replicate 1500 (7 :: byte)) = replicate 1024 7"
    by (simp_all add: plain_dtls_def long_flights_def)
  have k: "a_ctx_new (ref_api ?p)" "a_random (ref_api ?p) = 0" "length [1, 7 :: byte] \<le> 1024" "1024 < length (replicate 1500 (7 :: byte))"
    "fst (sc_world (demo_conn q)) = q" "snd (sc_world (demo_conn q)) = []" for q
    by (simp_all add: ref_api_def demo_conn_def)
  show "\<exists>c s. create_connection (ref_api ?p) wire_io SECURE_IOMODE_FDS SECURE_INTENT_CLIENT ''c'' ''k'' None
      (demo_conn [replicate 1024 7]) = Some (False, c) \<and> sc_deleted c = 1 \<and>
    create_connection (ref_api ?p) wire_io SECURE_IOMODE_FDS SECURE_INTENT_SERVER ''c'' ''k'' None
      (demo_conn [[1, 7]]) = Some (False, s) \<and> snd (sc_world s) = [replicate 1024 7]"
    using sb [THEN conjunct1, rule_format, unfolded f, OF k(1-5) k(6) k(5) k(6), of "''c''" "''k''"] long_link unfolding k by blast
  have l: "1024 < length (plain_seal (replicate 600 (5 :: byte)))" by (simp add: plain_seal_def)
  have s: "seal ?p r k d = plain_seal d" for r k d by (simp add: plain_dtls_def)
  have t: "t_phase client_up = 4" "t_out client_up = []" "t_phase server_up = 4" "t_in server_up = []" "t_plain server_up = []"
    "t_server server_up = (\<not> t_server client_up)" "t_got server_up = t_sent client_up"
    by (simp_all add: client_up_def server_up_def tls_new_def)
  show "\<exists>a' b'. SecureConnection_write (ref_api ?p) wire_io (replicate 600 5) (-1) (demo_up SECURE_INTENT_CLIENT client_up []) = Some (1024, a') \<and>
    SecureConnection_read (ref_api ?p) wire_io 700 (-1)
      (demo_up SECURE_INTENT_SERVER server_up [take 1024 (plain_seal (replicate 600 5))]) = Some (-1, [], b')"
    using sb [where d = "replicate 600 5" and n = 700 and timeout = "-1", THEN conjunct2, rule_format,
        OF demo_up_view [of SECURE_INTENT_CLIENT client_up "[]"], unfolded s, OF t(1,2) _ _ l demo_up_view t(3-7)] by auto
qed

end
