(* ===== verification/NetEx_Hp.thy ===== *)
theory NetEx_Hp
  imports Secure_Props
begin

text \<open>
  The server of \<^verbatim>\<open>LibNetEx/NetExHpServer.cpp\<close>: callbacks of libevent that open a connection, feed its input to a secure connection
  without a transport of its own, and close it. The result of \<^verbatim>\<open>bufferevent_write\<close> and the handlers of the user are parameters; the data
  handler is described by the messages that it writes back.
\<close>

section \<open>State\<close>

datatype hp_call = CallOpen | CallData "byte list" int | CallClose

text \<open>
  \<open>hp_out\<close> lists what was accepted by \<^verbatim>\<open>bufferevent_write\<close>, \<open>hp_log\<close> the calls of the handlers; the flags say which handlers are
  set. \<open>hp_freed\<close> holds after \<^verbatim>\<open>free(ctx)\<close>.
\<close>

record 's NetExHpContext =
  hp_sc :: "('s, unit) SecureConnection option"
  hp_openHandler :: bool
  hp_closeHandler :: bool
  hp_dataHandler :: bool
  hp_workerNo :: int
  hp_clientIp :: string
  hp_out :: "byte list list"
  hp_log :: "hp_call list"
  hp_freed :: bool

text \<open>The context of the server loop, from which those of the connections are made.\<close>

record hp_server =
  sv_openHandler :: bool
  sv_closeHandler :: bool
  sv_dataHandler :: bool
  sv_workerNo :: int
  sv_cert :: "string option"
  sv_privKey :: "string option"
  sv_privKeyPass :: "string option"

type_synonym bev_result = "byte list list \<Rightarrow> byte list \<Rightarrow> int"

definition bev_write :: "bev_result \<Rightarrow> byte list \<Rightarrow> 's NetExHpContext \<Rightarrow> int \<times> 's NetExHpContext" where
  "bev_write bw d ctx = (let r = bw (hp_out ctx) d in (r, if r = 0 then ctx\<lparr>hp_out := hp_out ctx @ [d]\<rparr> else ctx))"

section \<open>Writing\<close>

text \<open>A result of -1 of \<^verbatim>\<open>encrypt\<close> is passed on as the size of the data.\<close>

definition hp_write :: "'s ssl_api \<Rightarrow> bev_result \<Rightarrow> byte list \<Rightarrow> 's NetExHpContext \<Rightarrow> (int \<times> 's NetExHpContext) run" where
  "hp_write api bw d ctx =
     (case hp_sc ctx of
        None \<Rightarrow> (case bev_write bw d ctx of (r, ctx) \<Rightarrow> Some (if r = 0 then int (length d) else -1, ctx))
      | Some c \<Rightarrow>
          if int (length d) * 2 > int_max then None
          else do {
            let encryptBufferSize = max 8096 (length d * 2);
            (n, bs, c) \<leftarrow> SecureConnection_encrypt api encryptBufferSize d c;
            b \<leftarrow> mem_write (replicate encryptBufferSize 0) 0 bs;
            e \<leftarrow> mem_read b 0 (size_t n);
            let (r, ctx) = bev_write bw e (ctx\<lparr>hp_sc := Some c\<rparr>);
            Some (if r = 0 then int (length d) else -1, ctx) })"

definition NetExHpWrite ::
    "'s ssl_api \<Rightarrow> bev_result \<Rightarrow> 's NetExHpContext option \<Rightarrow> byte list \<Rightarrow> (int \<times> 's NetExHpContext option) run" where
  "NetExHpWrite api bw ctx d =
     (case ctx of
        None \<Rightarrow> Some (-1, None)
      | Some ctx \<Rightarrow> if hp_freed ctx then None else map_option (\<lambda>(r, ctx). (r, Some ctx)) (hp_write api bw d ctx))"

fun hp_writes :: "'s ssl_api \<Rightarrow> bev_result \<Rightarrow> byte list list \<Rightarrow> 's NetExHpContext \<Rightarrow> 's NetExHpContext run" where
  "hp_writes api bw [] ctx = Some ctx"
| "hp_writes api bw (d # ds) ctx =
     (case NetExHpWrite api bw (Some ctx) d of
        Some (_, Some ctx) \<Rightarrow> hp_writes api bw ds ctx
      | _ \<Rightarrow> None)"

text \<open>The data handler gets a buffer and a length and writes the messages \<open>dh d len\<close>.\<close>

definition call_data ::
    "'s ssl_api \<Rightarrow> bev_result \<Rightarrow> (byte list \<Rightarrow> int \<Rightarrow> byte list list) \<Rightarrow> byte list \<Rightarrow> int \<Rightarrow> 's NetExHpContext \<Rightarrow> 's NetExHpContext run" where
  "call_data api bw dh d len ctx =
     (if hp_dataHandler ctx then hp_writes api bw (dh d len) (ctx\<lparr>hp_log := hp_log ctx @ [CallData d len]\<rparr>) else Some ctx)"

section \<open>Callbacks\<close>

definition NetExHpEventCallback :: "'s NetExHpContext \<Rightarrow> 's NetExHpContext run" where
  "NetExHpEventCallback ctx =
     (if hp_freed ctx then None
      else do {
        let ctx = (if hp_closeHandler ctx then ctx\<lparr>hp_log := hp_log ctx @ [CallClose]\<rparr> else ctx);
        _ \<leftarrow> (case hp_sc ctx of None \<Rightarrow> Some () | Some c \<Rightarrow> map_option (\<lambda>_. ()) (SecureConnection_release c));
        Some (ctx\<lparr>hp_sc := None, hp_freed := True\<rparr>) })"

text \<open>
  The results of \<^verbatim>\<open>calloc\<close>, \<^verbatim>\<open>accept\<close> and \<^verbatim>\<open>bufferevent_socket_new\<close> are arguments, with the address of the client as text. The result is the context
  that is registered with libevent, or \<^const>\<open>None\<close> when the connection was refused.
\<close>

definition NetExHpOpenCallback ::
    "'s ssl_api \<Rightarrow> unit sec_io \<Rightarrow> bool \<Rightarrow> int \<Rightarrow> string \<Rightarrow> bool \<Rightarrow> hp_server \<Rightarrow> ('s, unit) SecureConnection \<Rightarrow> 's NetExHpContext option run" where
  "NetExHpOpenCallback api io alloc clientfd ip bev sv junk =
     (if \<not> alloc \<or> clientfd < 0 \<or> \<not> bev then Some None
      else do {
        (ok, sc) \<leftarrow>
          (case (sv_cert sv, sv_privKey sv) of
             (Some cert, Some key) \<Rightarrow> do {
               (ok, c) \<leftarrow> SecureConnectionCreate_custom api io SECURE_INTENT_SERVER cert key (sv_privKeyPass sv) junk;
               Some (ok, Some c) }
           | _ \<Rightarrow> Some (True, None));
        if \<not> ok then Some None
        else Some (Some \<lparr>hp_sc = sc, hp_openHandler = sv_openHandler sv, hp_closeHandler = sv_closeHandler sv,
               hp_dataHandler = sv_dataHandler sv, hp_workerNo = sv_workerNo sv, hp_clientIp = take 15 ip, hp_out = [],
               hp_log = (if sv_openHandler sv then [CallOpen] else []), hp_freed = False\<rparr>) })"

text \<open>Input on an established session, and during the handshake with its buffer \<^verbatim>\<open>toWrite\<close> of 1024 bytes.\<close>

definition hp_read_established ::
    "'s ssl_api \<Rightarrow> bev_result \<Rightarrow> (byte list \<Rightarrow> int \<Rightarrow> byte list list) \<Rightarrow> byte list \<Rightarrow> ('s, unit) SecureConnection \<Rightarrow>
      's NetExHpContext \<Rightarrow> 's NetExHpContext run" where
  "hp_read_established api bw dh buf c ctx = do {
     (n, bs, c) \<leftarrow> SecureConnection_decrypt api (length buf) buf c;
     b \<leftarrow> mem_write (replicate (length buf) 0) 0 bs;
     call_data api bw dh (take (nat n) b) n (ctx\<lparr>hp_sc := Some c\<rparr>) }"

definition hp_read_handshake ::
    "'s ssl_api \<Rightarrow> unit sec_io \<Rightarrow> bev_result \<Rightarrow> byte list \<Rightarrow> byte list \<Rightarrow> ('s, unit) SecureConnection \<Rightarrow>
      's NetExHpContext \<Rightarrow> 's NetExHpContext run" where
  "hp_read_handshake api io bw toWrite buf c ctx = do {
     (rc, outp, c) \<leftarrow> SecureConnection_handshakeStep_custom api io (toWrite, 1024) (buf, int (length buf)) c;
     let ctx = ctx\<lparr>hp_sc := Some c\<rparr>;
     if rc = 0 then
       (case outp of
          None \<Rightarrow> None
        | Some (b, n) \<Rightarrow> if n > 0 then do { d \<leftarrow> mem_read b 0 (nat n); Some (snd (bev_write bw d ctx)) } else Some ctx)
     else NetExHpEventCallback ctx }"

definition NetExHpReadCallback ::
    "'s ssl_api \<Rightarrow> unit sec_io \<Rightarrow> bev_result \<Rightarrow> (byte list \<Rightarrow> int \<Rightarrow> byte list list) \<Rightarrow> byte list \<Rightarrow> byte list \<Rightarrow>
      's NetExHpContext \<Rightarrow> 's NetExHpContext run" where
  "NetExHpReadCallback api io bw dh toWrite buf ctx =
     (if hp_freed ctx then None
      else case hp_sc ctx of
             None \<Rightarrow> call_data api bw dh buf (int (length buf)) ctx
           | Some c \<Rightarrow>
               if SecureConnection_getState c = SECURE_STATE_ESTABLISHED then hp_read_established api bw dh buf c ctx
               else if SecureConnection_getState c \<in> {SECURE_STATE_HANDSHAKE_READ, SECURE_STATE_HANDSHAKE_WRITE}
               then hp_read_handshake api io bw toWrite buf c ctx
               else Some ctx)"

text \<open>A sequence of inputs.\<close>

fun hp_feed ::
    "'s ssl_api \<Rightarrow> unit sec_io \<Rightarrow> bev_result \<Rightarrow> (byte list \<Rightarrow> int \<Rightarrow> byte list list) \<Rightarrow> byte list \<Rightarrow> byte list list \<Rightarrow>
      's NetExHpContext \<Rightarrow> 's NetExHpContext run" where
  "hp_feed api io bw dh toWrite [] ctx = Some ctx"
| "hp_feed api io bw dh toWrite (x # xs) ctx = do {
     ctx \<leftarrow> NetExHpReadCallback api io bw dh toWrite x ctx;
     hp_feed api io bw dh toWrite xs ctx }"

section \<open>Handshakes\<close>

text \<open>A connection of the server in a given state.\<close>

definition hp_view :: "('s \<Rightarrow> tls) \<Rightarrow> 's NetExHpContext \<Rightarrow> tls \<Rightarrow> int \<Rightarrow> bool" where
  "hp_view absn ctx t st \<longleftrightarrow> \<not> hp_freed ctx \<and> (\<exists>c s. hp_sc ctx = Some c \<and> sc_ssl c = Some s \<and> absn s = t \<and> sc_state c = st \<and>
     sc_intent c = SECURE_INTENT_SERVER \<and> sc_ioMode c = SECURE_IOMODE_NONE \<and> sc_refCount c = 1)"

definition bev_accepts :: "bev_result \<Rightarrow> bool" where
  "bev_accepts bw \<longleftrightarrow> (\<forall>out d. bw out d = 0)"

lemmas state_defs = SECURE_STATE_ESTABLISHED_def SECURE_STATE_HANDSHAKE_READ_def SECURE_STATE_HANDSHAKE_WRITE_def

context dtls_session
begin

text \<open>The two halves of a step with separate buffers.\<close>

lemma custom_input:
  assumes "sc_ssl c = Some s" "absn s = t" "sc_state c = SECURE_STATE_HANDSHAKE_READ" "sc_ioMode c = SECURE_IOMODE_NONE"
    "t_phase t \<noteq> 4" "x \<noteq> []" "length x \<le> 1024"
  shows "\<exists>s'. SecureConnection_handshakeStep api io (Some (x, int (length x))) c =
      Some (0, Some (x, int (length x)), c\<lparr>sc_ssl := Some s', sc_state := SECURE_STATE_HANDSHAKE_WRITE\<rparr>) \<and>
    absn s' = tls_handshake p (t\<lparr>t_in := t_in t @ x\<rparr>)"
proof -
  obtain s2 where s2: "a_bio_write api s x = (int (length x), s2)" "absn s2 = t\<lparr>t_in := t_in t @ x\<rparr>"
    using bio_write_law [of s x] assms(2) by (auto simp: tls_bio_write_def)
  have nf: "\<not> a_is_init_finished api s" "\<not> a_is_init_finished api s2" using assms(2,5) s2 by (simp_all add: finished_law)
  have m: "mem_read x 0 (size_t (int (length x))) = Some x" using assms(7) by (simp add: mem_read_def)
  have "hs_read api io (Some (x, int (length x))) c =
      Some (True, c\<lparr>sc_ssl := Some (a_do_handshake api s2), sc_state := SECURE_STATE_HANDSHAKE_WRITE\<rparr>)"
    using assms(1,4,6) s2(1) nf m local_buffer_all [OF refl assms(7)] by (simp add: hs_read_def)
  then have "SecureConnection_handshakeStep api io (Some (x, int (length x))) c =
      Some (0, Some (x, int (length x)), c\<lparr>sc_ssl := Some (a_do_handshake api s2), sc_state := SECURE_STATE_HANDSHAKE_WRITE\<rparr>)"
    using assms(1,3) nf by (simp add: SecureConnection_handshakeStep_def send_ok_msg_def state_defs)
  then show ?thesis using handshake_law [of s2] s2(2) by auto
qed

lemma custom_output:
  assumes "sc_ssl c = Some s" "absn s = t" "sc_state c = SECURE_STATE_HANDSHAKE_WRITE" "sc_ioMode c = SECURE_IOMODE_NONE"
    "t_phase t \<noteq> 4" "t' = tls_handshake p t" "t_phase t' \<noteq> 4" "t_out t' \<noteq> []" "length (t_out t') \<le> 1024" "length b = 1024"
  shows "\<exists>s'. SecureConnection_handshakeStep api io (Some (b, 1024)) c =
      Some (0, Some (t_out t' @ drop (length (t_out t')) b, int (length (t_out t'))), c\<lparr>sc_ssl := Some s', sc_state := SECURE_STATE_HANDSHAKE_READ\<rparr>) \<and>
    absn s' = t'\<lparr>t_out := []\<rparr>"
proof -
  obtain s2 where s2: "a_bio_read api (a_do_handshake api s) 1024 = (int (length (t_out t')), t_out t', s2)" "absn s2 = t'\<lparr>t_out := []\<rparr>"
    using bio_read_law [of "a_do_handshake api s" 1024] assms(2,6,8,9) handshake_law [of s] by (auto simp: tls_bio_read_def)
  have nf: "\<not> a_is_init_finished api s" "\<not> a_is_init_finished api s2" using assms(2,5,7) s2 by (simp_all add: finished_law)
  have "mem_write b 0 (t_out t') = Some (t_out t' @ drop (length (t_out t')) b)" using assms(9,10) by (simp add: mem_write_def)
  then have "hs_write api io (Some (b, 1024)) c = Some (True, Some (t_out t' @ drop (length (t_out t')) b, int (length (t_out t'))),
      c\<lparr>sc_ssl := Some s2, sc_state := SECURE_STATE_HANDSHAKE_READ\<rparr>)"
    using assms(1,4,8,9) s2(1) nf local_buffer_all [OF refl assms(9)] by (simp add: hs_write_def)
  then have "SecureConnection_handshakeStep api io (Some (b, 1024)) c =
      Some (0, Some (t_out t' @ drop (length (t_out t')) b, int (length (t_out t'))), c\<lparr>sc_ssl := Some s2, sc_state := SECURE_STATE_HANDSHAKE_READ\<rparr>)"
    using assms(1,3) nf by (simp add: SecureConnection_handshakeStep_def send_ok_msg_def state_defs)
  then show ?thesis using s2(2) by blast
qed

lemma custom_end:
  assumes "sc_ssl c = Some s" "absn s = t" "sc_ioMode c = SECURE_IOMODE_NONE" "sc_intent c = SECURE_INTENT_SERVER"
    "t_phase t = 4" "x = t_out t @ seal p (t_server t) (t_sent t) [79, 75]" "length x \<le> 1024" "length b = 1024"
  shows "\<exists>s'. SecureConnection_handshakeStep api io (Some (b, 1024)) c =
      Some (0, Some (x @ drop (length x) b, int (length x)), c\<lparr>sc_ssl := Some s', sc_state := SECURE_STATE_ESTABLISHED\<rparr>) \<and>
    absn s' = t\<lparr>t_out := [], t_sent := t_sent t + 1\<rparr>"
proof -
  have f: "a_is_init_finished api s" using assms(2,5) by (simp add: finished_law)
  obtain s2 where s2: "SecureConnection_encrypt api 1024 [79, 75] (c\<lparr>sc_state := SECURE_STATE_ESTABLISHED\<rparr>) =
        Some (int (length x), x, c\<lparr>sc_state := SECURE_STATE_ESTABLISHED, sc_ssl := Some s2\<rparr>)" "absn s2 = t\<lparr>t_out := [], t_sent := t_sent t + 1\<rparr>"
    using encrypt_ssl [of "c\<lparr>sc_state := SECURE_STATE_ESTABLISHED\<rparr>" s "[79, 75]" x 1024] assms by auto
  have "mem_write b 0 x = Some (x @ drop (length x) b)" using assms(7,8) by (simp add: mem_write_def)
  then have "SecureConnection_handshakeStep api io (Some (b, 1024)) c =
      Some (0, Some (x @ drop (length x) b, int (length x)), c\<lparr>sc_state := SECURE_STATE_ESTABLISHED, sc_ssl := Some s2\<rparr>)"
    using assms(1,3,4) f s2(1)
    by (simp add: SecureConnection_handshakeStep_def read_ok_def send_ok_msg_def SECURE_INTENT_SERVER_def SECURE_INTENT_CLIENT_def)
  then show ?thesis using s2(2) by (intro exI [of _ s2]) simp
qed

text \<open>The handshake through the callbacks.\<close>

lemma hp_step:
  assumes "hp_view absn ctx t SECURE_STATE_HANDSHAKE_READ" "t_phase t \<noteq> 4" "x \<noteq> []" "length x \<le> 1024" "bev_accepts bw" "length toWrite = 1024"
    "t' = tls_handshake p (t\<lparr>t_in := t_in t @ x\<rparr>)" "t_phase t' \<noteq> 4" "tls_handshake p t' = t'" "t_out t' \<noteq> []" "length (t_out t') \<le> 1024"
  shows "\<exists>c'. NetExHpReadCallback api io bw dh toWrite x ctx = Some (ctx\<lparr>hp_sc := Some c', hp_out := hp_out ctx @ [t_out t']\<rparr>) \<and>
    hp_view absn (ctx\<lparr>hp_sc := Some c', hp_out := hp_out ctx @ [t_out t']\<rparr>) (t'\<lparr>t_out := []\<rparr>) SECURE_STATE_HANDSHAKE_READ"
proof -
  obtain c s where c: "hp_sc ctx = Some c" "sc_ssl c = Some s" "absn s = t" "sc_state c = SECURE_STATE_HANDSHAKE_READ" "\<not> hp_freed ctx"
      "sc_intent c = SECURE_INTENT_SERVER" "sc_ioMode c = SECURE_IOMODE_NONE" "sc_refCount c = 1"
    using assms(1) by (auto simp: hp_view_def)
  obtain s1 where s1: "SecureConnection_handshakeStep api io (Some (x, int (length x))) c =
        Some (0, Some (x, int (length x)), c\<lparr>sc_ssl := Some s1, sc_state := SECURE_STATE_HANDSHAKE_WRITE\<rparr>)" "absn s1 = t'"
    using custom_input [OF c(2-4,7) assms(2-4), of io] assms(7) by auto
  let ?c1 = "c\<lparr>sc_ssl := Some s1, sc_state := SECURE_STATE_HANDSHAKE_WRITE\<rparr>"
  obtain s2 where s2: "SecureConnection_handshakeStep api io (Some (toWrite, 1024)) ?c1 =
        Some (0, Some (t_out t' @ drop (length (t_out t')) toWrite, int (length (t_out t'))), ?c1\<lparr>sc_ssl := Some s2, sc_state := SECURE_STATE_HANDSHAKE_READ\<rparr>)"
      "absn s2 = t'\<lparr>t_out := []\<rparr>"
    using custom_output [of ?c1 s1 t' t' toWrite io] s1(2) c(7) assms(6,8-11) by auto
  let ?c2 = "c\<lparr>sc_ssl := Some s2, sc_state := SECURE_STATE_HANDSHAKE_READ\<rparr>"
  have "SecureConnection_handshakeStep_custom api io (toWrite, 1024) (x, int (length x)) c =
      Some (0, Some (t_out t' @ drop (length (t_out t')) toWrite, int (length (t_out t'))), ?c2)"
    using s1(1) s2(1) by (simp add: SecureConnection_handshakeStep_custom_def state_defs)
  then have "NetExHpReadCallback api io bw dh toWrite x ctx = Some (ctx\<lparr>hp_sc := Some ?c2, hp_out := hp_out ctx @ [t_out t']\<rparr>)"
    using c assms(5,6,10,11)
    by (simp add: NetExHpReadCallback_def SecureConnection_getState_def state_defs hp_read_handshake_def bev_write_def bev_accepts_def mem_read_def)
  moreover have "hp_view absn (ctx\<lparr>hp_sc := Some ?c2, hp_out := hp_out ctx @ [t_out t']\<rparr>) (t'\<lparr>t_out := []\<rparr>) SECURE_STATE_HANDSHAKE_READ"
    using c s2(2) by (simp add: hp_view_def)
  ultimately show ?thesis by blast
qed

lemma hp_last_step:
  assumes "hp_view absn ctx t SECURE_STATE_HANDSHAKE_READ" "t_phase t \<noteq> 4" "x \<noteq> []" "length x \<le> 1024" "bev_accepts bw" "length toWrite = 1024"
    "t' = tls_handshake p (t\<lparr>t_in := t_in t @ x\<rparr>)" "t_phase t' = 4" "y = t_out t' @ seal p (t_server t') (t_sent t') [79, 75]" "length y \<le> 1024"
  shows "\<exists>c'. NetExHpReadCallback api io bw dh toWrite x ctx = Some (ctx\<lparr>hp_sc := Some c', hp_out := hp_out ctx @ [y]\<rparr>) \<and>
    hp_view absn (ctx\<lparr>hp_sc := Some c', hp_out := hp_out ctx @ [y]\<rparr>) (t'\<lparr>t_out := [], t_sent := t_sent t' + 1\<rparr>) SECURE_STATE_ESTABLISHED"
proof -
  obtain c s where c: "hp_sc ctx = Some c" "sc_ssl c = Some s" "absn s = t" "sc_state c = SECURE_STATE_HANDSHAKE_READ" "\<not> hp_freed ctx"
      "sc_intent c = SECURE_INTENT_SERVER" "sc_ioMode c = SECURE_IOMODE_NONE" "sc_refCount c = 1"
    using assms(1) by (auto simp: hp_view_def)
  obtain s1 where s1: "SecureConnection_handshakeStep api io (Some (x, int (length x))) c =
        Some (0, Some (x, int (length x)), c\<lparr>sc_ssl := Some s1, sc_state := SECURE_STATE_HANDSHAKE_WRITE\<rparr>)" "absn s1 = t'"
    using custom_input [OF c(2-4,7) assms(2-4), of io] assms(7) by auto
  let ?c1 = "c\<lparr>sc_ssl := Some s1, sc_state := SECURE_STATE_HANDSHAKE_WRITE\<rparr>"
  obtain s2 where s2: "SecureConnection_handshakeStep api io (Some (toWrite, 1024)) ?c1 =
        Some (0, Some (y @ drop (length y) toWrite, int (length y)), ?c1\<lparr>sc_ssl := Some s2, sc_state := SECURE_STATE_ESTABLISHED\<rparr>)"
      "absn s2 = t'\<lparr>t_out := [], t_sent := t_sent t' + 1\<rparr>"
    using custom_end [of ?c1 s1 t' y toWrite io] s1(2) c(6,7) assms(6,8-10) by auto
  let ?c2 = "c\<lparr>sc_ssl := Some s2, sc_state := SECURE_STATE_ESTABLISHED\<rparr>"
  have y: "y \<noteq> []" using seal_ne [OF params, of "[79, 75]"] assms(9) by simp
  have "SecureConnection_handshakeStep_custom api io (toWrite, 1024) (x, int (length x)) c =
      Some (0, Some (y @ drop (length y) toWrite, int (length y)), ?c2)"
    using s1(1) s2(1) by (simp add: SecureConnection_handshakeStep_custom_def state_defs)
  then have "NetExHpReadCallback api io bw dh toWrite x ctx = Some (ctx\<lparr>hp_sc := Some ?c2, hp_out := hp_out ctx @ [y]\<rparr>)"
    using c assms(5,6,10) y
    by (simp add: NetExHpReadCallback_def SecureConnection_getState_def state_defs hp_read_handshake_def bev_write_def bev_accepts_def mem_read_def)
  moreover have "hp_view absn (ctx\<lparr>hp_sc := Some ?c2, hp_out := hp_out ctx @ [y]\<rparr>) (t'\<lparr>t_out := [], t_sent := t_sent t' + 1\<rparr>) SECURE_STATE_ESTABLISHED"
    using c s2(2) by (simp add: hp_view_def)
  ultimately show ?thesis by blast
qed

lemma hp_handshake:
  assumes "hp_view absn ctx (tls_new True) SECURE_STATE_HANDSHAKE_READ" "hs_fits p" "bev_accepts bw" "length toWrite = 1024"
  shows "\<exists>c'. hp_feed api io bw dh toWrite [flight p 0, flight p 2] ctx =
      Some (ctx\<lparr>hp_sc := Some c', hp_out := hp_out ctx @ [flight p 1, flight p 3 @ seal p True 0 [79, 75]]\<rparr>) \<and>
    hp_view absn (ctx\<lparr>hp_sc := Some c', hp_out := hp_out ctx @ [flight p 1, flight p 3 @ seal p True 0 [79, 75]]\<rparr>) server_up SECURE_STATE_ESTABLISHED"
proof -
  note ts = tls_server [OF params]
  have f: "flight p 0 \<noteq> []" "flight p 1 \<noteq> []" "flight p 2 \<noteq> []" using flight_ne [OF params] by simp_all
  have l: "length (flight p 0) \<le> 1024" "length (flight p 1) \<le> 1024" "length (flight p 2) \<le> 1024"
      "length (flight p 3 @ seal p True 0 [79, 75]) \<le> 1024" using assms(2) by (simp_all add: hs_fits_def)
  let ?t1 = "(tls_new True)\<lparr>t_out := flight p 1, t_phase := 2\<rparr>" and ?t2 = "(tls_new True)\<lparr>t_out := flight p 3, t_phase := 4\<rparr>"
  obtain c1 where c1: "NetExHpReadCallback api io bw dh toWrite (flight p 0) ctx = Some (ctx\<lparr>hp_sc := Some c1, hp_out := hp_out ctx @ [flight p 1]\<rparr>)"
      "hp_view absn (ctx\<lparr>hp_sc := Some c1, hp_out := hp_out ctx @ [flight p 1]\<rparr>) ((tls_new True)\<lparr>t_phase := 2\<rparr>) SECURE_STATE_HANDSHAKE_READ"
    using hp_step [OF assms(1) _ f(1) l(1) assms(3,4), of ?t1 io dh] ts(1,2) f(2) l(2) by (auto simp: tls_new_def)
  define ctx1 where "ctx1 = ctx\<lparr>hp_sc := Some c1, hp_out := hp_out ctx @ [flight p 1]\<rparr>"
  obtain c2 where c2: "NetExHpReadCallback api io bw dh toWrite (flight p 2) ctx1 =
        Some (ctx1\<lparr>hp_sc := Some c2, hp_out := hp_out ctx1 @ [flight p 3 @ seal p True 0 [79, 75]]\<rparr>)"
      "hp_view absn (ctx1\<lparr>hp_sc := Some c2, hp_out := hp_out ctx1 @ [flight p 3 @ seal p True 0 [79, 75]]\<rparr>) server_up SECURE_STATE_ESTABLISHED"
    using hp_last_step [OF c1(2) _ f(3) l(3) assms(3,4), of ?t2 _ io dh] ts(3) l(4) by (auto simp: tls_new_def server_up_def ctx1_def)
  show ?thesis using c1(1) c2 by (auto simp: ctx1_def)
qed

end

section \<open>Messages\<close>

text \<open>Replies that OpenSSL seals, and that fit into the buffer for the sealed message.\<close>

fun replies_ok :: "dtls \<Rightarrow> nat \<Rightarrow> byte list list \<Rightarrow> bool" where
  "replies_ok p k [] \<longleftrightarrow> True"
| "replies_ok p k (r # rs) \<longleftrightarrow> r \<noteq> [] \<and> length r \<le> 16384 \<and> length (seal p True k r) \<le> max 8096 (length r * 2) \<and>
     replies_ok p (k + 1) rs"

text \<open>The answers of a handler to a sequence of messages, and that all of them can be sent.\<close>

definition answers :: "(byte list \<Rightarrow> int \<Rightarrow> byte list list) \<Rightarrow> byte list list \<Rightarrow> byte list list" where
  "answers dh ds = concat (map (\<lambda>d. dh d (int (length d))) ds)"

lemma replies_ok_append: "replies_ok p k (rs @ rs') \<longleftrightarrow> replies_ok p k rs \<and> replies_ok p (k + length rs) rs'"
  by (induction rs arbitrary: k) auto

lemma records_append: "records p r k (ds @ ds') = records p r k ds @ records p r (k + length ds) ds'"
  by (induction ds arbitrary: k) auto

context dtls_session
begin

lemma hp_writes_view:
  assumes "hp_view absn ctx t st" "t_phase t = 4" "t_server t" "t_out t = []" "bev_accepts bw" "replies_ok p (t_sent t) rs"
  shows "\<exists>c'. hp_writes api bw rs ctx = Some (ctx\<lparr>hp_sc := Some c', hp_out := hp_out ctx @ records p True (t_sent t) rs\<rparr>) \<and>
    hp_view absn (ctx\<lparr>hp_sc := Some c', hp_out := hp_out ctx @ records p True (t_sent t) rs\<rparr>) (t\<lparr>t_sent := t_sent t + length rs\<rparr>) st"
  using assms
proof (induction rs arbitrary: ctx t)
  case Nil
  then obtain c where "hp_sc ctx = Some c" by (auto simp: hp_view_def)
  then have "ctx\<lparr>hp_sc := Some c\<rparr> = ctx" by simp
  then show ?case using Nil by (intro exI [of _ c]) simp
next
  case (Cons r rs)
  obtain c s where c: "hp_sc ctx = Some c" "sc_ssl c = Some s" "absn s = t" "\<not> hp_freed ctx" "sc_state c = st"
      "sc_intent c = SECURE_INTENT_SERVER" "sc_ioMode c = SECURE_IOMODE_NONE" "sc_refCount c = 1"
    using Cons.prems(1) by (auto simp: hp_view_def)
  define x where "x = seal p True (t_sent t) r"
  have r: "r \<noteq> []" "\<not> int_max < int (length r) * 2" "length x \<le> max 8096 (length r * 2)" "length r \<le> 16384"
    using Cons.prems(6) by (simp_all add: x_def)
  obtain s1 where s1: "SecureConnection_encrypt api (max 8096 (length r * 2)) r c = Some (int (length x), x, c\<lparr>sc_ssl := Some s1\<rparr>)"
      "absn s1 = t\<lparr>t_sent := t_sent t + 1\<rparr>"
    using encrypt_ssl [OF c(2) _ r(1,4), of x "max 8096 (length r * 2)"] c(3) Cons.prems(2-4) r(3) by (auto simp: x_def)
  define ctx1 where "ctx1 = ctx\<lparr>hp_sc := Some (c\<lparr>sc_ssl := Some s1\<rparr>), hp_out := hp_out ctx @ [x]\<rparr>"
  have "int (length x) \<le> int_max" using r(2,3) by auto
  then have "mem_write (replicate (max 8096 (length r * 2)) 0) 0 x = Some (x @ replicate (max 8096 (length r * 2) - length x) 0)"
    "mem_read (x @ replicate (max 8096 (length r * 2) - length x) 0) 0 (size_t (int (length x))) = Some x"
    using r(3) by (simp_all add: mem_write_def mem_read_def)
  then have "hp_write api bw r ctx = Some (int (length r), ctx1)"
    using c(1) r(2) s1(1) Cons.prems(5) by (simp add: hp_write_def bev_write_def bev_accepts_def ctx1_def)
  then have w: "hp_writes api bw (r # rs) ctx = hp_writes api bw rs ctx1" using c(4) by (simp add: NetExHpWrite_def)
  have v: "hp_view absn ctx1 (t\<lparr>t_sent := t_sent t + 1\<rparr>) st" using c s1(2) by (simp add: hp_view_def ctx1_def)
  have "replies_ok p (t_sent t + 1) rs" using Cons.prems(6) by simp
  then show ?case unfolding w using Cons.IH [OF v] Cons.prems(2-5) by (auto simp: ctx1_def x_def)
qed

lemma hp_message:
  assumes "hp_view absn ctx t SECURE_STATE_ESTABLISHED" "t_phase t = 4" "t_server t" "t_out t = []" "t_in t = []" "t_plain t = []" "bev_accepts bw"
    "hp_dataHandler ctx" "d \<noteq> []" "x = seal p False (t_got t) d" "length d \<le> length x" "replies_ok p (t_sent t) (dh d (int (length d)))"
  shows "\<exists>ctx'. NetExHpReadCallback api io bw dh toWrite x ctx = Some ctx' \<and> hp_log ctx' = hp_log ctx @ [CallData d (int (length d))] \<and>
    hp_out ctx' = hp_out ctx @ records p True (t_sent t) (dh d (int (length d))) \<and> hp_dataHandler ctx' \<and>
    hp_view absn ctx' (t\<lparr>t_got := t_got t + 1, t_sent := t_sent t + length (dh d (int (length d)))\<rparr>) SECURE_STATE_ESTABLISHED"
proof -
  obtain c s where c: "hp_sc ctx = Some c" "sc_ssl c = Some s" "absn s = t" "\<not> hp_freed ctx" "sc_state c = SECURE_STATE_ESTABLISHED"
      "sc_intent c = SECURE_INTENT_SERVER" "sc_ioMode c = SECURE_IOMODE_NONE" "sc_refCount c = 1"
    using assms(1) by (auto simp: hp_view_def)
  have "tls_read p (t\<lparr>t_in := t_in t @ x\<rparr>) (length x) = (int (length d), d, t\<lparr>t_got := t_got t + 1\<rparr>)"
    using assms(2,3,5,6,10,11) seal_open(3) [OF params assms(9), of False "t_got t"] by (simp add: tls_read_def)
  then obtain s1 where s1: "SecureConnection_decrypt api (length x) x c = Some (int (length d), d, c\<lparr>sc_ssl := Some s1\<rparr>)"
      "absn s1 = t\<lparr>t_got := t_got t + 1\<rparr>"
    using decrypt_ssl [OF c(2)] c(3) by blast
  define ctx1 where "ctx1 = ctx\<lparr>hp_sc := Some (c\<lparr>sc_ssl := Some s1\<rparr>), hp_log := hp_log ctx @ [CallData d (int (length d))]\<rparr>"
  have v: "hp_view absn ctx1 (t\<lparr>t_got := t_got t + 1\<rparr>) SECURE_STATE_ESTABLISHED" using c s1(2) by (simp add: hp_view_def ctx1_def)
  have "mem_write (replicate (length x) 0) 0 d = Some (d @ replicate (length x - length d) 0)" using assms(11) by (simp add: mem_write_def)
  then have "NetExHpReadCallback api io bw dh toWrite x ctx = hp_writes api bw (dh d (int (length d))) ctx1"
    using c(1,4,5) s1(1) assms(8)
    by (simp add: NetExHpReadCallback_def SecureConnection_getState_def hp_read_established_def call_data_def ctx1_def)
  then show ?thesis using hp_writes_view [OF v _ _ _ assms(7), of "dh d (int (length d))"] assms(2-4,8,12) by (auto simp: ctx1_def)
qed

lemma hp_messages:
  assumes "hp_view absn ctx t SECURE_STATE_ESTABLISHED" "t_phase t = 4" "t_server t" "t_out t = []" "t_in t = []" "t_plain t = []" "bev_accepts bw"
    "hp_dataHandler ctx" "[] \<notin> set ds" "replies_ok p (t_sent t) (answers dh ds)"
  shows "\<exists>ctx'. hp_feed api io bw dh toWrite (records p False (t_got t) ds) ctx = Some ctx' \<and>
    hp_log ctx' = hp_log ctx @ map (\<lambda>d. CallData d (int (length d))) ds \<and> hp_out ctx' = hp_out ctx @ records p True (t_sent t) (answers dh ds) \<and>
    hp_view absn ctx' (t\<lparr>t_got := t_got t + length ds, t_sent := t_sent t + length (answers dh ds)\<rparr>) SECURE_STATE_ESTABLISHED"
  using assms
proof (induction ds arbitrary: ctx t)
  case Nil
  then show ?case by (simp add: answers_def)
next
  case (Cons d ds)
  let ?r = "dh d (int (length d))" and ?x = "seal p False (t_got t) d"
  have d: "d \<noteq> []" "length d \<le> length ?x" "replies_ok p (t_sent t) ?r" "replies_ok p (t_sent t + length ?r) (answers dh ds)"
    using Cons.prems(9,10) sealed_length [OF params le_refl] by (auto simp: answers_def replies_ok_append)
  define t1 where "t1 = t\<lparr>t_got := t_got t + 1, t_sent := t_sent t + length ?r\<rparr>"
  obtain ctx1 where c1: "NetExHpReadCallback api io bw dh toWrite ?x ctx = Some ctx1" "hp_view absn ctx1 t1 SECURE_STATE_ESTABLISHED"
      "hp_log ctx1 = hp_log ctx @ [CallData d (int (length d))]" "hp_out ctx1 = hp_out ctx @ records p True (t_sent t) ?r" "hp_dataHandler ctx1"
    using hp_message [where dh = dh and io = io and toWrite = toWrite, OF Cons.prems(1-8) d(1) refl d(2,3)] by (auto simp: t1_def)
  have "t_phase t1 = 4" "t_server t1" "t_out t1 = []" "t_in t1 = []" "t_plain t1 = []" "[] \<notin> set ds" "replies_ok p (t_sent t1) (answers dh ds)"
    using Cons.prems d(4) by (simp_all add: t1_def)
  from Cons.IH [OF c1(2) this(1-5) Cons.prems(7) c1(5) this(6,7)]
  show ?case using c1 by (auto simp: t1_def answers_def records_append add.assoc)
qed

text \<open>Input that the callback cannot handle.\<close>

lemma hp_oversized:
  assumes "hp_view absn ctx t SECURE_STATE_HANDSHAKE_READ" "t_phase t \<noteq> 4" "1024 < length x" "int (length x) \<le> int_max"
  shows "NetExHpReadCallback api io bw dh toWrite x ctx = None"
proof -
  obtain c s where c: "hp_sc ctx = Some c" "sc_ssl c = Some s" "absn s = t" "\<not> hp_freed ctx" "sc_state c = SECURE_STATE_HANDSHAKE_READ"
      "sc_ioMode c = SECURE_IOMODE_NONE" using assms(1) by (auto simp: hp_view_def)
  have nf: "\<not> a_is_init_finished api s" using assms(2) c(3) by (simp add: finished_law)
  have "mem_read x 0 (size_t (int (length x))) = Some x" using assms(4) by (simp add: mem_read_def)
  moreover have "local_buffer (int (length x)) x = None" using assms(3) by (simp add: local_buffer_def mem_write_def)
  ultimately have "hs_read api io (Some (x, int (length x))) c = None" using c(6) by (simp add: hs_read_def)
  then have "SecureConnection_handshakeStep_custom api io (toWrite, 1024) (x, int (length x)) c = None"
    using c(2,5) nf by (simp add: SecureConnection_handshakeStep_custom_def SecureConnection_handshakeStep_def state_defs)
  then show ?thesis using c
    by (simp add: NetExHpReadCallback_def SecureConnection_getState_def state_defs hp_read_handshake_def)
qed

lemma hp_garbage:
  assumes "hp_view absn ctx t SECURE_STATE_ESTABLISHED" "t_phase t = 4" "t_server t" "t_in t = []" "t_plain t = []"
    "hp_dataHandler ctx" "unseal p False (t_got t) x = None"
  shows "\<exists>c'. NetExHpReadCallback api io bw dh toWrite x ctx =
      hp_writes api bw (dh [] (-1)) (ctx\<lparr>hp_sc := Some c', hp_log := hp_log ctx @ [CallData [] (-1)]\<rparr>)"
proof -
  obtain c s where c: "hp_sc ctx = Some c" "sc_ssl c = Some s" "absn s = t" "\<not> hp_freed ctx" "sc_state c = SECURE_STATE_ESTABLISHED"
    using assms(1) by (auto simp: hp_view_def)
  have "tls_read p (t\<lparr>t_in := t_in t @ x\<rparr>) (length x) = (-1, [], t\<lparr>t_in := keep p x\<rparr>)"
    using assms(2-5,7) by (simp add: tls_read_def)
  then obtain s1 where "SecureConnection_decrypt api (length x) x c = Some (-1, [], c\<lparr>sc_ssl := Some s1\<rparr>)"
    using decrypt_ssl [OF c(2)] c(3) by blast
  then have "NetExHpReadCallback api io bw dh toWrite x ctx =
      hp_writes api bw (dh [] (-1)) (ctx\<lparr>hp_sc := Some (c\<lparr>sc_ssl := Some s1\<rparr>), hp_log := hp_log ctx @ [CallData [] (-1)]\<rparr>)"
    using c(1,4,5) assms(6)
    by (simp add: NetExHpReadCallback_def SecureConnection_getState_def hp_read_established_def call_data_def mem_write_def)
  then show ?thesis by blast
qed

lemma hp_two_records:
  assumes "hp_view absn ctx t SECURE_STATE_ESTABLISHED" "t_phase t = 4" "t_server t" "t_in t = []" "t_plain t = []"
    "hp_dataHandler ctx" "d \<noteq> []" "x = seal p False (t_got t) d" "length d \<le> length x" "dh d (int (length d)) = []"
  shows "\<exists>c'. NetExHpReadCallback api io bw dh toWrite (x @ y) ctx = Some (ctx\<lparr>hp_sc := Some c', hp_log := hp_log ctx @ [CallData d (int (length d))]\<rparr>) \<and>
    hp_view absn (ctx\<lparr>hp_sc := Some c', hp_log := hp_log ctx @ [CallData d (int (length d))]\<rparr>)
      (t\<lparr>t_got := t_got t + 1, t_in := y\<rparr>) SECURE_STATE_ESTABLISHED"
proof -
  obtain c s where c: "hp_sc ctx = Some c" "sc_ssl c = Some s" "absn s = t" "\<not> hp_freed ctx" "sc_state c = SECURE_STATE_ESTABLISHED"
      "sc_intent c = SECURE_INTENT_SERVER" "sc_ioMode c = SECURE_IOMODE_NONE" "sc_refCount c = 1"
    using assms(1) by (auto simp: hp_view_def)
  have "tls_read p (t\<lparr>t_in := t_in t @ (x @ y)\<rparr>) (length (x @ y)) = (int (length d), d, t\<lparr>t_got := t_got t + 1, t_in := y\<rparr>)"
    using assms(2-5,8,9) seal_open(2) [OF params assms(7), of False "t_got t" y] by (simp add: tls_read_def)
  then obtain s1 where s1: "SecureConnection_decrypt api (length (x @ y)) (x @ y) c = Some (int (length d), d, c\<lparr>sc_ssl := Some s1\<rparr>)"
      "absn s1 = t\<lparr>t_got := t_got t + 1, t_in := y\<rparr>"
    using decrypt_ssl [OF c(2)] c(3) by blast
  have "mem_write (replicate (length (x @ y)) 0) 0 d = Some (d @ replicate (length (x @ y) - length d) 0)" using assms(9) by (simp add: mem_write_def)
  then have "NetExHpReadCallback api io bw dh toWrite (x @ y) ctx =
      Some (ctx\<lparr>hp_sc := Some (c\<lparr>sc_ssl := Some s1\<rparr>), hp_log := hp_log ctx @ [CallData d (int (length d))]\<rparr>)"
    using c(1,4,5) s1(1) assms(6,10)
    by (simp add: NetExHpReadCallback_def SecureConnection_getState_def hp_read_established_def call_data_def)
  then show ?thesis using c s1(2) by (auto simp: hp_view_def)
qed

end

context dtls_session
begin

lemma hp_opened:
  assumes "a_ctx_new api" "a_random api = 0" "sv_cert sv = Some cert" "sv_privKey sv = Some key" "sv_privKeyPass sv = None" "0 \<le> clientfd"
  shows "\<exists>ctx. NetExHpOpenCallback api io True clientfd ip True sv junk = Some (Some ctx) \<and> hp_out ctx = [] \<and>
    hp_log ctx = (if sv_openHandler sv then [CallOpen] else []) \<and> hp_dataHandler ctx = sv_dataHandler sv \<and>
    hp_view absn ctx (tls_new True) SECURE_STATE_HANDSHAKE_READ"
proof -
  obtain s where s: "a_new api (Some (cert, key)) = Some s" "absn s = tls_new True" using new_law [of "Some (cert, key)"] by auto
  define c where "c = (SecureConnection_new junk)\<lparr>sc_intent := SECURE_INTENT_SERVER, sc_ioMode := SECURE_IOMODE_NONE, sc_ctx := True,
      sc_ssl := Some s, sc_state := SECURE_STATE_HANDSHAKE_READ\<rparr>"
  have "SecureConnectionCreate_custom api io SECURE_INTENT_SERVER cert key None junk = Some (True, c)"
    using assms(1,2) s(1)
    by (simp add: SecureConnectionCreate_custom_def create_connection_def SecureConnection_initSSL_def SecureConnection_new_def c_def)
  then show ?thesis using assms(3-6) s(2)
    by (simp add: NetExHpOpenCallback_def hp_view_def c_def SecureConnection_new_def)
qed

end

section \<open>Properties\<close>

text \<open>
  Property C7. A client can connect to the server when nothing is cut or joined on the way. With certificate and key files set, every flight of the handshake within 1024 bytes (the last one together with the message
  OK), each flight of the client delivered to the server by one read event and each answer delivered to the client by one read, and
  \<^verbatim>\<open>bufferevent_write\<close> accepting its data: the callbacks of the server answer the flights of the client with exactly the pieces that the
  handshake of a client expects, so that opening a connection, the two inputs and the creation of the client
  all succeed, and both sides end with established sessions.
\<close>

theorem hp_client_connects:
  assumes "dtls_session api p absn" "secure_link capi p cabsn cio mode inq outq" "hs_fits p" "a_ctx_new api" "a_random api = 0"
    "a_ctx_new capi" "a_random capi = 0" "sv_cert sv = Some cert" "sv_privKey sv = Some key" "sv_privKeyPass sv = None" "0 \<le> clientfd"
    "bev_accepts bw" "length toWrite = 1024" "inq (sc_world cj) = [flight p 1, flight p 3 @ seal p True 0 [79, 75]]" "outq (sc_world cj) = []"
  shows "\<exists>ctx0 ctx c. NetExHpOpenCallback api io True clientfd ip True sv junk = Some (Some ctx0) \<and>
    create_connection capi cio mode SECURE_INTENT_CLIENT ccert ckey None cj = Some (True, c) \<and>
    hp_feed api io bw dh toWrite (outq (sc_world c)) ctx0 = Some ctx \<and> hp_out ctx = inq (sc_world cj) \<and>
    hp_log ctx = (if sv_openHandler sv then [CallOpen] else []) \<and> hp_dataHandler ctx = sv_dataHandler sv \<and>
    hp_view absn ctx server_up SECURE_STATE_ESTABLISHED \<and>
    conn_view cabsn mode inq outq c SECURE_INTENT_CLIENT client_up SECURE_STATE_ESTABLISHED [] [flight p 0, flight p 2]"
proof -
  obtain ctx0 where o: "NetExHpOpenCallback api io True clientfd ip True sv junk = Some (Some ctx0)" "hp_out ctx0 = []"
      "hp_log ctx0 = (if sv_openHandler sv then [CallOpen] else [])" "hp_dataHandler ctx0 = sv_dataHandler sv"
      "hp_view absn ctx0 (tls_new True) SECURE_STATE_HANDSHAKE_READ"
    using dtls_session.hp_opened [OF assms(1,4,5,8-11), of io ip junk] by blast
  obtain c' where h: "hp_feed api io bw dh toWrite [flight p 0, flight p 2] ctx0 =
        Some (ctx0\<lparr>hp_sc := Some c', hp_out := hp_out ctx0 @ [flight p 1, flight p 3 @ seal p True 0 [79, 75]]\<rparr>)"
      "hp_view absn (ctx0\<lparr>hp_sc := Some c', hp_out := hp_out ctx0 @ [flight p 1, flight p 3 @ seal p True 0 [79, 75]]\<rparr>) server_up SECURE_STATE_ESTABLISHED"
    using dtls_session.hp_handshake [OF assms(1) o(5) assms(3,12,13)] by blast
  obtain c where c: "create_connection capi cio mode SECURE_INTENT_CLIENT ccert ckey None cj = Some (True, c)"
      "conn_view cabsn mode inq outq c SECURE_INTENT_CLIENT client_up SECURE_STATE_ESTABLISHED [] [flight p 0, flight p 2]"
    using secure_link.create_up(1) [OF assms(2,3,6,7,14,15)] by blast
  moreover have "outq (sc_world c) = [flight p 0, flight p 2]" using c(2) by (simp add: conn_view_def)
  ultimately show ?thesis using o h assms(14) by (intro exI [of _ ctx0] exI conjI) auto
qed

definition demo_server :: hp_server where
  "demo_server = \<lparr>sv_openHandler = True, sv_closeHandler = True, sv_dataHandler = True, sv_workerNo = 0, sv_cert = Some ''c'',
     sv_privKey = Some ''k'', sv_privKeyPass = None\<rparr>"

definition no_io :: "unit sec_io" where
  "no_io = \<lparr>i_writeCallback = (\<lambda>w d t. (-1, w)), i_write = (\<lambda>w d. (-1, w)), i_send = (\<lambda>w d. (-1, w)),
     i_readCallback = (\<lambda>w n t. (-1, [], w)), i_read = (\<lambda>w n. (-1, [], w)), i_recv = (\<lambda>w n. (-1, [], w))\<rparr>"

definition no_conn :: "(tls, unit) SecureConnection" where
  "no_conn = \<lparr>sc_ssl = None, sc_ctx = False, sc_intent = -1, sc_state = -1, sc_ioMode = -1, sc_refCount = 0, sc_deleted = 0, sc_world = ()\<rparr>"

theorem hp_client_connects_witness:
  "\<exists>ctx0 ctx c. NetExHpOpenCallback (ref_api (plain_dtls demo_flights)) no_io True 5 ''127.0.0.1'' True demo_server no_conn = Some (Some ctx0) \<and>
    create_connection (ref_api (plain_dtls demo_flights)) wire_io SECURE_IOMODE_FDS SECURE_INTENT_CLIENT ''c'' ''k'' None
      (demo_conn [[2, 7], [4, 7, 1, 1, 0, 79, 75]]) = Some (True, c) \<and>
    hp_feed (ref_api (plain_dtls demo_flights)) no_io (\<lambda>out d. 0) (\<lambda>d n. []) (replicate 1024 0) (snd (sc_world c)) ctx0 = Some ctx \<and>
    hp_log ctx = [CallOpen]"
proof -
  let ?p = "plain_dtls demo_flights"
  have f: "hs_fits ?p" by (simp add: hs_fits_def plain_dtls_def demo_flights_def plain_seal_def)
  have a: "a_ctx_new (ref_api ?p)" "a_random (ref_api ?p) = 0" by (simp_all add: ref_api_def)
  have sv: "sv_cert demo_server = Some ''c''" "sv_privKey demo_server = Some ''k''" "sv_privKeyPass demo_server = None" "(0 :: int) \<le> 5"
    "sv_openHandler demo_server" by (simp_all add: demo_server_def)
  have b: "bev_accepts (\<lambda>out d. 0)" "length (replicate 1024 (0 :: byte)) = 1024" by (simp_all add: bev_accepts_def)
  have w: "fst (sc_world (demo_conn [[2, 7], [4, 7, 1, 1, 0, 79, 75]])) = [flight ?p 1, flight ?p 3 @ seal ?p True 0 [79, 75]]"
    "snd (sc_world (demo_conn [[2, 7], [4, 7, 1, 1, 0, 79, 75]])) = []"
    by (simp_all add: demo_conn_def plain_dtls_def demo_flights_def plain_seal_def)
  show ?thesis
    using hp_client_connects [where dh = "\<lambda>d n. []" and io = no_io and ip = "''127.0.0.1''" and junk = no_conn and ccert = "''c''" and ckey = "''k''",
        OF plain_link.dtls_session_axioms plain_link.secure_link_axioms f a a sv(1-4) b w] sv(5) by auto
qed

text \<open>
  Property C10. Messages reach the handler when every record of the client comes with a read event of its own (two records in one event are not both delivered). What an established client
  writes in any number of calls, each message at most 1024 bytes after sealing, arrives at the data handler of the server, one call for each
  message and in order, and every message that the handler writes, if it is not empty, at most 16384 bytes and fits after sealing into the buffer of the server, goes out as one
  sealed record; a client that gets one record with each read, none longer than 1024 bytes, reads the replies in turn.
\<close>

theorem hp_serves_messages:
  assumes "dtls_session api p absn" "hp_view absn ctx server_up SECURE_STATE_ESTABLISHED" "bev_accepts bw" "hp_dataHandler ctx"
    "messages_ok p False 0 ds" "replies_ok p 1 (answers dh ds)"
    "secure_link capi p cabsn cio mode inq outq" "conn_view cabsn mode inq outq c SECURE_INTENT_CLIENT client_up SECURE_STATE_ESTABLISHED [] out"
    "conn_view cabsn mode inq outq c2 SECURE_INTENT_CLIENT (client_up\<lparr>t_sent := length ds\<rparr>) SECURE_STATE_ESTABLISHED
      (records p True 1 (answers dh ds)) out2" "messages_ok p True 1 (answers dh ds)" "\<forall>d\<in>set (answers dh ds). length d \<le> n"
  shows "\<exists>ctx' ns c' c3. write_all capi cio timeout ds c = Some (ns, c') \<and>
    outq (sc_world c') = outq (sc_world c) @ records p False 0 ds \<and>
    hp_feed api io bw dh toWrite (records p False 0 ds) ctx = Some ctx' \<and>
    hp_log ctx' = hp_log ctx @ map (\<lambda>d. CallData d (int (length d))) ds \<and> hp_out ctx' = hp_out ctx @ inq (sc_world c2) \<and>
    read_all capi cio n timeout (length (answers dh ds)) c2 = Some (map (\<lambda>d. (int (length d), d)) (answers dh ds), c3)"
proof -
  have t: "t_phase server_up = 4" "t_server server_up" "t_out server_up = []" "t_in server_up = []" "t_plain server_up = []"
    "t_got server_up = 0" "t_sent server_up = 1" by (simp_all add: server_up_def tls_new_def)
  have u: "t_phase client_up = 4" "\<not> t_server client_up" "t_out client_up = []" "t_in client_up = []" "t_plain client_up = []"
    "t_got client_up = 1" "t_sent client_up = 0" by (simp_all add: client_up_def tls_new_def)
  have "[] \<notin> set ds" using assms(5) by (simp add: messages_ok_def)
  then obtain ctx' where "hp_feed api io bw dh toWrite (records p False 0 ds) ctx = Some ctx'"
      "hp_log ctx' = hp_log ctx @ map (\<lambda>d. CallData d (int (length d))) ds" "hp_out ctx' = hp_out ctx @ records p True 1 (answers dh ds)"
    using dtls_session.hp_messages [OF assms(1,2) t(1-5) assms(3,4), of ds dh io toWrite] assms(6) t(6,7) by auto
  moreover obtain ns c' where "write_all capi cio timeout ds c = Some (ns, c')"
      "outq (sc_world c') = out @ records p False 0 ds"
    using secure_link.write_all_view [OF assms(7,8) u(1,3), of ds timeout] assms(5) u by (auto simp: conn_view_def)
  moreover obtain c3 where "read_all capi cio n timeout (length (answers dh ds)) c2 = Some (map (\<lambda>d. (int (length d), d)) (answers dh ds), c3)"
    using secure_link.read_all_view [OF assms(7), of c2 SECURE_INTENT_CLIENT "client_up\<lparr>t_sent := length ds\<rparr>" SECURE_STATE_ESTABLISHED
        "answers dh ds" "[]" out2 n timeout] assms(9-11) u by auto
  moreover have "outq (sc_world c) = out" "inq (sc_world c2) = records p True 1 (answers dh ds)" using assms(8,9) by (simp_all add: conn_view_def)
  ultimately show ?thesis by auto
qed

definition demo_ctx :: "tls \<Rightarrow> int \<Rightarrow> tls NetExHpContext" where
  "demo_ctx t st = \<lparr>hp_sc = Some (no_conn\<lparr>sc_ssl := Some t, sc_state := st, sc_intent := SECURE_INTENT_SERVER, sc_ioMode := SECURE_IOMODE_NONE, sc_refCount := 1\<rparr>),
     hp_openHandler = True, hp_closeHandler = True, hp_dataHandler = True, hp_workerNo = 0, hp_clientIp = [], hp_out = [], hp_log = [], hp_freed = False\<rparr>"

lemma demo_ctx_view: "hp_view (\<lambda>t. t) (demo_ctx t st) t st"
  by (simp add: hp_view_def demo_ctx_def no_conn_def)

theorem hp_serves_messages_witness:
  "\<exists>ctx' c3. hp_feed (ref_api (plain_dtls demo_flights)) no_io (\<lambda>out d. 0) (\<lambda>d n. [rev d]) [] [[1, 1, 0, 5, 6], [1, 0, 7]]
      (demo_ctx server_up SECURE_STATE_ESTABLISHED) = Some ctx' \<and>
    hp_log ctx' = [CallData [5, 6] 2, CallData [7] 1] \<and>
    read_all (ref_api (plain_dtls demo_flights)) wire_io 8 (-1) 2
      (demo_up SECURE_INTENT_CLIENT (client_up\<lparr>t_sent := 2\<rparr>) [[1, 1, 0, 6, 5], [1, 0, 7]]) = Some ([(2, [6, 5]), (1, [7])], c3)"
proof -
  let ?p = "plain_dtls demo_flights" and ?dh = "\<lambda>d n. [rev d] :: byte list list" and ?ds = "[[5, 6], [7]] :: byte list list"
  have an: "answers ?dh ?ds = [[6, 5], [7]]" by (simp add: answers_def)
  have pl: "plain_seal [6, 5] = [1, 1, 0, 6, 5]" "plain_seal [7] = [1, 0, 7]" by (simp_all add: plain_seal_def)
  have sl: "seal ?p r k d = plain_seal d" for r k d by (simp add: plain_dtls_def)
  have r: "records ?p False 0 ?ds = [[1, 1, 0, 5, 6], [1, 0, 7]]" "records ?p True 1 (answers ?dh ?ds) = [[1, 1, 0, 6, 5], [1, 0, 7]]"
    unfolding an by (simp_all add: plain_dtls_def plain_seal_def)
  have k: "messages_ok ?p False 0 ?ds" "messages_ok ?p True 1 (answers ?dh ?ds)" "replies_ok ?p 1 (answers ?dh ?ds)"
    "\<forall>d\<in>set (answers ?dh ?ds). length d \<le> 8"
    "hp_dataHandler (demo_ctx server_up SECURE_STATE_ESTABLISHED)" "bev_accepts (\<lambda>out d. 0)"
    unfolding an by (simp_all add: messages_ok_def plain_dtls_def plain_seal_def demo_ctx_def bev_accepts_def)
  show ?thesis
    using hp_serves_messages [where dh = ?dh and io = no_io and toWrite = "[]" and timeout = "-1", OF plain_link.dtls_session_axioms
        demo_ctx_view [of server_up SECURE_STATE_ESTABLISHED] k(6,5,1,3) plain_link.secure_link_axioms
        demo_up_view [of SECURE_INTENT_CLIENT client_up "[]"] demo_up_view [of SECURE_INTENT_CLIENT "client_up\<lparr>t_sent := length ?ds\<rparr>"] k(2,4)]
    unfolding r an by (auto simp: demo_ctx_def sl pl simp del: hp_feed.simps read_all.simps simp flip: numeral_2_eq_2)
qed

text \<open>
  Property C11. What the peer can do to the server. During the handshake, before anything is authenticated, any input of more than 1024 bytes
  is copied past the end of a buffer on the stack. Once established, input that is not a record is reported to the data handler as
  a message of length -1, and of two records that arrive together only the first is delivered.
\<close>

theorem hp_unsafe_input:
  assumes "dtls_session api p absn"
  shows "(hp_view absn ctx t SECURE_STATE_HANDSHAKE_READ \<longrightarrow> t_phase t \<noteq> 4 \<longrightarrow> 1024 < length x \<longrightarrow> int (length x) \<le> int_max \<longrightarrow>
      NetExHpReadCallback api io bw dh toWrite x ctx = None) \<and>
    (hp_view absn ctx t SECURE_STATE_ESTABLISHED \<longrightarrow> t_phase t = 4 \<longrightarrow> t_server t \<longrightarrow> t_in t = [] \<longrightarrow> t_plain t = [] \<longrightarrow> hp_dataHandler ctx \<longrightarrow>
      (unseal p False (t_got t) x = None \<longrightarrow>
        (\<exists>c'. NetExHpReadCallback api io bw dh toWrite x ctx =
          hp_writes api bw (dh [] (-1)) (ctx\<lparr>hp_sc := Some c', hp_log := hp_log ctx @ [CallData [] (-1)]\<rparr>))) \<and>
      (d \<noteq> [] \<longrightarrow> length d \<le> length (seal p False (t_got t) d) \<longrightarrow> dh d (int (length d)) = [] \<longrightarrow>
        (\<exists>c'. NetExHpReadCallback api io bw dh toWrite (seal p False (t_got t) d @ y) ctx =
            Some (ctx\<lparr>hp_sc := Some c', hp_log := hp_log ctx @ [CallData d (int (length d))]\<rparr>) \<and>
          hp_view absn (ctx\<lparr>hp_sc := Some c', hp_log := hp_log ctx @ [CallData d (int (length d))]\<rparr>)
            (t\<lparr>t_got := t_got t + 1, t_in := y\<rparr>) SECURE_STATE_ESTABLISHED)))"
  by (intro conjI impI; erule dtls_session.hp_oversized [OF assms] dtls_session.hp_garbage [OF assms] dtls_session.hp_two_records [OF assms _ _ _ _ _ _ _ refl]; assumption)

theorem hp_unsafe_input_witness:
  "NetExHpReadCallback (ref_api (plain_dtls demo_flights)) no_io (\<lambda>out d. 0) (\<lambda>d n. []) (replicate 1024 0) (replicate 1025 65)
      (demo_ctx (tls_new True) SECURE_STATE_HANDSHAKE_READ) = None \<and>
   (\<exists>c'. NetExHpReadCallback (ref_api (plain_dtls demo_flights)) no_io (\<lambda>out d. 0) (\<lambda>d n. []) [] [9, 9]
      (demo_ctx server_up SECURE_STATE_ESTABLISHED) = Some ((demo_ctx server_up SECURE_STATE_ESTABLISHED)\<lparr>hp_sc := Some c', hp_log := [CallData [] (-1)]\<rparr>)) \<and>
   (\<exists>c'. NetExHpReadCallback (ref_api (plain_dtls demo_flights)) no_io (\<lambda>out d. 0) (\<lambda>d n. []) [] ([1, 0, 5] @ [1, 0, 6])
      (demo_ctx server_up SECURE_STATE_ESTABLISHED) = Some ((demo_ctx server_up SECURE_STATE_ESTABLISHED)\<lparr>hp_sc := Some c', hp_log := [CallData [5] 1]\<rparr>))"
proof (intro conjI)
  let ?p = "plain_dtls demo_flights" and ?s = "demo_ctx server_up SECURE_STATE_ESTABLISHED"
  note u = hp_unsafe_input [OF plain_link.dtls_session_axioms, where io = no_io and bw = "\<lambda>out d. 0" and dh = "\<lambda>d n. []"]
  have t: "t_phase server_up = 4" "t_server server_up" "t_in server_up = []" "t_plain server_up = []" "t_got server_up = 0"
    by (simp_all add: server_up_def tls_new_def)
  have c: "hp_dataHandler ?s" "hp_log ?s = []" by (simp_all add: demo_ctx_def)
  show "NetExHpReadCallback (ref_api ?p) no_io (\<lambda>out d. 0) (\<lambda>d n. []) (replicate 1024 0) (replicate 1025 65)
      (demo_ctx (tls_new True) SECURE_STATE_HANDSHAKE_READ) = None"
    using u [THEN conjunct1, rule_format, OF demo_ctx_view [of "tls_new True"], of "replicate 1025 65" "replicate 1024 0"] by (simp add: tls_new_def)
  have g: "unseal ?p False (t_got server_up) [9, 9] = None" by (simp add: plain_dtls_def plain_unseal_def)
  show "\<exists>c'. NetExHpReadCallback (ref_api ?p) no_io (\<lambda>out d. 0) (\<lambda>d n. []) [] [9, 9] ?s = Some (?s\<lparr>hp_sc := Some c', hp_log := [CallData [] (-1)]\<rparr>)"
    using u [THEN conjunct2, rule_format, OF demo_ctx_view [of server_up] t(1-4) c(1), THEN conjunct1, rule_format, OF g, of "[]"] c(2) by simp
  have r: "seal ?p False (t_got server_up) [5] = [1, 0, 5]" by (simp add: plain_dtls_def plain_seal_def)
  show "\<exists>c'. NetExHpReadCallback (ref_api ?p) no_io (\<lambda>out d. 0) (\<lambda>d n. []) [] ([1, 0, 5] @ [1, 0, 6]) ?s = Some (?s\<lparr>hp_sc := Some c', hp_log := [CallData [5] 1]\<rparr>)"
    using u [THEN conjunct2, rule_format, OF demo_ctx_view [of server_up] t(1-4) c(1), THEN conjunct2, rule_format, of "[5]" "[]" "[1, 0, 6]"] r c(2) by auto
qed

end
