(* ===== verification/Teg_Args.thy ===== *)
theory Teg_Args
  imports Str_Tokenize
begin

text \<open>
  Command lines (\<^verbatim>\<open>LibArgs/Args.cpp\<close>). A table of options describes where the values go; the targets are cells of a store. Command lines
  come as a list of words or as one string, which the tokenizer of LibStr cuts in place.
\<close>

section \<open>Tables of options\<close>

datatype ArgsType = ARGS_INT | ARGS_DOUBLE | ARGS_FLOAT | ARGS_STRING | ARGS_CHAR | ARGS_MODE | ARGS_FLAG | ARGS_NULL

record ArgsObj =
  ao_type :: ArgsType
  ao_pattern :: string
  ao_target :: nat
  ao_intVal :: int

text \<open>The contents of a target. For the floating point types the text that \<^verbatim>\<open>atof\<close> reads stands for its value; a null pointer is \<^const>\<open>None\<close>.\<close>

datatype arg_value = IntV int | DoubleV string | FloatV string | StringV "string option" | CharV char

type_synonym arg_store = "nat \<rightharpoonup> arg_value"

text \<open>The value that an argument gives; a null pointer can only be stored, and a number that does not fit an \<^verbatim>\<open>int\<close> has no value.\<close>

definition arg_value_of :: "ArgsType \<Rightarrow> string option \<Rightarrow> arg_value option run" where
  "arg_value_of ty arg =
     (case ty of
        ARGS_INT \<Rightarrow> do { s \<leftarrow> arg; v \<leftarrow> atoi s; Some (Some (IntV v)) }
      | ARGS_DOUBLE \<Rightarrow> map_option (\<lambda>s. Some (DoubleV s)) arg
      | ARGS_FLOAT \<Rightarrow> map_option (\<lambda>s. Some (FloatV s)) arg
      | ARGS_STRING \<Rightarrow> Some (Some (StringV arg))
      | ARGS_CHAR \<Rightarrow> map_option (\<lambda>s. Some (CharV (case s of [] \<Rightarrow> nul | c # _ \<Rightarrow> c))) arg
      | _ \<Rightarrow> Some None)"

definition argv_at :: "string list \<Rightarrow> nat \<Rightarrow> string option" where
  "argv_at argv i = (if i < length argv then Some (argv ! i) else None)"

section \<open>Parsing\<close>

text \<open>
  The loop over the table: whether an argument is missing, the position, whether an option was found, and the store. It
  goes on with the rest of the table after an option has taken its argument.
\<close>

fun args_match :: "ArgsObj list \<Rightarrow> string list \<Rightarrow> nat \<Rightarrow> nat \<Rightarrow> bool \<Rightarrow> arg_store \<Rightarrow> (bool \<times> nat \<times> bool \<times> arg_store) run" where
  "args_match [] argv argsToEnd i found st = None"
| "args_match (e # es) argv argsToEnd i found st =
     (if ao_type e = ARGS_NULL then Some (False, i, found, st)
      else case argv_at argv i of
        None \<Rightarrow> None
      | Some a \<Rightarrow>
          if ao_pattern e \<noteq> a then args_match es argv argsToEnd i found st
          else if ao_type e = ARGS_MODE then args_match es argv argsToEnd i True (st(ao_target e \<mapsto> IntV (ao_intVal e)))
          else if ao_type e = ARGS_FLAG then args_match es argv argsToEnd i True (st(ao_target e \<mapsto> IntV 1))
          else if argsToEnd = 0 then Some (True, i, True, st)
          else case arg_value_of (ao_type e) (argv_at argv (i + 1)) of
                 None \<Rightarrow> None
               | Some None \<Rightarrow> args_match es argv argsToEnd (i + 1) True st
               | Some (Some v) \<Rightarrow> args_match es argv argsToEnd (i + 1) True (st(ao_target e \<mapsto> v)))"

lemma args_match_forward:
  "args_match es argv k i found st = Some (missing, i', found', st') \<Longrightarrow> i \<le> i'"
proof (induction es arbitrary: i k found st)
  case (Cons e es)
  show ?case using Cons.prems by (auto split: if_splits option.splits dest!: Cons.IH)
qed simp

function args_loop :: "ArgsObj list \<Rightarrow> string list \<Rightarrow> nat \<Rightarrow> arg_store \<Rightarrow> (int \<times> arg_store) run" where
  "args_loop ao argv i st =
     (if i < length argv then
        (case args_match ao argv (length argv - i - 1) i False st of
           None \<Rightarrow> None
         | Some (missing, i', found, st') \<Rightarrow> if missing \<or> \<not> found then Some (-1, st') else args_loop ao argv (i' + 1) st')
      else Some (0, st))"
  by pat_completeness auto
termination
  by (relation "measure (\<lambda>(ao, argv, i, st). length argv - i)") (auto dest!: args_match_forward)

declare args_loop.simps [simp del]

definition ArgsParse :: "ArgsObj list \<Rightarrow> string list \<Rightarrow> arg_store \<Rightarrow> (int \<times> arg_store) run" where
  "ArgsParse ao argv st = args_loop ao argv 1 st"

text \<open>
  The first entry of the table that is made from a string is a null pointer, which is never read; the other entries point
  into the string. The allocation is taken to succeed.
\<close>

definition ArgsAlloc :: "string \<Rightarrow> (int \<times> string list \<times> string) run" where
  "ArgsAlloc cmd = do {
     (b, ts) \<leftarrow> StrTokenize_quote_ptr (cmd @ [nul]) [CHR '' '', CHR 0x09, CHR 0x0A, CHR 0x0D] [CHR 0x22, CHR 0x27];
     Some (0, [] # reads b ts, b) }"

definition ArgsParse_cmd :: "ArgsObj list \<Rightarrow> string \<Rightarrow> arg_store \<Rightarrow> (int \<times> arg_store) run" where
  "ArgsParse_cmd ao cmd st = do {
     (rc, argv, _) \<leftarrow> ArgsAlloc cmd;
     if rc \<noteq> 0 then Some (-1, st) else do {
       (rc, st) \<leftarrow> ArgsParse ao argv st;
       Some (if rc \<noteq> 0 then -1 else 0, st) } }"

section \<open>Command lines that mean something\<close>

text \<open>A table: its entries, then the terminator.\<close>

definition args_table :: "ArgsObj list \<Rightarrow> ArgsObj list \<Rightarrow> bool" where
  "args_table ao es \<longleftrightarrow> (\<exists>z rest. ao = es @ z # rest \<and> ao_type z = ARGS_NULL) \<and> (\<forall>e\<in>set es. ao_type e \<noteq> ARGS_NULL) \<and>
     distinct (map ao_pattern es)"

definition takes_arg :: "ArgsObj \<Rightarrow> bool" where
  "takes_arg e \<longleftrightarrow> ao_type e \<notin> {ARGS_MODE, ARGS_FLAG, ARGS_NULL}"

definition int_fits :: "int \<Rightarrow> bool" where
  "int_fits v \<longleftrightarrow> - int_max - 1 \<le> v \<and> v \<le> int_max"

lemma atoi_fits: "atoi s = Some v \<longleftrightarrow> v = atoi_value s \<and> int_fits v"
  by (auto simp: atoi_def cint_add_def int_fits_def)

text \<open>An item of a command line: an option and its argument, which is empty for modes and flags.\<close>

type_synonym arg_item = "ArgsObj \<times> string"

fun item_words :: "arg_item \<Rightarrow> string list" where
  "item_words (e, a) = (if takes_arg e then [ao_pattern e, a] else [ao_pattern e])"

fun item_store :: "arg_item \<Rightarrow> arg_store \<Rightarrow> arg_store" where
  "item_store (e, a) st =
     (case ao_type e of
        ARGS_MODE \<Rightarrow> st(ao_target e \<mapsto> IntV (ao_intVal e))
      | ARGS_FLAG \<Rightarrow> st(ao_target e \<mapsto> IntV 1)
      | ARGS_INT \<Rightarrow> st(ao_target e \<mapsto> IntV (atoi_value a))
      | ARGS_DOUBLE \<Rightarrow> st(ao_target e \<mapsto> DoubleV a)
      | ARGS_FLOAT \<Rightarrow> st(ao_target e \<mapsto> FloatV a)
      | ARGS_STRING \<Rightarrow> st(ao_target e \<mapsto> StringV (Some a))
      | ARGS_CHAR \<Rightarrow> st(ao_target e \<mapsto> CharV (case a of [] \<Rightarrow> nul | c # _ \<Rightarrow> c))
      | ARGS_NULL \<Rightarrow> st)"

definition item_ok :: "ArgsObj list \<Rightarrow> arg_item \<Rightarrow> bool" where
  "item_ok es it \<longleftrightarrow> fst it \<in> set es \<and> (takes_arg (fst it) \<longrightarrow> snd it \<notin> ao_pattern ` set es) \<and>
     (ao_type (fst it) = ARGS_INT \<longrightarrow> int_fits (atoi_value (snd it)))"

lemma match_none:
  assumes "\<forall>e\<in>set es. ao_type e \<noteq> ARGS_NULL \<and> ao_pattern e \<noteq> argv ! i" "i < length argv" "ao_type z = ARGS_NULL"
  shows "args_match (es @ z # rest) argv k i found st = Some (False, i, found, st)"
  using assms by (induction es) (auto simp: argv_at_def)

lemma match_skip:
  assumes "\<forall>e\<in>set es. ao_type e \<noteq> ARGS_NULL \<and> ao_pattern e \<noteq> argv ! i" "i < length argv"
  shows "args_match (es @ es') argv k i found st = args_match es' argv k i found st"
  using assms by (induction es) (auto simp: argv_at_def)

text \<open>One item of a command line.\<close>

lemma match_item:
  assumes "args_table ao es" "item_ok es (e, a)" "i < length argv" "argv ! i = ao_pattern e" "takes_arg e \<longrightarrow> i + 1 < length argv \<and> argv ! (i + 1) = a"
  shows "args_match ao argv (length argv - i - 1) i False st =
    Some (False, if takes_arg e then i + 1 else i, True, item_store (e, a) st)"
proof -
  obtain z rest where ao: "ao = es @ z # rest" "ao_type z = ARGS_NULL" using assms(1) by (auto simp: args_table_def)
  have "e \<in> set es" using assms(2) by (simp add: item_ok_def)
  then obtain us vs where es: "es = us @ e # vs" by (meson split_list)
  have d: "\<forall>e'\<in>set us \<union> set vs. ao_type e' \<noteq> ARGS_NULL \<and> ao_pattern e' \<noteq> argv ! i" "ao_type e \<noteq> ARGS_NULL"
    using assms(1,4) es by (auto simp: args_table_def) (metis image_eqI)+
  have s: "args_match ao argv k i False st = args_match (e # vs @ z # rest) argv k i False st" for k
    using match_skip [of us argv i "e # vs @ z # rest"] d assms(3) by (simp add: ao(1) es)
  show ?thesis
  proof (cases "takes_arg e")
    case True
    then have a: "i + 1 < length argv" "argv ! (i + 1) = a" using assms(5) by auto
    have "a \<notin> ao_pattern ` set es" using True assms(2) by (simp add: item_ok_def)
    then have v: "\<forall>e'\<in>set vs. ao_type e' \<noteq> ARGS_NULL \<and> ao_pattern e' \<noteq> argv ! (i + 1)" using d a es by auto (metis UnI2 image_eqI)
    have "ao_type e \<noteq> ARGS_MODE" "ao_type e \<noteq> ARGS_FLAG" using True by (auto simp: takes_arg_def)
    moreover have "atoi a = Some (atoi_value a)" if "ao_type e = ARGS_INT" using that assms(2) by (simp add: item_ok_def atoi_fits)
    ultimately show ?thesis unfolding s using True a assms(3,4) d(2) match_none [OF v a(1) ao(2)]
      by (cases "ao_type e") (simp_all add: argv_at_def arg_value_of_def)
  next
    case False
    then have "ao_type e = ARGS_MODE \<or> ao_type e = ARGS_FLAG" using d(2) by (auto simp: takes_arg_def)
    then show ?thesis unfolding s using False assms(3,4) d match_none [of vs argv i z] ao(2) by (auto simp: argv_at_def)
  qed
qed

lemma loop_items:
  assumes "args_table ao es" "\<forall>it\<in>set items. item_ok es it" "argv = pre @ concat (map item_words items)"
  shows "args_loop ao argv (length pre) st = Some (0, fold item_store items st)"
  using assms(2,3)
proof (induction items arbitrary: pre st)
  case Nil
  then show ?case by (simp add: args_loop.simps)
next
  case (Cons it items)
  obtain e a where it: "it = (e, a)" by (cases it)
  have m: "args_match ao argv (length argv - length pre - 1) (length pre) False st =
      Some (False, if takes_arg e then length pre + 1 else length pre, True, item_store (e, a) st)"
    by (rule match_item [OF assms(1)]) (use Cons.prems it in \<open>auto simp: nth_append\<close>)
  have "length pre < length argv" using Cons.prems(2) it by auto
  then have "args_loop ao argv (length pre) st = args_loop ao argv (length (pre @ item_words it)) (item_store it st)"
    using m it by (subst args_loop.simps) simp
  then show ?case using Cons.IH [of "pre @ item_words it" "item_store it st"] Cons.prems by simp
qed

text \<open>Where a command line ends in an error.\<close>

lemma loop_prefix:
  assumes "args_table ao es" "\<forall>it\<in>set items. item_ok es it" "argv = pre @ concat (map item_words items) @ rest"
  shows "args_loop ao argv (length pre) st = args_loop ao argv (length (pre @ concat (map item_words items))) (fold item_store items st)"
  using assms(2,3)
proof (induction items arbitrary: pre st)
  case (Cons it items)
  obtain e a where it: "it = (e, a)" by (cases it)
  have m: "args_match ao argv (length argv - length pre - 1) (length pre) False st =
      Some (False, if takes_arg e then length pre + 1 else length pre, True, item_store (e, a) st)"
    by (rule match_item [OF assms(1)]) (use Cons.prems it in \<open>auto simp: nth_append\<close>)
  have "length pre < length argv" using Cons.prems(2) it by auto
  then have "args_loop ao argv (length pre) st = args_loop ao argv (length (pre @ item_words it)) (item_store it st)"
    using m it by (subst args_loop.simps) simp
  then show ?case using Cons.IH [of "pre @ item_words it" "item_store it st"] Cons.prems by simp
qed simp

lemma loop_unknown:
  assumes "args_table ao es" "argv = pre @ x # rest" "x \<notin> ao_pattern ` set es"
  shows "args_loop ao argv (length pre) st = Some (-1, st)"
proof -
  obtain z zs where ao: "ao = es @ z # zs" "ao_type z = ARGS_NULL" using assms(1) by (auto simp: args_table_def)
  have "\<forall>e\<in>set es. ao_type e \<noteq> ARGS_NULL \<and> ao_pattern e \<noteq> argv ! length pre"
    using assms by (auto simp: args_table_def)
  then have "args_match ao argv k (length pre) False st = Some (False, length pre, False, st)" for k
    using match_none [of es argv "length pre" z] ao assms(2) by simp
  then show ?thesis using assms(2) by (subst args_loop.simps) simp
qed

lemma loop_missing:
  assumes "args_table ao es" "argv = pre @ [ao_pattern e]" "e \<in> set es" "takes_arg e"
  shows "args_loop ao argv (length pre) st = Some (-1, st)"
proof -
  obtain z zs where ao: "ao = es @ z # zs" "ao_type z = ARGS_NULL" using assms(1) by (auto simp: args_table_def)
  obtain us vs where es: "es = us @ e # vs" using assms(3) by (meson split_list)
  have d: "\<forall>e'\<in>set us. ao_type e' \<noteq> ARGS_NULL \<and> ao_pattern e' \<noteq> argv ! length pre" "ao_type e \<noteq> ARGS_NULL"
    using assms(1,2) es by (auto simp: args_table_def) (metis image_eqI)
  have "args_match ao argv 0 (length pre) False st = args_match (e # vs @ z # zs) argv 0 (length pre) False st"
    using match_skip [of us argv "length pre" "e # vs @ z # zs"] d assms(2) by (simp add: ao(1) es)
  then have "args_match ao argv 0 (length pre) False st = Some (True, length pre, True, st)"
    using assms(2,4) d(2) by (auto simp: argv_at_def takes_arg_def)
  then show ?thesis using assms(2) by (subst args_loop.simps) simp
qed

text \<open>A command given as one string.\<close>

lemma ArgsAlloc_vec:
  assumes "is_c_str cmd"
  shows "\<exists>b. ArgsAlloc cmd = (case StrTokenize_quote_vec cmd [CHR '' '', CHR 0x09, CHR 0x0A, CHR 0x0D] [CHR 0x22, CHR 0x27] of
    None \<Rightarrow> None | Some ws \<Rightarrow> Some (0, [] # ws, b))"
proof -
  let ?d = "[CHR '' '', CHR 0x09, CHR 0x0A, CHR 0x0D]" and ?q = "[CHR 0x22, CHR 0x27]"
  obtain b ts where "quote_loop push_ptr ?d ?q (cmd @ [nul]) 0 0 nul [] = Some (b, ts)"
      "quote_loop push_str ?d ?q (cmd @ [nul]) 0 0 nul (reads (cmd @ [nul]) []) = Some (b, reads b ts)"
    using quote_loop_agree [of ?q "cmd @ [nul]" 0 0 "[]" ?d nul] by (auto simp: quote_inv_def)
  then show ?thesis by (auto simp: ArgsAlloc_def StrTokenize_quote_ptr_def StrTokenize_quote_vec_def reads_def)
qed

lemma quoted_command:
  assumes "qc \<in> {CHR 0x22, CHR 0x27}" "ws \<noteq> []" "\<forall>w\<in>set ws. w \<noteq> [] \<and> is_c_str w \<and> CHR 0x22 \<notin> set w \<and> CHR 0x27 \<notin> set w"
  shows "ArgsParse_cmd ao (sep_by '' '' (map (quoted qc) ws)) st = ArgsParse ao ([] # ws) st \<or>
    (\<exists>rc st'. ArgsParse ao ([] # ws) st = Some (rc, st') \<and> rc \<noteq> 0 \<and> ArgsParse_cmd ao (sep_by '' '' (map (quoted qc) ws)) st = Some (-1, st'))"
proof -
  let ?d = "[CHR '' '', CHR 0x09, CHR 0x0A, CHR 0x0D]" and ?q = "[CHR 0x22, CHR 0x27]" and ?cmd = "sep_by '' '' (map (quoted qc) ws)"
  have "\<forall>w\<in>set ws. w \<noteq> [] \<and> (\<forall>c\<in>set w. c \<noteq> nul \<and> StrIsDelim c ?q = nul)"
    using assms(3) by (auto simp: StrIsDelim_in is_c_str_def c_str_def)
  moreover have "StrIsDelim qc ?q = qc" "StrIsDelim qc ?d = nul" "StrIsDelim (CHR '' '') ?d = CHR '' ''" "StrIsDelim (CHR '' '') ?q = nul" "qc \<noteq> nul"
    using assms(1) by (auto simp: StrIsDelim_in c_str_def)
  ultimately have v: "StrTokenize_quote_vec ?cmd ?d ?q = Some ws"
    using quote_loop_words [of qc ?q ?d "CHR '' ''" ws "[]" "[]"] assms(2) by (simp add: StrTokenize_quote_vec_def)
  have "is_c_str (sep_by '' '' (map (quoted qc) xs))" if "\<forall>w\<in>set xs. is_c_str w" for xs
    using that \<open>qc \<noteq> nul\<close> by (induction xs rule: induct_list012) (auto simp: is_c_str_def quoted_def)
  then have "is_c_str ?cmd" using assms(3) by blast
  then obtain b where a: "ArgsAlloc ?cmd = Some (0, [] # ws, b)" using ArgsAlloc_vec [of ?cmd] v by auto
  show ?thesis by (cases "ArgsParse ao ([] # ws) st") (auto simp: ArgsParse_cmd_def a)
qed

section \<open>Types\<close>

text \<open>The type of the target of an option, and of a value.\<close>

fun arg_kind :: "ArgsType \<Rightarrow> ArgsType" where
  "arg_kind ARGS_MODE = ARGS_INT"
| "arg_kind ARGS_FLAG = ARGS_INT"
| "arg_kind ty = ty"

fun value_kind :: "arg_value \<Rightarrow> ArgsType" where
  "value_kind (IntV _) = ARGS_INT"
| "value_kind (DoubleV _) = ARGS_DOUBLE"
| "value_kind (FloatV _) = ARGS_FLOAT"
| "value_kind (StringV _) = ARGS_STRING"
| "value_kind (CharV _) = ARGS_CHAR"

fun value_fits :: "arg_value \<Rightarrow> bool" where
  "value_fits (IntV v) = int_fits v"
| "value_fits _ = True"

text \<open>
  Options that share a target agree on its type, and the numbers of the modes are of type \<^verbatim>\<open>int\<close>; the store holds values of these types,
  numbers that fit an \<^verbatim>\<open>int\<close> where the type is an integer.
\<close>

definition args_typed :: "ArgsObj list \<Rightarrow> bool" where
  "args_typed ao \<longleftrightarrow> (\<forall>e\<in>set ao. int_fits (ao_intVal e)) \<and> (\<forall>e\<in>set ao. \<forall>e'\<in>set ao. ao_target e = ao_target e' \<longrightarrow> arg_kind (ao_type e) = arg_kind (ao_type e'))"

definition store_typed :: "ArgsObj list \<Rightarrow> arg_store \<Rightarrow> bool" where
  "store_typed ao st \<longleftrightarrow> (\<forall>e\<in>set ao. \<forall>v. st (ao_target e) = Some v \<longrightarrow> value_kind v = arg_kind (ao_type e) \<and> value_fits v)"

lemma store_typed_upd:
  "args_typed ao \<Longrightarrow> store_typed ao st \<Longrightarrow> e \<in> set ao \<Longrightarrow> value_kind v = arg_kind (ao_type e) \<Longrightarrow> value_fits v \<Longrightarrow> store_typed ao (st(ao_target e \<mapsto> v))"
  unfolding store_typed_def args_typed_def by (metis fun_upd_apply option.inject)

lemma arg_value_kind: "arg_value_of ty arg = Some (Some v) \<Longrightarrow> value_kind v = arg_kind ty \<and> value_fits v"
  by (cases ty) (auto simp: arg_value_of_def atoi_fits Option.bind_eq_Some_conv)

text \<open>What one entry of the table does to the store: nothing, or one value of its type.\<close>

lemma match_entry:
  assumes "args_match (e # es) argv k i found st = Some r" "int_fits (ao_intVal e)"
  shows "(\<exists>m f. r = (m, i, f, st)) \<or> (\<exists>j f. args_match es argv k j f st = Some r) \<or>
    (\<exists>j v. value_kind v = arg_kind (ao_type e) \<and> value_fits v \<and> args_match es argv k j True (st(ao_target e \<mapsto> v)) = Some r)"
proof (cases "ao_type e = ARGS_NULL \<or> argv_at argv i = None \<or> argv_at argv i \<noteq> Some (ao_pattern e)")
  case True
  then show ?thesis using assms by (auto split: if_splits option.splits)
next
  case False
  then have a: "ao_type e \<noteq> ARGS_NULL" "argv_at argv i = Some (ao_pattern e)" by auto
  consider (mode) "ao_type e = ARGS_MODE" | (flag) "ao_type e = ARGS_FLAG" | (arg) "ao_type e \<noteq> ARGS_MODE" "ao_type e \<noteq> ARGS_FLAG" by blast
  then show ?thesis
  proof cases
    case mode
    then have "args_match es argv k i True (st(ao_target e \<mapsto> IntV (ao_intVal e))) = Some r" using assms a by simp
    then show ?thesis using mode assms(2) by (metis arg_kind.simps(1) value_fits.simps(1) value_kind.simps(1))
  next
    case flag
    then have "args_match es argv k i True (st(ao_target e \<mapsto> IntV 1)) = Some r" using assms a by simp
    then show ?thesis using flag by (intro disjI2 exI [of _ i] exI [of _ "IntV 1"]) (simp add: int_fits_def)
  next
    case arg
    show ?thesis
    proof (cases "k = 0")
      case True
      then show ?thesis using assms a arg by auto
    next
      case False
      then show ?thesis using assms a arg
        by (cases "arg_value_of (ao_type e) (argv_at argv (i + 1))") (auto split: option.splits dest: arg_value_kind)
    qed
  qed
qed

lemma match_typed:
  assumes "args_typed ao" "args_match es argv k i found st = Some (missing, i', found', st')" "store_typed ao st" "set es \<subseteq> set ao"
  shows "store_typed ao st' \<and> (\<forall>a. a \<notin> ao_target ` set es \<longrightarrow> st' a = st a)"
  using assms(2-4)
proof (induction es arbitrary: i k found st)
  case (Cons e es)
  have e: "e \<in> set ao" "set es \<subseteq> set ao" using Cons.prems(3) by auto
  have "int_fits (ao_intVal e)" using assms(1) e(1) by (simp add: args_typed_def)
  from match_entry [OF Cons.prems(1) this] show ?case
  proof (elim disjE exE conjE)
    fix j v
    assume v: "value_kind v = arg_kind (ao_type e)" "value_fits v"
      and m: "args_match es argv k j True (st(ao_target e \<mapsto> v)) = Some (missing, i', found', st')"
    show ?thesis using Cons.IH [OF m store_typed_upd [OF assms(1) Cons.prems(2) e(1) v] e(2)] by simp
  next
    fix j f
    assume "args_match es argv k j f st = Some (missing, i', found', st')"
    from Cons.IH [OF this Cons.prems(2) e(2)] show ?thesis by simp
  qed (use Cons.prems(2) in simp)
qed simp

lemma loop_typed:
  assumes "args_typed ao" "store_typed ao st" "args_loop ao argv i st = Some (rc, st')"
  shows "store_typed ao st' \<and> (\<forall>a. a \<notin> ao_target ` set ao \<longrightarrow> st' a = st a)"
  using assms(2,3)
proof (induction "length argv - i" arbitrary: i st rule: less_induct)
  case less
  show ?case
  proof (cases "i < length argv")
    case False
    then show ?thesis using less.prems by (subst (asm) args_loop.simps) simp
  next
    case True
    obtain missing i' found st1 where m: "args_match ao argv (length argv - i - 1) i False st = Some (missing, i', found, st1)"
      using less.prems(2) True by (subst (asm) args_loop.simps) (auto split: option.splits)
    note t = match_typed [OF assms(1) m less.prems(1) order_refl] and fw = args_match_forward [OF m]
    show ?thesis
    proof (cases "missing \<or> \<not> found")
      case True
      then show ?thesis using less.prems(2) \<open>i < length argv\<close> m t by (subst (asm) args_loop.simps) auto
    next
      case False
      then have "args_loop ao argv (i' + 1) st1 = Some (rc, st')"
        using less.prems(2) \<open>i < length argv\<close> m by (subst (asm) args_loop.simps) auto
      then show ?thesis using less.hyps [of "i' + 1" st1] t fw True by auto
    qed
  qed
qed

section \<open>Properties\<close>

text \<open>
  Property C13. Command lines are understood: for a table with distinct patterns, a command line that is made of options of the table, each followed by its argument
  where it takes one, is accepted, and the targets get the values of the options in their order. The conditions are that
  no argument is itself the name of an option and that the number in the argument of an integer option fits an \<^verbatim>\<open>int\<close>. The same holds for one string in
  writable memory in which every word is quoted, whatever blanks the words contain, as long as they are not empty and contain no quotes.
\<close>

theorem args_understood:
  assumes "args_table ao es" "\<forall>it\<in>set items. item_ok es it"
  shows "ArgsParse ao (prog # concat (map item_words items)) st = Some (0, fold item_store items st) \<and>
    (items \<noteq> [] \<longrightarrow> qc \<in> {CHR 0x22, CHR 0x27} \<longrightarrow>
      (\<forall>w\<in>set (concat (map item_words items)). w \<noteq> [] \<and> is_c_str w \<and> CHR 0x22 \<notin> set w \<and> CHR 0x27 \<notin> set w) \<longrightarrow>
      ArgsParse_cmd ao (sep_by '' '' (map (quoted qc) (concat (map item_words items)))) st = Some (0, fold item_store items st))"
proof (intro conjI impI)
  have parse: "ArgsParse ao (x # concat (map item_words items)) st = Some (0, fold item_store items st)" for x
    using loop_items [OF assms, of "x # concat (map item_words items)" "[x]" st] by (simp add: ArgsParse_def)
  then show "ArgsParse ao (prog # concat (map item_words items)) st = Some (0, fold item_store items st)" .
  assume q: "items \<noteq> []" "qc \<in> {CHR 0x22, CHR 0x27}"
    "\<forall>w\<in>set (concat (map item_words items)). w \<noteq> [] \<and> is_c_str w \<and> CHR 0x22 \<notin> set w \<and> CHR 0x27 \<notin> set w"
  have "item_words it \<noteq> []" for it by (cases it) simp
  then have "concat (map item_words items) \<noteq> []" using q(1) by (cases items) auto
  then show "ArgsParse_cmd ao (sep_by '' '' (map (quoted qc) (concat (map item_words items)))) st = Some (0, fold item_store items st)"
    using quoted_command [OF q(2) _ q(3), of ao st] parse [of "[]"] by auto
qed

definition demo_table :: "ArgsObj list" where
  "demo_table = [\<lparr>ao_type = ARGS_STRING, ao_pattern = ''-n'', ao_target = 0, ao_intVal = 0\<rparr>,
     \<lparr>ao_type = ARGS_FLAG, ao_pattern = ''-v'', ao_target = 1, ao_intVal = 0\<rparr>,
     \<lparr>ao_type = ARGS_INT, ao_pattern = ''-i'', ao_target = 2, ao_intVal = 0\<rparr>]"

definition end_entry :: ArgsObj where
  "end_entry = \<lparr>ao_type = ARGS_NULL, ao_pattern = [], ao_target = 9, ao_intVal = 0\<rparr>"

lemma demo_table_ok: "args_table (demo_table @ [end_entry]) demo_table"
  by (simp add: args_table_def demo_table_def end_entry_def)

theorem args_understood_witness:
  "ArgsParse_cmd (demo_table @ [end_entry])
     (sep_by '' '' (map (quoted (CHR 0x22)) [''-n'', ''a b'', ''-v'', ''-i'', ''-42''])) Map.empty =
    Some (0, [0 \<mapsto> StringV (Some ''a b''), 1 \<mapsto> IntV 1, 2 \<mapsto> IntV (-42)])"
proof -
  let ?it = "[(demo_table ! 0, ''a b''), (demo_table ! 1, []), (demo_table ! 2, ''-42'')]"
  have n: "atoi_value ''-42'' = -42" by (simp add: atoi_value_def ctype_defs)
  have i: "\<forall>it\<in>set ?it. item_ok demo_table it" by (simp add: item_ok_def takes_arg_def demo_table_def n int_fits_def)
  have w: "concat (map item_words ?it) = [''-n'', ''a b'', ''-v'', ''-i'', ''-42'']" by (simp add: takes_arg_def demo_table_def)
  have s: "fold item_store ?it Map.empty = [0 \<mapsto> StringV (Some ''a b''), 1 \<mapsto> IntV 1, 2 \<mapsto> IntV (-42)]"
    by (simp add: demo_table_def n)
  show ?thesis
    using args_understood [OF demo_table_ok i, of "[]" Map.empty "CHR 0x22", THEN conjunct2] unfolding w s by (simp add: is_c_str_def)
qed

text \<open>
  Property C14. Targets keep their types: whatever the command line, accepted or not, when the parser returns, every target that the table names holds
  a value of the type that its option declares (an integer that fits an \<^verbatim>\<open>int\<close> for numbers, modes and flags), and no other cell is written.
  Options that share a target have to agree on its type. The parser has no defined result when an argument is a number that does not fit an \<^verbatim>\<open>int\<close>, when it
  is missing because the word before it was taken twice, or when the table has no end.
\<close>

theorem args_keep_types:
  assumes "args_typed ao" "store_typed ao st" "ArgsParse ao argv st = Some (rc, st')"
  shows "store_typed ao st' \<and> (\<forall>a. a \<notin> ao_target ` set ao \<longrightarrow> st' a = st a)"
  using loop_typed [OF assms(1,2)] assms(3) by (simp add: ArgsParse_def)

theorem args_keep_types_witness:
  "\<exists>rc st'. ArgsParse (demo_table @ [end_entry]) [''p'', ''-i'', ''7'', ''?''] Map.empty = Some (rc, st') \<and> st' 2 = Some (IntV 7) \<and> store_typed (demo_table @ [end_entry]) st'"
proof -
  have t: "args_typed (demo_table @ [end_entry])" "store_typed (demo_table @ [end_entry]) Map.empty"
    by (simp_all add: args_typed_def store_typed_def demo_table_def end_entry_def int_fits_def)
  have "atoi ''7'' = Some 7" by (simp add: atoi_short atoi_value_def ctype_defs)
  then have "ArgsParse (demo_table @ [end_entry]) [''p'', ''-i'', ''7'', ''?''] Map.empty = Some (-1, [2 \<mapsto> IntV 7])"
    by (simp add: ArgsParse_def args_loop.simps demo_table_def end_entry_def argv_at_def arg_value_of_def)
  then show ?thesis using args_keep_types [OF t] by (metis fun_upd_same)
qed

text \<open>
  Wrong command lines: after any good beginning, a word that is no option and an option whose argument is missing are refused, with the values set
  so far. An argument that is the name of an option further down the table is taken twice, as the argument and as that option: a flag is set besides, and an option
  that takes an argument of its own reads a null pointer at the end of the line.
\<close>

theorem args_wrong_lines:
  assumes "args_table ao es" "\<forall>it\<in>set items. item_ok es it"
  shows "(x \<notin> ao_pattern ` set es \<longrightarrow>
      ArgsParse ao (prog # concat (map item_words items) @ x # rest) st = Some (-1, fold item_store items st)) \<and>
    (e \<in> set es \<longrightarrow> takes_arg e \<longrightarrow>
      ArgsParse ao (prog # concat (map item_words items) @ [ao_pattern e]) st = Some (-1, fold item_store items st)) \<and>
    (ao_type a = ARGS_STRING \<longrightarrow> ao_pattern a \<noteq> ao_pattern b \<longrightarrow> ao_type b = ARGS_FLAG \<longrightarrow> ao_type z = ARGS_NULL \<longrightarrow>
      ArgsParse [a, b, z] [prog, ao_pattern a, ao_pattern b] st = Some (0, st(ao_target a \<mapsto> StringV (Some (ao_pattern b)), ao_target b \<mapsto> IntV 1))) \<and>
    (ao_type a = ARGS_STRING \<longrightarrow> ao_pattern a \<noteq> ao_pattern b \<longrightarrow> ao_type b = ARGS_INT \<longrightarrow> ao_type z = ARGS_NULL \<longrightarrow>
      ArgsParse [a, b, z] [prog, ao_pattern a, ao_pattern b] st = None)"
proof (intro conjI impI)
  assume "x \<notin> ao_pattern ` set es"
  then show "ArgsParse ao (prog # concat (map item_words items) @ x # rest) st = Some (-1, fold item_store items st)"
    using loop_prefix [OF assms, of "prog # concat (map item_words items) @ x # rest" "[prog]" "x # rest" st]
      loop_unknown [OF assms(1), of _ "prog # concat (map item_words items)" x rest] by (simp add: ArgsParse_def)
next
  assume "e \<in> set es" "takes_arg e"
  then show "ArgsParse ao (prog # concat (map item_words items) @ [ao_pattern e]) st = Some (-1, fold item_store items st)"
    using loop_prefix [OF assms, of "prog # concat (map item_words items) @ [ao_pattern e]" "[prog]" "[ao_pattern e]" st]
      loop_missing [OF assms(1), of _ "prog # concat (map item_words items)" e] by (simp add: ArgsParse_def)
qed (simp_all add: ArgsParse_def args_loop.simps argv_at_def arg_value_of_def)

theorem args_wrong_lines_witness:
  "ArgsParse (demo_table @ [end_entry]) [''p'', ''-v'', ''?''] Map.empty = Some (-1, [1 \<mapsto> IntV 1]) \<and>
   ArgsParse [demo_table ! 0, demo_table ! 1, end_entry] [''p'', ''-n'', ''-v''] Map.empty = Some (0, [0 \<mapsto> StringV (Some ''-v''), 1 \<mapsto> IntV 1])"
proof
  have i: "\<forall>it\<in>set [(demo_table ! 1, [])]. item_ok demo_table it" by (simp add: item_ok_def takes_arg_def demo_table_def)
  show "ArgsParse (demo_table @ [end_entry]) [''p'', ''-v'', ''?''] Map.empty = Some (-1, [1 \<mapsto> IntV 1])"
    using args_wrong_lines [OF demo_table_ok i, of "''?''" "''p''" "[]" Map.empty end_entry end_entry end_entry end_entry, THEN conjunct1]
    by (simp add: demo_table_def takes_arg_def)
  show "ArgsParse [demo_table ! 0, demo_table ! 1, end_entry] [''p'', ''-n'', ''-v''] Map.empty = Some (0, [0 \<mapsto> StringV (Some ''-v''), 1 \<mapsto> IntV 1])"
    using args_wrong_lines [OF demo_table_ok i, of "''?''" "''p''" "[]" Map.empty end_entry "demo_table ! 0" "demo_table ! 1" end_entry]
    by (simp add: demo_table_def end_entry_def)
qed

end
