(* ===== verification/Net_Cgi.thy ===== *)
theory Net_Cgi
  imports SS_Map Str_Text
begin

text \<open>
  The CGI helper (\<^verbatim>\<open>LibCGI/CGI.cpp\<close>): URL encoding, query strings as maps of variables, and the text that identifies a request. Query strings are
  cut in place with zero bytes that are taken back afterwards, so the buffer is part of the model.
\<close>

section \<open>URL encoding\<close>

text \<open>The value of a \<^verbatim>\<open>char\<close>, which is signed; shifts of negative values are arithmetic.\<close>

definition signed_char :: "char \<Rightarrow> int" where
  "signed_char c = (let n = of_char c in if n < 128 then n else n - 256)"

definition to_hex :: "int \<Rightarrow> char" where
  "to_hex code = ''0123456789abcdef'' ! nat (code mod 16)"

definition url_plain :: "char \<Rightarrow> bool" where
  "url_plain c \<longleftrightarrow> isalnum c \<or> c = CHR ''-'' \<or> c = CHR ''_'' \<or> c = CHR ''.'' \<or> c = CHR ''~''"

text \<open>A byte from 128 on is a negative char, for which \<^verbatim>\<open>isalnum\<close> is undefined.\<close>

fun encode_loop :: "string \<Rightarrow> nat \<Rightarrow> string \<Rightarrow> (string \<times> nat) run" where
  "encode_loop buf p [] = Some (buf, p)"
| "encode_loop buf p (c # s) =
     (if 128 \<le> (of_char c :: nat) then None
      else if url_plain c then do { buf \<leftarrow> mem_write buf p [c]; encode_loop buf (p + 1) s }
      else if c = CHR '' '' then do { buf \<leftarrow> mem_write buf p ''+''; encode_loop buf (p + 1) s }
      else do { buf \<leftarrow> mem_write buf p [CHR ''%'', to_hex (signed_char c div 16), to_hex (signed_char c mod 16)];
                encode_loop buf (p + 3) s })"

definition CgiUrlEncode :: "string \<Rightarrow> string run" where
  "CgiUrlEncode str = do {
     (buf, p) \<leftarrow> encode_loop (replicate (length str * 3 + 1) nul) 0 (c_str str);
     buf \<leftarrow> mem_write buf p [nul];
     Some (c_str buf) }"

text \<open>
  The conversion \<^verbatim>\<open>%x\<close> of \<^verbatim>\<open>sscanf\<close>: blanks, a sign, a prefix, and at least one digit. \<open>None\<close> is a failure, which leaves the
  target alone.
\<close>

definition isxdigit :: "char \<Rightarrow> bool" where
  "isxdigit c \<longleftrightarrow> isdigit c \<or> isalpha c \<and> of_char (tolower c) \<le> (102 :: nat)"

definition xdigit_value :: "char \<Rightarrow> int" where
  "xdigit_value c = (if isdigit c then of_char c - 48 else of_char (tolower c) - 87)"

definition scan_hex :: "string \<Rightarrow> int option" where
  "scan_hex s =
     (let s = dropWhile isspace s;
          neg = (s \<noteq> [] \<and> hd s = CHR ''-'');
          s = (if s \<noteq> [] \<and> hd s \<in> {CHR ''-'', CHR ''+''} then tl s else s);
          s = (if take 2 s \<in> {''0x'', ''0X''} then drop 2 s else s);
          ds = takeWhile isxdigit s;
          v = foldl (\<lambda>v c. 16 * v + xdigit_value c) 0 ds
      in if ds = [] then None else Some (if neg then - v else v))"

text \<open>The loop with the rest of the text and the variable that \<^verbatim>\<open>sscanf\<close> assigns, which is not set before its first success.\<close>

function decode_loop :: "string \<Rightarrow> int option \<Rightarrow> string run" where
  "decode_loop [] ii = Some []"
| "decode_loop (c # s) ii =
     (if c = CHR ''%'' then
        (case (case scan_hex (take 2 s) of None \<Rightarrow> ii | Some v \<Rightarrow> Some v) of
           None \<Rightarrow> None
         | Some v \<Rightarrow> map_option ((#) (char_of (nat (v mod 256)))) (decode_loop (drop 2 s) (Some v)))
      else if c = CHR ''+'' then map_option ((#) (CHR '' '')) (decode_loop s ii)
      else map_option ((#) c) (decode_loop s ii))"
  by pat_completeness auto
termination by (relation "measure (\<lambda>(s, ii). length s)") auto

definition CgiUrlDecode :: "string \<Rightarrow> string run" where
  "CgiUrlDecode src = decode_loop src None"

section \<open>Query strings\<close>

text \<open>C strings inside a block: the text at a position and the search for a character, which finds the zero at the end too.\<close>

definition suffix_at :: "string \<Rightarrow> nat \<Rightarrow> string run" where
  "suffix_at b p = (if nul \<in> set (drop p b) then Some (c_str (drop p b)) else None)"

definition find_at :: "string \<Rightarrow> nat \<Rightarrow> char \<Rightarrow> nat option run" where
  "find_at b p c = do {
     s \<leftarrow> suffix_at b p;
     Some (if c = nul then Some (p + length s) else map_option ((+) p) (strchr s c)) }"

lemma takeWhile_less: "\<exists>x\<in>set xs. \<not> P x \<Longrightarrow> length (takeWhile P xs) < length xs"
  by (induction xs) auto

lemma find_at_bounds:
  assumes "find_at b p c = Some (Some i)"
  shows "p \<le> i \<and> i < length b"
proof -
  have n: "nul \<in> set (drop p b)" and i: "c = nul \<and> i = p + length (c_str (drop p b)) \<or> (\<exists>k. strchr (c_str (drop p b)) c = Some k \<and> i = p + k)"
    using assms by (auto simp: find_at_def suffix_at_def bind_eq_Some_conv split: if_splits)
  have "length (c_str (drop p b)) < length (drop p b)" unfolding c_str_def using n by (intro takeWhile_less) auto
  moreover have "strchr s c = Some k \<Longrightarrow> k < length s" for s k
    by (auto simp: strchr_def split: if_splits intro!: takeWhile_less)
  ultimately show ?thesis using i by fastforce
qed

text \<open>Variables that are empty or zero are left out.\<close>

definition enter_var :: "string \<Rightarrow> nat \<Rightarrow> nat \<Rightarrow> ssmap \<Rightarrow> ssmap run" where
  "enter_var b field value m = do {
     v \<leftarrow> suffix_at b value;
     if v \<noteq> [] \<and> v \<noteq> ''0'' then do {
       f \<leftarrow> suffix_at b field;
       lvalue \<leftarrow> CgiUrlDecode f;
       rvalue \<leftarrow> CgiUrlDecode v;
       Some (smap_set lvalue rvalue m) }
     else Some m }"

function vars_loop :: "char \<Rightarrow> string \<Rightarrow> nat \<Rightarrow> ssmap \<Rightarrow> (string \<times> ssmap) run" where
  "vars_loop delim b field m =
     (case find_at b field (CHR ''='') of
        None \<Rightarrow> None
      | Some None \<Rightarrow> Some (b, m)
      | Some (Some fieldEnd) \<Rightarrow>
          (let b1 = b[fieldEnd := nul]; value = fieldEnd + 1 in
           case find_at b1 value delim of
             None \<Rightarrow> None
           | Some valueEnd \<Rightarrow>
               (let (b2, valueEndZero) = (case valueEnd of None \<Rightarrow> (b1, nul) | Some e \<Rightarrow> (b1[e := nul], b1 ! e)) in
                case enter_var b2 field value m of
                  None \<Rightarrow> None
                | Some m \<Rightarrow>
                    (let b3 = b2[fieldEnd := b ! fieldEnd] in
                     case valueEnd of
                       None \<Rightarrow> Some (b3, m)
                     | Some e \<Rightarrow> if valueEndZero \<noteq> nul then vars_loop delim (b3[e := valueEndZero]) (e + 1) m else Some (b3, m)))))"
  by pat_completeness auto
termination
  by (relation "measure (\<lambda>(delim, b, field, m). length b - field)") (auto dest!: find_at_bounds)

declare vars_loop.simps [simp del]

definition CgiDecodeUserVars :: "ssmap \<Rightarrow> string option \<Rightarrow> char \<Rightarrow> (int \<times> string option \<times> ssmap) run" where
  "CgiDecodeUserVars m userData delim =
     (case userData of
        None \<Rightarrow> Some (-1, None, m)
      | Some b \<Rightarrow> map_option (\<lambda>(b, m). (0, Some b, m)) (vars_loop delim b 0 m))"

fun encode_vars_loop :: "ssmap \<Rightarrow> string \<Rightarrow> string run" where
  "encode_vars_loop [] ret = Some ret"
| "encode_vars_loop ((first, second) # m) ret =
     (if second \<noteq> ''0'' then do {
        f \<leftarrow> CgiUrlEncode first;
        s \<leftarrow> CgiUrlEncode second;
        encode_vars_loop m ((if ret \<noteq> [] then ret @ ''&amp;'' else ret) @ f @ ''='' @ s) }
      else encode_vars_loop m ret)"

definition CgiEncodeUserVars :: "ssmap \<Rightarrow> string run" where
  "CgiEncodeUserVars m = encode_vars_loop m []"

section \<open>The environment of a request\<close>

record cgi =
  cgi_GET :: ssmap
  cgi_COOKIE :: ssmap
  cgi_InitOK :: bool

text \<open>The arguments are the texts of the two variables of the environment.\<close>

definition decode_env :: "string option \<Rightarrow> char \<Rightarrow> ssmap \<Rightarrow> (int \<times> ssmap) run" where
  "decode_env v delim m =
     (case v of
        None \<Rightarrow> Some (0, m)
      | Some s \<Rightarrow> if s = [] then Some (0, m)
                  else do { (rc, _, m) \<leftarrow> CgiDecodeUserVars m (Some (s @ [nul])) delim; Some (rc, m) })"

definition CgiInit :: "string option \<Rightarrow> string option \<Rightarrow> cgi \<Rightarrow> (int \<times> cgi) run" where
  "CgiInit query cookie st =
     (if cgi_InitOK st then Some (0, st)
      else do {
        (rc, m) \<leftarrow> decode_env query (CHR ''&'') (cgi_GET st);
        let st = st\<lparr>cgi_GET := m\<rparr>;
        if rc \<noteq> 0 then Some (-1, st) else do {
          (rc, m) \<leftarrow> decode_env cookie (CHR '';'') (cgi_COOKIE st);
          let st = st\<lparr>cgi_COOKIE := m\<rparr>;
          if rc \<noteq> 0 then Some (-1, st) else Some (0, st\<lparr>cgi_InitOK := True\<rparr>) } })"

definition CgiGet :: "string option \<Rightarrow> cgi \<Rightarrow> string option" where
  "CgiGet lvalue st = (case lvalue of None \<Rightarrow> None | Some k \<Rightarrow> map_option c_str (smap_find (cgi_GET st) k))"

section \<open>The text that identifies a request\<close>

text \<open>What is added for a Polish letter, given its two bytes.\<close>

definition hash_pl :: "nat \<Rightarrow> nat \<Rightarrow> string" where
  "hash_pl a b =
     (if a = 0xc4 then
        (if b \<in> {0x84, 0x85} then ''a'' else if b \<in> {0x86, 0x87} then ''c'' else if b \<in> {0x98, 0x99} then ''e'' else [])
      else if a = 0xc5 then
        (if b \<in> {0x81, 0x82} then ''l'' else if b \<in> {0x83, 0x84} then ''n'' else if b \<in> {0x9a, 0x9b} then ''s''
         else if b \<in> {0xb9, 0xba, 0xbb, 0xbc} then ''z'' else [])
      else if b \<in> {0x93, 0xb3} then ''o'' else [])"

definition hex2 :: "nat \<Rightarrow> string" where
  "hex2 n = [''0123456789abcdef'' ! (n div 16 mod 16), ''0123456789abcdef'' ! (n mod 16)]"

text \<open>A letter of two bytes at the very end takes the zero byte after the text.\<close>

function hash_chars :: "string \<Rightarrow> string" where
  "hash_chars [] = []"
| "hash_chars (c # s) =
     (let uc = of_char c in
      if uc \<in> {0xc4, 0xc5, 0xc3 :: nat} then hash_pl uc (case s of [] \<Rightarrow> 0 | d # _ \<Rightarrow> of_char d) @ hash_chars (tl s)
      else if isupper c then char_of (uc + 32) # hash_chars s
      else if islower c \<or> isdigit c then c # hash_chars s
      else hex2 uc @ hash_chars s)"
  by pat_completeness auto
termination by (relation "measure length") auto

definition CgiHashAdd_str :: "string \<Rightarrow> string \<Rightarrow> string" where
  "CgiHashAdd_str hash str = hash @ hash_chars str @ ''#''"

text \<open>The digits of an unsigned number.\<close>

fun hex_digits :: "nat \<Rightarrow> string" where
  "hex_digits n = (if n < 16 then [''0123456789abcdef'' ! n] else hex_digits (n div 16) @ [''0123456789abcdef'' ! (n mod 16)])"

declare hex_digits.simps [simp del]

definition CgiHashAdd_int :: "string \<Rightarrow> int \<Rightarrow> string" where
  "CgiHashAdd_int hash v = hash @ take 15 (hex_digits (nat (v mod 2 ^ 32))) @ ''#''"

definition CgiHashArgs :: "cgi \<Rightarrow> string" where
  "CgiHashArgs st =
     (let hash = foldl (\<lambda>hash (first, second). if second \<noteq> [] then CgiHashAdd_str (CgiHashAdd_str hash first) second else hash) [] (cgi_GET st)
      in if hash = [] then ''#'' else hash)"


section \<open>Encoding and decoding\<close>

definition enc_char :: "char \<Rightarrow> string" where
  "enc_char c = (if url_plain c then [c] else if c = CHR '' '' then ''+''
     else [CHR ''%'', to_hex (signed_char c div 16), to_hex (signed_char c mod 16)])"

definition enc :: "string \<Rightarrow> string" where
  "enc s = concat (map enc_char s)"

lemma enc_simps [simp]: "enc [] = []" "enc (c # s) = enc_char c @ enc s"
  by (simp_all add: enc_def)

lemma enc_char_length: "0 < length (enc_char c) \<and> length (enc_char c) \<le> 3"
  by (simp add: enc_char_def)

lemma enc_length: "length (enc s) \<le> 3 * length s"
proof (induction s)
  case (Cons c s)
  then show ?case using enc_char_length [of c] by simp
qed simp

lemma encode_loop_Cons:
  "of_char c < (128 :: nat) \<Longrightarrow> encode_loop buf p (c # s) = do { b \<leftarrow> mem_write buf p (enc_char c); encode_loop b (p + length (enc_char c)) s }"
  by (simp add: enc_char_def numeral_3_eq_3)

lemma encode_loop_enc:
  assumes "p + length (enc s) < length buf" "is_ascii s"
  shows "\<exists>buf'. encode_loop buf p s = Some (buf', p + length (enc s)) \<and> length buf' = length buf \<and>
    take (p + length (enc s)) buf' = take p buf @ enc s"
  using assms
proof (induction s arbitrary: buf p)
  case (Cons c s)
  let ?b = "take p buf @ enc_char c @ drop (p + length (enc_char c)) buf"
  have w: "mem_write buf p (enc_char c) = Some ?b" using Cons.prems by (simp add: mem_write_def)
  have r: "encode_loop buf p (c # s) = encode_loop ?b (p + length (enc_char c)) s"
    using w Cons.prems(2) by (simp add: encode_loop_Cons del: encode_loop.simps)
  have l: "length ?b = length buf" using Cons.prems by simp
  have t: "take (p + length (enc_char c)) ?b = take p buf @ enc_char c" using Cons.prems by simp
  obtain b' where "encode_loop ?b (p + length (enc_char c)) s = Some (b', p + length (enc_char c) + length (enc s))"
      "length b' = length ?b" "take (p + length (enc_char c) + length (enc s)) b' = take (p + length (enc_char c)) ?b @ enc s"
    using Cons.IH [of "p + length (enc_char c)" ?b] Cons.prems unfolding l by (auto simp: add.assoc)
  then show ?case unfolding r using l t by (intro exI [of _ b']) (simp add: add.assoc)
qed simp

text \<open>Digits.\<close>

definition hex_chars :: string where
  "hex_chars = ''0123456789abcdef''"

lemma hex_char:
  assumes "d < 16"
  shows "isxdigit (hex_chars ! d) \<and> xdigit_value (hex_chars ! d) = int d \<and> isalnum (hex_chars ! d) \<and> \<not> isspace (hex_chars ! d) \<and>
    hex_chars ! d \<notin> {CHR ''-'', CHR ''+'', CHR ''x'', CHR ''X'', nul, CHR ''='', CHR ''&'', CHR '';''}"
proof -
  have "\<forall>d\<in>set [0..<16]. isxdigit (hex_chars ! d) \<and> xdigit_value (hex_chars ! d) = int d \<and> isalnum (hex_chars ! d) \<and> \<not> isspace (hex_chars ! d) \<and>
    hex_chars ! d \<notin> {CHR ''-'', CHR ''+'', CHR ''x'', CHR ''X'', nul, CHR ''='', CHR ''&'', CHR '';''}"
    by code_simp
  then show ?thesis using assms by simp
qed

lemma to_hex_chars: "to_hex n = hex_chars ! nat (n mod 16)"
  by (simp add: to_hex_def hex_chars_def)

lemma scan_two:
  assumes "a < 16" "b < 16"
  shows "scan_hex [hex_chars ! a, hex_chars ! b] = Some (int (16 * a + b))"
  using hex_char [OF assms(1)] hex_char [OF assms(2)] by (auto simp: scan_hex_def Let_def)

lemma schar_nibbles: "nat (signed_char c div 16 mod 16) = of_char c div 16" "nat (signed_char c mod 16) = of_char c mod 16"
proof -
  define n where "n = (of_char c :: nat)"
  have n: "n < 256" "of_char c = int n" by (simp_all add: n_def of_nat_of_char)
  have "(int n - 256) div 16 = int n div 16 - 16" "(int n - 256) mod 16 = int n mod 16"
    using div_mult_self1 [of 16 "int n" "-16"] mod_mult_self1 [of "int n" "-16" 16] by simp_all
  moreover have "n div 16 < 16" using n(1) by (simp add: less_mult_imp_div_less)
  ultimately have "signed_char c div 16 mod 16 = int (n div 16)" "signed_char c mod 16 = int (n mod 16)"
    using n(1) by (auto simp: signed_char_def Let_def n(2) zdiv_int zmod_int)
  then show "nat (signed_char c div 16 mod 16) = of_char c div 16" "nat (signed_char c mod 16) = of_char c mod 16" by (simp_all add: n_def)
qed

lemma decode_enc_char: "decode_loop (enc_char c @ s) ii = map_option ((#) c) (decode_loop s (if url_plain c \<or> c = CHR '' '' then ii else Some (of_char c)))"
proof -
  consider (plain) "url_plain c" | (space) "\<not> url_plain c" "c = CHR '' ''" | (other) "\<not> url_plain c" "c \<noteq> CHR '' ''" by blast
  then show ?thesis
  proof cases
    case plain
    then have "c \<noteq> CHR ''%''" "c \<noteq> CHR ''+''" by (auto simp: url_plain_def ctype_defs)
    then show ?thesis using plain by (simp add: enc_char_def)
  next
    case space
    then show ?thesis by (simp add: enc_char_def)
  next
    case other
    let ?n = "of_char c :: nat"
    have "16 * (?n div 16) + ?n mod 16 = ?n" by simp
    then have v: "scan_hex [to_hex (signed_char c div 16), to_hex (signed_char c mod 16)] = Some (int ?n)"
      using scan_two [of "?n div 16" "?n mod 16"] less_mult_imp_div_less [of ?n 16 16] by (simp add: to_hex_chars schar_nibbles)
    have "int ?n mod 256 = int ?n" by (rule mod_pos_pos_trivial) auto
    then have "char_of (nat (int ?n mod 256)) = c" by simp
    then show ?thesis using other v by (simp add: enc_char_def of_nat_of_char)
  qed
qed

lemma decode_enc: "decode_loop (enc s) ii = Some s"
  by (induction s arbitrary: ii) (simp_all add: decode_enc_char)

lemma isalnum_clean: "isalnum c \<Longrightarrow> c \<notin> {nul, CHR ''='', CHR ''&'', CHR '';''}"
  by (auto simp: ctype_defs)

lemma enc_char_clean:
  assumes "c \<noteq> nul" "x \<in> set (enc_char c)"
  shows "x \<notin> {nul, CHR ''='', CHR ''&'', CHR '';''}"
proof (cases "url_plain c \<or> c = CHR '' ''")
  case True
  then have "isalnum x \<or> x = CHR ''-'' \<or> x = CHR ''_'' \<or> x = CHR ''.'' \<or> x = CHR ''~'' \<or> x = CHR ''+''"
    using assms(2) by (auto simp: enc_char_def url_plain_def split: if_splits)
  then show ?thesis using isalnum_clean by auto
next
  case False
  then have "x = CHR ''%'' \<or> (\<exists>d < 16. x = hex_chars ! d)"
    using assms(2) by (auto simp: enc_char_def to_hex_chars) (metis nat_less_iff pos_mod_bound pos_mod_sign of_nat_numeral zero_less_numeral)+
  then show ?thesis using hex_char by auto
qed

lemma enc_clean:
  assumes "is_c_str s" "x \<in> set (enc s)"
  shows "x \<notin> {nul, CHR ''='', CHR ''&'', CHR '';''}"
proof -
  obtain c where c: "c \<in> set s" "x \<in> set (enc_char c)" using assms(2) by (auto simp: enc_def)
  then have "c \<noteq> nul" using assms(1) by (auto simp: is_c_str_def)
  then show ?thesis using c(2) by (rule enc_char_clean)
qed

lemma enc_eq_simps: "enc s = [] \<longleftrightarrow> s = []" "enc s = ''0'' \<longleftrightarrow> s = ''0''"
proof -
  show "enc s = [] \<longleftrightarrow> s = []" using enc_char_length by (cases s) (auto simp: length_greater_0_conv)
  have "enc ''0'' = ''0''" by (simp add: enc_char_def url_plain_def ctype_defs)
  then show "enc s = ''0'' \<longleftrightarrow> s = ''0''" using decode_enc [of s None] decode_enc [of "''0''" None] by auto
qed

lemma CgiUrlEncode_enc:
  assumes "is_c_str s" "is_ascii s"
  shows "CgiUrlEncode s = Some (enc s)"
proof -
  let ?b = "replicate (length s * 3 + 1) nul"
  obtain b' where b: "encode_loop ?b 0 s = Some (b', length (enc s))" "length b' = length s * 3 + 1" "take (length (enc s)) b' = enc s"
    using encode_loop_enc [of 0 s ?b] enc_length [of s] assms(2) by auto
  have "mem_write b' (length (enc s)) [nul] = Some (enc s @ nul # drop (length (enc s) + 1) b')"
    using b enc_length [of s] by (simp add: mem_write_def)
  moreover have "c_str (enc s @ nul # t) = enc s" for t
    using enc_clean [OF assms(1)] unfolding c_str_def by (subst takeWhile_append2) auto
  ultimately show ?thesis using b(1) assms by (simp add: CgiUrlEncode_def c_str_id)
qed


section \<open>Query strings are parsed in place\<close>

text \<open>The specification: raw pairs of a text, and what they do to a map.\<close>

lemma strchr_split:
  assumes "strchr s c = Some i"
  shows "i < length s" "s = take i s @ c # drop (i + 1) s" "c \<notin> set (take i s)"
proof -
  have i: "c \<in> set s" "i = length (takeWhile (\<lambda>x. x \<noteq> c) s)" using assms by (auto simp: strchr_def split: if_splits)
  show l: "i < length s" unfolding i(2) using i(1) by (intro takeWhile_less) auto
  have t: "take i s = takeWhile (\<lambda>x. x \<noteq> c) s" by (simp add: i(2) takeWhile_eq_take [symmetric])
  show "c \<notin> set (take i s)" unfolding t by (auto dest: set_takeWhileD)
  have "s ! i = c" using l nth_length_takeWhile [of "\<lambda>x. x \<noteq> c" s] by (simp add: i(2))
  then show "s = take i s @ c # drop (i + 1) s" using id_take_nth_drop [OF l] by simp
qed

function parse_vars :: "char \<Rightarrow> string \<Rightarrow> (string \<times> string) list" where
  "parse_vars d s =
     (case strchr s (CHR ''='') of
        None \<Rightarrow> []
      | Some i \<Rightarrow>
          (case strchr (drop (i + 1) s) d of
             None \<Rightarrow> [(take i s, drop (i + 1) s)]
           | Some j \<Rightarrow> (take i s, take j (drop (i + 1) s)) # parse_vars d (drop (j + 1) (drop (i + 1) s))))"
  by pat_completeness auto
termination
  by (relation "measure (\<lambda>(d, s). length s)") (auto dest!: strchr_split(1))

declare parse_vars.simps [simp del]

definition put_var :: "string \<Rightarrow> string \<Rightarrow> ssmap \<Rightarrow> ssmap run" where
  "put_var f v m =
     (if v \<noteq> [] \<and> v \<noteq> ''0'' then do { lvalue \<leftarrow> CgiUrlDecode f; rvalue \<leftarrow> CgiUrlDecode v; Some (smap_set lvalue rvalue m) }
      else Some m)"

fun put_vars :: "(string \<times> string) list \<Rightarrow> ssmap \<Rightarrow> ssmap run" where
  "put_vars [] m = Some m"
| "put_vars ((f, v) # ps) m = do { m \<leftarrow> put_var f v m; put_vars ps m }"

lemma enter_var_put: "suffix_at b value = Some v \<Longrightarrow> suffix_at b field = Some f \<Longrightarrow> enter_var b field value m = put_var f v m"
  by (simp add: enter_var_def put_var_def)

lemma parse_none: "CHR ''='' \<notin> set s \<Longrightarrow> parse_vars d s = []"
  by (subst parse_vars.simps) (simp add: strchr_def)

lemma parse_last: "CHR ''='' \<notin> set f \<Longrightarrow> d \<notin> set v \<Longrightarrow> parse_vars d (f @ CHR ''='' # v) = [(f, v)]"
  by (subst parse_vars.simps) (simp add: strchr_append strchr_def [of v])

lemma parse_more: "CHR ''='' \<notin> set f \<Longrightarrow> d \<notin> set v \<Longrightarrow> parse_vars d (f @ CHR ''='' # v @ d # s) = (f, v) # parse_vars d s"
  by (subst parse_vars.simps) (simp add: strchr_append)

lemma str_at_app: "is_c_str s \<Longrightarrow> suffix_at (pre @ s @ nul # post) (length pre) = Some s"
  by (simp add: suffix_at_def c_str_def is_c_str_def takeWhile_tail takeWhile_neq_all)

lemma find_at_app:
  "is_c_str s \<Longrightarrow> find_at (pre @ s @ nul # post) (length pre) c =
     Some (if c = nul then Some (length pre + length s) else map_option ((+) (length pre)) (strchr s c))"
  by (simp add: find_at_def str_at_app)

lemma vars_end:
  assumes "is_c_str f" "CHR ''='' \<notin> set f" "is_c_str v" "d \<notin> set v"
  shows "vars_loop d (pre @ (f @ CHR ''='' # v) @ [nul]) (length pre) m =
    map_option (\<lambda>m. (pre @ (f @ CHR ''='' # v) @ [nul], m)) (put_var f v m)"
proof -
  define b b1 i where "b = pre @ (f @ CHR ''='' # v) @ [nul]" and "b1 = (pre @ f @ [nul]) @ v @ [nul]" and "i = length pre + length f"
  note defs = b_def b1_def i_def
  have c: "is_c_str (f @ CHR ''='' # v)" using assms by (simp add: cstr_simps)
  have fe: "find_at b (length pre) (CHR ''='') = Some (Some i)"
    using find_at_app [OF c, of pre "[]"] assms(2) by (simp add: defs strchr_append)
  have b1: "b[i := nul] = b1" by (simp add: defs list_update_append)
  have ve: "find_at b1 (i + 1) d = Some (if d = nul then Some (i + 1 + length v) else None)"
    using find_at_app [OF assms(3), of "pre @ f @ [nul]" "[]" d] assms(4) by (simp add: defs strchr_def)
  have v: "suffix_at b1 (i + 1) = Some v" using str_at_app [OF assms(3), of "pre @ f @ [nul]" "[]"] by (simp add: defs)
  have f: "suffix_at b1 (length pre) = Some f" using str_at_app [OF assms(1), of pre "v @ [nul]"] by (simp add: defs)
  have u: "b1[i + 1 + length v := nul] = b1" "b1 ! (i + 1 + length v) = nul"
    by (simp_all add: defs list_update_append nth_append)
  have b: "b1[i := b ! i] = b" by (simp add: defs list_update_append nth_append)
  have "vars_loop d b (length pre) m = map_option (\<lambda>m. (b, m)) (put_var f v m)"
    using fe b1 ve u b enter_var_put [OF v f, of m] by (subst vars_loop.simps) (cases "d = nul"; cases "put_var f v m"; simp add: Let_def)
  then show ?thesis by (simp add: b_def)
qed

lemma vars_next:
  assumes "is_c_str f" "CHR ''='' \<notin> set f" "is_c_str v" "d \<notin> set v" "d \<noteq> nul" "is_c_str s"
  shows "vars_loop d (pre @ (f @ CHR ''='' # v @ d # s) @ [nul]) (length pre) m =
    do { m \<leftarrow> put_var f v m; vars_loop d (pre @ (f @ CHR ''='' # v @ d # s) @ [nul]) (length (pre @ f @ CHR ''='' # v @ [d])) m }"
proof -
  define b b1 b2 i where "b = pre @ (f @ CHR ''='' # v @ d # s) @ [nul]" and "b1 = (pre @ f @ [nul]) @ (v @ d # s) @ [nul]"
    and "b2 = (pre @ f @ [nul]) @ v @ nul # s @ [nul]" and "i = length pre + length f"
  note defs = b_def b1_def b2_def i_def
  have c: "is_c_str (f @ CHR ''='' # v @ d # s)" "is_c_str (v @ d # s)" using assms by (simp_all add: cstr_simps)
  have fe: "find_at b (length pre) (CHR ''='') = Some (Some i)"
    using find_at_app [OF c(1), of pre "[]"] assms(2) by (simp add: defs strchr_append)
  have b1: "b[i := nul] = b1" by (simp add: defs list_update_append)
  have ve: "find_at b1 (i + 1) d = Some (Some (i + 1 + length v))"
    using find_at_app [OF c(2), of "pre @ f @ [nul]" "[]" d] assms(4,5) by (simp add: defs strchr_append)
  have u: "b1[i + 1 + length v := nul] = b2" "b1 ! (i + 1 + length v) = d"
    by (simp_all add: defs list_update_append nth_append)
  have v: "suffix_at b2 (i + 1) = Some v" using str_at_app [OF assms(3), of "pre @ f @ [nul]" "s @ [nul]"] by (simp add: defs)
  have f: "suffix_at b2 (length pre) = Some f" using str_at_app [OF assms(1), of pre "v @ nul # s @ [nul]"] by (simp add: defs)
  have b: "(b2[i := b ! i])[i + 1 + length v := d] = b" by (simp add: defs list_update_append nth_append)
  have e: "i + 1 + length v + 1 = length (pre @ f @ CHR ''='' # v @ [d])" by (simp add: i_def)
  have "vars_loop d b (length pre) m = do { m \<leftarrow> put_var f v m; vars_loop d b (length (pre @ f @ CHR ''='' # v @ [d])) m }"
    unfolding e [symmetric] using fe b1 ve u b assms(5) enter_var_put [OF v f, of m]
    by (subst vars_loop.simps) (cases "put_var f v m"; simp add: Let_def)
  then show ?thesis by (simp add: b_def)
qed

lemma vars_loop_parse:
  assumes "is_c_str s"
  shows "vars_loop d (pre @ s @ [nul]) (length pre) m = map_option (\<lambda>m. (pre @ s @ [nul], m)) (put_vars (parse_vars d s) m)"
  using assms
proof (induction s arbitrary: pre m rule: length_induct)
  case (1 s)
  show ?case
  proof (cases "strchr s (CHR ''='')")
    case None
    then show ?thesis using find_at_app [OF "1.prems", of pre "[]" "CHR ''=''"]
      by (subst vars_loop.simps, subst parse_vars.simps) simp
  next
    case (Some i)
    define f r where "f = take i s" and "r = drop (i + 1) s"
    have s: "s = f @ CHR ''='' # r" "CHR ''='' \<notin> set f" using strchr_split [OF Some] by (simp_all add: f_def r_def)
    then have c: "is_c_str f" "is_c_str r" using "1.prems" by (simp_all add: cstr_simps)
    show ?thesis
    proof (cases "strchr r d")
      case None
      then have "d \<notin> set r" by (simp add: strchr_None)
      then show ?thesis unfolding s(1) using vars_end [OF c(1) s(2) c(2)] by (cases "put_var f r m") (simp_all add: parse_last [OF s(2)])
    next
      case (Some j)
      define v t where "v = take j r" and "t = drop (j + 1) r"
      have r: "r = v @ d # t" "d \<notin> set v" using strchr_split [OF Some] by (simp_all add: v_def t_def)
      then have k: "is_c_str v" "is_c_str t" "d \<noteq> nul" using c(2) by (auto simp: cstr_simps)
      have "length t < length s" by (simp add: s(1) r(1))
      then have "vars_loop d ((pre @ f @ CHR ''='' # v @ [d]) @ t @ [nul]) (length (pre @ f @ CHR ''='' # v @ [d])) m' =
          map_option (\<lambda>m. ((pre @ f @ CHR ''='' # v @ [d]) @ t @ [nul], m)) (put_vars (parse_vars d t) m')" for m'
        using "1.IH" k(2) by blast
      then show ?thesis unfolding s(1) r(1) using vars_next [OF c(1) s(2) k(1) r(2) k(3,2), of pre m]
        by (cases "put_var f v m") (simp_all add: parse_more [OF s(2) r(2)])
    qed
  qed
qed

lemma CgiDecodeUserVars_parse:
  "is_c_str s \<Longrightarrow> CgiDecodeUserVars m (Some (s @ [nul])) d = map_option (\<lambda>m. (0, Some (s @ [nul]), m)) (put_vars (parse_vars d s) m)"
  using vars_loop_parse [of s d "[]" m] by (auto simp: CgiDecodeUserVars_def map_option.compositionality comp_def)


section \<open>From maps to texts and back\<close>

definition var_text :: "string \<times> string \<Rightarrow> string" where
  "var_text kv = enc (fst kv) @ ''='' @ enc (snd kv)"

definition c_vars :: "ssmap \<Rightarrow> bool" where
  "c_vars m \<longleftrightarrow> (\<forall>(k, v)\<in>set m. is_c_str k \<and> is_c_str v \<and> is_ascii k \<and> is_ascii v)"

lemma var_text_neq_Nil [simp]: "var_text kv \<noteq> []"
  by (simp add: var_text_def)

lemma sep_by_join: "sep_by d ((x @ d @ y) # ys) = sep_by d (x # y # ys)"
  by (cases ys) simp_all

lemma encode_vars_text:
  assumes "c_vars m"
  shows "encode_vars_loop m ret =
    Some (sep_by ''&amp;'' ((if ret = [] then [] else [ret]) @ map var_text (filter (\<lambda>kv. snd kv \<noteq> ''0'') m)))"
  using assms
proof (induction m arbitrary: ret)
  case (Cons kv m)
  obtain k v where kv: "kv = (k, v)" by (cases kv)
  have c: "is_c_str k" "is_c_str v" "c_vars m" "is_ascii k" "is_ascii v" using Cons.prems by (auto simp: c_vars_def kv)
  show ?case
  proof (cases "v = ''0''")
    case True
    then show ?thesis using Cons.IH [OF c(3)] by (simp add: kv)
  next
    case False
    then have "encode_vars_loop (kv # m) ret = encode_vars_loop m ((if ret \<noteq> [] then ret @ ''&amp;'' else ret) @ var_text kv)"
      by (simp add: kv CgiUrlEncode_enc [OF c(1,4)] CgiUrlEncode_enc [OF c(2,5)] var_text_def)
    then show ?thesis using Cons.IH [OF c(3)] False sep_by_join [of "''&amp;''" ret "var_text kv"] by (simp add: kv)
  qed
qed simp

lemma strstr_found: "CHR ''&'' \<notin> set x \<Longrightarrow> strstr (x @ ''&amp;'' @ t) ''&amp;'' = Some (length x)"
proof (induction x)
  case (Cons c x)
  then show ?case by (auto simp: Cons_prefix_Cons)
qed simp

lemma strstr_not_found: "CHR ''&'' \<notin> set x \<Longrightarrow> strstr x ''&amp;'' = None"
  by (auto simp: strstr_None sublist_def)

lemma replace_seps:
  assumes "\<forall>x\<in>set xs. CHR ''&'' \<notin> set x"
  shows "replace_loop (sep_by ''&amp;'' xs) ''&amp;'' ''&'' ret = Some (ret @ sep_by ''&'' xs)"
  using assms
proof (induction xs arbitrary: ret rule: sep_by.induct [of _ "''&''", simplified])
  case 1
  then show ?case by (subst replace_loop.simps) simp
next
  case (2 _ x)
  then show ?case by (subst replace_loop.simps) (simp add: strstr_not_found)
next
  case (3 _ x y xs)
  have "strstr (x @ ''&amp;'' @ sep_by ''&amp;'' (y # xs)) ''&amp;'' = Some (length x)" using 3 by (intro strstr_found) simp
  then show ?case using 3 by (subst replace_loop.simps) simp
qed

lemma parse_texts:
  assumes "c_vars es"
  shows "parse_vars (CHR ''&'') (sep_by ''&'' (map var_text es)) = map (\<lambda>(k, v). (enc k, enc v)) es"
  using assms
proof (induction es)
  case Nil
  then show ?case by (simp add: parse_none)
next
  case (Cons kv es)
  obtain k v where kv: "kv = (k, v)" by (cases kv)
  have c: "is_c_str k" "is_c_str v" "c_vars es" using Cons.prems by (auto simp: c_vars_def kv)
  have n: "CHR ''='' \<notin> set (enc k)" "CHR ''&'' \<notin> set (enc v)" using enc_clean [OF c(1)] enc_clean [OF c(2)] by blast+
  show ?case
  proof (cases es)
    case Nil
    then show ?thesis using parse_last [OF n] by (simp add: kv var_text_def)
  next
    case (Cons x xs)
    then show ?thesis using parse_more [OF n] Cons.IH [OF c(3)] by (simp add: kv var_text_def)
  qed
qed

lemma put_encoded:
  "put_vars (map (\<lambda>(k, v). (enc k, enc v)) es) m = Some (smap.put_all (filter (\<lambda>kv. snd kv \<notin> {[], ''0''}) es) m)"
proof (induction es arbitrary: m)
  case (Cons kv es)
  obtain k v where kv: "kv = (k, v)" by (cases kv)
  have "put_var (enc k) (enc v) m = Some (if v \<notin> {[], ''0''} then smap_set k v m else m)"
    by (simp add: put_var_def enc_eq_simps CgiUrlDecode_def decode_enc)
  then show ?case using Cons.IH by (simp add: kv smap.put_all_simps)
qed (simp add: smap.put_all_simps)

lemma smap_ok_filter: "smap_ok m \<Longrightarrow> smap_ok (filter P m)"
  by (simp add: smap_ok_def sorted_wrt_map sorted_wrt_filter)

lemma put_all_fresh: "smap_ok m \<Longrightarrow> smap.put_all m [] = m"
  by (rule smap.put_all_rebuild) (simp_all add: smap_ok_distinct smap_find_def, simp add: smap_ok_def)


lemma clean_texts: "c_vars m \<Longrightarrow> \<forall>x\<in>set (map var_text m). CHR ''&'' \<notin> set x \<and> is_c_str x"
proof -
  assume "c_vars m"
  then have "is_c_str (fst kv) \<and> is_c_str (snd kv)" if "kv \<in> set m" for kv using that by (auto simp: c_vars_def)
  then have "x \<notin> {nul, CHR ''&''}" if "kv \<in> set m" "x \<in> set (var_text kv)" for kv x
    using that enc_clean [of "fst kv" x] enc_clean [of "snd kv" x] by (auto simp: var_text_def)
  then show ?thesis by (auto simp: is_c_str_def)
qed

lemma c_vars_filter: "c_vars m \<Longrightarrow> c_vars (filter P m)"
  by (auto simp: c_vars_def)

lemma sep_by_c_str: "\<forall>x\<in>set xs. is_c_str x \<Longrightarrow> is_c_str d \<Longrightarrow> is_c_str (sep_by d xs)"
  by (induction d xs rule: sep_by.induct) (simp_all add: cstr_simps)

section \<open>Texts of requests\<close>

definition plain_text :: "string \<Rightarrow> bool" where
  "plain_text s \<longleftrightarrow> (\<forall>c\<in>set s. islower c \<or> isdigit c)"

lemma hash_plain: "plain_text s \<Longrightarrow> hash_chars s = s"
  by (induction s) (auto simp: plain_text_def Let_def ctype_defs)

lemma plain_no_mark: "plain_text s \<Longrightarrow> CHR ''#'' \<notin> set s"
  by (auto simp: plain_text_def ctype_defs)

definition hash_text :: "ssmap \<Rightarrow> string" where
  "hash_text m = concat (map (\<lambda>(k, v). if v \<noteq> [] then hash_chars k @ ''#'' @ hash_chars v @ ''#'' else []) m)"

lemma CgiHashArgs_text: "CgiHashArgs st = (if hash_text (cgi_GET st) = [] then ''#'' else hash_text (cgi_GET st))"
proof -
  have "foldl (\<lambda>hash (first, second). if second \<noteq> [] then CgiHashAdd_str (CgiHashAdd_str hash first) second else hash) h m = h @ hash_text m" for h m
    by (induction m arbitrary: h) (auto simp: hash_text_def CgiHashAdd_str_def)
  then show ?thesis by (simp add: CgiHashArgs_def)
qed

definition plain_vars :: "ssmap \<Rightarrow> bool" where
  "plain_vars m \<longleftrightarrow> (\<forall>(k, v)\<in>set m. plain_text k \<and> plain_text v \<and> v \<noteq> [])"

lemma split_mark: "c \<notin> set a \<Longrightarrow> c \<notin> set b \<Longrightarrow> a @ c # s = b @ c # t \<Longrightarrow> a = b \<and> s = t"
proof (induction a arbitrary: b)
  case Nil
  then show ?case by (cases b) auto
next
  case (Cons x a)
  then show ?case by (cases b) auto
qed

lemma hash_text_inj: "plain_vars m \<Longrightarrow> plain_vars m' \<Longrightarrow> hash_text m = hash_text m' \<Longrightarrow> m = m'"
proof (induction m arbitrary: m')
  case Nil
  then show ?case by (cases m') (auto simp: hash_text_def plain_vars_def)
next
  case (Cons kv m)
  obtain k v where kv: "kv = (k, v)" by (cases kv)
  have p: "plain_text k" "plain_text v" "v \<noteq> []" "plain_vars m" using Cons.prems(1) by (auto simp: plain_vars_def kv)
  obtain k' v' n where m': "m' = (k', v') # n"
    using Cons.prems(3) p by (cases m') (auto simp: hash_text_def kv)
  have q: "plain_text k'" "plain_text v'" "v' \<noteq> []" "plain_vars n" using Cons.prems(2) by (auto simp: plain_vars_def m')
  have e: "k @ CHR ''#'' # v @ CHR ''#'' # hash_text m = k' @ CHR ''#'' # v' @ CHR ''#'' # hash_text n"
    using Cons.prems(3) p q by (simp add: hash_text_def kv m' hash_plain)
  have a: "k = k'" "v @ CHR ''#'' # hash_text m = v' @ CHR ''#'' # hash_text n"
    using split_mark [OF plain_no_mark [OF p(1)] plain_no_mark [OF q(1)] e] by simp_all
  have "v = v'" "hash_text m = hash_text n"
    using split_mark [OF plain_no_mark [OF p(2)] plain_no_mark [OF q(2)] a(2)] by simp_all
  then show ?case using Cons.IH [OF p(4) q(4)] a(1) by (simp add: kv m')
qed

section \<open>Properties\<close>

text \<open>
  Property C32. Query strings survive, for texts of ASCII characters other than the zero character. Every such text is restored from its URL encoding. A map of such variables that is encoded as a query, in
  which the separators \<^verbatim>\<open>&amp;\<close> are then replaced by \<^verbatim>\<open>&\<close> (as a reader of HTML does), and that is decoded again, is the same map without the variables whose value is empty or 0;
  the buffer of
  the query is afterwards as it was. A query of two variables (neither empty nor 0) that is decoded without this replacement gives the second variable a name that
  begins with \<^verbatim>\<open>amp;\<close>.
\<close>

theorem cgi_vars_roundtrip:
  assumes "smap_ok m" "c_vars m" "is_c_str s" "is_ascii s"
  shows "(\<exists>e. CgiUrlEncode s = Some e \<and> CgiUrlDecode e = Some s) \<and>
    (\<exists>q h. CgiEncodeUserVars m = Some q \<and> StrReplaceString q (Some ''&amp;'') (Some ''&'') = Some h \<and>
      CgiDecodeUserVars [] (Some (h @ [nul])) (CHR ''&'') = Some (0, Some (h @ [nul]), filter (\<lambda>kv. snd kv \<notin> {[], ''0''}) m)) \<and>
    (m = [(k1, v1), (k2, v2)] \<longrightarrow> v1 \<notin> {[], ''0''} \<longrightarrow> v2 \<notin> {[], ''0''} \<longrightarrow>
      (\<exists>q. CgiEncodeUserVars m = Some q \<and>
        CgiDecodeUserVars [] (Some (q @ [nul])) (CHR ''&'') = Some (0, Some (q @ [nul]), smap_set (''amp;'' @ k2) v2 [(k1, v1)])))"
proof (intro conjI impI)
  show "\<exists>e. CgiUrlEncode s = Some e \<and> CgiUrlDecode e = Some s"
    by (simp add: CgiUrlEncode_enc [OF assms(3,4)] CgiUrlDecode_def decode_enc)
  let ?es = "filter (\<lambda>kv. snd kv \<noteq> ''0'') m"
  have q: "CgiEncodeUserVars m = Some (sep_by ''&amp;'' (map var_text ?es))"
    using encode_vars_text [OF assms(2), of "[]"] by (simp add: CgiEncodeUserVars_def)
  note t = clean_texts [OF c_vars_filter [OF assms(2)], of "\<lambda>kv. snd kv \<noteq> ''0''"]
  have cq: "is_c_str (sep_by ''&amp;'' (map var_text ?es))" "is_c_str (sep_by ''&'' (map var_text ?es))"
    using t by (intro sep_by_c_str; simp add: cstr_simps)+
  have r: "StrReplaceString (sep_by ''&amp;'' (map var_text ?es)) (Some ''&amp;'') (Some ''&'') = Some (sep_by ''&'' (map var_text ?es))"
    using replace_seps [of "map var_text ?es" "[]"] t cq(1) by (simp add: StrReplaceString_def c_str_id)
  have "filter (\<lambda>kv. snd kv \<notin> {[], ''0''}) ?es = filter (\<lambda>kv. snd kv \<notin> {[], ''0''}) m" by (auto intro: filter_cong)
  then have "put_vars (parse_vars (CHR ''&'') (sep_by ''&'' (map var_text ?es))) [] = Some (filter (\<lambda>kv. snd kv \<notin> {[], ''0''}) m)"
    using put_all_fresh [OF smap_ok_filter [OF assms(1)]] by (simp add: parse_texts [OF c_vars_filter [OF assms(2)]] put_encoded del: insert_iff)
  then show "\<exists>q h. CgiEncodeUserVars m = Some q \<and> StrReplaceString q (Some ''&amp;'') (Some ''&'') = Some h \<and>
      CgiDecodeUserVars [] (Some (h @ [nul])) (CHR ''&'') = Some (0, Some (h @ [nul]), filter (\<lambda>kv. snd kv \<notin> {[], ''0''}) m)"
    using q r CgiDecodeUserVars_parse [OF cq(2)] by simp
  assume m: "m = [(k1, v1), (k2, v2)]" "v1 \<notin> {[], ''0''}" "v2 \<notin> {[], ''0''}"
  have c: "is_c_str k1" "is_c_str v1" "is_c_str k2" "is_c_str v2" using assms(2) m(1) by (simp_all add: c_vars_def)
  let ?q = "enc k1 @ CHR ''='' # enc v1 @ CHR ''&'' # (''amp;'' @ enc k2) @ CHR ''='' # enc v2"
  have eq: "sep_by ''&amp;'' (map var_text ?es) = ?q" using m by (simp add: var_text_def)
  have p: "parse_vars (CHR ''&'') ?q = [(enc k1, enc v1), (''amp;'' @ enc k2, enc v2)]"
    using enc_clean [OF c(1)] enc_clean [OF c(2)] enc_clean [OF c(3)] enc_clean [OF c(4)]
    by (subst parse_more, blast, blast, subst parse_last) auto
  have "put_vars [(enc k1, enc v1), (''amp;'' @ enc k2, enc v2)] [] = Some (smap_set (''amp;'' @ k2) v2 [(k1, v1)])"
    using m(2,3) by (simp add: put_var_def enc_eq_simps CgiUrlDecode_def decode_enc)
  then show "\<exists>q. CgiEncodeUserVars m = Some q \<and>
        CgiDecodeUserVars [] (Some (q @ [nul])) (CHR ''&'') = Some (0, Some (q @ [nul]), smap_set (''amp;'' @ k2) v2 [(k1, v1)])"
    using q CgiDecodeUserVars_parse [OF cq(1), of "[]" "CHR ''&''"] unfolding eq p by simp
qed

theorem cgi_vars_roundtrip_witness:
  "(\<exists>e. CgiUrlEncode ''x%y'' = Some e \<and> CgiUrlDecode e = Some ''x%y'') \<and>
   (\<exists>q h. CgiEncodeUserVars [(''a'', ''x y''), (''b'', ''0''), (''c'', ''&'')] = Some q \<and> StrReplaceString q (Some ''&amp;'') (Some ''&'') = Some h \<and>
    CgiDecodeUserVars [] (Some (h @ [nul])) (CHR ''&'') = Some (0, Some (h @ [nul]), [(''a'', ''x y''), (''c'', ''&'')]))"
proof -
  have m: "smap_ok [(''a'', ''x y''), (''b'', ''0''), (''c'', ''&'')]" "c_vars [(''a'', ''x y''), (''b'', ''0''), (''c'', ''&'')]" "is_c_str ''x%y''" "is_ascii ''x%y''"
    by (simp_all add: smap_ok_def c_vars_def is_c_str_def)
  show ?thesis using cgi_vars_roundtrip [OF m] by simp
qed

text \<open>
  Property C33. The parser that cuts the query in place agrees with a parser of texts: pairs are split at the first equals sign and at the next
  delimiter, the buffer is restored, and nothing outside of it is touched. The only texts without a result are those in which an escape that is
  not hexadecimal comes before any good one.
\<close>

theorem cgi_query_parsed:
  assumes "is_c_str s"
  shows "CgiDecodeUserVars m (Some (s @ [nul])) d = map_option (\<lambda>m. (0, Some (s @ [nul]), m)) (put_vars (parse_vars d s) m) \<and>
    (scan_hex (take 2 s) = None \<longrightarrow> CgiUrlDecode (CHR ''%'' # s) = None) \<and>
    (CHR ''%'' \<notin> set s \<longrightarrow> CgiUrlDecode s = Some (map (\<lambda>c. if c = CHR ''+'' then CHR '' '' else c) s))"
proof (intro conjI impI)
  show "CgiDecodeUserVars m (Some (s @ [nul])) d = map_option (\<lambda>m. (0, Some (s @ [nul]), m)) (put_vars (parse_vars d s) m)"
    by (rule CgiDecodeUserVars_parse [OF assms])
  show "scan_hex (take 2 s) = None \<Longrightarrow> CgiUrlDecode (CHR ''%'' # s) = None" by (simp add: CgiUrlDecode_def)
  have "CHR ''%'' \<notin> set s \<Longrightarrow> decode_loop s ii = Some (map (\<lambda>c. if c = CHR ''+'' then CHR '' '' else c) s)" for ii
    by (induction s) auto
  then show "CHR ''%'' \<notin> set s \<Longrightarrow> CgiUrlDecode s = Some (map (\<lambda>c. if c = CHR ''+'' then CHR '' '' else c) s)"
    by (simp add: CgiUrlDecode_def)
qed

theorem cgi_query_parsed_witness:
  "CgiDecodeUserVars [] (Some (''a=1;b+c=%41'' @ [nul])) (CHR '';'') = Some (0, Some (''a=1;b+c=%41'' @ [nul]), [(''a'', ''1''), (''b c'', ''A'')])"
proof -
  have "put_vars (parse_vars (CHR '';'') ''a=1;b+c=%41'') [] = Some [(''a'', ''1''), (''b c'', ''A'')]" by code_simp
  moreover have "is_c_str ''a=1;b+c=%41''" by (simp add: is_c_str_def)
  ultimately show ?thesis using cgi_query_parsed [of "''a=1;b+c=%41''" "[]" "CHR '';''", THEN conjunct1] by simp
qed

text \<open>
  The text of a request identifies its variables as long as their names and values consist of small letters and digits; otherwise
  different requests can have the same text: a blank and the digits 20, or letters in different cases, are not told apart.
\<close>

theorem cgi_hash_identifies:
  "(plain_vars (cgi_GET a) \<longrightarrow> plain_vars (cgi_GET b) \<longrightarrow> (CgiHashArgs a = CgiHashArgs b \<longleftrightarrow> cgi_GET a = cgi_GET b)) \<and>
   CgiHashArgs (a\<lparr>cgi_GET := [(k, '' '' @ y)]\<rparr>) = CgiHashArgs (a\<lparr>cgi_GET := [(k, ''20'' @ y)]\<rparr>) \<and>
   CgiHashArgs (a\<lparr>cgi_GET := [(k, ''A'' @ y)]\<rparr>) = CgiHashArgs (a\<lparr>cgi_GET := [(k, ''a'' @ y)]\<rparr>)"
proof (intro conjI impI)
  assume p: "plain_vars (cgi_GET a)" "plain_vars (cgi_GET b)"
  have n: "hash_text m \<noteq> ''#''" if "plain_vars m" for m
    using that hash_plain by (cases m) (auto simp: hash_text_def plain_vars_def append_eq_Cons_conv)
  have e: "plain_vars m \<Longrightarrow> hash_text m = [] \<longleftrightarrow> m = []" for m by (cases m) (auto simp: hash_text_def plain_vars_def)
  show "CgiHashArgs a = CgiHashArgs b \<longleftrightarrow> cgi_GET a = cgi_GET b"
    using hash_text_inj [OF p] n [OF p(1)] n [OF p(2)] e [OF p(1)] e [OF p(2)] by (auto simp: CgiHashArgs_text)
qed (simp_all add: CgiHashArgs_text hash_text_def Let_def ctype_defs hex2_def, code_simp)

theorem cgi_hash_identifies_witness:
  "CgiHashArgs \<lparr>cgi_GET = [(''a'', ''1'')], cgi_COOKIE = [], cgi_InitOK = True\<rparr> \<noteq>
   CgiHashArgs \<lparr>cgi_GET = [(''a'', ''2'')], cgi_COOKIE = [], cgi_InitOK = True\<rparr>"
  using cgi_hash_identifies [of "\<lparr>cgi_GET = [(''a'', ''1'')], cgi_COOKIE = [], cgi_InitOK = True\<rparr>"
      "\<lparr>cgi_GET = [(''a'', ''2'')], cgi_COOKIE = [], cgi_InitOK = True\<rparr>", THEN conjunct1]
  by (simp add: plain_vars_def plain_text_def ctype_defs)

end
