(* ===== verification/Net_Epoll.thy ===== *)
theory Net_Epoll
  imports Teg_Prelude "HOL-Library.Sublist"
begin

text \<open>
  The epoll server of LibNet (\<^verbatim>\<open>NetEpollServer.cpp\<close>, Linux): one connection with its buffer of delayed output, the events that the loop of a worker
  handles, and the accepting of connections. The system calls are parameters. \<open>ec_errno\<close> is the error number of the thread as one connection sees it: other
  calls of the thread can change it between two operations (\<open>Elsewhere\<close>). A failure of \<^verbatim>\<open>epoll_ctl\<close> and the other fatal errors end the process, that
  is the value \<^const>\<open>None\<close>; allocation is taken to succeed.
\<close>

section \<open>State\<close>

definition NET_EPOLL_SUCCESS :: int where "NET_EPOLL_SUCCESS = 1"
definition NET_EPOLL_EOF :: int where "NET_EPOLL_EOF = 0"
definition NET_EPOLL_ERROR :: int where "NET_EPOLL_ERROR = -1"
definition NET_EPOLL_WOULD_BLOCK :: int where "NET_EPOLL_WOULD_BLOCK = -2"
definition NET_EPOLL_MAXEVENTS :: int where "NET_EPOLL_MAXEVENTS = 256"
definition NET_EPOLL_READBUFF :: nat where "NET_EPOLL_READBUFF = 8096"

text \<open>On Linux \<^verbatim>\<open>EAGAIN\<close> and \<^verbatim>\<open>EWOULDBLOCK\<close> are the same number.\<close>

definition EAGAIN :: int where "EAGAIN = 11"
definition EBADF :: int where "EBADF = 9"

datatype epoll_call = CallOpen int | CallData "byte list" | CallClose

datatype epoll_reg = EPOLLIN | EPOLLOUT

text \<open>
  Reading and writing give a result, the error number in case it is -1, and (for reading) the bytes. \<open>eo_stays\<close> tells whether \<^verbatim>\<open>realloc\<close> leaves a block
  of the first size in its place when it gets the second one.
\<close>

record 'w epoll_os =
  eo_write :: "'w \<Rightarrow> byte list \<Rightarrow> int \<times> int \<times> 'w"
  eo_read :: "'w \<Rightarrow> nat \<Rightarrow> int \<times> int \<times> byte list \<times> 'w"
  eo_ctl :: "'w \<Rightarrow> bool"
  eo_stays :: "nat \<Rightarrow> nat \<Rightarrow> bool"

text \<open>
  The context, and what belongs to its descriptor: \<open>ec_errno\<close>, the registration with epoll, how often the descriptor was closed, the calls of the
  handlers, and whether the context was freed.
\<close>

record 'w NetEpollContext =
  ec_lastError :: int
  ec_fd :: int
  ec_len :: int
  ec_data :: "byte list option"
  ec_openHandler :: bool
  ec_closeHandler :: bool
  ec_dataHandler :: bool
  ec_errno :: int
  ec_reg :: "epoll_reg option"
  ec_closed :: nat
  ec_log :: "epoll_call list"
  ec_freed :: bool
  ec_world :: 'w

section \<open>System calls\<close>

definition sys_write :: "'w epoll_os \<Rightarrow> byte list \<Rightarrow> 'w NetEpollContext \<Rightarrow> int \<times> 'w NetEpollContext" where
  "sys_write os d c =
     (if ec_closed c > 0 then (-1, c\<lparr>ec_errno := EBADF\<rparr>)
      else case eo_write os (ec_world c) d of
             (n, e, w) \<Rightarrow> (n, c\<lparr>ec_errno := (if n = -1 then e else ec_errno c), ec_world := w\<rparr>))"

definition sys_read :: "'w epoll_os \<Rightarrow> nat \<Rightarrow> 'w NetEpollContext \<Rightarrow> int \<times> byte list \<times> 'w NetEpollContext" where
  "sys_read os n c =
     (if ec_closed c > 0 then (-1, [], c\<lparr>ec_errno := EBADF\<rparr>)
      else case eo_read os (ec_world c) n of
             (r, e, bs, w) \<Rightarrow> (r, bs, c\<lparr>ec_errno := (if r = -1 then e else ec_errno c), ec_world := w\<rparr>))"

definition sys_close :: "'w NetEpollContext \<Rightarrow> 'w NetEpollContext" where
  "sys_close c = c\<lparr>ec_closed := ec_closed c + 1, ec_reg := None\<rparr>"

definition epoll_ctl :: "'w epoll_os \<Rightarrow> epoll_reg option \<Rightarrow> 'w NetEpollContext \<Rightarrow> 'w NetEpollContext run" where
  "epoll_ctl os reg c = (if eo_ctl os (ec_world c) then Some (c\<lparr>ec_reg := reg\<rparr>) else None)"

section \<open>Contexts\<close>

definition NetEpollContextCreate :: "int \<Rightarrow> bool \<Rightarrow> bool \<Rightarrow> bool \<Rightarrow> 'w \<Rightarrow> 'w NetEpollContext" where
  "NetEpollContextCreate fd op cl dt w =
     \<lparr>ec_lastError = NET_EPOLL_SUCCESS, ec_fd = fd, ec_len = 0, ec_data = None, ec_openHandler = op, ec_closeHandler = cl, ec_dataHandler = dt,
      ec_errno = 0, ec_reg = None, ec_closed = 0, ec_log = [], ec_freed = False, ec_world = w\<rparr>"

definition NetEpollContextDestroy :: "'w NetEpollContext \<Rightarrow> 'w NetEpollContext" where
  "NetEpollContextDestroy c =
     c\<lparr>ec_log := (if ec_closeHandler c then ec_log c @ [CallClose] else ec_log c), ec_data := None, ec_freed := True\<rparr>"

section \<open>Delayed output\<close>

text \<open>The source of delayed bytes: a buffer of the caller, or the block that the context itself holds.\<close>

datatype delay_src = Caller "byte list" | Stored

definition realloc :: "byte list option \<Rightarrow> nat \<Rightarrow> byte list" where
  "realloc b n = (let old = (case b of None \<Rightarrow> [] | Some x \<Rightarrow> x) in take n old @ replicate (n - length old) 0)"

text \<open>What the source pointer sees after the block was resized; an old pointer to a block that was moved must not be used.\<close>

definition after_realloc :: "'w epoll_os \<Rightarrow> delay_src \<Rightarrow> byte list option \<Rightarrow> nat \<Rightarrow> byte list run" where
  "after_realloc os src b n =
     (case src of
        Caller d \<Rightarrow> Some d
      | Stored \<Rightarrow> (case b of None \<Rightarrow> None | Some x \<Rightarrow> if eo_stays os (length x) n then Some (realloc b n) else None))"

definition NetEpollDelayWrite :: "'w epoll_os \<Rightarrow> delay_src \<Rightarrow> int \<Rightarrow> int \<Rightarrow> 'w NetEpollContext \<Rightarrow> 'w NetEpollContext run" where
  "NetEpollDelayWrite os src len written c = do {
     c \<leftarrow> epoll_ctl os None c;
     let oldLen = (if ec_len c > 0 then ec_len c else 0);
     newLen \<leftarrow> cint_add oldLen (len - written);
     let block = realloc (ec_data c) (nat newLen);
     buf \<leftarrow> after_realloc os src (ec_data c) (nat newLen);
     block \<leftarrow> memcpy block (nat oldLen) buf (nat written) (nat (len - written));
     epoll_ctl os (Some EPOLLOUT) (c\<lparr>ec_len := newLen, ec_data := Some block\<rparr>) }"

section \<open>Reading and writing\<close>

definition NetEpollRead :: "'w epoll_os \<Rightarrow> nat \<Rightarrow> 'w NetEpollContext \<Rightarrow> int \<times> byte list \<times> 'w NetEpollContext" where
  "NetEpollRead os len c =
     (let (readed, bs, c) = sys_read os len c;
          (ret, c) =
            (if readed = -1 then
               if ec_errno c = EAGAIN then (NET_EPOLL_WOULD_BLOCK, c) else (NET_EPOLL_ERROR, sys_close c)
             else if readed = 0 then (NET_EPOLL_EOF, sys_close c)
             else (readed, c))
      in (ret, bs, c\<lparr>ec_lastError := (if ret > 0 then NET_EPOLL_SUCCESS else ret)\<rparr>))"

text \<open>While output is pending nothing is written, and the error number is the one that was left behind by an earlier call.\<close>

definition NetEpollWrite :: "'w epoll_os \<Rightarrow> int \<Rightarrow> byte list \<Rightarrow> 'w NetEpollContext \<Rightarrow> (int \<times> 'w NetEpollContext) run" where
  "NetEpollWrite os fd d c =
     (if ec_freed c then None
      else if ec_fd c \<noteq> fd then Some (NET_EPOLL_ERROR, c)
      else do {
        let len = int (length d);
        let (written, c) = (if ec_len c = 0 then sys_write os d c else (-1, c));
        if written = -1 then
          (if ec_errno c = EAGAIN then do {
             c \<leftarrow> NetEpollDelayWrite os (Caller d) len 0 c;
             Some (len, c\<lparr>ec_lastError := NET_EPOLL_WOULD_BLOCK\<rparr>) }
           else Some (NET_EPOLL_ERROR, (sys_close c)\<lparr>ec_lastError := NET_EPOLL_ERROR\<rparr>))
        else if written < len then do {
          c \<leftarrow> NetEpollDelayWrite os (Caller d) len written c;
          Some (len, c\<lparr>ec_lastError := NET_EPOLL_SUCCESS\<rparr>) }
        else Some (len, c\<lparr>ec_lastError := NET_EPOLL_SUCCESS\<rparr>) })"

text \<open>The data handler writes the messages \<open>dh bs\<close>.\<close>

fun epoll_writes :: "'w epoll_os \<Rightarrow> byte list list \<Rightarrow> 'w NetEpollContext \<Rightarrow> 'w NetEpollContext run" where
  "epoll_writes os [] c = Some c"
| "epoll_writes os (d # ds) c = do { (_, c) \<leftarrow> NetEpollWrite os (ec_fd c) d c; epoll_writes os ds c }"

partial_function (option) read_event_loop ::
    "'w epoll_os \<Rightarrow> (byte list \<Rightarrow> byte list list) \<Rightarrow> 'w NetEpollContext \<Rightarrow> 'w NetEpollContext option" where
  "read_event_loop os dh c =
     (if ec_lastError c = NET_EPOLL_SUCCESS then
        (case NetEpollRead os NET_EPOLL_READBUFF c of
           (readed, bs, c) \<Rightarrow>
             if readed \<in> {NET_EPOLL_ERROR, NET_EPOLL_EOF, NET_EPOLL_WOULD_BLOCK} then read_event_loop os dh c
             else if ec_dataHandler c then
               (case epoll_writes os (dh bs) (c\<lparr>ec_log := ec_log c @ [CallData bs]\<rparr>) of
                  None \<Rightarrow> None
                | Some c \<Rightarrow> read_event_loop os dh c)
             else read_event_loop os dh c)
      else Some c)"

definition NetEpollReadEvent :: "'w epoll_os \<Rightarrow> (byte list \<Rightarrow> byte list list) \<Rightarrow> 'w NetEpollContext \<Rightarrow> (int \<times> 'w NetEpollContext) run" where
  "NetEpollReadEvent os dh c = map_option (\<lambda>c. (0, c)) (read_event_loop os dh (c\<lparr>ec_lastError := NET_EPOLL_SUCCESS\<rparr>))"

definition NetEpollWriteEvent :: "'w epoll_os \<Rightarrow> 'w NetEpollContext \<Rightarrow> (int \<times> 'w NetEpollContext) run" where
  "NetEpollWriteEvent os c =
     (case ec_data c of
        None \<Rightarrow> None
      | Some storedbuffer \<Rightarrow>
          if ec_len c = -1 then None
          else do {
            let storedsize = ec_len c;
            d \<leftarrow> mem_read storedbuffer 0 (size_t storedsize);
            let (written, c) = sys_write os d (c\<lparr>ec_len := 0\<rparr>);
            if written = -1 then
              (if ec_errno c = EAGAIN then do { c \<leftarrow> NetEpollDelayWrite os Stored storedsize 0 c; Some (0, c) }
               else Some (1, sys_close c))
            else if written < storedsize then do { c \<leftarrow> NetEpollDelayWrite os Stored storedsize written c; Some (0, c) }
            else do {
              let c = (if written = storedsize then c\<lparr>ec_data := None\<rparr> else c);
              c \<leftarrow> epoll_ctl os None c;
              c \<leftarrow> epoll_ctl os (Some EPOLLIN) c;
              Some (0, c) } })"

section \<open>The loop of a worker\<close>

record epoll_event =
  ev_err :: bool
  ev_out :: bool
  ev_in :: bool

text \<open>One event of a connection; the number is what is left of the count of active connections.\<close>

definition handle_event ::
    "'w epoll_os \<Rightarrow> (byte list \<Rightarrow> byte list list) \<Rightarrow> epoll_event \<Rightarrow> int \<Rightarrow> 'w NetEpollContext \<Rightarrow> (int \<times> 'w NetEpollContext) run" where
  "handle_event os dh ev activeconns c =
     (if ec_freed c then None
      else if ev_err ev then Some (activeconns - 1, NetEpollContextDestroy (sys_close c))
      else if ev_out ev then do {
        (r, c) \<leftarrow> NetEpollWriteEvent os c;
        Some (if r \<noteq> 0 then (activeconns - 1, NetEpollContextDestroy c) else (activeconns, c)) }
      else if ev_in ev then do {
        (_, c) \<leftarrow> NetEpollReadEvent os dh c;
        Some (if ec_lastError c = NET_EPOLL_EOF \<or> ec_lastError c = NET_EPOLL_ERROR then (activeconns - 1, NetEpollContextDestroy c)
              else (activeconns, c)) }
      else Some (activeconns, c))"

text \<open>Accepting: the results of \<^verbatim>\<open>accept4\<close> are an argument, an error number or a new descriptor with its state. The number of active connections is that of the caller in all turns.\<close>

partial_function (option) accept_loop ::
    "'w epoll_os \<Rightarrow> bool \<Rightarrow> bool \<Rightarrow> bool \<Rightarrow> int \<Rightarrow> (nat \<Rightarrow> int + int \<times> 'w) \<Rightarrow> nat \<Rightarrow> 'w NetEpollContext list \<Rightarrow> 'w NetEpollContext list option" where
  "accept_loop os op cl dt activeconns acc i cs =
     (case acc i of
        Inl e \<Rightarrow> if e = EAGAIN then Some cs else accept_loop os op cl dt activeconns acc (i + 1) cs
      | Inr (newfd, w) \<Rightarrow>
          if activeconns + 1 \<ge> NET_EPOLL_MAXEVENTS then None
          else (case epoll_ctl os (Some EPOLLIN) (NetEpollContextCreate newfd op cl dt w) of
                  None \<Rightarrow> None
                | Some c \<Rightarrow> accept_loop os op cl dt activeconns acc (i + 1) (cs @ [if op then c\<lparr>ec_log := [CallOpen newfd]\<rparr> else c])))"

definition NetEpollAccept ::
    "'w epoll_os \<Rightarrow> bool \<Rightarrow> bool \<Rightarrow> bool \<Rightarrow> int \<Rightarrow> (nat \<Rightarrow> int + int \<times> 'w) \<Rightarrow> (int \<times> 'w NetEpollContext list) run" where
  "NetEpollAccept os op cl dt activeconns acc = map_option (\<lambda>cs. (int (length cs), cs)) (accept_loop os op cl dt activeconns acc 0 [])"

section \<open>What a socket promises\<close>

definition pending :: "'w NetEpollContext \<Rightarrow> byte list" where
  "pending c = (if ec_len c > 0 then the (ec_data c) else [])"

text \<open>A live connection: output is pending exactly when the connection waits for the event of writing.\<close>

definition live :: "'w NetEpollContext \<Rightarrow> bool" where
  "live c \<longleftrightarrow> \<not> ec_freed c \<and> ec_closed c = 0 \<and> 0 \<le> ec_len c \<and> ec_len c \<le> int_max \<and>
     (ec_len c = 0 \<longrightarrow> ec_data c = None \<and> ec_reg c = Some EPOLLIN) \<and>
     (0 < ec_len c \<longrightarrow> ec_reg c = Some EPOLLOUT \<and> (\<exists>b. ec_data c = Some b \<and> int (length b) = ec_len c))"

text \<open>What went to the socket and what is still to come.\<close>

definition out_stream :: "('w \<Rightarrow> byte list) \<Rightarrow> 'w NetEpollContext \<Rightarrow> byte list" where
  "out_stream sent c = sent (ec_world c) @ pending c"

text \<open>
  What happens to a connection: the program writes a message, the loop of the worker sees that the socket is writable, or the thread makes a system call
  elsewhere, which leaves its error number behind.
\<close>

datatype epoll_op = Send "byte list" | Writable | Elsewhere int

fun run_ops :: "'w epoll_os \<Rightarrow> epoll_op list \<Rightarrow> 'w NetEpollContext \<Rightarrow> 'w NetEpollContext run" where
  "run_ops os [] c = Some c"
| "run_ops os (Send d # ops) c =
     (case NetEpollWrite os (ec_fd c) d c of
        None \<Rightarrow> None
      | Some (r, c) \<Rightarrow> if ec_closed c > 0 then Some c else run_ops os ops c)"
| "run_ops os (Writable # ops) c =
     (if ec_reg c = Some EPOLLOUT then
        (case NetEpollWriteEvent os c of
           None \<Rightarrow> None
         | Some (r, c) \<Rightarrow> if ec_closed c > 0 then Some c else run_ops os ops c)
      else run_ops os ops c)"
| "run_ops os (Elsewhere e # ops) c = run_ops os ops (c\<lparr>ec_errno := e\<rparr>)"

fun sends :: "epoll_op list \<Rightarrow> byte list list" where
  "sends [] = []"
| "sends (Send d # ops) = d # sends ops"
| "sends (Writable # ops) = sends ops"
| "sends (Elsewhere e # ops) = sends ops"

text \<open>The socket takes what it is offered whole or not at all, and \<^verbatim>\<open>realloc\<close> to the same size leaves a block in its place.\<close>

definition whole_writes :: "'w epoll_os \<Rightarrow> bool" where
  "whole_writes os \<longleftrightarrow> (\<forall>w d. fst (eo_write os w d) \<in> {-1, 0, int (length d)}) \<and> (\<forall>n. eo_stays os n n)"

text \<open>\<open>sent\<close> is what the socket has accepted. It accepts a part of the bytes that it is given, or fails.\<close>

locale tx_socket =
  fixes os :: "'w epoll_os"
    and sent :: "'w \<Rightarrow> byte list"
  assumes write_law: "eo_write os w d = (n, e, w') \<Longrightarrow>
      n = -1 \<and> sent w' = sent w \<or> 0 \<le> n \<and> n \<le> int (length d) \<and> sent w' = sent w @ take (nat n) d"
    and ctl_law: "eo_ctl os w"
begin

lemma ctl [simp]: "epoll_ctl os r c = Some (c\<lparr>ec_reg := r\<rparr>)"
  by (simp add: epoll_ctl_def ctl_law)

lemma sys_write_cases:
  assumes "sys_write os d c = (n, c')" "ec_closed c = 0"
  obtains (failed) e w where "n = -1" "c' = c\<lparr>ec_errno := e, ec_world := w\<rparr>" "sent w = sent (ec_world c)"
  | (taken) w where "0 \<le> n" "n \<le> int (length d)" "c' = c\<lparr>ec_world := w\<rparr>" "sent w = sent (ec_world c) @ take (nat n) d"
proof -
  obtain m e w where r: "eo_write os (ec_world c) d = (m, e, w)" by (metis prod_cases3)
  then have "n = m" "c' = c\<lparr>ec_errno := (if m = -1 then e else ec_errno c), ec_world := w\<rparr>"
    using assms by (auto simp: sys_write_def)
  note c' = this
  show thesis
  proof (cases "m = -1")
    case True
    then show thesis using failed [of w e] c' write_law [OF r] by simp
  next
    case False
    then show thesis using taken [of w] c' write_law [OF r] by simp
  qed
qed

text \<open>Delaying the rest of a buffer of the caller.\<close>

lemma delay_caller:
  assumes "live c" "0 \<le> k" "k < int (length d)" "ec_len c + int (length d) - k \<le> int_max"
  shows "NetEpollDelayWrite os (Caller d) (int (length d)) k c =
    Some (c\<lparr>ec_reg := Some EPOLLOUT, ec_len := ec_len c + int (length d) - k, ec_data := Some (pending c @ drop (nat k) d)\<rparr>)"
proof -
  define n where "n = length d - nat k"
  have n: "int (length d) - k = int n" "0 < n" "nat k \<le> length d" using assms(2,3) by (auto simp: n_def)
  have len: "0 \<le> ec_len c" "pending c = (case ec_data c of None \<Rightarrow> [] | Some b \<Rightarrow> b)" "int (length (pending c)) = ec_len c"
    using assms(1) by (auto simp: live_def pending_def)
  have a: "cint_add (ec_len c) (int n) = Some (ec_len c + int n)" using assms(4) len n by (simp add: cint_add_def)
  have r: "realloc (ec_data c) (nat (ec_len c + int n)) = pending c @ replicate n 0"
    using len by (simp add: realloc_def Let_def flip: len(3) split: option.splits)
  have m: "memcpy (pending c @ replicate n 0) (nat (ec_len c)) d (nat k) n = Some (pending c @ drop (nat k) d)"
    using len n by (auto simp: mem_simps n_def simp flip: len(3))
  show ?thesis
  proof (cases "ec_len c > 0")
    case True
    then show ?thesis using a r m n(1) by (simp add: NetEpollDelayWrite_def after_realloc_def algebra_simps)
  next
    case False
    then have "ec_len c = 0" using len(1) by simp
    then show ?thesis using a r m n(1) by (simp add: NetEpollDelayWrite_def after_realloc_def algebra_simps)
  qed
qed

text \<open>Writing.\<close>

lemma write_live:
  assumes "live c" "d \<noteq> []" "ec_len c + int (length d) \<le> int_max"
  shows "\<exists>r c'. NetEpollWrite os (ec_fd c) d c = Some (r, c') \<and> ec_fd c' = ec_fd c \<and>
    (r = int (length d) \<and> live c' \<and> out_stream sent c' = out_stream sent c @ d \<and> ec_len c' \<le> ec_len c + int (length d) \<or>
     r = NET_EPOLL_ERROR \<and> 0 < ec_closed c' \<and> ec_lastError c' = NET_EPOLL_ERROR \<and> sent (ec_world c') = sent (ec_world c))"
proof -
  have l: "\<not> ec_freed c" "ec_closed c = 0" "0 \<le> ec_len c" using assms(1) by (simp_all add: live_def)
  have d: "0 < length d" using assms(2) by simp
  show ?thesis
  proof (cases "ec_len c = 0")
    case False
    then have p: "0 < ec_len c" using l by simp
    show ?thesis
    proof (cases "ec_errno c = EAGAIN")
      case True
      let ?c = "c\<lparr>ec_reg := Some EPOLLOUT, ec_len := ec_len c + int (length d), ec_data := Some (pending c @ d)\<rparr>"
      have "NetEpollWrite os (ec_fd c) d c = Some (int (length d), ?c\<lparr>ec_lastError := NET_EPOLL_WOULD_BLOCK\<rparr>)"
        using True delay_caller [OF assms(1), of 0 d] assms(3) d p l by (simp add: NetEpollWrite_def Let_def)
      moreover have "int (length (pending c)) = ec_len c" using assms(1) p by (auto simp: live_def pending_def)
      ultimately show ?thesis using assms(3) d p l by (simp add: live_def out_stream_def pending_def)
    next
      case False
      then show ?thesis using p l by (simp add: NetEpollWrite_def sys_close_def NET_EPOLL_ERROR_def)
    qed
  next
    case True
    obtain n c1 where w: "sys_write os d c = (n, c1)" by (metis surj_pair)
    from w l(2) show ?thesis
    proof (cases rule: sys_write_cases)
      case (failed e v)
      have c1: "live c1" "ec_len c1 = 0" using assms(1) True by (simp_all add: failed live_def)
      show ?thesis
      proof (cases "e = EAGAIN")
        case True
        let ?c = "c1\<lparr>ec_reg := Some EPOLLOUT, ec_len := int (length d), ec_data := Some d\<rparr>"
        have "NetEpollWrite os (ec_fd c) d c = Some (int (length d), ?c\<lparr>ec_lastError := NET_EPOLL_WOULD_BLOCK\<rparr>)"
          using True delay_caller [OF c1(1), of 0 d] assms(3) d l w \<open>ec_len c = 0\<close> failed
          by (simp add: NetEpollWrite_def Let_def pending_def)
        then show ?thesis using assms(3) d l failed \<open>ec_len c = 0\<close> by (simp add: live_def out_stream_def pending_def)
      next
        case False
        then show ?thesis using w l True failed by (simp add: NetEpollWrite_def sys_close_def NET_EPOLL_ERROR_def)
      qed
    next
      case (taken v)
      have c1: "live c1" "ec_len c1 = 0" using assms(1) True by (simp_all add: taken live_def)
      show ?thesis
      proof (cases "n < int (length d)")
        case True
        let ?c = "c1\<lparr>ec_reg := Some EPOLLOUT, ec_len := int (length d) - n, ec_data := Some (drop (nat n) d)\<rparr>"
        have "NetEpollWrite os (ec_fd c) d c = Some (int (length d), ?c\<lparr>ec_lastError := NET_EPOLL_SUCCESS\<rparr>)"
          using True delay_caller [OF c1(1), of n d] assms(3) d l w \<open>ec_len c = 0\<close> taken
          by (simp add: NetEpollWrite_def Let_def pending_def)
        then show ?thesis using assms(3) d l taken True \<open>ec_len c = 0\<close> by (simp add: live_def out_stream_def pending_def)
      next
        case False
        then have "take (nat n) d = d" using taken by simp
        then show ?thesis using w l True taken False assms(1) by (simp add: NetEpollWrite_def live_def out_stream_def pending_def)
      qed
    qed
  qed
qed

text \<open>The event of writing.\<close>

lemma delay_stored_whole:
  assumes "ec_len c = 0" "ec_data c = Some b" "0 < length b" "int (length b) \<le> int_max"
  shows "NetEpollDelayWrite os Stored (int (length b)) 0 c =
    (if eo_stays os (length b) (length b) then Some (c\<lparr>ec_reg := Some EPOLLOUT, ec_len := int (length b), ec_data := Some b\<rparr>) else None)"
proof -
  have "memcpy b 0 b 0 (length b) = Some b" by (simp add: mem_simps)
  then show ?thesis using assms
    by (simp add: NetEpollDelayWrite_def after_realloc_def cint_add_def realloc_def Let_def)
qed

lemma delay_stored_part:
  assumes "ec_len c = 0" "ec_data c = Some b" "0 < k" "k < int (length b)"
  shows "NetEpollDelayWrite os Stored (int (length b)) k c = None"
proof -
  have "memcpy x 0 (take (nat (int (length b) - k)) b) (nat k) (nat (int (length b) - k)) = None" for x :: "byte list"
    using assms(3,4) by (auto simp: mem_simps)
  moreover have "cint_add 0 (int (length b) - k) \<in> {None, Some (int (length b) - k)}" by (simp add: cint_add_def)
  ultimately show ?thesis using assms
    by (auto simp: NetEpollDelayWrite_def after_realloc_def realloc_def Let_def)
qed

lemma write_event_live:
  assumes "live c" "0 < ec_len c" "NetEpollWriteEvent os c = Some (r, c')"
  shows "ec_fd c' = ec_fd c \<and> (r = 0 \<and> live c' \<and> out_stream sent c' = out_stream sent c \<and> ec_len c' \<le> ec_len c \<or>
    r = 1 \<and> 0 < ec_closed c' \<and> sent (ec_world c') = sent (ec_world c))"
proof -
  obtain b where b: "ec_data c = Some b" "int (length b) = ec_len c" "0 < length b"
    using assms(1,2) unfolding live_def by (metis of_nat_0_less_iff)
  have l: "ec_closed c = 0" "ec_len c \<le> int_max" "\<not> ec_freed c" using assms(1) by (auto simp: live_def)
  have p: "pending c = b" using b(1) assms(2) by (simp add: pending_def)
  let ?c = "c\<lparr>ec_len := 0\<rparr>"
  obtain n c1 where w: "sys_write os b ?c = (n, c1)" by (metis surj_pair)
  have ev: "NetEpollWriteEvent os c =
      (if n = -1 then
         (if ec_errno c1 = EAGAIN then do { c \<leftarrow> NetEpollDelayWrite os Stored (ec_len c) 0 c1; Some (0, c) } else Some (1, sys_close c1))
       else if n < ec_len c then do { c \<leftarrow> NetEpollDelayWrite os Stored (ec_len c) n c1; Some (0, c) }
       else Some (0, (if n = ec_len c then c1\<lparr>ec_data := None\<rparr> else c1)\<lparr>ec_reg := Some EPOLLIN\<rparr>))"
    using b(1,3) w l(2)[folded b(2)] by (simp add: NetEpollWriteEvent_def mem_read_def Let_def flip: b(2))
  have l': "ec_closed ?c = 0" using l by simp
  from w l' show ?thesis
  proof (cases rule: sys_write_cases)
    case (failed e v)
    then show ?thesis using assms ev delay_stored_whole [of c1 b] b l p
      by (auto simp: live_def out_stream_def pending_def sys_close_def split: if_splits)
  next
    case (taken v)
    consider "n = 0" | "0 < n" "n < int (length b)" | "n = int (length b)" using taken by linarith
    then show ?thesis
    proof cases
      case 1
      then show ?thesis using taken assms ev delay_stored_whole [of c1 b] b l p
        by (auto simp: live_def out_stream_def pending_def split: if_splits)
    next
      case 2
      then show ?thesis using taken assms ev delay_stored_part [of c1 b n] b by auto
    next
      case 3
      then show ?thesis using taken assms ev b l p by (auto simp: live_def out_stream_def pending_def)
    qed
  qed
qed

lemma write_event_total:
  assumes "live c" "0 < ec_len c" "whole_writes os"
  shows "\<exists>r c'. NetEpollWriteEvent os c = Some (r, c')"
proof -
  obtain b where b: "ec_data c = Some b" "int (length b) = ec_len c" "0 < length b"
    using assms(1,2) unfolding live_def by (metis of_nat_0_less_iff)
  have l: "ec_closed c = 0" "ec_len c \<le> int_max" using assms(1) by (auto simp: live_def)
  obtain n e w where w: "eo_write os (ec_world c) b = (n, e, w)" by (metis prod_cases3)
  moreover have "fst (eo_write os (ec_world c) b) \<in> {-1, 0, int (length b)}" using assms(3) unfolding whole_writes_def by blast
  ultimately have n: "n \<in> {-1, 0, int (length b)}" by simp
  have "eo_stays os (length b) (length b)" using assms(3) by (simp add: whole_writes_def)
  then show ?thesis using b(1,3) w l n delay_stored_whole [of "c\<lparr>ec_len := 0, ec_errno := e', ec_world := w\<rparr>" b for e']
      delay_stored_whole [of "c\<lparr>ec_len := 0, ec_world := w\<rparr>" b]
    by (auto simp: NetEpollWriteEvent_def sys_write_def mem_read_def Let_def simp flip: b(2))
qed

text \<open>A connection that writes messages and whose socket becomes writable now and then.\<close>

lemma run_ops_stream:
  assumes "live c" "\<forall>d\<in>set (sends ops). d \<noteq> []" "ec_len c + int (length (concat (sends ops))) \<le> int_max"
    "run_ops os ops c = Some c'"
  shows "live c' \<and> out_stream sent c' = out_stream sent c @ concat (sends ops) \<or>
    0 < ec_closed c' \<and> prefix (sent (ec_world c')) (out_stream sent c @ concat (sends ops))"
  using assms
proof (induction ops arbitrary: c)
  case (Cons op ops)
  show ?case
  proof (cases op)
    case (Send d)
    obtain r c1 where w: "NetEpollWrite os (ec_fd c) d c = Some (r, c1)"
      "r = int (length d) \<and> live c1 \<and> out_stream sent c1 = out_stream sent c @ d \<and> ec_len c1 \<le> ec_len c + int (length d) \<or>
       0 < ec_closed c1 \<and> sent (ec_world c1) = sent (ec_world c)"
      using write_live [OF Cons.prems(1), of d] Cons.prems(2,3) Send by auto
    from w(2) show ?thesis
    proof
      assume "r = int (length d) \<and> live c1 \<and> out_stream sent c1 = out_stream sent c @ d \<and> ec_len c1 \<le> ec_len c + int (length d)"
      moreover from this have "ec_closed c1 = 0" by (simp add: live_def)
      ultimately show ?thesis using Cons.IH [of c1] Cons.prems Send w(1) by simp
    next
      assume "0 < ec_closed c1 \<and> sent (ec_world c1) = sent (ec_world c)"
      then show ?thesis using Cons.prems(4) Send w(1) by (auto simp: out_stream_def)
    qed
  next
    case Writable
    show ?thesis
    proof (cases "ec_reg c = Some EPOLLOUT")
      case True
      then have "0 < ec_len c" using Cons.prems(1) by (cases "ec_len c = 0") (auto simp: live_def)
      moreover obtain r c1 where w: "NetEpollWriteEvent os c = Some (r, c1)"
        using Cons.prems(4) Writable True by (auto split: option.splits)
      ultimately have "r = 0 \<and> live c1 \<and> out_stream sent c1 = out_stream sent c \<and> ec_len c1 \<le> ec_len c \<or>
          0 < ec_closed c1 \<and> sent (ec_world c1) = sent (ec_world c)" using write_event_live [OF Cons.prems(1)] by blast
      then show ?thesis
      proof
        assume "r = 0 \<and> live c1 \<and> out_stream sent c1 = out_stream sent c \<and> ec_len c1 \<le> ec_len c"
        moreover from this have "ec_closed c1 = 0" by (simp add: live_def)
        ultimately show ?thesis using Cons.IH [of c1] Cons.prems Writable w(1) True by simp
      next
        assume "0 < ec_closed c1 \<and> sent (ec_world c1) = sent (ec_world c)"
        then show ?thesis using Cons.prems(4) Writable w(1) True by (auto simp: out_stream_def)
      qed
    next
      case False
      then show ?thesis using Cons Writable by simp
    qed
  next
    case (Elsewhere e)
    have "live (c\<lparr>ec_errno := e\<rparr>)" "out_stream sent (c\<lparr>ec_errno := e\<rparr>) = out_stream sent c"
      using Cons.prems(1) by (simp_all add: live_def out_stream_def pending_def)
    then show ?thesis using Cons.IH [of "c\<lparr>ec_errno := e\<rparr>"] Cons.prems Elsewhere by simp
  qed
qed simp

lemma run_ops_total:
  assumes "whole_writes os" "live c" "\<forall>d\<in>set (sends ops). d \<noteq> []" "ec_len c + int (length (concat (sends ops))) \<le> int_max"
  shows "\<exists>c'. run_ops os ops c = Some c'"
  using assms(2-)
proof (induction ops arbitrary: c)
  case (Cons op ops)
  show ?case
  proof (cases op)
    case (Send d)
    obtain r c1 where "NetEpollWrite os (ec_fd c) d c = Some (r, c1)" "live c1 \<and> ec_len c1 \<le> ec_len c + int (length d) \<or> 0 < ec_closed c1"
      using write_live [OF Cons.prems(1), of d] Cons.prems(2,3) Send by auto
    then show ?thesis using Cons.IH [of c1] Cons.prems Send by auto
  next
    case Writable
    show ?thesis
    proof (cases "ec_reg c = Some EPOLLOUT")
      case True
      then have p: "0 < ec_len c" using Cons.prems(1) by (cases "ec_len c = 0") (auto simp: live_def)
      obtain r c1 where w: "NetEpollWriteEvent os c = Some (r, c1)" using write_event_total [OF Cons.prems(1) p assms(1)] by blast
      have "live c1 \<and> ec_len c1 \<le> ec_len c \<or> 0 < ec_closed c1" using write_event_live [OF Cons.prems(1) p w] by auto
      then show ?thesis using Cons.IH [of c1] Cons.prems Writable w True by auto
    next
      case False
      then show ?thesis using Cons Writable by simp
    qed
  next
    case (Elsewhere e)
    have "live (c\<lparr>ec_errno := e\<rparr>)" using Cons.prems(1) by (simp add: live_def)
    then show ?thesis using Cons.IH [of "c\<lparr>ec_errno := e\<rparr>"] Cons.prems Elsewhere by simp
  qed
qed simp

end

section \<open>A kernel\<close>

text \<open>
  A socket that follows a script: each write takes so many bytes of what it is offered, or fails with an error number. Once the script has run out
  all is taken. Reading gives the chunks that are there, then there are no more for now (\<^const>\<open>EAGAIN\<close>), or the end of the stream.
\<close>

record sock =
  sk_script :: "(int + nat) list"
  sk_sent :: "byte list"
  sk_in :: "byte list list"
  sk_eof :: bool

definition sock_write :: "sock \<Rightarrow> byte list \<Rightarrow> int \<times> int \<times> sock" where
  "sock_write w d =
     (case sk_script w of
        [] \<Rightarrow> (int (length d), 0, w\<lparr>sk_sent := sk_sent w @ d\<rparr>)
      | Inl e # s \<Rightarrow> (-1, e, w\<lparr>sk_script := s\<rparr>)
      | Inr k # s \<Rightarrow> (int (min k (length d)), 0, w\<lparr>sk_script := s, sk_sent := sk_sent w @ take k d\<rparr>))"

definition sock_read :: "sock \<Rightarrow> nat \<Rightarrow> int \<times> int \<times> byte list \<times> sock" where
  "sock_read w n =
     (case sk_in w of
        [] \<Rightarrow> if sk_eof w then (0, 0, [], w) else (-1, EAGAIN, [], w)
      | bs # rest \<Rightarrow>
          if length bs \<le> n then (int (length bs), 0, bs, w\<lparr>sk_in := rest\<rparr>)
          else (int n, 0, take n bs, w\<lparr>sk_in := drop n bs # rest\<rparr>))"

definition sock_os :: "bool \<Rightarrow> sock epoll_os" where
  "sock_os stays = \<lparr>eo_write = sock_write, eo_read = sock_read, eo_ctl = (\<lambda>_. True), eo_stays = (\<lambda>_ _. stays)\<rparr>"

lemmas sock_defs = sock_os_def sock_write_def sock_read_def

interpretation sock_tx: tx_socket "sock_os stays" sk_sent
  by unfold_locales (auto simp: sock_defs min_def split: list.splits sum.splits)

text \<open>A kernel that always takes all.\<close>

definition room_os :: "sock epoll_os" where
  "room_os = (sock_os True)\<lparr>eo_write := (\<lambda>w d. (int (length d), 0, w\<lparr>sk_sent := sk_sent w @ d\<rparr>))\<rparr>"

interpretation room_tx: tx_socket room_os sk_sent
  by unfold_locales (auto simp: room_os_def sock_os_def)

section \<open>Events of reading\<close>

text \<open>Nothing is delayed and the socket has room.\<close>

definition ready :: "('w \<Rightarrow> bool) \<Rightarrow> 'w NetEpollContext \<Rightarrow> bool" where
  "ready room c \<longleftrightarrow> live c \<and> ec_len c = 0 \<and> ec_lastError c = NET_EPOLL_SUCCESS \<and> room (ec_world c)"

text \<open>The end of the input.\<close>

definition at_end :: "bool \<Rightarrow> 'w NetEpollContext \<Rightarrow> 'w NetEpollContext" where
  "at_end e c = (if e then (sys_close c)\<lparr>ec_lastError := NET_EPOLL_EOF\<rparr> else c\<lparr>ec_errno := EAGAIN, ec_lastError := NET_EPOLL_WOULD_BLOCK\<rparr>)"

text \<open>
  A connection on which all goes well: \<open>inq\<close> are the pieces that the next reads return, \<open>eof\<close> tells whether the end of the stream comes after them, and as long as
  \<open>room\<close> holds every write is taken whole.
\<close>

locale rx_socket = tx_socket os sent
  for os :: "'w epoll_os" and sent :: "'w \<Rightarrow> byte list" +
  fixes inq :: "'w \<Rightarrow> byte list list" and eof :: "'w \<Rightarrow> bool" and room :: "'w \<Rightarrow> bool"
  assumes room_law: "room w \<Longrightarrow> \<exists>e w'. eo_write os w d = (int (length d), e, w') \<and> sent w' = sent w @ d \<and> inq w' = inq w \<and> eof w' = eof w \<and> room w'"
    and read_law: "inq w = bs # rest \<Longrightarrow> bs \<noteq> [] \<Longrightarrow> length bs \<le> n \<Longrightarrow>
      \<exists>e w'. eo_read os w n = (int (length bs), e, bs, w') \<and> inq w' = rest \<and> sent w' = sent w \<and> eof w' = eof w \<and> room w' = room w"
    and none_law: "inq w = [] \<Longrightarrow> \<exists>e w'. eo_read os w n = (if eof w then 0 else -1, e, [], w') \<and> (\<not> eof w \<longrightarrow> e = EAGAIN) \<and>
      inq w' = [] \<and> sent w' = sent w \<and> eof w' = eof w \<and> room w' = room w"
begin

lemma ready_write:
  assumes "ready room c"
  shows "\<exists>w. NetEpollWrite os (ec_fd c) d c = Some (int (length d), c\<lparr>ec_world := w\<rparr>) \<and> ready room (c\<lparr>ec_world := w\<rparr>) \<and>
    sent w = sent (ec_world c) @ d \<and> inq w = inq (ec_world c) \<and> eof w = eof (ec_world c)"
proof -
  obtain e w where w: "eo_write os (ec_world c) d = (int (length d), e, w)" "sent w = sent (ec_world c) @ d" "inq w = inq (ec_world c)"
      "eof w = eof (ec_world c)" "room w" using room_law [of "ec_world c" d] assms by (auto simp: ready_def)
  have "NetEpollWrite os (ec_fd c) d c = Some (int (length d), c\<lparr>ec_world := w\<rparr>)"
    using w(1) assms by (simp add: NetEpollWrite_def sys_write_def ready_def live_def Let_def)
  then show ?thesis using w assms by (auto simp: ready_def live_def)
qed

lemma ready_writes:
  assumes "ready room c"
  shows "\<exists>w. epoll_writes os ds c = Some (c\<lparr>ec_world := w\<rparr>) \<and> ready room (c\<lparr>ec_world := w\<rparr>) \<and>
    sent w = sent (ec_world c) @ concat ds \<and> inq w = inq (ec_world c) \<and> eof w = eof (ec_world c)"
  using assms
proof (induction ds arbitrary: c)
  case Nil
  then show ?case by (intro exI [of _ "ec_world c"]) simp
next
  case (Cons d ds)
  obtain w where w: "NetEpollWrite os (ec_fd c) d c = Some (int (length d), c\<lparr>ec_world := w\<rparr>)" "ready room (c\<lparr>ec_world := w\<rparr>)"
    "sent w = sent (ec_world c) @ d" "inq w = inq (ec_world c)" "eof w = eof (ec_world c)"
    using ready_write [OF Cons.prems] by blast
  show ?case using Cons.IH [OF w(2)] w by auto
qed

lemma ready_read_none:
  assumes "ready room c" "inq (ec_world c) = []"
  shows "\<exists>w. read_event_loop os dh c = Some (at_end (eof (ec_world c)) (c\<lparr>ec_world := w\<rparr>)) \<and> sent w = sent (ec_world c) \<and> inq w = []"
proof -
  note codes = NET_EPOLL_SUCCESS_def NET_EPOLL_ERROR_def NET_EPOLL_EOF_def NET_EPOLL_WOULD_BLOCK_def
  obtain e w where w: "eo_read os (ec_world c) NET_EPOLL_READBUFF = (if eof (ec_world c) then 0 else -1, e, [], w)" "inq w = []"
      "sent w = sent (ec_world c)" "\<not> eof (ec_world c) \<longrightarrow> e = EAGAIN" using none_law [OF assms(2)] by blast
  define c1 where "c1 = at_end (eof (ec_world c)) (c\<lparr>ec_world := w\<rparr>)"
  have c: "ec_closed c = 0" "ec_lastError c = NET_EPOLL_SUCCESS" using assms(1) by (simp_all add: ready_def live_def)
  have r: "NetEpollRead os NET_EPOLL_READBUFF c = (ec_lastError c1, [], c1)"
    using w(1,4) c(1) by (simp add: c1_def at_end_def NetEpollRead_def sys_read_def sys_close_def codes EAGAIN_def)
  have e: "ec_lastError c1 \<in> {NET_EPOLL_EOF, NET_EPOLL_WOULD_BLOCK}" by (simp add: c1_def at_end_def)
  then have "read_event_loop os dh c1 = Some c1" by (subst read_event_loop.simps) (auto simp: codes)
  then have "read_event_loop os dh c = Some c1" using c(2) e by (subst read_event_loop.simps) (auto simp: r codes)
  then show ?thesis using w(2,3) by (auto simp: c1_def)
qed

lemma ready_read_loop:
  assumes "ready room c" "ec_dataHandler c" "inq (ec_world c) = ins" "\<forall>bs\<in>set ins. bs \<noteq> [] \<and> length bs \<le> NET_EPOLL_READBUFF"
  shows "\<exists>w. read_event_loop os dh c = Some (at_end (eof (ec_world c)) (c\<lparr>ec_world := w, ec_log := ec_log c @ map CallData ins\<rparr>)) \<and>
    sent w = sent (ec_world c) @ concat (concat (map dh ins)) \<and> inq w = []"
  using assms
proof (induction ins arbitrary: c)
  case Nil
  then show ?case using ready_read_none [of c dh] by simp
next
  case (Cons bs ins)
  have bs: "0 < length bs" "bs \<noteq> []" "length bs \<le> NET_EPOLL_READBUFF" using Cons.prems(4) by simp_all
  obtain e w where w: "eo_read os (ec_world c) NET_EPOLL_READBUFF = (int (length bs), e, bs, w)" "inq w = ins" "sent w = sent (ec_world c)"
      "eof w = eof (ec_world c)" "room w = room (ec_world c)" using read_law [OF Cons.prems(3) bs(2,3)] by blast
  have r: "NetEpollRead os NET_EPOLL_READBUFF c = (int (length bs), bs, c\<lparr>ec_world := w\<rparr>)"
    using w(1) bs(1) Cons.prems(1) by (simp add: NetEpollRead_def sys_read_def ready_def live_def)
  let ?c = "c\<lparr>ec_world := w, ec_log := ec_log c @ [CallData bs]\<rparr>"
  have "ready room ?c" using Cons.prems(1) w(5) by (simp add: ready_def live_def)
  then obtain v where v: "epoll_writes os (dh bs) ?c = Some (?c\<lparr>ec_world := v\<rparr>)" "ready room (?c\<lparr>ec_world := v\<rparr>)"
    "sent v = sent w @ concat (dh bs)" "inq v = ins" "eof v = eof w" using ready_writes [of ?c "dh bs"] w(2) by auto
  have "int (length bs) \<notin> {NET_EPOLL_ERROR, NET_EPOLL_EOF, NET_EPOLL_WOULD_BLOCK}"
    using bs(1) by (auto simp: NET_EPOLL_ERROR_def NET_EPOLL_EOF_def NET_EPOLL_WOULD_BLOCK_def)
  then have "read_event_loop os dh c = read_event_loop os dh (?c\<lparr>ec_world := v\<rparr>)"
    using Cons.prems(1,2) v(1) by (subst read_event_loop.simps) (simp add: r ready_def)
  then show ?case using Cons.IH [OF v(2)] Cons.prems(2,4) v w by auto
qed

end

interpretation sock_rx: rx_socket "sock_os stays" sk_sent sk_in sk_eof "\<lambda>w. sk_script w = []"
  by unfold_locales (auto simp: sock_defs)

section \<open>Accepting\<close>

text \<open>An error of \<^verbatim>\<open>accept4\<close> that stays keeps the worker busy for ever.\<close>

lemma accept_stuck:
  assumes "\<forall>i. \<exists>e. acc i = Inl e \<and> e \<noteq> EAGAIN"
  shows "accept_loop os op cl dt activeconns acc i cs = None"
proof (cases "accept_loop os op cl dt activeconns acc i cs")
  case (Some r)
  have "\<not> (\<forall>i. \<exists>e. acc i = Inl e \<and> e \<noteq> EAGAIN)"
  proof (rule accept_loop.raw_induct [OF _ Some, where P = "\<lambda>os op cl dt activeconns acc i cs r. \<not> (\<forall>i. \<exists>e. acc i = Inl e \<and> e \<noteq> EAGAIN)"],
      goal_cases step)
    case (step f os op cl dt activeconns acc i cs r)
    show ?case
    proof
      assume all: "\<forall>i. \<exists>e. acc i = Inl e \<and> e \<noteq> EAGAIN"
      then obtain e where "acc i = Inl e" "e \<noteq> EAGAIN" by blast
      then have "f os op cl dt activeconns acc (i + 1) cs = Some r" using step(2) by simp
      from step(1) [OF this] all show False by contradiction
    qed
  qed
  then show ?thesis using assms by simp
qed

section \<open>Properties\<close>

text \<open>
  Property C29. Whatever a program writes to a connection arrives in order. Take any sequence of writes of non-empty messages, of events of writing and of system calls of the same
  thread elsewhere, and a socket that takes a part of what it is offered or fails. If the calls are defined, then the bytes on the socket together with the bytes that wait in the
  context are exactly what was written so far, and output waits only
  while the connection is registered for the event of writing; or the connection was closed because of an error, and what reached the socket is a beginning of what was written.
  The calls are defined whenever the socket takes all or nothing of what it is offered and \<^verbatim>\<open>realloc\<close> to the same size does not move a block; a socket that takes a part of the
  delayed output in an event of writing makes that event undefined.
  All lengths are within int.
\<close>

theorem epoll_keeps_stream:
  assumes "tx_socket os sent" "live c" "\<forall>d\<in>set (sends ops). d \<noteq> []"
    "ec_len c + int (length (concat (sends ops))) \<le> int_max"
  shows "(\<forall>c'. run_ops os ops c = Some c' \<longrightarrow>
      live c' \<and> out_stream sent c' = out_stream sent c @ concat (sends ops) \<or>
      0 < ec_closed c' \<and> prefix (sent (ec_world c')) (out_stream sent c @ concat (sends ops))) \<and>
    (whole_writes os \<longrightarrow> (\<exists>c'. run_ops os ops c = Some c'))"
  using tx_socket.run_ops_stream [OF assms] tx_socket.run_ops_total [OF assms(1) _ assms(2-4)] by blast

theorem epoll_keeps_stream_witness:
  "let w = \<lparr>sk_script = [Inr 1, Inl EAGAIN], sk_sent = [], sk_in = [], sk_eof = False\<rparr>;
       c = (NetEpollContextCreate 5 False False True w)\<lparr>ec_reg := Some EPOLLIN\<rparr>;
       ops = [Send [1, 2, 3], Elsewhere 2, Writable, Writable, Send [4]];
       c' = the (run_ops (sock_os True) ops c)
   in run_ops (sock_os True) ops c = Some c' \<and> live c' \<and> out_stream sk_sent c' = [1, 2, 3, 4] \<and> (\<exists>c'. run_ops room_os ops c = Some c')"
proof -
  let ?w = "\<lparr>sk_script = [Inr 1, Inl EAGAIN], sk_sent = [], sk_in = [], sk_eof = False\<rparr>"
  let ?c = "(NetEpollContextCreate 5 False False True ?w)\<lparr>ec_reg := Some EPOLLIN\<rparr>"
  let ?ops = "[Send [1, 2, 3], Elsewhere 2, Writable, Writable, Send [4]]"
  let ?e = "?c\<lparr>ec_errno := EAGAIN, ec_world := ?w\<lparr>sk_script := [], sk_sent := [1, 2, 3, 4]\<rparr>\<rparr>"
  have r: "run_ops (sock_os True) ?ops ?c = Some ?e" by code_simp
  have l: "live ?c" by (simp add: live_def NetEpollContextCreate_def)
  from epoll_keeps_stream [OF sock_tx.tx_socket_axioms [of True] l, of ?ops, THEN conjunct1] r
  have "live ?e \<and> out_stream sk_sent ?e = [1, 2, 3, 4]" by (simp add: NetEpollContextCreate_def out_stream_def pending_def)
  moreover have "\<exists>c'. run_ops room_os ?ops ?c = Some c'"
    using epoll_keeps_stream [OF room_tx.tx_socket_axioms l, of ?ops, THEN conjunct2]
    by (simp add: whole_writes_def room_os_def sock_os_def NetEpollContextCreate_def del: run_ops.simps)
  ultimately show ?thesis unfolding Let_def r option.sel by blast
qed

text \<open>
  Property C30. An event of reading serves the whole input as long as the socket has room for the answers. On a connection without delayed output whose socket takes every write whole, and whose next reads return
  the pieces \<open>ins\<close> (each of at least one and at most 8096 bytes) before reading would block or meets the end of the stream: the data handler gets all pieces, in order, and what it writes
  in answer is sent in this order. Then the connection waits for more input; if the peer has ended the stream
  it is closed exactly once, the close handler is called, the context is freed and the number of connections decreases. (When an answer would block, the loop stops and
  the rest of the input is left for later; that case is not part of the claim.)
\<close>

theorem epoll_serves_input:
  assumes "rx_socket os sent inq eof room" "\<not> ev_err ev" "\<not> ev_out ev" "ev_in ev" "live c" "ec_len c = 0" "ec_dataHandler c" "ec_closeHandler c"
    "room (ec_world c)" "inq (ec_world c) = ins" "\<forall>bs\<in>set ins. bs \<noteq> [] \<and> length bs \<le> NET_EPOLL_READBUFF"
  shows "\<exists>c'. handle_event os dh ev n c = Some (if eof (ec_world c) then n - 1 else n, c') \<and>
    sent (ec_world c') = sent (ec_world c) @ concat (concat (map dh ins)) \<and>
    (if eof (ec_world c) then ec_freed c' \<and> ec_closed c' = 1 \<and> ec_log c' = ec_log c @ map CallData ins @ [CallClose]
     else live c' \<and> inq (ec_world c') = [] \<and> ec_log c' = ec_log c @ map CallData ins)"
proof -
  let ?c = "c\<lparr>ec_lastError := NET_EPOLL_SUCCESS\<rparr>"
  have "ready room ?c" using assms(1,5,6,9) by (simp add: ready_def live_def)
  then obtain w where "read_event_loop os dh ?c = Some (at_end (eof (ec_world c)) (?c\<lparr>ec_world := w, ec_log := ec_log c @ map CallData ins\<rparr>))"
      "sent w = sent (ec_world c) @ concat (concat (map dh ins))" "inq w = []"
    using rx_socket.ready_read_loop [OF assms(1), of ?c ins dh] assms(7,10,11) by auto
  then show ?thesis using assms(2-8)
    by (simp add: handle_event_def NetEpollReadEvent_def live_def at_end_def sys_close_def NetEpollContextDestroy_def
        NET_EPOLL_WOULD_BLOCK_def NET_EPOLL_ERROR_def NET_EPOLL_EOF_def)
qed

theorem epoll_serves_input_witness:
  "let w = \<lparr>sk_script = [], sk_sent = [], sk_in = [[1, 2], [3]], sk_eof = True\<rparr>;
       c = (NetEpollContextCreate 5 False True True w)\<lparr>ec_reg := Some EPOLLIN\<rparr>
   in \<exists>c'. handle_event (sock_os True) (\<lambda>bs. [bs, [0]]) \<lparr>ev_err = False, ev_out = False, ev_in = True\<rparr> 7 c = Some (6, c') \<and>
        sk_sent (ec_world c') = [1, 2, 0, 3, 0]"
proof -
  let ?w = "\<lparr>sk_script = [], sk_sent = [], sk_in = [[1, 2], [3]], sk_eof = True\<rparr>"
  let ?c = "(NetEpollContextCreate 5 False True True ?w)\<lparr>ec_reg := Some EPOLLIN\<rparr>"
  have "live ?c" by (simp add: live_def NetEpollContextCreate_def)
  from epoll_serves_input [OF sock_rx.rx_socket_axioms [of True] _ _ _ this, of "\<lparr>ev_err = False, ev_out = False, ev_in = True\<rparr>" "[[1, 2], [3]]" "\<lambda>bs. [bs, [0]]" 7]
  show ?thesis by (auto simp: Let_def NetEpollContextCreate_def NET_EPOLL_READBUFF_def)
qed

text \<open>
  Property C31. Where the delaying of output fails. A message that is written while output is pending closes a healthy connection, without a system call,
  unless the last error number of the thread happens to be \<^const>\<open>EAGAIN\<close>; the pending output is lost. A socket that takes a
  part of the pending output makes the event of writing undefined, because the rest is copied out of a block that was just cut to the length of the rest. And an
  error of \<^verbatim>\<open>accept4\<close> that stays (such as too many open files) keeps the worker in its loop for ever.
\<close>

theorem epoll_delay_defects:
  assumes "tx_socket os sent" "live c" "ec_data c = Some b" "0 < ec_len c"
  shows "(ec_errno c \<noteq> EAGAIN \<longrightarrow>
      NetEpollWrite os (ec_fd c) d c = Some (NET_EPOLL_ERROR, (sys_close c)\<lparr>ec_lastError := NET_EPOLL_ERROR\<rparr>)) \<and>
    (eo_write os (ec_world c) b = (n, e, w) \<and> 0 < n \<and> n < int (length b) \<longrightarrow> NetEpollWriteEvent os c = None) \<and>
    ((\<forall>i. \<exists>e. acc i = Inl e \<and> e \<noteq> EAGAIN) \<longrightarrow> NetEpollAccept os op cl dt m acc = None)"
proof (intro conjI impI)
  show "NetEpollWrite os (ec_fd c) d c = Some (NET_EPOLL_ERROR, (sys_close c)\<lparr>ec_lastError := NET_EPOLL_ERROR\<rparr>)" if "ec_errno c \<noteq> EAGAIN"
    using assms(2,4) that by (simp add: NetEpollWrite_def live_def)
  show "NetEpollWriteEvent os c = None" if "eo_write os (ec_world c) b = (n, e, w) \<and> 0 < n \<and> n < int (length b)"
  proof -
    have l: "ec_closed c = 0" "int (length b) = ec_len c" "ec_len c \<le> int_max" using assms(2-4) by (auto simp: live_def)
    let ?c = "c\<lparr>ec_len := 0, ec_world := w\<rparr>"
    have "sys_write os b (c\<lparr>ec_len := 0\<rparr>) = (n, ?c)" using that l(1) by (simp add: sys_write_def)
    moreover have "NetEpollDelayWrite os Stored (int (length b)) n ?c = None"
      using tx_socket.delay_stored_part [OF assms(1), of ?c b n] that assms(3) by simp
    ultimately show ?thesis using assms(3,4) l(3) [folded l(2)] that
      by (simp add: NetEpollWriteEvent_def mem_read_def Let_def flip: l(2))
  qed
  show "NetEpollAccept os op cl dt m acc = None" if "\<forall>i. \<exists>e. acc i = Inl e \<and> e \<noteq> EAGAIN"
    using accept_stuck [OF that] by (simp add: NetEpollAccept_def)
qed

theorem epoll_delay_defects_witness:
  "let w = \<lparr>sk_script = [Inr 1], sk_sent = [], sk_in = [], sk_eof = False\<rparr>;
       c = (NetEpollContextCreate 5 False False True w)\<lparr>ec_reg := Some EPOLLOUT, ec_len := 2, ec_data := Some [8, 9]\<rparr>
   in NetEpollWrite (sock_os True) 5 [1] c = Some (NET_EPOLL_ERROR, (sys_close c)\<lparr>ec_lastError := NET_EPOLL_ERROR\<rparr>) \<and>
      NetEpollWriteEvent (sock_os True) c = None \<and> NetEpollAccept (sock_os True) False False True 0 (\<lambda>_. Inl 24) = None"
proof -
  let ?w = "\<lparr>sk_script = [Inr 1], sk_sent = [], sk_in = [], sk_eof = False\<rparr>"
  let ?c = "(NetEpollContextCreate 5 False False True ?w)\<lparr>ec_reg := Some EPOLLOUT, ec_len := 2, ec_data := Some [8, 9]\<rparr>"
  have "live ?c" by (simp add: live_def NetEpollContextCreate_def)
  from epoll_delay_defects [OF sock_tx.tx_socket_axioms [of True] this, where b = "[8, 9]" and d = "[1]" and n = 1 and e = 0
      and w = "?w\<lparr>sk_script := [], sk_sent := [8]\<rparr>" and acc = "\<lambda>_. Inl 24" and op = False and cl = False and dt = True and m = 0]
  show ?thesis by (simp add: Let_def NetEpollContextCreate_def sock_defs EAGAIN_def)
qed

end
