(* ===== verification/Str_Source.thy ===== *)
theory Str_Source
  imports C_String
begin

text \<open>
  Comments and white space in source code (\<^verbatim>\<open>LibStr/SourceCode.cpp\<close>): a scanner with five states that goes back by one
  character at the end of a line comment. Positions are those of the loop variable at the head of the loop.
\<close>

section \<open>The scanner\<close>

datatype MinifierState = CODE | SINGLE_COMMENT | MULTI_COMMENT | SINGLE_STRING | DOUBLE_STRING

abbreviation line_end :: "char \<Rightarrow> bool" where
  "line_end c \<equiv> c = CHR 0x0A \<or> c = CHR 0x0D"

text \<open>A comment mark that is not given is \<^const>\<open>None\<close>.\<close>

definition mark_at :: "string option \<Rightarrow> string \<Rightarrow> bool" where
  "mark_at mark src = (case mark of None \<Rightarrow> False | Some p \<Rightarrow> prefix p src)"

definition mark_size :: "string option \<Rightarrow> nat" where
  "mark_size mark = (case mark of None \<Rightarrow> 0 | Some p \<Rightarrow> length p)"

text \<open>One turn of the switch: the next position, the next state and whether the character is appended.\<close>

definition minify_switch ::
    "string option \<Rightarrow> string option \<Rightarrow> string option \<Rightarrow> string \<Rightarrow> nat \<Rightarrow> MinifierState \<Rightarrow> char option \<Rightarrow> nat \<times> MinifierState \<times> bool" where
  "minify_switch sc mb me code i state lastChar =
     (let c = code ! i; src = drop i code in
      case state of
        CODE \<Rightarrow>
          if mark_at sc src then (i + mark_size sc, SINGLE_COMMENT, False)
          else if mark_at mb src then (i + 1, MULTI_COMMENT, False)
          else if c = CHR 0x22 then (i + 1, DOUBLE_STRING, True)
          else if c = CHR 0x27 then (i + 1, SINGLE_STRING, True)
          else (i + 1, CODE, True)
      | SINGLE_COMMENT \<Rightarrow> if line_end c then (i, CODE, False) else (i + 1, SINGLE_COMMENT, False)
      | MULTI_COMMENT \<Rightarrow> if mark_at me src then (i + mark_size me, CODE, False) else (i + 1, MULTI_COMMENT, False)
      | DOUBLE_STRING \<Rightarrow> (i + 1, if c = CHR 0x22 \<and> lastChar \<noteq> Some (CHR 0x5C) then CODE else DOUBLE_STRING, True)
      | SINGLE_STRING \<Rightarrow> (i + 1, if c = CHR 0x27 \<and> lastChar \<noteq> Some (CHR 0x5C) then CODE else SINGLE_STRING, True))"

text \<open>Characters next to which white space is dropped.\<close>

definition tight :: "char option \<Rightarrow> bool" where
  "tight c \<longleftrightarrow> c \<in> Some ` set (CHR 0x09 # '' ;=:}{()+-*/&|?,<>'')"

partial_function (option) minify_loop ::
    "string option \<Rightarrow> string option \<Rightarrow> string option \<Rightarrow> bool \<Rightarrow> string \<Rightarrow> nat \<Rightarrow> MinifierState \<Rightarrow> char option \<Rightarrow> string \<Rightarrow> string option" where
  "minify_loop sc mb me removeWhites code i state lastChar rv =
     (if i < length code then
        (let nextChar = (if i < length code - 1 then Some (code ! (i + 1)) else None);
             (i', state, append) = minify_switch sc mb me code i state lastChar;
             white = (removeWhites \<and> state = CODE);
             c = (if white \<and> line_end (code ! i) then CHR '' '' else code ! i);
             append = (append \<and> \<not> (white \<and> isspace c \<and> (tight lastChar \<or> tight nextChar)))
         in if append then minify_loop sc mb me removeWhites code i' state (Some c) (rv @ [c])
            else minify_loop sc mb me removeWhites code i' state lastChar rv)
      else Some rv)"

definition StrMinifyCode :: "string \<Rightarrow> string option \<Rightarrow> string option \<Rightarrow> string option \<Rightarrow> bool \<Rightarrow> string option" where
  "StrMinifyCode code sc mb me removeWhites = minify_loop sc mb me removeWhites code 0 CODE None []"

definition StrRemoveSingleLineComments :: "string \<Rightarrow> string \<Rightarrow> string option" where
  "StrRemoveSingleLineComments code commentString = StrMinifyCode code (Some commentString) None None False"

definition StrRemoveMultiLineComments :: "string \<Rightarrow> string \<Rightarrow> string \<Rightarrow> string option" where
  "StrRemoveMultiLineComments code commentBegin commentEnd = StrMinifyCode code None (Some commentBegin) (Some commentEnd) False"

section \<open>When the scanner ends\<close>

lemma switch_progress:
  assumes "minify_switch sc mb me code i state lc = (i', state', app)" "sc \<noteq> Some []"
  shows "i < i' \<or> i = i' \<and> state \<noteq> CODE \<and> state' = CODE"
  using assms by (cases state; cases sc) (auto simp: minify_switch_def Let_def mark_at_def mark_size_def split: if_splits option.splits)

lemma minify_returns:
  assumes "sc \<noteq> Some []"
  shows "\<exists>r. minify_loop sc mb me w code i state lc rv = Some r"
proof (induction "2 * (length code - i) + (if state = CODE then 0 else 1)" arbitrary: i state lc rv rule: less_induct)
  case less
  obtain i' state' app where s: "minify_switch sc mb me code i state lc = (i', state', app)" by (metis prod_cases3)
  note p = switch_progress [OF s assms]
  show ?case
  proof (cases "i < length code")
    case True
    then have "2 * (length code - i') + (if state' = CODE then 0 else 1) < 2 * (length code - i) + (if state = CODE then 0 else (1 :: nat))"
      using p by auto
    note IH = less [OF this]
    show ?thesis using True IH by (subst minify_loop.simps) (simp add: s Let_def)
  next
    case False
    then show ?thesis by (subst minify_loop.simps) simp
  qed
qed

text \<open>An empty mark for line comments makes the scanner go back for ever at the end of a line.\<close>

lemma minify_stuck:
  assumes "i \<le> k" "k < length code" "line_end (code ! k)" "state \<in> {CODE, SINGLE_COMMENT}"
  shows "minify_loop (Some []) mb me w code i state lc rv = None"
proof (cases "minify_loop (Some []) mb me w code i state lc rv")
  case (Some r)
  have "sc = Some [] \<longrightarrow> (\<forall>k. i \<le> k \<longrightarrow> k < length code \<longrightarrow> line_end (code ! k) \<longrightarrow> state \<notin> {CODE, SINGLE_COMMENT})"
    if "minify_loop sc mb me w code i state lc rv = Some r" for sc
  proof (rule minify_loop.raw_induct [OF _ that, where P = "\<lambda>sc mb me w code i state lc rv r. sc = Some [] \<longrightarrow>
      (\<forall>k. i \<le> k \<longrightarrow> k < length code \<longrightarrow> line_end (code ! k) \<longrightarrow> state \<notin> {CODE, SINGLE_COMMENT})"])
    fix f sc mb me w code i state lc rv r
    assume IH: "\<And>sc mb me w code i state lc rv r. f sc mb me w code i state lc rv = Some r \<Longrightarrow>
        sc = Some [] \<longrightarrow> (\<forall>k. i \<le> k \<longrightarrow> k < length code \<longrightarrow> line_end (code ! k) \<longrightarrow> state \<notin> {CODE, SINGLE_COMMENT})"
      and body: "(if i < length code then
        (let nextChar = (if i < length code - 1 then Some (code ! (i + 1)) else None);
             (i', state, append) = minify_switch sc mb me code i state lc;
             white = (w \<and> state = CODE);
             c = (if white \<and> line_end (code ! i) then CHR '' '' else code ! i);
             append = (append \<and> \<not> (white \<and> isspace c \<and> (tight lc \<or> tight nextChar)))
         in if append then f sc mb me w code i' state (Some c) (rv @ [c])
            else f sc mb me w code i' state lc rv)
      else Some rv) = Some r"
    show "sc = Some [] \<longrightarrow> (\<forall>k. i \<le> k \<longrightarrow> k < length code \<longrightarrow> line_end (code ! k) \<longrightarrow> state \<notin> {CODE, SINGLE_COMMENT})"
    proof (intro impI allI notI)
      fix k
      assume a: "sc = Some []" "i \<le> k" "k < length code" "line_end (code ! k)" "state \<in> {CODE, SINGLE_COMMENT}"
      then consider (code) "state = CODE" | (again) "state = SINGLE_COMMENT" "line_end (code ! i)" | (stay) "state = SINGLE_COMMENT" "\<not> line_end (code ! i)"
        by blast
      then show False
      proof cases
        case code
        then have "f sc mb me w code i SINGLE_COMMENT lc rv = Some r"
          using body a by (simp add: minify_switch_def mark_at_def mark_size_def)
        then show False using IH a by blast
      next
        case again
        then have "f sc mb me w code i CODE lc rv = Some r" using body a by (simp add: minify_switch_def)
        then show False using IH a by blast
      next
        case stay
        then have "f sc mb me w code (i + 1) SINGLE_COMMENT lc rv = Some r" using body a by (simp add: minify_switch_def)
        moreover have "i + 1 \<le> k" using stay a by (cases "i = k") auto
        ultimately show False using IH a by blast
      qed
    qed
  qed
  then show ?thesis using Some assms by blast
qed simp


section \<open>Code as a sequence of pieces\<close>

datatype piece = Plain string | Quoted char string | Line string | Block string

fun piece_text :: "string \<Rightarrow> string \<Rightarrow> string \<Rightarrow> piece \<Rightarrow> string" where
  "piece_text sc mb me (Plain x) = x"
| "piece_text sc mb me (Quoted q b) = q # b @ [q]"
| "piece_text sc mb me (Line t) = sc @ t"
| "piece_text sc mb me (Block t) = mb @ t @ me"

definition render :: "string \<Rightarrow> string \<Rightarrow> string \<Rightarrow> piece list \<Rightarrow> string" where
  "render sc mb me ps = concat (map (piece_text sc mb me) ps)"

lemma render_simps [simp]: "render sc mb me [] = []" "render sc mb me (p # ps) = piece_text sc mb me p @ render sc mb me ps"
  by (simp_all add: render_def)

text \<open>Inside a literal the quote comes only after a backslash, and the last character is none.\<close>

fun literal_ok :: "char \<Rightarrow> char \<Rightarrow> string \<Rightarrow> bool" where
  "literal_ok q prev [] = (prev \<noteq> CHR 0x5C)"
| "literal_ok q prev (c # b) = ((c = q \<longrightarrow> prev = CHR 0x5C) \<and> literal_ok q c b)"

text \<open>No quote and no comment begins inside \<open>x\<close> when \<open>post\<close> comes after it.\<close>

definition plain_ok :: "string \<Rightarrow> string \<Rightarrow> string \<Rightarrow> string \<Rightarrow> bool" where
  "plain_ok sc mb x post \<longleftrightarrow> (\<forall>j<length x. x ! j \<notin> {CHR 0x22, CHR 0x27} \<and> \<not> prefix sc (drop j x @ post) \<and> \<not> prefix mb (drop j x @ post))"

definition block_ok :: "string \<Rightarrow> string \<Rightarrow> string \<Rightarrow> bool" where
  "block_ok me u post \<longleftrightarrow> (\<forall>j<length u. \<not> prefix me (drop j u @ me @ post))"

fun pieces_ok :: "string \<Rightarrow> string \<Rightarrow> string \<Rightarrow> piece list \<Rightarrow> bool" where
  "pieces_ok sc mb me [] = True"
| "pieces_ok sc mb me (p # ps) =
     ((let post = render sc mb me ps in
       case p of
         Plain x \<Rightarrow> plain_ok sc mb x post
       | Quoted q b \<Rightarrow> q \<in> {CHR 0x22, CHR 0x27} \<and> literal_ok q q b \<and> \<not> prefix sc (q # b @ [q] @ post) \<and> \<not> prefix mb (q # b @ [q] @ post)
       | Line t \<Rightarrow> (\<forall>c\<in>set t. \<not> line_end c) \<and> (post = [] \<or> line_end (hd post))
       | Block t \<Rightarrow> \<not> prefix sc (mb @ t @ me @ post) \<and> block_ok me (tl (mb @ t)) post) \<and> pieces_ok sc mb me ps)"

text \<open>
  What is left of a piece. When white space is removed, line ends become blanks and white space may go away, but nothing else does and nothing is added.
\<close>

definition blank_ends :: "string \<Rightarrow> string" where
  "blank_ends x = map (\<lambda>c. if line_end c then CHR '' '' else c) x"

definition squeezed :: "string \<Rightarrow> string \<Rightarrow> bool" where
  "squeezed x r \<longleftrightarrow> subseq r (blank_ends x) \<and> filter (\<lambda>c. \<not> isspace c) r = filter (\<lambda>c. \<not> isspace c) x \<and> (\<forall>c\<in>set r. \<not> line_end c)"

fun piece_kept :: "bool \<Rightarrow> piece \<Rightarrow> string \<Rightarrow> bool" where
  "piece_kept w (Plain x) r = (if w then squeezed x r else r = x)"
| "piece_kept w (Quoted q b) r = (r = q # b @ [q])"
| "piece_kept w (Line t) r = (r = [])"
| "piece_kept w (Block t) r = (r = [])"

section \<open>Single turns\<close>

lemma line_end_isspace: "line_end c \<Longrightarrow> isspace c"
  by (auto simp: isspace_def)

lemma step_app:
  assumes "i < length code" "minify_switch sc mb me code i state lc = (i', state', True)" "state' \<noteq> CODE \<or> \<not> w \<or> \<not> isspace (code ! i)"
  shows "minify_loop sc mb me w code i state lc rv = minify_loop sc mb me w code i' state' (Some (code ! i)) (rv @ [code ! i])"
  using assms line_end_isspace [of "code ! i"] by (subst minify_loop.simps) (auto simp: Let_def)

lemma step_skip:
  assumes "i < length code" "minify_switch sc mb me code i state lc = (i', state', False)"
  shows "minify_loop sc mb me w code i state lc rv = minify_loop sc mb me w code i' state' lc rv"
  using assms by (subst minify_loop.simps) (simp add: Let_def)

lemma step_white:
  assumes "i < length code" "minify_switch sc mb me code i state lc = (i', CODE, True)" "isspace (code ! i)"
  shows "\<exists>lc' d. minify_loop sc mb me True code i state lc rv = minify_loop sc mb me True code i' CODE lc' (rv @ d) \<and> squeezed [code ! i] d"
proof -
  define c where "c = (if line_end (code ! i) then CHR '' '' else code ! i)"
  have c: "isspace c" "\<not> line_end c" using assms(3) by (auto simp: c_def isspace_def)
  let ?n = "if i < length code - 1 then Some (code ! (i + 1)) else None"
  have "minify_loop sc mb me True code i state lc rv =
      (if tight lc \<or> tight ?n then minify_loop sc mb me True code i' CODE lc rv
       else minify_loop sc mb me True code i' CODE (Some c) (rv @ [c]))"
    using assms(1,2) c(1) by (subst minify_loop.simps) (simp add: Let_def c_def)
  moreover have "squeezed [code ! i] [c]" "squeezed [code ! i] []" using c assms(3) by (auto simp: squeezed_def blank_ends_def c_def)
  ultimately show ?thesis by (metis append_Nil2)
qed

lemma squeezed_append: "squeezed x r \<Longrightarrow> squeezed y s \<Longrightarrow> squeezed (x @ y) (r @ s)"
  by (auto simp: squeezed_def blank_ends_def intro: list_emb_append_mono)

section \<open>Runs of turns\<close>

text \<open>Plain code.\<close>

lemma plain_ok_Cons:
  assumes "plain_ok sc mb (c # x) post"
  shows "c \<notin> {CHR 0x22, CHR 0x27}" "\<not> prefix sc (c # x @ post)" "\<not> prefix mb (c # x @ post)" "plain_ok sc mb x post"
  using assms by (auto simp: plain_ok_def All_less_Suc2)

lemma plain_run:
  assumes "plain_ok sc mb x post"
  shows "\<exists>lc' r. minify_loop (Some sc) (Some mb) (Some me) w (pre @ x @ post) (length pre) CODE lc rv =
      minify_loop (Some sc) (Some mb) (Some me) w (pre @ x @ post) (length (pre @ x)) CODE lc' (rv @ r) \<and> piece_kept w (Plain x) r"
  using assms
proof (induction x arbitrary: pre lc rv)
  case Nil
  then show ?case by (intro exI [of _ lc] exI [of _ "[]"]) (simp add: squeezed_def blank_ends_def)
next
  case (Cons c x)
  note p = plain_ok_Cons [OF Cons.prems]
  let ?code = "pre @ (c # x) @ post"
  have s: "minify_switch (Some sc) (Some mb) (Some me) ?code (length pre) CODE lc = (length pre + 1, CODE, True)"
    using p by (simp add: minify_switch_def mark_at_def)
  have "\<exists>lc' d. minify_loop (Some sc) (Some mb) (Some me) w ?code (length pre) CODE lc rv =
      minify_loop (Some sc) (Some mb) (Some me) w ?code (length pre + 1) CODE lc' (rv @ d) \<and> piece_kept w (Plain [c]) d"
  proof (cases "w \<and> isspace c")
    case True
    then show ?thesis using step_white [OF _ s, of rv] by simp
  next
    case False
    have "piece_kept w (Plain [c]) [c]" using False line_end_isspace [of c] by (auto simp: squeezed_def blank_ends_def)
    then show ?thesis using step_app [OF _ s, of w rv] False by (intro exI [of _ "Some c"] exI [of _ "[c]"]) auto
  qed
  then obtain lc1 d where d: "minify_loop (Some sc) (Some mb) (Some me) w ?code (length pre) CODE lc rv =
      minify_loop (Some sc) (Some mb) (Some me) w ?code (length pre + 1) CODE lc1 (rv @ d)" "piece_kept w (Plain [c]) d" by blast
  obtain lc' r where r: "minify_loop (Some sc) (Some mb) (Some me) w ((pre @ [c]) @ x @ post) (length (pre @ [c])) CODE lc1 (rv @ d) =
      minify_loop (Some sc) (Some mb) (Some me) w ((pre @ [c]) @ x @ post) (length ((pre @ [c]) @ x)) CODE lc' ((rv @ d) @ r)" "piece_kept w (Plain x) r"
    using Cons.IH [OF p(4)] by blast
  have "piece_kept w (Plain (c # x)) (d @ r)" using d(2) r(2) squeezed_append [of "[c]" d x r] by (cases w) auto
  then show ?case using d(1) r(1) by (intro exI [of _ lc'] exI [of _ "d @ r"]) simp
qed

text \<open>Literals and comments.\<close>

lemma literal_run:
  assumes "literal_ok q prev b" "q = CHR 0x22 \<and> state = DOUBLE_STRING \<or> q = CHR 0x27 \<and> state = SINGLE_STRING"
  shows "minify_loop sc mb me w (pre @ b @ q # post) (length pre) state (Some prev) rv =
    minify_loop sc mb me w (pre @ b @ q # post) (length (pre @ b @ [q])) CODE (Some q) (rv @ b @ [q])"
  using assms(1)
proof (induction b arbitrary: pre prev rv)
  case Nil
  have "\<not> isspace q" using assms(2) by (auto simp: isspace_def)
  moreover have "minify_switch sc mb me (pre @ q # post) (length pre) state (Some prev) = (length pre + 1, CODE, True)"
    using Nil assms(2) by (auto simp: minify_switch_def)
  ultimately show ?case using step_app [of "length pre" "pre @ q # post" sc mb me state "Some prev"] by simp
next
  case (Cons c b)
  have s: "minify_switch sc mb me (pre @ (c # b) @ q # post) (length pre) state (Some prev) = (length pre + 1, state, True)"
    using Cons.prems assms(2) by (auto simp: minify_switch_def)
  have "state \<noteq> CODE" using assms(2) by auto
  then have "minify_loop sc mb me w (pre @ (c # b) @ q # post) (length pre) state (Some prev) rv =
      minify_loop sc mb me w ((pre @ [c]) @ b @ q # post) (length (pre @ [c])) state (Some c) (rv @ [c])"
    using step_app [OF _ s, of w rv] by simp
  then show ?case using Cons.IH [of c "pre @ [c]" "rv @ [c]"] Cons.prems by simp
qed

lemma line_run:
  assumes "\<forall>c\<in>set t. \<not> line_end c" "post = [] \<or> line_end (hd post)"
  shows "minify_loop sc mb me w (pre @ t @ post) (length pre) SINGLE_COMMENT lc rv =
    minify_loop sc mb me w (pre @ t @ post) (length (pre @ t)) CODE lc rv"
  using assms(1)
proof (induction t arbitrary: pre)
  case Nil
  show ?case
  proof (cases post)
    case Nil
    then show ?thesis by (subst (1 2) minify_loop.simps) simp
  next
    case (Cons c cs)
    then have "minify_switch sc mb me (pre @ [] @ post) (length pre) SINGLE_COMMENT lc = (length pre, CODE, False)"
      using assms(2) by (auto simp: minify_switch_def)
    then show ?thesis using step_skip [of "length pre" "pre @ [] @ post"] Cons by simp
  qed
next
  case (Cons c t)
  have "minify_switch sc mb me (pre @ (c # t) @ post) (length pre) SINGLE_COMMENT lc = (length pre + 1, SINGLE_COMMENT, False)"
    using Cons.prems by (simp add: minify_switch_def)
  then show ?case using step_skip [of "length pre" "pre @ (c # t) @ post"] Cons.IH [of "pre @ [c]"] Cons.prems by simp
qed

lemma block_run:
  assumes "block_ok me u post" "me \<noteq> []"
  shows "minify_loop sc mb (Some me) w (pre @ u @ me @ post) (length pre) MULTI_COMMENT lc rv =
    minify_loop sc mb (Some me) w (pre @ u @ me @ post) (length (pre @ u @ me)) CODE lc rv"
  using assms(1)
proof (induction u arbitrary: pre)
  case Nil
  have "minify_switch sc mb (Some me) (pre @ [] @ me @ post) (length pre) MULTI_COMMENT lc = (length pre + length me, CODE, False)"
    by (simp add: minify_switch_def mark_at_def mark_size_def)
  then show ?case using step_skip [of "length pre" "pre @ [] @ me @ post"] assms(2) by simp
next
  case (Cons c u)
  have b: "\<not> prefix me (c # u @ me @ post)" "block_ok me u post" using Cons.prems by (auto simp: block_ok_def All_less_Suc2)
  then have "minify_switch sc mb (Some me) (pre @ (c # u) @ me @ post) (length pre) MULTI_COMMENT lc = (length pre + 1, MULTI_COMMENT, False)"
    by (simp add: minify_switch_def mark_at_def)
  then show ?case using step_skip [of "length pre" "pre @ (c # u) @ me @ post"] Cons.IH [OF b(2), of "pre @ [c]"] by simp
qed

text \<open>One piece after the other.\<close>

lemma piece_run:
  assumes "pieces_ok sc mb me (p # ps)" "sc \<noteq> []" "mb \<noteq> []" "me \<noteq> []"
  shows "\<exists>lc' r. minify_loop (Some sc) (Some mb) (Some me) w (pre @ render sc mb me (p # ps)) (length pre) CODE lc rv =
      minify_loop (Some sc) (Some mb) (Some me) w ((pre @ piece_text sc mb me p) @ render sc mb me ps) (length (pre @ piece_text sc mb me p)) CODE lc' (rv @ r) \<and>
    piece_kept w p r"
proof (cases p)
  case (Plain x)
  then show ?thesis using plain_run [of sc mb x "render sc mb me ps" me w pre lc rv] assms(1) by (auto simp: Let_def)
next
  case (Quoted q b)
  let ?code = "pre @ q # b @ q # render sc mb me ps" and ?st = "if q = CHR 0x22 then DOUBLE_STRING else SINGLE_STRING"
  have q: "q \<in> {CHR 0x22, CHR 0x27}" "literal_ok q q b" using assms(1) Quoted by (auto simp: Let_def)
  have "minify_switch (Some sc) (Some mb) (Some me) ?code (length pre) CODE lc = (length pre + 1, ?st, True)"
    using assms(1) Quoted by (auto simp: minify_switch_def mark_at_def Let_def)
  then have "minify_loop (Some sc) (Some mb) (Some me) w ?code (length pre) CODE lc rv =
      minify_loop (Some sc) (Some mb) (Some me) w ?code (length pre + 1) ?st (Some q) (rv @ [q])"
    using step_app [of "length pre" ?code "Some sc" "Some mb" "Some me" CODE lc] by simp
  also have "\<dots> = minify_loop (Some sc) (Some mb) (Some me) w ?code (length (pre @ q # b @ [q])) CODE (Some q) (rv @ q # b @ [q])"
    using literal_run [OF q(2), of ?st "Some sc" "Some mb" "Some me" w "pre @ [q]" "render sc mb me ps" "rv @ [q]"] q(1) by auto
  finally show ?thesis using Quoted by (intro exI [of _ "Some q"] exI [of _ "q # b @ [q]"]) simp
next
  case (Line t)
  let ?code = "pre @ sc @ t @ render sc mb me ps"
  have "minify_switch (Some sc) (Some mb) (Some me) ?code (length pre) CODE lc = (length pre + length sc, SINGLE_COMMENT, False)"
    by (simp add: minify_switch_def mark_at_def mark_size_def)
  then have "minify_loop (Some sc) (Some mb) (Some me) w ?code (length pre) CODE lc rv =
      minify_loop (Some sc) (Some mb) (Some me) w ((pre @ sc) @ t @ render sc mb me ps) (length (pre @ sc)) SINGLE_COMMENT lc rv"
    using step_skip [of "length pre" ?code] assms(2) by simp
  also have "\<dots> = minify_loop (Some sc) (Some mb) (Some me) w ((pre @ sc) @ t @ render sc mb me ps) (length ((pre @ sc) @ t)) CODE lc rv"
    by (rule line_run) (use assms(1) Line in \<open>auto simp: Let_def\<close>)
  finally show ?thesis using Line by (intro exI [of _ lc] exI [of _ "[]"]) simp
next
  case (Block t)
  obtain m mb' where mb: "mb = m # mb'" using assms(3) by (cases mb) auto
  let ?code = "pre @ mb @ t @ me @ render sc mb me ps"
  have b: "\<not> prefix sc (mb @ t @ me @ render sc mb me ps)" "block_ok me (mb' @ t) (render sc mb me ps)"
    using assms(1) Block mb by (auto simp: Let_def)
  have "minify_switch (Some sc) (Some mb) (Some me) ?code (length pre) CODE lc = (length pre + 1, MULTI_COMMENT, False)"
    using b(1) by (simp add: minify_switch_def mark_at_def)
  then have "minify_loop (Some sc) (Some mb) (Some me) w ?code (length pre) CODE lc rv =
      minify_loop (Some sc) (Some mb) (Some me) w ((pre @ [m]) @ (mb' @ t) @ me @ render sc mb me ps) (length (pre @ [m])) MULTI_COMMENT lc rv"
    using step_skip [of "length pre" ?code] assms(3) by (simp add: mb)
  also have "\<dots> = minify_loop (Some sc) (Some mb) (Some me) w ((pre @ [m]) @ (mb' @ t) @ me @ render sc mb me ps) (length ((pre @ [m]) @ (mb' @ t) @ me)) CODE lc rv"
    by (rule block_run [OF b(2) assms(4)])
  finally show ?thesis using Block mb by (intro exI [of _ lc] exI [of _ "[]"]) simp
qed

lemma pieces_run:
  assumes "pieces_ok sc mb me ps" "sc \<noteq> []" "mb \<noteq> []" "me \<noteq> []"
  shows "\<exists>rs. minify_loop (Some sc) (Some mb) (Some me) w (pre @ render sc mb me ps) (length pre) CODE lc rv = Some (rv @ concat rs) \<and>
    list_all2 (piece_kept w) ps rs"
  using assms(1)
proof (induction ps arbitrary: pre lc rv)
  case Nil
  then show ?case by (subst minify_loop.simps) simp
next
  case (Cons p ps)
  obtain lc' r where r: "minify_loop (Some sc) (Some mb) (Some me) w (pre @ render sc mb me (p # ps)) (length pre) CODE lc rv =
      minify_loop (Some sc) (Some mb) (Some me) w ((pre @ piece_text sc mb me p) @ render sc mb me ps) (length (pre @ piece_text sc mb me p)) CODE lc' (rv @ r)"
      "piece_kept w p r"
    using piece_run [OF Cons.prems assms(2-4)] by blast
  obtain rs where "minify_loop (Some sc) (Some mb) (Some me) w ((pre @ piece_text sc mb me p) @ render sc mb me ps)
      (length (pre @ piece_text sc mb me p)) CODE lc' (rv @ r) = Some ((rv @ r) @ concat rs)" "list_all2 (piece_kept w) ps rs"
    using Cons.IH Cons.prems by fastforce
  then show ?case using r by (intro exI [of _ "r # rs"]) simp
qed

section \<open>Properties\<close>

text \<open>
  Property C34. What minifying does to an ASCII text (of a length within int) made of four kinds of pieces: plain text in which no quote and no comment begins; literals in which a quote comes only
  after a backslash and whose last character is not a backslash; line comments up to a line end or the end of the text; and block comments in which the end mark does not
  begin before the end, not even inside the start mark (so \<^verbatim>\<open>/*/\<close> is excluded). Such a text loses exactly
  its comments. Literals are kept as they are, also where they contain comment marks; plain text is kept too, or, if white space
  is removed, its line ends become blanks and white space is left out of it, but none is added and all other characters stay, in their order. The marks are not empty.
\<close>

theorem minify_removes_comments:
  assumes "pieces_ok sc mb me ps" "sc \<noteq> []" "mb \<noteq> []" "me \<noteq> []" "is_ascii (render sc mb me ps)" "int (length (render sc mb me ps)) \<le> int_max"
  shows "\<exists>rs. StrMinifyCode (render sc mb me ps) (Some sc) (Some mb) (Some me) w = Some (concat rs) \<and> list_all2 (piece_kept w) ps rs"
  using pieces_run [OF assms(1-4), of w "[]" None "[]"] by (simp add: StrMinifyCode_def)

theorem minify_removes_comments_witness:
  "StrMinifyCode (''a = '' @ [CHR 0x22] @ ''//x'' @ [CHR 0x22] @ ''; //y'' @ [CHR 0x0A] @ ''/*z*/b'') (Some ''//'') (Some ''/*'') (Some ''*/'') False =
     Some (''a = '' @ [CHR 0x22] @ ''//x'' @ [CHR 0x22] @ ''; '' @ [CHR 0x0A] @ ''b'')"
proof -
  let ?ps = "[Plain ''a = '', Quoted (CHR 0x22) ''//x'', Plain ''; '', Line ''y'', Plain [CHR 0x0A], Block ''z'', Plain ''b'']"
  have ok: "pieces_ok ''//'' ''/*'' ''*/'' ?ps" by (simp add: Let_def plain_ok_def block_ok_def All_less_Suc2)
  have "list_all2 (piece_kept False) ?ps rs \<Longrightarrow> concat rs = ''a = '' @ [CHR 0x22] @ ''//x'' @ [CHR 0x22] @ ''; '' @ [CHR 0x0A] @ ''b''" for rs
    by (auto simp: list_all2_Cons1)
  then show ?thesis using minify_removes_comments [OF ok, of False] by (auto simp: is_ascii_def)
qed

text \<open>
  Property C35. Minifying ends for every code and all marks, except when the mark of line comments is empty and the code has a line end: then the scanner
  goes back to the line end for ever.
\<close>

theorem minify_ends:
  "(sc \<noteq> Some [] \<longrightarrow> (\<exists>r. StrMinifyCode code sc mb me w = Some r)) \<and>
   ((\<exists>c\<in>set code. line_end c) \<longrightarrow> StrMinifyCode code (Some []) mb me w = None)"
proof (intro conjI impI)
  show "sc \<noteq> Some [] \<Longrightarrow> \<exists>r. StrMinifyCode code sc mb me w = Some r"
    using minify_returns by (simp add: StrMinifyCode_def)
  assume "\<exists>c\<in>set code. line_end c"
  then obtain k where "k < length code" "line_end (code ! k)" by (metis in_set_conv_nth)
  then show "StrMinifyCode code (Some []) mb me w = None" using minify_stuck [of 0 k code CODE] by (simp add: StrMinifyCode_def)
qed

theorem minify_ends_witness:
  "(\<exists>r. StrMinifyCode ''a//b'' (Some ''//'') None None True = Some r) \<and> StrMinifyCode [CHR ''a'', CHR 0x0A] (Some []) None None False = None"
  using minify_ends [of "Some ''//''" "''a//b''" None None True] minify_ends [of None "[CHR ''a'', CHR 0x0A]" None None False] by simp

end
