(* ===== verification/Str_Parse.thy ===== *)
theory Str_Parse
  imports C_String
begin

text \<open>
  Small parsers and conversions of LibStr (\<^verbatim>\<open>Parser.cpp, Convert.cpp, Capitalize.cpp, Random.cpp\<close>). A pointer to a pointer into a text is the
  rest of the text, or \<^const>\<open>None\<close> when one of the pointers is null. For floating point numbers the text that \<^verbatim>\<open>atof\<close> gets stands for its result. The overloads for
  \<^verbatim>\<open>char **\<close> forward to those for \<^verbatim>\<open>const char **\<close>.
\<close>

section \<open>Counting\<close>

fun StrCountChar :: "string \<Rightarrow> char \<Rightarrow> nat" where
  "StrCountChar [] c = 0"
| "StrCountChar (x # s) c = (if x = c then 1 else 0) + StrCountChar s c"

fun StrCountDigits :: "string \<Rightarrow> nat" where
  "StrCountDigits [] = 0"
| "StrCountDigits (x # s) = (if isdigit x then 1 else 0) + StrCountDigits s"

fun StrCountAlpha :: "string \<Rightarrow> nat" where
  "StrCountAlpha [] = 0"
| "StrCountAlpha (x # s) = (if isalpha x then 1 else 0) + StrCountAlpha s"

section \<open>Popping from a text\<close>

definition StrPopInt :: "string option \<Rightarrow> (int \<times> string option) run" where
  "StrPopInt it =
     (case it of
        None \<Rightarrow> Some (0, None)
      | Some s \<Rightarrow> let s = dropWhile isspace s in do { v \<leftarrow> atoi s; Some (v, Some (dropWhile isdigit s)) })"

definition StrPopDouble :: "string option \<Rightarrow> string \<times> string option" where
  "StrPopDouble it =
     (case it of
        None \<Rightarrow> (''0'', None)
      | Some s \<Rightarrow> let s = dropWhile isspace s in (s, Some (dropWhile (\<lambda>c. isdigit c \<or> c = CHR ''.'') s)))"

text \<open>The terminating zero matches an expected zero, and the pointer then leaves the text.\<close>

definition StrMatchChar :: "string option \<Rightarrow> char \<Rightarrow> (int \<times> string option) run" where
  "StrMatchChar it expected =
     (case it of
        None \<Rightarrow> Some (-1, None)
      | Some [] \<Rightarrow> if expected = nul then None else Some (-1, Some [])
      | Some (c # s) \<Rightarrow> Some (if c = expected then (0, Some s) else (-1, Some (c # s))))"

definition StrPopChar :: "string option \<Rightarrow> char \<times> string option" where
  "StrPopChar it = (case it of Some (c # s) \<Rightarrow> (c, Some s) | _ \<Rightarrow> (nul, it))"

text \<open>\<open>pop_word_loop\<close> copies to the block \<open>mem\<close> from position \<open>p\<close>; \<open>n\<close> is what is left of the size.\<close>

fun pop_word_loop :: "(char \<Rightarrow> bool) \<Rightarrow> string \<Rightarrow> string \<Rightarrow> nat \<Rightarrow> int \<Rightarrow> (string \<times> string \<times> nat \<times> int) run" where
  "pop_word_loop P [] mem p n = Some ([], mem, p, n)"
| "pop_word_loop P (c # s) mem p n =
     (if P c \<and> n > 0 then do { mem \<leftarrow> mem_write mem p [c]; pop_word_loop P s mem (p + 1) (n - 1) }
      else Some (c # s, mem, p, n))"

definition pop_word :: "(char \<Rightarrow> bool) \<Rightarrow> string option \<Rightarrow> string option \<Rightarrow> int \<Rightarrow> (string option \<times> string option) run" where
  "pop_word P it word wordSize =
     (case (it, word) of
        (Some s, Some mem) \<Rightarrow> do {
          (s, mem, p, n) \<leftarrow> pop_word_loop P (dropWhile isspace s) mem 0 wordSize;
          mem \<leftarrow> (if n > 0 then mem_write mem p [nul] else if p = 0 then None else mem_write mem (p - 1) [nul]);
          Some (Some s, Some mem) }
      | _ \<Rightarrow> Some (it, word))"

definition StrPopAlphaWord :: "string option \<Rightarrow> string option \<Rightarrow> int \<Rightarrow> (string option \<times> string option) run" where
  "StrPopAlphaWord = pop_word isalpha"

definition StrPopAlphaWordBound :: "string option \<Rightarrow> string option \<Rightarrow> int \<Rightarrow> (string option \<times> string option) run" where
  "StrPopAlphaWordBound = pop_word (\<lambda>c. isalpha c \<or> c = CHR '']'' \<or> c = CHR ''['' \<or> c = CHR ''$'')"

definition StrSkipWhites :: "string \<Rightarrow> string" where
  "StrSkipWhites s = dropWhile isspace s"

definition StrMatch :: "string option \<Rightarrow> string \<Rightarrow> string option \<times> string option" where
  "StrMatch it pattern =
     (case it of
        None \<Rightarrow> (None, None)
      | Some s \<Rightarrow>
          (let s = (case strstr s pattern of None \<Rightarrow> s | Some next \<Rightarrow> drop (next + length pattern) s)
           in (Some s, Some s)))"

section \<open>Conversions\<close>

datatype StringToIntAlgorithm = SimpleAtoi | EveryDigits | UntilAlpha

fun every_digits :: "string \<Rightarrow> nat \<Rightarrow> string" where
  "every_digits [] p = []"
| "every_digits (c # s) p = (if p < 63 then if isdigit c then c # every_digits s (p + 1) else every_digits s p else [])"

fun until_alpha :: "string \<Rightarrow> nat \<Rightarrow> string" where
  "until_alpha [] p = []"
| "until_alpha (c # s) p =
     (if p < 63 \<and> \<not> isalpha c \<and> c \<noteq> CHR '','' \<and> c \<noteq> CHR ''.''
      then if isdigit c then c # until_alpha s (p + 1) else until_alpha s p else [])"

definition StringToInt :: "string option \<Rightarrow> StringToIntAlgorithm \<Rightarrow> int run" where
  "StringToInt str algorithm =
     (case str of
        None \<Rightarrow> Some 0
      | Some s \<Rightarrow>
          (case algorithm of
             SimpleAtoi \<Rightarrow> atoi s
           | EveryDigits \<Rightarrow> atoi (every_digits s 0)
           | UntilAlpha \<Rightarrow> atoi (until_alpha s 0)))"

definition StringToInt_str :: "string \<Rightarrow> StringToIntAlgorithm \<Rightarrow> int run" where
  "StringToInt_str str algorithm = StringToInt (Some (c_str str)) algorithm"

definition StringFromInt :: "int \<Rightarrow> string" where
  "StringFromInt x = take 63 (print_int x)"

section \<open>Letters\<close>

definition to_upper :: "char \<Rightarrow> char" where
  "to_upper c = (if islower c then char_of (of_char c - 32 :: nat) else c)"

definition StrCapitalize_str :: "string \<Rightarrow> string" where
  "StrCapitalize_str str = map to_upper str"

definition StrCapitalize_c :: "string \<Rightarrow> string" where
  "StrCapitalize_c str = map to_upper (takeWhile (\<lambda>c. c \<noteq> nul) str) @ dropWhile (\<lambda>c. c \<noteq> nul) str"

text \<open>The version for \<^verbatim>\<open>std::string\<close> is declared to return a reference and has no \<^verbatim>\<open>return\<close>.\<close>

definition StrLowerize_str :: "string \<Rightarrow> string run" where
  "StrLowerize_str s = no_return (map tolower s)"

definition StrLowerize_c :: "string \<Rightarrow> string" where
  "StrLowerize_c s = map tolower (takeWhile (\<lambda>c. c \<noteq> nul) s) @ dropWhile (\<lambda>c. c \<noteq> nul) s"

section \<open>Random texts\<close>

text \<open>
  The results of \<^verbatim>\<open>rand\<close>, which are not negative, are an argument. A negative length is refused by \<^verbatim>\<open>resize\<close> with an exception; a range without
  characters divides by zero.
\<close>

fun random_chars :: "nat \<Rightarrow> int \<Rightarrow> int \<Rightarrow> (nat \<Rightarrow> nat) \<Rightarrow> nat \<Rightarrow> string" where
  "random_chars 0 minChar maxChar rand i = []"
| "random_chars (Suc n) minChar maxChar rand i =
     char_of (nat ((minChar + int (rand i) mod \<bar>maxChar - minChar\<bar>) mod 256)) # random_chars n minChar maxChar rand (i + 1)"

definition RandomString :: "(nat \<Rightarrow> nat) \<Rightarrow> int \<Rightarrow> int \<Rightarrow> int \<Rightarrow> string run" where
  "RandomString rand len minChar maxChar =
     (if len < 0 then None
      else if len > 0 \<and> maxChar = minChar then None
      else Some (random_chars (nat len) minChar maxChar rand 0))"

section \<open>Lemmas\<close>

lemma count_filter:
  "StrCountChar s c = length (filter ((=) c) s)" "StrCountDigits s = length (filter isdigit s)" "StrCountAlpha s = length (filter isalpha s)"
  by (induction s) auto

lemma word_loop_spec:
  assumes "0 \<le> n" "p + nat n \<le> length mem"
  shows "pop_word_loop P s mem p n =
    (let w = takeWhile P s; k = min (nat n) (length w)
     in Some (drop k s, take p mem @ take k w @ drop (p + k) mem, p + k, n - int k))"
  using assms
proof (induction s arbitrary: mem p n)
  case (Cons c s)
  show ?case
  proof (cases "P c \<and> n > 0")
    case True
    define k where "k = nat (n - 1)"
    have n: "nat n = Suc k" "n = int k + 1" using True by (auto simp: k_def)
    have w: "mem_write mem p [c] = Some (take p mem @ [c] @ drop (p + 1) mem)" using Cons.prems n by (simp add: mem_write_def)
    show ?thesis using Cons.IH [of "n - 1" "p + 1" "take p mem @ [c] @ drop (p + 1) mem"] Cons.prems True w n by (simp add: Let_def min_def add.commute [of p])
  next
    case False
    then show ?thesis using Cons.prems by (auto simp: Let_def)
  qed
qed (simp add: Let_def)


lemma dropWhile_head: "P c \<Longrightarrow> dropWhile P (c # s) = dropWhile P s" "\<not> P c \<Longrightarrow> dropWhile P (c # s) = c # s"
  by simp_all

lemma atoi_rest:
  assumes "rest = [] \<or> \<not> isdigit (hd rest)"
  shows "atoi_value (dec_digits n @ rest) = int n" "dropWhile isdigit (dec_digits n @ rest) = rest" "dropWhile isspace (dec_digits n @ rest) = dec_digits n @ rest"
proof -
  obtain c cs where d: "dec_digits n = c # cs" using dec_digits_not_Nil by (cases "dec_digits n") auto
  have c: "isdigit c" using dec_digits_isdigit [of c n] by (simp add: d)
  have v: "digits_value 0 (dec_digits n @ rest) = n"
    using digits_value_dec [of 0 n rest] assms by (cases rest) auto
  show "dropWhile isspace (dec_digits n @ rest) = dec_digits n @ rest" using digit_not [OF c] by (simp add: d)
  then show "atoi_value (dec_digits n @ rest) = int n" using v digit_not [OF c] by (simp add: atoi_value_def d)
  have "dropWhile isdigit (dec_digits n @ rest) = dropWhile isdigit rest" using dec_digits_isdigit by (intro dropWhile_append2) auto
  then show "dropWhile isdigit (dec_digits n @ rest) = rest" using assms by (cases rest) auto
qed

lemma every_digits_filter: "every_digits s p = take (63 - p) (filter isdigit s)"
  by (induction s arbitrary: p) (auto simp: take_Cons')

lemma until_alpha_filter:
  "until_alpha s p = take (63 - p) (filter isdigit (takeWhile (\<lambda>c. \<not> isalpha c \<and> c \<noteq> CHR '','' \<and> c \<noteq> CHR ''.'') s))"
  by (induction s arbitrary: p) (auto simp: take_Cons')

lemma word_loop_full: "pop_word_loop P s mem p 0 = Some (s, mem, p, 0)"
  by (cases s) simp_all

text \<open>Numbers one after the other.\<close>

fun pop_ints :: "nat \<Rightarrow> string option \<Rightarrow> (int list \<times> string option) run" where
  "pop_ints 0 it = Some ([], it)"
| "pop_ints (Suc n) it = do { (v, it) \<leftarrow> StrPopInt it; (vs, it) \<leftarrow> pop_ints n it; Some (v # vs, it) }"

fun number_texts :: "(string \<times> nat) list \<Rightarrow> string" where
  "number_texts [] = []"
| "number_texts ((blank, n) # ns) = blank @ dec_digits n @ number_texts ns"

definition blanks_ok :: "(string \<times> nat) list \<Rightarrow> bool" where
  "blanks_ok ns \<longleftrightarrow> (\<forall>(blank, n)\<in>set ns. blank \<noteq> [] \<and> (\<forall>c\<in>set blank. isspace c) \<and> int n \<le> int_max)"

lemma number_texts_head:
  assumes "blanks_ok ns" "rest = [] \<or> \<not> isdigit (hd rest)"
  shows "number_texts ns @ rest = [] \<or> \<not> isdigit (hd (number_texts ns @ rest))"
proof (cases ns)
  case (Cons bn ns')
  obtain b n where bn: "bn = (b, n)" by (cases bn)
  then have "b \<noteq> []" "isspace (hd b)" using assms(1) Cons by (auto simp: blanks_ok_def)
  moreover have "isspace c \<Longrightarrow> \<not> isdigit c" for c by (auto simp: ctype_defs)
  ultimately show ?thesis by (simp add: Cons bn)
qed (use assms(2) in simp)

lemma pop_ints_texts:
  assumes "blanks_ok ns" "rest = [] \<or> \<not> isdigit (hd rest)"
  shows "pop_ints (length ns) (Some (number_texts ns @ rest)) = Some (map (int \<circ> snd) ns, Some rest)"
  using assms(1)
proof (induction ns)
  case (Cons bn ns)
  obtain b n where bn: "bn = (b, n)" by (cases bn)
  have b: "\<forall>c\<in>set b. isspace c" "blanks_ok ns" "int n \<le> int_max" using Cons.prems by (auto simp: blanks_ok_def bn)
  have "dropWhile isspace (b @ dec_digits n @ number_texts ns @ rest) = dropWhile isspace (dec_digits n @ number_texts ns @ rest)"
    using b(1) by (intro dropWhile_append2) auto
  then have "StrPopInt (Some (b @ dec_digits n @ number_texts ns @ rest)) = Some (int n, Some (number_texts ns @ rest))"
    using atoi_rest [OF number_texts_head [OF b(2) assms(2)], of n] b(3) by (simp add: StrPopInt_def Let_def atoi_def cint_add_def)
  then show ?case using Cons.IH [OF b(2)] by (simp add: bn)
qed simp

section \<open>Properties\<close>

text \<open>
  Numbers: a sequence of decimal numbers with white space before each of them is popped number by number, leaving the rest of the text, and numbers
  survive the way through their texts. A negative number is popped with its value but left in the text, so that it is popped again and again. The two other algorithms
  of \<^verbatim>\<open>StringToInt\<close> take the first 63 digits of the text, of the whole text or of the part before the first letter, comma or dot.
\<close>

theorem numbers_popped:
  assumes "blanks_ok ns" "rest = [] \<or> \<not> isdigit (hd rest)" "\<bar>x\<bar> \<le> int_max" "int n \<le> int_max"
  shows "pop_ints (length ns) (Some (number_texts ns @ rest)) = Some (map (int \<circ> snd) ns, Some rest) \<and>
    StringToInt_str (StringFromInt x) SimpleAtoi = Some x \<and>
    (0 < n \<longrightarrow> StrPopInt (Some (print_int (- int n) @ rest)) = Some (- int n, Some (print_int (- int n) @ rest))) \<and>
    StringToInt (Some s) EveryDigits = atoi (take 63 (filter isdigit s)) \<and>
    StringToInt (Some s) UntilAlpha = atoi (take 63 (filter isdigit (takeWhile (\<lambda>c. \<not> isalpha c \<and> c \<noteq> CHR '','' \<and> c \<noteq> CHR ''.'') s)))"
proof (intro conjI impI)
  show "pop_ints (length ns) (Some (number_texts ns @ rest)) = Some (map (int \<circ> snd) ns, Some rest)" by (rule pop_ints_texts [OF assms(1,2)])
  show "StringToInt_str (StringFromInt x) SimpleAtoi = Some x"
    using print_int_length [of x] assms(3) by (simp add: StringToInt_str_def StringToInt_def StringFromInt_def c_str_id is_c_str_print_int)
  assume n: "0 < n"
  then have p: "print_int (- int n) = CHR ''-'' # dec_digits n" by (simp add: print_int_def)
  obtain c cs where d: "dec_digits n @ rest = c # cs" "isdigit c" using dec_digits_not_Nil [of n] dec_digits_isdigit [of _ n]
    by (cases "dec_digits n") auto
  have "\<not> isspace (CHR ''-'')" "\<not> isdigit (CHR ''-'')" by (simp_all add: ctype_defs)
  then show "StrPopInt (Some (print_int (- int n) @ rest)) = Some (- int n, Some (print_int (- int n) @ rest))"
    using digits_value_dec [of 0 n rest] assms(2,4) by (cases rest) (auto simp: p StrPopInt_def Let_def atoi_def atoi_value_def cint_add_def)
qed (simp_all add: StringToInt_def every_digits_filter until_alpha_filter)

theorem numbers_popped_witness:
  "pop_ints 2 (Some '' 12 7;'') = Some ([12, 7], Some '';'') \<and> StringToInt (Some ''1-234xx-56'') EveryDigits = Some 123456 \<and>
   StringToInt (Some ''123-456xxx789'') UntilAlpha = Some 123456"
proof -
  have n: "blanks_ok [('' '', 12), ('' '', 7)]" "'';'' = [] \<or> \<not> isdigit (hd '';'')" "\<bar>5\<bar> \<le> int_max" "int 0 \<le> int_max"
    by (simp_all add: blanks_ok_def ctype_defs)
  have t: "number_texts [('' '', 12), ('' '', 7)] @ '';'' = '' 12 7;''" by code_simp
  have d: "atoi (take 63 (filter isdigit ''1-234xx-56'')) = Some 123456"
    "atoi (take 63 (filter isdigit (takeWhile (\<lambda>c. \<not> isalpha c \<and> c \<noteq> CHR '','' \<and> c \<noteq> CHR ''.'') ''123-456xxx789''))) = Some 123456"
    by (simp_all add: ctype_defs atoi_def atoi_value_def cint_add_def)
  have "pop_ints 2 (Some '' 12 7;'') = Some ([12, 7], Some '';'')"
    using numbers_popped [OF n, of "[]", THEN conjunct1] unfolding t by (simp add: numeral_2_eq_2)
  moreover have "StringToInt (Some ''1-234xx-56'') EveryDigits = Some 123456"
    using numbers_popped [OF n, of "''1-234xx-56''"] unfolding d(1) by blast
  moreover have "StringToInt (Some ''123-456xxx789'') UntilAlpha = Some 123456"
    using numbers_popped [OF n, of "''123-456xxx789''"] unfolding d(2) by blast
  ultimately show ?thesis by blast
qed

text \<open>
  Property C36. Words: popping a word into a buffer of at least one byte never writes outside of it and leaves a text that ends with zero. A word that is shorter than the
  buffer is stored whole; of a longer one as many characters are taken as the buffer has bytes, but the last of them is lost. A size of zero writes
  before the buffer.
\<close>

theorem words_popped:
  assumes "wd = takeWhile isalpha (dropWhile isspace s)"
  shows "(0 < n \<longrightarrow> n \<le> length mem \<longrightarrow>
      StrPopAlphaWord (Some s) (Some mem) (int n) =
        Some (Some (drop (min n (length wd)) (dropWhile isspace s)),
              Some (take (n - 1) wd @ nul # drop (min n (length wd + 1)) mem))) \<and>
    StrPopAlphaWord (Some s) (Some mem) 0 = None"
proof (intro conjI impI)
  assume n: "0 < n" "n \<le> length mem"
  let ?k = "min n (length wd)"
  have l: "pop_word_loop isalpha (dropWhile isspace s) mem 0 (int n) =
      Some (drop ?k (dropWhile isspace s), take ?k wd @ drop ?k mem, ?k, int n - int ?k)"
    using word_loop_spec [of "int n" 0 mem isalpha "dropWhile isspace s"] n by (simp add: Let_def assms)
  show "StrPopAlphaWord (Some s) (Some mem) (int n) = Some (Some (drop ?k (dropWhile isspace s)), Some (take (n - 1) wd @ nul # drop (min n (length wd + 1)) mem))"
  proof (cases "length wd < n")
    case True
    then show ?thesis using n l by (simp add: StrPopAlphaWord_def pop_word_def mem_write_def)
  next
    case False
    then show ?thesis using n l by (simp add: StrPopAlphaWord_def pop_word_def mem_write_def)
  qed
next
  have "pop_word_loop isalpha (dropWhile isspace s) mem 0 0 = Some (dropWhile isspace s, mem, 0, 0)"
    by (rule word_loop_full)
  then show "StrPopAlphaWord (Some s) (Some mem) 0 = None" by (simp add: StrPopAlphaWord_def pop_word_def)
qed

theorem words_popped_witness:
  "StrPopAlphaWord (Some '' abc 1'') (Some ''xxx'') 3 = Some (Some '' 1'', Some (''ab'' @ [nul]))"
proof -
  have w: "''abc'' = takeWhile isalpha (dropWhile isspace '' abc 1'')" "dropWhile isspace '' abc 1'' = ''abc 1''" by code_simp+
  show ?thesis using words_popped [OF w(1), of 3 "''xxx''"] unfolding w(2) by simp
qed

text \<open>
  Matching a pattern is documented to look at the beginning of the text and to return a null pointer when there is none. It takes the first occurrence anywhere
  and returns the position in any case.
\<close>

lemma match_anywhere:
  "StrMatch (Some (x @ pattern @ y)) pattern \<noteq> (None, None) \<and>
   (strstr s pattern = None \<longrightarrow> StrMatch (Some s) pattern = (Some s, Some s)) \<and>
   StrMatch (Some ''xdirligo'') ''dir'' = (Some ''ligo'', Some ''ligo'')"
  by (simp add: StrMatch_def Let_def)

text \<open>Random texts have the length and the characters that were asked for, except that the last character of the range never comes.\<close>

lemma random_text_range:
  assumes "0 \<le> len" "0 \<le> minChar" "minChar < maxChar" "maxChar \<le> 127"
  shows "\<exists>s. RandomString rand len minChar maxChar = Some s \<and> length s = nat len \<and>
    (\<forall>c\<in>set s. minChar \<le> int (of_char c) \<and> int (of_char c) < maxChar)"
proof -
  have "length (random_chars n minChar maxChar rand i) = n \<and>
      (\<forall>c\<in>set (random_chars n minChar maxChar rand i). minChar \<le> int (of_char c) \<and> int (of_char c) < maxChar)" for n i
  proof (induction n arbitrary: i)
    case (Suc n)
    define r where "r = int (rand i) mod (maxChar - minChar)"
    have r: "0 \<le> r" "r < maxChar - minChar" using assms(3) by (simp_all add: r_def)
    have "(minChar + r) mod 256 = minChar + r" using r assms by (intro mod_pos_pos_trivial) auto
    moreover have "(of_char (char_of (nat (minChar + r)) :: char) :: nat) = nat (minChar + r)" using r assms by (simp add: nat_less_iff)
    ultimately show ?case using Suc r assms by (simp flip: r_def)
  qed simp
  then show ?thesis using assms by (simp add: RandomString_def)
qed

end
