(* ===== verification/Net_Tcp.thy ===== *)
theory Net_Tcp
  imports Net_Request "HOL-Library.Sublist"
begin

text \<open>
  Connections of LibNet: the base class (\<^verbatim>\<open>NetConnection.cpp\<close>) and connections over TCP (\<^verbatim>\<open>NetTcpConnection.cpp\<close>, Linux), with the system calls as
  parameters. Requests are written over any transport that keeps the locale \<open>byte_link\<close>; a TCP connection keeps it over a kernel that keeps the
  locale \<open>tcp_kernel\<close>.
\<close>

section \<open>State\<close>

definition NET_STATE_DEAD :: int where "NET_STATE_DEAD = -1"
definition NET_STATE_PENDING :: int where "NET_STATE_PENDING = 1"
definition NET_STATE_LISTENING :: int where "NET_STATE_LISTENING = 2"
definition NET_STATE_ESTABLISHED :: int where "NET_STATE_ESTABLISHED = 3"

definition SD_SEND :: int where "SD_SEND = 1"
definition SD_BOTH :: int where "SD_BOTH = 2"
definition EWOULDBLOCK :: int where "EWOULDBLOCK = 11"

text \<open>
  The fields of the class, then: whether the pipe that cancels reads could be opened, the bytes in it, how often the socket was closed, whether the object is in the set of instances,
  and the outside.
\<close>

record 'w NetConnection =
  nc_ctx :: nat
  nc_protocol :: string
  nc_socket :: int
  nc_handler :: nat
  nc_refCount :: int
  nc_state :: int
  nc_quietMode :: int
  nc_thread :: "nat option"
  nc_clientInfo :: string
  nc_pipeOpen :: bool
  nc_pipe :: nat
  nc_closed :: nat
  nc_exists :: bool
  nc_world :: 'w

text \<open>
  \<^verbatim>\<open>send\<close> gives its result and the error number after the call, \<^verbatim>\<open>recv\<close> a result and bytes. Waiting is \<^verbatim>\<open>select\<close> for the socket with a limit in seconds and
  microseconds, or none; for reading it tells whether the socket is ready.
\<close>

record 'w tcp_os =
  t_send :: "'w \<Rightarrow> byte list \<Rightarrow> int \<times> int \<times> 'w"
  t_recv :: "'w \<Rightarrow> nat \<Rightarrow> int \<times> byte list \<times> 'w"
  t_waitw :: "'w \<Rightarrow> (int \<times> int) option \<Rightarrow> int \<times> 'w"
  t_waitr :: "'w \<Rightarrow> (int \<times> int) option \<Rightarrow> int \<times> bool \<times> 'w"
  t_shutdown :: "'w \<Rightarrow> int \<Rightarrow> int \<times> 'w"

definition NetConnection_new :: "nat \<Rightarrow> string option \<Rightarrow> int \<Rightarrow> nat \<Rightarrow> nat option \<Rightarrow> 'w \<Rightarrow> 'w NetConnection" where
  "NetConnection_new ctx protocol socket handler thread w =
     \<lparr>nc_ctx = ctx, nc_protocol = (case protocol of None \<Rightarrow> [] | Some p \<Rightarrow> p), nc_socket = socket, nc_handler = handler, nc_refCount = 1,
      nc_state = NET_STATE_PENDING, nc_quietMode = 0, nc_thread = thread, nc_clientInfo = ''N/A'', nc_pipeOpen = False, nc_pipe = 0, nc_closed = 0, nc_exists = True,
      nc_world = w\<rparr>"

text \<open>\<open>info\<close> is the printed address of the peer. A failure of \<^verbatim>\<open>pipe\<close> is only reported.\<close>

definition NetTcpConnection_new :: "nat \<Rightarrow> int \<Rightarrow> nat \<Rightarrow> string \<Rightarrow> nat option \<Rightarrow> bool \<Rightarrow> 'w \<Rightarrow> 'w NetConnection" where
  "NetTcpConnection_new ctx socket handler info thread pipeOk w =
     (NetConnection_new ctx (Some ''TCP/IP4'') socket handler None w)\<lparr>nc_clientInfo := take 63 info, nc_thread := thread, nc_pipeOpen := pipeOk\<rparr>"

text \<open>
  \<^verbatim>\<open>setState\<close> is declared to return an int but has no \<^verbatim>\<open>return\<close>: it stores the state, and what happens when it ends is undefined in C++ (recent compilers
  generate no code for it).
\<close>

definition NetConnection_setState :: "int \<Rightarrow> 'w NetConnection \<Rightarrow> 'w NetConnection run" where
  "NetConnection_setState state c = no_return (c\<lparr>nc_state := state\<rparr>)"

definition NetConnection_setThread :: "nat option \<Rightarrow> 'w NetConnection \<Rightarrow> 'w NetConnection" where
  "NetConnection_setThread thread c = c\<lparr>nc_thread := thread\<rparr>"

definition NetConnection_setQuietMode :: "int \<Rightarrow> 'w NetConnection \<Rightarrow> 'w NetConnection" where
  "NetConnection_setQuietMode v c = c\<lparr>nc_quietMode := v\<rparr>"

section \<open>TCP\<close>

partial_function (option) tcp_write_loop ::
    "'w tcp_os \<Rightarrow> byte list \<Rightarrow> int \<Rightarrow> nat \<Rightarrow> 'w \<Rightarrow> (int \<times> 'w) option" where
  "tcp_write_loop os d timeout totalWritten w =
     (case t_send os w (drop totalWritten d) of
        (written, e, w) \<Rightarrow>
          if written > 0 then
            let totalWritten = totalWritten + nat written in
            if totalWritten = length d then Some (int totalWritten, w) else tcp_write_loop os d timeout totalWritten w
          else if e = EWOULDBLOCK then
            (case t_waitw os w (if timeout > 0 then Some (timeout div 1000, timeout mod 1000 * 1000) else None) of
               (ret, w) \<Rightarrow> if ret \<le> 0 then Some (-1, w) else tcp_write_loop os d timeout totalWritten w)
          else Some (-1, w))"

definition NetTcpConnection_write :: "'w tcp_os \<Rightarrow> byte list \<Rightarrow> int \<Rightarrow> 'w NetConnection \<Rightarrow> (int \<times> 'w NetConnection) run" where
  "NetTcpConnection_write os d timeout c =
     (if nc_socket c \<noteq> -1 then map_option (\<lambda>(r, w). (r, c\<lparr>nc_world := w\<rparr>)) (tcp_write_loop os d timeout 0 (nc_world c)) else Some (0, c))"

text \<open>
  The limit of a read. Its microseconds are the whole time again; \<^verbatim>\<open>timeout * 1000\<close> can overflow. A failing \<^verbatim>\<open>select\<close> leaves
  its sets as they were, so that the read counts as cancelled, as it does whenever the pipe holds a byte. Without a pipe the number -1 is put into a set,
  which is undefined.
\<close>

definition read_limit :: "int \<Rightarrow> (int \<times> int) run" where
  "read_limit timeout =
     (if - int_max - 1 \<le> timeout * 1000 \<and> timeout * 1000 \<le> int_max then Some (sgn timeout * (\<bar>timeout\<bar> div 1000), timeout * 1000) else None)"

definition NetTcpConnection_read ::
    "'w tcp_os \<Rightarrow> nat \<Rightarrow> int \<Rightarrow> 'w NetConnection \<Rightarrow> (int \<times> byte list \<times> 'w NetConnection) run" where
  "NetTcpConnection_read os n timeout c =
     (if nc_socket c = -1 then Some (-1, [], c)
      else do {
        lim \<leftarrow> read_limit timeout;
        c \<leftarrow> (if nc_pipeOpen c then Some c else None);
        let (ret, ready, w) = t_waitr os (nc_world c) (if timeout = -1 then None else Some lim);
        let c = c\<lparr>nc_world := w\<rparr>;
        if nc_pipe c > 0 \<or> ret < 0 then Some (0, [], c)
        else if ready then
          (case t_recv os (nc_world c) n of (readed, bs, w) \<Rightarrow> Some (readed, bs, c\<lparr>nc_world := w\<rparr>))
        else Some (-1, [], c) })"

definition NetTcpConnection_cancel :: "'w NetConnection \<Rightarrow> 'w NetConnection" where
  "NetTcpConnection_cancel c = (if nc_pipeOpen c then c\<lparr>nc_pipe := nc_pipe c + 1\<rparr> else c)"

definition drain :: "'w tcp_os \<Rightarrow> 'w \<Rightarrow> 'w" where
  "drain os w = (case t_waitr os w (Some (0, 100000)) of
                   (ret, ready, w) \<Rightarrow> if ret > 0 \<and> ready then snd (snd (t_recv os w 64)) else w)"

definition NetTcpConnection_shutdown :: "'w tcp_os \<Rightarrow> int \<Rightarrow> 'w NetConnection \<Rightarrow> (int \<times> 'w NetConnection) run" where
  "NetTcpConnection_shutdown os how c =
     (if nc_state c = NET_STATE_DEAD then Some (-1, c)
      else do {
        c \<leftarrow> NetConnection_setState NET_STATE_DEAD c;
        let c = NetTcpConnection_cancel c;
        if nc_socket c = -1 then Some (-1, c)
        else do {
          let (ret, w) = t_shutdown os (nc_world c) how;
          let w = (if how = SD_SEND then drain os w else w);
          Some (ret, c\<lparr>nc_world := w, nc_closed := nc_closed c + 1, nc_socket := -1\<rparr>) } })"

section \<open>References\<close>

text \<open>The destructors of both classes; the thread of the connection is awaited.\<close>

definition NetTcpConnection_destroy :: "'w tcp_os \<Rightarrow> 'w NetConnection \<Rightarrow> 'w NetConnection run" where
  "NetTcpConnection_destroy os c = do {
     (_, c) \<leftarrow> NetTcpConnection_shutdown os SD_SEND c;
     Some (c\<lparr>nc_thread := None, nc_exists := False\<rparr>) }"

definition NetConnection_addRef :: "'w NetConnection \<Rightarrow> 'w NetConnection run" where
  "NetConnection_addRef c = (if nc_exists c then map_option (\<lambda>r. c\<lparr>nc_refCount := r\<rparr>) (cint_add (nc_refCount c) 1) else None)"

text \<open>Releasing looks first whether the object is one of the instances.\<close>

definition NetConnection_release :: "'w tcp_os \<Rightarrow> 'w NetConnection \<Rightarrow> 'w NetConnection run" where
  "NetConnection_release os c =
     (if \<not> nc_exists c then Some c
      else do {
        r \<leftarrow> cint_add (nc_refCount c) (-1);
        let c = c\<lparr>nc_refCount := r\<rparr>;
        if r = 0 then NetTcpConnection_destroy os c else Some c })"

section \<open>Waiting for a state\<close>

text \<open>The state belongs to other threads too: \<open>obs k\<close> is what the \<open>k\<close>-th look at it finds.\<close>

partial_function (option) wait_state_loop :: "(nat \<Rightarrow> int) \<Rightarrow> int \<Rightarrow> int \<Rightarrow> int \<Rightarrow> nat \<Rightarrow> int option" where
  "wait_state_loop obs state timeout timeLeft k =
     (if state \<noteq> obs k then
        let timeLeft = (if timeout > 0 then timeLeft - 100 else timeLeft) in
        if timeout > 0 \<and> timeLeft \<le> 0 then Some (-1)
        else if obs (k + 1) = NET_STATE_DEAD then Some (-1)
        else wait_state_loop obs state timeout timeLeft (k + 2)
      else Some 0)"

definition NetConnection_waitForState :: "(nat \<Rightarrow> int) \<Rightarrow> int \<Rightarrow> int \<Rightarrow> int option" where
  "NetConnection_waitForState obs state timeout = wait_state_loop obs state timeout timeout 0"

section \<open>Requests\<close>

text \<open>
  A request over the virtual methods \<open>rd\<close> and \<open>wr\<close>. The loop that reads the message takes \<open>n\<close> turns before the buffer of the caller
  is full.
\<close>

type_synonym 'c reader = "nat \<Rightarrow> int \<Rightarrow> 'c \<Rightarrow> (int \<times> byte list \<times> 'c) run"
type_synonym 'c writer = "byte list \<Rightarrow> int \<Rightarrow> 'c \<Rightarrow> (int \<times> 'c) run"

fun net_msg_loop :: "'c reader \<Rightarrow> int \<Rightarrow> nat \<Rightarrow> nat \<Rightarrow> byte list \<Rightarrow> 'c \<Rightarrow> (bool \<times> nat \<times> byte list \<times> 'c) run" where
  "net_msg_loop rd timeout n tot msg c = do {
     (r, bs, c) \<leftarrow> rd 1 timeout c;
     msg \<leftarrow> mem_write msg tot bs;
     if r \<noteq> 1 then Some (False, tot, msg, c)
     else (case n of
             0 \<Rightarrow> Some (False, tot, msg, c)
           | Suc n \<Rightarrow> if msg ! tot = 0 then Some (True, tot, msg, c) else net_msg_loop rd timeout n (tot + 1) msg c) }"

declare net_msg_loop.simps [simp del]

partial_function (option) net_flush :: "'c reader \<Rightarrow> int \<Rightarrow> byte list \<Rightarrow> 'c \<Rightarrow> 'c option" where
  "net_flush rd timeout buf c =
     (case rd 1 timeout c of
        None \<Rightarrow> None
      | Some (r, bs, c) \<Rightarrow>
          (case mem_write buf 0 bs of
             None \<Rightarrow> None
           | Some buf \<Rightarrow> if r \<le> 0 \<or> buf ! 0 = 0 then Some c else net_flush rd timeout buf c))"

definition net_answer ::
    "'c reader \<Rightarrow> (byte list \<times> int) option \<Rightarrow> int \<Rightarrow> byte list \<Rightarrow> 'c \<Rightarrow> (byte list option \<times> 'c) run" where
  "net_answer rd serverMsg timeout buf c = do {
     (eof, msg, c) \<leftarrow>
       (case serverMsg of
          None \<Rightarrow> Some (False, None, c)
        | Some (m, sz) \<Rightarrow>
            if sz > 0 then do {
              (eof, tot, m, c) \<leftarrow> net_msg_loop rd timeout (nat sz) 0 m c;
              m \<leftarrow> mem_write m tot [0];
              Some (eof, Some m, c) }
            else Some (False, Some m, c));
     c \<leftarrow> (if eof then Some c else net_flush rd timeout buf c);
     Some (msg, c) }"

definition NetConnection_request ::
    "'c reader \<Rightarrow> 'c writer \<Rightarrow> bool \<Rightarrow> (byte list \<times> int) option \<Rightarrow> int \<Rightarrow> byte list option \<Rightarrow> 'c \<Rightarrow>
      (int \<times> int option \<times> byte list option \<times> 'c) run" where
  "NetConnection_request rd wr codePtr serverMsg timeout fmt c =
     (if \<not> codePtr \<or> fmt = None then Some (-1, None, map_option fst serverMsg, c)
      else do {
     let cmd = the fmt;
     d \<leftarrow> mem_read (request_buffer cmd) 0 (length cmd + 1);
     (written, c) \<leftarrow> wr d timeout c;
     if written < 0 then Some (-1, None, map_option fst serverMsg, c) else do {
       (readed, bs, c) \<leftarrow> rd 5 timeout c;
       buf \<leftarrow> mem_write (request_buffer cmd) 0 bs;
       if readed \<noteq> 5 then Some (-1, None, map_option fst serverMsg, c) else do {
         let buf = buf[4 := 0];
         serverCode \<leftarrow> atoi (c_str (map (\<lambda>b. char_of (unat b)) (take 5 buf)));
         (msg, c) \<leftarrow> net_answer rd serverMsg timeout buf c;
         Some (0, Some serverCode, msg, c) } } })"

definition tcp_request ::
    "'w tcp_os \<Rightarrow> bool \<Rightarrow> (byte list \<times> int) option \<Rightarrow> int \<Rightarrow> byte list option \<Rightarrow> 'w NetConnection \<Rightarrow>
      (int \<times> int option \<times> byte list option \<times> 'w NetConnection) run" where
  "tcp_request os = NetConnection_request (NetTcpConnection_read os) (NetTcpConnection_write os)"


section \<open>Requests over a stream of bytes\<close>

text \<open>
  What a request relies on. \<open>inp\<close> is what the peer sends from now on, \<open>out\<close> what it has got, \<open>avail\<close> how much the next read can return at once;
  \<open>tm\<close> is the limit of time that the caller gives.
\<close>

locale byte_link =
  fixes rd :: "'c reader"
    and wr :: "'c writer"
    and inp :: "'c \<Rightarrow> byte list"
    and out :: "'c \<Rightarrow> byte list"
    and avail :: "'c \<Rightarrow> nat"
    and ok :: "'c \<Rightarrow> bool"
    and tm :: int
  assumes rd_law: "ok c \<Longrightarrow> inp c \<noteq> [] \<Longrightarrow> 0 < n \<Longrightarrow>
      \<exists>c'. rd n tm c = Some (int (min n (avail c)), take (min n (avail c)) (inp c), c') \<and>
        inp c' = drop (min n (avail c)) (inp c) \<and> out c' = out c \<and> ok c'"
    and avail_law: "ok c \<Longrightarrow> inp c \<noteq> [] \<Longrightarrow> 0 < avail c \<and> avail c \<le> length (inp c)"
    and wr_law: "ok c \<Longrightarrow> d \<noteq> [] \<Longrightarrow>
      \<exists>c'. wr d tm c = Some (int (length d), c') \<and> inp c' = inp c \<and> out c' = out c @ d \<and> ok c'"
begin

lemma rd_one:
  assumes "ok c" "inp c = b # q"
  obtains c' where "rd 1 tm c = Some (1, [b], c')" "inp c' = q" "out c' = out c" "ok c'"
proof -
  have "min 1 (avail c) = 1" using avail_law [OF assms(1)] assms(2) by simp
  then show thesis using rd_law [OF assms(1), of 1] assms(2) that by fastforce
qed

text \<open>A message that fits, with its zero.\<close>

lemma msg_loop_fits:
  assumes "ok c" "inp c = m @ 0 # q" "0 \<notin> set m" "length m < n" "tot + n \<le> length msg"
  shows "\<exists>c'. net_msg_loop rd tm n tot msg c = Some (True, tot + length m, take tot msg @ m @ [0] @ drop (tot + length m + 1) msg, c') \<and>
    inp c' = q \<and> out c' = out c \<and> ok c'"
  using assms
proof (induction m arbitrary: c n tot msg)
  case Nil
  obtain n' where n': "n = Suc n'" using Nil.prems(4) by (cases n) auto
  obtain c1 where "rd 1 tm c = Some (1, [0], c1)" "inp c1 = q" "out c1 = out c" "ok c1"
    using rd_one [OF Nil.prems(1)] Nil.prems(2) by auto
  then show ?case using Nil.prems n' by (subst net_msg_loop.simps) (simp add: mem_write_def nth_append)
next
  case (Cons b m)
  obtain n' where n': "n = Suc n'" using Cons.prems(4) by (cases n) auto
  obtain c1 where c1: "rd 1 tm c = Some (1, [b], c1)" "inp c1 = m @ 0 # q" "out c1 = out c" "ok c1"
    using rd_one [OF Cons.prems(1)] Cons.prems(2) by auto
  define msg' where "msg' = take tot msg @ b # drop (Suc tot) msg"
  have w: "mem_write msg tot [b] = Some msg'" "msg' ! tot = b" "length msg' = length msg"
    using Cons.prems(5) n' by (auto simp: mem_write_def msg'_def nth_append)
  have eq: "net_msg_loop rd tm n tot msg c = net_msg_loop rd tm n' (tot + 1) msg' c1"
    using c1(1) w Cons.prems(3) n' by (subst net_msg_loop.simps) simp
  have l: "length m < n'" "tot + 1 + n' \<le> length msg'" using Cons.prems(4,5) n' w(3) by simp_all
  have tk: "take (tot + 1) msg' = take tot msg @ [b]" "drop (tot + 1 + length m + 1) msg' = drop (tot + length (b # m) + 1) msg"
    using Cons.prems(5) n' by (simp_all add: msg'_def add.commute)
  have "0 \<notin> set m" using Cons.prems(3) by simp
  then show ?case unfolding eq using Cons.IH [OF c1(4,2) _ l] c1(3) unfolding tk by simp
qed

text \<open>A message that is as long as the target or longer is written past its end.\<close>

lemma msg_loop_past:
  assumes "ok c" "inp c = m @ b # q" "0 \<notin> set m" "length m = n" "tot + n = length msg"
  shows "net_msg_loop rd tm n tot msg c = None"
  using assms
proof (induction m arbitrary: c n tot msg)
  case Nil
  have "inp c = b # q" using Nil.prems(2) by simp
  then obtain c1 where "rd 1 tm c = Some (1, [b], c1)" using rd_one [OF Nil.prems(1)] by blast
  then show ?case using Nil.prems by (subst net_msg_loop.simps) (simp add: mem_write_def)
next
  case (Cons a m)
  obtain n' where n': "n = Suc n'" using Cons.prems(4) by (cases n) auto
  obtain c1 where c1: "rd 1 tm c = Some (1, [a], c1)" "inp c1 = m @ b # q" "ok c1"
    using rd_one [OF Cons.prems(1)] Cons.prems(2) by auto
  define msg' where "msg' = take tot msg @ a # drop (Suc tot) msg"
  have w: "mem_write msg tot [a] = Some msg'" "msg' ! tot = a" "length msg' = length msg"
    using Cons.prems(5) n' by (auto simp: mem_write_def msg'_def nth_append)
  have eq: "net_msg_loop rd tm n tot msg c = net_msg_loop rd tm n' (tot + 1) msg' c1"
    using c1(1) w Cons.prems(3) n' by (subst net_msg_loop.simps) simp
  have "length m = n'" "tot + 1 + n' = length msg'" using Cons.prems(4,5) n' w(3) by simp_all
  then show ?case unfolding eq using Cons.IH [OF c1(3,2)] Cons.prems(3) by simp
qed

text \<open>Without a target the message is skipped.\<close>

lemma flush_skips:
  assumes "ok c" "inp c = m @ 0 # q" "0 \<notin> set m" "0 < length buf"
  shows "\<exists>c'. net_flush rd tm buf c = Some c' \<and> inp c' = q \<and> out c' = out c \<and> ok c'"
  using assms
proof (induction m arbitrary: c buf)
  case Nil
  obtain c1 where "rd 1 tm c = Some (1, [0], c1)" "inp c1 = q" "out c1 = out c" "ok c1"
    using rd_one [OF Nil.prems(1)] Nil.prems(2) by auto
  then show ?case using Nil.prems(4) by (subst net_flush.simps) (simp add: mem_write_def Suc_le_eq)
next
  case (Cons b m)
  obtain c1 where c1: "rd 1 tm c = Some (1, [b], c1)" "inp c1 = m @ 0 # q" "out c1 = out c" "ok c1"
    using rd_one [OF Cons.prems(1)] Cons.prems(2) by auto
  have "net_flush rd tm buf c = net_flush rd tm (b # drop 1 buf) c1"
    using c1(1) Cons.prems(3,4) by (subst net_flush.simps) (auto simp: mem_write_def Suc_le_eq)
  then show ?case using Cons.IH [OF c1(4,2), of "b # drop 1 buf"] Cons.prems(3) c1(3) by simp
qed

text \<open>Sending the command and reading the prefix.\<close>

lemma request_prefix:
  assumes "ok c" "inp c = pre @ q" "length pre = 5" "length cmd \<le> 1022"
    "\<forall>c'. wr (cmd @ [0]) tm c = Some (int (length cmd + 1), c') \<longrightarrow> 5 \<le> avail c'"
  shows "\<exists>c' buf. NetConnection_request rd wr True serverMsg tm (Some cmd) c =
      do { (msg, c) \<leftarrow> net_answer rd serverMsg tm buf c'; Some (0, Some (answer_code pre), msg, c) } \<and>
    0 < length buf \<and> inp c' = q \<and> out c' = out c @ cmd @ [0] \<and> ok c'"
proof -
  obtain c1 where c1: "wr (cmd @ [0]) tm c = Some (int (length cmd + 1), c1)" "inp c1 = pre @ q" "out c1 = out c @ cmd @ [0]" "ok c1"
    using wr_law [OF assms(1), of "cmd @ [0]"] assms(2) by auto
  have a: "min 5 (avail c1) = 5" using c1(1) assms(5) by auto
  have ne: "inp c1 \<noteq> []" using c1(2) assms(3) by auto
  obtain c2 where c2: "rd 5 tm c1 = Some (5, pre, c2)" "inp c2 = q" "out c2 = out c @ cmd @ [0]" "ok c2"
    using rd_law [OF c1(4) ne, of 5] c1(2,3) assms(3) unfolding a by auto
  note b = request_buffer_cmd [OF assms(4)]
  define buf where "buf = (pre @ drop 5 (request_buffer cmd))[4 := 0]"
  have w: "mem_write (request_buffer cmd) 0 pre = Some (pre @ drop 5 (request_buffer cmd))" using b(2) assms(3) by (simp add: mem_write_def)
  have "NetConnection_request rd wr True serverMsg tm (Some cmd) c =
      do { (msg, c) \<leftarrow> net_answer rd serverMsg tm buf c2; Some (0, Some (answer_code pre), msg, c) }"
    using b(1) c1(1) c2(1) w answer_code_buffer [OF assms(3), of "drop 5 (request_buffer cmd)"]
    by (simp add: NetConnection_request_def buf_def)
  moreover have "0 < length buf" using assms(3) by (simp add: buf_def)
  ultimately show ?thesis using c2 by blast
qed

lemma request_with_text:
  assumes "ok c" "inp c = pre @ m @ 0 # q" "length pre = 5" "length cmd \<le> 1022" "0 \<notin> set m" "length m < n" "n \<le> length msg"
    "\<forall>c'. wr (cmd @ [0]) tm c = Some (int (length cmd + 1), c') \<longrightarrow> 5 \<le> avail c'"
  shows "\<exists>c'. NetConnection_request rd wr True (Some (msg, int n)) tm (Some cmd) c =
      Some (0, Some (answer_code pre), Some (m @ 0 # drop (length m + 1) msg), c') \<and>
    inp c' = q \<and> out c' = out c @ cmd @ [0] \<and> ok c'"
proof -
  obtain c1 buf where c1: "NetConnection_request rd wr True (Some (msg, int n)) tm (Some cmd) c =
      do { (msg, c) \<leftarrow> net_answer rd (Some (msg, int n)) tm buf c1; Some (0, Some (answer_code pre), msg, c) }"
    "inp c1 = m @ 0 # q" "out c1 = out c @ cmd @ [0]" "ok c1"
    using request_prefix [OF assms(1-4,8), of "Some (msg, int n)"] by auto
  have l: "0 + n \<le> length msg" using assms(7) by simp
  obtain c2 where c2: "net_msg_loop rd tm n 0 msg c1 = Some (True, length m, m @ [0] @ drop (length m + 1) msg, c2)"
    "inp c2 = q" "out c2 = out c @ cmd @ [0]" "ok c2"
    using msg_loop_fits [OF c1(4,2) assms(5,6) l] c1(3) by auto
  have "mem_write (m @ [0] @ drop (length m + 1) msg) (length m) [0] = Some (m @ 0 # drop (length m + 1) msg)"
    by (simp add: mem_write_def)
  then have "net_answer rd (Some (msg, int n)) tm buf c1 = Some (Some (m @ 0 # drop (length m + 1) msg), c2)"
    using c2(1) assms(6) by (simp add: net_answer_def)
  then show ?thesis using c1(1) c2 by simp
qed

lemma request_code_only:
  assumes "ok c" "inp c = pre @ m @ 0 # q" "length pre = 5" "length cmd \<le> 1022" "0 \<notin> set m"
    "\<forall>c'. wr (cmd @ [0]) tm c = Some (int (length cmd + 1), c') \<longrightarrow> 5 \<le> avail c'"
  shows "\<exists>c'. NetConnection_request rd wr True None tm (Some cmd) c = Some (0, Some (answer_code pre), None, c') \<and>
    inp c' = q \<and> out c' = out c @ cmd @ [0] \<and> ok c'"
proof -
  obtain c1 buf where c1: "NetConnection_request rd wr True None tm (Some cmd) c =
      do { (msg, c) \<leftarrow> net_answer rd None tm buf c1; Some (0, Some (answer_code pre), msg, c) }"
    "inp c1 = m @ 0 # q" "out c1 = out c @ cmd @ [0]" "ok c1" "0 < length buf"
    using request_prefix [OF assms(1-4,6), of None] by auto
  obtain c2 where "net_flush rd tm buf c1 = Some c2" "inp c2 = q" "out c2 = out c @ cmd @ [0]" "ok c2"
    using flush_skips [OF c1(4,2) assms(5) c1(5)] c1(3) by auto
  then show ?thesis using c1(1) by (simp add: net_answer_def)
qed

lemma request_overflows:
  assumes "ok c" "inp c = pre @ m @ b # q" "length pre = 5" "length cmd \<le> 1022" "0 \<notin> set m" "length m = length msg" "msg \<noteq> []"
    "\<forall>c'. wr (cmd @ [0]) tm c = Some (int (length cmd + 1), c') \<longrightarrow> 5 \<le> avail c'"
  shows "NetConnection_request rd wr True (Some (msg, int (length msg))) tm (Some cmd) c = None"
proof -
  obtain c1 buf where c1: "NetConnection_request rd wr True (Some (msg, int (length msg))) tm (Some cmd) c =
      do { (msg, c) \<leftarrow> net_answer rd (Some (msg, int (length msg))) tm buf c1; Some (0, Some (answer_code pre), msg, c) }"
    "inp c1 = m @ b # q" "ok c1"
    using request_prefix [OF assms(1-4,8), of "Some (msg, int (length msg))"] by auto
  have "net_msg_loop rd tm (length msg) 0 msg c1 = None" using msg_loop_past [OF c1(3,2) assms(5,6)] by simp
  then show ?thesis using c1(1) assms(7) by (simp add: net_answer_def)
qed

text \<open>A prefix that arrives in pieces is not understood, and its first piece is lost.\<close>

lemma request_cut_prefix:
  assumes "ok c" "inp c \<noteq> []" "length cmd \<le> 1022" "wr (cmd @ [0]) tm c = Some (int (length cmd + 1), c1)" "avail c1 < 5"
  shows "\<exists>c'. NetConnection_request rd wr True serverMsg tm (Some cmd) c = Some (-1, None, map_option fst serverMsg, c') \<and>
    inp c' = drop (avail c1) (inp c)"
proof -
  have c1: "inp c1 = inp c" "ok c1" using wr_law [OF assms(1), of "cmd @ [0]"] assms(4) by auto
  have m: "min 5 (avail c1) = avail c1" using assms(5) by simp
  obtain c2 where c2: "rd 5 tm c1 = Some (int (avail c1), take (avail c1) (inp c1), c2)" "inp c2 = drop (avail c1) (inp c)"
    using rd_law [OF c1(2), of 5] assms(2) unfolding c1(1) m by auto
  note b = request_buffer_cmd [OF assms(3)]
  have "\<exists>x. mem_write (request_buffer cmd) 0 (take (avail c1) (inp c1)) = Some x" using b(2) assms(5) by (simp add: mem_write_def)
  then show ?thesis using b(1) assms(4,5) c2 by (auto simp: NetConnection_request_def)
qed

end

section \<open>TCP keeps the contract\<close>

text \<open>A connection that can be used: it has a socket, and its pipe is open and empty.\<close>

definition tcp_open :: "'w NetConnection \<Rightarrow> bool" where
  "tcp_open c \<longleftrightarrow> nc_socket c \<noteq> -1 \<and> nc_pipeOpen c \<and> nc_pipe c = 0"

text \<open>
  What the kernel promises for a healthy connection. A write takes a part of the bytes or would block, and it does not block for ever (\<open>stalls\<close> counts how often in a row); \<open>seg\<close> is
  the length of the segment that the next read finds.
\<close>

locale tcp_kernel =
  fixes os :: "'w tcp_os"
    and kin kout :: "'w \<Rightarrow> byte list"
    and seg stalls :: "'w \<Rightarrow> nat"
  assumes send_law: "d \<noteq> [] \<Longrightarrow> t_send os w d = (n, e, w') \<Longrightarrow> kin w' = kin w \<and>
      (0 < n \<and> n \<le> int (length d) \<and> kout w' = kout w @ take (nat n) d \<or>
       n = -1 \<and> e = EWOULDBLOCK \<and> kout w' = kout w \<and> stalls w' < stalls w)"
    and waitw_law: "t_waitw os w None = (r, w') \<Longrightarrow> 0 < r \<and> kin w' = kin w \<and> kout w' = kout w \<and> stalls w' \<le> stalls w"
    and waitr_law: "kin w \<noteq> [] \<Longrightarrow>
      \<exists>w'. t_waitr os w None = (1, True, w') \<and> kin w' = kin w \<and> kout w' = kout w \<and> seg w' = seg w"
    and recv_law: "kin w \<noteq> [] \<Longrightarrow> 0 < m \<Longrightarrow>
      \<exists>w'. t_recv os w m = (int (min m (seg w)), take (min m (seg w)) (kin w), w') \<and> kin w' = drop (min m (seg w)) (kin w) \<and> kout w' = kout w"
    and seg_law: "kin w \<noteq> [] \<Longrightarrow> 0 < seg w \<and> seg w \<le> length (kin w)"
begin

lemma write_loop_all:
  assumes "k < length d"
  shows "\<exists>w'. tcp_write_loop os d (-1) k w = Some (int (length d), w') \<and> kin w' = kin w \<and> kout w' = kout w @ drop k d"
  using assms
proof (induction "(length d - k, stalls w)" arbitrary: k w rule: wf_induct_rule [OF wf_lex_prod [OF wf_measure [of id] wf_measure [of id]]])
  case (1 k w)
  have ne: "drop k d \<noteq> []" using 1(2) by simp
  obtain n e w1 where s: "t_send os w (drop k d) = (n, e, w1)" by (metis prod_cases3)
  note l = send_law [OF ne s]
  show ?case
  proof (cases "0 < n")
    case True
    define j where "j = k + nat n"
    have j: "j \<le> length d" "k < j" "kout w1 @ drop j d = kout w @ drop k d"
      using l True 1(2) append_take_drop_id [of "nat n" "drop k d"] by (auto simp: j_def add.commute)
    show ?thesis
    proof (cases "j = length d")
      case True
      then show ?thesis using s l j \<open>0 < n\<close> by (subst tcp_write_loop.simps) (auto simp: j_def Let_def)
    next
      case False
      then have "\<exists>w'. tcp_write_loop os d (-1) j w1 = Some (int (length d), w') \<and> kin w' = kin w1 \<and> kout w' = kout w1 @ drop j d"
        using 1(1) [of j w1] diff_less_mono2 [OF j(2), of "length d"] 1(2) j by simp
      then show ?thesis using s l j \<open>0 < n\<close> False by (subst tcp_write_loop.simps) (simp add: j_def Let_def)
    qed
  next
    case False
    obtain r w2 where w: "t_waitw os w1 None = (r, w2)" by (metis surj_pair)
    then have w2: "0 < r" "kin w2 = kin w" "kout w2 = kout w" "stalls w2 < stalls w" using waitw_law [OF w] l False by auto
    have "\<exists>w'. tcp_write_loop os d (-1) k w2 = Some (int (length d), w') \<and> kin w' = kin w2 \<and> kout w' = kout w2 @ drop k d"
      using 1(1) [of k w2] 1(2) w2(4) by simp
    then show ?thesis using s l w w2 False by (subst tcp_write_loop.simps) simp
  qed
qed

end

sublocale tcp_kernel \<subseteq> byte_link "NetTcpConnection_read os" "NetTcpConnection_write os" "\<lambda>c. kin (nc_world c)" "\<lambda>c. kout (nc_world c)"
  "\<lambda>c. seg (nc_world c)" tcp_open "-1"
proof unfold_locales
  fix c :: "'w NetConnection" and n :: nat
  assume c: "tcp_open c" and k: "kin (nc_world c) \<noteq> []" and n: "0 < n"
  obtain w1 where w1: "t_waitr os (nc_world c) None = (1, True, w1)" "kin w1 = kin (nc_world c)" "kout w1 = kout (nc_world c)" "seg w1 = seg (nc_world c)"
    using waitr_law [OF k] by blast
  then obtain w2 where "t_recv os w1 n = (int (min n (seg w1)), take (min n (seg w1)) (kin w1), w2)"
    "kin w2 = drop (min n (seg w1)) (kin w1)" "kout w2 = kout w1" using recv_law [of w1 n] k n by auto
  then show "\<exists>c'. NetTcpConnection_read os n (-1) c =
      Some (int (min n (seg (nc_world c))), take (min n (seg (nc_world c))) (kin (nc_world c)), c') \<and>
      kin (nc_world c') = drop (min n (seg (nc_world c))) (kin (nc_world c)) \<and> kout (nc_world c') = kout (nc_world c) \<and>
      tcp_open c'"
    using c w1 by (simp add: NetTcpConnection_read_def read_limit_def tcp_open_def)
next
  fix c :: "'w NetConnection"
  assume "kin (nc_world c) \<noteq> []"
  then show "0 < seg (nc_world c) \<and> seg (nc_world c) \<le> length (kin (nc_world c))" by (rule seg_law)
next
  fix c :: "'w NetConnection" and d :: "byte list"
  assume c: "tcp_open c" and d: "d \<noteq> []"
  then have "0 < length d" by simp
  from write_loop_all [OF this, of "nc_world c"]
  show "\<exists>c'. NetTcpConnection_write os d (-1) c = Some (int (length d), c') \<and> kin (nc_world c') = kin (nc_world c) \<and>
      kout (nc_world c') = kout (nc_world c) @ d \<and> tcp_open c'"
    using c by (auto simp: NetTcpConnection_write_def tcp_open_def)
qed

context tcp_kernel
begin

lemmas tcp_answered = request_with_text
lemmas tcp_overflows = request_overflows
lemmas tcp_cut_prefix = request_cut_prefix

end

section \<open>A kernel\<close>

text \<open>The script says how many bytes each send takes, zero for one that would block; input comes in segments.\<close>

record tcp_sock =
  ts_script :: "nat list"
  ts_out :: "byte list"
  ts_in :: "byte list list"

definition ts_segments :: "tcp_sock \<Rightarrow> byte list list" where
  "ts_segments w = dropWhile (\<lambda>s. s = []) (ts_in w)"

definition sock_send :: "tcp_sock \<Rightarrow> byte list \<Rightarrow> int \<times> int \<times> tcp_sock" where
  "sock_send w d =
     (case ts_script w of
        [] \<Rightarrow> (int (length d), 0, w\<lparr>ts_out := ts_out w @ d\<rparr>)
      | k # s \<Rightarrow> if k = 0 then (-1, EWOULDBLOCK, w\<lparr>ts_script := s\<rparr>)
                 else (int (min k (length d)), 0, w\<lparr>ts_script := s, ts_out := ts_out w @ take k d\<rparr>))"

definition sock_recv :: "tcp_sock \<Rightarrow> nat \<Rightarrow> int \<times> byte list \<times> tcp_sock" where
  "sock_recv w n =
     (case ts_segments w of
        [] \<Rightarrow> (0, [], w)
      | s # q \<Rightarrow> (int (min n (length s)), take n s, w\<lparr>ts_in := drop n s # q\<rparr>))"

definition tcp_sock_os :: "tcp_sock tcp_os" where
  "tcp_sock_os =
     \<lparr>t_send = sock_send, t_recv = sock_recv, t_waitw = (\<lambda>w _. (1, w)),
      t_waitr = (\<lambda>w _. if ts_segments w = [] then (0, False, w) else (1, True, w)), t_shutdown = (\<lambda>w _. (0, w))\<rparr>"

definition ts_seg :: "tcp_sock \<Rightarrow> nat" where
  "ts_seg w = (case ts_segments w of [] \<Rightarrow> 0 | s # _ \<Rightarrow> length s)"

lemma concat_dropWhile_Nil: "concat (dropWhile (\<lambda>s. s = []) xs) = concat xs"
  by (induction xs) auto

lemma ts_segments_concat: "concat (ts_segments w) = concat (ts_in w)"
  by (simp add: ts_segments_def concat_dropWhile_Nil)

lemma ts_segments_cases:
  assumes "concat (ts_in w) \<noteq> []"
  obtains s q where "ts_segments w = s # q" "s \<noteq> []"
proof (cases "ts_segments w")
  case (Cons s q)
  then have "s \<noteq> []" using hd_dropWhile [of "\<lambda>s. s = []" "ts_in w"] by (simp add: ts_segments_def)
  with Cons show thesis by (rule that)
next
  case Nil
  then show thesis using assms ts_segments_concat [of w] by simp
qed

interpretation tcp_sock: tcp_kernel tcp_sock_os "\<lambda>w. concat (ts_in w)" ts_out ts_seg "\<lambda>w. length (ts_script w)"
proof unfold_locales
  fix d w n e w'
  assume "d \<noteq> []" "t_send tcp_sock_os w d = (n, e, w')"
  then show "concat (ts_in w') = concat (ts_in w) \<and>
      (0 < n \<and> n \<le> int (length d) \<and> ts_out w' = ts_out w @ take (nat n) d \<or>
       n = -1 \<and> e = EWOULDBLOCK \<and> ts_out w' = ts_out w \<and> length (ts_script w') < length (ts_script w))"
    by (auto simp: tcp_sock_os_def sock_send_def min_def split: list.splits if_splits)
next
  fix w :: tcp_sock
  assume "concat (ts_in w) \<noteq> []"
  then show "\<exists>w'. t_waitr tcp_sock_os w None = (1, True, w') \<and> concat (ts_in w') = concat (ts_in w) \<and> ts_out w' = ts_out w \<and> ts_seg w' = ts_seg w"
    by (rule ts_segments_cases) (simp add: tcp_sock_os_def)
next
  fix w :: tcp_sock and m :: nat
  assume ne: "concat (ts_in w) \<noteq> []" and "0 < m"
  obtain s q where "ts_segments w = s # q" "s \<noteq> []" by (rule ts_segments_cases [OF ne])
  moreover from this have "concat (ts_in w) = s @ concat q" using ts_segments_concat [of w] by simp
  ultimately show "\<exists>w'. t_recv tcp_sock_os w m = (int (min m (ts_seg w)), take (min m (ts_seg w)) (concat (ts_in w)), w') \<and>
      concat (ts_in w') = drop (min m (ts_seg w)) (concat (ts_in w)) \<and> ts_out w' = ts_out w"
    by (simp add: tcp_sock_os_def sock_recv_def ts_seg_def min_def)
next
  fix w :: tcp_sock
  assume ne: "concat (ts_in w) \<noteq> []"
  obtain s q where "ts_segments w = s # q" "s \<noteq> []" by (rule ts_segments_cases [OF ne])
  moreover from this have "concat (ts_in w) = s @ concat q" using ts_segments_concat [of w] by simp
  ultimately show "0 < ts_seg w \<and> ts_seg w \<le> length (concat (ts_in w))" by (simp add: ts_seg_def)
qed (auto simp: tcp_sock_os_def)

section \<open>Cancelled reads\<close>

fun tcp_reads :: "'w tcp_os \<Rightarrow> (nat \<times> int) list \<Rightarrow> 'w NetConnection \<Rightarrow> ((int \<times> byte list) list \<times> 'w NetConnection) run" where
  "tcp_reads os [] c = Some ([], c)"
| "tcp_reads os ((n, timeout) # rs) c = do {
     (r, bs, c) \<leftarrow> NetTcpConnection_read os n timeout c;
     (xs, c) \<leftarrow> tcp_reads os rs c;
     Some ((r, bs) # xs, c) }"

text \<open>Nothing ever empties the pipe: reads do not, whatever they find.\<close>

lemma cancelled_reads:
  assumes "nc_socket c \<noteq> -1" "nc_pipeOpen c" "0 < nc_pipe c" "\<forall>(n, t)\<in>set rs. read_limit t \<noteq> None"
  shows "\<exists>c'. tcp_reads os rs c = Some (replicate (length rs) (0, []), c')"
  using assms
proof (induction rs arbitrary: c)
  case (Cons r rs)
  obtain n t lim where r: "r = (n, t)" "read_limit t = Some lim" using Cons.prems(4) by (cases r) auto
  obtain ret ready w where w: "t_waitr os (nc_world c) (if t = -1 then None else Some lim) = (ret, ready, w)" by (metis prod_cases3)
  then have "NetTcpConnection_read os n t c = Some (0, [], c\<lparr>nc_world := w\<rparr>)"
    using Cons.prems(1-3) r(2) by (simp add: NetTcpConnection_read_def)
  then show ?case using Cons.IH [of "c\<lparr>nc_world := w\<rparr>"] Cons.prems r(1) by auto
qed simp

section \<open>Waiting\<close>

text \<open>From look \<open>2 * k\<close> on, the state is found in turn \<open>i\<close> and the connection was not found dead before.\<close>

definition seen_at :: "(nat \<Rightarrow> int) \<Rightarrow> int \<Rightarrow> nat \<Rightarrow> nat \<Rightarrow> bool" where
  "seen_at obs state k i \<longleftrightarrow> obs (2 * (k + i)) = state \<and> (\<forall>j<i. obs (2 * (k + j) + 1) \<noteq> NET_STATE_DEAD)"

lemma seen_at_0 [simp]: "seen_at obs state k 0 \<longleftrightarrow> obs (2 * k) = state"
  by (simp add: seen_at_def)

lemma seen_at_Suc: "seen_at obs state k (Suc i) \<longleftrightarrow> obs (2 * k + 1) \<noteq> NET_STATE_DEAD \<and> seen_at obs state (Suc k) i"
  by (auto simp: seen_at_def All_less_Suc2)

lemma ex_less_Suc: "(\<exists>i<Suc n. P i) \<longleftrightarrow> P 0 \<or> (\<exists>i<n. P (Suc i))"
  by (auto simp: less_Suc_eq_0_disj)

lemma wait_limited:
  assumes "0 < timeout" "0 < timeLeft" "(timeLeft + 99) div 100 = int n"
  shows "wait_state_loop obs state timeout timeLeft (2 * k) = Some (if \<exists>i<n. seen_at obs state k i then 0 else -1)"
  using assms(2,3)
proof (induction n arbitrary: timeLeft k)
  case 0
  then have "timeLeft + 99 < 100" by simp
  then show ?case using 0 by simp
next
  case (Suc n)
  note ex = ex_less_Suc [of n "seen_at obs state k"]
  have n: "(timeLeft - 100 + 99) div 100 = int n" using Suc.prems(2) by simp
  have n0: "n = 0" if "timeLeft - 100 \<le> 0" using that n by simp
  have u: "wait_state_loop obs state timeout timeLeft (2 * k) =
      (if obs (2 * k) = state then Some 0 else if timeLeft - 100 \<le> 0 \<or> obs (2 * k + 1) = NET_STATE_DEAD then Some (-1)
       else wait_state_loop obs state timeout (timeLeft - 100) (2 * k + 2))"
    using assms(1) by (subst wait_state_loop.simps) (simp add: Let_def eq_commute)
  show ?case
  proof (cases "obs (2 * k) = state \<or> timeLeft - 100 \<le> 0 \<or> obs (2 * k + 1) = NET_STATE_DEAD")
    case True
    then show ?thesis unfolding u ex using n0 by (cases "timeLeft - 100 \<le> 0"; cases "obs (2 * k) = state") (simp_all add: seen_at_Suc)
  next
    case False
    then have "wait_state_loop obs state timeout timeLeft (2 * k) = wait_state_loop obs state timeout (timeLeft - 100) (2 * Suc k)"
      unfolding u by simp
    also have "\<dots> = Some (if \<exists>i<n. seen_at obs state (Suc k) i then 0 else -1)" using Suc.IH [of "timeLeft - 100" "Suc k"] n False by simp
    finally show ?thesis using False unfolding ex by (simp add: seen_at_Suc)
  qed
qed

lemma wait_unlimited:
  assumes "timeout \<le> 0" "\<forall>k. obs k \<noteq> state \<and> obs k \<noteq> NET_STATE_DEAD"
  shows "wait_state_loop obs state timeout timeLeft k = None"
proof (cases "wait_state_loop obs state timeout timeLeft k")
  case (Some r)
  have "\<not> (timeout \<le> 0 \<and> (\<forall>k. obs k \<noteq> state \<and> obs k \<noteq> NET_STATE_DEAD))"
  proof (rule wait_state_loop.raw_induct [OF _ Some, where P = "\<lambda>obs state timeout timeLeft k r. \<not> (timeout \<le> 0 \<and> (\<forall>k. obs k \<noteq> state \<and> obs k \<noteq> NET_STATE_DEAD))"],
      goal_cases step)
    case (step f obs state timeout timeLeft k r)
    show ?case
    proof
      assume a: "timeout \<le> 0 \<and> (\<forall>k. obs k \<noteq> state \<and> obs k \<noteq> NET_STATE_DEAD)"
      then have "state \<noteq> obs k" "obs (k + 1) \<noteq> NET_STATE_DEAD" using not_sym [of "obs k" state] by simp_all
      then have "f obs state timeout timeLeft (k + 2) = Some r" using step(2) a by simp
      from step(1) [OF this] a show False by contradiction
    qed
  qed
  then show ?thesis using assms by simp
qed

section \<open>Properties\<close>

text \<open>
  Property C37. Requests over TCP without a limit of time. On an open connection whose kernel delivers what the peer sends and finally takes what is written, and whose peer answers with a prefix of five bytes (a code of three digits and two more)
  and a text with a final zero, a request with a command of at most 1022 bytes sends exactly the
  command with its zero, returns 0, the code and the text in the buffer of the caller, and leaves the rest of the stream to the next request, however the text is cut into segments and however often sending would block. The
  five bytes of the prefix must be there at once when they are read (TCP does not promise this), and the text must be shorter than the buffer.
\<close>

theorem tcp_request_answered:
  assumes "tcp_kernel os kin kout seg stalls" "tcp_open c" "kin (nc_world c) = pre @ m @ 0 # q" "length pre = 5"
    "length cmd \<le> 1022" "0 \<notin> set m" "length m < n" "n \<le> length msg"
    "\<forall>c'. NetTcpConnection_write os (cmd @ [0]) (-1) c = Some (int (length cmd + 1), c') \<longrightarrow> 5 \<le> seg (nc_world c')"
  shows "\<exists>c'. tcp_request os True (Some (msg, int n)) (-1) (Some cmd) c =
      Some (0, Some (answer_code pre), Some (m @ 0 # drop (length m + 1) msg), c') \<and>
    kin (nc_world c') = q \<and> kout (nc_world c') = kout (nc_world c) @ cmd @ [0] \<and> tcp_open c'"
  unfolding tcp_request_def using tcp_kernel.tcp_answered [OF assms] by simp

theorem tcp_request_answered_witness:
  "let w = \<lparr>ts_script = [2, 0], ts_out = [], ts_in = [[50, 48, 48, 62, 32], [79], [75, 0, 7]]\<rparr>;
       c = NetTcpConnection_new 0 4 0 ''10.0.0.1:80'' None True w
   in \<exists>c'. tcp_request tcp_sock_os True (Some ([1, 1, 1, 1], 4)) (-1) (Some [104, 105]) c = Some (0, Some 200, Some [79, 75, 0, 1], c') \<and>
        concat (ts_in (nc_world c')) = [7] \<and> ts_out (nc_world c') = [104, 105, 0]"
proof -
  let ?w = "\<lparr>ts_script = [2, 0], ts_out = [], ts_in = [[50, 48, 48, 62, 32], [79], [75, 0, 7]]\<rparr>"
  let ?c = "NetTcpConnection_new 0 4 0 ''10.0.0.1:80'' None True ?w"
  have code: "answer_code [50, 48, 48, 62, 32] = 200" by code_simp
  have f: "tcp_open ?c" "nc_world ?c = ?w" by (simp_all add: NetTcpConnection_new_def NetConnection_new_def tcp_open_def)
  have wr: "tcp_write_loop tcp_sock_os [104, 105, 0] (-1) 0 ?w = Some (3, ?w\<lparr>ts_script := [], ts_out := [104, 105, 0]\<rparr>)"
    by (simp add: tcp_write_loop.simps tcp_sock_os_def sock_send_def)
  have seg: "\<forall>c'. NetTcpConnection_write tcp_sock_os ([104, 105] @ [0]) (-1) ?c = Some (int (length [104, 105 :: byte] + 1), c') \<longrightarrow>
      5 \<le> ts_seg (nc_world c')"
    using f by (simp add: NetTcpConnection_write_def tcp_open_def wr ts_seg_def ts_segments_def)
  have i: "concat (ts_in (nc_world ?c)) = [50, 48, 48, 62, 32] @ [79, 75] @ 0 # [7]" by (simp add: f(2))
  show ?thesis using tcp_request_answered [OF tcp_sock.tcp_kernel_axioms f(1) i _ _ _ _ _ seg, of 4 "[1, 1, 1, 1]"]
    by (auto simp: code f(2))
qed

text \<open>
  Property C38. Where requests over TCP fail, on an open connection and without a limit of time: a text that is as long as the buffer of the caller, or longer, is written past its end when the prefix comes at once; a prefix that comes in pieces makes
  the request fail and its first piece is lost; after a cancelled operation every later read returns 0 without looking at the socket, however many there are and whatever their limits of time, because the pipe is never emptied; and
  writing to a connection without a socket returns 0, not -1.
\<close>

theorem tcp_request_defects:
  assumes "tcp_kernel os kin kout seg stalls" "tcp_open c" "kin (nc_world c) = pre @ m @ b # q" "length pre = 5"
    "length cmd \<le> 1022" "0 \<notin> set m" "length m = length msg" "msg \<noteq> []"
    "NetTcpConnection_write os (cmd @ [0]) (-1) c = Some (int (length cmd + 1), c1)" "\<forall>(n, t)\<in>set rs. read_limit t \<noteq> None"
  shows "(5 \<le> seg (nc_world c1) \<longrightarrow> tcp_request os True (Some (msg, int (length msg))) (-1) (Some cmd) c = None) \<and>
    (seg (nc_world c1) < 5 \<longrightarrow> (\<exists>c'. tcp_request os True serverMsg (-1) (Some cmd) c = Some (-1, None, map_option fst serverMsg, c') \<and>
      kin (nc_world c') = drop (seg (nc_world c1)) (kin (nc_world c)))) \<and>
    (\<exists>c'. tcp_reads os rs (NetTcpConnection_cancel c) = Some (replicate (length rs) (0, []), c')) \<and>
    NetTcpConnection_write os d t (c\<lparr>nc_socket := -1\<rparr>) = Some (0, c\<lparr>nc_socket := -1\<rparr>)"
proof (intro conjI impI)
  show "tcp_request os True (Some (msg, int (length msg))) (-1) (Some cmd) c = None" if "5 \<le> seg (nc_world c1)"
    unfolding tcp_request_def using tcp_kernel.tcp_overflows [OF assms(1-8)] assms(9) that by simp
  show "\<exists>c'. tcp_request os True serverMsg (-1) (Some cmd) c = Some (-1, None, map_option fst serverMsg, c') \<and>
      kin (nc_world c') = drop (seg (nc_world c1)) (kin (nc_world c))" if "seg (nc_world c1) < 5"
    unfolding tcp_request_def using tcp_kernel.tcp_cut_prefix [OF assms(1,2) _ assms(5,9) that] assms(3) by simp
  show "\<exists>c'. tcp_reads os rs (NetTcpConnection_cancel c) = Some (replicate (length rs) (0, []), c')"
    using assms(2) by (intro cancelled_reads assms(10)) (simp_all add: tcp_open_def NetTcpConnection_cancel_def)
  show "NetTcpConnection_write os d t (c\<lparr>nc_socket := -1\<rparr>) = Some (0, c\<lparr>nc_socket := -1\<rparr>)"
    by (simp add: NetTcpConnection_write_def)
qed

text \<open>The same answer in one segment and in two.\<close>

theorem tcp_request_defects_witness:
  "let w = \<lparr>ts_script = [], ts_out = [], ts_in = [[50, 48, 48, 62, 32, 79, 75, 0]]\<rparr>; c = NetTcpConnection_new 0 4 0 [] None True w;
       w2 = w\<lparr>ts_in := [[50, 48], [48, 62, 32, 79, 75, 0]]\<rparr>; c2 = NetTcpConnection_new 0 4 0 [] None True w2
   in tcp_request tcp_sock_os True (Some ([1, 1], 2)) (-1) (Some [104]) c = None \<and>
      (\<exists>c'. tcp_request tcp_sock_os True None (-1) (Some [104]) c2 = Some (-1, None, None, c') \<and> concat (ts_in (nc_world c')) = [48, 62, 32, 79, 75, 0]) \<and>
      (\<exists>c'. tcp_reads tcp_sock_os [(5, -1), (1, 100), (9, -1)] (NetTcpConnection_cancel c) = Some ([(0, []), (0, []), (0, [])], c'))"
proof -
  define c where "c ins = NetTcpConnection_new 0 4 0 [] None True \<lparr>ts_script = [], ts_out = [], ts_in = ins\<rparr>" for ins
  have f: "tcp_open (c ins)" "nc_world (c ins) = \<lparr>ts_script = [], ts_out = [], ts_in = ins\<rparr>" for ins
    by (simp_all add: c_def NetTcpConnection_new_def NetConnection_new_def tcp_open_def)
  have i: "concat (ts_in (nc_world (c [[50, 48, 48, 62, 32, 79, 75, 0]]))) = [50, 48, 48, 62, 32] @ [79, 75] @ 0 # []"
    "concat (ts_in (nc_world (c [[50, 48], [48, 62, 32, 79, 75, 0]]))) = [50, 48, 48, 62, 32] @ [79, 75] @ 0 # []" by (simp_all add: f(2))
  have wr: "NetTcpConnection_write tcp_sock_os ([104] @ [0]) (-1) (c ins) =
      Some (int (length [104 :: byte] + 1), (c ins)\<lparr>nc_world := \<lparr>ts_script = [], ts_out = [104, 0], ts_in = ins\<rparr>\<rparr>)" for ins
    using f [of ins] by (simp add: NetTcpConnection_write_def tcp_open_def tcp_write_loop.simps tcp_sock_os_def sock_send_def)
  have rl: "\<forall>(n, t)\<in>set [(5 :: nat, -1 :: int), (1, 100), (9, -1)]. read_limit t \<noteq> None" by (simp add: read_limit_def)
  note d1 = tcp_request_defects [OF tcp_sock.tcp_kernel_axioms f(1) i(1) _ _ _ _ _ wr rl, where msg = "[1, 1]"]
  note d2 = tcp_request_defects [OF tcp_sock.tcp_kernel_axioms f(1) i(2) _ _ _ _ _ wr rl, where msg = "[1, 1]" and serverMsg = None]
  show ?thesis using d1 d2 unfolding Let_def c_def [symmetric]
    by (simp add: ts_seg_def ts_segments_def f(2) c_def [symmetric] del: tcp_reads.simps)
qed

text \<open>
  Waiting for a state of a connection ends when there is a limit: it returns 0 exactly if the state is found in one of the first looks, one per 100 ms that have begun, and the connection
  was not found dead before, and -1 otherwise. Without a limit, which is what a limit of 0 means too, it never returns if neither happens.
\<close>

theorem net_wait_state:
  "(0 < timeout \<longrightarrow> NetConnection_waitForState obs state timeout =
      Some (if \<exists>i<nat ((timeout + 99) div 100). seen_at obs state 0 i then 0 else -1)) \<and>
   (timeout \<le> 0 \<and> (\<forall>k. obs k \<noteq> state \<and> obs k \<noteq> NET_STATE_DEAD) \<longrightarrow> NetConnection_waitForState obs state timeout = None)"
  using wait_limited [of timeout timeout "nat ((timeout + 99) div 100)" obs state 0] wait_unlimited [of timeout obs state timeout 0]
  by (auto simp: NetConnection_waitForState_def)

theorem net_wait_state_witness:
  "NetConnection_waitForState (\<lambda>k. if k < 4 then 1 else 3) 3 250 = Some 0 \<and> NetConnection_waitForState (\<lambda>k. if k < 4 then 1 else 3) 3 200 = Some (-1) \<and>
   NetConnection_waitForState (\<lambda>_. 1) 3 0 = None"
proof -
  have n: "nat ((250 + 99) div 100) = 3" "nat ((200 + 99) div 100) = 2" by simp_all
  have s: "seen_at (\<lambda>k. if k < 4 then 1 else 3) 3 0 2" by (simp add: seen_at_def NET_STATE_DEAD_def)
  then have e: "\<exists>i<3. seen_at (\<lambda>k. if k < 4 then 1 else 3) 3 0 i" by (intro exI [of _ 2]) simp
  have t: "\<not> (\<exists>i<2. seen_at (\<lambda>k. if k < 4 then 1 else 3) 3 0 i)" by (auto simp: seen_at_def)
  show ?thesis using net_wait_state [of 250 "\<lambda>k. if k < 4 then 1 else 3" 3] net_wait_state [of 200 "\<lambda>k. if k < 4 then 1 else 3" 3]
      net_wait_state [of 0 "\<lambda>_. 1" 3] e t unfolding n by (auto simp: NET_STATE_DEAD_def)
qed

end
