(* ===== verification/Net_Smtp.thy ===== *)
theory Net_Smtp
  imports Net_Tcp
begin

unbundle bit_operations_syntax

text \<open>
  Sending of mail (\<^verbatim>\<open>LibNet/SMTP.cpp\<close>) over a connection, with the base64 encoder (\<^verbatim>\<open>NetBase64\<close> of \<^verbatim>\<open>LibNet/Utils.cpp\<close>). The connection is given by its virtual
  methods. What the sender relies on is the locale \<open>answer_link\<close>: every answer of the server comes with one read and every write is taken whole.
\<close>

section \<open>Base64\<close>

definition b64_charset :: string where
  "b64_charset = ''ABCDEFGHIJKLMNOPQRSTUVWXYZabcdefghijklmnopqrstuvwxyz0123456789+/''"

text \<open>The four numbers of a block of three bytes.\<close>

definition block_4 :: "byte list \<Rightarrow> byte list" where
  "block_4 b =
     [drop_bit 2 (b ! 0 AND 0xfc),
      push_bit 4 (b ! 0 AND 0x03) + drop_bit 4 (b ! 1 AND 0xf0),
      push_bit 2 (b ! 1 AND 0x0f) + drop_bit 6 (b ! 2 AND 0xc0),
      b ! 2 AND 0x3f]"

definition b64_text :: "byte list \<Rightarrow> string" where
  "b64_text xs = map (\<lambda>x. b64_charset ! unat x) xs"

fun b64_loop :: "byte list \<Rightarrow> byte list \<Rightarrow> string \<Rightarrow> byte list \<times> string" where
  "b64_loop [] block_3 ret = (block_3, ret)"
| "b64_loop (x # str) block_3 ret =
     (let block_3 = block_3 @ [x] in
      if length block_3 = 3 then b64_loop str [] (ret @ b64_text (block_4 block_3)) else b64_loop str block_3 ret)"

definition NetBase64 :: "byte list \<Rightarrow> int \<Rightarrow> string run" where
  "NetBase64 data sz =
     (if sz < 0 then None
      else do {
        str \<leftarrow> mem_read data 0 (nat sz);
        let (block_3, ret) = b64_loop str [] [];
        let i = length block_3;
        Some (if i \<noteq> 0 then
                ret @ b64_text (take (i + 1) (block_4 (block_3 @ replicate (3 - i) 0))) @ replicate (3 - i) (CHR ''='')
              else ret) })"

section \<open>Answers of the server\<close>

definition bytes_of :: "string \<Rightarrow> byte list" where
  "bytes_of s = map (\<lambda>c. of_nat (of_char c)) s"

definition text_of :: "byte list \<Rightarrow> string" where
  "text_of bs = map (\<lambda>b. char_of (unat b)) bs"

text \<open>The sender: its buffer of 512 bytes, the last code and the connection.\<close>

record 'c smtp =
  sm_buf :: "byte list"
  sm_code :: int
  sm_conn :: 'c

definition crlf :: string where "crlf = [CHR 0x0D, CHR 0x0A]"

definition SMTP_EHLO :: string where "SMTP_EHLO = ''EHLO Dirligo'' @ crlf"
definition SMTP_AUTH_LOGIN :: string where "SMTP_AUTH_LOGIN = ''AUTH LOGIN'' @ crlf"
definition SMTP_DATA :: string where "SMTP_DATA = ''DATA'' @ crlf"
definition SMTP_END :: string where "SMTP_END = crlf @ ''.'' @ crlf"
definition SMTP_RSET :: string where "SMTP_RSET = ''RSET'' @ crlf"
definition SMTP_QUIT :: string where "SMTP_QUIT = ''QUIT'' @ crlf"
definition SMTP_BASE64_USER :: string where "SMTP_BASE64_USER = ''334 VXNlcm5hbWU6''"
definition SMTP_BASE64_PASS :: string where "SMTP_BASE64_PASS = ''334 UGFzc3dvcmQ6''"

text \<open>\<^verbatim>\<open>SMTP_HEAD_FMT\<close> with its arguments.\<close>

definition smtp_head :: "string \<Rightarrow> string \<Rightarrow> string \<Rightarrow> string \<Rightarrow> string" where
  "smtp_head fromFull from receiver subject =
     ''From: '' @ fromFull @ '' <'' @ from @ ''>'' @ crlf @ ''To: <'' @ receiver @ ''>'' @ crlf @ ''Subject: '' @ subject @ crlf @
     ''Content-Type: text/plain'' @ crlf @ ''Mime-Version: 1.0'' @ crlf @ ''X-Mailer: Dirligo'' @ crlf @
     ''Content-Transfer-Encoding: 7bit'' @ crlf @ crlf"

definition smtp_group :: "int \<Rightarrow> int" where
  "smtp_group code = sgn code * (\<bar>code\<bar> div 100)"

definition NetSmtpReadServerAnswer :: "'c reader \<Rightarrow> 'c smtp \<Rightarrow> (bool \<times> 'c smtp) run" where
  "NetSmtpReadServerAnswer rd s = do {
     msg \<leftarrow> mem_write (sm_buf s) 0 [0];
     (readed, bs, c) \<leftarrow> rd (length msg) (-1) (sm_conn s);
     msg \<leftarrow> mem_write msg 0 bs;
     if readed \<le> 0 then Some (False, s\<lparr>sm_buf := msg, sm_conn := c\<rparr>)
     else do {
       msg \<leftarrow> mem_write msg (nat readed - 1) [0];
       smtpCode \<leftarrow> atoi (c_str (text_of msg));
       Some (smtp_group smtpCode = 2 \<or> smtp_group smtpCode = 3, s\<lparr>sm_buf := msg, sm_code := smtpCode, sm_conn := c\<rparr>) } }"

section \<open>The dialogue\<close>

text \<open>Statements that may jump to the error handler, one after the other.\<close>

definition andthen :: "('s \<Rightarrow> (bool \<times> 's) run) \<Rightarrow> ('s \<Rightarrow> (bool \<times> 's) run) \<Rightarrow> 's \<Rightarrow> (bool \<times> 's) run" where
  "andthen f g s = do { (ok, s) \<leftarrow> f s; if ok then g s else Some (False, s) }"

fun all_of :: "('s \<Rightarrow> (bool \<times> 's) run) list \<Rightarrow> 's \<Rightarrow> (bool \<times> 's) run" where
  "all_of [] s = Some (True, s)"
| "all_of (f # fs) s = andthen f (all_of fs) s"

text \<open>Writing of a text, where \<open>good\<close> says which results are accepted, and formatting into the buffer, of which the formatting uses \<open>n\<close> bytes, before writing as many bytes as the text has.\<close>

definition smtp_say :: "'c writer \<Rightarrow> (int \<Rightarrow> bool) \<Rightarrow> string \<Rightarrow> 'c smtp \<Rightarrow> (bool \<times> 'c smtp) run" where
  "smtp_say wr good t s = do { (written, c) \<leftarrow> wr (bytes_of t) (-1) (sm_conn s); Some (good written, s\<lparr>sm_conn := c\<rparr>) }"

definition smtp_print :: "'c writer \<Rightarrow> (int \<Rightarrow> bool) \<Rightarrow> nat \<Rightarrow> string \<Rightarrow> 'c smtp \<Rightarrow> (bool \<times> 'c smtp) run" where
  "smtp_print wr good n t s = do {
     buf \<leftarrow> mem_write (sm_buf s) 0 (bytes_of (take (n - 1) t) @ [0]);
     d \<leftarrow> mem_read buf 0 (length t);
     (written, c) \<leftarrow> wr d (-1) (sm_conn s);
     Some (good written, s\<lparr>sm_buf := buf, sm_conn := c\<rparr>) }"

abbreviation any_result :: "int \<Rightarrow> bool" where
  "any_result \<equiv> \<lambda>_. True"

text \<open>One turn of the authentication.\<close>

definition smtp_auth :: "'c reader \<Rightarrow> 'c writer \<Rightarrow> string \<Rightarrow> string \<Rightarrow> 'c smtp \<Rightarrow> (bool \<times> 'c smtp) run" where
  "smtp_auth rd wr login password =
     andthen (NetSmtpReadServerAnswer rd) (\<lambda>s.
       let t = c_str (text_of (sm_buf s)) in
       if prefix SMTP_BASE64_USER t then do {
         hash \<leftarrow> NetBase64 (bytes_of login) (int (length login));
         smtp_print wr any_result 512 (hash @ crlf) s }
       else if prefix SMTP_BASE64_PASS t then do {
         hash \<leftarrow> NetBase64 (bytes_of password) (int (length password));
         smtp_print wr any_result 512 (hash @ crlf) s }
       else Some (False, s))"

definition smtp_rcpt :: "'c reader \<Rightarrow> 'c writer \<Rightarrow> string \<Rightarrow> 'c smtp \<Rightarrow> (bool \<times> 'c smtp) run" where
  "smtp_rcpt rd wr receiver =
     andthen (smtp_print wr (\<lambda>r. r > 0) 511 (''RCPT TO: <'' @ receiver @ ''>'' @ crlf)) (NetSmtpReadServerAnswer rd)"

definition smtp_session ::
    "'c reader \<Rightarrow> 'c writer \<Rightarrow> string \<Rightarrow> string \<Rightarrow> string \<Rightarrow> string list \<Rightarrow> string \<Rightarrow> string \<Rightarrow> string \<Rightarrow> 'c smtp \<Rightarrow> (bool \<times> 'c smtp) run" where
  "smtp_session rd wr from fromFull subject receivers message login password =
     all_of
      ([NetSmtpReadServerAnswer rd,
        smtp_say wr (\<lambda>r. \<not> r < 0) SMTP_EHLO,
        NetSmtpReadServerAnswer rd,
        smtp_say wr any_result SMTP_AUTH_LOGIN,
        smtp_auth rd wr login password,
        smtp_auth rd wr login password,
        NetSmtpReadServerAnswer rd,
        smtp_print wr (\<lambda>r. r > 0) 511 (''MAIL FROM: <'' @ from @ ''>'' @ crlf),
        NetSmtpReadServerAnswer rd] @
       map (smtp_rcpt rd wr) receivers @
       [smtp_say wr (\<lambda>r. r > 0) SMTP_DATA,
        NetSmtpReadServerAnswer rd,
        smtp_print wr (\<lambda>r. r > 0) 512 (smtp_head fromFull from (hd receivers) subject),
        smtp_say wr (\<lambda>r. r > 0) message,
        smtp_say wr any_result SMTP_END,
        NetSmtpReadServerAnswer rd,
        smtp_say wr any_result SMTP_RSET,
        NetSmtpReadServerAnswer rd,
        smtp_say wr any_result SMTP_QUIT,
        NetSmtpReadServerAnswer rd])"

text \<open>
  \<open>conn\<close> is the result of \<^verbatim>\<open>NetConnect\<close>, \<open>stack\<close> what the buffer holds before it is used. The texts are \<^const>\<open>None\<close> where the caller passes no pointer.
\<close>

definition NetSmtpSendMail ::
    "'c reader \<Rightarrow> 'c writer \<Rightarrow> ('c \<Rightarrow> 'c run) \<Rightarrow> byte list \<Rightarrow> string option \<Rightarrow> 'c option \<Rightarrow> string option \<Rightarrow> string option \<Rightarrow> string option \<Rightarrow> string list \<Rightarrow>
      string option \<Rightarrow> string option \<Rightarrow> string option \<Rightarrow> (int \<times> 'c option) run" where
  "NetSmtpSendMail rd wr rel stack smtpHost conn from fromFull subject receivers message login password =
     (case (smtpHost, from, fromFull, subject, message, login, password) of
        (Some h, Some f, Some ff, Some s, Some m, Some l, Some p) \<Rightarrow>
          if receivers = [] then Some (-1, None)
          else (case conn of
                  None \<Rightarrow> Some (-1, None)
                | Some c \<Rightarrow> do {
                    (ok, st) \<leftarrow> smtp_session rd wr f ff s receivers m l p \<lparr>sm_buf = stack, sm_code = -1, sm_conn = c\<rparr>;
                    c \<leftarrow> rel (sm_conn st);
                    Some (if ok then 0 else -1, Some c) })
      | _ \<Rightarrow> Some (-1, None))"

section \<open>Base64 decoded\<close>

definition b64_index :: "char \<Rightarrow> byte" where
  "b64_index c = of_nat (length (takeWhile (\<lambda>d. d \<noteq> c) b64_charset))"

text \<open>A decoder as in RFC 4648.\<close>

fun b64_decode :: "string \<Rightarrow> byte list" where
  "b64_decode (a # b # c # d # r) =
     take (if c = CHR ''='' then 1 else if d = CHR ''='' then 2 else 3)
       [push_bit 2 (b64_index a) OR drop_bit 4 (b64_index b), push_bit 4 (b64_index b) OR drop_bit 2 (b64_index c), push_bit 6 (b64_index c) OR b64_index d] @
     b64_decode r"
| "b64_decode _ = []"

lemma byte_eqI:
  fixes a b :: byte
  assumes "\<forall>n\<in>{0, 1, 2, 3, 4, 5, 6, 7}. bit a n = bit b n"
  shows "a = b"
proof (rule bit_word_eqI)
  fix n :: nat
  assume "n < LENGTH(8)"
  then have "n \<in> {0, 1, 2, 3, 4, 5, 6, 7}" by auto
  then show "bit a n = bit b n" using assms by blast
qed

lemma block_sums:
  fixes a b :: byte
  shows "push_bit 4 (a AND 3) + drop_bit 4 (b AND 0xf0) = push_bit 4 (a AND 3) OR drop_bit 4 (b AND 0xf0)"
    and "push_bit 2 (a AND 0xf) + drop_bit 6 (b AND 0xc0) = push_bit 2 (a AND 0xf) OR drop_bit 6 (b AND 0xc0)"
  by (rule disjunctive_add_eq_or, rule byte_eqI, simp add: bit_simps)+

lemma block_4_or:
  "block_4 b =
     [drop_bit 2 (b ! 0 AND 0xfc), push_bit 4 (b ! 0 AND 0x03) OR drop_bit 4 (b ! 1 AND 0xf0),
      push_bit 2 (b ! 1 AND 0x0f) OR drop_bit 6 (b ! 2 AND 0xc0), b ! 2 AND 0x3f]"
  unfolding block_4_def block_sums ..

lemma block_joins:
  "push_bit 2 (block_4 [a, b, c] ! 0) OR drop_bit 4 (block_4 [a, b, c] ! Suc 0) = a"
  "push_bit 4 (block_4 [a, b, c] ! Suc 0) OR drop_bit 2 (block_4 [a, b, c] ! 2) = b"
  "push_bit 6 (block_4 [a, b, c] ! 2) OR block_4 [a, b, c] ! 3 = c"
  subgoal by (rule byte_eqI) (simp add: block_4_or bit_simps, simp add: numeral_2_eq_2 numeral_3_eq_3)
  subgoal by (rule byte_eqI) (simp add: block_4_or bit_simps)
  subgoal by (rule byte_eqI) (simp add: block_4_or bit_simps)
  done

lemma takeWhile_neq_nth: "distinct xs \<Longrightarrow> i < length xs \<Longrightarrow> length (takeWhile (\<lambda>d. d \<noteq> xs ! i) xs) = i"
proof (induction xs arbitrary: i)
  case (Cons x xs)
  then show ?case by (cases i) auto
qed simp

lemma b64_charset_facts: "distinct b64_charset" "length b64_charset = 64" "CHR ''='' \<notin> set b64_charset"
  by (simp_all add: b64_charset_def)

lemma b64_index_nth: "unat x < 64 \<Longrightarrow> b64_index (b64_charset ! unat x) = x"
  by (simp add: b64_index_def takeWhile_neq_nth b64_charset_facts)

lemma b64_nth_pad: "unat (x :: byte) < 64 \<Longrightarrow> b64_charset ! unat x \<noteq> CHR ''=''"
  using b64_charset_facts nth_mem [of "unat x" b64_charset] by metis

lemma six_bits: "\<not> bit (x :: byte) 6 \<Longrightarrow> \<not> bit x 7 \<Longrightarrow> unat x < 64"
proof -
  assume a: "\<not> bit x 6" "\<not> bit x 7"
  have "x = take_bit 6 x" by (rule byte_eqI) (use a in \<open>simp add: bit_simps\<close>)
  then have "unat x = take_bit 6 (unat x)" by (metis unsigned_take_bit_eq)
  then show ?thesis using take_bit_nat_less_exp [of 6 "unat x"] by simp
qed

lemma block_4_small: "\<forall>x\<in>set (block_4 b). unat x < 64"
  by (auto simp: block_4_or bit_simps intro!: six_bits)

lemma b64_text_block:
  "b64_text (block_4 [a, b, c]) @ r = b64_charset ! unat (block_4 [a, b, c] ! 0) # b64_charset ! unat (block_4 [a, b, c] ! 1) #
     b64_charset ! unat (block_4 [a, b, c] ! 2) # b64_charset ! unat (block_4 [a, b, c] ! 3) # r"
  by (simp add: b64_text_def block_4_def)

lemma block_4_index:
  assumes "k < 4"
  shows "b64_index (b64_charset ! unat (block_4 b ! k)) = block_4 b ! k" "b64_charset ! unat (block_4 b ! k) \<noteq> CHR ''=''"
proof -
  have "block_4 b ! k \<in> set (block_4 b)" using assms by (intro nth_mem) (simp add: block_4_def)
  then have "unat (block_4 b ! k) < 64" using block_4_small by blast
  then show "b64_index (b64_charset ! unat (block_4 b ! k)) = block_4 b ! k" "b64_charset ! unat (block_4 b ! k) \<noteq> CHR ''=''"
    by (rule b64_index_nth, rule b64_nth_pad)
qed

lemma decode_block: "b64_decode (b64_text (block_4 [a, b, c]) @ r) = [a, b, c] @ b64_decode r"
  unfolding b64_text_block by (simp add: block_4_index block_joins)

lemma decode_pads:
  "b64_decode (b64_text (take 2 (block_4 [a, 0, 0])) @ ''=='') = [a]"
  "b64_decode (b64_text (take 3 (block_4 [a, b, 0])) @ ''='') = [a, b]"
proof -
  have t: "b64_text (take 2 (block_4 [a, 0, 0])) = [b64_charset ! unat (block_4 [a, 0, 0] ! 0), b64_charset ! unat (block_4 [a, 0, 0] ! 1)]"
    "b64_text (take 3 (block_4 [a, b, 0])) = [b64_charset ! unat (block_4 [a, b, 0] ! 0), b64_charset ! unat (block_4 [a, b, 0] ! 1), b64_charset ! unat (block_4 [a, b, 0] ! 2)]"
    by (simp_all add: b64_text_def block_4_def)
  show "b64_decode (b64_text (take 2 (block_4 [a, 0, 0])) @ ''=='') = [a]"
    unfolding t by (simp add: block_4_index block_joins)
  show "b64_decode (b64_text (take 3 (block_4 [a, b, 0])) @ ''='') = [a, b]"
    unfolding t by (simp add: block_4_index block_joins)
qed

fun thirds :: "byte list \<Rightarrow> byte list list \<times> byte list" where
  "thirds (a # b # c # r) = (case thirds r of (bs, e) \<Rightarrow> ([a, b, c] # bs, e))"
| "thirds e = ([], e)"

lemma b64_loop_thirds: "b64_loop str [] ret = (snd (thirds str), ret @ concat (map (b64_text \<circ> block_4) (fst (thirds str))))"
  by (induction str arbitrary: ret rule: thirds.induct) (auto simp: Let_def split: prod.splits)

lemma thirds_concat: "concat (fst (thirds s)) @ snd (thirds s) = s" "length (snd (thirds s)) < 3" "\<forall>b\<in>set (fst (thirds s)). length b = 3"
  by (induction s rule: thirds.induct) (auto split: prod.splits)

lemma decode_blocks: "\<forall>b\<in>set bs. length b = 3 \<Longrightarrow> b64_decode (concat (map (b64_text \<circ> block_4) bs) @ r) = concat bs @ b64_decode r"
proof (induction bs)
  case (Cons x bs)
  then obtain a b c where "x = [a, b, c]" by (auto simp: length_Suc_conv numeral_3_eq_3)
  then show ?case using Cons decode_block by simp
qed simp

lemma base64_length: "0 \<le> sz \<Longrightarrow> nat sz \<le> length data \<Longrightarrow> \<exists>t. NetBase64 data sz = Some t"
  by (simp add: NetBase64_def mem_read_def Let_def split: prod.splits)

section \<open>The abstract dialogue\<close>

text \<open>
  What is said without regard to buffers and system calls: the items are an answer that must be positive, bytes to send, and the answer to a prompt
  for the user or for the password. The result for a list of answers is whether the dialogue came to its end, the answers that are left, and all bytes that were sent;
  there is none if the answers run out.
\<close>

datatype smtp_item = Expect | Put "byte list" | Ident "byte list" "byte list"

definition answer_text :: "byte list \<Rightarrow> string" where
  "answer_text a = c_str (text_of (butlast a))"

definition positive :: "byte list \<Rightarrow> bool" where
  "positive a \<longleftrightarrow> smtp_group (atoi_value (answer_text a)) \<in> {2, 3}"

text \<open>An answer that the sender can take: it fits into the buffer and its number is an int.\<close>

definition answer_ok :: "byte list \<Rightarrow> bool" where
  "answer_ok a \<longleftrightarrow> length a \<le> 512 \<and> atoi (answer_text a) \<noteq> None"

definition put_first :: "byte list \<Rightarrow> (bool \<times> byte list list \<times> byte list) option \<Rightarrow> (bool \<times> byte list list \<times> byte list) option" where
  "put_first d r = map_option (\<lambda>(b, q, o'). (b, q, d @ o')) r"

fun dialogue :: "smtp_item list \<Rightarrow> byte list list \<Rightarrow> (bool \<times> byte list list \<times> byte list) option" where
  "dialogue [] q = Some (True, q, [])"
| "dialogue (Put d # is) q = put_first d (dialogue is q)"
| "dialogue (Expect # is) [] = None"
| "dialogue (Expect # is) (a # q) = (if positive a then dialogue is q else Some (False, q, []))"
| "dialogue (Ident u p # is) [] = None"
| "dialogue (Ident u p # is) (a # q) =
     (if \<not> positive a then Some (False, q, [])
      else if prefix SMTP_BASE64_USER (answer_text a) then put_first u (dialogue is q)
      else if prefix SMTP_BASE64_PASS (answer_text a) then put_first p (dialogue is q)
      else Some (False, q, []))"

definition smtp_items :: "string \<Rightarrow> string \<Rightarrow> string \<Rightarrow> string list \<Rightarrow> string \<Rightarrow> string \<Rightarrow> string \<Rightarrow> smtp_item list" where
  "smtp_items from fromFull subject receivers message u p =
     [Expect, Put (bytes_of SMTP_EHLO), Expect, Put (bytes_of SMTP_AUTH_LOGIN),
      Ident (bytes_of (u @ crlf)) (bytes_of (p @ crlf)), Ident (bytes_of (u @ crlf)) (bytes_of (p @ crlf)), Expect,
      Put (bytes_of (''MAIL FROM: <'' @ from @ ''>'' @ crlf)), Expect] @
     concat (map (\<lambda>r. [Put (bytes_of (''RCPT TO: <'' @ r @ ''>'' @ crlf)), Expect]) receivers) @
     [Put (bytes_of SMTP_DATA), Expect, Put (bytes_of (smtp_head fromFull from (hd receivers) subject)), Put (bytes_of message),
      Put (bytes_of SMTP_END), Expect, Put (bytes_of SMTP_RSET), Expect, Put (bytes_of SMTP_QUIT), Expect]"

section \<open>The sender refines the dialogue\<close>

text \<open>\<open>segs\<close> are the answers of the server, each of which comes with one read (a hypothesis on the connection that a TCP socket does not promise).\<close>

locale answer_link =
  fixes rd :: "'c reader"
    and wr :: "'c writer"
    and segs :: "'c \<Rightarrow> byte list list"
    and out :: "'c \<Rightarrow> byte list"
    and ok :: "'c \<Rightarrow> bool"
  assumes rd_law: "ok c \<Longrightarrow> segs c = a # q \<Longrightarrow> length a \<le> n \<Longrightarrow>
      \<exists>c'. rd n (-1) c = Some (int (length a), a, c') \<and> segs c' = q \<and> out c' = out c \<and> ok c'"
    and wr_law: "ok c \<Longrightarrow> d \<noteq> [] \<Longrightarrow>
      \<exists>c'. wr d (-1) c = Some (int (length d), c') \<and> segs c' = segs c \<and> out c' = out c @ d \<and> ok c'"
    and segs_law: "ok c \<Longrightarrow> \<forall>a\<in>set (segs c). a \<noteq> []"
begin

definition sees :: "'c smtp \<Rightarrow> byte list list \<Rightarrow> byte list \<Rightarrow> bool" where
  "sees s q bs \<longleftrightarrow> length (sm_buf s) = 512 \<and> ok (sm_conn s) \<and> segs (sm_conn s) = q \<and> out (sm_conn s) = bs \<and> (\<forall>a\<in>set q. answer_ok a)"

text \<open>A piece of the program does the same as some items.\<close>

definition does :: "('c smtp \<Rightarrow> (bool \<times> 'c smtp) run) \<Rightarrow> smtp_item list \<Rightarrow> bool" where
  "does f is \<longleftrightarrow> (\<forall>s q bs b r sent. sees s q bs \<longrightarrow> dialogue is q = Some (b, r, sent) \<longrightarrow>
     (\<exists>s'. f s = Some (b, s') \<and> sees s' r (bs @ sent)))"

end

lemma put_first_Some: "put_first d r = Some (b, q, sent) \<longleftrightarrow> (\<exists>s'. r = Some (b, q, s') \<and> sent = d @ s')"
  by (auto simp: put_first_def)

lemma put_first_simps [simp]:
  "put_first [] r = r" "put_first d (put_first e r) = put_first (d @ e) r" "put_first d None = None"
  "put_first d (Some (b, q, sent)) = Some (b, q, d @ sent)"
  by (cases r; simp add: put_first_def case_prod_beta)+

lemma dialogue_append:
  "dialogue (xs @ ys) q =
     (case dialogue xs q of
        None \<Rightarrow> None
      | Some (b, r, sent) \<Rightarrow> if b then put_first sent (dialogue ys r) else Some (False, r, sent))"
  by (induction xs q rule: dialogue.induct) (auto split: option.splits)

lemma c_str_stop: "c_str (x @ nul # y) = c_str x"
  by (simp add: c_str_def takeWhile_tail)

lemma text_of_zero: "text_of (x @ 0 # y) = text_of x @ nul # text_of y"
proof -
  have "(char_of (0 :: nat) :: char) = CHR 0x00" by code_simp
  then show ?thesis by (simp add: text_of_def)
qed

lemma all_of_two: "all_of [f, g] = andthen f g"
proof
  fix s
  have "all_of [g] s = g s" for s by (cases "g s") (auto simp: andthen_def)
  then show "all_of [f, g] s = andthen f g s" by (simp only: all_of.simps andthen_def)
qed

context answer_link
begin

lemma does_all_of:
  "does (all_of []) []"
  "does f xs \<Longrightarrow> does (all_of fs) ys \<Longrightarrow> does (all_of (f # fs)) (xs @ ys)"
proof -
  show "does (all_of []) []" by (auto simp: does_def)
  assume f: "does f xs" and fs: "does (all_of fs) ys"
  show "does (all_of (f # fs)) (xs @ ys)"
    unfolding does_def
  proof (intro allI impI)
    fix s q bs b r sent
    assume s: "sees s q bs" and d: "dialogue (xs @ ys) q = Some (b, r, sent)"
    then obtain b1 r1 s1 where x: "dialogue xs q = Some (b1, r1, s1)" by (auto simp: dialogue_append split: option.splits)
    then obtain st where st: "f s = Some (b1, st)" "sees st r1 (bs @ s1)" using f s unfolding does_def by blast
    show "\<exists>s'. all_of (f # fs) s = Some (b, s') \<and> sees s' r (bs @ sent)"
    proof (cases b1)
      case True
      then obtain s2 where "dialogue ys r1 = Some (b, r, s2)" "sent = s1 @ s2" using d x by (auto simp: dialogue_append put_first_Some)
      then show ?thesis using fs st True unfolding does_def by (fastforce simp: andthen_def)
    next
      case False
      then show ?thesis using d x st by (auto simp: dialogue_append andthen_def)
    qed
  qed
qed

lemma does_map:
  assumes "\<And>x. x \<in> set xs \<Longrightarrow> does (f x) (g x)" "does (all_of fs) ys"
  shows "does (all_of (map f xs @ fs)) (concat (map g xs) @ ys)"
  using assms by (induction xs) (auto intro: does_all_of(2))

lemma read_answer:
  assumes "sees s (a # q) bs"
  shows "\<exists>s'. NetSmtpReadServerAnswer rd s = Some (positive a, s') \<and> sees s' q bs \<and> c_str (text_of (sm_buf s')) = answer_text a"
proof -
  have s: "length (sm_buf s) = 512" "ok (sm_conn s)" "segs (sm_conn s) = a # q" "out (sm_conn s) = bs" "length a \<le> 512" "\<forall>a\<in>set q. answer_ok a"
      and code: "atoi (answer_text a) = Some (atoi_value (answer_text a))"
    using assms by (auto simp: sees_def answer_ok_def atoi_def cint_add_def split: if_splits)
  have ne: "a \<noteq> []" using segs_law [OF s(2)] s(3) by simp
  define m where "m = 0 # drop 1 (sm_buf s)"
  have w1: "mem_write (sm_buf s) 0 [0] = Some m" "length m = 512" using s(1) by (simp_all add: mem_write_def m_def)
  obtain c where c: "rd 512 (-1) (sm_conn s) = Some (int (length a), a, c)" "segs c = q" "out c = bs" "ok c"
    using rd_law [OF s(2,3,5)] s(4) by auto
  have w2: "mem_write m 0 a = Some (a @ drop (length a) m)" using w1(2) s(5) by (simp add: mem_write_def)
  have a: "a = butlast a @ [last a]" "length a - 1 = length (butlast a)" using ne by simp_all
  define msg where "msg = butlast a @ 0 # drop (length a) m"
  have w3: "mem_write (a @ drop (length a) m) (length a - 1) [0] = Some msg" "length msg = 512"
    using ne w1(2) s(5) by (simp_all add: mem_write_def msg_def butlast_conv_take Suc_le_eq)
  have t: "c_str (text_of msg) = answer_text a" by (simp add: msg_def text_of_zero c_str_stop answer_text_def)
  have "NetSmtpReadServerAnswer rd s = Some (positive a, s\<lparr>sm_buf := msg, sm_code := atoi_value (answer_text a), sm_conn := c\<rparr>)"
    using w1 w2 w3(1) c(1) ne by (simp add: NetSmtpReadServerAnswer_def t code positive_def)
  then show ?thesis using w3(2) c s(6) t by (simp add: sees_def)
qed

lemma does_answer: "does (NetSmtpReadServerAnswer rd) [Expect]"
  unfolding does_def
proof (intro allI impI)
  fix s q bs b r sent
  assume "sees s q bs" "dialogue [Expect] q = Some (b, r, sent)"
  then show "\<exists>s'. NetSmtpReadServerAnswer rd s = Some (b, s') \<and> sees s' r (bs @ sent)"
    using read_answer [of s "hd q" "tl q" bs] by (cases q) (auto split: if_splits)
qed

lemma does_say:
  assumes "t \<noteq> []" "good (int (length t))"
  shows "does (smtp_say wr good t) [Put (bytes_of t)]"
  unfolding does_def
proof (intro allI impI)
  fix s q bs b r sent
  assume s: "sees s q bs" and d: "dialogue [Put (bytes_of t)] q = Some (b, r, sent)"
  have "bytes_of t \<noteq> []" "length (bytes_of t) = length t" using assms(1) by (simp_all add: bytes_of_def)
  then obtain c where "wr (bytes_of t) (-1) (sm_conn s) = Some (int (length t), c)" "segs c = q" "out c = bs @ bytes_of t" "ok c"
    using wr_law [of "sm_conn s" "bytes_of t"] s by (auto simp: sees_def)
  then show "\<exists>s'. smtp_say wr good t s = Some (b, s') \<and> sees s' r (bs @ sent)"
    using d s assms(2) by (auto simp: smtp_say_def sees_def)
qed

lemma print_bytes:
  assumes "sees s q bs" "t \<noteq> []" "length t < n" "n \<le> 512" "good (int (length t))"
  shows "\<exists>s'. smtp_print wr good n t s = Some (True, s') \<and> sees s' q (bs @ bytes_of t)"
proof -
  have t: "take (n - 1) t = t" "bytes_of t \<noteq> []" "length (bytes_of t) = length t" using assms(2,3) by (auto simp: bytes_of_def)
  have b: "length (sm_buf s) = 512" using assms(1) by (simp add: sees_def)
  define buf where "buf = bytes_of t @ 0 # drop (length t + 1) (sm_buf s)"
  have w: "mem_write (sm_buf s) 0 (bytes_of t @ [0]) = Some buf" "mem_read buf 0 (length t) = Some (bytes_of t)" "length buf = 512"
    using b assms(3,4) t(3) by (auto simp: mem_write_def mem_read_def buf_def)
  obtain c where "wr (bytes_of t) (-1) (sm_conn s) = Some (int (length t), c)" "segs c = q" "out c = bs @ bytes_of t" "ok c"
    using wr_law [of "sm_conn s" "bytes_of t"] assms(1) t(2,3) by (auto simp: sees_def)
  then show ?thesis using w t(1) assms(1,5) by (auto simp: smtp_print_def sees_def)
qed

lemma does_print:
  assumes "t \<noteq> []" "length t < n" "n \<le> 512" "good (int (length t))"
  shows "does (smtp_print wr good n t) [Put (bytes_of t)]"
  unfolding does_def
proof (intro allI impI)
  fix s q bs b r sent
  assume "sees s q bs" "dialogue [Put (bytes_of t)] q = Some (b, r, sent)"
  then show "\<exists>s'. smtp_print wr good n t s = Some (b, s') \<and> sees s' r (bs @ sent)"
    using print_bytes [of s q bs t n good] assms by auto
qed

lemma does_auth:
  assumes "NetBase64 (bytes_of login) (int (length login)) = Some u" "NetBase64 (bytes_of password) (int (length password)) = Some p"
    "length (u @ crlf) < 512" "length (p @ crlf) < 512"
  shows "does (smtp_auth rd wr login password) [Ident (bytes_of (u @ crlf)) (bytes_of (p @ crlf))]"
  unfolding does_def
proof (intro allI impI)
  fix s q bs b r sent
  assume s: "sees s q bs" and d: "dialogue [Ident (bytes_of (u @ crlf)) (bytes_of (p @ crlf))] q = Some (b, r, sent)"
  then obtain a q' where q: "q = a # q'" by (cases q) auto
  obtain s1 where s1: "NetSmtpReadServerAnswer rd s = Some (positive a, s1)" "sees s1 q' bs" "c_str (text_of (sm_buf s1)) = answer_text a"
    using read_answer s q by blast
  have ne: "u @ crlf \<noteq> []" "p @ crlf \<noteq> []" by (simp_all add: crlf_def)
  obtain su where su: "smtp_print wr any_result 512 (u @ crlf) s1 = Some (True, su)" "sees su q' (bs @ bytes_of (u @ crlf))"
    using print_bytes [OF s1(2) ne(1) assms(3), of any_result] by auto
  obtain sp where sp: "smtp_print wr any_result 512 (p @ crlf) s1 = Some (True, sp)" "sees sp q' (bs @ bytes_of (p @ crlf))"
    using print_bytes [OF s1(2) ne(2) assms(4), of any_result] by auto
  show "\<exists>s'. smtp_auth rd wr login password s = Some (b, s') \<and> sees s' r (bs @ sent)"
    using d q s1 su sp assms(1,2) by (auto simp: smtp_auth_def andthen_def Let_def split: if_splits)
qed

lemma does_rcpt:
  assumes "length (''RCPT TO: <'' @ receiver @ ''>'' @ crlf) < 511"
  shows "does (smtp_rcpt rd wr receiver) [Put (bytes_of (''RCPT TO: <'' @ receiver @ ''>'' @ crlf)), Expect]"
proof -
  let ?t = "''RCPT TO: <'' @ receiver @ ''>'' @ crlf"
  have "does (smtp_print wr (\<lambda>r. r > 0) 511 ?t) [Put (bytes_of ?t)]" using assms by (intro does_print) auto
  moreover have "does (all_of [NetSmtpReadServerAnswer rd]) ([Expect] @ [])" by (intro does_all_of does_answer)
  ultimately have "does (all_of [smtp_print wr (\<lambda>r. r > 0) 511 ?t, NetSmtpReadServerAnswer rd]) ([Put (bytes_of ?t)] @ [Expect] @ [])"
    by (rule does_all_of)
  moreover have "all_of [smtp_print wr (\<lambda>r. r > 0) 511 ?t, NetSmtpReadServerAnswer rd] = smtp_rcpt rd wr receiver"
    by (simp add: smtp_rcpt_def all_of_two)
  ultimately show ?thesis by simp
qed

end

text \<open>The texts fit into the buffer, and there is a message.\<close>

definition mail_fits :: "string \<Rightarrow> string \<Rightarrow> string \<Rightarrow> string list \<Rightarrow> string \<Rightarrow> string \<Rightarrow> string \<Rightarrow> bool" where
  "mail_fits from fromFull subject receivers message u p \<longleftrightarrow>
     receivers \<noteq> [] \<and> message \<noteq> [] \<and> length (u @ crlf) < 512 \<and> length (p @ crlf) < 512 \<and>
     length (''MAIL FROM: <'' @ from @ ''>'' @ crlf) < 511 \<and> (\<forall>r\<in>set receivers. length (''RCPT TO: <'' @ r @ ''>'' @ crlf) < 511) \<and>
     length (smtp_head fromFull from (hd receivers) subject) < 512"

context answer_link
begin

lemma does_session:
  assumes "NetBase64 (bytes_of login) (int (length login)) = Some u" "NetBase64 (bytes_of password) (int (length password)) = Some p"
    "mail_fits from fromFull subject receivers message u p"
  shows "does (smtp_session rd wr from fromFull subject receivers message login password) (smtp_items from fromFull subject receivers message u p)"
proof -
  note fits = assms(3) [unfolded mail_fits_def]
  let ?from = "''MAIL FROM: <'' @ from @ ''>'' @ crlf"
  let ?head = "smtp_head fromFull from (hd receivers) subject"
  have ne: "SMTP_EHLO \<noteq> []" "SMTP_AUTH_LOGIN \<noteq> []" "SMTP_DATA \<noteq> []" "SMTP_END \<noteq> []" "SMTP_RSET \<noteq> []" "SMTP_QUIT \<noteq> []" "?head \<noteq> []"
    by (simp_all add: SMTP_EHLO_def SMTP_AUTH_LOGIN_def SMTP_DATA_def SMTP_END_def SMTP_RSET_def SMTP_QUIT_def crlf_def smtp_head_def)
  have auth: "does (smtp_auth rd wr login password) [Ident (bytes_of (u @ crlf)) (bytes_of (p @ crlf))]"
    using fits by (intro does_auth assms) simp_all
  have say: "does (smtp_say wr (\<lambda>r. \<not> r < 0) SMTP_EHLO) [Put (bytes_of SMTP_EHLO)]" "does (smtp_say wr any_result SMTP_AUTH_LOGIN) [Put (bytes_of SMTP_AUTH_LOGIN)]"
    "does (smtp_say wr (\<lambda>r. r > 0) SMTP_DATA) [Put (bytes_of SMTP_DATA)]" "does (smtp_say wr (\<lambda>r. r > 0) message) [Put (bytes_of message)]"
    "does (smtp_say wr any_result SMTP_END) [Put (bytes_of SMTP_END)]" "does (smtp_say wr any_result SMTP_RSET) [Put (bytes_of SMTP_RSET)]"
    "does (smtp_say wr any_result SMTP_QUIT) [Put (bytes_of SMTP_QUIT)]"
    using ne fits by (auto intro!: does_say)
  have pr: "does (smtp_print wr (\<lambda>r. r > 0) 511 ?from) [Put (bytes_of ?from)]" "does (smtp_print wr (\<lambda>r. r > 0) 512 ?head) [Put (bytes_of ?head)]"
    using ne fits by (auto intro!: does_print)
  have rc: "does (smtp_rcpt rd wr r) [Put (bytes_of (''RCPT TO: <'' @ r @ ''>'' @ crlf)), Expect]" if "r \<in> set receivers" for r
    using that fits by (intro does_rcpt) blast
  let ?P = "[smtp_say wr (\<lambda>r. r > 0) SMTP_DATA, NetSmtpReadServerAnswer rd, smtp_print wr (\<lambda>r. r > 0) 512 ?head,
    smtp_say wr (\<lambda>r. r > 0) message, smtp_say wr any_result SMTP_END, NetSmtpReadServerAnswer rd, smtp_say wr any_result SMTP_RSET,
    NetSmtpReadServerAnswer rd, smtp_say wr any_result SMTP_QUIT, NetSmtpReadServerAnswer rd]"
  let ?I = "[Put (bytes_of SMTP_DATA)] @ [Expect] @ [Put (bytes_of ?head)] @ [Put (bytes_of message)] @ [Put (bytes_of SMTP_END)] @ [Expect] @
    [Put (bytes_of SMTP_RSET)] @ [Expect] @ [Put (bytes_of SMTP_QUIT)] @ [Expect] @ []"
  let ?R = "concat (map (\<lambda>r. [Put (bytes_of (''RCPT TO: <'' @ r @ ''>'' @ crlf)), Expect]) receivers)"
  have fin: "does (all_of ?P) ?I" by (intro does_all_of does_answer say pr)
  have mid: "does (all_of (map (smtp_rcpt rd wr) receivers @ ?P)) (?R @ ?I)" by (rule does_map) (rule rc, assumption, rule fin)
  have "does (all_of (NetSmtpReadServerAnswer rd # smtp_say wr (\<lambda>r. \<not> r < 0) SMTP_EHLO # NetSmtpReadServerAnswer rd #
        smtp_say wr any_result SMTP_AUTH_LOGIN # smtp_auth rd wr login password # smtp_auth rd wr login password # NetSmtpReadServerAnswer rd #
        smtp_print wr (\<lambda>r. r > 0) 511 ?from # NetSmtpReadServerAnswer rd # map (smtp_rcpt rd wr) receivers @ ?P))
      ([Expect] @ [Put (bytes_of SMTP_EHLO)] @ [Expect] @ [Put (bytes_of SMTP_AUTH_LOGIN)] @ [Ident (bytes_of (u @ crlf)) (bytes_of (p @ crlf))] @
       [Ident (bytes_of (u @ crlf)) (bytes_of (p @ crlf))] @ [Expect] @ [Put (bytes_of ?from)] @ [Expect] @ ?R @ ?I)"
    by (rule does_all_of(2), rule does_answer, rule does_all_of(2), rule say, rule does_all_of(2), rule does_answer, rule does_all_of(2), rule say,
        rule does_all_of(2), rule auth, rule does_all_of(2), rule auth, rule does_all_of(2), rule does_answer, rule does_all_of(2), rule pr,
        rule does_all_of(2), rule does_answer, rule mid)
  then show ?thesis unfolding smtp_session_def smtp_items_def by simp
qed

lemma send_mail:
  assumes "NetBase64 (bytes_of login) (int (length login)) = Some u" "NetBase64 (bytes_of password) (int (length password)) = Some p"
    "mail_fits from fromFull subject receivers message u p" "length stack = 512" "ok c" "segs c = q" "\<forall>a\<in>set q. answer_ok a"
    "dialogue (smtp_items from fromFull subject receivers message u p) q = Some (b, r, sent)"
  shows "\<exists>c'. NetSmtpSendMail rd wr rel stack (Some h) (Some c) (Some from) (Some fromFull) (Some subject) receivers (Some message) (Some login) (Some password) =
      do { c \<leftarrow> rel c'; Some (if b then 0 else -1, Some c) } \<and> out c' = out c @ sent \<and> segs c' = r \<and> ok c'"
proof -
  let ?s = "\<lparr>sm_buf = stack, sm_code = -1, sm_conn = c\<rparr>"
  have "sees ?s q (out c)" using assms(4-7) by (simp add: sees_def)
  then obtain s' where s': "smtp_session rd wr from fromFull subject receivers message login password ?s = Some (b, s')" "sees s' r (out c @ sent)"
    using does_session [OF assms(1-3)] assms(8) unfolding does_def by blast
  then show ?thesis using assms(3) by (intro exI [of _ "sm_conn s'"]) (simp add: NetSmtpSendMail_def mail_fits_def sees_def)
qed

end

section \<open>Mail over TCP\<close>

definition tcp_answers :: "tcp_sock NetConnection \<Rightarrow> byte list list" where
  "tcp_answers c = filter (\<lambda>s. s \<noteq> []) (ts_in (nc_world c))"

lemma first_answer: "filter (\<lambda>s. s \<noteq> []) xs = a # q \<Longrightarrow> \<exists>r. dropWhile (\<lambda>s. s = []) xs = a # r \<and> filter (\<lambda>s. s \<noteq> []) r = q"
  by (induction xs) (auto split: if_splits)

lemma write_keeps_in:
  assumes "tcp_write_loop tcp_sock_os d t k w = Some (n, w')"
  shows "ts_in w' = ts_in w"
proof -
  have "os = tcp_sock_os \<longrightarrow> ts_in (snd r) = ts_in w" if "tcp_write_loop os d t k w = Some r" for os r
  proof (rule tcp_write_loop.raw_induct [OF _ that, where P = "\<lambda>os d t k w r. os = tcp_sock_os \<longrightarrow> ts_in (snd r) = ts_in w"], goal_cases step)
    case (step f os d t k w r)
    obtain m e w1 where s: "sock_send w (drop k d) = (m, e, w1)" by (metis prod_cases3)
    then have "ts_in w1 = ts_in w" by (auto simp: sock_send_def split: list.splits if_splits)
    then show ?case using step(2) s step(1) [of os d t _ w1 r] by (auto simp: tcp_sock_os_def Let_def split: if_splits)
  qed
  then show ?thesis using assms by fastforce
qed

interpretation tcp_mail: answer_link "NetTcpConnection_read tcp_sock_os" "NetTcpConnection_write tcp_sock_os"
  tcp_answers "\<lambda>c. ts_out (nc_world c)" tcp_open
proof unfold_locales
  fix c a q n
  assume c: "tcp_open c" and a: "tcp_answers c = a # q" and n: "length a \<le> n"
  obtain r where s: "ts_segments (nc_world c) = a # r" "filter (\<lambda>s. s \<noteq> []) r = q"
    using first_answer [of "ts_in (nc_world c)" a q] a unfolding tcp_answers_def ts_segments_def by blast
  then show "\<exists>c'. NetTcpConnection_read tcp_sock_os n (-1) c = Some (int (length a), a, c') \<and> tcp_answers c' = q \<and>
      ts_out (nc_world c') = ts_out (nc_world c) \<and> tcp_open c'"
    using c n by (simp add: NetTcpConnection_read_def read_limit_def tcp_open_def tcp_sock_os_def sock_recv_def tcp_answers_def)
next
  fix c :: "tcp_sock NetConnection" and d :: "byte list"
  assume c: "tcp_open c" and d: "d \<noteq> []"
  then have "0 < length d" by simp
  from tcp_sock.write_loop_all [OF this] obtain w where
    w: "tcp_write_loop tcp_sock_os d (-1) 0 (nc_world c) = Some (int (length d), w)" "ts_out w = ts_out (nc_world c) @ d" by force
  show "\<exists>c'. NetTcpConnection_write tcp_sock_os d (-1) c = Some (int (length d), c') \<and> tcp_answers c' = tcp_answers c \<and>
      ts_out (nc_world c') = ts_out (nc_world c) @ d \<and> tcp_open c'"
    using c w write_keeps_in [OF w(1)] by (simp add: NetTcpConnection_write_def tcp_open_def tcp_answers_def)
next
  fix c
  show "\<forall>a\<in>set (tcp_answers c). a \<noteq> []" by (simp add: tcp_answers_def)
qed

section \<open>Where it fails\<close>

text \<open>
  A text that is longer than the buffer makes the sender read past it, because it takes the length that was wanted for the length that was stored; and over TCP a mail without text is
  refused, because nothing is written.
\<close>

lemma print_past_buffer: "512 < length t \<Longrightarrow> length (sm_buf s) = 512 \<Longrightarrow> n \<le> 512 \<Longrightarrow> smtp_print wr good n t s = None"
  by (simp add: smtp_print_def mem_write_def mem_read_def bytes_of_def)

lemma empty_message_refused:
  assumes "t_send os (nc_world c) [] = (0, e, w)" "e \<noteq> EWOULDBLOCK" "nc_socket c \<noteq> -1"
  shows "NetTcpConnection_write os [] (-1) c = Some (-1, c\<lparr>nc_world := w\<rparr>)"
  using assms by (simp add: NetTcpConnection_write_def tcp_write_loop.simps)

section \<open>Properties\<close>

text \<open>
  Property C40. Base64: the encoding of any data is defined, has four characters for each three bytes that were begun, and a decoder gives back the data.
\<close>

theorem base64_roundtrip:
  assumes "0 \<le> sz" "nat sz \<le> length data"
  shows "\<exists>t. NetBase64 data sz = Some t \<and> b64_decode t = take (nat sz) data \<and> length t = 4 * ((nat sz + 2) div 3)"
proof -
  define str where "str = take (nat sz) data"
  obtain bs e where th: "thirds str = (bs, e)" by (metis surj_pair)
  have f: "concat bs @ e = str" "length e < 3" "\<forall>b\<in>set bs. length b = 3" using thirds_concat [of str] th by auto
  have lb: "length (b64_text (block_4 b)) = 4" for b by (simp add: b64_text_def block_4_def)
  have len: "length (concat (map (b64_text \<circ> block_4) bs)) = 4 * length bs" "length (concat bs) = 3 * length bs"
    using f(3) by (induction bs) (auto simp: lb)
  have sz: "nat sz = 3 * length bs + length e" using f(1) len(2) assms by (metis str_def length_append length_take min.absorb2)
  let ?E = "if e = [] then [] else b64_text (take (length e + 1) (block_4 (e @ replicate (3 - length e) 0))) @ replicate (3 - length e) (CHR ''='')"
  have t: "NetBase64 data sz = Some (concat (map (b64_text \<circ> block_4) bs) @ ?E)"
    using assms th by (simp add: NetBase64_def mem_read_def b64_loop_thirds str_def Let_def)
  have lt: "length (b64_text xs) = length xs" "length (block_4 xs) = 4" for xs by (simp_all add: b64_text_def block_4_def)
  consider "e = []" | a where "e = [a]" | a b where "e = [a, b]"
    using f(2) by (cases e rule: thirds.cases) auto
  then have "b64_decode ?E = e \<and> length ?E = 4 * ((length e + 2) div 3)"
  proof cases
    case (2 a)
    then have "?E = b64_text (take 2 (block_4 [a, 0, 0])) @ ''==''" by (simp add: numeral_2_eq_2)
    then show ?thesis using 2 decode_pads(1) [of a] by (simp only: lt length_append length_take) simp
  next
    case (3 a b)
    then have "?E = b64_text (take 3 (block_4 [a, b, 0])) @ ''=''" by (simp add: numeral_3_eq_3)
    then show ?thesis using 3 decode_pads(2) [of a b] by (simp only: lt length_append length_take) simp
  qed simp
  moreover have "4 * ((nat sz + 2) div 3) = 4 * length bs + 4 * ((length e + 2) div 3)" unfolding sz by presburger
  ultimately show ?thesis using t decode_blocks [OF f(3), of ?E] f(1) len(1) unfolding str_def by simp
qed

theorem base64_roundtrip_witness:
  "NetBase64 (bytes_of ''Hello'') 5 = Some ''SGVsbG8='' \<and> b64_decode ''SGVsbG8='' = bytes_of ''Hello''"
proof -
  have "NetBase64 (bytes_of ''Hello'') 5 = Some ''SGVsbG8=''" by code_simp
  then show ?thesis using base64_roundtrip [of 5 "bytes_of ''Hello''"] by (simp add: bytes_of_def)
qed

text \<open>
  Property C39. The sender refines the abstract dialogue, over a connection that delivers every answer of the server with one read and takes every write whole. If the answers are at most 512 bytes long, begin with numbers within
  int, and are enough for the dialogue to come to an end or to a refusal, and if the command lines, the encoded user and password and the header fit into the buffer of
  512 bytes and the message is not empty, then sending a mail carries out exactly this dialogue: it sends exactly its bytes, takes its answers and no more, stops at the first refusal, then
  gives back the connection and returns 0 if the dialogue came to its end and -1 otherwise. (What giving back does is that of the method \<open>rel\<close>; for a TCP connection it runs
  into the missing \<^verbatim>\<open>return\<close> of \<^verbatim>\<open>setState\<close>. The dialogue sends the message as it is, so that a line that consists of a dot ends the mail early.)
\<close>

theorem smtp_refines_dialogue:
  assumes "answer_link rd wr segs out ok"
    "NetBase64 (bytes_of login) (int (length login)) = Some u" "NetBase64 (bytes_of password) (int (length password)) = Some p"
    "mail_fits from fromFull subject receivers message u p" "length stack = 512" "ok c" "segs c = q" "\<forall>a\<in>set q. answer_ok a"
    "dialogue (smtp_items from fromFull subject receivers message u p) q = Some (b, r, sent)"
  shows "\<exists>c'. NetSmtpSendMail rd wr rel stack (Some h) (Some c) (Some from) (Some fromFull) (Some subject) receivers (Some message) (Some login) (Some password) =
      do { c \<leftarrow> rel c'; Some (if b then 0 else -1, Some c) } \<and> out c' = out c @ sent \<and> segs c' = r \<and> ok c'"
  using answer_link.send_mail [OF assms] .

text \<open>A mail that the server accepts and one that it refuses.\<close>

theorem smtp_refines_dialogue_witness:
  "let ok = bytes_of (''250 ok'' @ crlf); greet = bytes_of (''220 hi'' @ crlf);
       yes = [greet, ok, bytes_of (SMTP_BASE64_USER @ crlf), bytes_of (SMTP_BASE64_PASS @ crlf)] @ replicate 7 ok;
       conn = (\<lambda>ins. NetTcpConnection_new 0 4 0 [] None True \<lparr>ts_script = [3, 0], ts_out = [], ts_in = ins\<rparr>);
       send = (\<lambda>rel ins. NetSmtpSendMail (NetTcpConnection_read tcp_sock_os) (NetTcpConnection_write tcp_sock_os) rel (replicate 512 0)
         (Some ''h'') (Some (conn ins)) (Some ''a@b'') (Some ''A'') (Some ''s'') [''c@d''] (Some ''hi'') (Some ''me'') (Some ''pw''))
   in (\<forall>rel. \<exists>c'. send rel yes = do { c \<leftarrow> rel c'; Some (0, Some c) } \<and> tcp_answers c' = []) \<and>
      (\<forall>rel. \<exists>c'. send rel [greet, bytes_of (''550 no'' @ crlf)] = do { c \<leftarrow> rel c'; Some (-1, Some c) } \<and> ts_out (nc_world c') = bytes_of SMTP_EHLO)"
proof -
  let ?k = "bytes_of (''250 ok'' @ crlf)" and ?g = "bytes_of (''220 hi'' @ crlf)" and ?n = "bytes_of (''550 no'' @ crlf)"
  let ?u = "bytes_of (SMTP_BASE64_USER @ crlf)" and ?p = "bytes_of (SMTP_BASE64_PASS @ crlf)"
  let ?yes = "[?g, ?k, ?u, ?p] @ replicate 7 ?k" and ?no = "[?g, ?n]"
  define c where "c ins = NetTcpConnection_new 0 4 0 [] None True \<lparr>ts_script = [3, 0], ts_out = [], ts_in = ins\<rparr>" for ins
  have b: "NetBase64 (bytes_of ''me'') (int (length ''me'')) = Some ''bWU=''" "NetBase64 (bytes_of ''pw'') (int (length ''pw'')) = Some ''cHc=''" by code_simp+
  have f: "mail_fits ''a@b'' ''A'' ''s'' [''c@d''] ''hi'' ''bWU='' ''cHc=''" by code_simp
  have st: "length (replicate 512 0 :: byte list) = 512" by simp
  have ok: "tcp_open (c ins)" "ts_out (nc_world (c ins)) = []" "tcp_answers (c ins) = filter (\<lambda>s. s \<noteq> []) ins" for ins
    by (simp_all add: c_def tcp_open_def NetTcpConnection_new_def NetConnection_new_def tcp_answers_def)
  have ne: "?k \<noteq> []" "?g \<noteq> []" "?n \<noteq> []" "?u \<noteq> []" "?p \<noteq> []" by (simp_all add: bytes_of_def crlf_def)
  have p: "positive ?k" "positive ?g" "\<not> positive ?n" "positive ?u" "positive ?p"
    "answer_ok ?k" "answer_ok ?g" "answer_ok ?n" "answer_ok ?u" "answer_ok ?p" by code_simp+
  have i: "prefix SMTP_BASE64_USER (answer_text ?u)" "prefix SMTP_BASE64_PASS (answer_text ?p)" "\<not> prefix SMTP_BASE64_USER (answer_text ?p)" by code_simp+
  have l: "\<forall>a\<in>set ?yes. answer_ok a" "\<forall>a\<in>set ?no. answer_ok a" using p by auto
  have q: "tcp_answers (c ?yes) = ?yes" "tcp_answers (c ?no) = ?no" using ne by (simp_all add: ok(3))
  obtain sent where d: "dialogue (smtp_items ''a@b'' ''A'' ''s'' [''c@d''] ''hi'' ''bWU='' ''cHc='') ?yes = Some (True, [], sent)"
    using p i by (simp add: smtp_items_def numeral_eq_Suc)
  have e: "dialogue (smtp_items ''a@b'' ''A'' ''s'' [''c@d''] ''hi'' ''bWU='' ''cHc='') ?no = Some (False, [], bytes_of SMTP_EHLO)"
    using p by (simp add: smtp_items_def)
  note m = smtp_refines_dialogue [where h = "''h''", OF tcp_mail.answer_link_axioms, OF b f st ok(1)]
  show ?thesis unfolding Let_def c_def [symmetric] using m [OF q(1) l(1) d] m [OF q(2) l(2) e] unfolding ok(2) if_True if_False append_Nil by blast
qed

end
