(* ===== verification/Spec2Isabelle.thy ===== *)
theory Spec2Isabelle
  imports
    Teg_Prelude Str_Binary IO_Fifo C_String Std_Map Secure_Acl Teg_Error Str_List SS_Map
    Lock_Sem Request_Pool Ref_Object Teg_Job Str_Verify Str_Find Str_Text Str_Tokenize
    Sftp_Wire Sftp_Client Sftp_Session Sftp_File Sftp_Dir Sftp_Cache Sftp_Cached_Session
    Sftp_Job Sftp_Transfer IO_Mixer IO_Mixer_Wire IO_Mixer_Net IO_Mixer_Props
    Secure_Conn Secure_Session Secure_Props NetEx_Hp Teg_Args
    Net_Cgi Net_Epoll Str_Source Str_Parse Net_Request Net_Tcp Net_Smtp
begin

text \<open>
  Verification of Tegenaria, a C++ library for network and system programs. The library consists of
  small components under \<^verbatim>\<open>src/Source/Core\<close> (strings, buffers, locks, jobs) and \<^verbatim>\<open>src/Source/Net\<close> (access
  lists, secure connections, SFTP); each component below has its own theory, with the names of the source.

  \<^bold>\<open>Conventions.\<close> A run that the language leaves undefined (an access outside a memory block, signed
  overflow, \<^verbatim>\<open>atoi\<close> of a number that is no int, a read of a variable that was never assigned, the end of a function with a result
  but without \<^verbatim>\<open>return\<close>) or that never returns is \<^const>\<open>None\<close> of the type
  \<open>'a run\<close>; every exit code, early return and error branch is a value. Bytes and unsigned integers are
  words of their width, an \<^verbatim>\<open>int\<close> is an integer whose additions are checked (\<open>cint_add\<close>). Loops that may run
  for ever are partial functions in the option type, all others are total; there is no fuel.
  Properties are the theorems whose text begins with a number C\<open>n\<close>; the examples after them (\<open>_witness\<close>)
  apply them to concrete data.

  \<^bold>\<open>Where the model is milder than the language.\<close> In these places, and only there, a call that C or C++ leaves undefined is given a meaning:
  the overlapping \<^verbatim>\<open>memcpy\<close> in the pops of \<^verbatim>\<open>BinaryString.cpp\<close> copies upwards (\<open>memcpy_down\<close>); the functions of \<^verbatim>\<open>ctype.h\<close> accept negative chars
  as in GNU libc, unless a definition says otherwise (\<open>encode_loop\<close>); \<open>CachedSftpClient_close\<close>, the cleaner of the cache and the reading thread come back although they have no \<^verbatim>\<open>return\<close>;
  mutexes behave as on Windows, where releasing one that is not owned is refused; and positions in texts of more than 2^31 characters
  do not overflow (\<open>minify_loop\<close>). Each of them is a finding of its own or noted at the definition.

  \<^bold>\<open>Strings and buffers.\<close>
  \<^item> \<open>Teg_Prelude\<close>: memory blocks, machine integers, object representation, the locale \<open>step_invariant\<close>
    for state machines; \<open>C_String\<close>: C strings and the library functions on them; \<open>Std_Map\<close>: the
    ordered map (locale \<open>ordered_map\<close>).
  \<^item> \<open>Str_Binary\<close> (\<^verbatim>\<open>LibStr/Binary.cpp, BinaryString.cpp\<close>): packets. The locales \<open>popper\<close> and \<open>codec\<close> state the
    wire format; packets survive the wire, pops of untrusted bytes stay inside the buffer, pushes write the bytes in the
    order of the machine or of the network, and the two families of pops agree.
  \<^item> \<open>IO_Fifo\<close> (\<^verbatim>\<open>LibIO/IOFifo.cpp\<close>): the cyclic buffer refines a list of bytes (locale \<open>byte_fifo\<close>).
  \<^item> \<open>Str_List\<close>, \<open>Str_Verify\<close>, \<open>Str_Find\<close>, \<open>Str_Text\<close>, \<open>Str_Tokenize\<close> (\<^verbatim>\<open>LibStr\<close>): string lists as sets of names
    (locale \<open>name_set\<close>), validation, searching, editing and tokenizing, with the places where they read
    past a buffer or do not end.
  \<^item> \<open>Str_Source\<close>, \<open>Str_Parse\<close> (\<^verbatim>\<open>LibStr/SourceCode.cpp, Parser.cpp, Convert.cpp, Capitalize.cpp, Random.cpp\<close>): the scanner that
    removes comments and white space from programs, related to programs as lists of pieces; popping of numbers and words, conversions.
  \<^item> \<open>SS_Map\<close> (\<^verbatim>\<open>LibSSMap\<close>): the map of strings and its round trips through strings and files;
    \<open>Secure_Acl\<close> (\<^verbatim>\<open>LibSecure/Acl.cpp\<close>): access lists, which rights a text grants, and that a malformed text
    grants nothing; \<open>Teg_Error\<close>: the error codes.

  \<^bold>\<open>Threads.\<close>
  \<^item> \<open>Lock_Sem\<close>, \<open>Request_Pool\<close> (\<^verbatim>\<open>LibLock\<close>): semaphores, mutexes and the table of pending requests, whose
    numbers stay unique under every interleaving (\<open>pool_step\<close>).
  \<^item> \<open>Ref_Object\<close>, \<open>Teg_Job\<close> (\<^verbatim>\<open>LibObject, LibJob\<close>): reference counting (locale \<open>ref_counted\<close>) and
    background jobs; a job outlives its worker unless its user gives up the last reference while the worker still runs, and what happens then.

  \<^bold>\<open>I/O mixer\<close> (\<^verbatim>\<open>LibIO/IOMixer.cpp\<close>).
  \<^item> \<open>IO_Mixer\<close>: channels over one master stream, with the rounds of the slave threads and of the master thread;
    \<open>IO_Mixer_Wire\<close>: packets on a stream that keeps the locale \<open>mixer_net\<close>, zlib being a parameter with the
    premises \<open>pack_ok\<close> and \<open>unpack_ok\<close>, which also ask for a platform on which a long of zlib is an int (\<open>z_long32\<close>); \<open>IO_Mixer_Net\<close>: a connection that interprets it, and that every channel receives
    what was sent on it; \<open>IO_Mixer_Props\<close>: arbitrary input, the table of slaves, references and defects.

  \<^bold>\<open>SFTP\<close> (\<^verbatim>\<open>LibSftp\<close>).
  \<^item> \<open>Sftp_Wire\<close>: sending, the reading thread, the hand-over of answers through the request pool. The system
    calls are a parameter (record \<open>os\<close>); the locale \<open>byte_stream\<close> says what a stream of bytes promises. A request is sent whole and its
    answer reaches it however its bytes are cut.
  \<^item> \<open>Sftp_Client\<close>: the commands; \<open>Sftp_Session\<close>, \<open>Sftp_File\<close>, \<open>Sftp_Dir\<close>: what they do with a server that keeps
    to the protocol (reads return the range of the file, writes splice into it, listings are complete) and
    with one that does not. The server is a parameter, its obligations are the premises \<open>serves_reads\<close>,
    \<open>serves_writes\<close>, \<open>serves_dir\<close>, \<open>status_server\<close>. The clock runs with the bytes (argument \<open>chunk\<close>); reads and writes that take longer than the limit
    for partial results return less than was asked for.
  \<^item> \<open>Sftp_Cache\<close>, \<open>Sftp_Cached_Session\<close>: the caching client over the contract \<open>handle_base\<close> of its base class,
    which follows for the modelled client from the contract \<open>handle_server\<close> of the server.

  \<^item> \<open>Sftp_Job\<close>, \<open>Sftp_Transfer\<close>: background jobs (\<^verbatim>\<open>SftpJob.cpp\<close>) and the workers that download, upload and
    list. The user cancels at any poll; the local file system is a map with limited room. Every worker that
    returns settles its job, transfers are copies, and what was uploaded comes back.

  \<^bold>\<open>Secure connections\<close> (\<^verbatim>\<open>LibSecure/Connection.cpp\<close>, \<^verbatim>\<open>LibNetEx\<close>).
  \<^item> \<open>Secure_Conn\<close>: handshake, messages and requests over callbacks, descriptors, sockets or no transport. OpenSSL is a
    parameter (record \<open>ssl_api\<close>), and so is the transport (record \<open>sec_io\<close>).
  \<^item> \<open>Secure_Session\<close>: what OpenSSL promises (locale \<open>dtls_session\<close>: memory buffers, four flights, records that can be opened) and
    what a transport that keeps the pieces apart promises (locale \<open>secure_link\<close>, which extends it; \<open>quiet_link\<close> adds that a read in vain returns). A reference session
    interprets all three. Handshakes complete
    and messages survive as long as they fit into the local buffers of 1024 bytes (\<open>Secure_Props\<close>), which also says what happens otherwise.
  \<^item> \<open>NetEx_Hp\<close>: the callbacks of the libevent server on top of it; a client and the server find each other and messages reach the
    handler and come back when nothing is cut or joined on the way, and what a hostile peer can do before it is authenticated.

  \<^bold>\<open>Plain connections\<close> (\<^verbatim>\<open>LibNet/NetConnection.cpp, NetTcpConnection.cpp, SMTP.cpp, Utils.cpp\<close>).
  \<^item> \<open>Net_Request\<close>: what the requests of LibNet and LibSecure share. \<open>Net_Tcp\<close>: connections over TCP. Requests are proved over the locale
    \<open>byte_link\<close>, which follows for TCP from what the kernel promises (locale \<open>tcp_kernel\<close>, a sublocale, interpreted by a scripted socket). Shutting down and destroying a connection
    end in the missing \<^verbatim>\<open>return\<close> of \<open>setState\<close>, so nothing is claimed of them.
  \<^item> \<open>Net_Smtp\<close>: base64 and the sender of mail, which refines an abstract dialogue over the locale \<open>answer_link\<close>; the scripted TCP socket interprets it.

  \<^bold>\<open>Servers without encryption\<close> (\<^verbatim>\<open>LibNet/NetEpollServer.cpp\<close>, \<^verbatim>\<open>LibCGI\<close>).
  \<^item> \<open>Net_Epoll\<close>: a connection of the epoll server with its delayed output. The locale \<open>tx_socket\<close> says what a socket does with
    bytes that are written, \<open>rx_socket\<close> adds reading; a scripted socket interprets both. Output stays in order where the calls are defined, input is served while there is room for
    the answers, and where the delaying fails.
  \<^item> \<open>Net_Cgi\<close>: encoding and decoding of URLs and of variables, on the buffer that the parser cuts and restores.

  \<^bold>\<open>Command lines\<close> (\<^verbatim>\<open>LibArgs\<close>). \<open>Teg_Args\<close>: the parser over a table of options, alone and after the tokenizer of
  LibStr; it understands what it should, and every target keeps the type of its option.

  \<^bold>\<open>Bounds.\<close> Request numbers come from a static \<^verbatim>\<open>int\<close>, so the theorems about sessions ask that the counter does
  not overflow within the call; sector sizes must leave room for the header in the 64 kB of the reading
  thread; paths in the theorems are short enough for one packet.

  \<^bold>\<open>Not modelled.\<close> Windows overloads and wide character wrappers, floating point statistics, destructors that
  only free memory, and the components that are calls of the operating system (processes, registry,
  services, the creation of sockets and threads), the cryptography inside OpenSSL, and those that depend on code pages or the clock, or that are third-party code.
\<close>

end
